(* ===== verification/Prelude.thy ===== *)
theory Prelude
  imports Complex_Main "HOL-Library.Char_ord" "HOL-Library.List_Lexorder" "HOL-Library.Product_Lexorder"
begin

text \<open>
  Shared vocabulary of the development: the types that stand for TypeScript's primitive values, and the generic
  facts on lists, options and stable sorting that several components use.

  Instants (\<open>Date.now()\<close>, ISO-8601 strings) are milliseconds since the epoch as
  \<open>int\<close>. Every ISO string of the program comes from \<open>Date#toISOString\<close>, a fixed-width
  format whose lexicographic order is the numeric order, so a string comparison in SQL
  and a comparison of numbers agree.
\<close>

type_synonym ms = int

section \<open>Lists\<close>

text \<open>\<open>COALESCE(MAX(x), 0)\<close> over a column.\<close>

fun maxOr0 :: "int list \<Rightarrow> int" where
  "maxOr0 [] = 0"
| "maxOr0 (x # xs) = fold max xs x"

lemma fold_max_ge_start: "(a::int) \<le> fold max xs a"
  by (induction xs arbitrary: a) (auto intro: order_trans [OF max.cobounded2])

lemma fold_max_ge_elem: "x \<in> set xs \<Longrightarrow> (x::int) \<le> fold max xs a"
proof (induction xs arbitrary: a)
  case (Cons y ys)
  then show ?case
    using fold_max_ge_start [of "max y a" ys] by auto
qed simp

lemma maxOr0_ge: "x \<in> set xs \<Longrightarrow> x \<le> maxOr0 xs"
  by (cases xs) (auto intro: fold_max_ge_start fold_max_ge_elem)

text \<open>The first element with a property, updated in place: an SQL \<open>UPDATE\<close> on a key.\<close>

lemma find_Some_mem: "find P xs = Some x \<Longrightarrow> x \<in> set xs \<and> P x"
  by (induction xs) (auto split: if_splits)

lemma find_None_iff_all: "find P xs = None \<longleftrightarrow> (\<forall>x\<in>set xs. \<not> P x)"
  by (auto simp: find_None_iff)

lemma find_filter: "find P (filter Q xs) = find (\<lambda>x. Q x \<and> P x) xs"
  by (induction xs) auto

lemma find_map_key:
  assumes "\<And>x. k (f x) = k x"
  shows "find (\<lambda>x. k x = i) (map f xs) = map_option f (find (\<lambda>x. k x = i) xs)"
  using assms by (induction xs) auto

lemma distinct_key_find:
  assumes "distinct (map k xs)" and "x \<in> set xs"
  shows "find (\<lambda>y. k y = k x) xs = Some x"
  using assms by (induction xs) auto

lemma list_ex_key:
  assumes "distinct (map k xs)" "find (\<lambda>r. k r = i) xs = ro"
  shows "list_ex (\<lambda>r. k r = i \<and> P r) xs = (case ro of None \<Rightarrow> False | Some r \<Rightarrow> P r)"
proof (cases ro)
  case None
  with assms(2) show ?thesis by (auto simp: list_ex_iff find_None_iff_all)
next
  case (Some r)
  then have r: "r \<in> set xs" "k r = i" using assms(2) find_Some_mem by fastforce+
  have "r' = r" if "r' \<in> set xs" "k r' = i" for r'
    using distinct_key_find [OF assms(1) that(1)] that assms(2) Some by simp
  then have "(\<exists>r'\<in>set xs. k r' = i \<and> P r') = P r" using r by blast
  with Some show ?thesis by (simp add: list_ex_iff)
qed

lemma find_append: "find P (xs @ ys) = (case find P xs of None \<Rightarrow> find P ys | Some x \<Rightarrow> Some x)"
  by (induction xs) auto

lemma find_cong_mem: "(\<And>x. x \<in> set xs \<Longrightarrow> P x = Q x) \<Longrightarrow> find P xs = find Q xs"
  by (induction xs) auto

lemma map_idI_mem: "(\<And>x. x \<in> set xs \<Longrightarrow> f x = x) \<Longrightarrow> map f xs = xs"
  by (rule map_idI)

text \<open>
  \<open>ORDER BY key LIMIT n\<close>: a stable sort followed by a prefix. The result is a sub-multiset
  of the table, sorted by the key.
\<close>

definition orderLimit :: "('a \<Rightarrow> 'k::linorder) \<Rightarrow> nat \<Rightarrow> 'a list \<Rightarrow> 'a list" where
  "orderLimit k n xs = take n (sort_key k xs)"

lemma set_orderLimit: "set (orderLimit k n xs) \<subseteq> set xs"
  unfolding orderLimit_def using set_take_subset by fastforce

lemma orderLimit_mem: "x \<in> set (orderLimit k n xs) \<Longrightarrow> x \<in> set xs"
  using set_orderLimit by fastforce

lemma sorted_orderLimit: "sorted (map k (orderLimit k n xs))"
  by (simp add: orderLimit_def sorted_wrt_take flip: take_map)

lemma distinct_orderLimit: "distinct xs \<Longrightarrow> distinct (orderLimit k n xs)"
  by (simp add: orderLimit_def)

lemma length_orderLimit: "length (orderLimit k n xs) = min n (length xs)"
  by (simp add: orderLimit_def min.commute)

lemma distinct_map_sort_key: "distinct (map f xs) \<Longrightarrow> distinct (map f (sort_key k xs))"
  by (simp add: distinct_map)

lemma distinct_map_orderLimit: "distinct (map f xs) \<Longrightarrow> distinct (map f (orderLimit k n xs))"
  by (simp add: orderLimit_def distinct_map_sort_key distinct_take flip: take_map)

lemma take_sorted_le:
  fixes f :: "'a \<Rightarrow> 'b :: linorder"
  assumes "sorted (map f xs)" "x \<in> set (take n xs)" "y \<in> set xs" "y \<notin> set (take n xs)"
  shows "f x \<le> f y"
proof -
  have "y \<in> set (drop n xs)"
    using assms(3,4) by (metis Un_iff append_take_drop_id set_append)
  moreover have "sorted (map f (take n xs) @ map f (drop n xs))"
    using assms(1) by (metis append_take_drop_id map_append)
  ultimately show ?thesis using assms(2) by (auto simp: sorted_append)
qed

lemma orderLimit_least:
  "x \<in> set (orderLimit f n xs) \<Longrightarrow> y \<in> set xs \<Longrightarrow> y \<notin> set (orderLimit f n xs) \<Longrightarrow> f x \<le> f y"
  unfolding orderLimit_def using take_sorted_le [of f "sort_key f xs" x n y] by simp

lemma orderLimit_Nil: "orderLimit f n xs = [] \<longleftrightarrow> n = 0 \<or> xs = []"
  by (simp add: orderLimit_def) (metis length_0_conv length_sort)

lemma orderLimit_full:
  "y \<in> set xs \<Longrightarrow> y \<notin> set (orderLimit f n xs) \<Longrightarrow> length (orderLimit f n xs) = n"
  by (cases "n \<le> length xs") (auto simp: orderLimit_def)

section \<open>Decimal text of a number, as JavaScript's template strings print it\<close>

fun showNat :: "nat \<Rightarrow> string" where
  "showNat n = (if n < 10 then [char_of (48 + n)] else showNat (n div 10) @ [char_of (48 + n mod 10)])"

declare showNat.simps [simp del]

lemma showNat_digits: "c \<in> set (showNat n) \<Longrightarrow> 48 \<le> (of_char c :: nat) \<and> (of_char c :: nat) < 58"
proof (induction n rule: showNat.induct)
  case (1 n)
  show ?case
  proof (cases "n < 10")
    case True
    then show ?thesis using "1.prems" by (subst (asm) showNat.simps) simp
  next
    case False
    then have "c \<in> set (showNat (n div 10)) \<or> c = char_of (48 + n mod 10)" using "1.prems" by (subst (asm) showNat.simps) auto
    then show ?thesis using 1 False by auto
  qed
qed

lemma showNat_value: "foldl (\<lambda>a c. 10 * a + (of_char c - 48)) 0 (showNat n) = (n :: nat)"
proof (induction n rule: showNat.induct)
  case (1 n)
  show ?case
  proof (cases "n < 10")
    case True
    then show ?thesis by (subst showNat.simps) simp
  next
    case False
    then show ?thesis using 1 by (subst showNat.simps) simp
  qed
qed

lemma showNat_inj: "showNat m = showNat n \<longleftrightarrow> m = n"
  by (metis showNat_value)

text \<open>A text is cut unambiguously at the first separator.\<close>

lemma split_at_sep:
  assumes "x @ c # y = x' @ c # y'" "c \<notin> set x" "c \<notin> set x'"
  shows "x = x' \<and> y = y'"
  using assms
proof (induction x arbitrary: x')
  case Nil
  then show ?case by (cases x') auto
next
  case (Cons a x)
  then show ?case by (cases x') auto
qed

definition showInt :: "int \<Rightarrow> string" where
  "showInt n = (if n < 0 then CHR ''-'' # showNat (nat (- n)) else showNat (nat n))"

section \<open>Case-insensitive substring, SQLite's \<open>LIKE '%s%'\<close> on ASCII text\<close>

definition lowerAscii :: "char \<Rightarrow> char" where
  "lowerAscii c = (let n = of_char c :: nat in if 65 \<le> n \<and> n \<le> 90 then char_of (n + 32) else c)"

fun containsText :: "string \<Rightarrow> string \<Rightarrow> bool" where
  "containsText s [] = (s = [])"
| "containsText s (c # cs) = (take (length s) (c # cs) = s \<or> containsText s cs)"

definition likeContains :: "string \<Rightarrow> string \<Rightarrow> bool" where
  "likeContains s t = containsText (map lowerAscii s) (map lowerAscii t)"

section \<open>JavaScript string operations on ASCII text\<close>

definition isSpace :: "char \<Rightarrow> bool" where
  "isSpace c = (let n = of_char c :: nat in 9 \<le> n \<and> n \<le> 13 \<or> n = 32)"

definition trimJs :: "string \<Rightarrow> string" where
  "trimJs s = rev (dropWhile isSpace (rev (dropWhile isSpace s)))"

fun splitOn :: "char \<Rightarrow> string \<Rightarrow> string list" where
  "splitOn c [] = [[]]"
| "splitOn c (x # xs) =
     (if x = c then [] # splitOn c xs
      else case splitOn c xs of [] \<Rightarrow> [[x]] | w # ws \<Rightarrow> (x # w) # ws)"

lemma splitOn_nonempty [simp]: "splitOn c s \<noteq> []"
  by (induction s) (auto split: list.splits)

definition startsWith :: "string \<Rightarrow> string \<Rightarrow> bool" where
  "startsWith s p = (take (length p) s = p)"

definition endsWith :: "string \<Rightarrow> string \<Rightarrow> bool" where
  "endsWith s p = (length p \<le> length s \<and> drop (length s - length p) s = p)"

lemma startsWith_append [simp]: "startsWith (p @ s) p"
  by (simp add: startsWith_def)

text \<open>\<open>Number(s)\<close>: the numeric value of a string, \<open>None\<close> when it is \<open>NaN\<close> or infinite.\<close>

definition digitVal :: "nat \<Rightarrow> char \<Rightarrow> nat option" where
  "digitVal b c =
     (let n = of_char (lowerAscii c) :: nat;
          v = if 48 \<le> n \<and> n \<le> 57 then n - 48 else if 97 \<le> n \<and> n \<le> 122 then n - 87 else b
      in if v < b then Some v else None)"

fun digitsVal :: "nat \<Rightarrow> nat \<Rightarrow> string \<Rightarrow> nat option" where
  "digitsVal b a [] = Some a"
| "digitsVal b a (c # cs) = (case digitVal b c of None \<Rightarrow> None | Some v \<Rightarrow> digitsVal b (a * b + v) cs)"

fun scale10 :: "string \<Rightarrow> rat option" where
  "scale10 [] = Some 1"
| "scale10 [e] = None"
| "scale10 (e # c # cs) =
     (if c = CHR ''+'' \<or> c = CHR ''-'' then
        if cs = [] then None
        else map_option (\<lambda>n. if c = CHR ''-'' then 1 / 10 ^ n else 10 ^ n) (digitsVal 10 0 cs)
      else map_option (\<lambda>n. 10 ^ n) (digitsVal 10 0 (c # cs)))"

definition unsignedDecimal :: "string \<Rightarrow> rat option" where
  "unsignedDecimal s =
     (let m = takeWhile (\<lambda>c. lowerAscii c \<noteq> CHR ''e'') s;
          i = takeWhile (\<lambda>c. c \<noteq> CHR ''.'') m;
          f = tl (drop (length i) m)
      in if i = [] \<and> f = [] then None
         else case (digitsVal 10 0 i, digitsVal 10 0 f, scale10 (drop (length m) s)) of
                (Some a, Some b, Some k) \<Rightarrow> Some ((of_nat a + of_nat b / 10 ^ length f) * k)
              | _ \<Rightarrow> None)"

definition jsNumber :: "string \<Rightarrow> rat option" where
  "jsNumber raw =
     (let s = trimJs raw;
          radix = (\<lambda>b. if drop 2 s = [] then None else map_option of_nat (digitsVal b 0 (drop 2 s)))
      in if s = [] then Some 0
         else if map lowerAscii (take 2 s) = ''0x'' then radix 16
         else if map lowerAscii (take 2 s) = ''0o'' then radix 8
         else if map lowerAscii (take 2 s) = ''0b'' then radix 2
         else if hd s = CHR ''-'' then map_option uminus (unsignedDecimal (tl s))
         else if hd s = CHR ''+'' then unsignedDecimal (tl s)
         else unsignedDecimal s)"

text \<open>\<open>Math.round\<close>: ties go up.\<close>

definition jsRound :: "rat \<Rightarrow> int" where
  "jsRound x = \<lfloor>x + 1 / 2\<rfloor>"

end
