(* ===== verification/Json.thy ===== *)
theory Json
  imports Prelude "HOL-Library.AList"
begin

text \<open>
  JSON values as the program handles them: the \<open>Record<string, unknown>\<close> payloads of the
  outbox, JavaScript's truthiness and \<open>typeof\<close> tests on them, and the text SQLite's
  \<open>json_extract\<close> yields for a value inside a \<open>||\<close> concatenation. The numbers the program
  stores in payloads are counters and revisions, so \<open>JNum\<close> carries an \<open>int\<close>.
\<close>

datatype json =
    JNull
  | JBool bool
  | JNum int
  | JStr string
  | JArr "json list"
  | JObj "(string \<times> json) list"

type_synonym obj = "(string \<times> json) list"

text \<open>\<open>payload['k']\<close>: \<open>None\<close> is \<open>undefined\<close>.\<close>

definition fld :: "obj \<Rightarrow> string \<Rightarrow> json option" where
  "fld p k = map_of p k"

lemma fld_Nil [simp]: "fld [] k = None"
  by (simp add: fld_def)

text \<open>\<open>{ ...p, k: v }\<close>\<close>

definition setFld :: "obj \<Rightarrow> string \<Rightarrow> json \<Rightarrow> obj" where
  "setFld p k v = AList.update k v p"

lemma fld_setFld: "fld (setFld p k v) k' = (if k' = k then Some v else fld p k')"
  by (simp add: fld_def setFld_def update_conv')

text \<open>JavaScript truthiness of a property read.\<close>

fun truthy :: "json option \<Rightarrow> bool" where
  "truthy None = False"
| "truthy (Some JNull) = False"
| "truthy (Some (JBool b)) = b"
| "truthy (Some (JNum n)) = (n \<noteq> 0)"
| "truthy (Some (JStr s)) = (s \<noteq> [])"
| "truthy (Some (JArr xs)) = True"
| "truthy (Some (JObj kvs)) = True"

text \<open>\<open>typeof p[k] === 'string'\<close>\<close>

definition strFld :: "obj \<Rightarrow> string \<Rightarrow> string option" where
  "strFld p k = (case fld p k of Some (JStr s) \<Rightarrow> Some s | _ \<Rightarrow> None)"

text \<open>\<open>typeof p[k] === 'string' && p[k].length > 0\<close>\<close>

definition neStrFld :: "obj \<Rightarrow> string \<Rightarrow> string option" where
  "neStrFld p k = (case strFld p k of Some s \<Rightarrow> (if s = [] then None else Some s) | None \<Rightarrow> None)"

lemma neStrFld_Some: "neStrFld p k = Some s \<longleftrightarrow> fld p k = Some (JStr s) \<and> s \<noteq> []"
  by (auto simp: neStrFld_def strFld_def split: option.splits json.splits if_splits)

lemma neStrFld_truthy: "neStrFld p k = Some s \<Longrightarrow> truthy (fld p k)"
  by (auto simp: neStrFld_Some)

text \<open>\<open>Array.isArray(p[k])\<close>\<close>

definition arrFld :: "obj \<Rightarrow> string \<Rightarrow> json list option" where
  "arrFld p k = (case fld p k of Some (JArr xs) \<Rightarrow> Some xs | _ \<Rightarrow> None)"

text \<open>\<open>xs.filter((x): x is string => typeof x === 'string')\<close>\<close>

fun strsOf :: "json list \<Rightarrow> string list" where
  "strsOf [] = []"
| "strsOf (JStr s # xs) = s # strsOf xs"
| "strsOf (_ # xs) = strsOf xs"

lemma set_strsOf: "s \<in> set (strsOf xs) \<longleftrightarrow> JStr s \<in> set xs"
  by (induction xs rule: strsOf.induct) auto

lemma length_strsOf: "length (strsOf xs) \<le> length xs"
  by (induction xs rule: strsOf.induct) auto

section \<open>\<open>JSON.stringify\<close>, for the text SQLite compares\<close>

definition hexDigit :: "nat \<Rightarrow> char" where
  "hexDigit n = (if n < 10 then char_of (48 + n) else char_of (87 + n))"

definition escapeChar :: "char \<Rightarrow> string" where
  "escapeChar c = (let n = of_char c :: nat in
     if n = 34 then [CHR 0x5C, CHR 0x22]
     else if n = 92 then [CHR 0x5C, CHR 0x5C]
     else if n = 8 then [CHR 0x5C, CHR ''b'']
     else if n = 12 then [CHR 0x5C, CHR ''f'']
     else if n = 10 then [CHR 0x5C, CHR ''n'']
     else if n = 13 then [CHR 0x5C, CHR ''r'']
     else if n = 9 then [CHR 0x5C, CHR ''t'']
     else if n < 32 then [CHR 0x5C, CHR ''u'', CHR ''0'', CHR ''0'', hexDigit (n div 16), hexDigit (n mod 16)]
     else [c])"

definition quoteStr :: "string \<Rightarrow> string" where
  "quoteStr s = CHR 0x22 # concat (map escapeChar s) @ [CHR 0x22]"

fun joinComma :: "string list \<Rightarrow> string" where
  "joinComma [] = []"
| "joinComma [s] = s"
| "joinComma (s # ss) = s @ CHR '','' # joinComma ss"

fun stringify :: "json \<Rightarrow> string" where
  "stringify JNull = ''null''"
| "stringify (JBool b) = (if b then ''true'' else ''false'')"
| "stringify (JNum n) = showInt n"
| "stringify (JStr s) = quoteStr s"
| "stringify (JArr xs) = CHR ''['' # joinComma (map stringify xs) @ '']''"
| "stringify (JObj kvs) = CHR ''{'' # joinComma (map (\<lambda>(k, v). quoteStr k @ CHR '':'' # stringify v) kvs) @ ''}''"

text \<open>
  The operand of \<open>||\<close> when \<open>json_extract\<close> read \<open>v\<close>: SQL NULL for JSON null, the text of a
  string, digits for a number, \<open>1\<close>/\<open>0\<close> for a boolean, JSON text for an array or object.
\<close>

fun sqlText :: "json option \<Rightarrow> string option" where
  "sqlText None = None"
| "sqlText (Some JNull) = None"
| "sqlText (Some (JBool b)) = Some (if b then ''1'' else ''0'')"
| "sqlText (Some (JNum n)) = Some (showInt n)"
| "sqlText (Some (JStr s)) = Some s"
| "sqlText (Some (JArr xs)) = Some (stringify (JArr xs))"
| "sqlText (Some (JObj kvs)) = Some (stringify (JObj kvs))"

text \<open>\<open>json_each(payload, '$.k')\<close>: the values iterated, none when the path is absent.\<close>

fun jsonEach :: "json option \<Rightarrow> json list" where
  "jsonEach None = []"
| "jsonEach (Some (JArr xs)) = xs"
| "jsonEach (Some (JObj kvs)) = map snd kvs"
| "jsonEach (Some v) = [v]"

end
