(* ===== verification/OutboxTypes.thy ===== *)
theory OutboxTypes
  imports Json
begin

text \<open>
  The data model of the durable outbox (\<open>outbox/types.ts\<close>, \<open>outbox/sqliteRows.ts\<close>) and the
  entity keys of supersession (\<open>outbox/supersession.ts\<close>). \<open>OutboxEntry\<close> is the TypeScript
  interface, with its optional fields; \<open>Row\<close> is one line of the SQLite table
  \<open>outbox_entries\<close>. The \<open>payload\<close> and \<open>steps\<close> columns hold JSON text the store itself wrote,
  so a cell is the value that text denotes and a NULL \<open>steps\<close> cell is the empty list.
\<close>

section \<open>\<open>outbox/types.ts\<close>\<close>

datatype StepStatus = StepPending | StepDone | StepFailed

datatype OutboxStatus = Pending | Replicating | Replicated | Failed | Dead | PendingCommit

datatype OutboxOperationKind =
    NodeUpsert | EdgeUpsert | NodeDelete | EdgeDelete
  | VerbatimUpsert | VerbatimUpsertBatch | VerbatimTombstone | VerbatimPurge
  | NodeMarkStale | SyncVectorMirror | EmbedBatch | EmbedDone
  | LoadReceived | LoadDone
  | MigrationStarted | MigrationApplied | MigrationFailed
  | StreamEvent

text \<open>The string literals of the union, as they stand in the table and in messages.\<close>

fun kindName :: "OutboxOperationKind \<Rightarrow> string" where
  "kindName NodeUpsert = ''node.upsert''"
| "kindName EdgeUpsert = ''edge.upsert''"
| "kindName NodeDelete = ''node.delete''"
| "kindName EdgeDelete = ''edge.delete''"
| "kindName VerbatimUpsert = ''verbatim.upsert''"
| "kindName VerbatimUpsertBatch = ''verbatim.upsert.batch''"
| "kindName VerbatimTombstone = ''verbatim.tombstone''"
| "kindName VerbatimPurge = ''verbatim.purge''"
| "kindName NodeMarkStale = ''node.mark_stale''"
| "kindName SyncVectorMirror = ''sync.vector.mirror''"
| "kindName EmbedBatch = ''embed.batch''"
| "kindName EmbedDone = ''embed.done''"
| "kindName LoadReceived = ''load.received''"
| "kindName LoadDone = ''load.done''"
| "kindName MigrationStarted = ''migration.started''"
| "kindName MigrationApplied = ''migration.applied''"
| "kindName MigrationFailed = ''migration.failed''"
| "kindName StreamEvent = ''stream.event''"

record OutboxStep =
  stepKind :: string
  stepStatus :: StepStatus
  stepPayload :: "obj option"
  stepError :: "string option"
  startedAt :: "ms option"
  finishedAt :: "ms option"

record OutboxEntry =
  entryId :: string
  operation :: string
  initiator :: string
  createdAt :: ms
  updatedAt :: ms
  steps :: "OutboxStep list"
  completed :: bool
  sequenceId :: "int option"
  workspace :: "string option"
  operationKind :: "OutboxOperationKind option"
  payload :: "obj option"
  status :: "OutboxStatus option"
  attempts :: "nat option"
  lastError :: "string option"
  replicatedAt :: "ms option"
  failedAt :: "ms option"
  nextAttemptAt :: "ms option"
  firstTransientAt :: "ms option"
  transientRetries :: "nat option"
  deadReason :: "string option"

text \<open>The per-workspace replication cursor.\<close>

record OutboxReplicationState =
  lastReplicatedSeq :: int
  cursorUpdatedAt :: ms

section \<open>\<open>outbox/sqliteRows.ts\<close>\<close>

record Row =
  r_id :: string
  r_workspace :: string
  r_sequenceId :: int
  r_operationKind :: OutboxOperationKind
  r_payload :: "obj option"
  r_status :: OutboxStatus
  r_attempts :: nat
  r_lastError :: "string option"
  r_createdAt :: ms
  r_updatedAt :: ms
  r_replicatedAt :: "ms option"
  r_failedAt :: "ms option"
  r_nextAttemptAt :: "ms option"
  r_steps :: "OutboxStep list"
  r_operation :: string
  r_initiator :: string
  r_completed :: bool
  r_firstTransientAt :: "ms option"
  r_transientRetries :: nat
  r_deadReason :: "string option"

definition rowToEntry :: "Row \<Rightarrow> OutboxEntry" where
  "rowToEntry r = \<lparr>
     entryId = r_id r,
     operation = r_operation r,
     initiator = r_initiator r,
     createdAt = r_createdAt r,
     updatedAt = r_updatedAt r,
     steps = r_steps r,
     completed = r_completed r,
     sequenceId = Some (r_sequenceId r),
     workspace = Some (r_workspace r),
     operationKind = Some (r_operationKind r),
     payload = r_payload r,
     status = Some (r_status r),
     attempts = Some (r_attempts r),
     lastError = r_lastError r,
     replicatedAt = r_replicatedAt r,
     failedAt = r_failedAt r,
     nextAttemptAt = r_nextAttemptAt r,
     firstTransientAt = r_firstTransientAt r,
     transientRetries = Some (r_transientRetries r),
     deadReason = r_deadReason r \<rparr>"

lemma rowToEntry_simps [simp]:
  "entryId (rowToEntry r) = r_id r"
  "operation (rowToEntry r) = r_operation r"
  "createdAt (rowToEntry r) = r_createdAt r"
  "steps (rowToEntry r) = r_steps r"
  "completed (rowToEntry r) = r_completed r"
  "sequenceId (rowToEntry r) = Some (r_sequenceId r)"
  "workspace (rowToEntry r) = Some (r_workspace r)"
  "operationKind (rowToEntry r) = Some (r_operationKind r)"
  "payload (rowToEntry r) = r_payload r"
  "status (rowToEntry r) = Some (r_status r)"
  "attempts (rowToEntry r) = Some (r_attempts r)"
  "firstTransientAt (rowToEntry r) = r_firstTransientAt r"
  "transientRetries (rowToEntry r) = Some (r_transientRetries r)"
  "lastError (rowToEntry r) = r_lastError r"
  "nextAttemptAt (rowToEntry r) = r_nextAttemptAt r"
  "deadReason (rowToEntry r) = r_deadReason r"
  by (simp_all add: rowToEntry_def)

lemma rowToEntry_inject [simp]: "rowToEntry r = rowToEntry r' \<longleftrightarrow> r = r'"
  by (auto simp: rowToEntry_def)

section \<open>\<open>outbox/supersession.ts\<close>\<close>

datatype EntityFamily = NodeFamily | EdgeFamily | VerbatimFamily

definition SUPERSEDED_DEAD_ERROR :: string where
  "SUPERSEDED_DEAD_ERROR = ''superseded by newer same-key write (RA-6)''"

definition isSupersededDeadError :: "string option \<Rightarrow> bool" where
  "isSupersededDeadError e = (e = Some SUPERSEDED_DEAD_ERROR)"

definition EDGE_KEY_SEP :: string where
  "EDGE_KEY_SEP = [CHR 0x00]"

definition edgeKey :: "string \<Rightarrow> string \<Rightarrow> string \<Rightarrow> string" where
  "edgeKey s t r = s @ EDGE_KEY_SEP @ t @ EDGE_KEY_SEP @ r"

text \<open>\<open>keyOfEntry\<close>: the entity family and the canonical key of an entry.\<close>

definition keyOfEntry :: "OutboxEntry \<Rightarrow> (EntityFamily \<times> string) option" where
  "keyOfEntry e =
     (let p = (case payload e of Some p \<Rightarrow> p | None \<Rightarrow> []) in
      case operationKind e of
        None \<Rightarrow> None
      | Some k \<Rightarrow>
          if k = NodeUpsert \<or> k = NodeDelete then
            map_option (\<lambda>i. (NodeFamily, i)) (neStrFld p ''id'')
          else if k = EdgeUpsert \<or> k = EdgeDelete then
            (case (neStrFld p ''sourceId'', neStrFld p ''targetId'', neStrFld p ''relation'') of
               (Some s, Some t, Some r) \<Rightarrow> Some (EdgeFamily, edgeKey s t r)
             | _ \<Rightarrow> None)
          else if k = VerbatimUpsert \<or> k = VerbatimTombstone \<or> k = VerbatimPurge then
            map_option (\<lambda>i. (VerbatimFamily, i)) (neStrFld p ''id'')
          else None)"

text \<open>\<open>baseFamilySql\<close>: the kinds of a family and the key expression over a stored payload.\<close>

fun familyKinds :: "EntityFamily \<Rightarrow> OutboxOperationKind list" where
  "familyKinds NodeFamily = [NodeUpsert, NodeDelete]"
| "familyKinds VerbatimFamily = [VerbatimUpsert, VerbatimTombstone, VerbatimPurge]"
| "familyKinds EdgeFamily = [EdgeUpsert, EdgeDelete]"

text \<open>
  \<open>json_extract(payload, '$.id') = ?\<close>: only a JSON string equals a bound text key; the
  edge key is a concatenation, so its operands go through SQL's text conversion and one
  NULL makes the whole NULL.
\<close>

fun keyExprEq :: "EntityFamily \<Rightarrow> obj option \<Rightarrow> string \<Rightarrow> bool" where
  "keyExprEq f None key = False"
| "keyExprEq EdgeFamily (Some p) key =
     (case (sqlText (fld p ''sourceId''), sqlText (fld p ''targetId''), sqlText (fld p ''relation'')) of
        (Some s, Some t, Some r) \<Rightarrow> edgeKey s t r = key
      | _ \<Rightarrow> False)"
| "keyExprEq f (Some p) key = (fld p ''id'' = Some (JStr key))"

definition purgeIdsMatch :: "OutboxOperationKind \<Rightarrow> obj option \<Rightarrow> string \<Rightarrow> bool" where
  "purgeIdsMatch k p key =
     (k = VerbatimPurge \<and> (case p of None \<Rightarrow> False | Some q \<Rightarrow> JStr key \<in> set (jsonEach (fld q ''ids''))))"

text \<open>\<open>supersessionFamilySql(family).match\<close> on one row.\<close>

definition familyMatch :: "EntityFamily \<Rightarrow> Row \<Rightarrow> string \<Rightarrow> bool" where
  "familyMatch f r key =
     (if f = VerbatimFamily
      then keyExprEq f (r_payload r) key \<or> purgeIdsMatch (r_operationKind r) (r_payload r) key
      else keyExprEq f (r_payload r) key)"

lemma keyOfEntry_family:
  "keyOfEntry e = Some (f, key) \<Longrightarrow> \<exists>k. operationKind e = Some k \<and> k \<in> set (familyKinds f) \<and> key \<noteq> []"
  by (auto simp: keyOfEntry_def Let_def neStrFld_Some edgeKey_def EDGE_KEY_SEP_def
      split: option.splits if_splits)

text \<open>
  The SQL key expression and \<open>keyOfEntry\<close> agree: a stored row whose own key is \<open>(f, key)\<close>
  is one the SQL of the family finds under \<open>key\<close>.
\<close>

lemma keyOfEntry_match:
  "keyOfEntry (rowToEntry r) = Some (f, key) \<Longrightarrow> familyMatch f r key"
  by (cases f)
     (auto simp: keyOfEntry_def Let_def familyMatch_def neStrFld_Some split: option.splits if_splits)

lemma append_sep_eq:
  assumes "c \<notin> set xs" and "c \<notin> set ys"
  shows "xs @ c # us = ys @ c # vs \<longleftrightarrow> xs = ys \<and> us = vs"
  using assms
proof (induction xs arbitrary: ys)
  case Nil
  then show ?case by (cases ys) auto
next
  case (Cons x xs)
  then show ?case by (cases ys) auto
qed

lemma edgeKey_inject:
  assumes "CHR 0x00 \<notin> set s" "CHR 0x00 \<notin> set s'" "CHR 0x00 \<notin> set t" "CHR 0x00 \<notin> set t'"
  shows "edgeKey s t r = edgeKey s' t' r' \<longleftrightarrow> s = s' \<and> t = t' \<and> r = r'"
  using assms by (simp add: edgeKey_def EDGE_KEY_SEP_def append_sep_eq)

end
