(* ===== verification/KeyedTable.thy ===== *)
theory KeyedTable
  imports Prelude
begin

text \<open>
  The interface of a store whose state holds a table of rows with a primary key. The
  outbox table, the pending-approval table and the other record stores of the program
  are all read by key and updated with \<open>UPDATE ... WHERE key = ?\<close> or
  \<open>DELETE ... WHERE key = ?\<close>; what a read returns after such an update is proved here once.

  \<open>rows\<close> and \<open>setRows\<close> read and replace the table inside the component's state and
  \<open>key\<close> is the primary key of a row.
\<close>

definition tableGet :: "('r \<Rightarrow> 'k) \<Rightarrow> 'r list \<Rightarrow> 'k \<Rightarrow> 'r option" where
  "tableGet key rs i = find (\<lambda>r. key r = i) rs"

definition tableUpd :: "('r \<Rightarrow> 'k) \<Rightarrow> 'k \<Rightarrow> ('r \<Rightarrow> 'r) \<Rightarrow> 'r list \<Rightarrow> 'r list" where
  "tableUpd key i f rs = map (\<lambda>r. if key r = i then f r else r) rs"

definition tablePut :: "('r \<Rightarrow> 'k) \<Rightarrow> 'r \<Rightarrow> 'r list \<Rightarrow> 'r list" where
  "tablePut key x rs = filter (\<lambda>r. key r \<noteq> key x) rs @ [x]"

text \<open>\<open>INSERT ... ON CONFLICT(key) DO UPDATE\<close> with a whole new row: in place, or appended.\<close>

definition tableSet :: "('r \<Rightarrow> 'k) \<Rightarrow> 'r \<Rightarrow> 'r list \<Rightarrow> 'r list" where
  "tableSet key x rs = (if tableGet key rs (key x) = None then rs @ [x] else tableUpd key (key x) (\<lambda>_. x) rs)"

locale keyed_table =
  fixes rows :: "'s \<Rightarrow> 'r list"
    and setRows :: "'r list \<Rightarrow> 's \<Rightarrow> 's"
    and key :: "'r \<Rightarrow> 'k"
  assumes rows_setRows: "rows (setRows rs s) = rs"
begin

lemma get_mem: "tableGet key (rows s) i = Some r \<Longrightarrow> r \<in> set (rows s) \<and> key r = i"
  unfolding tableGet_def by (rule find_Some_mem)

lemma get_unique:
  "distinct (map key (rows s)) \<Longrightarrow> r \<in> set (rows s) \<Longrightarrow> tableGet key (rows s) (key r) = Some r"
  unfolding tableGet_def by (rule distinct_key_find)

lemma get_None: "tableGet key (rows s) i = None \<longleftrightarrow> (\<forall>r\<in>set (rows s). key r \<noteq> i)"
  by (simp add: tableGet_def find_None_iff_all)

lemma keys_upd:
  assumes "\<And>r. key (f r) = key r"
  shows "map key (tableUpd key i f rs) = map key rs"
  using assms by (simp add: tableUpd_def)

lemma get_upd:
  assumes "\<And>r. key (f r) = key r"
  shows "tableGet key (rows (setRows (tableUpd key i f (rows s)) s)) j =
    (if j = i then map_option f (tableGet key (rows s) j) else tableGet key (rows s) j)"
proof -
  have "find (\<lambda>r. key r = j) (tableUpd key i f (rows s)) =
      map_option (\<lambda>r. if key r = i then f r else r) (find (\<lambda>r. key r = j) (rows s))"
    unfolding tableUpd_def by (rule find_map_key) (simp add: assms)
  then show ?thesis
    by (auto simp: rows_setRows tableGet_def option.map_comp dest: find_Some_mem
        intro!: option.map_cong option.map_ident_strong)
qed

lemma get_delete:
  "tableGet key (rows (setRows (filter P (rows s)) s)) j =
    find (\<lambda>r. P r \<and> key r = j) (rows s)"
  by (simp add: rows_setRows tableGet_def find_filter)

lemma get_put:
  "tableGet key (rows (setRows (tablePut key x (rows s)) s)) j =
    (if j = key x then Some x else tableGet key (rows s) j)"
proof -
  have *: "find (\<lambda>r. key r = j) (filter (\<lambda>r. key r \<noteq> key x) rs @ [x]) =
      (if j = key x then Some x else find (\<lambda>r. key r = j) rs)" for rs
    by (induction rs) auto
  show ?thesis
    by (simp add: rows_setRows tableGet_def tablePut_def *)
qed

lemma get_set:
  "tableGet key (rows (setRows (tableSet key x (rows s)) s)) j =
    (if j = key x then Some x else tableGet key (rows s) j)"
proof (cases "tableGet key (rows s) (key x)")
  case None
  then show ?thesis by (auto simp: rows_setRows tableSet_def tableGet_def find_append split: option.split)
next
  case (Some y)
  have "find (\<lambda>r. key r = j) (map (\<lambda>r. if key r = key x then x else r) rs) =
      map_option (\<lambda>r. if key r = key x then x else r) (find (\<lambda>r. key r = j) rs)" for rs
    by (induction rs) auto
  then show ?thesis using Some
    by (auto simp: rows_setRows tableSet_def tableUpd_def tableGet_def dest: find_Some_mem
        intro!: option.map_ident_strong)
qed

lemma distinct_set: "distinct (map key (rows s)) \<Longrightarrow> distinct (map key (tableSet key x (rows s)))"
  using get_None [of s "key x"] by (auto simp: tableSet_def tableUpd_def comp_def if_distrib cong: if_cong)

lemma set_set: "set (tableSet key x rs) \<subseteq> insert x (set rs)"
  by (auto simp: tableSet_def tableUpd_def)

lemma distinct_put:
  "distinct (map key rs) \<Longrightarrow> distinct (map key (tablePut key x rs))"
  by (auto simp: tablePut_def distinct_map inj_on_def)

end

end
