(* ===== verification/OutboxStore.thy ===== *)
theory OutboxStore
  imports OutboxTypes KeyedTable
begin

text \<open>
  \<open>SqliteOutboxStore\<close> (\<open>outbox/sqliteStore.ts\<close>, \<open>sqliteDeadLetters.ts\<close>,
  \<open>sqlitePendingCommit.ts\<close>, \<open>deleteAwareReplay.ts\<close>): the two tables as a record, one
  definition per method. A statement or transaction of better-sqlite3 runs without
  interleaving, so each method is one state transformer. The clock reading a method makes
  is its \<open>now\<close> argument. A \<open>LIMIT\<close> bound is an \<open>int\<close>; \<open>Math.max(0, limit)\<close> is \<open>nat\<close>.
\<close>

section \<open>State\<close>

record Store =
  entries :: "Row list"
  replState :: "string \<rightharpoonup> OutboxReplicationState"
  retryBaseMs :: int

datatype StoreError = WorkspaceRequired OutboxOperationKind | NotNullConstraint

definition MAX_ERROR_LEN :: nat where
  "MAX_ERROR_LEN = 1024"

definition openStore :: "int \<Rightarrow> Store" where
  "openStore base = \<lparr>entries = [], replState = Map.empty, retryBaseMs = base\<rparr>"

definition setEntries :: "Row list \<Rightarrow> Store \<Rightarrow> Store" where
  "setEntries rs st = st\<lparr>entries := rs\<rparr>"

definition getRow :: "Store \<Rightarrow> string \<Rightarrow> Row option" where
  "getRow st i = tableGet r_id (entries st) i"

definition updRow :: "Store \<Rightarrow> string \<Rightarrow> (Row \<Rightarrow> Row) \<Rightarrow> Store" where
  "updRow st i f = setEntries (tableUpd r_id i f (entries st)) st"

section \<open>Recording entries\<close>

definition nextSequenceId :: "Store \<Rightarrow> string \<Rightarrow> int" where
  "nextSequenceId st ws =
     (let r = maxOr0 (map r_sequenceId (filter (\<lambda>r. r_workspace r = ws) (entries st)));
          c = (case replState st ws of None \<Rightarrow> 0 | Some c \<Rightarrow> lastReplicatedSeq c)
      in max r c + 1)"

definition DEFAULT_WORKSPACE_BACKFILL :: string where
  "DEFAULT_WORKSPACE_BACKFILL = ''default''"

definition normalizeForWrite :: "OutboxEntry \<Rightarrow> StoreError + OutboxEntry" where
  "normalizeForWrite e =
     (let fill = (\<lambda>e. e\<lparr>status := Some (case status e of None \<Rightarrow> Pending | Some s \<Rightarrow> s),
                        attempts := Some (case attempts e of None \<Rightarrow> 0 | Some n \<Rightarrow> n)\<rparr>)
      in case operationKind e of
           Some k \<Rightarrow>
             (case workspace e of
                None \<Rightarrow> Inl (WorkspaceRequired k)
              | Some w \<Rightarrow> if w = [] then Inl (WorkspaceRequired k) else Inr (fill e))
         | None \<Rightarrow>
             Inr (fill (e\<lparr>workspace := Some (case workspace e of None \<Rightarrow> DEFAULT_WORKSPACE_BACKFILL | Some w \<Rightarrow> w),
                          operationKind := Some SyncVectorMirror\<rparr>)))"

text \<open>
  The row \<open>INSERT OR REPLACE\<close> writes. The statement does not name the columns
  \<open>firstTransientAt\<close>, \<open>transientRetries\<close> and \<open>deadReason\<close>, which take their defaults.
\<close>

definition rowOfEntry :: "OutboxEntry \<Rightarrow> string \<Rightarrow> int \<Rightarrow> OutboxOperationKind \<Rightarrow> OutboxStatus \<Rightarrow> Row" where
  "rowOfEntry e w s k t = \<lparr>
     r_id = entryId e, r_workspace = w, r_sequenceId = s, r_operationKind = k,
     r_payload = payload e, r_status = t,
     r_attempts = (case attempts e of None \<Rightarrow> 0 | Some n \<Rightarrow> n),
     r_lastError = lastError e, r_createdAt = createdAt e, r_updatedAt = updatedAt e,
     r_replicatedAt = replicatedAt e, r_failedAt = failedAt e, r_nextAttemptAt = nextAttemptAt e,
     r_steps = steps e, r_operation = operation e, r_initiator = initiator e,
     r_completed = completed e,
     r_firstTransientAt = None, r_transientRetries = 0, r_deadReason = None \<rparr>"

definition upsertRow :: "Store \<Rightarrow> OutboxEntry \<Rightarrow> StoreError + Store" where
  "upsertRow st e =
     (case (workspace e, sequenceId e, operationKind e, status e) of
        (Some w, Some s, Some k, Some t) \<Rightarrow>
          Inr (setEntries (tablePut r_id (rowOfEntry e w s k t) (entries st)) st)
      | _ \<Rightarrow> Inl NotNullConstraint)"

definition withSeq :: "Store \<Rightarrow> OutboxEntry \<Rightarrow> OutboxEntry" where
  "withSeq st e =
     (case sequenceId e of
        Some s \<Rightarrow> e
      | None \<Rightarrow> e\<lparr>sequenceId := map_option (nextSequenceId st) (workspace e)\<rparr>)"

definition recordEntry :: "Store \<Rightarrow> OutboxEntry \<Rightarrow> StoreError + Store" where
  "recordEntry st e =
     (case normalizeForWrite e of Inl err \<Rightarrow> Inl err | Inr e' \<Rightarrow> upsertRow st (withSeq st e'))"

text \<open>
  \<open>batchRecord\<close>: every entry is normalised before the transaction starts; inside it the
  sequence allocator of a workspace is read once, at its first entry without a number.
\<close>

fun normalizeAll :: "OutboxEntry list \<Rightarrow> StoreError + OutboxEntry list" where
  "normalizeAll [] = Inr []"
| "normalizeAll (e # es) =
     (case normalizeForWrite e of Inl err \<Rightarrow> Inl err
      | Inr e' \<Rightarrow> (case normalizeAll es of Inl err \<Rightarrow> Inl err | Inr es' \<Rightarrow> Inr (e' # es')))"

fun batchRows :: "(string \<rightharpoonup> int) \<Rightarrow> Store \<Rightarrow> OutboxEntry list \<Rightarrow> StoreError + Store" where
  "batchRows nx st [] = Inr st"
| "batchRows nx st (e # es) =
     (case (workspace e, sequenceId e) of
        (Some w, None) \<Rightarrow>
          (let s = (case nx w of None \<Rightarrow> nextSequenceId st w | Some s \<Rightarrow> s)
           in case upsertRow st (e\<lparr>sequenceId := Some s\<rparr>) of
                Inl err \<Rightarrow> Inl err | Inr st' \<Rightarrow> batchRows (nx(w \<mapsto> s + 1)) st' es)
      | _ \<Rightarrow> (case upsertRow st e of Inl err \<Rightarrow> Inl err | Inr st' \<Rightarrow> batchRows nx st' es))"

definition batchRecord :: "Store \<Rightarrow> OutboxEntry list \<Rightarrow> StoreError + Store" where
  "batchRecord st es =
     (if es = [] then Inr st
      else case normalizeAll es of Inl err \<Rightarrow> Inl err | Inr es' \<Rightarrow> batchRows Map.empty st es')"

section \<open>The step checklist\<close>

definition touchStep :: "OutboxStep \<Rightarrow> StepStatus \<Rightarrow> string option \<Rightarrow> ms \<Rightarrow> OutboxStep" where
  "touchStep s t err now = s\<lparr>
     stepStatus := t,
     startedAt := (case startedAt s of None \<Rightarrow> Some now | Some x \<Rightarrow> Some x),
     finishedAt := (if t = StepDone \<or> t = StepFailed then Some now else finishedAt s),
     stepError := (case err of None \<Rightarrow> stepError s
                   | Some m \<Rightarrow> if m = [] then stepError s else Some (take MAX_ERROR_LEN m)) \<rparr>"

definition markStep :: "Store \<Rightarrow> string \<Rightarrow> nat \<Rightarrow> StepStatus \<Rightarrow> string option \<Rightarrow> ms \<Rightarrow> Store" where
  "markStep st i idx t err now =
     (case getRow st i of
        None \<Rightarrow> st
      | Some r \<Rightarrow>
          if idx < length (r_steps r)
          then updRow st i (\<lambda>r. r\<lparr>r_steps := (r_steps r)[idx := touchStep (r_steps r ! idx) t err now],
                                 r_updatedAt := now\<rparr>)
          else st)"

definition completeRow :: "ms \<Rightarrow> Row \<Rightarrow> Row" where
  "completeRow now r =
     (if r_status r \<noteq> Replicated
      then r\<lparr>r_completed := True, r_updatedAt := now, r_status := Replicated, r_replicatedAt := Some now\<rparr>
      else r\<lparr>r_completed := True, r_updatedAt := now\<rparr>)"

definition allStepsDone :: "OutboxStep list \<Rightarrow> bool" where
  "allStepsDone ss = list_all (\<lambda>s. stepStatus s = StepDone) ss"

definition completeIfAllStepsDone :: "Store \<Rightarrow> string \<Rightarrow> ms \<Rightarrow> bool \<times> Store" where
  "completeIfAllStepsDone st i now =
     (case getRow st i of
        None \<Rightarrow> (False, st)
      | Some r \<Rightarrow> if allStepsDone (r_steps r) then (True, updRow st i (completeRow now)) else (False, st))"

definition markCompleted :: "Store \<Rightarrow> string \<Rightarrow> ms \<Rightarrow> Store" where
  "markCompleted st i now =
     (case getRow st i of None \<Rightarrow> st | Some r \<Rightarrow> updRow st i (completeRow now))"

section \<open>Removing rows\<close>

definition removeRow :: "Store \<Rightarrow> string \<Rightarrow> Store" where
  "removeRow st i = setEntries (filter (\<lambda>r. r_id r \<noteq> i) (entries st)) st"

definition removeIfPending :: "Store \<Rightarrow> string \<Rightarrow> bool \<times> Store" where
  "removeIfPending st i =
     (let gone = (\<lambda>r. r_id r = i \<and> (r_status r = Pending \<or> r_status r = PendingCommit));
          st' = setEntries (filter (\<lambda>r. \<not> gone r) (entries st)) st
      in if list_ex gone (entries st) then (True, st') else (getRow st' i = None, st'))"

definition deleteByWorkspace :: "Store \<Rightarrow> string \<Rightarrow> nat \<times> Store" where
  "deleteByWorkspace st ws =
     (length (filter (\<lambda>r. r_workspace r = ws) (entries st)),
      st\<lparr>entries := filter (\<lambda>r. r_workspace r \<noteq> ws) (entries st),
         replState := (replState st)(ws := None)\<rparr>)"

definition prunableRow :: "int \<Rightarrow> string option \<Rightarrow> ms \<Rightarrow> Row \<Rightarrow> bool" where
  "prunableRow olderThanMs ws now r =
     (r_status r = Replicated \<and> (case ws of None \<Rightarrow> True | Some w \<Rightarrow> r_workspace r = w) \<and>
      (case r_replicatedAt r of Some t \<Rightarrow> t | None \<Rightarrow> r_updatedAt r) \<le> now - max 0 olderThanMs)"

definition pruneIds :: "Store \<Rightarrow> int \<Rightarrow> string option \<Rightarrow> int \<Rightarrow> ms \<Rightarrow> string list" where
  "pruneIds st olderThanMs ws limit now =
     map r_id (orderLimit (\<lambda>r. (r_workspace r, r_sequenceId r)) (nat limit)
       (filter (prunableRow olderThanMs ws now) (entries st)))"

definition pruneReplicated :: "Store \<Rightarrow> int \<Rightarrow> string option \<Rightarrow> int \<Rightarrow> ms \<Rightarrow> nat \<times> Store" where
  "pruneReplicated st olderThanMs ws limit now =
     (let ids = pruneIds st olderThanMs ws limit now
      in (length (filter (\<lambda>r. r_id r \<in> set ids) (entries st)),
          setEntries (filter (\<lambda>r. r_id r \<notin> set ids) (entries st)) st))"

section \<open>\<open>pending_commit\<close> rows\<close>

definition commitRow :: "ms \<Rightarrow> Row \<Rightarrow> Row" where
  "commitRow now r = (if r_status r = PendingCommit then r\<lparr>r_status := Pending, r_updatedAt := now\<rparr> else r)"

fun markCommitted :: "Store \<Rightarrow> string list \<Rightarrow> ms \<Rightarrow> nat \<times> Store" where
  "markCommitted st [] now = (0, st)"
| "markCommitted st (i # is) now =
     (let hit = list_ex (\<lambda>r. r_id r = i \<and> r_status r = PendingCommit) (entries st);
          (n, st') = markCommitted (updRow st i (commitRow now)) is now
      in ((if hit then 1 else 0) + n, st'))"

definition listPendingCommit :: "Store \<Rightarrow> int \<Rightarrow> OutboxEntry list" where
  "listPendingCommit st limit =
     map rowToEntry (orderLimit (\<lambda>r. (r_createdAt r, r_sequenceId r)) (nat limit)
       (filter (\<lambda>r. r_status r = PendingCommit) (entries st)))"

section \<open>The replicator's primitives\<close>

definition dueRow :: "Row \<Rightarrow> ms \<Rightarrow> bool" where
  "dueRow r now = (case r_nextAttemptAt r of None \<Rightarrow> True | Some t \<Rightarrow> t \<le> now)"

definition claimableRow :: "Row \<Rightarrow> ms \<Rightarrow> bool" where
  "claimableRow r now = ((r_status r = Pending \<or> r_status r = Failed) \<and> dueRow r now)"

definition claimRow :: "ms \<Rightarrow> Row \<Rightarrow> Row" where
  "claimRow now r =
     (if claimableRow r now
      then r\<lparr>r_status := Replicating, r_updatedAt := now, r_nextAttemptAt := None\<rparr> else r)"

definition claimForReplication :: "Store \<Rightarrow> string \<Rightarrow> ms \<Rightarrow> bool \<times> Store" where
  "claimForReplication st i now =
     (list_ex (\<lambda>r. r_id r = i \<and> claimableRow r now) (entries st), updRow st i (claimRow now))"

definition listUnfinished :: "Store \<Rightarrow> OutboxEntry list" where
  "listUnfinished st = map rowToEntry (filter (\<lambda>r. \<not> r_completed r) (entries st))"

definition listPendingForWorkspace :: "Store \<Rightarrow> string \<Rightarrow> int \<Rightarrow> ms \<Rightarrow> OutboxEntry list" where
  "listPendingForWorkspace st ws limit now =
     map rowToEntry (orderLimit r_sequenceId (nat limit)
       (filter (\<lambda>r. r_workspace r = ws \<and> claimableRow r now) (entries st)))"

definition listWorkspacesWithPending :: "Store \<Rightarrow> string list" where
  "listWorkspacesWithPending st =
     remdups (map r_workspace (filter (\<lambda>r. r_status r = Pending \<or> r_status r = Failed) (entries st)))"

definition computeNextAttemptAt :: "nat \<Rightarrow> ms \<Rightarrow> int \<Rightarrow> ms" where
  "computeNextAttemptAt n nowMs baseMs = nowMs + min (baseMs * 2 ^ n) 30000"

record MarkInfo =
  infoError :: "string option"
  bumpAttempt :: bool
  infoDeadReason :: "string option"

definition noInfo :: MarkInfo where
  "noInfo = \<lparr>infoError = None, bumpAttempt = False, infoDeadReason = None\<rparr>"

definition markRow :: "int \<Rightarrow> OutboxStatus \<Rightarrow> MarkInfo \<Rightarrow> ms \<Rightarrow> Row \<Rightarrow> Row" where
  "markRow base s info now r =
     (let n = r_attempts r + (if bumpAttempt info then 1 else 0) in
      r\<lparr>r_status := s,
        r_attempts := n,
        r_updatedAt := now,
        r_lastError := (case infoError info of None \<Rightarrow> r_lastError r
                        | Some m \<Rightarrow> if m = [] then r_lastError r else Some (take MAX_ERROR_LEN m)),
        r_replicatedAt := (if s = Replicated then Some now else r_replicatedAt r),
        r_failedAt := (if s = Failed \<or> s = Dead then Some now else r_failedAt r),
        r_nextAttemptAt := (if s = Failed then Some (computeNextAttemptAt n now base) else None),
        r_completed := (r_completed r \<or> s = Replicated),
        r_deadReason := (if s = Dead
                         then (case infoDeadReason info of None \<Rightarrow> r_deadReason r | Some x \<Rightarrow> Some x)
                         else r_deadReason r)\<rparr>)"

definition markEntryStatus :: "Store \<Rightarrow> string \<Rightarrow> OutboxStatus \<Rightarrow> MarkInfo \<Rightarrow> ms \<Rightarrow> Store" where
  "markEntryStatus st i s info now = updRow st i (markRow (retryBaseMs st) s info now)"

definition transientRow :: "string \<Rightarrow> ms \<Rightarrow> ms \<Rightarrow> Row \<Rightarrow> Row" where
  "transientRow err next now r = r\<lparr>
     r_status := Failed,
     r_transientRetries := r_transientRetries r + 1,
     r_firstTransientAt := (case r_firstTransientAt r of None \<Rightarrow> Some now | Some t \<Rightarrow> Some t),
     r_lastError := Some (take MAX_ERROR_LEN err),
     r_failedAt := Some now, r_nextAttemptAt := Some next, r_updatedAt := now\<rparr>"

definition recordTransientFailure ::
  "Store \<Rightarrow> string \<Rightarrow> string \<Rightarrow> ms \<Rightarrow> ms \<Rightarrow> (ms option \<times> nat) option \<times> Store" where
  "recordTransientFailure st i err next now =
     (let st' = updRow st i (transientRow err next now)
      in (map_option (\<lambda>r. (r_firstTransientAt r, r_transientRetries r)) (getRow st' i), st'))"

definition readReplicationState :: "Store \<Rightarrow> string \<Rightarrow> OutboxReplicationState" where
  "readReplicationState st ws =
     (case replState st ws of None \<Rightarrow> \<lparr>lastReplicatedSeq = 0, cursorUpdatedAt = 0\<rparr> | Some c \<Rightarrow> c)"

definition writeReplicationState :: "Store \<Rightarrow> string \<Rightarrow> OutboxReplicationState \<Rightarrow> Store" where
  "writeReplicationState st ws c =
     (case replState st ws of
        None \<Rightarrow> st\<lparr>replState := (replState st)(ws \<mapsto> c)\<rparr>
      | Some old \<Rightarrow> if lastReplicatedSeq c > lastReplicatedSeq old
                    then st\<lparr>replState := (replState st)(ws \<mapsto> c)\<rparr> else st)"

section \<open>Dead letters and operator recovery\<close>

definition listFailedOlderThan ::
  "Store \<Rightarrow> int \<Rightarrow> string option \<Rightarrow> int \<Rightarrow> bool \<Rightarrow> ms \<Rightarrow> OutboxEntry list" where
  "listFailedOlderThan st olderThanMs ws limit includeDead now =
     (let cutoff = now - max 0 olderThanMs
      in map rowToEntry (orderLimit (\<lambda>r. (r_workspace r, r_sequenceId r)) (nat limit)
           (filter (\<lambda>r. (r_status r = Failed \<or> includeDead \<and> r_status r = Dead) \<and>
                        (case ws of None \<Rightarrow> True | Some w \<Rightarrow> r_workspace r = w) \<and>
                        (case r_failedAt r of Some t \<Rightarrow> t | None \<Rightarrow> r_updatedAt r) \<le> cutoff)
              (entries st))))"

definition requeueRow :: "ms \<Rightarrow> Row \<Rightarrow> Row" where
  "requeueRow now r = r\<lparr>
     r_status := Failed, r_attempts := 0, r_lastError := None,
     r_failedAt := None, r_nextAttemptAt := None, r_completed := False,
     r_firstTransientAt := None, r_transientRetries := 0, r_deadReason := None,
     r_updatedAt := now\<rparr>"

definition requeueHit ::
  "string option \<Rightarrow> OutboxOperationKind option \<Rightarrow> string option \<Rightarrow> Row \<Rightarrow> bool" where
  "requeueHit ws kind errorContains r =
     (r_status r = Dead \<and>
      (case ws of None \<Rightarrow> True | Some w \<Rightarrow> w = [] \<or> r_workspace r = w) \<and>
      (case kind of None \<Rightarrow> True | Some k \<Rightarrow> r_operationKind r = k) \<and>
      (case errorContains of None \<Rightarrow> True
       | Some s \<Rightarrow> s = [] \<or> (case r_lastError r of None \<Rightarrow> False | Some m \<Rightarrow> likeContains s m)))"

definition requeueIds ::
  "Store \<Rightarrow> string option \<Rightarrow> OutboxOperationKind option \<Rightarrow> string option \<Rightarrow> int \<Rightarrow> string list" where
  "requeueIds st ws kind errorContains limit =
     map r_id (orderLimit (\<lambda>r. (r_workspace r, r_sequenceId r)) (nat limit)
       (filter (requeueHit ws kind errorContains) (entries st)))"

definition requeueDead ::
  "Store \<Rightarrow> string option \<Rightarrow> OutboxOperationKind option \<Rightarrow> string option \<Rightarrow> int \<Rightarrow> ms \<Rightarrow> nat \<times> Store" where
  "requeueDead st ws kind errorContains limit now =
     (let ids = requeueIds st ws kind errorContains limit
      in (length (filter (\<lambda>r. r_id r \<in> set ids) (entries st)),
          setEntries (map (\<lambda>r. if r_id r \<in> set ids then requeueRow now r else r) (entries st)) st))"

definition listDead :: "Store \<Rightarrow> string option \<Rightarrow> int \<Rightarrow> OutboxEntry list" where
  "listDead st ws limit =
     map rowToEntry (orderLimit (\<lambda>r. (r_workspace r, r_sequenceId r)) (nat limit)
       (filter (\<lambda>r. r_status r = Dead \<and> (case ws of None \<Rightarrow> True | Some w \<Rightarrow> r_workspace r = w)) (entries st)))"

definition MAX_DEAD_PAGE :: int where
  "MAX_DEAD_PAGE = 200"

definition listDeadPage :: "Store \<Rightarrow> string \<Rightarrow> int \<Rightarrow> int \<Rightarrow> OutboxEntry list" where
  "listDeadPage st ws limit offset =
     map rowToEntry (take (nat (min MAX_DEAD_PAGE (max 0 limit))) (drop (nat offset)
       (sort_key (\<lambda>r. (- (case r_failedAt r of Some t \<Rightarrow> t | None \<Rightarrow> r_updatedAt r), - r_sequenceId r))
         (filter (\<lambda>r. r_status r = Dead \<and> r_workspace r = ws) (entries st)))))"

definition deadReasonOf :: "Row \<Rightarrow> string" where
  "deadReasonOf r =
     (case r_deadReason r of
        Some x \<Rightarrow> x
      | None \<Rightarrow> if isSupersededDeadError (r_lastError r) then ''superseded'' else ''unclassified'')"

definition groupCounts :: "string list \<Rightarrow> (string \<times> nat) list" where
  "groupCounts xs = map (\<lambda>x. (x, count_list xs x)) (remdups xs)"

definition deadReasonCounts :: "Store \<Rightarrow> string \<Rightarrow> (string \<times> nat) list" where
  "deadReasonCounts st ws =
     groupCounts (map deadReasonOf (filter (\<lambda>r. r_status r = Dead \<and> r_workspace r = ws) (entries st)))"

record DeadSummary =
  deadLettered :: int
  sumSuperseded :: nat
  sumByReason :: "(string \<times> nat) list"

definition deadLetterSummary :: "Store \<Rightarrow> string \<Rightarrow> DeadSummary" where
  "deadLetterSummary st ws =
     (let byReason = deadReasonCounts st ws;
          total = sum_list (map snd byReason);
          superseded = (case map_of byReason ''superseded'' of None \<Rightarrow> 0 | Some n \<Rightarrow> n)
      in \<lparr>deadLettered = int total - int superseded, sumSuperseded = superseded, sumByReason = byReason\<rparr>)"

section \<open>Supersession queries\<close>

definition hasNewerReplicatedForKey :: "Store \<Rightarrow> string \<Rightarrow> EntityFamily \<Rightarrow> string \<Rightarrow> int \<Rightarrow> bool" where
  "hasNewerReplicatedForKey st ws f key seq =
     list_ex (\<lambda>r. r_workspace r = ws \<and> r_status r = Replicated \<and>
                  List.member (familyKinds f) (r_operationKind r) \<and> r_sequenceId r > seq \<and> familyMatch f r key)
       (entries st)"

fun deleteKinds :: "EntityFamily \<Rightarrow> OutboxOperationKind list" where
  "deleteKinds NodeFamily = [NodeDelete]"
| "deleteKinds EdgeFamily = [EdgeDelete]"
| "deleteKinds VerbatimFamily = [VerbatimTombstone, VerbatimPurge]"

definition hasNewerDeleteForKey :: "Store \<Rightarrow> string \<Rightarrow> EntityFamily \<Rightarrow> string \<Rightarrow> int \<Rightarrow> bool" where
  "hasNewerDeleteForKey st ws f key seq =
     list_ex (\<lambda>r. r_workspace r = ws \<and>
                  (r_status r = Pending \<or> r_status r = Replicating \<or> r_status r = Replicated) \<and>
                  List.member (deleteKinds f) (r_operationKind r) \<and> r_sequenceId r > seq \<and> familyMatch f r key)
       (entries st)"

definition queuedStatus :: "OutboxStatus \<Rightarrow> bool" where
  "queuedStatus s = (s = Pending \<or> s = Failed \<or> s = Replicating)"

definition payloadIdIs :: "obj option \<Rightarrow> string \<Rightarrow> bool" where
  "payloadIdIs p i = (case p of None \<Rightarrow> False | Some q \<Rightarrow> fld q ''id'' = Some (JStr i))"

definition newestNodeUpsertAfter :: "Store \<Rightarrow> string \<Rightarrow> string \<Rightarrow> int \<Rightarrow> OutboxEntry option" where
  "newestNodeUpsertAfter st ws nodeId seq =
     (case orderLimit (\<lambda>r. - r_sequenceId r) 1
             (filter (\<lambda>r. r_workspace r = ws \<and> payloadIdIs (r_payload r) nodeId \<and> r_sequenceId r > seq \<and>
                          r_operationKind r = NodeUpsert \<and> queuedStatus (r_status r)) (entries st)) of
        [] \<Rightarrow> None
      | r # _ \<Rightarrow> Some (rowToEntry r))"

definition queuedVerbatimUpsertIds :: "Store \<Rightarrow> string \<Rightarrow> string list \<Rightarrow> string list" where
  "queuedVerbatimUpsertIds st ws ids =
     remdups (concat (map (\<lambda>r. case r_payload r of None \<Rightarrow> []
                              | Some q \<Rightarrow> (case fld q ''id'' of Some (JStr i) \<Rightarrow> (if i \<in> set ids then [i] else []) | _ \<Rightarrow> []))
       (filter (\<lambda>r. r_workspace r = ws \<and> r_operationKind r = VerbatimUpsert \<and> queuedStatus (r_status r))
         (entries st))))"

section \<open>Statistics\<close>

record OutboxWorkspaceStats =
  wsDepth :: nat
  wsLagSeconds :: int
  wsDead :: nat
  wsDeadSuperseded :: nat
  wsDeadByReason :: "(string \<times> nat) list"
  wsPendingCommit :: nat

definition minOr :: "int list \<Rightarrow> int option" where
  "minOr xs = (case xs of [] \<Rightarrow> None | y # ys \<Rightarrow> Some (fold min ys y))"

definition wsStats :: "Store \<Rightarrow> ms \<Rightarrow> string \<Rightarrow> OutboxWorkspaceStats" where
  "wsStats st now ws =
     (let rs = filter (\<lambda>r. r_workspace r = ws) (entries st);
          q = filter (\<lambda>r. queuedStatus (r_status r)) rs;
          d = filter (\<lambda>r. r_status r = Dead) rs
      in \<lparr>wsDepth = length q,
          wsLagSeconds = (case minOr (map r_createdAt q) of None \<Rightarrow> 0 | Some c \<Rightarrow> max 0 ((now - c) div 1000)),
          wsDead = length d,
          wsDeadSuperseded = length (filter (\<lambda>r. isSupersededDeadError (r_lastError r)) d),
          wsDeadByReason = deadReasonCounts st ws,
          wsPendingCommit = length (filter (\<lambda>r. r_status r = PendingCommit) rs)\<rparr>)"

definition statsByWorkspace :: "Store \<Rightarrow> ms \<Rightarrow> (string \<times> OutboxWorkspaceStats) list" where
  "statsByWorkspace st now =
     map (\<lambda>ws. (ws, wsStats st now ws))
       (remdups (map r_workspace (filter (\<lambda>r. r_status r \<noteq> Replicated) (entries st))))"

record OutboxAggregateStats =
  aggDepth :: nat
  aggPendingCommit :: nat
  aggDead :: nat
  aggDeadSuperseded :: nat
  aggDeadByReason :: "string \<Rightarrow> nat"
  aggLagSeconds :: int
  perWorkspace :: "(string \<times> OutboxWorkspaceStats) list"

definition aggregateStats :: "Store \<Rightarrow> ms \<Rightarrow> OutboxAggregateStats" where
  "aggregateStats st now =
     (let per = statsByWorkspace st now; vs = map snd per
      in \<lparr>aggDepth = sum_list (map wsDepth vs),
          aggPendingCommit = sum_list (map wsPendingCommit vs),
          aggDead = sum_list (map wsDead vs),
          aggDeadSuperseded = sum_list (map wsDeadSuperseded vs),
          aggDeadByReason = (\<lambda>k. sum_list (map (\<lambda>v. case map_of (wsDeadByReason v) k of None \<Rightarrow> 0 | Some n \<Rightarrow> n) vs)),
          aggLagSeconds = fold (\<lambda>v m. if wsLagSeconds v > m then wsLagSeconds v else m) vs 0,
          perWorkspace = per\<rparr>)"

section \<open>The table interface\<close>

interpretation ob: keyed_table entries setEntries r_id
  by unfold_locales (simp add: setEntries_def)

lemma setEntries_simps [simp]:
  "entries (setEntries rs st) = rs"
  "replState (setEntries rs st) = replState st"
  "retryBaseMs (setEntries rs st) = retryBaseMs st"
  by (simp_all add: setEntries_def)

text \<open>Row updates keep the primary key, the workspace and the sequence number.\<close>

definition keepsKey :: "(Row \<Rightarrow> Row) \<Rightarrow> bool" where
  "keepsKey f \<longleftrightarrow> (\<forall>r. r_id (f r) = r_id r \<and> r_workspace (f r) = r_workspace r \<and> r_sequenceId (f r) = r_sequenceId r \<and>
     r_operationKind (f r) = r_operationKind r \<and> r_payload (f r) = r_payload r \<and> r_createdAt (f r) = r_createdAt r)"

lemma keepsKey_rows [simp, intro]:
  "keepsKey (completeRow now)"
  "keepsKey (commitRow now)"
  "keepsKey (claimRow now)"
  "keepsKey (markRow base s info now)"
  "keepsKey (transientRow err next now)"
  "keepsKey (requeueRow now)"
  "keepsKey (\<lambda>r. r\<lparr>r_steps := ss r, r_updatedAt := now\<rparr>)"
  by (simp_all add: keepsKey_def completeRow_def commitRow_def claimRow_def markRow_def
      transientRow_def requeueRow_def Let_def)

lemma keepsKeyD:
  assumes "keepsKey f"
  shows "r_id (f r) = r_id r" "r_workspace (f r) = r_workspace r" "r_sequenceId (f r) = r_sequenceId r"
    "r_operationKind (f r) = r_operationKind r" "r_payload (f r) = r_payload r" "r_createdAt (f r) = r_createdAt r"
  using assms by (simp_all add: keepsKey_def)

lemma getRow_updRow:
  "keepsKey f \<Longrightarrow> getRow (updRow st i f) j = (if j = i then map_option f (getRow st j) else getRow st j)"
  unfolding getRow_def updRow_def by (rule ob.get_upd) (simp add: keepsKeyD)

lemma getRow_SomeD: "getRow st i = Some r \<Longrightarrow> r \<in> set (entries st) \<and> r_id r = i"
  unfolding getRow_def by (rule ob.get_mem)

lemma getRow_None: "getRow st i = None \<longleftrightarrow> (\<forall>r\<in>set (entries st). r_id r \<noteq> i)"
  unfolding getRow_def by (rule ob.get_None)

lemma entries_updRow: "entries (updRow st i f) = map (\<lambda>r. if r_id r = i then f r else r) (entries st)"
  by (simp add: updRow_def tableUpd_def)

lemma updRow_frame [simp]:
  "replState (updRow st i f) = replState st" "retryBaseMs (updRow st i f) = retryBaseMs st"
  by (simp_all add: updRow_def)

end
