(* ===== verification/OutboxStoreProps.thy ===== *)
theory OutboxStoreProps
  imports OutboxStore
begin

text \<open>
  What \<open>SqliteOutboxStore\<close> promises: unique keys in every reachable store, fresh sequence
  numbers, exclusive claims, the invisibility of \<open>pending_commit\<close> rows, what the retention
  sweep may delete, what requeueing changes, and the arithmetic of the back-off.
\<close>

section \<open>Reachable stores and the key invariant\<close>

definition rowSlot :: "Row \<Rightarrow> string \<times> int" where
  "rowSlot r = (r_workspace r, r_sequenceId r)"

definition store_inv :: "Store \<Rightarrow> bool" where
  "store_inv st \<longleftrightarrow> distinct (map r_id (entries st)) \<and> distinct (map rowSlot (entries st))"

text \<open>
  One step of any client of the store: a producer recording entries that carry no sequence
  number of their own, the coordinator, the recovery pass, the replicator, the settle
  sweep, an operator.
\<close>

inductive store_step :: "Store \<Rightarrow> Store \<Rightarrow> bool" where
  record_step: "sequenceId e = None \<Longrightarrow> recordEntry st e = Inr st' \<Longrightarrow> store_step st st'"
| batch_step: "list_all (\<lambda>e. sequenceId e = None) es \<Longrightarrow> batchRecord st es = Inr st' \<Longrightarrow> store_step st st'"
| mark_step_step: "store_step st (markStep st i idx t err now)"
| complete_step: "store_step st (snd (completeIfAllStepsDone st i now))"
| completed_step: "store_step st (markCompleted st i now)"
| remove_step: "store_step st (removeRow st i)"
| retract_step: "store_step st (snd (removeIfPending st i))"
| purge_ws_step: "store_step st (snd (deleteByWorkspace st ws))"
| prune_step: "store_step st (snd (pruneReplicated st age wsf limit now))"
| commit_step: "store_step st (snd (markCommitted st is now))"
| claim_step: "store_step st (snd (claimForReplication st i now))"
| status_step: "store_step st (markEntryStatus st i s info now)"
| transient_step: "store_step st (snd (recordTransientFailure st i m next now))"
| requeue_step: "store_step st (snd (requeueDead st wsf k m limit now))"
| cursor_step: "store_step st (writeReplicationState st ws c)"

inductive store_reachable :: "Store \<Rightarrow> bool" where
  opened: "store_reachable (openStore base)"
| stepped: "store_reachable st \<Longrightarrow> store_step st st' \<Longrightarrow> store_reachable st'"

lemma distinct_map_filter_map:
  assumes "\<And>x. k (f x) = k x" and "distinct (map k xs)"
  shows "distinct (map k (map f (filter P xs)))"
  using assms by (induction xs) (auto simp: distinct_map)

lemma inv_map_filter:
  assumes "store_inv st" and "keepsKey f" and "entries st' = map f (filter P (entries st))"
  shows "store_inv st'"
proof -
  have "rowSlot (f r) = rowSlot r" and "r_id (f r) = r_id r" for r
    using keepsKeyD [OF assms(2)] by (simp_all add: rowSlot_def)
  then show ?thesis
    using assms distinct_map_filter_map [of r_id f "entries st" P]
      distinct_map_filter_map [of rowSlot f "entries st" P]
    by (simp add: store_inv_def)
qed

lemma inv_filter: "store_inv st \<Longrightarrow> entries st' = filter P (entries st) \<Longrightarrow> store_inv st'"
  by (rule inv_map_filter [where f = id and P = P]) (simp_all add: keepsKey_def)

lemma keepsKey_at: "keepsKey f \<Longrightarrow> keepsKey (\<lambda>r. if Q r then f r else r)"
  by (auto simp: keepsKey_def)

lemma inv_updRow: "store_inv st \<Longrightarrow> keepsKey f \<Longrightarrow> store_inv (updRow st i f)"
  by (rule inv_map_filter [where f = "\<lambda>r. if r_id r = i then f r else r" and P = "\<lambda>_. True"])
     (simp_all add: keepsKey_at entries_updRow)

lemma inv_entries: "store_inv st \<Longrightarrow> entries st' = entries st \<Longrightarrow> store_inv st'"
  by (simp add: store_inv_def)

section \<open>Sequence numbers\<close>

lemma nextSequenceId_gt_row:
  assumes "r \<in> set (entries st)" and "r_workspace r = ws"
  shows "r_sequenceId r < nextSequenceId st ws"
proof -
  have "r_sequenceId r \<in> set (map r_sequenceId (filter (\<lambda>r. r_workspace r = ws) (entries st)))"
    using assms by auto
  then have "r_sequenceId r \<le> maxOr0 (map r_sequenceId (filter (\<lambda>r. r_workspace r = ws) (entries st)))"
    by (rule maxOr0_ge)
  then show ?thesis by (simp add: nextSequenceId_def Let_def)
qed

lemma nextSequenceId_gt_cursor:
  "replState st ws = Some c \<Longrightarrow> lastReplicatedSeq c < nextSequenceId st ws"
  by (simp add: nextSequenceId_def Let_def)

lemma nextSequenceId_pos: "0 < nextSequenceId st ws \<or> replState st ws \<noteq> None"
  by (cases "replState st ws") (auto simp: nextSequenceId_def Let_def)

lemma inv_put:
  assumes inv: "store_inv st"
    and fresh: "\<And>r. r \<in> set (entries st) \<Longrightarrow> rowSlot r \<noteq> rowSlot x"
  shows "store_inv (setEntries (tablePut r_id x (entries st)) st)"
proof -
  have "rowSlot x \<notin> rowSlot ` set (filter (\<lambda>r. r_id r \<noteq> r_id x) (entries st))"
    using fresh by force
  then have "distinct (map rowSlot (tablePut r_id x (entries st)))"
    using inv by (simp add: tablePut_def store_inv_def distinct_map_filter)
  then show ?thesis
    using inv ob.distinct_put by (auto simp: store_inv_def)
qed

lemma upsertRow_inv:
  assumes "store_inv st" and "upsertRow st e = Inr st'"
    and "\<And>w s r. workspace e = Some w \<Longrightarrow> sequenceId e = Some s \<Longrightarrow> r \<in> set (entries st) \<Longrightarrow>
           r_workspace r = w \<Longrightarrow> r_sequenceId r < s"
  shows "store_inv st'"
proof -
  obtain w s k t where e: "workspace e = Some w" "sequenceId e = Some s"
    and st': "st' = setEntries (tablePut r_id (rowOfEntry e w s k t) (entries st)) st"
    using assms(2) by (auto simp: upsertRow_def split: option.splits)
  show ?thesis
    unfolding st'
    by (rule inv_put [OF assms(1)]) (use assms(3) [OF e] in \<open>force simp: rowSlot_def rowOfEntry_def\<close>)
qed

lemma upsertRow_frame:
  "upsertRow st e = Inr st' \<Longrightarrow> replState st' = replState st \<and> retryBaseMs st' = retryBaseMs st"
  by (auto simp: upsertRow_def split: option.splits)

lemma upsertRow_mem:
  assumes "upsertRow st e = Inr st'" and "r \<in> set (entries st')"
  shows "r \<in> set (entries st) \<or> (workspace e = Some (r_workspace r) \<and> sequenceId e = Some (r_sequenceId r))"
  using assms by (auto simp: upsertRow_def tablePut_def rowOfEntry_def split: option.splits)

lemma normalizeForWrite_seq: "normalizeForWrite e = Inr e' \<Longrightarrow> sequenceId e' = sequenceId e"
  by (auto simp: normalizeForWrite_def Let_def split: option.splits if_splits)

lemma normalizeAll_seq:
  "normalizeAll es = Inr es' \<Longrightarrow> list_all (\<lambda>e. sequenceId e = None) es \<Longrightarrow> list_all (\<lambda>e. sequenceId e = None) es'"
  by (induction es arbitrary: es') (auto split: sum.splits dest: normalizeForWrite_seq)

lemma recordEntry_inv:
  assumes "store_inv st" "sequenceId e = None" "recordEntry st e = Inr st'"
  shows "store_inv st'"
proof -
  obtain e' where e': "normalizeForWrite e = Inr e'" "upsertRow st (withSeq st e') = Inr st'"
    using assms(3) by (auto simp: recordEntry_def split: sum.splits)
  have "sequenceId e' = None" using e'(1) assms(2) by (simp add: normalizeForWrite_seq)
  then show ?thesis
    by (intro upsertRow_inv [OF assms(1) e'(2)]) (auto simp: withSeq_def nextSequenceId_gt_row)
qed

text \<open>The allocator map of a batch stays above every number its workspace holds.\<close>

lemma batchRows_inv:
  assumes "batchRows nx st es = Inr st'" "store_inv st" "list_all (\<lambda>e. sequenceId e = None) es"
    and "\<And>w s r. nx w = Some s \<Longrightarrow> r \<in> set (entries st) \<Longrightarrow> r_workspace r = w \<Longrightarrow> r_sequenceId r < s"
  shows "store_inv st'"
  using assms
proof (induction es arbitrary: nx st)
  case Nil
  then show ?case by simp
next
  case (Cons e es)
  have none: "sequenceId e = None" and rest: "list_all (\<lambda>e. sequenceId e = None) es"
    using Cons.prems(3) by auto
  obtain w where w: "workspace e = Some w"
    using Cons.prems(1) none by (auto simp: upsertRow_def split: option.splits)
  define s where "s = (case nx w of None \<Rightarrow> nextSequenceId st w | Some s \<Rightarrow> s)"
  obtain st1 where st1: "upsertRow st (e\<lparr>sequenceId := Some s\<rparr>) = Inr st1"
    and rec: "batchRows (nx(w \<mapsto> s + 1)) st1 es = Inr st'"
    using Cons.prems(1) none w by (auto simp: s_def Let_def split: sum.splits)
  have lt: "r_sequenceId r < s" if "r \<in> set (entries st)" "r_workspace r = w" for r
    using that Cons.prems(4) nextSequenceId_gt_row [of r st w] by (auto simp: s_def split: option.splits)
  show ?case
  proof (rule Cons.IH [OF rec _ rest])
    show "store_inv st1"
      by (rule upsertRow_inv [OF Cons.prems(2) st1]) (use w lt in auto)
    show "r_sequenceId r < s'" if "(nx(w \<mapsto> s + 1)) w' = Some s'" "r \<in> set (entries st1)" "r_workspace r = w'" for w' s' r
      using that upsertRow_mem [OF st1, of r] lt Cons.prems(4) w by (fastforce split: if_splits)
  qed
qed

lemma batchRecord_inv:
  assumes "store_inv st" "list_all (\<lambda>e. sequenceId e = None) es" "batchRecord st es = Inr st'"
  shows "store_inv st'"
proof (cases "es = []")
  case True
  with assms show ?thesis by (simp add: batchRecord_def)
next
  case False
  with assms(3) obtain es' where es': "normalizeAll es = Inr es'" "batchRows Map.empty st es' = Inr st'"
    by (auto simp: batchRecord_def split: sum.splits)
  show ?thesis
    by (rule batchRows_inv [OF es'(2) assms(1) normalizeAll_seq [OF es'(1) assms(2)]]) simp
qed

lemma markCommitted_inv: "store_inv st \<Longrightarrow> store_inv (snd (markCommitted st is now))"
  by (induction st "is" now rule: markCommitted.induct)
     (simp_all add: Let_def split_beta inv_updRow)

lemma store_step_inv: "store_step st st' \<Longrightarrow> store_inv st \<Longrightarrow> store_inv st'"
proof (induction rule: store_step.induct)
  case (record_step e st st')
  then show ?case by (blast intro: recordEntry_inv)
next
  case (batch_step es st st')
  then show ?case by (blast intro: batchRecord_inv)
next
  case (mark_step_step st i idx t err now)
  then show ?case by (simp add: markStep_def inv_updRow split: option.split)
next
  case (complete_step st i now)
  then show ?case by (simp add: completeIfAllStepsDone_def inv_updRow split: option.split)
next
  case (completed_step st i now)
  then show ?case by (simp add: markCompleted_def inv_updRow split: option.split)
next
  case (remove_step st i)
  then show ?case by (rule inv_filter) (simp add: removeRow_def)
next
  case (retract_step st i)
  then show ?case by (rule inv_filter) (simp add: removeIfPending_def Let_def)
next
  case (purge_ws_step st ws)
  then show ?case by (rule inv_filter) (simp add: deleteByWorkspace_def)
next
  case (prune_step st age wsf limit now)
  then show ?case by (rule inv_filter) (simp add: pruneReplicated_def Let_def)
next
  case (commit_step st "is" now)
  then show ?case by (rule markCommitted_inv)
next
  case (requeue_step st wsf k m limit now)
  then show ?case
    by (rule inv_map_filter [where P = "\<lambda>_. True" and
          f = "\<lambda>r. if r_id r \<in> set (requeueIds st wsf k m limit) then requeueRow now r else r"])
       (simp_all add: requeueDead_def Let_def keepsKey_at)
next
  case (cursor_step st ws c)
  then show ?case by (rule inv_entries) (simp add: writeReplicationState_def split: option.split)
qed (simp_all add: claimForReplication_def markEntryStatus_def recordTransientFailure_def Let_def inv_updRow)

lemma store_reachable_inv: "store_reachable st \<Longrightarrow> store_inv st"
proof (induction rule: store_reachable.induct)
  case (opened base)
  show ?case by (simp add: store_inv_def openStore_def)
next
  case (stepped st st')
  then show ?case by (simp add: store_step_inv)
qed

section \<open>Concrete rows for the witnesses\<close>

definition sampleRow :: "string \<Rightarrow> string \<Rightarrow> int \<Rightarrow> OutboxOperationKind \<Rightarrow> obj \<Rightarrow> OutboxStatus \<Rightarrow> Row" where
  "sampleRow i ws s k p t = \<lparr>
     r_id = i, r_workspace = ws, r_sequenceId = s, r_operationKind = k, r_payload = Some p, r_status = t,
     r_attempts = 0, r_lastError = None, r_createdAt = 0, r_updatedAt = 0, r_replicatedAt = None,
     r_failedAt = None, r_nextAttemptAt = None, r_steps = [], r_operation = ''op'', r_initiator = ''test'',
     r_completed = False, r_firstTransientAt = None, r_transientRetries = 0, r_deadReason = None \<rparr>"

definition sampleStore :: "Row list \<Rightarrow> Store" where
  "sampleStore rs = \<lparr>entries = rs, replState = Map.empty, retryBaseMs = 500\<rparr>"

definition sampleEntry :: "string \<Rightarrow> string \<Rightarrow> OutboxOperationKind \<Rightarrow> obj \<Rightarrow> OutboxEntry" where
  "sampleEntry i ws k p = \<lparr>
     entryId = i, operation = ''op'', initiator = ''test'', createdAt = 0, updatedAt = 0, steps = [],
     completed = False, sequenceId = None, workspace = Some ws, operationKind = Some k, payload = Some p,
     status = None, attempts = None, lastError = None, replicatedAt = None, failedAt = None,
     nextAttemptAt = None, firstTransientAt = None, transientRetries = None, deadReason = None \<rparr>"

lemmas sample_defs = sampleRow_def sampleStore_def sampleEntry_def

lemmas record_defs = recordEntry_def normalizeForWrite_def withSeq_def upsertRow_def rowOfEntry_def
  nextSequenceId_def tablePut_def setEntries_def openStore_def Let_def

section \<open>Properties\<close>

text \<open>C5: in every store a client can reach, no two rows share an id and no two rows of one
  workspace share a sequence number, whichever of the store's methods ran and in whatever
  order: recording, batching, claiming, settling, retracting, pruning, requeueing.\<close>

theorem store_keys_unique:
  assumes "store_reachable st"
  shows "distinct (map r_id (entries st)) \<and>
    distinct (map (\<lambda>r. (r_workspace r, r_sequenceId r)) (entries st))"
proof -
  have "store_inv st" using assms by (rule store_reachable_inv)
  moreover have "rowSlot = (\<lambda>r. (r_workspace r, r_sequenceId r))" by (auto simp: rowSlot_def)
  ultimately show ?thesis by (simp add: store_inv_def)
qed

lemma record_first:
  "recordEntry (openStore 500) (sampleEntry ''a'' ''w'' NodeUpsert []) =
     Inr (sampleStore [sampleRow ''a'' ''w'' 1 NodeUpsert [] Pending])"
  by (simp add: record_defs sample_defs)

lemma record_second:
  "recordEntry (sampleStore [sampleRow ''a'' ''w'' 1 NodeUpsert [] Pending]) (sampleEntry ''b'' ''w'' NodeDelete []) =
     Inr (sampleStore [sampleRow ''a'' ''w'' 1 NodeUpsert [] Pending, sampleRow ''b'' ''w'' 2 NodeDelete [] Pending])"
  by (simp add: record_defs sample_defs)

lemma sampleEntry_seq [simp]: "sequenceId (sampleEntry i ws k p) = None"
  by (simp add: sampleEntry_def)

lemma two_rows_reachable:
  "store_reachable (sampleStore [sampleRow ''a'' ''w'' 1 NodeUpsert [] Pending, sampleRow ''b'' ''w'' 2 NodeDelete [] Pending])"
  by (rule store_reachable.stepped [OF store_reachable.stepped [OF store_reachable.opened [of 500]
        store_step.record_step [OF sampleEntry_seq record_first]] store_step.record_step [OF sampleEntry_seq record_second]])

theorem store_keys_unique_witness:
  "store_reachable (sampleStore [sampleRow ''a'' ''w'' 1 NodeUpsert [] Pending, sampleRow ''b'' ''w'' 2 NodeDelete [] Pending]) \<and>
   distinct (map r_id (entries (sampleStore [sampleRow ''a'' ''w'' 1 NodeUpsert [] Pending, sampleRow ''b'' ''w'' 2 NodeDelete [] Pending])))"
  using two_rows_reachable store_keys_unique [OF two_rows_reachable] by blast

lemma recordEntry_eq:
  assumes "sequenceId e = None"
  shows "recordEntry st e =
    (case (operationKind e, workspace e) of
       (Some k, None) \<Rightarrow> Inl (WorkspaceRequired k)
     | (Some k, Some []) \<Rightarrow> Inl (WorkspaceRequired k)
     | (ko, wo) \<Rightarrow>
         (let w = (case wo of None \<Rightarrow> DEFAULT_WORKSPACE_BACKFILL | Some w \<Rightarrow> w);
              k = (case ko of None \<Rightarrow> SyncVectorMirror | Some k \<Rightarrow> k);
              t = (case status e of None \<Rightarrow> Pending | Some s \<Rightarrow> s)
          in Inr (setEntries (tablePut r_id (rowOfEntry e w (nextSequenceId st w) k t) (entries st)) st)))"
  using assms
  by (auto simp: recordEntry_def normalizeForWrite_def withSeq_def upsertRow_def rowOfEntry_def Let_def
      split: option.splits list.splits)



lemma claim_fst:
  "store_inv st \<Longrightarrow> fst (claimForReplication st i now) = (case getRow st i of None \<Rightarrow> False | Some r \<Rightarrow> claimableRow r now)"
  by (simp add: claimForReplication_def store_inv_def getRow_def tableGet_def list_ex_key [OF _ refl])

lemma claim_get:
  "getRow (snd (claimForReplication st i now)) j = (if j = i then map_option (claimRow now) (getRow st j) else getRow st j)"
  by (simp add: claimForReplication_def getRow_updRow)

lemma claim_inv: "store_inv st \<Longrightarrow> store_inv (snd (claimForReplication st i now))"
  by (rule store_step_inv [OF store_step.claim_step])

lemma retract_eq:
  assumes "store_inv st"
  shows "removeIfPending st i =
    (case getRow st i of
       None \<Rightarrow> (True, st)
     | Some r \<Rightarrow> if r_status r = Pending \<or> r_status r = PendingCommit
                 then (True, removeRow st i) else (False, st))"
proof (cases "getRow st i")
  case None
  then have "\<forall>r\<in>set (entries st). r_id r \<noteq> i" by (simp add: getRow_None)
  then have "filter (\<lambda>r. \<not> (r_id r = i \<and> (r_status r = Pending \<or> r_status r = PendingCommit))) (entries st) = entries st"
    by (intro filter_True) auto
  with None show ?thesis
    by (auto simp: removeIfPending_def Let_def setEntries_def getRow_def)
next
  case (Some r)
  have only: "r' = r" if "r' \<in> set (entries st)" "r_id r' = i" for r'
    using that assms Some ob.get_unique [of st r'] by (simp add: store_inv_def getRow_def)
  have mem: "r \<in> set (entries st)" "r_id r = i" using getRow_SomeD [OF Some] by auto
  have ex: "list_ex (\<lambda>r. r_id r = i \<and> (r_status r = Pending \<or> r_status r = PendingCommit)) (entries st) =
      (r_status r = Pending \<or> r_status r = PendingCommit)"
    using assms Some by (simp add: store_inv_def getRow_def tableGet_def list_ex_key [OF _ refl])
  show ?thesis
  proof (cases "r_status r = Pending \<or> r_status r = PendingCommit")
    case True
    then have "filter (\<lambda>r. \<not> (r_id r = i \<and> (r_status r = Pending \<or> r_status r = PendingCommit))) (entries st) =
        filter (\<lambda>r. r_id r \<noteq> i) (entries st)"
      by (intro filter_cong) (auto dest: only)
    with True Some ex show ?thesis by (simp add: removeIfPending_def removeRow_def Let_def)
  next
    case False
    then have "filter (\<lambda>r. \<not> (r_id r = i \<and> (r_status r = Pending \<or> r_status r = PendingCommit))) (entries st) = entries st"
      by (intro filter_True) (auto dest: only)
    with False Some ex show ?thesis
      by (auto simp: removeIfPending_def Let_def setEntries_def)
  qed
qed

lemma removeRow_get: "getRow (removeRow st i) j = (if j = i then None else getRow st j)"
proof -
  have "find (\<lambda>r. r_id r \<noteq> i \<and> r_id r = j) rs = (if j = i then None else find (\<lambda>r. r_id r = j) rs)" for rs
    by (induction rs) auto
  then show ?thesis
    unfolding getRow_def removeRow_def ob.get_delete unfolding tableGet_def .
qed

text \<open>Note: claiming and retracting a row exclude each other. After a successful claim no second
  claim of that row succeeds at any time and a retraction reports failure and changes nothing;
  after a successful retraction the row is gone and can no longer be claimed; a failed
  retraction changes nothing and means the row is held or settled by the replicator.\<close>

theorem claim_retract_exclusive:
  assumes "store_reachable st"
  shows "(fst (claimForReplication st i now) \<longrightarrow>
      fst (claimForReplication (snd (claimForReplication st i now)) i now') = False \<and>
      removeIfPending (snd (claimForReplication st i now)) i = (False, snd (claimForReplication st i now))) \<and>
    (fst (removeIfPending st i) \<longrightarrow>
      getRow (snd (removeIfPending st i)) i = None \<and>
      fst (claimForReplication (snd (removeIfPending st i)) i now') = False) \<and>
    (\<not> fst (removeIfPending st i) \<longrightarrow>
      snd (removeIfPending st i) = st \<and>
      (\<exists>r. getRow st i = Some r \<and> r_status r \<in> {Replicating, Replicated, Failed, Dead}))"
proof -
  let ?c = "snd (claimForReplication st i now)"
  have inv: "store_inv st" using assms by (rule store_reachable_inv)
  have inv_c: "store_inv ?c" using inv by (rule claim_inv)
  have claimed: "\<exists>r. getRow ?c i = Some r \<and> r_status r = Replicating" if "fst (claimForReplication st i now)"
    using that by (auto simp: claim_fst [OF inv] claim_get claimRow_def split: option.splits)
  have inv_r: "store_inv (removeRow st i)"
    using inv by (rule store_step_inv [OF store_step.remove_step])
  have "(fst (claimForReplication st i now) \<longrightarrow>
      fst (claimForReplication ?c i now') = False \<and> removeIfPending ?c i = (False, ?c))"
    using claimed by (auto simp: claim_fst [OF inv_c] retract_eq [OF inv_c] claimableRow_def)
  moreover have "fst (removeIfPending st i) \<longrightarrow>
      getRow (snd (removeIfPending st i)) i = None \<and> fst (claimForReplication (snd (removeIfPending st i)) i now') = False"
    by (auto simp: retract_eq [OF inv] claim_fst [OF inv] claim_fst [OF inv_r] removeRow_get split: option.splits)
  moreover have "\<not> fst (removeIfPending st i) \<longrightarrow>
      snd (removeIfPending st i) = st \<and> (\<exists>r. getRow st i = Some r \<and> r_status r \<in> {Replicating, Replicated, Failed, Dead})"
    by (auto simp: retract_eq [OF inv] split: option.splits if_splits) (metis OutboxStatus.exhaust)
  ultimately show ?thesis by blast
qed

theorem claim_retract_exclusive_witness:
  "fst (claimForReplication (sampleStore [sampleRow ''a'' ''w'' 1 NodeUpsert [] Pending, sampleRow ''b'' ''w'' 2 NodeDelete [] Pending]) ''a'' 5) \<and>
   removeIfPending (snd (claimForReplication (sampleStore [sampleRow ''a'' ''w'' 1 NodeUpsert [] Pending, sampleRow ''b'' ''w'' 2 NodeDelete [] Pending]) ''a'' 5)) ''a''
     = (False, snd (claimForReplication (sampleStore [sampleRow ''a'' ''w'' 1 NodeUpsert [] Pending, sampleRow ''b'' ''w'' 2 NodeDelete [] Pending]) ''a'' 5))"
proof -
  have "fst (claimForReplication (sampleStore [sampleRow ''a'' ''w'' 1 NodeUpsert [] Pending, sampleRow ''b'' ''w'' 2 NodeDelete [] Pending]) ''a'' 5)"
    by (simp add: claimForReplication_def sample_defs claimableRow_def dueRow_def)
  then show ?thesis
    using claim_retract_exclusive [OF two_rows_reachable, of "''a''" 5 5] by blast
qed

section \<open>Listings\<close>

lemma listPending_mem:
  "e \<in> set (listPendingForWorkspace st ws limit now) \<Longrightarrow>
   \<exists>r\<in>set (entries st). e = rowToEntry r \<and> r_workspace r = ws \<and> claimableRow r now"
  by (auto simp: listPendingForWorkspace_def dest!: orderLimit_mem)

lemma listPending_all:
  assumes "length (entries st) \<le> nat limit" "r \<in> set (entries st)" "r_workspace r = ws" "claimableRow r now"
  shows "rowToEntry r \<in> set (listPendingForWorkspace st ws limit now)"
proof -
  have "length (filter (\<lambda>r. r_workspace r = ws \<and> claimableRow r now) (entries st)) \<le> nat limit"
    using assms(1) length_filter_le order_trans by blast
  with assms show ?thesis by (auto simp: listPendingForWorkspace_def orderLimit_def)
qed

text \<open>C37: a \<open>pending_commit\<close> row is invisible to replay: it is in no replication batch and no
  self-heal listing, a claim of it fails and leaves it untouched. Marking it committed makes
  it an ordinary pending row that the next large enough batch lists; marking any other row
  committed changes nothing.\<close>

theorem pending_commit_invisible:
  assumes "store_reachable st" "getRow st i = Some r" "r_status r = PendingCommit" "r_nextAttemptAt r = None"
  shows "rowToEntry r \<notin> set (listPendingForWorkspace st ws limit now) \<and>
    rowToEntry r \<notin> set (listFailedOlderThan st age wsf limit dead now) \<and>
    fst (claimForReplication st i now) = False \<and>
    getRow (snd (claimForReplication st i now)) i = Some r \<and>
    (case markCommitted st [i] now of (n, st') \<Rightarrow>
       n = 1 \<and> getRow st' i = Some (r\<lparr>r_status := Pending, r_updatedAt := now\<rparr>) \<and>
       (int (length (entries st)) \<le> limit \<longrightarrow>
          rowToEntry (r\<lparr>r_status := Pending, r_updatedAt := now\<rparr>) \<in> set (listPendingForWorkspace st' (r_workspace r) limit now)) \<and>
       fst (markCommitted st' [i] now) = 0)"
proof -
  have inv: "store_inv st" using assms(1) by (rule store_reachable_inv)
  have mem: "r \<in> set (entries st)" "r_id r = i" using getRow_SomeD [OF assms(2)] by auto
  let ?r = "r\<lparr>r_status := Pending, r_updatedAt := now\<rparr>" and ?st = "updRow st i (commitRow now)"
  have get: "getRow ?st i = Some ?r"
    using assms(2,3) by (simp add: getRow_updRow commitRow_def)
  have inv': "store_inv ?st" using inv by (simp add: inv_updRow)
  have hit: "list_ex (\<lambda>r. r_id r = i \<and> r_status r = PendingCommit) (entries st)"
    using mem assms(3) by (auto simp: list_ex_iff)
  have nohit: "\<not> list_ex (\<lambda>r. r_id r = i \<and> r_status r = PendingCommit) (entries ?st)"
    using inv' get by (simp add: store_inv_def getRow_def tableGet_def list_ex_key [OF _ refl])
  have mc: "markCommitted st [i] now = (1, ?st)" using hit by (simp add: Let_def)
  have listed: "rowToEntry ?r \<in> set (listPendingForWorkspace ?st (r_workspace r) limit now)"
    if "int (length (entries st)) \<le> limit"
    using that getRow_SomeD [OF get] assms(4)
    by (intro listPending_all) (auto simp: entries_updRow claimableRow_def dueRow_def)
  have nl: "rowToEntry r \<notin> set (listPendingForWorkspace st ws limit now)"
    using assms(3) by (auto dest!: listPending_mem simp: claimableRow_def)
  have nf: "rowToEntry r \<notin> set (listFailedOlderThan st age wsf limit dead now)"
    using assms(3) by (auto simp: listFailedOlderThan_def Let_def dest!: orderLimit_mem)
  show ?thesis
    using nl nf mc get nohit listed assms(2,3)
    by (simp add: claim_fst [OF inv] claim_get claimRow_def claimableRow_def)
qed

section \<open>Retention\<close>

lemma row_unique:
  "store_inv st \<Longrightarrow> r \<in> set (entries st) \<Longrightarrow> r' \<in> set (entries st) \<Longrightarrow> r_id r = r_id r' \<Longrightarrow> r = r'"
  by (auto simp: store_inv_def distinct_map dest: inj_onD)

lemma prune_mem:
  assumes "store_inv st" "r \<in> set (entries st)" "r_id r \<in> set (pruneIds st age wsf limit now)"
  shows "prunableRow age wsf now r"
proof -
  obtain r' where r': "r' \<in> set (entries st)" "prunableRow age wsf now r'" "r_id r' = r_id r"
    using assms(3) by (auto simp: pruneIds_def dest!: orderLimit_mem)
  then have "r' = r" using assms(1,2) by (blast intro: row_unique)
  with r' show ?thesis by simp
qed

lemma length_filter_ids:
  assumes "distinct (map k xs)" "distinct ys" "set ys \<subseteq> set xs"
  shows "length (filter (\<lambda>x. k x \<in> k ` set ys) xs) = length ys"
proof -
  have inj: "inj_on k (set xs)" using assms(1) by (simp add: distinct_map)
  have "set (filter (\<lambda>x. k x \<in> k ` set ys) xs) = set ys"
    using inj assms(3) by (auto dest: inj_onD)
  moreover have "distinct (filter (\<lambda>x. k x \<in> k ` set ys) xs)"
    using assms(1) by (simp add: distinct_map)
  ultimately show ?thesis
    using assms(2) by (metis distinct_card)
qed

text \<open>Note: the retention sweep deletes only replicated rows whose replication is at least the given
  age, in the workspace asked for, and at most \<open>limit\<close> of them; pending, replicating, failed,
  dead and pending-commit rows, newer rows and every replication cursor survive unchanged. It
  returns the number of rows it deleted, and when the eligible rows fit the limit it deletes
  all of them.\<close>

theorem prune_only_old_replicated:
  assumes "store_reachable st"
  shows "case pruneReplicated st age wsf limit now of (n, st') \<Rightarrow>
      (\<forall>r. r \<in> set (entries st') \<longrightarrow> r \<in> set (entries st)) \<and>
      (\<forall>r. r \<in> set (entries st) \<and> r \<notin> set (entries st') \<longrightarrow>
         r_status r = Replicated \<and> (\<forall>w. wsf = Some w \<longrightarrow> r_workspace r = w) \<and>
         (case r_replicatedAt r of Some t \<Rightarrow> t | None \<Rightarrow> r_updatedAt r) + max 0 age \<le> now) \<and>
      replState st' = replState st \<and>
      n + length (entries st') = length (entries st) \<and> n \<le> nat limit \<and>
      (length (filter (prunableRow age wsf now) (entries st)) \<le> nat limit \<longrightarrow>
         entries st' = filter (\<lambda>r. \<not> prunableRow age wsf now r) (entries st))"
proof -
  have inv: "store_inv st" using assms by (rule store_reachable_inv)
  let ?ids = "pruneIds st age wsf limit now"
  let ?o = "orderLimit (\<lambda>r. (r_workspace r, r_sequenceId r)) (nat limit) (filter (prunableRow age wsf now) (entries st))"
  have ids: "set ?ids = r_id ` set ?o" by (simp add: pruneIds_def)
  have sub: "set ?o \<subseteq> set (entries st)" by (auto dest!: orderLimit_mem)
  have "distinct ?o" using inv by (auto simp: store_inv_def distinct_map intro: distinct_orderLimit)
  then have n: "length (filter (\<lambda>r. r_id r \<in> set ?ids) (entries st)) = length ?o"
    unfolding ids using inv sub by (intro length_filter_ids) (auto simp: store_inv_def)
  have le: "length ?o \<le> nat limit" by (simp add: length_orderLimit)
  have old: "prunableRow age wsf now r" if "r \<in> set (entries st)" "r_id r \<in> set ?ids" for r
    using inv that by (rule prune_mem)
  have all: "filter (\<lambda>r. r_id r \<notin> set ?ids) (entries st) = filter (\<lambda>r. \<not> prunableRow age wsf now r) (entries st)"
    if "length (filter (prunableRow age wsf now) (entries st)) \<le> nat limit"
    using that by (intro filter_cong refl) (auto simp: pruneIds_def orderLimit_def dest: old)
  have sum: "length (filter (\<lambda>r. r_id r \<in> set ?ids) (entries st)) + length (filter (\<lambda>r. r_id r \<notin> set ?ids) (entries st)) = length (entries st)"
    by (rule sum_length_filter_compl)
  show ?thesis
    using n le all sum old
    by (auto simp: pruneReplicated_def Let_def prunableRow_def algebra_simps split: option.splits)
qed

lemma commit_pending_reachable:
  "store_reachable (sampleStore [sampleRow ''a'' ''w'' 1 NodeUpsert [] PendingCommit])"
proof -
  have "recordEntry (openStore 500) ((sampleEntry ''a'' ''w'' NodeUpsert [])\<lparr>status := Some PendingCommit\<rparr>) =
     Inr (sampleStore [sampleRow ''a'' ''w'' 1 NodeUpsert [] PendingCommit])"
    by (simp add: record_defs sample_defs)
  then show ?thesis
    by (rule store_reachable.stepped [OF store_reachable.opened store_step.record_step, rotated]) simp
qed

theorem pending_commit_invisible_witness:
  "fst (claimForReplication (sampleStore [sampleRow ''a'' ''w'' 1 NodeUpsert [] PendingCommit]) ''a'' 9) = False \<and>
   fst (markCommitted (sampleStore [sampleRow ''a'' ''w'' 1 NodeUpsert [] PendingCommit]) [''a''] 9) = 1"
  using pending_commit_invisible [OF commit_pending_reachable, of "''a''" "sampleRow ''a'' ''w'' 1 NodeUpsert [] PendingCommit" "''w''" 10 9 0 None False]
  by (simp add: sample_defs getRow_def tableGet_def split_beta)

lemma one_replicated_reachable:
  "store_reachable (markEntryStatus (sampleStore [sampleRow ''a'' ''w'' 1 NodeUpsert [] Pending, sampleRow ''b'' ''w'' 2 NodeDelete [] Pending]) ''a'' Replicated noInfo 10)"
  by (rule store_reachable.stepped [OF two_rows_reachable store_step.status_step])

theorem prune_only_old_replicated_witness:
  "map r_id (entries (snd (pruneReplicated (markEntryStatus (sampleStore [sampleRow ''a'' ''w'' 1 NodeUpsert [] Pending, sampleRow ''b'' ''w'' 2 NodeDelete [] Pending]) ''a'' Replicated noInfo 10) 5 None 100 20))) = [''b'']"
  using prune_only_old_replicated [OF one_replicated_reachable, where age = 5 and wsf = None and limit = 100 and now = 20]
  by (simp add: split_beta markEntryStatus_def entries_updRow sample_defs prunableRow_def markRow_def noInfo_def Let_def)

section \<open>Operator requeue\<close>

lemma requeue_get:
  assumes "store_inv st"
  shows "getRow (snd (requeueDead st wsf k m limit now)) i =
    map_option (\<lambda>r. if r_id r \<in> set (requeueIds st wsf k m limit) then requeueRow now r else r) (getRow st i)"
  unfolding getRow_def tableGet_def requeueDead_def
  by (simp add: Let_def) (rule find_map_key, simp add: requeueRow_def)

text \<open>Note: requeueing dead letters touches dead rows only, at most \<open>limit\<close> of them, and returns how
  many; a requeued row is \<open>failed\<close> and never \<open>pending\<close> (so that the supersession guard runs on
  its replay), is due at once, starts with zero attempts and a fresh transient budget, and keeps
  its id, workspace, sequence number, kind and payload.\<close>

theorem requeue_dead_guarded:
  assumes "store_reachable st"
  shows "(\<forall>i r. getRow st i = Some r \<longrightarrow>
      (\<exists>r'. getRow (snd (requeueDead st wsf k m limit now)) i = Some r' \<and>
         (r' = r \<or>
          r_status r = Dead \<and> r_status r' = Failed \<and> r_attempts r' = 0 \<and> r_transientRetries r' = 0 \<and>
          r_firstTransientAt r' = None \<and> r_deadReason r' = None \<and> claimableRow r' now \<and>
          r_id r' = r_id r \<and> r_workspace r' = r_workspace r \<and> r_sequenceId r' = r_sequenceId r \<and>
          r_operationKind r' = r_operationKind r \<and> r_payload r' = r_payload r))) \<and>
    fst (requeueDead st wsf k m limit now) \<le> nat limit"
proof -
  have inv: "store_inv st" using assms by (rule store_reachable_inv)
  let ?o = "orderLimit (\<lambda>r. (r_workspace r, r_sequenceId r)) (nat limit) (filter (requeueHit wsf k m) (entries st))"
  have ids: "set (requeueIds st wsf k m limit) = r_id ` set ?o" by (simp add: requeueIds_def)
  have dead: "r_status r = Dead" if mem: "r \<in> set (entries st)" and hit: "r_id r \<in> r_id ` set ?o" for r
  proof -
    obtain r' where r': "r' \<in> set (entries st)" "requeueHit wsf k m r'" "r_id r' = r_id r"
      using hit by (auto dest!: orderLimit_mem)
    then have "r' = r" using inv mem by (blast intro: row_unique)
    with r' show ?thesis by (simp add: requeueHit_def)
  qed
  have sub: "set ?o \<subseteq> set (entries st)" by (auto dest!: orderLimit_mem)
  have "distinct ?o" using inv by (auto simp: store_inv_def distinct_map intro: distinct_orderLimit)
  then have "length (filter (\<lambda>r. r_id r \<in> r_id ` set ?o) (entries st)) = length ?o"
    using inv sub by (intro length_filter_ids) (auto simp: store_inv_def)
  moreover have "length ?o \<le> nat limit" by (simp add: length_orderLimit)
  ultimately have "fst (requeueDead st wsf k m limit now) \<le> nat limit"
    by (simp add: requeueDead_def Let_def ids)
  moreover have "\<exists>r'. getRow (snd (requeueDead st wsf k m limit now)) i = Some r' \<and>
         (r' = r \<or> r_status r = Dead \<and> r_status r' = Failed \<and> r_attempts r' = 0 \<and> r_transientRetries r' = 0 \<and>
          r_firstTransientAt r' = None \<and> r_deadReason r' = None \<and> claimableRow r' now \<and>
          r_id r' = r_id r \<and> r_workspace r' = r_workspace r \<and> r_sequenceId r' = r_sequenceId r \<and>
          r_operationKind r' = r_operationKind r \<and> r_payload r' = r_payload r)" if "getRow st i = Some r" for i r
    using that getRow_SomeD [OF that] dead [of r]
    by (cases "r_id r \<in> r_id ` set ?o")
       (simp_all add: requeue_get [OF inv] ids requeueRow_def claimableRow_def dueRow_def)
  ultimately show ?thesis by blast
qed

lemma one_dead_reachable:
  "store_reachable (markEntryStatus (sampleStore [sampleRow ''a'' ''w'' 1 NodeUpsert [] Pending, sampleRow ''b'' ''w'' 2 NodeDelete [] Pending]) ''a'' Dead noInfo 10)"
  by (rule store_reachable.stepped [OF two_rows_reachable store_step.status_step])

theorem requeue_dead_guarded_witness:
  "store_reachable (markEntryStatus (sampleStore [sampleRow ''a'' ''w'' 1 NodeUpsert [] Pending, sampleRow ''b'' ''w'' 2 NodeDelete [] Pending]) ''a'' Dead noInfo 10) \<and>
   fst (requeueDead (markEntryStatus (sampleStore [sampleRow ''a'' ''w'' 1 NodeUpsert [] Pending, sampleRow ''b'' ''w'' 2 NodeDelete [] Pending]) ''a'' Dead noInfo 10) None None None 7 20) \<le> 7"
  using one_dead_reachable requeue_dead_guarded [OF one_dead_reachable, where wsf = None and k = None and m = None and limit = 7 and now = 20] by simp

section \<open>The retry back-off\<close>

text \<open>Note: the retry time a failed row gets is its failure time plus a delay that never exceeds thirty
  seconds, is at least the base delay or the cap, never shrinks as attempts accumulate, and
  doubles with each attempt until it reaches the cap; a row marked failed is therefore not due
  at the moment it failed.\<close>

theorem backoff_bounds:
  assumes "0 < base"
  shows "computeNextAttemptAt n now base \<le> now + 30000 \<and>
    now + min base 30000 \<le> computeNextAttemptAt n now base \<and>
    computeNextAttemptAt n now base \<le> computeNextAttemptAt (Suc n) now base \<and>
    (computeNextAttemptAt (Suc n) now base < now + 30000 \<longrightarrow>
       computeNextAttemptAt (Suc n) now base - now = 2 * (computeNextAttemptAt n now base - now)) \<and>
    \<not> claimableRow (markRow base Failed info now r) now"
proof -
  have one: "base * 1 \<le> base * 2 ^ n" using assms by (intro mult_left_mono) auto
  have two: "base * 2 ^ Suc n = 2 * (base * 2 ^ n)" by simp
  have pos: "0 < base * 2 ^ m" for m using assms by simp
  have "now < computeNextAttemptAt m now base" for m
    using pos [of m] by (simp add: computeNextAttemptAt_def)
  then have "\<not> claimableRow (markRow base Failed info now r) now"
    by (simp add: claimableRow_def dueRow_def markRow_def Let_def not_le)
  then show ?thesis
    using one two pos [of n] by (auto simp: computeNextAttemptAt_def min_def)
qed

theorem backoff_bounds_witness:
  "(0::int) < 500 \<and> computeNextAttemptAt 3 1000 500 = 5000 \<and> computeNextAttemptAt 9 1000 500 \<le> 31000"
  using backoff_bounds [of 500 9 1000] by (simp add: computeNextAttemptAt_def)

section \<open>Ordered reads\<close>

lemma slot_unique:
  assumes "store_inv st" "x \<in> set (entries st)" "y \<in> set (entries st)"
    and "r_workspace x = r_workspace y" "r_sequenceId x = r_sequenceId y"
  shows "x = y"
proof -
  have "rowSlot x = rowSlot y" using assms by (simp add: rowSlot_def)
  moreover have "inj_on rowSlot (set (entries st))" using assms(1) by (simp add: store_inv_def distinct_map)
  ultimately show ?thesis using assms by (auto dest: inj_onD)
qed

text \<open>C0: the replicator's work list of a workspace holds only due rows of that workspace in status
  pending or failed, each at most once, in strictly increasing sequence order, at most \<open>limit\<close>
  of them; a due row that was left out because of the limit has a larger sequence number than
  every row that was listed, and when fewer than \<open>limit\<close> rows are listed none was left out.\<close>

theorem pending_list_oldest_first:
  assumes "store_reachable st"
  shows "sorted_wrt (<) (map (the \<circ> sequenceId) (listPendingForWorkspace st ws limit now)) \<and>
    length (listPendingForWorkspace st ws limit now) \<le> nat limit \<and>
    (\<forall>e. e \<in> set (listPendingForWorkspace st ws limit now) \<longrightarrow>
       (\<exists>r. r \<in> set (entries st) \<and> e = rowToEntry r \<and> r_workspace r = ws \<and> claimableRow r now)) \<and>
    (\<forall>r e. r \<in> set (entries st) \<and> r_workspace r = ws \<and> claimableRow r now \<and>
       rowToEntry r \<notin> set (listPendingForWorkspace st ws limit now) \<longrightarrow>
         length (listPendingForWorkspace st ws limit now) = nat limit \<and>
         (e \<in> set (listPendingForWorkspace st ws limit now) \<longrightarrow> the (sequenceId e) < r_sequenceId r))"
proof -
  have inv: "store_inv st" using assms by (rule store_reachable_inv)
  let ?c = "filter (\<lambda>r. r_workspace r = ws \<and> claimableRow r now) (entries st)"
  let ?o = "orderLimit r_sequenceId (nat limit) ?c"
  have slots: "x = y" if "x \<in> set ?c" "y \<in> set ?c" "r_sequenceId x = r_sequenceId y" for x y
    using that by (auto intro: slot_unique [OF inv])
  then have "inj_on r_sequenceId (set ?c)" by (auto intro: inj_onI)
  moreover have "distinct ?c" using inv by (simp add: store_inv_def distinct_map)
  ultimately have "distinct (map r_sequenceId ?c)" by (simp add: distinct_map)
  then have "distinct (map r_sequenceId ?o)" by (rule distinct_map_orderLimit)
  then have srt: "sorted_wrt (<) (map r_sequenceId ?o)"
    using sorted_orderLimit [of r_sequenceId "nat limit" ?c] by (simp add: strict_sorted_iff)
  have seqs: "map (the \<circ> sequenceId) (listPendingForWorkspace st ws limit now) = map r_sequenceId ?o"
    by (simp add: listPendingForWorkspace_def)
  have len: "length ?o = min (nat limit) (length ?c)" by (simp add: orderLimit_def)
  have lt: "r_sequenceId x < r_sequenceId r" if "r \<in> set ?c" "r \<notin> set ?o" "x \<in> set ?o" for r x
  proof -
    have "r_sequenceId x \<le> r_sequenceId r" using that by (blast intro: orderLimit_least)
    moreover have "x \<in> set ?c" using that(3) by (auto dest!: orderLimit_mem)
    ultimately show ?thesis using slots [of x r] that by force
  qed
  have mem: "r \<in> set (entries st) \<and> r_workspace r = ws \<and> claimableRow r now" if "r \<in> set ?o" for r
    using that by (auto dest!: orderLimit_mem)
  have L: "listPendingForWorkspace st ws limit now = map rowToEntry ?o"
    by (simp add: listPendingForWorkspace_def)
  have left: "length ?o = nat limit \<and> (e \<in> rowToEntry ` set ?o \<longrightarrow> the (sequenceId e) < r_sequenceId r)"
    if "r \<in> set (entries st)" "r_workspace r = ws" "claimableRow r now" "rowToEntry r \<notin> rowToEntry ` set ?o" for r e
  proof -
    have r: "r \<in> set ?c" "r \<notin> set ?o" using that by auto
    show ?thesis using orderLimit_full [OF r] lt [OF r] by auto
  qed
  have orig: "\<exists>r. r \<in> set (entries st) \<and> e = rowToEntry r \<and> r_workspace r = ws \<and> claimableRow r now"
    if "e \<in> rowToEntry ` set ?o" for e
    using that mem by blast
  show ?thesis
    unfolding seqs unfolding L length_map set_map
  proof (intro conjI allI impI)
    show "sorted_wrt (<) (map r_sequenceId ?o)" by (rule srt)
    show "length ?o \<le> nat limit" by (simp add: len)
    show "\<exists>r. r \<in> set (entries st) \<and> e = rowToEntry r \<and> r_workspace r = ws \<and> claimableRow r now"
      if "e \<in> rowToEntry ` set ?o" for e using that by (rule orig)
    fix r e
    assume a: "r \<in> set (entries st) \<and> r_workspace r = ws \<and> claimableRow r now \<and> rowToEntry r \<notin> rowToEntry ` set ?o"
    show "length ?o = nat limit" using a left [of r] by (simp only: simp_thms)
    show "the (sequenceId e) < r_sequenceId r" if "e \<in> rowToEntry ` set ?o"
      using a that left [of r e] by (simp only: simp_thms)
  qed
qed

theorem pending_list_oldest_first_witness:
  "map (the \<circ> sequenceId) (listPendingForWorkspace (sampleStore [sampleRow ''a'' ''w'' 1 NodeUpsert [] Pending, sampleRow ''b'' ''w'' 2 NodeDelete [] Pending]) ''w'' 1 0) = [1] \<and>
   length (listPendingForWorkspace (sampleStore [sampleRow ''a'' ''w'' 1 NodeUpsert [] Pending, sampleRow ''b'' ''w'' 2 NodeDelete [] Pending]) ''w'' 1 0) \<le> 1"
  using pending_list_oldest_first [OF two_rows_reachable, where ws = "''w''" and limit = 1 and now = 0]
  by (simp add: listPendingForWorkspace_def orderLimit_def sample_defs claimableRow_def dueRow_def)

section \<open>Cursors\<close>

lemma upsert_cursor: "upsertRow st e = Inr st' \<Longrightarrow> replState st' = replState st"
  by (simp add: upsertRow_frame)

lemma batchRows_cursor: "batchRows nx st es = Inr st' \<Longrightarrow> replState st' = replState st"
proof (induction es arbitrary: nx st)
  case (Cons e es)
  then show ?case
    by (auto simp: Let_def split: option.splits sum.splits dest!: upsert_cursor)
qed simp

lemma markCommitted_cursor: "replState (snd (markCommitted st is now)) = replState st"
  by (induction st "is" now rule: markCommitted.induct) (simp_all add: Let_def split_beta)

lemma step_cursor:
  "store_step st st' \<Longrightarrow> replState st' = replState st \<or> (\<exists>ws c. st' = writeReplicationState st ws c) \<or>
     (\<exists>ws. st' = snd (deleteByWorkspace st ws))"
proof (induction rule: store_step.induct)
  case (batch_step es st st')
  then show ?case by (auto simp: batchRecord_def split: if_splits sum.splits dest: batchRows_cursor)
qed (auto simp: recordEntry_def markStep_def completeIfAllStepsDone_def markCompleted_def removeRow_def
      removeIfPending_def pruneReplicated_def markCommitted_cursor claimForReplication_def
      markEntryStatus_def recordTransientFailure_def requeueDead_def Let_def
      split: option.splits sum.splits dest: upsert_cursor)

lemma write_cursor:
  "replState st ws = Some c \<Longrightarrow>
    \<exists>c'. replState (writeReplicationState st ws' d) ws = Some c' \<and> lastReplicatedSeq c \<le> lastReplicatedSeq c'"
  by (cases "ws' = ws") (auto simp: writeReplicationState_def split: option.split)

lemma delete_cursor: "ws' \<noteq> ws \<Longrightarrow> replState (snd (deleteByWorkspace st ws')) ws = replState st ws"
  by (simp add: deleteByWorkspace_def)

text \<open>Note: no operation of the store moves the replication cursor of a workspace backwards or drops
  it, whatever cursor a client tries to write, except the deletion of that workspace.\<close>

theorem cursor_never_regresses:
  assumes "store_step st st'" "replState st ws = Some c"
  shows "(\<exists>c'. replState st' ws = Some c' \<and> lastReplicatedSeq c \<le> lastReplicatedSeq c') \<or>
    st' = snd (deleteByWorkspace st ws)"
  using step_cursor [OF assms(1)] assms(2) write_cursor [OF assms(2)] delete_cursor
  by (metis order_refl)

theorem cursor_never_regresses_witness:
  "lastReplicatedSeq (the (replState (writeReplicationState
      (writeReplicationState (openStore 500) ''w'' \<lparr>lastReplicatedSeq = 7, cursorUpdatedAt = 0\<rparr>) ''w''
      \<lparr>lastReplicatedSeq = 3, cursorUpdatedAt = 1\<rparr>) ''w'')) \<ge> 7"
proof -
  let ?s = "writeReplicationState (openStore 500) ''w'' \<lparr>lastReplicatedSeq = 7, cursorUpdatedAt = 0\<rparr>"
  have r: "replState ?s ''w'' = Some \<lparr>lastReplicatedSeq = 7, cursorUpdatedAt = 0\<rparr>"
    by (simp add: writeReplicationState_def openStore_def)
  show ?thesis
    using cursor_never_regresses [OF store_step.cursor_step [of ?s "''w''" "\<lparr>lastReplicatedSeq = 3, cursorUpdatedAt = 1\<rparr>"] r]
    by (auto simp: r writeReplicationState_def deleteByWorkspace_def openStore_def dest: arg_cong [where f = replState])
qed

section \<open>Statistics\<close>

lemma sum_partition:
  assumes "finite S" "\<And>x. x \<in> set xs \<Longrightarrow> P x \<Longrightarrow> k x \<in> S"
  shows "(\<Sum>w\<in>S. length (filter (\<lambda>x. k x = w \<and> P x) xs)) = length (filter P xs)"
  using assms(2)
proof (induction xs)
  case (Cons x xs)
  have "(\<Sum>w\<in>S. length (filter (\<lambda>y. k y = w \<and> P y) (x # xs))) =
      (\<Sum>w\<in>S. (if k x = w \<and> P x then 1 else 0) + length (filter (\<lambda>y. k y = w \<and> P y) xs))"
    by (intro sum.cong) auto
  also have "\<dots> = (\<Sum>w\<in>S. if k x = w \<and> P x then 1 else 0) + length (filter P xs)"
    using Cons by (simp add: sum.distrib)
  also have "(\<Sum>w\<in>S. if k x = w \<and> P x then 1 else 0) = (if P x then 1 else (0::nat))"
    using Cons.prems [of x] assms(1) by (simp add: sum.delta)
  finally show ?case by simp
qed simp

lemma sum_workspaces:
  assumes "\<And>r. P r \<Longrightarrow> r_status r \<noteq> Replicated"
  shows "(\<Sum>w\<leftarrow>remdups (map r_workspace (filter (\<lambda>r. r_status r \<noteq> Replicated) (entries st))).
      length (filter P (filter (\<lambda>r. r_workspace r = w) (entries st)))) = length (filter P (entries st))"
proof -
  let ?ws = "map r_workspace (filter (\<lambda>r. r_status r \<noteq> Replicated) (entries st))"
  have "(\<Sum>w\<in>set ?ws. length (filter (\<lambda>r. r_workspace r = w \<and> P r) (entries st))) = length (filter P (entries st))"
    by (rule sum_partition) (use assms in auto)
  then show ?thesis
    by (simp add: sum_list_distinct_conv_sum_set conj_commute)
qed

lemma queued_not_replicated: "queuedStatus s \<Longrightarrow> s \<noteq> Replicated"
  by (auto simp: queuedStatus_def)

lemmas queued_workspaces = sum_workspaces [where P = "\<lambda>r. queuedStatus (r_status r)", OF queued_not_replicated]

text \<open>Note: the process-wide backlog figures are exact counts of the table: depth is the number of
  rows in status pending, failed or replicating, the dead and pending-commit totals are the
  numbers of those rows, so the dead total and depth never count one row twice, and rows not
  yet committed are in neither.\<close>

theorem aggregate_counts_exact:
  "aggDepth (aggregateStats st now) = length (filter (\<lambda>r. queuedStatus (r_status r)) (entries st)) \<and>
   aggDead (aggregateStats st now) = length (filter (\<lambda>r. r_status r = Dead) (entries st)) \<and>
   aggPendingCommit (aggregateStats st now) = length (filter (\<lambda>r. r_status r = PendingCommit) (entries st)) \<and>
   aggDeadSuperseded (aggregateStats st now) =
     length (filter (\<lambda>r. r_status r = Dead \<and> isSupersededDeadError (r_lastError r)) (entries st))"
  using queued_workspaces [of st] sum_workspaces [of "\<lambda>r. r_status r = Dead" st]
    sum_workspaces [of "\<lambda>r. r_status r = PendingCommit" st]
    sum_workspaces [of "\<lambda>r. r_status r = Dead \<and> isSupersededDeadError (r_lastError r)" st]
  by (simp add: aggregateStats_def statsByWorkspace_def wsStats_def Let_def comp_def conj_commute)

lemma groupCounts_total: "sum_list (map snd (groupCounts xs)) = length xs"
  by (simp add: groupCounts_def comp_def sum_list_distinct_conv_sum_set sum_count_set)

lemma map_of_groupCounts: "map_of (groupCounts xs) x = (if x \<in> set xs then Some (count_list xs x) else None)"
  by (simp add: groupCounts_def map_of_map_restrict restrict_map_def)

lemma count_list_filter: "count_list xs x = length (filter (\<lambda>y. y = x) xs)"
  by (induction xs) auto

lemma groupCount_of:
  "(case map_of (groupCounts xs) x of None \<Rightarrow> 0 | Some n \<Rightarrow> n) = length (filter (\<lambda>y. y = x) xs)"
  by (auto simp: map_of_groupCounts count_list_filter filter_empty_conv)

lemma deadLetter_superseded:
  "sumSuperseded (deadLetterSummary st ws) =
     length (filter (\<lambda>r. r_status r = Dead \<and> r_workspace r = ws \<and> deadReasonOf r = ''superseded'') (entries st))"
  by (simp add: deadLetterSummary_def Let_def deadReasonCounts_def groupCount_of filter_map comp_def conj_ac)

text \<open>Note: the dead-letter summary of a workspace splits its dead rows exactly: those whose recorded or
  derived reason is supersession are counted as benign, \<open>deadLettered\<close> is the number of the
  others (so it is never negative), and the per-reason counts add up to all dead rows.\<close>

theorem dead_summary_partition:
  "deadLettered (deadLetterSummary st ws) =
     int (length (filter (\<lambda>r. r_status r = Dead \<and> r_workspace r = ws \<and> deadReasonOf r \<noteq> ''superseded'') (entries st))) \<and>
   sumSuperseded (deadLetterSummary st ws) =
     length (filter (\<lambda>r. r_status r = Dead \<and> r_workspace r = ws \<and> deadReasonOf r = ''superseded'') (entries st)) \<and>
   sum_list (map snd (sumByReason (deadLetterSummary st ws))) =
     length (filter (\<lambda>r. r_status r = Dead \<and> r_workspace r = ws) (entries st))"
proof -
  let ?d = "filter (\<lambda>r. r_status r = Dead \<and> r_workspace r = ws) (entries st)"
  have tot: "sum_list (map snd (sumByReason (deadLetterSummary st ws))) = length ?d"
    by (simp add: deadLetterSummary_def Let_def deadReasonCounts_def groupCounts_total)
  have "deadLettered (deadLetterSummary st ws) = int (length ?d) - int (sumSuperseded (deadLetterSummary st ws))"
    using tot by (simp add: deadLetterSummary_def Let_def)
  moreover have "length (filter (\<lambda>r. deadReasonOf r = ''superseded'') ?d) +
      length (filter (\<lambda>r. deadReasonOf r \<noteq> ''superseded'') ?d) = length ?d"
    by (rule sum_length_filter_compl)
  ultimately show ?thesis
    using tot by (simp add: deadLetter_superseded conj_commute conj_left_commute)
qed

section \<open>Supersession lookups\<close>

lemma keyOf_id:
  assumes "key \<noteq> []"
  shows "keyOfEntry (rowToEntry r) = Some (NodeFamily, key) \<longleftrightarrow>
      r_operationKind r \<in> {NodeUpsert, NodeDelete} \<and> keyExprEq NodeFamily (r_payload r) key"
    and "keyOfEntry (rowToEntry r) = Some (VerbatimFamily, key) \<longleftrightarrow>
      r_operationKind r \<in> {VerbatimUpsert, VerbatimTombstone, VerbatimPurge} \<and> keyExprEq VerbatimFamily (r_payload r) key"
  using assms
  by (cases "r_payload r"; cases "r_operationKind r";
      simp add: keyOfEntry_def Let_def neStrFld_Some split: option.split;
      simp add: neStrFld_def strFld_def)+

lemma keyOf_node_verbatim:
  assumes "f \<noteq> EdgeFamily" "key \<noteq> []"
  shows "r_operationKind r \<in> set (familyKinds f) \<and> familyMatch f r key \<longleftrightarrow>
    keyOfEntry (rowToEntry r) = Some (f, key) \<or>
    (f = VerbatimFamily \<and> purgeIdsMatch (r_operationKind r) (r_payload r) key)"
  using assms by (cases f) (auto simp: familyMatch_def keyOf_id purgeIdsMatch_def)

lemma newer_replicated_iff:
  "hasNewerReplicatedForKey st ws f key seq \<longleftrightarrow>
     (\<exists>r \<in> set (entries st). r_workspace r = ws \<and> r_status r = Replicated \<and> seq < r_sequenceId r \<and>
        r_operationKind r \<in> set (familyKinds f) \<and> familyMatch f r key)"
  by (auto simp: hasNewerReplicatedForKey_def list_ex_iff)

text \<open>Note: for nodes and verbatim sources the SQL probe of the supersession guard and the key the
  TypeScript derives agree exactly: the probe answers yes if and only if a replicated row of
  the workspace with a larger sequence number has the same family and key, or is a purge that
  lists the key among its \<open>ids\<close>. A failed replay is thus never marked superseded by a write
  to another entity.\<close>

theorem supersession_probe_exact:
  assumes "f \<noteq> EdgeFamily" "key \<noteq> []"
  shows "hasNewerReplicatedForKey st ws f key seq \<longleftrightarrow>
    (\<exists>r. r \<in> set (entries st) \<and> r_workspace r = ws \<and> r_status r = Replicated \<and> seq < r_sequenceId r \<and>
       (keyOfEntry (rowToEntry r) = Some (f, key) \<or>
        f = VerbatimFamily \<and> purgeIdsMatch (r_operationKind r) (r_payload r) key))"
  unfolding newer_replicated_iff using keyOf_node_verbatim [OF assms] by blast

theorem supersession_probe_exact_witness:
  "NodeFamily \<noteq> EdgeFamily \<and> ''n'' \<noteq> [] \<and>
   hasNewerReplicatedForKey (sampleStore [sampleRow ''b'' ''w'' 2 NodeDelete [(''id'', JStr ''n'')] Replicated]) ''w'' NodeFamily ''n'' 1"
  using supersession_probe_exact [of NodeFamily "''n''"
      "sampleStore [sampleRow ''b'' ''w'' 2 NodeDelete [(''id'', JStr ''n'')] Replicated]" "''w''" 1]
  by (simp add: sample_defs keyOfEntry_def Let_def neStrFld_def strFld_def fld_def)

definition nulFree :: "json option \<Rightarrow> bool" where
  "nulFree v = (case v of Some (JStr s) \<Rightarrow> CHR 0x00 \<notin> set s | _ \<Rightarrow> True)"

text \<open>Note: an edge key determines the edge whenever the source and target ids contain no NUL
  character, so that two edge rows with the same key then address the same
  (source, target, relation) triple, and the SQL expression finds the stored row under it.\<close>

theorem edge_key_determines_edge:
  assumes "r_payload a = Some p" "r_payload b = Some q"
    and "keyOfEntry (rowToEntry a) = Some (EdgeFamily, key)" "keyOfEntry (rowToEntry b) = Some (EdgeFamily, key)"
    and "nulFree (fld p ''sourceId'')" "nulFree (fld q ''sourceId'')" "nulFree (fld p ''targetId'')" "nulFree (fld q ''targetId'')"
  shows "fld p ''sourceId'' = fld q ''sourceId'' \<and> fld p ''targetId'' = fld q ''targetId'' \<and>
    fld p ''relation'' = fld q ''relation'' \<and> familyMatch EdgeFamily b key"
proof -
  obtain s t r where p: "fld p ''sourceId'' = Some (JStr s)" "fld p ''targetId'' = Some (JStr t)"
    "fld p ''relation'' = Some (JStr r)" "key = edgeKey s t r"
    using assms(1,3) by (auto simp: keyOfEntry_def Let_def neStrFld_Some split: option.splits if_splits)
  obtain s' t' r' where q: "fld q ''sourceId'' = Some (JStr s')" "fld q ''targetId'' = Some (JStr t')"
    "fld q ''relation'' = Some (JStr r')" "key = edgeKey s' t' r'"
    using assms(2,4) by (auto simp: keyOfEntry_def Let_def neStrFld_Some split: option.splits if_splits)
  have "s = s' \<and> t = t' \<and> r = r'"
    using p q assms(5-8) edgeKey_inject [of s s' t t' r r'] by (simp add: nulFree_def)
  then show ?thesis
    using p q keyOfEntry_match [OF assms(4)] by simp
qed

theorem edge_key_determines_edge_witness:
  "let p = [(''sourceId'', JStr ''a''), (''targetId'', JStr ''b''), (''relation'', JStr ''uses'')];
       r = sampleRow ''x'' ''w'' 1 EdgeUpsert p Pending
   in keyOfEntry (rowToEntry r) = Some (EdgeFamily, edgeKey ''a'' ''b'' ''uses'') \<and>
      familyMatch EdgeFamily r (edgeKey ''a'' ''b'' ''uses'')"
proof -
  let ?p = "[(''sourceId'', JStr ''a''), (''targetId'', JStr ''b''), (''relation'', JStr ''uses'')]"
  let ?r = "sampleRow ''x'' ''w'' 1 EdgeUpsert ?p Pending"
  have k: "keyOfEntry (rowToEntry ?r) = Some (EdgeFamily, edgeKey ''a'' ''b'' ''uses'')"
    by (simp add: sample_defs keyOfEntry_def Let_def neStrFld_def strFld_def fld_def)
  have "familyMatch EdgeFamily ?r (edgeKey ''a'' ''b'' ''uses'')"
    using edge_key_determines_edge [OF _ _ k k, of ?p ?p] by (simp add: sample_defs fld_def nulFree_def)
  with k show ?thesis by (simp add: Let_def)
qed

text \<open>Note: with a NUL character inside an id, which a JSON string can carry as the escape \<open>u0000\<close>,
  two different edges share one key, and the replication of one makes the probe answer yes
  for the other.\<close>

theorem edge_key_collision_with_nul:
  "\<exists>a b key. keyOfEntry (rowToEntry a) = Some (EdgeFamily, key) \<and> keyOfEntry (rowToEntry b) = Some (EdgeFamily, key) \<and>
     fld (the (r_payload a)) ''sourceId'' \<noteq> fld (the (r_payload b)) ''sourceId'' \<and>
     hasNewerReplicatedForKey (sampleStore [a, b]) ''w'' EdgeFamily key (r_sequenceId a)"
proof -
  let ?a = "sampleRow ''x'' ''w'' 1 EdgeUpsert
     [(''sourceId'', JStr ''a''), (''targetId'', JStr [CHR ''b'', CHR 0x00, CHR ''c'']), (''relation'', JStr ''r'')] Failed"
  let ?b = "sampleRow ''y'' ''w'' 2 EdgeUpsert
     [(''sourceId'', JStr [CHR ''a'', CHR 0x00, CHR ''b'']), (''targetId'', JStr ''c''), (''relation'', JStr ''r'')] Replicated"
  let ?k = "[CHR ''a'', CHR 0x00, CHR ''b'', CHR 0x00, CHR ''c'', CHR 0x00, CHR ''r'']"
  have "keyOfEntry (rowToEntry ?a) = Some (EdgeFamily, ?k)" "keyOfEntry (rowToEntry ?b) = Some (EdgeFamily, ?k)"
    by (simp_all add: sample_defs keyOfEntry_def Let_def neStrFld_def strFld_def fld_def edgeKey_def EDGE_KEY_SEP_def)
  moreover have "hasNewerReplicatedForKey (sampleStore [?a, ?b]) ''w'' EdgeFamily ?k 1"
    by (simp add: hasNewerReplicatedForKey_def sample_defs familyMatch_def fld_def edgeKey_def EDGE_KEY_SEP_def)
  ultimately show ?thesis
    by (intro exI [of _ ?a] exI [of _ ?b] exI [of _ ?k]) (simp add: sample_defs fld_def)
qed

section \<open>Sequence numbers after pruning\<close>

text \<open>Note: a row the self-heal sweep marks replicated does not advance the cursor of its workspace;
  once the retention sweep prunes it, the allocator hands its sequence number out again.\<close>

theorem sequence_reused_after_prune:
  "\<exists>st i e st' r r'. store_reachable st \<and> getRow st i = Some r \<and> r_status r = Failed \<and>
     recordEntry (snd (pruneReplicated (markEntryStatus st i Replicated noInfo 10) 5 None 100 20)) e = Inr st' \<and>
     getRow st' (entryId e) = Some r' \<and> r_workspace r' = r_workspace r \<and> r_sequenceId r' = r_sequenceId r \<and>
     sequenceId e = None"
proof -
  let ?s = "markEntryStatus (sampleStore [sampleRow ''a'' ''w'' 1 NodeUpsert [] Pending]) ''a'' Failed noInfo 1"
  have "store_reachable (sampleStore [sampleRow ''a'' ''w'' 1 NodeUpsert [] Pending])"
    by (rule store_reachable.stepped [OF store_reachable.opened store_step.record_step [OF _ record_first]]) simp
  then have reach: "store_reachable ?s" by (rule store_reachable.stepped) (rule store_step.status_step)
  show ?thesis
    by (rule exI [of _ ?s], rule exI [of _ "''a''"], rule exI [of _ "sampleEntry ''b'' ''w'' NodeUpsert []"])
       (use reach in \<open>simp add: markEntryStatus_def updRow_def tableUpd_def setEntries_def sample_defs markRow_def noInfo_def
         pruneReplicated_def pruneIds_def prunableRow_def orderLimit_def record_defs getRow_def tableGet_def\<close>)
qed

section \<open>The newest queued upsert\<close>

text \<open>Note: the fold target of an update is the newest one: when a node has queued upserts after the
  given sequence number the lookup returns one of them with the largest sequence number, and
  it returns nothing only when there is none.\<close>

theorem newest_upsert_is_newest:
  "case newestNodeUpsertAfter st ws nodeId seq of
     None \<Rightarrow> \<not> (\<exists>r. r \<in> set (entries st) \<and> r_workspace r = ws \<and> payloadIdIs (r_payload r) nodeId \<and> seq < r_sequenceId r \<and>
                 r_operationKind r = NodeUpsert \<and> queuedStatus (r_status r))
   | Some e \<Rightarrow> \<exists>r. r \<in> set (entries st) \<and> e = rowToEntry r \<and> r_workspace r = ws \<and> payloadIdIs (r_payload r) nodeId \<and>
        seq < r_sequenceId r \<and> r_operationKind r = NodeUpsert \<and> queuedStatus (r_status r) \<and>
        (\<nexists>r'. r' \<in> set (entries st) \<and> r_workspace r' = ws \<and> payloadIdIs (r_payload r') nodeId \<and>
            r_operationKind r' = NodeUpsert \<and> queuedStatus (r_status r') \<and> r_sequenceId r < r_sequenceId r')"
proof -
  let ?c = "filter (\<lambda>r. r_workspace r = ws \<and> payloadIdIs (r_payload r) nodeId \<and> r_sequenceId r > seq \<and>
                          r_operationKind r = NodeUpsert \<and> queuedStatus (r_status r)) (entries st)"
  let ?o = "orderLimit (\<lambda>r. - r_sequenceId r) 1 ?c"
  show ?thesis
  proof (cases ?o)
    case Nil
    then have "?c = []" by (simp add: orderLimit_Nil)
    then show ?thesis using Nil by (auto simp: newestNodeUpsertAfter_def filter_empty_conv)
  next
    case (Cons r rest)
    then have m: "r \<in> set ?o" by simp
    have "length ?o \<le> 1" by (simp add: length_orderLimit)
    then have one: "set ?o = {r}" using Cons by simp
    have "r_sequenceId r' \<le> r_sequenceId r" if "r' \<in> set ?c" for r'
      using orderLimit_least [OF m that] one by (cases "r' = r") auto
    then show ?thesis
      using Cons orderLimit_mem [OF m] by (force simp: newestNodeUpsertAfter_def)
  qed
qed

end
