(* ===== verification/OutboxDispatch.thy ===== *)
theory OutboxDispatch
  imports OutboxTypes
begin

text \<open>
  The outbox dispatcher (\<open>outbox/dispatcher.ts\<close>): \<open>dispatch\<close> routes one entry to the hook of
  its kind, \<open>verifyApplied\<close> asks the substrate whether an entry's effect is already there.

  The hooks are the interface \<open>DispatcherSubstrates\<close>, injected by the daemon: each is a
  parameter of the model, a field of the record \<open>Substrates\<close>. Their state is the type
  \<open>'w\<close>, an embedding vector is \<open>'v\<close>. A write hook returns the error it threw, if any, and the
  state it left, which may have changed even when it threw; a probe reads the state and
  returns a value or throws. \<open>sha1Hex\<close> stands for Node's \<open>createHash('sha1')\<close>.
\<close>

section \<open>Errors\<close>

datatype ReplayError =
    UnwiredOperationKindError string
  | MissingPayloadError string string
  | ReplayDeferredError string
  | OtherError string

fun errMessage :: "ReplayError \<Rightarrow> string" where
  "errMessage (UnwiredOperationKindError k) =
     ''outbox dispatcher: operationKind '' @ [CHR 0x27] @ k @ [CHR 0x27] @ '' is not wired in this sub-chain yet''"
| "errMessage (MissingPayloadError k f) =
     ''outbox dispatcher: operationKind '' @ [CHR 0x27] @ k @ [CHR 0x27] @ '' payload missing required field '' @
     [CHR 0x27] @ f @ [CHR 0x27]"
| "errMessage (ReplayDeferredError m) = m"
| "errMessage (OtherError m) = m"

type_synonym 'w eff = "ReplayError option \<times> 'w"

definition andThen :: "'w eff \<Rightarrow> ('w \<Rightarrow> 'w eff) \<Rightarrow> 'w eff" where
  "andThen m f = (case m of (Some err, w) \<Rightarrow> (Some err, w) | (None, w) \<Rightarrow> f w)"

section \<open>The substrate hooks\<close>

record VerbatimRow =
  vrContentHash :: "string option"
  vrText :: "string option"

record ('w, 'v) Substrates =
  upsertNode :: "(obj \<Rightarrow> string option \<Rightarrow> OutboxEntry \<Rightarrow> 'w \<Rightarrow> 'w eff) option"
  addEdge :: "(obj \<Rightarrow> string option \<Rightarrow> 'w \<Rightarrow> 'w eff) option"
  deleteNode :: "(string \<Rightarrow> string option \<Rightarrow> OutboxEntry \<Rightarrow> 'w \<Rightarrow> 'w eff) option"
  markStale :: "(string list \<Rightarrow> string option \<Rightarrow> 'w \<Rightarrow> 'w eff) option"
  deleteEdge :: "(string \<Rightarrow> string \<Rightarrow> string \<Rightarrow> string option \<Rightarrow> 'w \<Rightarrow> 'w eff) option"
  upsertVerbatim :: "(obj \<Rightarrow> string option \<Rightarrow> 'w \<Rightarrow> 'w eff) option"
  tombstoneVerbatim :: "(string \<Rightarrow> string \<Rightarrow> string option \<Rightarrow> 'w \<Rightarrow> 'w eff) option"
  purgeVerbatim :: "(string list \<Rightarrow> string option \<Rightarrow> 'w \<Rightarrow> 'w eff) option"
  upsertVerbatimBatch :: "(obj list \<Rightarrow> string option \<Rightarrow> 'w \<Rightarrow> 'w eff) option"
  physicalDeleteVerbatim :: "(string \<Rightarrow> string option \<Rightarrow> 'w \<Rightarrow> 'w eff) option"
  syncVectorMirror :: "(string list \<Rightarrow> 'w \<Rightarrow> 'w eff) option"
  batchedEmbedder :: "(string list \<Rightarrow> 'w \<Rightarrow> (ReplayError + 'v list) \<times> 'w) option"
  storeEmbedBatch :: "(string list \<Rightarrow> 'v list \<Rightarrow> string list \<Rightarrow> string option \<Rightarrow> 'w \<Rightarrow> 'w eff) option"
  onEmbedDone :: "(string list \<Rightarrow> 'w \<Rightarrow> 'w eff) option"
  hasNode :: "(string \<Rightarrow> string option \<Rightarrow> 'w \<Rightarrow> ReplayError + bool) option"
  hasEdge :: "(string \<Rightarrow> string \<Rightarrow> string \<Rightarrow> string option \<Rightarrow> 'w \<Rightarrow> ReplayError + bool) option"
  hasVerbatim :: "(string \<Rightarrow> string option \<Rightarrow> 'w \<Rightarrow> ReplayError + bool) option"
  hasEmbeddings :: "(string list \<Rightarrow> string option \<Rightarrow> 'w \<Rightarrow> ReplayError + bool) option"
  getNode :: "(string \<Rightarrow> string option \<Rightarrow> 'w \<Rightarrow> ReplayError + obj option) option"
  getVerbatim :: "(string \<Rightarrow> string option \<Rightarrow> 'w \<Rightarrow> ReplayError + VerbatimRow option) option"

section \<open>\<open>dispatch\<close>, one definition per \<open>case\<close>\<close>

text \<open>\<open>purgeIdsOf\<close>: the insertion-ordered set of the \<open>ids\<close> strings and then \<open>id\<close>.\<close>

definition insertionSet :: "string list \<Rightarrow> string list" where
  "insertionSet xs = fold (\<lambda>x acc. if x \<in> set acc then acc else acc @ [x]) xs []"

definition neStrs :: "json list \<Rightarrow> string list" where
  "neStrs xs = filter (\<lambda>s. s \<noteq> []) (strsOf xs)"

definition purgeIdsOf :: "obj \<Rightarrow> string list" where
  "purgeIdsOf p =
     insertionSet ((case arrFld p ''ids'' of None \<Rightarrow> [] | Some xs \<Rightarrow> neStrs xs) @
       (case neStrFld p ''id'' of None \<Rightarrow> [] | Some i \<Rightarrow> [i]))"

definition unwired :: "OutboxOperationKind \<Rightarrow> 'w \<Rightarrow> 'w eff" where
  "unwired k w = (Some (UnwiredOperationKindError (kindName k)), w)"

definition missing :: "OutboxOperationKind \<Rightarrow> string \<Rightarrow> 'w \<Rightarrow> 'w eff" where
  "missing k f w = (Some (MissingPayloadError (kindName k) f), w)"

definition dispatchNodeUpsert ::
  "('w, 'v) Substrates \<Rightarrow> obj \<Rightarrow> string option \<Rightarrow> OutboxEntry \<Rightarrow> 'w \<Rightarrow> 'w eff" where
  "dispatchNodeUpsert S p ws e w =
     (case upsertNode S of
        None \<Rightarrow> unwired NodeUpsert w
      | Some f \<Rightarrow> if \<not> truthy (fld p ''id'') then missing NodeUpsert ''id'' w else f p ws e w)"

definition reversePayload :: "obj \<Rightarrow> obj" where
  "reversePayload p =
     (case (fld p ''sourceId'', fld p ''targetId'') of
        (Some s, Some t) \<Rightarrow> setFld (setFld p ''sourceId'' t) ''targetId'' s
      | _ \<Rightarrow> p)"

definition dispatchEdgeUpsert ::
  "('w, 'v) Substrates \<Rightarrow> obj \<Rightarrow> string option \<Rightarrow> 'w \<Rightarrow> 'w eff" where
  "dispatchEdgeUpsert S p ws w =
     (case addEdge S of
        None \<Rightarrow> unwired EdgeUpsert w
      | Some f \<Rightarrow>
          if \<not> truthy (fld p ''sourceId'') \<or> \<not> truthy (fld p ''targetId'') \<or> \<not> truthy (fld p ''relation'')
          then missing EdgeUpsert ''sourceId|targetId|relation'' w
          else andThen (f p ws w)
                 (\<lambda>w. if fld p ''bidirectional'' \<noteq> Some (JBool False) then f (reversePayload p) ws w else (None, w)))"

definition dispatchNodeDelete ::
  "('w, 'v) Substrates \<Rightarrow> obj \<Rightarrow> string option \<Rightarrow> OutboxEntry \<Rightarrow> 'w \<Rightarrow> 'w eff" where
  "dispatchNodeDelete S p ws e w =
     (case deleteNode S of
        None \<Rightarrow> unwired NodeDelete w
      | Some f \<Rightarrow> (case strFld p ''id'' of None \<Rightarrow> missing NodeDelete ''id'' w | Some i \<Rightarrow> f i ws e w))"

definition edgeTriple :: "obj \<Rightarrow> (string \<times> string \<times> string) option" where
  "edgeTriple p =
     (case (strFld p ''sourceId'', strFld p ''targetId'', strFld p ''relation'') of
        (Some s, Some t, Some r) \<Rightarrow> Some (s, t, r)
      | _ \<Rightarrow> None)"

definition dispatchEdgeDelete ::
  "('w, 'v) Substrates \<Rightarrow> obj \<Rightarrow> string option \<Rightarrow> 'w \<Rightarrow> 'w eff" where
  "dispatchEdgeDelete S p ws w =
     (case deleteEdge S of
        None \<Rightarrow> unwired EdgeDelete w
      | Some f \<Rightarrow> (case edgeTriple p of
            None \<Rightarrow> missing EdgeDelete ''sourceId|targetId|relation'' w
          | Some (s, t, r) \<Rightarrow> f s t r ws w))"

definition dispatchMarkStale ::
  "('w, 'v) Substrates \<Rightarrow> obj \<Rightarrow> string option \<Rightarrow> 'w \<Rightarrow> 'w eff" where
  "dispatchMarkStale S p ws w =
     (case markStale S of
        None \<Rightarrow> unwired NodeMarkStale w
      | Some f \<Rightarrow> (case arrFld p ''ids'' of
            None \<Rightarrow> missing NodeMarkStale ''ids'' w
          | Some raw \<Rightarrow> if neStrs raw = [] then (None, w) else f (neStrs raw) ws w))"

definition dispatchVerbatimUpsert ::
  "('w, 'v) Substrates \<Rightarrow> obj \<Rightarrow> string option \<Rightarrow> 'w \<Rightarrow> 'w eff" where
  "dispatchVerbatimUpsert S p ws w =
     (case upsertVerbatim S of None \<Rightarrow> unwired VerbatimUpsert w | Some f \<Rightarrow> f p ws w)"

definition dispatchTombstone ::
  "('w, 'v) Substrates \<Rightarrow> obj \<Rightarrow> string option \<Rightarrow> 'w \<Rightarrow> 'w eff" where
  "dispatchTombstone S p ws w =
     (case tombstoneVerbatim S of
        None \<Rightarrow> unwired VerbatimTombstone w
      | Some f \<Rightarrow> (case neStrFld p ''id'' of
            None \<Rightarrow> missing VerbatimTombstone ''id'' w
          | Some i \<Rightarrow> f i (case strFld p ''reason'' of Some r \<Rightarrow> r
                          | None \<Rightarrow> ''graph node deleted (outbox replay)'') ws w))"

definition dispatchPurge ::
  "('w, 'v) Substrates \<Rightarrow> obj \<Rightarrow> string option \<Rightarrow> 'w \<Rightarrow> 'w eff" where
  "dispatchPurge S p ws w =
     (case purgeVerbatim S of
        None \<Rightarrow> unwired VerbatimPurge w
      | Some f \<Rightarrow> if purgeIdsOf p = [] then missing VerbatimPurge ''id|ids'' w else f (purgeIdsOf p) ws w)"

fun objsOf :: "json list \<Rightarrow> obj list" where
  "objsOf [] = []"
| "objsOf (JObj kvs # xs) = kvs # objsOf xs"
| "objsOf (_ # xs) = objsOf xs"

definition dispatchVerbatimBatch ::
  "('w, 'v) Substrates \<Rightarrow> obj \<Rightarrow> string option \<Rightarrow> 'w \<Rightarrow> 'w eff" where
  "dispatchVerbatimBatch S p ws w =
     (case upsertVerbatimBatch S of
        None \<Rightarrow> unwired VerbatimUpsertBatch w
      | Some f \<Rightarrow> (case arrFld p ''items'' of
            None \<Rightarrow> missing VerbatimUpsertBatch ''items'' w
          | Some raw \<Rightarrow> f (objsOf raw) ws w))"

definition dispatchVectorMirror :: "('w, 'v) Substrates \<Rightarrow> obj \<Rightarrow> 'w \<Rightarrow> 'w eff" where
  "dispatchVectorMirror S p w =
     (case syncVectorMirror S of
        None \<Rightarrow> unwired SyncVectorMirror w
      | Some f \<Rightarrow> f (case arrFld p ''nodeIds'' of None \<Rightarrow> [] | Some xs \<Rightarrow> strsOf xs) w)"

definition dispatchEmbedBatch ::
  "('w, 'v) Substrates \<Rightarrow> obj \<Rightarrow> string option \<Rightarrow> 'w \<Rightarrow> 'w eff" where
  "dispatchEmbedBatch S p ws w =
     (case (batchedEmbedder S, storeEmbedBatch S) of
        (Some emb, Some put) \<Rightarrow>
          (case (arrFld p ''texts'', arrFld p ''targetNodeIds'') of
             (Some rawTexts, Some rawIds) \<Rightarrow>
               (let texts = strsOf rawTexts; targetNodeIds = strsOf rawIds in
                if length texts \<noteq> length targetNodeIds
                then missing EmbedBatch ''texts.length === targetNodeIds.length'' w
                else (case emb texts w of
                        (Inl err, w) \<Rightarrow> (Some err, w)
                      | (Inr vectors, w) \<Rightarrow> put targetNodeIds vectors texts ws w))
           | _ \<Rightarrow> missing EmbedBatch ''texts|targetNodeIds'' w)
      | _ \<Rightarrow> unwired EmbedBatch w)"

definition dispatchEmbedDone :: "('w, 'v) Substrates \<Rightarrow> obj \<Rightarrow> 'w \<Rightarrow> 'w eff" where
  "dispatchEmbedDone S p w =
     (case onEmbedDone S of
        None \<Rightarrow> (None, w)
      | Some f \<Rightarrow> f (case arrFld p ''targetNodeIds'' of None \<Rightarrow> [] | Some xs \<Rightarrow> strsOf xs) w)"

definition dispatch :: "('w, 'v) Substrates \<Rightarrow> OutboxEntry \<Rightarrow> 'w \<Rightarrow> 'w eff" where
  "dispatch S e w =
     (let p = (case payload e of None \<Rightarrow> [] | Some p \<Rightarrow> p); ws = workspace e in
      case operationKind e of
        None \<Rightarrow> (Some (OtherError (''outbox dispatcher: entry '' @ entryId e @ '' has no operationKind'')), w)
      | Some k \<Rightarrow>
          (case k of
             NodeUpsert \<Rightarrow> dispatchNodeUpsert S p ws e w
           | EdgeUpsert \<Rightarrow> dispatchEdgeUpsert S p ws w
           | NodeDelete \<Rightarrow> dispatchNodeDelete S p ws e w
           | EdgeDelete \<Rightarrow> dispatchEdgeDelete S p ws w
           | NodeMarkStale \<Rightarrow> dispatchMarkStale S p ws w
           | VerbatimUpsert \<Rightarrow> dispatchVerbatimUpsert S p ws w
           | VerbatimTombstone \<Rightarrow> dispatchTombstone S p ws w
           | VerbatimPurge \<Rightarrow> dispatchPurge S p ws w
           | VerbatimUpsertBatch \<Rightarrow> dispatchVerbatimBatch S p ws w
           | SyncVectorMirror \<Rightarrow> dispatchVectorMirror S p w
           | EmbedBatch \<Rightarrow> dispatchEmbedBatch S p ws w
           | EmbedDone \<Rightarrow> dispatchEmbedDone S p w
           | LoadReceived \<Rightarrow> (None, w)
           | LoadDone \<Rightarrow> (None, w)
           | StreamEvent \<Rightarrow> (None, w)
           | MigrationStarted \<Rightarrow> (None, w)
           | MigrationApplied \<Rightarrow> (None, w)
           | MigrationFailed \<Rightarrow> (None, w)))"

section \<open>\<open>verifyApplied\<close>, one definition per \<open>case\<close>\<close>

record VerifyOutcome =
  verified :: bool
  reason :: string

definition outcome :: "bool \<Rightarrow> string \<Rightarrow> ReplayError + VerifyOutcome" where
  "outcome b r = Inr \<lparr>verified = b, reason = r\<rparr>"

definition NODE_CONTENT_WITNESS_FIELDS :: "string list" where
  "NODE_CONTENT_WITNESS_FIELDS = [''type'', ''label'', ''content'', ''project'', ''ecosystem'']"

definition computeContentHash :: "(string \<Rightarrow> string) \<Rightarrow> string \<Rightarrow> string" where
  "computeContentHash sha1Hex text = take 16 (sha1Hex text)"

definition expectedVerbatimHash :: "(string \<Rightarrow> string) \<Rightarrow> obj \<Rightarrow> string option" where
  "expectedVerbatimHash sha1Hex p =
     (case (case fld p ''metadata'' of Some (JObj m) \<Rightarrow> neStrFld m ''contentHash'' | _ \<Rightarrow> None) of
        Some h \<Rightarrow> Some h
      | None \<Rightarrow> map_option (computeContentHash sha1Hex) (neStrFld p ''text''))"

definition storedVerbatimHash :: "(string \<Rightarrow> string) \<Rightarrow> VerbatimRow \<Rightarrow> string" where
  "storedVerbatimHash sha1Hex row =
     (case vrContentHash row of
        Some (c # cs) \<Rightarrow> c # cs
      | _ \<Rightarrow> (case vrText row of
            Some (c # cs) \<Rightarrow> computeContentHash sha1Hex (c # cs)
          | _ \<Rightarrow> []))"

text \<open>\<open>String(v)\<close> of a JSON value, and \<open>String(node[f] ?? '')\<close>.\<close>

fun jsString :: "json \<Rightarrow> string" where
  "jsString JNull = ''null''"
| "jsString (JBool b) = (if b then ''true'' else ''false'')"
| "jsString (JNum n) = showInt n"
| "jsString (JStr s) = s"
| "jsString (JArr xs) = joinComma (map (\<lambda>x. if x = JNull then [] else jsString x) xs)"
| "jsString (JObj kvs) = ''[object Object]''"

definition fieldText :: "obj \<Rightarrow> string \<Rightarrow> string" where
  "fieldText node f = (case fld node f of None \<Rightarrow> [] | Some JNull \<Rightarrow> [] | Some v \<Rightarrow> jsString v)"

definition verifyNodeUpsert ::
  "('w, 'v) Substrates \<Rightarrow> obj \<Rightarrow> string option \<Rightarrow> 'w \<Rightarrow> ReplayError + VerifyOutcome" where
  "verifyNodeUpsert S p ws w =
     (case neStrFld p ''id'' of
        None \<Rightarrow> outcome False ''missing-id''
      | Some i \<Rightarrow>
          (let witnessFields = filter (\<lambda>f. strFld p f \<noteq> None) NODE_CONTENT_WITNESS_FIELDS in
           if witnessFields \<noteq> [] then
             (case getNode S of
                None \<Rightarrow> outcome False ''content-witness-unwired''
              | Some get \<Rightarrow> (case get i ws w of
                    Inl err \<Rightarrow> Inl err
                  | Inr None \<Rightarrow> outcome False ''substrate-missing-node''
                  | Inr (Some node) \<Rightarrow>
                      if list_all (\<lambda>f. Some (fieldText node f) = strFld p f) witnessFields
                      then outcome True ''substrate-content-matches''
                      else outcome False ''substrate-content-stale''))
           else
             (case hasNode S of
                None \<Rightarrow> outcome False ''no-verifier-wired''
              | Some has \<Rightarrow> (case has i ws w of
                    Inl err \<Rightarrow> Inl err
                  | Inr ok \<Rightarrow> outcome ok (if ok then ''substrate-has-node'' else ''substrate-missing-node'')))))"

definition verifyEdgeUpsert ::
  "('w, 'v) Substrates \<Rightarrow> obj \<Rightarrow> string option \<Rightarrow> 'w \<Rightarrow> ReplayError + VerifyOutcome" where
  "verifyEdgeUpsert S p ws w =
     (case hasEdge S of
        None \<Rightarrow> outcome False ''no-verifier-wired''
      | Some has \<Rightarrow> (case edgeTriple p of
            None \<Rightarrow> outcome False ''missing-edge-triple''
          | Some (s, t, r) \<Rightarrow> (case has s t r ws w of
                Inl err \<Rightarrow> Inl err
              | Inr False \<Rightarrow> outcome False ''substrate-missing-edge''
              | Inr True \<Rightarrow>
                  if fld p ''bidirectional'' \<noteq> Some (JBool False) then
                    (case has t s r ws w of
                       Inl err \<Rightarrow> Inl err
                     | Inr False \<Rightarrow> outcome False ''substrate-missing-reverse-edge''
                     | Inr True \<Rightarrow> outcome True ''substrate-has-edge'')
                  else outcome True ''substrate-has-edge'')))"

definition verifyNodeDelete ::
  "('w, 'v) Substrates \<Rightarrow> obj \<Rightarrow> string option \<Rightarrow> 'w \<Rightarrow> ReplayError + VerifyOutcome" where
  "verifyNodeDelete S p ws w =
     (case hasNode S of
        None \<Rightarrow> outcome False ''no-verifier-wired''
      | Some has \<Rightarrow> (case neStrFld p ''id'' of
            None \<Rightarrow> outcome False ''missing-id''
          | Some i \<Rightarrow> (case has i ws w of
                Inl err \<Rightarrow> Inl err
              | Inr present \<Rightarrow> outcome (\<not> present)
                  (if present then ''substrate-still-has-node'' else ''substrate-confirms-deleted''))))"

definition verifyEdgeDelete ::
  "('w, 'v) Substrates \<Rightarrow> obj \<Rightarrow> string option \<Rightarrow> 'w \<Rightarrow> ReplayError + VerifyOutcome" where
  "verifyEdgeDelete S p ws w =
     (case hasEdge S of
        None \<Rightarrow> outcome False ''no-verifier-wired''
      | Some has \<Rightarrow> (case edgeTriple p of
            None \<Rightarrow> outcome False ''missing-edge-triple''
          | Some (s, t, r) \<Rightarrow> (case has s t r ws w of
                Inl err \<Rightarrow> Inl err
              | Inr present \<Rightarrow> outcome (\<not> present)
                  (if present then ''substrate-still-has-edge'' else ''substrate-confirms-edge-deleted''))))"

text \<open>
  The probe loops of \<open>verifyApplied\<close>: read each id in turn, stop at the first throw or at the
  first value the check rejects.
\<close>

fun probeAll :: "('a \<Rightarrow> ReplayError + 'b) \<Rightarrow> ('a \<Rightarrow> 'b \<Rightarrow> string option) \<Rightarrow> 'a list \<Rightarrow> string \<Rightarrow> ReplayError + VerifyOutcome" where
  "probeAll get bad [] yes = outcome True yes"
| "probeAll get bad (x # xs) yes =
     (case get x of
        Inl err \<Rightarrow> Inl err
      | Inr v \<Rightarrow> (case bad x v of Some no \<Rightarrow> outcome False no | None \<Rightarrow> probeAll get bad xs yes))"

definition verifyMarkStale ::
  "('w, 'v) Substrates \<Rightarrow> obj \<Rightarrow> string option \<Rightarrow> 'w \<Rightarrow> ReplayError + VerifyOutcome" where
  "verifyMarkStale S p ws w =
     (let ids = (case arrFld p ''ids'' of None \<Rightarrow> [] | Some xs \<Rightarrow> neStrs xs) in
      if ids = [] then outcome False ''missing-ids''
      else (case getNode S of
              None \<Rightarrow> outcome False ''content-witness-unwired''
            | Some get \<Rightarrow>
                probeAll (\<lambda>i. get i ws w)
                  (\<lambda>i v. case v of None \<Rightarrow> None
                        | Some node \<Rightarrow> if fld node ''stale'' \<noteq> Some (JBool True) then Some ''substrate-not-stale'' else None)
                  ids ''substrate-marked-stale-or-absent''))"

definition verifyVerbatimUpsert ::
  "(string \<Rightarrow> string) \<Rightarrow> ('w, 'v) Substrates \<Rightarrow> obj \<Rightarrow> string option \<Rightarrow> 'w \<Rightarrow> ReplayError + VerifyOutcome" where
  "verifyVerbatimUpsert sha1Hex S p ws w =
     (case neStrFld p ''id'' of
        None \<Rightarrow> outcome False ''missing-id''
      | Some i \<Rightarrow>
          (case expectedVerbatimHash sha1Hex p of
             Some (c # cs) \<Rightarrow>
               (case getVerbatim S of
                  None \<Rightarrow> outcome False ''content-witness-unwired''
                | Some get \<Rightarrow> (case get i ws w of
                      Inl err \<Rightarrow> Inl err
                    | Inr None \<Rightarrow> outcome False ''substrate-missing-verbatim''
                    | Inr (Some row) \<Rightarrow>
                        if storedVerbatimHash sha1Hex row = c # cs
                        then outcome True ''substrate-content-matches''
                        else outcome False ''substrate-content-stale''))
           | _ \<Rightarrow>
               (case hasVerbatim S of
                  None \<Rightarrow> outcome False ''no-verifier-wired''
                | Some has \<Rightarrow> (case has i ws w of
                      Inl err \<Rightarrow> Inl err
                    | Inr ok \<Rightarrow> outcome ok (if ok then ''substrate-has-verbatim'' else ''substrate-missing-verbatim'')))))"

definition verifyTombstone ::
  "('w, 'v) Substrates \<Rightarrow> obj \<Rightarrow> string option \<Rightarrow> 'w \<Rightarrow> ReplayError + VerifyOutcome" where
  "verifyTombstone S p ws w =
     (case neStrFld p ''id'' of
        None \<Rightarrow> outcome False ''missing-id''
      | Some i \<Rightarrow> (case getVerbatim S of
            None \<Rightarrow> outcome False ''content-witness-unwired''
          | Some get \<Rightarrow> (case get i ws w of
                Inl err \<Rightarrow> Inl err
              | Inr None \<Rightarrow> outcome True ''substrate-missing-verbatim''
              | Inr (Some row) \<Rightarrow>
                  (let tombstoned = (case vrText row of None \<Rightarrow> False | Some t \<Rightarrow> take 11 t = ''[TOMBSTONED'')
                   in outcome tombstoned (if tombstoned then ''substrate-tombstoned'' else ''substrate-still-live'')))))"

definition verifyPurge ::
  "('w, 'v) Substrates \<Rightarrow> obj \<Rightarrow> string option \<Rightarrow> 'w \<Rightarrow> ReplayError + VerifyOutcome" where
  "verifyPurge S p ws w =
     (if purgeIdsOf p = [] then outcome False ''missing-ids''
      else (case getVerbatim S of
              None \<Rightarrow> outcome False ''content-witness-unwired''
            | Some get \<Rightarrow>
                probeAll (\<lambda>i. get i ws w)
                  (\<lambda>i v. case v of None \<Rightarrow> None | Some _ \<Rightarrow> Some ''substrate-still-has-verbatim'')
                  (purgeIdsOf p) ''substrate-purged''))"

text \<open>One item of the batch verification; an item without an id ends the loop before any probe.\<close>

definition batchItemBad :: "(string \<Rightarrow> string) \<Rightarrow> obj \<Rightarrow> VerbatimRow option option \<Rightarrow> string option" where
  "batchItemBad sha1Hex it v =
     (case v of
        None \<Rightarrow> Some ''missing-ids''
      | Some None \<Rightarrow> Some ''substrate-missing-verbatim''
      | Some (Some row) \<Rightarrow>
          (case expectedVerbatimHash sha1Hex it of
             Some (c # cs) \<Rightarrow> if storedVerbatimHash sha1Hex row \<noteq> c # cs then Some ''substrate-content-stale'' else None
           | _ \<Rightarrow> None))"

definition verifyVerbatimBatch ::
  "(string \<Rightarrow> string) \<Rightarrow> ('w, 'v) Substrates \<Rightarrow> obj \<Rightarrow> string option \<Rightarrow> 'w \<Rightarrow> ReplayError + VerifyOutcome" where
  "verifyVerbatimBatch sha1Hex S p ws w =
     (let items = (case arrFld p ''items'' of None \<Rightarrow> [] | Some raw \<Rightarrow> objsOf raw);
          ids = List.map_filter (\<lambda>it. neStrFld it ''id'') items in
      if ids = [] then outcome False ''missing-ids''
      else (case getVerbatim S of
              Some get \<Rightarrow>
                probeAll
                  (\<lambda>it. case neStrFld it ''id'' of None \<Rightarrow> Inr None
                        | Some i \<Rightarrow> (case get i ws w of Inl err \<Rightarrow> Inl err | Inr row \<Rightarrow> Inr (Some row)))
                  (batchItemBad sha1Hex) items ''substrate-content-matches''
            | None \<Rightarrow>
                (case hasVerbatim S of
                   None \<Rightarrow> outcome False ''no-verifier-wired''
                 | Some has \<Rightarrow>
                     probeAll (\<lambda>i. has i ws w) (\<lambda>i ok. if ok then None else Some ''substrate-missing-verbatim'')
                       ids ''substrate-has-verbatim'')))"

definition verifyEmbedBatch ::
  "(string \<Rightarrow> string) \<Rightarrow> ('w, 'v) Substrates \<Rightarrow> obj \<Rightarrow> string option \<Rightarrow> 'w \<Rightarrow> ReplayError + VerifyOutcome" where
  "verifyEmbedBatch sha1Hex S p ws w =
     (let ids = (case arrFld p ''targetNodeIds'' of None \<Rightarrow> [] | Some xs \<Rightarrow> strsOf xs);
          texts = (case arrFld p ''texts'' of None \<Rightarrow> [] | Some xs \<Rightarrow> strsOf xs) in
      if ids = [] then outcome False ''missing-target-ids''
      else (case (if length texts = length ids then getVerbatim S else None) of
              Some get \<Rightarrow>
                probeAll (\<lambda>(i, t). get i ws w)
                  (\<lambda>(i, t) v. case v of
                      None \<Rightarrow> Some ''substrate-missing-embeddings''
                    | Some row \<Rightarrow> if storedVerbatimHash sha1Hex row \<noteq> computeContentHash sha1Hex t
                                  then Some ''substrate-content-stale'' else None)
                  (zip ids texts) ''substrate-content-matches''
            | None \<Rightarrow>
                (case hasEmbeddings S of
                   None \<Rightarrow> outcome False ''no-verifier-wired''
                 | Some has \<Rightarrow> (case has ids ws w of
                       Inl err \<Rightarrow> Inl err
                     | Inr ok \<Rightarrow> outcome ok (if ok then ''substrate-has-embeddings'' else ''substrate-missing-embeddings'')))))"

definition verifyBody ::
  "(string \<Rightarrow> string) \<Rightarrow> ('w, 'v) Substrates \<Rightarrow> OutboxOperationKind \<Rightarrow> obj \<Rightarrow> string option \<Rightarrow> 'w \<Rightarrow> ReplayError + VerifyOutcome" where
  "verifyBody sha1Hex S k p ws w =
     (case k of
        NodeUpsert \<Rightarrow> verifyNodeUpsert S p ws w
      | EdgeUpsert \<Rightarrow> verifyEdgeUpsert S p ws w
      | NodeDelete \<Rightarrow> verifyNodeDelete S p ws w
      | EdgeDelete \<Rightarrow> verifyEdgeDelete S p ws w
      | NodeMarkStale \<Rightarrow> verifyMarkStale S p ws w
      | VerbatimUpsert \<Rightarrow> verifyVerbatimUpsert sha1Hex S p ws w
      | VerbatimTombstone \<Rightarrow> verifyTombstone S p ws w
      | VerbatimPurge \<Rightarrow> verifyPurge S p ws w
      | VerbatimUpsertBatch \<Rightarrow> verifyVerbatimBatch sha1Hex S p ws w
      | EmbedBatch \<Rightarrow> verifyEmbedBatch sha1Hex S p ws w
      | _ \<Rightarrow> outcome False ''kind-not-self-healable'')"

definition verifyApplied ::
  "(string \<Rightarrow> string) \<Rightarrow> ('w, 'v) Substrates \<Rightarrow> OutboxEntry \<Rightarrow> 'w \<Rightarrow> VerifyOutcome" where
  "verifyApplied sha1Hex S e w =
     (case operationKind e of
        None \<Rightarrow> \<lparr>verified = False, reason = ''no-operation-kind''\<rparr>
      | Some k \<Rightarrow>
          (case verifyBody sha1Hex S k (case payload e of None \<Rightarrow> [] | Some p \<Rightarrow> p) (workspace e) w of
             Inl err \<Rightarrow> \<lparr>verified = False, reason = ''verifier-threw:'' @ take 80 (errMessage err)\<rparr>
           | Inr out \<Rightarrow> out))"

end
