(* ===== verification/OutboxReplicator.thy ===== *)
theory OutboxReplicator
  imports OutboxStoreProps OutboxDispatch
begin

text \<open>
  The replicator over \<open>SqliteOutboxStore\<close>: what happens to a row whose replay threw
  (\<open>outbox/failureDisposition.ts\<close>, \<open>replayDeferred.ts\<close>), the per-row replay and its
  supersession guards (\<open>replicator.ts\<close>, \<open>deleteAwareReplay.ts\<close>, \<open>replicatorClaim.ts\<close>), the
  three consolidations (\<open>verbatimConsolidation.ts\<close>, \<open>verbatimPurgeConsolidation.ts\<close>,
  \<open>collectEmbedBatchRun\<close>), the tick, and the self-heal and retention sweeps.

  A tick runs at one clock reading \<open>now\<close>. The tick gate of the code serialises ticks, so a tick
  is one function of the replicator's state. Every method of the SQLite store is present, so
  the \<open>typeof store.m === 'function'\<close> tests of the code are true here; a SQLite call does not
  throw. Log lines are not modelled, the counters are.
\<close>

section \<open>State and configuration\<close>

record DispositionEnv =
  maxAttempts :: int
  transientCeilingMs :: int
  transientBaseMs :: int
  transientCapMs :: int
  classify :: "(ReplayError \<Rightarrow> bool) option"
  haltBatch :: "(ReplayError \<Rightarrow> bool) option"
  jitter :: "nat \<Rightarrow> int \<Rightarrow> int"

text \<open>\<open>jitter n m\<close> is \<open>Math.floor(random() * m)\<close> at the \<open>n\<close>-th call of \<open>random\<close>.\<close>

definition jitter_ok :: "DispositionEnv \<Rightarrow> bool" where
  "jitter_ok env \<longleftrightarrow> (\<forall>n m. 0 < m \<longrightarrow> 0 \<le> jitter env n m \<and> jitter env n m < m)"

record ReplicatorConfig =
  batchSize :: int
  selfHealIntervalMs :: int
  selfHealGraceMs :: int
  selfHealBatchSize :: int
  pruneReplicatedOlderThanMs :: int
  EMBED_BATCH_CONSOLIDATION_CAP :: int
  VERBATIM_UPSERT_CONSOLIDATION_CAP :: int

record 'w Rep =
  rstore :: Store
  world :: 'w
  deferred :: "string list"
  batchHalted :: bool
  draws :: nat
  statReplicated :: nat
  statFailures :: nat
  statDead :: nat
  statTransient :: nat
  statSelfHealed :: nat
  statSweeps :: nat
  statExamined :: nat
  statPruned :: nat
  lastSelfHealAt :: ms
  lastPruneAt :: ms

definition setStatus :: "'w Rep \<Rightarrow> string \<Rightarrow> OutboxStatus \<Rightarrow> MarkInfo \<Rightarrow> ms \<Rightarrow> 'w Rep" where
  "setStatus R i s info now = R\<lparr>rstore := markEntryStatus (rstore R) i s info now\<rparr>"

section \<open>\<open>failureDisposition.ts\<close>\<close>

definition transientBackoffMs :: "DispositionEnv \<Rightarrow> nat \<Rightarrow> nat \<Rightarrow> int" where
  "transientBackoffMs env draw retries =
     jitter env draw (min (transientCapMs env) (transientBaseMs env * 2 ^ min retries 30))"

datatype DeadReason = Unwired | Invalid | Permanent | TransientCeiling

fun deadReasonName :: "DeadReason \<Rightarrow> string" where
  "deadReasonName Unwired = ''unwired''"
| "deadReasonName Invalid = ''invalid''"
| "deadReasonName Permanent = ''permanent''"
| "deadReasonName TransientCeiling = ''transient_ceiling''"

datatype FailureOutcome = OutTransient nat ms | OutFailed | OutDead DeadReason string

fun terminalReason :: "ReplayError \<Rightarrow> DeadReason option" where
  "terminalReason (UnwiredOperationKindError k) = Some Unwired"
| "terminalReason (MissingPayloadError k f) = Some Invalid"
| "terminalReason _ = None"

definition isTransient :: "DispositionEnv \<Rightarrow> ReplayError \<Rightarrow> bool" where
  "isTransient env err = (case classify env of None \<Rightarrow> False | Some c \<Rightarrow> c err)"

definition haltsBatch :: "DispositionEnv \<Rightarrow> ReplayError \<Rightarrow> bool" where
  "haltsBatch env err = (case haltBatch env of None \<Rightarrow> False | Some h \<Rightarrow> h err)"

text \<open>\<open>Math.round(d / 3_600_000)\<close>\<close>

definition roundHours :: "int \<Rightarrow> int" where
  "roundHours d = (2 * d + 3600000) div 7200000"

definition ceilingMessage :: "string \<Rightarrow> int \<Rightarrow> nat \<Rightarrow> string" where
  "ceilingMessage msg age retries =
     msg @ '' [transient for '' @ showInt (roundHours age) @ ''h over '' @ showNat (retries + 1) @
     '' retries, ceiling reached]''"

definition deadInfo :: "string \<Rightarrow> bool \<Rightarrow> DeadReason option \<Rightarrow> MarkInfo" where
  "deadInfo m bump r = \<lparr>infoError = Some m, bumpAttempt = bump, infoDeadReason = map_option deadReasonName r\<rparr>"

definition ceilingReached :: "DispositionEnv \<Rightarrow> OutboxEntry \<Rightarrow> ms \<Rightarrow> int option" where
  "ceilingReached env e now =
     (case firstTransientAt e of
        None \<Rightarrow> None
      | Some f \<Rightarrow> if now - f \<ge> transientCeilingMs env then Some (now - f) else None)"

definition retriesOf :: "OutboxEntry \<Rightarrow> nat" where
  "retriesOf e = (case transientRetries e of None \<Rightarrow> 0 | Some n \<Rightarrow> n)"

definition recordReplayFailure ::
  "DispositionEnv \<Rightarrow> ms \<Rightarrow> OutboxEntry \<Rightarrow> ReplayError \<Rightarrow> 'w Rep \<Rightarrow> FailureOutcome \<times> 'w Rep" where
  "recordReplayFailure env now e err R =
     (let msg = errMessage err in
      case terminalReason err of
        Some r \<Rightarrow> (OutDead r msg, setStatus R (entryId e) Dead (deadInfo msg True (Some r)) now)
      | None \<Rightarrow>
          if isTransient env err then
            (let R = (if haltsBatch env err then R\<lparr>batchHalted := True\<rparr> else R);
                 retries = retriesOf e in
             case ceilingReached env e now of
               Some age \<Rightarrow>
                 (let m = ceilingMessage msg age retries
                  in (OutDead TransientCeiling m,
                      setStatus R (entryId e) Dead (deadInfo m False (Some TransientCeiling)) now))
             | None \<Rightarrow>
                 (let next = now + transientBackoffMs env (draws R) retries
                  in (OutTransient (retries + 1) next,
                      R\<lparr>draws := draws R + 1,
                        rstore := snd (recordTransientFailure (rstore R) (entryId e) msg next now)\<rparr>)))
          else if int (case attempts e of None \<Rightarrow> 0 | Some n \<Rightarrow> n) + 1 \<ge> maxAttempts env then
            (OutDead Permanent msg, setStatus R (entryId e) Dead (deadInfo msg True (Some Permanent)) now)
          else
            (OutFailed, setStatus R (entryId e) Failed (deadInfo msg True None) now))"

text \<open>\<open>settleReplayFailure\<close> with the replicator's counters as its hooks.\<close>

definition settleReplayFailure ::
  "DispositionEnv \<Rightarrow> ms \<Rightarrow> OutboxEntry \<Rightarrow> ReplayError \<Rightarrow> 'w Rep \<Rightarrow> FailureOutcome \<times> 'w Rep" where
  "settleReplayFailure env now e err R =
     (case recordReplayFailure env now e err R of
        (OutDead r m, R) \<Rightarrow> (OutDead r m, R\<lparr>statDead := statDead R + 1\<rparr>)
      | (OutTransient n t, R) \<Rightarrow> (OutTransient n t, R)
      | (OutFailed, R) \<Rightarrow> (OutFailed, R\<lparr>statFailures := statFailures R + 1\<rparr>))"

definition settleFailure ::
  "DispositionEnv \<Rightarrow> ms \<Rightarrow> OutboxEntry \<Rightarrow> ReplayError \<Rightarrow> 'w Rep \<Rightarrow> FailureOutcome \<times> 'w Rep" where
  "settleFailure env now e err R =
     (case settleReplayFailure env now e err R of
        (OutTransient n t, R) \<Rightarrow> (OutTransient n t, R\<lparr>statTransient := statTransient R + 1\<rparr>)
      | r \<Rightarrow> r)"

section \<open>\<open>replayDeferred.ts\<close>\<close>

fun familyName :: "EntityFamily \<Rightarrow> string" where
  "familyName NodeFamily = ''node''"
| "familyName EdgeFamily = ''edge''"
| "familyName VerbatimFamily = ''verbatim''"

definition deferKey :: "OutboxEntry \<Rightarrow> string option" where
  "deferKey e =
     (case keyOfEntry e of
        None \<Rightarrow> None
      | Some (f, k) \<Rightarrow>
          Some ((case workspace e of None \<Rightarrow> [] | Some w \<Rightarrow> w) @ CHR 0x00 # familyName f @ CHR 0x00 # k))"

definition deferredAdd :: "OutboxEntry \<Rightarrow> 'w Rep \<Rightarrow> 'w Rep" where
  "deferredAdd e R = (case deferKey e of None \<Rightarrow> R | Some k \<Rightarrow> R\<lparr>deferred := List.insert k (deferred R)\<rparr>)"

definition deferredHas :: "'w Rep \<Rightarrow> OutboxEntry \<Rightarrow> bool" where
  "deferredHas R e = (case deferKey e of None \<Rightarrow> False | Some k \<Rightarrow> k \<in> set (deferred R))"

definition releaseDeferred :: "OutboxEntry \<Rightarrow> ms \<Rightarrow> 'w Rep \<Rightarrow> 'w Rep" where
  "releaseDeferred e now R = setStatus (deferredAdd e R) (entryId e) Pending noInfo now"

section \<open>Supersession guards\<close>

definition upsertKind :: "OutboxOperationKind \<Rightarrow> bool" where
  "upsertKind k = (k = NodeUpsert \<or> k = EdgeUpsert \<or> k = VerbatimUpsert)"

definition isSupersededByLaterDelete :: "Store \<Rightarrow> OutboxEntry \<Rightarrow> bool" where
  "isSupersededByLaterDelete st e =
     (case (operationKind e, keyOfEntry e, sequenceId e, workspace e) of
        (Some k, Some (f, key), Some s, Some w) \<Rightarrow>
          upsertKind k \<and> w \<noteq> [] \<and> hasNewerDeleteForKey st w f key s
      | _ \<Rightarrow> False)"

definition isSupersededFailed :: "Store \<Rightarrow> OutboxEntry \<Rightarrow> bool" where
  "isSupersededFailed st e =
     (if isSupersededByLaterDelete st e then True
      else if status e \<noteq> Some Failed then False
      else (case (keyOfEntry e, sequenceId e, workspace e) of
              (Some (f, key), Some s, Some w) \<Rightarrow> w \<noteq> [] \<and> hasNewerReplicatedForKey st w f key s
            | _ \<Rightarrow> False))"

definition supersededInfo :: MarkInfo where
  "supersededInfo = \<lparr>infoError = Some SUPERSEDED_DEAD_ERROR, bumpAttempt = False, infoDeadReason = None\<rparr>"

definition claimEntry :: "string \<Rightarrow> ms \<Rightarrow> 'w Rep \<Rightarrow> bool \<times> 'w Rep" where
  "claimEntry i now R =
     (case claimForReplication (rstore R) i now of (ok, st) \<Rightarrow> (ok, R\<lparr>rstore := st\<rparr>))"

section \<open>Replaying one row\<close>

definition vectorIdOf :: "string \<Rightarrow> string" where
  "vectorIdOf i = (if take 5 i = ''lore:'' then i else ''lore:'' @ i)"

text \<open>\<open>reapHalfCompletion\<close>; a probe or a reap that throws is swallowed by the caller.\<close>

definition reapHalfCompletion :: "('w, 'v) Substrates \<Rightarrow> OutboxEntry \<Rightarrow> 'w \<Rightarrow> 'w" where
  "reapHalfCompletion S e w =
     (if operationKind e \<noteq> Some NodeUpsert then w
      else (case (neStrFld (case payload e of None \<Rightarrow> [] | Some p \<Rightarrow> p) ''id'', physicalDeleteVerbatim S) of
              (Some i, Some reap) \<Rightarrow>
                (case (case hasNode S of None \<Rightarrow> Inr False | Some has \<Rightarrow> has i (workspace e) w) of
                   Inl err \<Rightarrow> w
                 | Inr True \<Rightarrow> w
                 | Inr False \<Rightarrow> snd (reap (vectorIdOf i) (workspace e) w))
            | _ \<Rightarrow> w))"

definition markSuperseded :: "OutboxEntry \<Rightarrow> ms \<Rightarrow> 'w Rep \<Rightarrow> 'w Rep" where
  "markSuperseded e now R =
     (let R = setStatus R (entryId e) Dead supersededInfo now in R\<lparr>statDead := statDead R + 1\<rparr>)"

definition markReplicated :: "OutboxEntry \<Rightarrow> ms \<Rightarrow> 'w Rep \<Rightarrow> 'w Rep" where
  "markReplicated e now R =
     (let R = setStatus R (entryId e) Replicated noInfo now in R\<lparr>statReplicated := statReplicated R + 1\<rparr>)"

definition replicateOne ::
  "('w, 'v) Substrates \<Rightarrow> DispositionEnv \<Rightarrow> ms \<Rightarrow> OutboxEntry \<Rightarrow> 'w Rep \<Rightarrow> bool \<times> 'w Rep" where
  "replicateOne S env now e R =
     (if isSupersededFailed (rstore R) e then (False, markSuperseded e now R)
      else (case claimEntry (entryId e) now R of
              (False, R) \<Rightarrow> (False, R)
            | (True, R) \<Rightarrow>
                (case dispatch S e (world R) of
                   (None, w) \<Rightarrow> (True, markReplicated e now (R\<lparr>world := w\<rparr>))
                 | (Some (ReplayDeferredError m), w) \<Rightarrow> (False, releaseDeferred e now (R\<lparr>world := w\<rparr>))
                 | (Some err, w) \<Rightarrow>
                     (case settleFailure env now e err (R\<lparr>world := w\<rparr>) of
                        (OutDead r m, R) \<Rightarrow> (False, R\<lparr>world := reapHalfCompletion S e (world R)\<rparr>)
                      | (out, R) \<Rightarrow> (False, R)))))"

section \<open>Consolidated \<open>embed.batch\<close> rows\<close>

definition isStr :: "json \<Rightarrow> bool" where
  "isStr v = (case v of JStr s \<Rightarrow> True | _ \<Rightarrow> False)"

definition strOf :: "json \<Rightarrow> string" where
  "strOf v = (case v of JStr s \<Rightarrow> s | _ \<Rightarrow> [])"

text \<open>
  The pairs one row contributes: \<open>None\<close> when the payload is malformed (no arrays, arrays of
  different lengths, or not one usable pair in a row that had to drop some).
\<close>

definition embedPairs :: "obj \<Rightarrow> (string list \<times> string list) option" where
  "embedPairs p =
     (case (arrFld p ''texts'', arrFld p ''targetNodeIds'') of
        (Some txtArr, Some idArr) \<Rightarrow>
          if length txtArr \<noteq> length idArr then None
          else (let good = filter (\<lambda>(t, i). isStr t \<and> isStr i) (zip txtArr idArr) in
                if length good < length txtArr \<and> good = [] then None
                else Some (map (strOf \<circ> fst) good, map (strOf \<circ> snd) good))
      | _ \<Rightarrow> None)"

fun collectEmbedBatchRun ::
  "int \<Rightarrow> OutboxEntry list \<Rightarrow> OutboxEntry list \<Rightarrow> string list \<Rightarrow> string list
     \<Rightarrow> OutboxEntry list \<times> string list \<times> string list" where
  "collectEmbedBatchRun cap [] consumed texts ids = (consumed, texts, ids)"
| "collectEmbedBatchRun cap (e # es) consumed texts ids =
     (if operationKind e \<noteq> Some EmbedBatch then (consumed, texts, ids)
      else (case embedPairs (case payload e of None \<Rightarrow> [] | Some p \<Rightarrow> p) of
              None \<Rightarrow> (if consumed = [] then [e] else consumed, texts, ids)
            | Some (t, i) \<Rightarrow>
                if consumed \<noteq> [] \<and> int (length texts) + int (length t) > cap then (consumed, texts, ids)
                else (let texts' = texts @ t; ids' = ids @ i in
                      if int (length texts') \<ge> cap then (consumed @ [e], texts', ids')
                      else collectEmbedBatchRun cap es (consumed @ [e]) texts' ids')))"

definition markAllReplicating :: "ms \<Rightarrow> OutboxEntry list \<Rightarrow> 'w Rep \<Rightarrow> 'w Rep" where
  "markAllReplicating now es R = fold (\<lambda>e R. setStatus R (entryId e) Replicating noInfo now) es R"

definition embedSynth :: "OutboxEntry \<Rightarrow> string list \<Rightarrow> string list \<Rightarrow> OutboxEntry" where
  "embedSynth e texts ids =
     e\<lparr>payload := Some [(''texts'', JArr (map JStr texts)), (''targetNodeIds'', JArr (map JStr ids))]\<rparr>"

definition replicateConsolidatedEmbedBatch ::
  "('w, 'v) Substrates \<Rightarrow> DispositionEnv \<Rightarrow> ms \<Rightarrow> OutboxEntry list \<Rightarrow> string list \<Rightarrow> string list
     \<Rightarrow> 'w Rep \<Rightarrow> bool \<times> 'w Rep" where
  "replicateConsolidatedEmbedBatch S env now es texts ids R =
     (let R = markAllReplicating now es R in
      case dispatch S (embedSynth (hd es) texts ids) (world R) of
        (None, w) \<Rightarrow> (True, fold (\<lambda>e R. markReplicated e now R) es (R\<lparr>world := w\<rparr>))
      | (Some err, w) \<Rightarrow> (False, fold (\<lambda>e R. snd (settleFailure env now e err R)) es (R\<lparr>world := w\<rparr>)))"

section \<open>\<open>verbatimConsolidation.ts\<close>\<close>

definition payloadOf :: "OutboxEntry \<Rightarrow> obj" where
  "payloadOf e = (case payload e of None \<Rightarrow> [] | Some p \<Rightarrow> p)"

fun collectVerbatimUpsertRun ::
  "int \<Rightarrow> OutboxEntry list \<Rightarrow> OutboxEntry list \<Rightarrow> OutboxEntry list" where
  "collectVerbatimUpsertRun cap [] consumed = consumed"
| "collectVerbatimUpsertRun cap (e # es) consumed =
     (if operationKind e \<noteq> Some VerbatimUpsert then consumed
      else if neStrFld (payloadOf e) ''id'' = None then (if consumed = [] then [e] else consumed)
      else if int (length consumed) \<ge> cap then consumed
      else collectVerbatimUpsertRun cap es (consumed @ [e]))"

definition verbatimSynth :: "OutboxEntry list \<Rightarrow> OutboxEntry" where
  "verbatimSynth es =
     (hd es)\<lparr>operationKind := Some VerbatimUpsertBatch,
             payload := Some [(''items'', JArr (map (JObj \<circ> payloadOf) es))]\<rparr>"

definition replicateConsolidatedVerbatim ::
  "('w, 'v) Substrates \<Rightarrow> DispositionEnv \<Rightarrow> ms \<Rightarrow> OutboxEntry list \<Rightarrow> 'w Rep \<Rightarrow> bool \<times> 'w Rep" where
  "replicateConsolidatedVerbatim S env now es R =
     (let R = markAllReplicating now es R in
      case dispatch S (verbatimSynth es) (world R) of
        (None, w) \<Rightarrow> (True, fold (\<lambda>e R. markReplicated e now R) es (R\<lparr>world := w\<rparr>))
      | (Some err, w) \<Rightarrow> (False, fold (\<lambda>e R. snd (settleReplayFailure env now e err R)) es (R\<lparr>world := w\<rparr>)))"

text \<open>The rows of a run that no newer write supersedes; the others are marked dead.\<close>

fun dropSuperseded :: "(OutboxEntry \<Rightarrow> bool) \<Rightarrow> ms \<Rightarrow> OutboxEntry list \<Rightarrow> 'w Rep \<Rightarrow> OutboxEntry list \<times> 'w Rep" where
  "dropSuperseded only now [] R = ([], R)"
| "dropSuperseded only now (e # es) R =
     (if only e \<and> isSupersededFailed (rstore R) e
      then dropSuperseded only now es (markSuperseded e now R)
      else (case dropSuperseded only now es R of (kept, R) \<Rightarrow> (e # kept, R)))"

definition maxSeqFrom :: "int \<Rightarrow> OutboxEntry list \<Rightarrow> int" where
  "maxSeqFrom m es = fold (\<lambda>e m. case sequenceId e of None \<Rightarrow> m | Some s \<Rightarrow> if s > m then s else m) es m"

definition maxSeq :: "OutboxEntry list \<Rightarrow> int option \<Rightarrow> int option" where
  "maxSeq es from =
     fold (\<lambda>e m. case sequenceId e of None \<Rightarrow> m
                | Some s \<Rightarrow> (case m of None \<Rightarrow> Some s | Some x \<Rightarrow> if s > x then Some s else m)) es from"

fun dispatchEach ::
  "('w, 'v) Substrates \<Rightarrow> DispositionEnv \<Rightarrow> ms \<Rightarrow> OutboxEntry list \<Rightarrow> int option \<Rightarrow> 'w Rep \<Rightarrow> int option \<times> 'w Rep" where
  "dispatchEach S env now [] sq R = (sq, R)"
| "dispatchEach S env now (e # es) sq R =
     (case replicateOne S env now e R of
        (ok, R) \<Rightarrow> dispatchEach S env now es (if ok then maxSeq [e] sq else sq) R)"

definition consolidateVerbatimRun ::
  "('w, 'v) Substrates \<Rightarrow> DispositionEnv \<Rightarrow> ms \<Rightarrow> OutboxEntry list \<Rightarrow> 'w Rep \<Rightarrow> int option \<times> 'w Rep" where
  "consolidateVerbatimRun S env now run R =
     (case dropSuperseded (\<lambda>_. True) now run R of
        (es, R) \<Rightarrow>
          if length es \<ge> 2 then
            (case replicateConsolidatedVerbatim S env now es R of
               (ok, R) \<Rightarrow> (if ok then Some (maxSeqFrom (- 1) es) else None, R))
          else dispatchEach S env now es None R)"

section \<open>\<open>verbatimPurgeConsolidation.ts\<close>\<close>

fun collectVerbatimPurgeRun ::
  "int \<Rightarrow> string option \<Rightarrow> OutboxEntry list \<Rightarrow> OutboxEntry list \<Rightarrow> OutboxEntry list" where
  "collectVerbatimPurgeRun cap ws [] out = out"
| "collectVerbatimPurgeRun cap ws (e # es) out =
     (if operationKind e \<noteq> Some VerbatimPurge \<or> workspace e \<noteq> ws then out
      else if purgeIdsOf (payloadOf e) = [] then (if out = [] then [e] else out)
      else if int (length out) \<ge> cap then out
      else collectVerbatimPurgeRun cap ws es (out @ [e]))"

fun claimAll :: "ms \<Rightarrow> OutboxEntry list \<Rightarrow> 'w Rep \<Rightarrow> OutboxEntry list \<times> 'w Rep" where
  "claimAll now [] R = ([], R)"
| "claimAll now (e # es) R =
     (case claimEntry (entryId e) now R of
        (ok, R) \<Rightarrow> (case claimAll now es R of (cs, R) \<Rightarrow> (if ok then e # cs else cs, R)))"

definition purgeSynth :: "OutboxEntry list \<Rightarrow> OutboxEntry" where
  "purgeSynth es =
     (hd es)\<lparr>payload := Some [(''ids'', JArr (map JStr (insertionSet (concat (map (purgeIdsOf \<circ> payloadOf) es)))))]\<rparr>"

fun purgeEach ::
  "('w, 'v) Substrates \<Rightarrow> DispositionEnv \<Rightarrow> ms \<Rightarrow> OutboxEntry list \<Rightarrow> int option \<Rightarrow> 'w Rep \<Rightarrow> int option \<times> 'w Rep" where
  "purgeEach S env now [] sq R = (sq, R)"
| "purgeEach S env now (e # es) sq R =
     (case dispatch S e (world R) of
        (None, w) \<Rightarrow> purgeEach S env now es (maxSeq [e] sq) (markReplicated e now (R\<lparr>world := w\<rparr>))
      | (Some err, w) \<Rightarrow> purgeEach S env now es sq (snd (settleReplayFailure env now e err (R\<lparr>world := w\<rparr>))))"

definition consolidateVerbatimPurgeRun ::
  "('w, 'v) Substrates \<Rightarrow> DispositionEnv \<Rightarrow> ms \<Rightarrow> OutboxEntry list \<Rightarrow> 'w Rep \<Rightarrow> int option \<times> 'w Rep" where
  "consolidateVerbatimPurgeRun S env now run R =
     (case dropSuperseded (\<lambda>e. status e = Some Failed) now run R of
        (survivors, R) \<Rightarrow>
          if length survivors < 2 then dispatchEach S env now survivors None R
          else (case claimAll now survivors R of
                  ([], R) \<Rightarrow> (None, R)
                | (claimed, R) \<Rightarrow>
                    (case dispatch S (purgeSynth claimed) (world R) of
                       (None, w) \<Rightarrow> (maxSeq claimed None, fold (\<lambda>e R. markReplicated e now R) claimed (R\<lparr>world := w\<rparr>))
                     | (Some err, w) \<Rightarrow> purgeEach S env now claimed None (R\<lparr>world := w\<rparr>))))"

definition consolidateVerbatimAt ::
  "('w, 'v) Substrates \<Rightarrow> DispositionEnv \<Rightarrow> ms \<Rightarrow> int \<Rightarrow> OutboxEntry list \<Rightarrow> 'w Rep
     \<Rightarrow> ((nat \<times> int option) \<times> 'w Rep) option" where
  "consolidateVerbatimAt S env now cap fresh R =
     (case fresh of
        [] \<Rightarrow> None
      | e # _ \<Rightarrow>
          if cap \<le> 0 then None
          else if operationKind e = Some VerbatimUpsert \<and> upsertVerbatimBatch S \<noteq> None then
            (let run = collectVerbatimUpsertRun cap fresh [] in
             if length run < 2 then None
             else (case consolidateVerbatimRun S env now run R of (sq, R) \<Rightarrow> Some ((length run, sq), R)))
          else if operationKind e = Some VerbatimPurge \<and> purgeVerbatim S \<noteq> None then
            (let run = collectVerbatimPurgeRun cap (workspace e) fresh [] in
             if length run < 2 then None
             else (case consolidateVerbatimPurgeRun S env now run R of (sq, R) \<Rightarrow> Some ((length run, sq), R)))
          else None)"

lemma consolidateVerbatimAt_consumes:
  "consolidateVerbatimAt S env now cap fresh R = Some ((m, sq), R') \<Longrightarrow> 2 \<le> m"
  by (auto simp: consolidateVerbatimAt_def Let_def split: list.splits if_splits prod.splits)

section \<open>The tick\<close>

definition embedRunAt :: "ReplicatorConfig \<Rightarrow> OutboxEntry list \<Rightarrow> OutboxEntry list \<times> string list \<times> string list" where
  "embedRunAt cfg fresh =
     (case fresh of
        [] \<Rightarrow> ([], [], [])
      | e # _ \<Rightarrow>
          if operationKind e = Some EmbedBatch \<and> EMBED_BATCH_CONSOLIDATION_CAP cfg > 0
          then collectEmbedBatchRun (EMBED_BATCH_CONSOLIDATION_CAP cfg) fresh [] [] []
          else ([], [], []))"

text \<open>
  The walk over one workspace's batch: \<open>fresh\<close> is the part not yet visited, \<open>adv\<close> the highest
  sequence number replicated, \<open>n\<close> the rows processed.
\<close>

function walkBatch ::
  "('w, 'v) Substrates \<Rightarrow> ReplicatorConfig \<Rightarrow> DispositionEnv \<Rightarrow> ms \<Rightarrow> OutboxEntry list \<Rightarrow> int \<Rightarrow> nat \<Rightarrow> 'w Rep
     \<Rightarrow> int \<times> nat \<times> 'w Rep" where
  "walkBatch S cfg env now fresh adv n R =
     (case fresh of
        [] \<Rightarrow> (adv, n, R)
      | e # rest \<Rightarrow>
          if batchHalted R then (adv, n, R)
          else if deferredHas R e then walkBatch S cfg env now rest adv n R
          else (case embedRunAt cfg fresh of
                  (run, texts, ids) \<Rightarrow>
                   if length run > 1 then
                     (case replicateConsolidatedEmbedBatch S env now run texts ids R of
                        (ok, R) \<Rightarrow> walkBatch S cfg env now (drop (length run) fresh)
                          (if ok then maxSeqFrom adv run else adv) (n + length run) R)
                   else
                     (case consolidateVerbatimAt S env now (VERBATIM_UPSERT_CONSOLIDATION_CAP cfg) fresh R of
                        Some ((m, sq), R) \<Rightarrow>
                          walkBatch S cfg env now (drop m fresh)
                            (case sq of None \<Rightarrow> adv | Some s \<Rightarrow> if s > adv then s else adv) (n + m) R
                      | None \<Rightarrow>
                          (case replicateOne S env now e R of
                             (ok, R) \<Rightarrow> walkBatch S cfg env now rest
                               (case sequenceId e of
                                  None \<Rightarrow> adv | Some s \<Rightarrow> if ok \<and> s > adv then s else adv) (n + 1) R))))"
  by pat_completeness auto
termination
  by (relation "measure (\<lambda>(S, cfg, env, now, fresh, adv, n, R). length fresh)")
     (auto dest: consolidateVerbatimAt_consumes)

declare walkBatch.simps [simp del]

definition tickWorkspace ::
  "('w, 'v) Substrates \<Rightarrow> ReplicatorConfig \<Rightarrow> DispositionEnv \<Rightarrow> ms \<Rightarrow> string \<Rightarrow> nat \<times> 'w Rep \<Rightarrow> nat \<times> 'w Rep" where
  "tickWorkspace S cfg env now ws nR =
     (case nR of (n, R) \<Rightarrow>
        let batch = listPendingForWorkspace (rstore R) ws (batchSize cfg) now in
        if batch = [] then (n, R)
        else (let cursor = lastReplicatedSeq (readReplicationState (rstore R) ws) in
              case walkBatch S cfg env now batch cursor n (R\<lparr>batchHalted := False\<rparr>) of
                (adv, n, R) \<Rightarrow>
                  if adv > cursor
                  then (n, R\<lparr>rstore := writeReplicationState (rstore R) ws
                                \<lparr>lastReplicatedSeq = adv, cursorUpdatedAt = now\<rparr>\<rparr>)
                  else (n, R)))"

definition runTick ::
  "('w, 'v) Substrates \<Rightarrow> ReplicatorConfig \<Rightarrow> DispositionEnv \<Rightarrow> ms \<Rightarrow> 'w Rep \<Rightarrow> nat \<times> 'w Rep" where
  "runTick S cfg env now R =
     (let wss = listWorkspacesWithPending (rstore R) in
      if wss = [] then (0, R)
      else fold (tickWorkspace S cfg env now) wss (0, R\<lparr>deferred := []\<rparr>))"

section \<open>The sweeps\<close>

record SweepOpts =
  force :: bool
  graceMsOverride :: "int option"
  dryRun :: bool
  sweepWorkspace :: "string option"
  sweepLimit :: "int option"
  includeDead :: bool

record SelfHealReport =
  examined :: nat
  recovered :: nat
  leftFailed :: nat
  byWorkspace :: "(string \<times> nat \<times> nat) list"
  byOperationKind :: "(string \<times> nat \<times> nat) list"
  details :: "(string \<times> string \<times> string \<times> bool \<times> string) list"

definition emptyReport :: SelfHealReport where
  "emptyReport = \<lparr>examined = 0, recovered = 0, leftFailed = 0, byWorkspace = [], byOperationKind = [], details = []\<rparr>"

text \<open>\<open>bumpReportBucket\<close>: a bucket counts (recovered, left failed).\<close>

definition bumpReportBucket :: "bool \<Rightarrow> string \<Rightarrow> (string \<times> nat \<times> nat) list \<Rightarrow> (string \<times> nat \<times> nat) list" where
  "bumpReportBucket ok k b =
     (let (x, y) = (case map_of b k of None \<Rightarrow> (0, 0) | Some v \<Rightarrow> v)
      in AList.update k (if ok then (x + 1, y) else (x, y + 1)) b)"

definition countOutcome :: "bool \<Rightarrow> string \<Rightarrow> string \<Rightarrow> SelfHealReport \<Rightarrow> SelfHealReport" where
  "countOutcome ok ws kind rep = rep\<lparr>
     recovered := (if ok then recovered rep + 1 else recovered rep),
     leftFailed := (if ok then leftFailed rep else leftFailed rep + 1),
     byWorkspace := bumpReportBucket ok ws (byWorkspace rep),
     byOperationKind := bumpReportBucket ok kind (byOperationKind rep)\<rparr>"

definition healOne ::
  "(string \<Rightarrow> string) \<Rightarrow> ('w, 'v) Substrates \<Rightarrow> bool \<Rightarrow> ms \<Rightarrow> OutboxEntry
     \<Rightarrow> SelfHealReport \<times> 'w Rep \<Rightarrow> SelfHealReport \<times> 'w Rep" where
  "healOne sha1Hex S dry now e rR =
     (case rR of (rep, R) \<Rightarrow>
        let ws = (case workspace e of None \<Rightarrow> ''unknown'' | Some w \<Rightarrow> w);
            kind = (case operationKind e of None \<Rightarrow> ''unknown'' | Some k \<Rightarrow> kindName k);
            out = verifyApplied sha1Hex S e (world R);
            rep = countOutcome (verified out) ws kind
                    (rep\<lparr>details := details rep @ [(entryId e, ws, kind, verified out, reason out)]\<rparr>) in
        if verified out \<and> \<not> dry then
          (rep, let R = setStatus R (entryId e) Replicated noInfo now
                in R\<lparr>statSelfHealed := statSelfHealed R + 1\<rparr>)
        else (rep, R))"

definition runSelfHealSweep ::
  "(string \<Rightarrow> string) \<Rightarrow> ('w, 'v) Substrates \<Rightarrow> ReplicatorConfig \<Rightarrow> SweepOpts \<Rightarrow> ms \<Rightarrow> 'w Rep
     \<Rightarrow> SelfHealReport \<times> 'w Rep" where
  "runSelfHealSweep sha1Hex S cfg opts now R =
     (if \<not> force opts \<and> now - lastSelfHealAt R < selfHealIntervalMs cfg then (emptyReport, R)
      else (let R = R\<lparr>lastSelfHealAt := now\<rparr>;
                grace = (case graceMsOverride opts of None \<Rightarrow> selfHealGraceMs cfg | Some g \<Rightarrow> g);
                limit = (case sweepLimit opts of None \<Rightarrow> selfHealBatchSize cfg | Some l \<Rightarrow> l);
                cands = listFailedOlderThan (rstore R) grace (sweepWorkspace opts) limit (includeDead opts) now;
                R = R\<lparr>statSweeps := statSweeps R + 1, statExamined := statExamined R + length cands\<rparr>
            in fold (healOne sha1Hex S (dryRun opts) now) cands (emptyReport\<lparr>examined := length cands\<rparr>, R)))"

definition runPruneSweep ::
  "ReplicatorConfig \<Rightarrow> bool \<Rightarrow> int option \<Rightarrow> int option \<Rightarrow> ms \<Rightarrow> 'w Rep \<Rightarrow> nat \<times> 'w Rep" where
  "runPruneSweep cfg forced olderOverride limit now R =
     (let older = (case olderOverride of None \<Rightarrow> pruneReplicatedOlderThanMs cfg | Some x \<Rightarrow> x) in
      if olderOverride = None \<and> pruneReplicatedOlderThanMs cfg \<le> 0 then (0, R)
      else if \<not> forced \<and> now - lastPruneAt R < selfHealIntervalMs cfg then (0, R)
      else (let R = R\<lparr>lastPruneAt := now\<rparr> in
            case pruneReplicated (rstore R) (max 0 older) None
                   (case limit of None \<Rightarrow> 5000 | Some l \<Rightarrow> l) now of
              (k, st) \<Rightarrow> (k, R\<lparr>rstore := st, statPruned := statPruned R + k\<rparr>)))"

definition routineSweep :: SweepOpts where
  "routineSweep = \<lparr>force = False, graceMsOverride = None, dryRun = False, sweepWorkspace = None,
     sweepLimit = None, includeDead = False\<rparr>"

end
