(* ===== verification/OutboxReplicatorProps.thy ===== *)
theory OutboxReplicatorProps
  imports OutboxReplicator
begin

text \<open>
  What the replicator promises. A tick is shown to be a sequence of atomic moves on the rows it
  listed, from which the invariants of the store and the frame of a tick follow; then the
  supersession guards, the retry budget, the transient budget, the alignment of consolidated
  embeddings and the self-heal sweep.
\<close>

section \<open>A tick as a sequence of moves\<close>

text \<open>One move of the replicator on the store, on a row with its id in \<open>I\<close>.\<close>

inductive row_move :: "string set \<Rightarrow> Store \<Rightarrow> Store \<Rightarrow> bool" for I where
  status_move: "i \<in> I \<Longrightarrow> row_move I st (markEntryStatus st i s info now)"
| claim_move: "i \<in> I \<Longrightarrow> row_move I st (snd (claimForReplication st i now))"
| transient_move: "i \<in> I \<Longrightarrow> row_move I st (snd (recordTransientFailure st i m next now))"

definition moves :: "string set \<Rightarrow> 'w Rep \<Rightarrow> 'w Rep \<Rightarrow> bool" where
  "moves I R R' = (row_move I)\<^sup>*\<^sup>* (rstore R) (rstore R')"

lemma moves_trans [trans]: "moves I R R' \<Longrightarrow> moves I R' R'' \<Longrightarrow> moves I R R''"
  unfolding moves_def by (rule rtranclp_trans)

lemma moves_refl [simp, intro]: "moves I R R"
  by (simp add: moves_def)

lemma moves_quiet: "rstore R' = rstore R \<Longrightarrow> moves I R R'"
  by (simp add: moves_def)

lemma moves_cong: "moves I R R' \<Longrightarrow> rstore R1 = rstore R \<Longrightarrow> rstore R2 = rstore R' \<Longrightarrow> moves I R1 R2"
  by (simp add: moves_def)

lemma moves_mono: "moves I R R' \<Longrightarrow> I \<subseteq> J \<Longrightarrow> moves J R R'"
proof -
  assume "I \<subseteq> J"
  then have "row_move I \<le> row_move J" by (auto elim!: row_move.cases intro: row_move.intros)
  then show "moves I R R' \<Longrightarrow> moves J R R'" unfolding moves_def by (auto dest: rtranclp_mono)
qed

lemma moves_fold:
  assumes "\<And>e R. e \<in> set es \<Longrightarrow> moves I R (f e R)"
  shows "moves I R (fold f es R)"
  using assms
proof (induction es arbitrary: R)
  case (Cons e es)
  have "moves I R (f e R)" using Cons.prems by simp
  also have "moves I (f e R) (fold f es (f e R))" using Cons by simp
  finally show ?case by simp
qed simp

lemma moves_status: "i \<in> I \<Longrightarrow> moves I R (setStatus R i s info now)"
  by (auto simp: moves_def setStatus_def intro: row_move.intros)

lemma moves_claim: "claimEntry i now R = (ok, R') \<Longrightarrow> i \<in> I \<Longrightarrow> moves I R R'"
  using claim_move [of i I "rstore R" now] by (auto simp: moves_def claimEntry_def split: prod.splits)

lemma moves_transient:
  "i \<in> I \<Longrightarrow> rstore R' = snd (recordTransientFailure (rstore R) i m next now) \<Longrightarrow> moves I R R'"
  by (auto simp: moves_def intro: row_move.intros)

lemma setStatus_store: "rstore (setStatus R i s info now) = markEntryStatus (rstore R) i s info now"
  by (simp add: setStatus_def)

lemma moves_mark: "i \<in> I \<Longrightarrow> rstore R' = markEntryStatus (rstore R) i s info now \<Longrightarrow> moves I R R'"
  using status_move [of i I "rstore R" s info now] by (auto simp: moves_def)

lemma recordReplay_store:
  "\<exists>s info m next. rstore (snd (recordReplayFailure env now e err R)) \<in>
     {markEntryStatus (rstore R) (entryId e) s info now, snd (recordTransientFailure (rstore R) (entryId e) m next now)}"
  by (auto simp: recordReplayFailure_def Let_def setStatus_def split: option.split)

lemma settle_store:
  "rstore (snd (settleReplayFailure env now e err R)) = rstore (snd (recordReplayFailure env now e err R))"
  "rstore (snd (settleFailure env now e err R)) = rstore (snd (recordReplayFailure env now e err R))"
  by (auto simp: settleReplayFailure_def settleFailure_def split: prod.split FailureOutcome.split)

lemma moves_settle:
  assumes "entryId e \<in> I"
  shows "moves I R (snd (settleReplayFailure env now e err R))" "moves I R (snd (settleFailure env now e err R))"
  using recordReplay_store [of env now e err R] assms moves_mark moves_transient
  by (metis empty_iff insert_iff settle_store)+

lemma deferredAdd_store [simp]: "rstore (deferredAdd e R) = rstore R"
  by (simp add: deferredAdd_def split: option.split)

lemma mark_stores:
  "rstore (markSuperseded e now R) = markEntryStatus (rstore R) (entryId e) Dead supersededInfo now"
  "rstore (markReplicated e now R) = markEntryStatus (rstore R) (entryId e) Replicated noInfo now"
  "rstore (releaseDeferred e now R) = markEntryStatus (rstore R) (entryId e) Pending noInfo now"
  by (simp_all add: markSuperseded_def markReplicated_def releaseDeferred_def Let_def setStatus_def)

lemma moves_marks:
  assumes "entryId e \<in> I"
  shows "moves I R (markSuperseded e now R)" "moves I R (markReplicated e now R)" "moves I R (releaseDeferred e now R)"
  using assms by (auto intro: moves_mark mark_stores)

text \<open>The four ways a claimed replay ends, as the state they leave.\<close>

lemma replicateOne_cases:
  assumes "\<not> isSupersededFailed (rstore R) e" "claimEntry (entryId e) now R = (True, R1)" "dispatch S e (world R1) = (x, w)"
  shows "replicateOne S env now e R =
    (case x of
       None \<Rightarrow> (True, markReplicated e now (R1\<lparr>world := w\<rparr>))
     | Some (ReplayDeferredError m) \<Rightarrow> (False, releaseDeferred e now (R1\<lparr>world := w\<rparr>))
     | Some err \<Rightarrow>
         (case settleFailure env now e err (R1\<lparr>world := w\<rparr>) of
            (OutDead r m, R) \<Rightarrow> (False, R\<lparr>world := reapHalfCompletion S e (world R)\<rparr>)
          | (out, R) \<Rightarrow> (False, R)))"
  using assms by (simp add: replicateOne_def split: option.split ReplayError.split)

lemma settleFailure_store:
  "settleFailure env now e err R = (out, R') \<Longrightarrow> rstore R' = rstore (snd (recordReplayFailure env now e err R))"
  by (metis settle_store(2) snd_conv)

lemma replicateOne_store:
  assumes "\<not> isSupersededFailed (rstore R) e" "claimEntry (entryId e) now R = (True, R1)" "dispatch S e (world R1) = (x, w)"
  shows "rstore (snd (replicateOne S env now e R)) =
    (case x of
       None \<Rightarrow> markEntryStatus (rstore R1) (entryId e) Replicated noInfo now
     | Some (ReplayDeferredError m) \<Rightarrow> markEntryStatus (rstore R1) (entryId e) Pending noInfo now
     | Some err \<Rightarrow> rstore (snd (recordReplayFailure env now e err (R1\<lparr>world := w\<rparr>))))"
  by (auto simp: replicateOne_cases [OF assms] mark_stores dest: settleFailure_store
      split: option.split ReplayError.split prod.split FailureOutcome.split)

lemma moves_replicateOne:
  assumes "entryId e \<in> I"
  shows "moves I R (snd (replicateOne S env now e R))"
proof (cases "isSupersededFailed (rstore R) e")
  case True
  then show ?thesis by (simp add: replicateOne_def moves_marks assms)
next
  case False
  obtain ok R1 where c: "claimEntry (entryId e) now R = (ok, R1)" by fastforce
  have 1: "moves I R R1" using c assms by (rule moves_claim)
  show ?thesis
  proof (cases ok)
    case True
    obtain x w where d: "dispatch S e (world R1) = (x, w)" by fastforce
    have "moves I R1 (snd (replicateOne S env now e R))"
      using replicateOne_store [OF False, of now R1 S x w env] c d True
        moves_settle(2) [OF assms, of "R1\<lparr>world := w\<rparr>" env now]
        status_move [OF assms, of "rstore R1"]
      by (auto simp: moves_def settle_store split: option.splits ReplayError.splits)
    with 1 show ?thesis by (rule moves_trans)
  qed (use False c 1 in \<open>simp add: replicateOne_def\<close>)
qed

subsection \<open>Runs are prefixes of the batch\<close>

text \<open>A list is the accumulator followed by a prefix of the rest.\<close>

definition extends :: "'a list \<Rightarrow> 'a list \<Rightarrow> 'a list \<Rightarrow> bool" where
  "extends acc xs ys \<longleftrightarrow> (\<exists>n. ys = acc @ take n xs)"

lemma extends_stop [simp]: "extends acc xs acc"
  unfolding extends_def by (rule exI [of _ 0]) simp

lemma extends_one [simp]: "extends acc (x # xs) (acc @ [x])"
  unfolding extends_def by (rule exI [of _ 1]) simp

lemma extends_first [simp]: "extends [] (x # xs) [x]"
  unfolding extends_def by (rule exI [of _ 1]) simp

lemma extends_step: "extends (acc @ [x]) xs ys \<Longrightarrow> extends acc (x # xs) ys"
  unfolding extends_def by (metis append.assoc append_Cons append_Nil take_Suc_Cons)

lemma extends_subset: "extends [] xs ys \<Longrightarrow> set ys \<subseteq> set xs"
  unfolding extends_def using set_take_subset by fastforce

lemma collectEmbed_prefix: "extends consumed es (fst (collectEmbedBatchRun cap es consumed texts ids))"
  by (induction es arbitrary: consumed texts ids)
     (auto simp: Let_def extends_step split: option.split prod.split)

lemma collectUpsert_prefix: "extends consumed es (collectVerbatimUpsertRun cap es consumed)"
  by (induction es arbitrary: consumed) (auto simp: extends_step)

lemma collectPurge_prefix: "extends out es (collectVerbatimPurgeRun cap ws es out)"
  by (induction es arbitrary: out) (auto simp: extends_step)

lemma collect_subset:
  "set (fst (collectEmbedBatchRun cap es [] [] [])) \<subseteq> set es"
  "set (collectVerbatimUpsertRun cap es []) \<subseteq> set es"
  "set (collectVerbatimPurgeRun cap ws es []) \<subseteq> set es"
  by (rule extends_subset, rule collectEmbed_prefix collectUpsert_prefix collectPurge_prefix)+

subsection \<open>Every stage of a tick is a sequence of moves\<close>

lemma moves_all:
  assumes "entryId ` set es \<subseteq> I"
  shows "moves I R (markAllReplicating now es R)" "moves I R (fold (\<lambda>e. markReplicated e now) es R)"
    "moves I R (fold (\<lambda>e R. snd (settleFailure env now e err R)) es R)"
    "moves I R (fold (\<lambda>e R. snd (settleReplayFailure env now e err R)) es R)"
  unfolding markAllReplicating_def
  using assms by (auto intro!: moves_fold moves_status moves_marks moves_settle)

lemma moves_world: "moves I (R\<lparr>world := w\<rparr>) R' \<Longrightarrow> moves I R R'"
  by (simp add: moves_def)

lemma moves_embed:
  assumes "entryId ` set es \<subseteq> I"
  shows "moves I R (snd (replicateConsolidatedEmbedBatch S env now es texts ids R))"
  unfolding replicateConsolidatedEmbedBatch_def Let_def
  by (rule moves_trans [OF moves_all(1) [OF assms, where now = now]])
     (auto simp: moves_all [OF assms] split: prod.split option.split intro: moves_world [OF moves_all(2) [OF assms]]
       moves_world [OF moves_all(3) [OF assms]] moves_world [OF moves_all(4) [OF assms]])

lemma moves_verbatim:
  assumes "entryId ` set es \<subseteq> I"
  shows "moves I R (snd (replicateConsolidatedVerbatim S env now es R))"
  unfolding replicateConsolidatedVerbatim_def Let_def
  by (rule moves_trans [OF moves_all(1) [OF assms, where now = now]])
     (auto simp: moves_all [OF assms] split: prod.split option.split intro: moves_world [OF moves_all(2) [OF assms]]
       moves_world [OF moves_all(3) [OF assms]] moves_world [OF moves_all(4) [OF assms]])

lemma dropSuperseded_subset: "set (fst (dropSuperseded only now es R)) \<subseteq> set es"
  by (induction es arbitrary: R) (auto split: prod.splits, (metis fst_conv subsetD)+)

lemma moves_drop: "entryId ` set es \<subseteq> I \<Longrightarrow> moves I R (snd (dropSuperseded only now es R))"
proof (induction es arbitrary: R)
  case (Cons e es)
  have 1: "moves I R (snd (dropSuperseded only now es (markSuperseded e now R)))"
    using moves_trans [OF moves_marks(1) [of e I R now] Cons.IH] Cons.prems by simp
  have "moves I R (snd (dropSuperseded only now es R))" using Cons by simp
  with 1 show ?case by (auto split: prod.split)
qed simp

lemma moves_dispatchEach: "entryId ` set es \<subseteq> I \<Longrightarrow> moves I R (snd (dispatchEach S env now es sq R))"
proof (induction es arbitrary: sq R)
  case (Cons e es)
  then show ?case
    using moves_trans [OF moves_replicateOne [of e I R S env now] Cons.IH] by (auto split: prod.splits)
qed simp

lemma claimAll_subset: "set (fst (claimAll now es R)) \<subseteq> set es"
  by (induction es arbitrary: R) (auto split: prod.splits if_splits, (metis fst_conv subsetD)+)

lemma moves_claimAll: "entryId ` set es \<subseteq> I \<Longrightarrow> moves I R (snd (claimAll now es R))"
proof (induction es arbitrary: R)
  case (Cons e es)
  obtain ok R1 where c: "claimEntry (entryId e) now R = (ok, R1)" by fastforce
  have "moves I R R1" using c by (rule moves_claim) (use Cons.prems in auto)
  also have "moves I R1 (snd (claimAll now es R1))" using Cons by simp
  finally show ?case using c by (auto split: prod.split)
qed simp

lemma moves_purgeEach: "entryId ` set es \<subseteq> I \<Longrightarrow> moves I R (snd (purgeEach S env now es sq R))"
proof (induction es arbitrary: sq R)
  case (Cons e es)
  have "moves I R (snd (purgeEach S env now es sq' (markReplicated e now (R\<lparr>world := w\<rparr>))))" for sq' w
    using moves_trans [OF moves_world [OF moves_marks(2) [of e I "R\<lparr>world := w\<rparr>" now]] Cons.IH] Cons.prems by simp
  moreover have "moves I R (snd (purgeEach S env now es sq' (snd (settleReplayFailure env now e err (R\<lparr>world := w\<rparr>)))))" for sq' w err
    using moves_trans [OF moves_world [OF moves_settle(1) [of e I "R\<lparr>world := w\<rparr>" env now err]] Cons.IH] Cons.prems by simp
  ultimately show ?case by (simp split: prod.split option.split)
qed simp

lemma moves_upsertRun:
  assumes "entryId ` set run \<subseteq> I"
  shows "moves I R (snd (consolidateVerbatimRun S env now run R))"
proof -
  obtain es R1 where d: "dropSuperseded (\<lambda>_. True) now run R = (es, R1)" by fastforce
  have sub: "entryId ` set es \<subseteq> I" using dropSuperseded_subset [of "\<lambda>_. True" now run R] d assms by auto
  have "moves I R R1" using moves_drop [OF assms, of R "\<lambda>_. True" now] d by simp
  also have "moves I R1 (snd (consolidateVerbatimRun S env now run R))"
    using moves_verbatim [OF sub, of R1 S env now] moves_dispatchEach [OF sub, of R1 S env now None] d
    by (auto simp: consolidateVerbatimRun_def split: prod.split)
  finally show ?thesis .
qed

lemma moves_purgeRun:
  assumes "entryId ` set run \<subseteq> I"
  shows "moves I R (snd (consolidateVerbatimPurgeRun S env now run R))"
proof -
  obtain es R1 where d: "dropSuperseded (\<lambda>e. status e = Some Failed) now run R = (es, R1)" by fastforce
  obtain cs R2 where c: "claimAll now es R1 = (cs, R2)" by fastforce
  have sub: "entryId ` set es \<subseteq> I"
    using dropSuperseded_subset [of "\<lambda>e. status e = Some Failed" now run R] d assms by auto
  have subc: "entryId ` set cs \<subseteq> I" using claimAll_subset [of now es R1] c sub by auto
  have 1: "moves I R R1" using moves_drop [OF assms, of R "\<lambda>e. status e = Some Failed" now] d by simp
  show ?thesis
  proof (cases "length es < 2")
    case True
    then show ?thesis
      using d moves_trans [OF 1 moves_dispatchEach [OF sub]] by (simp add: consolidateVerbatimPurgeRun_def)
  next
    case False
    have 2: "moves I R R2" using moves_trans [OF 1 moves_claimAll [OF sub, of R1 now]] c by simp
    have "moves I R (fold (\<lambda>e. markReplicated e now) cs (R2\<lparr>world := w\<rparr>))" for w
      using moves_trans [OF 2 moves_world [OF moves_all(2) [OF subc]]] .
    moreover have "moves I R (snd (purgeEach S env now cs sq (R2\<lparr>world := w\<rparr>)))" for w sq
      using moves_trans [OF 2 moves_world [OF moves_purgeEach [OF subc]]] .
    ultimately show ?thesis
      using False d c 2
      by (auto simp: consolidateVerbatimPurgeRun_def simp del: purgeEach.simps fold_simps
          split: prod.split option.split list.split)
  qed
qed

lemma moves_verbatimAt:
  assumes "consolidateVerbatimAt S env now cap fresh R = Some ((m, sq), R')"
  shows "moves (entryId ` set fresh) R R'"
proof -
  have u: "moves (entryId ` set fresh) R (snd (consolidateVerbatimRun S env now (collectVerbatimUpsertRun cap fresh []) R))"
    and p: "moves (entryId ` set fresh) R (snd (consolidateVerbatimPurgeRun S env now (collectVerbatimPurgeRun cap ws fresh []) R))" for ws
    by (intro moves_upsertRun moves_purgeRun image_mono collect_subset)+
  have "R' = snd (consolidateVerbatimRun S env now (collectVerbatimUpsertRun cap fresh []) R) \<or>
      (\<exists>ws. R' = snd (consolidateVerbatimPurgeRun S env now (collectVerbatimPurgeRun cap ws fresh []) R))"
    using assms by (auto simp: consolidateVerbatimAt_def Let_def split: list.splits if_splits prod.splits)
  then show ?thesis using u p by blast
qed

subsection \<open>The walk, step by step\<close>

lemma walk_Nil: "walkBatch S cfg env now [] adv n R = (adv, n, R)"
  by (simp add: walkBatch.simps)

lemma walk_halted: "batchHalted R \<Longrightarrow> walkBatch S cfg env now fresh adv n R = (adv, n, R)"
  by (cases fresh) (simp_all add: walkBatch.simps)

lemma walk_deferred:
  "\<not> batchHalted R \<Longrightarrow> deferredHas R e \<Longrightarrow> walkBatch S cfg env now (e # rest) adv n R = walkBatch S cfg env now rest adv n R"
  by (simp add: walkBatch.simps [where fresh = "e # rest"])

lemma walk_embed:
  assumes "\<not> batchHalted R" "\<not> deferredHas R e" "embedRunAt cfg (e # rest) = (run, texts, ids)" "1 < length run"
    and "replicateConsolidatedEmbedBatch S env now run texts ids R = (ok, R1)"
  shows "walkBatch S cfg env now (e # rest) adv n R =
    walkBatch S cfg env now (drop (length run) (e # rest)) (if ok then maxSeqFrom adv run else adv) (n + length run) R1"
  using assms by (subst walkBatch.simps) simp

lemma walk_verbatim:
  assumes "\<not> batchHalted R" "\<not> deferredHas R e" "embedRunAt cfg (e # rest) = (run, texts, ids)" "\<not> 1 < length run"
    and "consolidateVerbatimAt S env now (VERBATIM_UPSERT_CONSOLIDATION_CAP cfg) (e # rest) R = Some ((m, sq), R1)"
  shows "walkBatch S cfg env now (e # rest) adv n R =
    walkBatch S cfg env now (drop m (e # rest)) (case sq of None \<Rightarrow> adv | Some s \<Rightarrow> if s > adv then s else adv) (n + m) R1"
  using assms by (subst walkBatch.simps) simp

lemma walk_one:
  assumes "\<not> batchHalted R" "\<not> deferredHas R e" "embedRunAt cfg (e # rest) = (run, texts, ids)" "\<not> 1 < length run"
    and "consolidateVerbatimAt S env now (VERBATIM_UPSERT_CONSOLIDATION_CAP cfg) (e # rest) R = None"
    and "replicateOne S env now e R = (ok, R1)"
  shows "walkBatch S cfg env now (e # rest) adv n R =
    walkBatch S cfg env now rest (case sequenceId e of None \<Rightarrow> adv | Some s \<Rightarrow> if ok \<and> s > adv then s else adv) (n + 1) R1"
  using assms by (subst walkBatch.simps) simp

lemma embedRunAt_subset: "embedRunAt cfg fresh = (run, texts, ids) \<Longrightarrow> set run \<subseteq> set fresh"
  using collect_subset(1) [of "EMBED_BATCH_CONSOLIDATION_CAP cfg" fresh]
  by (auto simp: embedRunAt_def split: list.splits if_splits)

text \<open>
  The interface between the walk and its stages: a preorder \<open>Q\<close> on replicator states that
  each stage respects for rows of \<open>E\<close> is respected by the whole walk, by every workspace's
  pass and by the tick.
\<close>

locale walk_relation =
  fixes S :: "('w, 'v) Substrates" and cfg :: ReplicatorConfig and env :: DispositionEnv and now :: ms
    and E :: "OutboxEntry set" and Q :: "'w Rep \<Rightarrow> 'w Rep \<Rightarrow> bool"
  assumes Q_refl: "Q R R"
    and Q_trans: "Q R R' \<Longrightarrow> Q R' R'' \<Longrightarrow> Q R R''"
    and Q_one: "e \<in> E \<Longrightarrow> Q R (snd (replicateOne S env now e R))"
    and Q_embed: "set run \<subseteq> E \<Longrightarrow> Q R (snd (replicateConsolidatedEmbedBatch S env now run texts ids R))"
    and Q_verbatim: "set fresh \<subseteq> E \<Longrightarrow>
       consolidateVerbatimAt S env now (VERBATIM_UPSERT_CONSOLIDATION_CAP cfg) fresh R = Some ((m, sq), R') \<Longrightarrow> Q R R'"
begin

lemma Q_walk: "set fresh \<subseteq> E \<Longrightarrow> Q R (snd (snd (walkBatch S cfg env now fresh adv n R)))"
proof (induction "length fresh" arbitrary: fresh adv n R rule: less_induct)
  case less
  show ?case
  proof (cases fresh)
    case Nil
    then show ?thesis by (simp add: walk_Nil Q_refl)
  next
    case (Cons e rest)
    have sub: "set rest \<subseteq> E" "e \<in> E" using less.prems Cons by auto
    obtain run texts ids where er: "embedRunAt cfg (e # rest) = (run, texts, ids)" by (metis surj_pair)
    obtain ok R1 where emr: "replicateConsolidatedEmbedBatch S env now run texts ids R = (ok, R1)" by fastforce
    obtain ok' R2 where onr: "replicateOne S env now e R = (ok', R2)" by fastforce
    have IH: "Q R' (snd (snd (walkBatch S cfg env now (drop (Suc k) fresh) adv' n' R')))" for k adv' n' R'
      by (rule less.hyps) (use less.prems Cons in \<open>auto dest: in_set_dropD\<close>)
    consider "batchHalted R" | "\<not> batchHalted R" "deferredHas R e"
      | "\<not> batchHalted R" "\<not> deferredHas R e" "1 < length run"
      | m sq R3 where "\<not> batchHalted R" "\<not> deferredHas R e" "\<not> 1 < length run"
          "consolidateVerbatimAt S env now (VERBATIM_UPSERT_CONSOLIDATION_CAP cfg) fresh R = Some ((m, sq), R3)"
      | "\<not> batchHalted R" "\<not> deferredHas R e" "\<not> 1 < length run"
          "consolidateVerbatimAt S env now (VERBATIM_UPSERT_CONSOLIDATION_CAP cfg) fresh R = None"
      by (metis not_None_eq surj_pair)
    then show ?thesis
    proof cases
      case 1
      then show ?thesis by (simp add: walk_halted Q_refl)
    next
      case 2
      then show ?thesis using IH [of R 0] Cons by (simp add: walk_deferred)
    next
      case 3
      have "set run \<subseteq> E" using embedRunAt_subset [OF er] less.prems Cons by auto
      then have "Q R R1" using Q_embed [of run R texts ids] emr by simp
      moreover obtain k where "length run = Suc k" using 3(3) by (cases "length run") auto
      ultimately show ?thesis
        using IH [of R1 k] Q_trans unfolding Cons walk_embed [OF 3(1,2) er 3(3) emr] by auto
    next
      case 4
      have "Q R R3" using Q_verbatim [OF less.prems 4(4)] .
      moreover obtain k where "m = Suc k" using consolidateVerbatimAt_consumes [OF 4(4)] by (cases m) auto
      ultimately show ?thesis
        using IH [of R3 k] Q_trans unfolding Cons walk_verbatim [OF 4(1,2) er 4(3) 4(4) [unfolded Cons]] by auto
    next
      case 5
      have "Q R R2" using Q_one [OF sub(2), of R] onr by simp
      then show ?thesis
        using IH [of R2 0] Q_trans unfolding Cons walk_one [OF 5(1,2) er 5(3) 5(4) [unfolded Cons] onr] by auto
    qed
  qed
qed

end

interpretation mv: walk_relation S cfg env now E "moves (entryId ` E)"
  for S :: "('w, 'v) Substrates" and cfg env now and E
proof unfold_locales
  show "moves (entryId ` E) R R" for R :: "'w Rep" by simp
  show "moves (entryId ` E) R R'" if "set fr \<subseteq> E"
    "consolidateVerbatimAt S env now (VERBATIM_UPSERT_CONSOLIDATION_CAP cfg) fr R = Some ((m, sq), R')"
    for fr m sq and R R' :: "'w Rep"
    using moves_mono [OF moves_verbatimAt [OF that(2)] image_mono [OF that(1)]] .
qed (auto intro: moves_trans moves_replicateOne moves_embed)

lemma moves_walk: "moves (entryId ` set fresh) R (snd (snd (walkBatch S cfg env now fresh adv n R)))"
  by (rule mv.Q_walk) simp

section \<open>The frame of a tick\<close>

text \<open>What never changes in a row: its identity and the write it describes.\<close>

definition rowIdentity :: "Row \<Rightarrow> string \<times> string \<times> int \<times> OutboxOperationKind \<times> obj option \<times> ms" where
  "rowIdentity r = (r_id r, r_workspace r, r_sequenceId r, r_operationKind r, r_payload r, r_createdAt r)"

lemma row_move_upd: "row_move I st st' \<Longrightarrow> \<exists>i f. i \<in> I \<and> keepsKey f \<and> st' = updRow st i f"
proof (induction rule: row_move.induct)
  case (status_move i st s info now)
  then show ?case unfolding markEntryStatus_def using keepsKey_rows(4) by blast
next
  case (claim_move i st now)
  then show ?case unfolding claimForReplication_def snd_conv using keepsKey_rows(3) by blast
next
  case (transient_move i st m "next" now)
  then show ?case unfolding recordTransientFailure_def Let_def snd_conv using keepsKey_rows(5) by blast
qed

lemma row_move_step: "row_move I st st' \<Longrightarrow> store_step st st'"
  by (induction rule: row_move.induct) (auto intro: store_step.intros)

lemma moves_frame:
  assumes "moves I R R'"
  shows "map rowIdentity (entries (rstore R')) = map rowIdentity (entries (rstore R))"
    and "i \<notin> I \<Longrightarrow> getRow (rstore R') i = getRow (rstore R) i"
    and "store_reachable (rstore R) \<Longrightarrow> store_reachable (rstore R')"
    and "replState (rstore R') = replState (rstore R)"
proof -
  let ?P = "\<lambda>st'. map rowIdentity (entries st') = map rowIdentity (entries (rstore R)) \<and>
     (i \<notin> I \<longrightarrow> getRow st' i = getRow (rstore R) i) \<and>
     (store_reachable (rstore R) \<longrightarrow> store_reachable st') \<and> replState st' = replState (rstore R)"
  have "?P (rstore R')"
    using assms unfolding moves_def
  proof (induction rule: rtranclp_induct)
    case (step st st')
    obtain j f where f: "j \<in> I" "keepsKey f" "st' = updRow st j f" using row_move_upd [OF step.hyps(2)] by blast
    have "map rowIdentity (entries st') = map rowIdentity (entries st)"
      using f by (simp add: entries_updRow rowIdentity_def keepsKeyD)
    moreover have "i \<notin> I \<longrightarrow> getRow st' i = getRow st i" using f by (auto simp: getRow_updRow)
    moreover have "store_reachable st \<longrightarrow> store_reachable st'"
      using row_move_step [OF step.hyps(2)] by (blast intro: store_reachable.stepped)
    ultimately show ?case using step.IH f by simp
  qed simp
  then show "map rowIdentity (entries (rstore R')) = map rowIdentity (entries (rstore R))"
    "i \<notin> I \<Longrightarrow> getRow (rstore R') i = getRow (rstore R) i"
    "store_reachable (rstore R) \<Longrightarrow> store_reachable (rstore R')"
    "replState (rstore R') = replState (rstore R)"
    by simp_all
qed

lemma write_frame:
  "entries (writeReplicationState st ws c) = entries st"
  "getRow (writeReplicationState st ws c) i = getRow st i"
  by (simp_all add: writeReplicationState_def getRow_def split: option.split)

definition tickFrame :: "ms \<Rightarrow> string \<Rightarrow> Row \<Rightarrow> 'w Rep \<Rightarrow> 'w Rep \<Rightarrow> bool" where
  "tickFrame now i r R R' \<longleftrightarrow>
     (store_reachable (rstore R) \<longrightarrow>
        store_reachable (rstore R') \<and>
        map rowIdentity (entries (rstore R')) = map rowIdentity (entries (rstore R)) \<and>
        (getRow (rstore R) i = Some r \<and> \<not> claimableRow r now \<longrightarrow> getRow (rstore R') i = Some r))"

lemma tickFrame_trans: "tickFrame now i r R R' \<Longrightarrow> tickFrame now i r R' R'' \<Longrightarrow> tickFrame now i r R R''"
  by (simp add: tickFrame_def)

lemma workspace_frame: "tickFrame now i r R (snd (tickWorkspace S cfg env now ws (k, R)))"
proof -
  let ?st = "rstore R" let ?b = "listPendingForWorkspace ?st ws (batchSize cfg) now"
  let ?R0 = "R\<lparr>batchHalted := False\<rparr>"
  obtain adv n R1 where w: "walkBatch S cfg env now ?b (lastReplicatedSeq (readReplicationState ?st ws)) k ?R0 = (adv, n, R1)"
    by (metis surj_pair)
  have mv: "moves (entryId ` set ?b) ?R0 R1"
    using moves_walk [of ?b ?R0 S cfg env now "lastReplicatedSeq (readReplicationState ?st ws)" k] w by simp
  have out: "i \<notin> entryId ` set ?b" if "store_reachable ?st" "getRow ?st i = Some r" "\<not> claimableRow r now"
  proof
    assume "i \<in> entryId ` set ?b"
    then obtain r' where r': "r' \<in> set (entries ?st)" "claimableRow r' now" "r_id r' = i"
      by (auto dest!: listPending_mem)
    with that(2) have "r' = r"
      using row_unique [OF store_reachable_inv [OF that(1)]] getRow_SomeD [OF that(2)] by metis
    with r'(2) that(3) show False by simp
  qed
  have 1: "tickFrame now i r R R1"
    unfolding tickFrame_def using moves_frame(1,3) [OF mv] moves_frame(2) [OF mv, of i] out by simp
  have "tickFrame now i r R (R1\<lparr>rstore := writeReplicationState (rstore R1) ws c\<rparr>)" for c
    using 1 store_reachable.stepped [OF _ store_step.cursor_step]
    unfolding tickFrame_def by (simp add: write_frame)
  then show ?thesis
    using 1 w by (auto simp: tickWorkspace_def Let_def tickFrame_def)
qed

lemma tick_fold_frame: "tickFrame now i r R (snd (fold (tickWorkspace S cfg env now) wss (k, R)))"
proof (induction wss arbitrary: k R)
  case Nil
  then show ?case by (simp add: tickFrame_def)
next
  case (Cons ws wss)
  obtain k' R' where t: "tickWorkspace S cfg env now ws (k, R) = (k', R')" by fastforce
  show ?case
    using tickFrame_trans [OF workspace_frame [of now i r R S cfg env ws k] Cons.IH, of k'] t by simp
qed

lemma tick_frame: "tickFrame now i r R (snd (runTick S cfg env now R))"
proof -
  have "tickFrame now i r (R\<lparr>deferred := []\<rparr>) R' \<Longrightarrow> tickFrame now i r R R'" for R' by (simp add: tickFrame_def)
  then show ?thesis
    using tick_fold_frame [of now i r "R\<lparr>deferred := []\<rparr>" S cfg env "listWorkspacesWithPending (rstore R)" 0]
    by (auto simp: runTick_def Let_def tickFrame_def)
qed

text \<open>C1: a tick of the replicator, whatever the substrates do or throw, loses no row and rewrites
  no write: the table keeps the same rows in the same order with the same id, workspace,
  sequence number, kind, payload and creation time. It touches only rows that were due
  (pending or failed with an elapsed back-off): dead letters, replicated rows, rows another
  replayer holds, uncommitted rows and rows still backing off are bit for bit the same, and
  the store stays reachable, so the key invariants survive every tick.\<close>

theorem tick_touches_only_due_rows:
  assumes "store_reachable (rstore R)"
  shows "store_reachable (rstore (snd (runTick S cfg env now R))) \<and>
    map rowIdentity (entries (rstore (snd (runTick S cfg env now R)))) = map rowIdentity (entries (rstore R)) \<and>
    (\<forall>i r. getRow (rstore R) i = Some r \<and> \<not> claimableRow r now \<longrightarrow>
       getRow (rstore (snd (runTick S cfg env now R))) i = Some r)"
  using assms tick_frame [of now _ _ R S cfg env] unfolding tickFrame_def by blast

section \<open>Concrete replicators for the witnesses\<close>

definition noSubstrates :: "('w, 'v) Substrates" where
  "noSubstrates = \<lparr>upsertNode = None, addEdge = None, deleteNode = None, markStale = None, deleteEdge = None,
     upsertVerbatim = None, tombstoneVerbatim = None, purgeVerbatim = None, upsertVerbatimBatch = None,
     physicalDeleteVerbatim = None, syncVectorMirror = None, batchedEmbedder = None, storeEmbedBatch = None,
     onEmbedDone = None, hasNode = None, hasEdge = None, hasVerbatim = None, hasEmbeddings = None,
     getNode = None, getVerbatim = None\<rparr>"

text \<open>A graph that is the list of the node ids it holds.\<close>

definition listGraph :: "(string list, unit) Substrates" where
  "listGraph = noSubstrates\<lparr>
     upsertNode := Some (\<lambda>p ws e w. case strFld p ''id'' of None \<Rightarrow> (Some (OtherError ''bad id''), w)
                                   | Some i \<Rightarrow> (None, List.insert i w)),
     deleteNode := Some (\<lambda>i ws e w. (None, removeAll i w)),
     hasNode := Some (\<lambda>i ws w. Inr (i \<in> set w))\<rparr>"

text \<open>A graph whose every node write throws \<open>m\<close>.\<close>

definition downGraph :: "string \<Rightarrow> (string list, unit) Substrates" where
  "downGraph m = noSubstrates\<lparr>upsertNode := Some (\<lambda>p ws e w. (Some (OtherError m), w))\<rparr>"

definition sampleEnv :: DispositionEnv where
  "sampleEnv = \<lparr>maxAttempts = 5, transientCeilingMs = 86400000, transientBaseMs = 500, transientCapMs = 60000,
     classify = None, haltBatch = None, jitter = (\<lambda>n m. m div 2)\<rparr>"

definition sampleCfg :: ReplicatorConfig where
  "sampleCfg = \<lparr>batchSize = 100, selfHealIntervalMs = 60000, selfHealGraceMs = 5000, selfHealBatchSize = 256,
     pruneReplicatedOlderThanMs = 604800000, EMBED_BATCH_CONSOLIDATION_CAP = 1024,
     VERBATIM_UPSERT_CONSOLIDATION_CAP = 256\<rparr>"

definition sampleRep :: "Store \<Rightarrow> 'w \<Rightarrow> 'w Rep" where
  "sampleRep st w = \<lparr>rstore = st, world = w, deferred = [], batchHalted = False, draws = 0, statReplicated = 0,
     statFailures = 0, statDead = 0, statTransient = 0, statSelfHealed = 0, statSweeps = 0, statExamined = 0,
     statPruned = 0, lastSelfHealAt = 0, lastPruneAt = 0\<rparr>"

lemmas sampleRep_defs = noSubstrates_def listGraph_def downGraph_def sampleEnv_def sampleCfg_def sampleRep_def

theorem tick_touches_only_due_rows_witness:
  "getRow (rstore (snd (runTick listGraph sampleCfg sampleEnv 20
     (sampleRep (markEntryStatus (sampleStore [sampleRow ''a'' ''w'' 1 NodeUpsert [] Pending, sampleRow ''b'' ''w'' 2 NodeDelete [] Pending]) ''a'' Dead noInfo 10) [])))) ''a'' =
   Some (markRow 500 Dead noInfo 10 (sampleRow ''a'' ''w'' 1 NodeUpsert [] Pending))"
proof -
  let ?st = "markEntryStatus (sampleStore [sampleRow ''a'' ''w'' 1 NodeUpsert [] Pending, sampleRow ''b'' ''w'' 2 NodeDelete [] Pending]) ''a'' Dead noInfo 10"
  have "getRow ?st ''a'' = Some (markRow 500 Dead noInfo 10 (sampleRow ''a'' ''w'' 1 NodeUpsert [] Pending))"
    by (simp add: markEntryStatus_def getRow_updRow) (simp add: getRow_def tableGet_def sample_defs)
  moreover have "\<not> claimableRow (markRow 500 Dead noInfo 10 (sampleRow ''a'' ''w'' 1 NodeUpsert [] Pending)) 20"
    by (simp add: claimableRow_def markRow_def Let_def)
  ultimately show ?thesis
    using tick_touches_only_due_rows [of "sampleRep ?st []" listGraph sampleCfg sampleEnv 20] one_dead_reachable
    by (simp add: sampleRep_def)
qed

section \<open>One replay\<close>

lemma getRow_mark:
  "getRow (markEntryStatus st i s info now) j =
    (if j = i then map_option (markRow (retryBaseMs st) s info now) (getRow st j) else getRow st j)"
  unfolding markEntryStatus_def by (simp add: getRow_updRow)

lemma getRow_transient:
  "getRow (snd (recordTransientFailure st i m next now)) j =
    (if j = i then map_option (transientRow m next now) (getRow st j) else getRow st j)"
  unfolding recordTransientFailure_def Let_def snd_conv by (simp add: getRow_updRow)

lemma claim_row:
  assumes "store_reachable (rstore R)" "getRow (rstore R) i = Some r"
  shows "claimEntry i now R =
    (claimableRow r now, R\<lparr>rstore := updRow (rstore R) i (claimRow now)\<rparr>)"
  using claim_fst [OF store_reachable_inv [OF assms(1)], of i now] assms(2)
  by (auto simp: claimEntry_def claimForReplication_def split: prod.split)

lemma claim_noop:
  assumes "store_reachable st" "getRow st i = Some r" "\<not> claimableRow r now"
  shows "updRow st i (claimRow now) = st"
proof -
  have "(if r_id x = i then claimRow now x else x) = x" if "x \<in> set (entries st)" for x
    using row_unique [OF store_reachable_inv [OF assms(1)] that] getRow_SomeD [OF assms(2)] assms(3)
    by (auto simp: claimRow_def)
  then have "tableUpd r_id i (claimRow now) (entries st) = entries st"
    unfolding tableUpd_def by (rule map_idI)
  then show ?thesis by (simp add: updRow_def setEntries_def)
qed

text \<open>The rows after a claimed replay.\<close>

lemma replay_row:
  assumes "store_reachable (rstore R)" "getRow (rstore R) i = Some r" "claimableRow r now"
    and "\<not> isSupersededFailed (rstore R) (rowToEntry r)" "dispatch S (rowToEntry r) (world R) = (x, w)"
  shows "getRow (rstore (snd (replicateOne S env now (rowToEntry r) R))) i =
    (case x of
       None \<Rightarrow> Some (markRow (retryBaseMs (rstore R)) Replicated noInfo now (claimRow now r))
     | Some (ReplayDeferredError m) \<Rightarrow> Some (markRow (retryBaseMs (rstore R)) Pending noInfo now (claimRow now r))
     | Some err \<Rightarrow>
         getRow (rstore (snd (recordReplayFailure env now (rowToEntry r) err
           (R\<lparr>rstore := updRow (rstore R) i (claimRow now), world := w\<rparr>)))) i)"
proof -
  have id: "r_id r = i" using getRow_SomeD [OF assms(2)] by simp
  have c: "claimEntry (entryId (rowToEntry r)) now R = (True, R\<lparr>rstore := updRow (rstore R) i (claimRow now)\<rparr>)"
    using claim_row [OF assms(1,2), of now] assms(3) id by simp
  have get: "getRow (updRow (rstore R) i (claimRow now)) i = Some (claimRow now r)"
    using assms(2) by (simp add: getRow_updRow)
  have d: "dispatch S (rowToEntry r) (world (R\<lparr>rstore := updRow (rstore R) i (claimRow now)\<rparr>)) = (x, w)"
    using assms(5) by simp
  show ?thesis
    unfolding replicateOne_store [OF assms(4) c d]
    by (auto simp: getRow_mark id get split: option.split ReplayError.split)
qed


lemma one_row_reachable:
  assumes "w \<noteq> []"
  shows "store_reachable (sampleStore [sampleRow i w 1 k p Pending])"
proof -
  have "recordEntry (openStore 500) (sampleEntry i w k p) = Inr (sampleStore [sampleRow i w 1 k p Pending])"
    using assms by (simp add: record_defs sample_defs)
  then show ?thesis
    by (rule store_reachable.stepped [OF store_reachable.opened store_step.record_step, rotated]) simp
qed

lemma sampleRep_simps [simp]: "rstore (sampleRep st w) = st" "world (sampleRep st w) = w"
  by (simp_all add: sampleRep_def)

lemma sample_get: "getRow (sampleStore [sampleRow i w n k p t]) i = Some (sampleRow i w n k p t)"
  by (simp add: getRow_def tableGet_def sample_defs)


section \<open>A later delete wins\<close>

lemma newer_delete_iff:
  "hasNewerDeleteForKey st ws f key seq \<longleftrightarrow>
     (\<exists>d \<in> set (entries st). r_workspace d = ws \<and> r_status d \<in> {Pending, Replicating, Replicated} \<and>
        r_operationKind d \<in> set (deleteKinds f) \<and> seq < r_sequenceId d \<and> familyMatch f d key)"
  by (auto simp: hasNewerDeleteForKey_def list_ex_iff)

lemma superseded_by_delete:
  assumes "keyOfEntry (rowToEntry r) = Some (f, key)" "upsertKind (r_operationKind r)" "r_workspace r \<noteq> []"
    and "d \<in> set (entries st)" "r_workspace d = r_workspace r" "r_status d \<in> {Pending, Replicating, Replicated}"
    and "r_operationKind d \<in> set (deleteKinds f)" "r_sequenceId r < r_sequenceId d"
    and "keyOfEntry (rowToEntry d) = Some (f, key)"
  shows "isSupersededFailed st (rowToEntry r)"
proof -
  have "hasNewerDeleteForKey st (r_workspace r) f key (r_sequenceId r)"
    unfolding newer_delete_iff using assms(4-9) keyOfEntry_match [of d f key] by auto
  then show ?thesis
    using assms(1-3) by (simp add: isSupersededFailed_def isSupersededByLaterDelete_def)
qed

text \<open>C3: a replay never resurrects what a later delete removed: if the store holds a delete of the
  same node, edge or verbatim source with a larger sequence number that is pending, being
  replayed or done, then replaying the older upsert, in whatever status it is, dispatches
  nothing, leaves the substrate and every other row as they were, and parks the row as dead
  with the supersession marker.\<close>

theorem later_delete_wins:
  assumes "store_reachable (rstore R)" "getRow (rstore R) i = Some r"
    and "keyOfEntry (rowToEntry r) = Some (f, key)" "upsertKind (r_operationKind r)" "r_workspace r \<noteq> []"
    and "d \<in> set (entries (rstore R))" "r_workspace d = r_workspace r" "r_status d \<in> {Pending, Replicating, Replicated}"
    and "r_operationKind d \<in> set (deleteKinds f)" "r_sequenceId r < r_sequenceId d"
    and "keyOfEntry (rowToEntry d) = Some (f, key)"
  shows "case replicateOne S env now (rowToEntry r) R of (ok, R') \<Rightarrow>
    \<not> ok \<and> world R' = world R \<and>
    (\<exists>r'. getRow (rstore R') i = Some r' \<and> r_status r' = Dead \<and> isSupersededDeadError (r_lastError r') \<and>
       r_attempts r' = r_attempts r) \<and>
    (\<forall>j. j \<noteq> i \<longrightarrow> getRow (rstore R') j = getRow (rstore R) j)"
proof -
  have id: "r_id r = i" using getRow_SomeD [OF assms(2)] by simp
  have "isSupersededFailed (rstore R) (rowToEntry r)" by (rule superseded_by_delete [OF assms(3-11)])
  then show ?thesis
    using assms(2) id
    by (simp add: replicateOne_def markSuperseded_def setStatus_def Let_def getRow_mark markRow_def supersededInfo_def
        isSupersededDeadError_def SUPERSEDED_DEAD_ERROR_def MAX_ERROR_LEN_def)
qed

lemma upsert_then_delete_reachable:
  "store_reachable (sampleStore [sampleRow ''a'' ''w'' 1 NodeUpsert [(''id'', JStr ''n'')] Pending,
     sampleRow ''b'' ''w'' 2 NodeDelete [(''id'', JStr ''n'')] Pending])"
proof -
  have "recordEntry (sampleStore [sampleRow ''a'' ''w'' 1 NodeUpsert [(''id'', JStr ''n'')] Pending])
      (sampleEntry ''b'' ''w'' NodeDelete [(''id'', JStr ''n'')]) =
     Inr (sampleStore [sampleRow ''a'' ''w'' 1 NodeUpsert [(''id'', JStr ''n'')] Pending,
       sampleRow ''b'' ''w'' 2 NodeDelete [(''id'', JStr ''n'')] Pending])"
    by (simp add: record_defs sample_defs)
  then show ?thesis
    by (rule store_reachable.stepped [OF one_row_reachable store_step.record_step, rotated 2]) simp_all
qed

theorem later_delete_wins_witness:
  "let r = sampleRow ''a'' ''w'' 1 NodeUpsert [(''id'', JStr ''n'')] Pending;
       d = sampleRow ''b'' ''w'' 2 NodeDelete [(''id'', JStr ''n'')] Pending
   in world (snd (replicateOne listGraph sampleEnv 5 (rowToEntry r) (sampleRep (sampleStore [r, d]) []))) = []"
proof -
  let ?r = "sampleRow ''a'' ''w'' 1 NodeUpsert [(''id'', JStr ''n'')] Pending"
  let ?d = "sampleRow ''b'' ''w'' 2 NodeDelete [(''id'', JStr ''n'')] Pending"
  let ?R = "sampleRep (sampleStore [?r, ?d]) []"
  obtain ok R' where e: "replicateOne listGraph sampleEnv 5 (rowToEntry ?r) ?R = (ok, R')" by fastforce
  have k: "keyOfEntry (rowToEntry ?r) = Some (NodeFamily, ''n'')" "keyOfEntry (rowToEntry ?d) = Some (NodeFamily, ''n'')"
    by (simp_all add: sample_defs keyOfEntry_def Let_def neStrFld_def strFld_def fld_def)
  show ?thesis
    using later_delete_wins [OF _ _ k(1) _ _ _ _ _ _ _ k(2), where R = ?R and i = "''a''" and S = listGraph and
        env = sampleEnv and now = 5] e upsert_then_delete_reachable
    by (simp add: Let_def) (simp add: sample_defs getRow_def tableGet_def upsertKind_def)
qed

section \<open>The retry budget\<close>

text \<open>Replay the stored row \<open>i\<close> at each of the times \<open>ts\<close>, reading it back before each replay.\<close>

fun replayAt :: "('w, 'v) Substrates \<Rightarrow> DispositionEnv \<Rightarrow> string \<Rightarrow> ms list \<Rightarrow> 'w Rep \<Rightarrow> 'w Rep" where
  "replayAt S env i [] R = R"
| "replayAt S env i (t # ts) R =
     (case getRow (rstore R) i of
        None \<Rightarrow> R
      | Some r \<Rightarrow> replayAt S env i ts (snd (replicateOne S env t (rowToEntry r) R)))"

text \<open>No later row of the workspace, so nothing can supersede the row.\<close>

definition newestRow :: "Store \<Rightarrow> Row \<Rightarrow> bool" where
  "newestRow st r \<longleftrightarrow> (\<forall>r' \<in> set (entries st). r_workspace r' = r_workspace r \<longrightarrow> r_sequenceId r' \<le> r_sequenceId r)"

lemma newest_not_superseded: "newestRow st r \<Longrightarrow> \<not> isSupersededFailed st (rowToEntry r)"
  by (auto simp: isSupersededFailed_def isSupersededByLaterDelete_def newer_delete_iff newer_replicated_iff newestRow_def
      split: option.splits)

lemma failing_replay:
  assumes "store_reachable (rstore R)" "getRow (rstore R) i = Some r" "claimableRow r now" "newestRow (rstore R) r"
    and "dispatch S (rowToEntry r) (world R) = (Some (OtherError m), w)" "classify env = None"
  shows "getRow (rstore (snd (replicateOne S env now (rowToEntry r) R))) i =
    Some (if int (r_attempts r) + 1 \<ge> maxAttempts env
          then markRow (retryBaseMs (rstore R)) Dead (deadInfo m True (Some Permanent)) now (claimRow now r)
          else markRow (retryBaseMs (rstore R)) Failed (deadInfo m True None) now (claimRow now r))"
proof -
  have id: "r_id r = i" using getRow_SomeD [OF assms(2)] by simp
  show ?thesis
    using replay_row [OF assms(1-3) newest_not_superseded [OF assms(4)] assms(5), of env] assms(2,6) id
    by (simp add: recordReplayFailure_def Let_def isTransient_def setStatus_def getRow_mark getRow_updRow)
qed

lemma rowIdentity_newest:
  assumes "map rowIdentity (entries st') = map rowIdentity (entries st)" "newestRow st r"
    and "r_workspace r' = r_workspace r" "r_sequenceId r' = r_sequenceId r"
  shows "newestRow st' r'"
proof -
  have "rowIdentity ` set (entries st') = rowIdentity ` set (entries st)"
    by (metis assms(1) list.set_map)
  moreover have "x \<in> rowIdentity ` set (entries st) \<Longrightarrow> fst (snd x) = r_workspace r \<Longrightarrow> fst (snd (snd x)) \<le> r_sequenceId r" for x
    using assms(2) by (auto simp: newestRow_def rowIdentity_def)
  ultimately have "x \<in> set (entries st') \<Longrightarrow> fst (snd (rowIdentity x)) = r_workspace r \<Longrightarrow>
      fst (snd (snd (rowIdentity x))) \<le> r_sequenceId r" for x by blast
  then show ?thesis using assms(3,4) by (simp add: newestRow_def rowIdentity_def)
qed

lemma budget_induct:
  assumes "store_reachable (rstore R)" "getRow (rstore R) i = Some r" "newestRow (rstore R) r"
    and "\<And>t. t \<in> set ts \<Longrightarrow> claimableRow r t" "sorted_wrt (\<lambda>a b. a + 30000 \<le> b) ts"
    and "\<And>e w. operationKind e = Some (r_operationKind r) \<Longrightarrow> payload e = r_payload r \<Longrightarrow> \<exists>w'. dispatch S e w = (Some (OtherError m), w')"
    and "classify env = None" "maxAttempts env = int M" "r_attempts r + length ts \<le> M" "ts \<noteq> []"
  shows "\<exists>r'. getRow (rstore (replayAt S env i ts R)) i = Some r' \<and> r_attempts r' = r_attempts r + length ts \<and>
    (if r_attempts r' = M then r_status r' = Dead \<and> r_deadReason r' = Some ''permanent'' else r_status r' = Failed)"
  using assms
proof (induction ts arbitrary: R r)
  case (Cons t ts)
  let ?st = "rstore R" let ?R = "snd (replicateOne S env t (rowToEntry r) R)"
  have id: "r_id r = i" using getRow_SomeD [OF Cons.prems(2)] by simp
  obtain w where d: "dispatch S (rowToEntry r) (world R) = (Some (OtherError m), w)" using Cons.prems(6) [of "rowToEntry r"] by fastforce
  let ?r = "if int (r_attempts r) + 1 \<ge> int M
            then markRow (retryBaseMs ?st) Dead (deadInfo m True (Some Permanent)) t (claimRow t r)
            else markRow (retryBaseMs ?st) Failed (deadInfo m True None) t (claimRow t r)"
  have get: "getRow (rstore ?R) i = Some ?r"
    using failing_replay [OF Cons.prems(1,2) Cons.prems(4) Cons.prems(3) d Cons.prems(7), of t] Cons.prems(8) by simp
  have att: "r_attempts ?r = Suc (r_attempts r)"
    by (simp add: markRow_def Let_def deadInfo_def claimRow_def)
  show ?case
  proof (cases "ts = []")
    case True
    then show ?thesis
      using get att Cons.prems(2,9) by (auto simp: markRow_def Let_def deadInfo_def)
  next
    case False
    have mv: "moves {i} R ?R" using id by (intro moves_replicateOne) simp
    have lt: "\<not> int M \<le> int (r_attempts r) + 1" using Cons.prems(9) False by (cases ts) auto
    have due: "claimableRow ?r t'" if "t' \<in> set ts" for t'
    proof -
      have "t + 30000 \<le> t'" using Cons.prems(5) that by auto
      then show ?thesis using lt
        by (simp add: markRow_def Let_def claimableRow_def dueRow_def computeNextAttemptAt_def min_def)
    qed
    have keep: "r_operationKind ?r = r_operationKind r" "r_payload ?r = r_payload r"
      by (simp_all add: keepsKeyD [OF keepsKey_rows(4)] keepsKeyD [OF keepsKey_rows(3)])
    have new: "newestRow (rstore ?R) ?r"
      by (rule rowIdentity_newest [OF moves_frame(1) [OF mv] Cons.prems(3)])
         (simp_all add: keepsKeyD [OF keepsKey_rows(4)] keepsKeyD [OF keepsKey_rows(3)])
    have "\<exists>r'. getRow (rstore (replayAt S env i ts ?R)) i = Some r' \<and> r_attempts r' = r_attempts ?r + length ts \<and>
      (if r_attempts r' = M then r_status r' = Dead \<and> r_deadReason r' = Some ''permanent'' else r_status r' = Failed)"
      by (rule Cons.IH [OF moves_frame(3) [OF mv Cons.prems(1)] get new due _ _ Cons.prems(7,8) _ False])
         (use Cons.prems(5,6,9) att keep in \<open>auto simp del: if_split\<close>)
    then show ?thesis using Cons.prems(2) att by (simp del: if_split)
  qed
qed simp


lemma downGraph_fails:
  "operationKind e = Some NodeUpsert \<Longrightarrow> payload e = Some [(''id'', JStr ''n'')] \<Longrightarrow>
    dispatch (downGraph m) e w = (Some (OtherError m), w)"
  by (simp add: dispatch_def Let_def dispatchNodeUpsert_def downGraph_def noSubstrates_def fld_def)


section \<open>The transient budget\<close>

text \<open>Note: a failure the classifier calls transient never uses up the retry budget: the stored row
  keeps its attempt count, remembers when transient failures began and counts one more
  retry, and is due again within the transient cap; only when transient failures have
  lasted at least the ceiling is the row dead-lettered, with reason \<open>transient_ceiling\<close>.\<close>

theorem transient_keeps_budget:
  assumes "store_reachable (rstore R)" "getRow (rstore R) i = Some r" "claimableRow r now"
    and "\<not> isSupersededFailed (rstore R) (rowToEntry r)"
    and "dispatch S (rowToEntry r) (world R) = (Some (OtherError m), w)"
    and "isTransient env (OtherError m)" "jitter_ok env" "0 < transientCapMs env" "0 < transientBaseMs env"
  shows "\<exists>r'. getRow (rstore (snd (replicateOne S env now (rowToEntry r) R))) i = Some r' \<and> r_attempts r' = r_attempts r \<and>
    (case r_firstTransientAt r of
       Some f \<Rightarrow>
         if now - f \<ge> transientCeilingMs env then r_status r' = Dead \<and> r_deadReason r' = Some ''transient_ceiling''
         else r_status r' = Failed \<and> r_firstTransientAt r' = Some f \<and> r_transientRetries r' = r_transientRetries r + 1 \<and>
           (\<exists>t. r_nextAttemptAt r' = Some t \<and> now \<le> t \<and> t < now + transientCapMs env)
     | None \<Rightarrow> r_status r' = Failed \<and> r_firstTransientAt r' = Some now \<and> r_transientRetries r' = r_transientRetries r + 1 \<and>
           (\<exists>t. r_nextAttemptAt r' = Some t \<and> now \<le> t \<and> t < now + transientCapMs env))"
proof -
  have id: "r_id r = i" using getRow_SomeD [OF assms(2)] by simp
  let ?R = "R\<lparr>rstore := updRow (rstore R) i (claimRow now), world := w\<rparr>"
  have get: "getRow (updRow (rstore R) i (claimRow now)) i = Some (claimRow now r)"
    using assms(2) by (simp add: getRow_updRow)
  have row: "getRow (rstore (snd (replicateOne S env now (rowToEntry r) R))) i =
      getRow (rstore (snd (recordReplayFailure env now (rowToEntry r) (OtherError m) ?R))) i"
    using replay_row [OF assms(1-5), of env] by simp
  have "0 < min (transientCapMs env) (transientBaseMs env * 2 ^ k)" for k using assms(8,9) by simp
  then have j: "0 \<le> transientBackoffMs env n k \<and> transientBackoffMs env n k < transientCapMs env" for n k
    using assms(7) unfolding jitter_ok_def transientBackoffMs_def by (meson less_le_trans min.cobounded1)
  have claim: "r_attempts (claimRow now r) = r_attempts r" "r_firstTransientAt (claimRow now r) = r_firstTransientAt r"
    "r_transientRetries (claimRow now r) = r_transientRetries r" "r_deadReason (claimRow now r) = r_deadReason r"
    by (simp_all add: claimRow_def)
  show ?thesis
    unfolding row using assms(6) id j claim
    by (simp add: recordReplayFailure_def Let_def ceilingReached_def setStatus_def getRow_mark getRow_transient get
        retriesOf_def markRow_def deadInfo_def transientRow_def split: option.split)
qed

definition transientEnv :: DispositionEnv where
  "transientEnv = sampleEnv\<lparr>classify := Some (\<lambda>_. True)\<rparr>"

theorem transient_keeps_budget_witness:
  "let r = sampleRow ''a'' ''w'' 1 NodeUpsert [(''id'', JStr ''n'')] Pending; R = sampleRep (sampleStore [r]) []
   in \<exists>r'. getRow (rstore (snd (replicateOne (downGraph ''down'') transientEnv 7 (rowToEntry r) R))) ''a'' = Some r' \<and>
        r_attempts r' = 0 \<and> r_status r' = Failed \<and> r_firstTransientAt r' = Some 7 \<and> r_transientRetries r' = 1"
proof -
  let ?r = "sampleRow ''a'' ''w'' 1 NodeUpsert [(''id'', JStr ''n'')] Pending"
  have "newestRow (sampleStore [?r]) ?r" by (simp add: newestRow_def sample_defs)
  moreover have "claimableRow ?r 7" by (simp add: claimableRow_def dueRow_def sample_defs)
  moreover have "dispatch (downGraph ''down'') (rowToEntry ?r) [] = (Some (OtherError ''down''), [])"
    by (rule downGraph_fails) (simp_all add: sample_defs)
  moreover have "isTransient transientEnv (OtherError ''down'')" "jitter_ok transientEnv" "0 < transientCapMs transientEnv"
    "0 < transientBaseMs transientEnv" "r_attempts ?r = 0" "r_firstTransientAt ?r = None" "r_transientRetries ?r = 0"
    by (auto simp: isTransient_def transientEnv_def sampleEnv_def jitter_ok_def sample_defs)
  ultimately show ?thesis
    using transient_keeps_budget [where R = "sampleRep (sampleStore [?r]) []" and i = "''a''" and r = ?r and
        S = "downGraph ''down''" and env = transientEnv and m = "''down''" and now = 7 and w = "[]"]
    by (auto simp: Let_def one_row_reachable sample_get newest_not_superseded)
qed

section \<open>Consolidated embeddings stay aligned\<close>

text \<open>The well-formed (text, node id) pairs of one row, index by index.\<close>

fun goodPairs :: "json list \<Rightarrow> json list \<Rightarrow> (string \<times> string) list" where
  "goodPairs (JStr t # ts) (JStr i # is) = (t, i) # goodPairs ts is"
| "goodPairs (_ # ts) (_ # is) = goodPairs ts is"
| "goodPairs _ _ = []"

definition rowPairs :: "OutboxEntry \<Rightarrow> (string \<times> string) list" where
  "rowPairs e =
     (case (arrFld (payloadOf e) ''texts'', arrFld (payloadOf e) ''targetNodeIds'') of
        (Some ts, Some is) \<Rightarrow> if length ts = length is then goodPairs ts is else []
      | _ \<Rightarrow> [])"

lemma goodPairs_zip:
  "goodPairs ts is = map (\<lambda>(t, i). (strOf t, strOf i)) (filter (\<lambda>(t, i). isStr t \<and> isStr i) (zip ts is))"
  by (induction ts "is" rule: goodPairs.induct) (auto simp: isStr_def strOf_def)

lemma zip_map_halves: "zip (map (f \<circ> fst) xs) (map (g \<circ> snd) xs) = map (\<lambda>(a, b). (f a, g b)) xs"
  by (induction xs) auto

lemma embedPairs_zip:
  "embedPairs (payloadOf e) = Some (t, i) \<Longrightarrow> length t = length i \<and> zip t i = rowPairs e"
  by (auto simp: embedPairs_def rowPairs_def Let_def goodPairs_zip zip_map_halves split: option.splits if_splits)

lemma embedPairs_None: "embedPairs (payloadOf e) = None \<Longrightarrow> rowPairs e = []"
  by (auto simp: embedPairs_def rowPairs_def Let_def goodPairs_zip split: option.splits if_splits)

lemma collectEmbed_aligned:
  assumes "collectEmbedBatchRun cap es consumed texts ids = (run, txs, is)" "length texts = length ids"
    and "zip texts ids = concat (map rowPairs consumed)"
    and "length consumed \<le> 1 \<or> int (length texts) \<le> cap"
  shows "length txs = length is \<and> zip txs is = concat (map rowPairs run) \<and> (length run \<le> 1 \<or> int (length txs) \<le> cap)"
  using assms
proof (induction es arbitrary: consumed texts ids)
  case (Cons e es)
  have pay: "(case payload e of None \<Rightarrow> [] | Some p \<Rightarrow> p) = payloadOf e" by (simp add: payloadOf_def)
  show ?case
  proof (cases "operationKind e = Some EmbedBatch")
    case True
    show ?thesis
    proof (cases "embedPairs (payloadOf e)")
      case None
      then show ?thesis using Cons.prems True by (auto simp: pay embedPairs_None split: if_splits)
    next
      case (Some a)
      obtain t i where a: "a = (t, i)" by fastforce
      have z: "length t = length i" "zip t i = rowPairs e" using embedPairs_zip Some a by auto
      show ?thesis
      proof (cases "consumed \<noteq> [] \<and> int (length texts) + int (length t) > cap")
        case True
        then show ?thesis using Cons.prems \<open>operationKind e = _\<close> Some a by (simp add: pay)
      next
        case False
        have le: "length (consumed @ [e]) \<le> 1 \<or> int (length (texts @ t)) \<le> cap" using False by auto
        have zz: "zip (texts @ t) (ids @ i) = concat (map rowPairs (consumed @ [e]))" using Cons.prems(2,3) z by simp
        show ?thesis
          using Cons.prems(1,2) \<open>operationKind e = _\<close> Some a False z(1) le zz
            Cons.IH [OF _ _ zz le] by (auto simp: pay Let_def split: if_splits)
      qed
    qed
  qed (use Cons.prems in simp)
qed simp

text \<open>Note: when the replicator merges adjacent embedding rows, every text keeps its node: the merged
  lists have equal length and, zipped, are exactly the concatenation of the well-formed
  (text, id) pairs of the consumed rows, index by index and in row order; a malformed element
  drops its whole pair and never shifts the others. The consumed rows are a prefix of the
  batch, and a run of more than one row never exceeds the consolidation cap.\<close>

theorem embed_run_aligned:
  "case collectEmbedBatchRun cap fresh [] [] [] of (run, texts, ids) \<Rightarrow>
     length texts = length ids \<and> zip texts ids = concat (map rowPairs run) \<and>
     run = take (length run) fresh \<and> (length run \<le> 1 \<or> int (length texts) \<le> cap)"
proof -
  obtain run texts ids where c: "collectEmbedBatchRun cap fresh [] [] [] = (run, texts, ids)" by (metis surj_pair)
  obtain n where "run = take n fresh"
    using collectEmbed_prefix [of "[]" fresh cap "[]" "[]"] c by (auto simp: extends_def)
  then have "run = take (length run) fresh" by (cases "n \<le> length fresh") auto
  then show ?thesis using collectEmbed_aligned [OF c] c by auto
qed

text \<open>Note: a row that is dispatched on its own does not get that treatment: texts and ids are filtered
  independently, so a payload with one non-string on each side, at different positions, passes
  the length check and stores a text under a node id it was never paired with, while the
  consolidated path drops both pairs of the same row.\<close>

theorem embed_single_row_misaligned:
  "\<exists>e. operationKind e = Some EmbedBatch \<and> rowPairs e = [] \<and>
     (\<forall>(S :: ('w, 'v) Substrates) emb put w w' v. batchedEmbedder S = Some emb \<and> storeEmbedBatch S = Some put \<and>
        emb [''a''] w = (Inr [v], w') \<longrightarrow> dispatch S e w = put [''x''] [v] [''a''] (workspace e) w')"
proof -
  let ?e = "sampleEntry ''q'' ''w'' EmbedBatch
     [(''texts'', JArr [JStr ''a'', JNum 7]), (''targetNodeIds'', JArr [JNum 5, JStr ''x''])]"
  have "operationKind ?e = Some EmbedBatch \<and> rowPairs ?e = []"
    by (simp add: sample_defs rowPairs_def payloadOf_def arrFld_def fld_def)
  moreover have "dispatch S ?e w = put [''x''] [v] [''a''] (workspace ?e) w'"
    if "batchedEmbedder S = Some emb" "storeEmbedBatch S = Some put" "emb [''a''] w = (Inr [v], w')"
    for S :: "('w, 'v) Substrates" and emb put w w' v
    using that by (simp add: dispatch_def Let_def dispatchEmbedBatch_def sample_defs arrFld_def fld_def)
  ultimately show ?thesis by blast
qed

definition embedSubstrates :: "((string \<times> string) list, unit) Substrates" where
  "embedSubstrates = noSubstrates\<lparr>batchedEmbedder := Some (\<lambda>ts w. (Inr (map (\<lambda>_. ()) ts), w)),
     storeEmbedBatch := Some (\<lambda>ids vs ts ws w. (None, w @ zip ids ts))\<rparr>"

theorem embed_single_row_misaligned_witness:
  "\<exists>e. rowPairs e = [] \<and> dispatch embedSubstrates e [] = (None, [(''x'', ''a'')])"
proof -
  obtain e where e: "rowPairs e = []"
    and d: "\<forall>(S :: ((string \<times> string) list, unit) Substrates) emb put w w' v. batchedEmbedder S = Some emb \<and> storeEmbedBatch S = Some put \<and>
        emb [''a''] w = (Inr [v], w') \<longrightarrow> dispatch S e w = put [''x''] [v] [''a''] (workspace e) w'"
    using embed_single_row_misaligned [where 'w = "(string \<times> string) list" and 'v = unit] by blast
  have "dispatch embedSubstrates e [] = (\<lambda>ids vs ts ws w. (None, w @ zip ids ts)) [''x''] [()] [''a''] (workspace e) []"
    by (rule d [rule_format, where emb = "\<lambda>ts w. (Inr (map (\<lambda>_. ()) ts), w)" and w = "[]" and w' = "[]" and v = "()" and
          put = "\<lambda>ids vs ts ws w. (None, w @ zip ids ts)" and S = embedSubstrates])
       (simp add: embedSubstrates_def)
  then show ?thesis using e by auto
qed

section \<open>Self-heal\<close>

definition heals :: "(string \<Rightarrow> string) \<Rightarrow> ('w, 'v) Substrates \<Rightarrow> 'w \<Rightarrow> OutboxEntry list \<Rightarrow> string \<Rightarrow> bool" where
  "heals sha1Hex S w cs i \<longleftrightarrow> (\<exists>e \<in> set cs. entryId e = i \<and> verified (verifyApplied sha1Hex S e w))"

lemma heals_simps [simp]:
  "\<not> heals sha1Hex S w [] i"
  "heals sha1Hex S w (e # es) i \<longleftrightarrow> entryId e = i \<and> verified (verifyApplied sha1Hex S e w) \<or> heals sha1Hex S w es i"
  by (auto simp: heals_def)

text \<open>What one candidate does to the state, and the whole sweep by induction over the candidates.\<close>

lemma heal_one:
  "world (snd (healOne sha1Hex S dry now e (rep, R))) = world R"
  "rstore (snd (healOne sha1Hex S dry now e (rep, R))) =
     (if verified (verifyApplied sha1Hex S e (world R)) \<and> \<not> dry
      then markEntryStatus (rstore R) (entryId e) Replicated noInfo now else rstore R)"
  "recovered (fst (healOne sha1Hex S dry now e (rep, R))) + leftFailed (fst (healOne sha1Hex S dry now e (rep, R))) =
     Suc (recovered rep + leftFailed rep)"
  "examined (fst (healOne sha1Hex S dry now e (rep, R))) = examined rep"
  by (simp_all add: healOne_def Let_def setStatus_def countOutcome_def)

lemma heal_fold:
  assumes "fold (healOne sha1Hex S dry now) cs (rep, R) = (rep', R')"
  shows "world R' = world R \<and> (dry \<longrightarrow> rstore R' = rstore R) \<and>
    (\<forall>i. (dry \<or> \<not> heals sha1Hex S (world R) cs i \<longrightarrow> getRow (rstore R') i = getRow (rstore R) i) \<and>
         (\<not> dry \<and> heals sha1Hex S (world R) cs i \<longrightarrow>
            map_option r_status (getRow (rstore R') i) = map_option (\<lambda>_. Replicated) (getRow (rstore R) i))) \<and>
    recovered rep' + leftFailed rep' = recovered rep + leftFailed rep + length cs \<and> examined rep' = examined rep"
  using assms
proof (induction cs arbitrary: rep R)
  case (Cons e cs)
  obtain rep1 R1 where h: "healOne sha1Hex S dry now e (rep, R) = (rep1, R1)" by fastforce
  note IH = Cons.IH [of rep1 R1]
  have "fold (healOne sha1Hex S dry now) cs (rep1, R1) = (rep', R')" using Cons.prems h by simp
  note IH = IH [OF this]
  have one: "world R1 = world R" "examined rep1 = examined rep" "recovered rep1 + leftFailed rep1 = Suc (recovered rep + leftFailed rep)"
    "rstore R1 = (if verified (verifyApplied sha1Hex S e (world R)) \<and> \<not> dry
      then markEntryStatus (rstore R) (entryId e) Replicated noInfo now else rstore R)"
    using heal_one [where sha1Hex = sha1Hex and S = S and dry = dry and now = now and e = e and rep = rep and R = R] h by simp_all
  have row: "getRow (rstore R1) i = (if i = entryId e \<and> verified (verifyApplied sha1Hex S e (world R)) \<and> \<not> dry
      then map_option (markRow (retryBaseMs (rstore R)) Replicated noInfo now) (getRow (rstore R) i) else getRow (rstore R) i)" for i
    by (auto simp: one(4) getRow_mark)
  have st: "r_status (markRow b Replicated noInfo now r) = Replicated" for b r by (simp add: markRow_def Let_def)
  have "(dry \<or> \<not> heals sha1Hex S (world R) (e # cs) i \<longrightarrow> getRow (rstore R') i = getRow (rstore R) i) \<and>
      (\<not> dry \<and> heals sha1Hex S (world R) (e # cs) i \<longrightarrow>
         map_option r_status (getRow (rstore R') i) = map_option (\<lambda>_. Replicated) (getRow (rstore R) i))" for i
    using IH row [of i] one(1)
    by (cases "getRow (rstore R) i"; cases "heals sha1Hex S (world R) cs i") (auto simp: st)
  then show ?case using IH one by auto
qed simp

lemma heal_fold_parts:
  assumes "fold (healOne sha1Hex S dry now) cs (rep, R) = (rep', R')"
  shows "world R' = world R" "dry \<longrightarrow> rstore R' = rstore R" "examined rep' = examined rep"
    "recovered rep' + leftFailed rep' = recovered rep + leftFailed rep + length cs"
    "dry \<or> \<not> heals sha1Hex S (world R) cs i \<Longrightarrow> getRow (rstore R') i = getRow (rstore R) i"
    "\<not> (dry \<or> \<not> heals sha1Hex S (world R) cs i) \<Longrightarrow>
       map_option r_status (getRow (rstore R') i) = map_option (\<lambda>_. Replicated) (getRow (rstore R) i)"
  using heal_fold [OF assms] by auto

text \<open>C39: the self-heal sweep writes nothing to the substrate, and a row it flips to \<open>replicated\<close> was a
  failed row (a dead letter only when the operator asked for dead rows) older than the grace
  period whose effect the substrate probes confirmed; every other row is left as it was. A dry
  run changes no row at all, and every candidate is reported as recovered or left failed.\<close>

theorem self_heal_only_verified:
  assumes "store_reachable (rstore R)"
  shows "case runSelfHealSweep sha1Hex S cfg opts now R of (rep, R') \<Rightarrow>
    world R' = world R \<and> (dryRun opts \<longrightarrow> rstore R' = rstore R) \<and>
    recovered rep + leftFailed rep = examined rep \<and>
    (\<forall>i r. getRow (rstore R) i = Some r \<longrightarrow>
       getRow (rstore R') i = Some r \<or>
       (\<exists>r'. getRow (rstore R') i = Some r' \<and> r_status r' = Replicated) \<and>
       (r_status r = Failed \<or> includeDead opts \<and> r_status r = Dead) \<and>
       verified (verifyApplied sha1Hex S (rowToEntry r) (world R)) \<and>
       (case r_failedAt r of Some t \<Rightarrow> t | None \<Rightarrow> r_updatedAt r) +
         max 0 (case graceMsOverride opts of None \<Rightarrow> selfHealGraceMs cfg | Some g \<Rightarrow> g) \<le> now)"
proof (cases "\<not> force opts \<and> now - lastSelfHealAt R < selfHealIntervalMs cfg")
  case True
  then show ?thesis by (simp add: runSelfHealSweep_def emptyReport_def)
next
  case False
  let ?grace = "case graceMsOverride opts of None \<Rightarrow> selfHealGraceMs cfg | Some g \<Rightarrow> g"
  let ?limit = "case sweepLimit opts of None \<Rightarrow> selfHealBatchSize cfg | Some l \<Rightarrow> l"
  let ?cs = "listFailedOlderThan (rstore R) ?grace (sweepWorkspace opts) ?limit (includeDead opts) now"
  let ?R0 = "R\<lparr>lastSelfHealAt := now, statSweeps := statSweeps R + 1, statExamined := statExamined R + length ?cs\<rparr>"
  obtain rep R' where f: "fold (healOne sha1Hex S (dryRun opts) now) ?cs (emptyReport\<lparr>examined := length ?cs\<rparr>, ?R0) = (rep, R')"
    by (metis surj_pair)
  have run: "runSelfHealSweep sha1Hex S cfg opts now R = (rep, R')"
    unfolding runSelfHealSweep_def if_not_P [OF False] using f by (simp add: Let_def)
  have cand: "\<exists>r'. r' \<in> set (entries (rstore R)) \<and> e = rowToEntry r' \<and> (r_status r' = Failed \<or> includeDead opts \<and> r_status r' = Dead) \<and>
      (case r_failedAt r' of Some t \<Rightarrow> t | None \<Rightarrow> r_updatedAt r') \<le> now - max 0 ?grace" if "e \<in> set ?cs" for e
    using that unfolding listFailedOlderThan_def Let_def by (auto dest!: orderLimit_mem)
  have healed: "(r_status r = Failed \<or> includeDead opts \<and> r_status r = Dead) \<and>
      verified (verifyApplied sha1Hex S (rowToEntry r) (world R)) \<and>
      (case r_failedAt r of Some t \<Rightarrow> t | None \<Rightarrow> r_updatedAt r) + max 0 ?grace \<le> now"
    if r: "getRow (rstore R) i = Some r" and h: "heals sha1Hex S (world R) ?cs i" for i r
  proof -
    obtain e where e: "e \<in> set ?cs" "entryId e = i" "verified (verifyApplied sha1Hex S e (world R))"
      using h by (auto simp: heals_def)
    obtain r' where r': "r' \<in> set (entries (rstore R))" "e = rowToEntry r'" "r_status r' = Failed \<or> includeDead opts \<and> r_status r' = Dead"
      "(case r_failedAt r' of Some t \<Rightarrow> t | None \<Rightarrow> r_updatedAt r') \<le> now - max 0 ?grace" using cand [OF e(1)] by blast
    have eq: "r' = r"
      using row_unique [OF store_reachable_inv [OF assms], of r' r] r'(1,2) e(2) getRow_SomeD [OF r] by simp
    show ?thesis using r'(2-4) e(3) unfolding eq by (simp add: le_diff_eq)
  qed
  note hf = heal_fold_parts [OF f]
  have rows: "getRow (rstore R') i = Some r \<or> (\<exists>r'. getRow (rstore R') i = Some r' \<and> r_status r' = Replicated) \<and>
      heals sha1Hex S (world R) ?cs i" if r: "getRow (rstore R) i = Some r" for i r
  proof (cases "dryRun opts \<or> \<not> heals sha1Hex S (world R) ?cs i")
    case True
    then show ?thesis using hf(5) [of i] r by simp
  next
    case False
    then have "map_option r_status (getRow (rstore R') i) = Some Replicated" using hf(6) [of i] r by simp
    then show ?thesis using False by auto
  qed
  have rep: "recovered rep + leftFailed rep = examined rep" "world R' = world R" "dryRun opts \<longrightarrow> rstore R' = rstore R"
    using hf(1-4) by (simp_all add: emptyReport_def)
  show ?thesis
    unfolding run prod.case using rep rows healed by blast
qed

definition operatorDryRun :: SweepOpts where
  "operatorDryRun = \<lparr>force = True, graceMsOverride = Some 0, dryRun = True, sweepWorkspace = None,
     sweepLimit = None, includeDead = True\<rparr>"

theorem self_heal_only_verified_witness:
  "rstore (snd (runSelfHealSweep (\<lambda>s. s) listGraph sampleCfg operatorDryRun 100
      (sampleRep (markEntryStatus (sampleStore [sampleRow ''a'' ''w'' 1 NodeUpsert [] Pending, sampleRow ''b'' ''w'' 2 NodeDelete [] Pending]) ''a'' Dead noInfo 10) []))) =
   markEntryStatus (sampleStore [sampleRow ''a'' ''w'' 1 NodeUpsert [] Pending, sampleRow ''b'' ''w'' 2 NodeDelete [] Pending]) ''a'' Dead noInfo 10"
  using self_heal_only_verified [where sha1Hex = "\<lambda>s. s" and S = listGraph and cfg = sampleCfg and opts = operatorDryRun and now = 100
      and R = "sampleRep (markEntryStatus (sampleStore [sampleRow ''a'' ''w'' 1 NodeUpsert [] Pending, sampleRow ''b'' ''w'' 2 NodeDelete [] Pending]) ''a'' Dead noInfo 10) []"]
    one_dead_reachable
  by (auto simp: operatorDryRun_def split: prod.splits)

end
