(* ===== verification/OutboxDispatchProps.thy ===== *)
theory OutboxDispatchProps
  imports OutboxReplicatorProps
begin

text \<open>
  What the dispatcher promises: an entry it rejects has touched nothing, an edge is written in
  both directions before it counts as done, and a positive answer of \<open>verifyApplied\<close> is backed
  by the content the substrate holds, never by mere existence when the entry carries content.
\<close>

section \<open>Rejections\<close>

definition hookWired :: "('w, 'v) Substrates \<Rightarrow> OutboxOperationKind \<Rightarrow> bool" where
  "hookWired S k =
     (case k of
        NodeUpsert \<Rightarrow> upsertNode S \<noteq> None | EdgeUpsert \<Rightarrow> addEdge S \<noteq> None
      | NodeDelete \<Rightarrow> deleteNode S \<noteq> None | EdgeDelete \<Rightarrow> deleteEdge S \<noteq> None
      | NodeMarkStale \<Rightarrow> markStale S \<noteq> None | VerbatimUpsert \<Rightarrow> upsertVerbatim S \<noteq> None
      | VerbatimTombstone \<Rightarrow> tombstoneVerbatim S \<noteq> None | VerbatimPurge \<Rightarrow> purgeVerbatim S \<noteq> None
      | VerbatimUpsertBatch \<Rightarrow> upsertVerbatimBatch S \<noteq> None | SyncVectorMirror \<Rightarrow> syncVectorMirror S \<noteq> None
      | EmbedBatch \<Rightarrow> batchedEmbedder S \<noteq> None \<and> storeEmbedBatch S \<noteq> None
      | _ \<Rightarrow> True)"

text \<open>The payload fields each kind requires, stated on the JSON value.\<close>

definition payloadValid :: "OutboxOperationKind \<Rightarrow> obj \<Rightarrow> bool" where
  "payloadValid k p =
     (case k of
        NodeUpsert \<Rightarrow> truthy (fld p ''id'')
      | EdgeUpsert \<Rightarrow> truthy (fld p ''sourceId'') \<and> truthy (fld p ''targetId'') \<and> truthy (fld p ''relation'')
      | NodeDelete \<Rightarrow> (\<exists>i. fld p ''id'' = Some (JStr i))
      | EdgeDelete \<Rightarrow> (\<exists>s t r. fld p ''sourceId'' = Some (JStr s) \<and> fld p ''targetId'' = Some (JStr t) \<and>
                        fld p ''relation'' = Some (JStr r))
      | NodeMarkStale \<Rightarrow> (\<exists>xs. fld p ''ids'' = Some (JArr xs))
      | VerbatimTombstone \<Rightarrow> (\<exists>i. i \<noteq> [] \<and> fld p ''id'' = Some (JStr i))
      | VerbatimPurge \<Rightarrow> (\<exists>i. i \<noteq> [] \<and> (fld p ''id'' = Some (JStr i) \<or> (\<exists>xs. fld p ''ids'' = Some (JArr xs) \<and> JStr i \<in> set xs)))
      | VerbatimUpsertBatch \<Rightarrow> (\<exists>xs. fld p ''items'' = Some (JArr xs))
      | EmbedBatch \<Rightarrow> (\<exists>ts is. fld p ''texts'' = Some (JArr ts) \<and> fld p ''targetNodeIds'' = Some (JArr is) \<and>
                        length (strsOf ts) = length (strsOf is))
      | _ \<Rightarrow> True)"

lemma strFld_Some: "strFld p k = Some s \<longleftrightarrow> fld p k = Some (JStr s)"
  by (auto simp: strFld_def split: option.splits json.splits)

lemma arrFld_Some: "arrFld p k = Some xs \<longleftrightarrow> fld p k = Some (JArr xs)"
  by (auto simp: arrFld_def split: option.splits json.splits)

lemma set_insertionSet: "set (insertionSet xs) = set xs"
proof -
  have "set (fold (\<lambda>x acc. if x \<in> set acc then acc else acc @ [x]) xs acc) = set acc \<union> set xs" for acc
    by (induction xs arbitrary: acc) auto
  then show ?thesis by (simp add: insertionSet_def)
qed

lemma distinct_insertionSet: "distinct (insertionSet xs)"
proof -
  have "distinct acc \<Longrightarrow> distinct (fold (\<lambda>x acc. if x \<in> set acc then acc else acc @ [x]) xs acc)" for acc
    by (induction xs arbitrary: acc) auto
  then show ?thesis by (simp add: insertionSet_def)
qed

lemma set_purgeIdsOf:
  "i \<in> set (purgeIdsOf p) \<longleftrightarrow> i \<noteq> [] \<and> (fld p ''id'' = Some (JStr i) \<or> (\<exists>xs. fld p ''ids'' = Some (JArr xs) \<and> JStr i \<in> set xs))"
  by (auto simp: purgeIdsOf_def set_insertionSet neStrs_def set_strsOf arrFld_Some neStrFld_Some split: option.splits)
     (metis arrFld_Some neStrFld_Some option.distinct(1) option.inject)+

lemma dispatch_unwired:
  "operationKind e = Some k \<Longrightarrow> \<not> hookWired S k \<Longrightarrow> dispatch S e w = (Some (UnwiredOperationKindError (kindName k)), w)"
  by (cases k)
     (auto simp: dispatch_def hookWired_def Let_def unwired_def dispatchNodeUpsert_def dispatchEdgeUpsert_def
       dispatchNodeDelete_def dispatchEdgeDelete_def dispatchMarkStale_def dispatchVerbatimUpsert_def
       dispatchTombstone_def dispatchPurge_def dispatchVerbatimBatch_def dispatchVectorMirror_def
       dispatchEmbedBatch_def split: option.split)

lemma edgeTriple_None: "edgeTriple p = None \<longleftrightarrow>
    \<not> (\<exists>s t r. fld p ''sourceId'' = Some (JStr s) \<and> fld p ''targetId'' = Some (JStr t) \<and> fld p ''relation'' = Some (JStr r))"
  by (auto simp: edgeTriple_def strFld_Some [symmetric] split: option.splits)

lemma strFld_None: "strFld p k = None \<longleftrightarrow> \<not> (\<exists>s. fld p k = Some (JStr s))"
  by (metis not_None_eq strFld_Some)

lemma arrFld_None: "arrFld p k = None \<longleftrightarrow> \<not> (\<exists>s. fld p k = Some (JArr s))"
  by (metis not_None_eq arrFld_Some)

lemma neStrFld_None: "neStrFld p k = None \<longleftrightarrow> \<not> (\<exists>s. s \<noteq> [] \<and> fld p k = Some (JStr s))"
  by (metis not_None_eq neStrFld_Some)

lemma purgeIds_Nil:
  "purgeIdsOf p = [] \<longleftrightarrow>
    \<not> (\<exists>i. i \<noteq> [] \<and> (fld p ''id'' = Some (JStr i) \<or> (\<exists>xs. fld p ''ids'' = Some (JArr xs) \<and> JStr i \<in> set xs)))"
  by (metis list.set_intros(1) neq_Nil_conv set_purgeIdsOf empty_iff empty_set)

lemma embed_missing:
  assumes "batchedEmbedder S = Some emb" "storeEmbedBatch S = Some put" "\<not> payloadValid EmbedBatch p"
  shows "\<exists>f. dispatchEmbedBatch S p ws w = missing EmbedBatch f w"
proof (cases "arrFld p ''texts'' = None \<or> arrFld p ''targetNodeIds'' = None")
  case True
  then show ?thesis using assms(1,2) by (auto simp: dispatchEmbedBatch_def split: option.split)
next
  case False
  then obtain ts "is" where a: "arrFld p ''texts'' = Some ts" "arrFld p ''targetNodeIds'' = Some is" by auto
  then have "length (strsOf ts) \<noteq> length (strsOf is)" using assms(3) by (simp add: payloadValid_def arrFld_Some)
  then show ?thesis using assms(1,2) a by (auto simp: dispatchEmbedBatch_def Let_def)
qed

lemma dispatch_missing:
  assumes "operationKind e = Some k" "hookWired S k" "\<not> payloadValid k (payloadOf e)"
  shows "\<exists>f. dispatch S e w = (Some (MissingPayloadError (kindName k) f), w)"
proof -
  let ?p = "payloadOf e"
  have p: "(case payload e of None \<Rightarrow> [] | Some p \<Rightarrow> p) = ?p" by (simp add: payloadOf_def)
  show ?thesis
  proof (cases k)
    case NodeUpsert
    then show ?thesis using assms
      by (auto simp: dispatch_def Let_def p dispatchNodeUpsert_def hookWired_def payloadValid_def missing_def)
  next
    case EdgeUpsert
    then show ?thesis using assms
      by (auto simp: dispatch_def Let_def p dispatchEdgeUpsert_def hookWired_def payloadValid_def missing_def)
  next
    case NodeDelete
    have "strFld ?p ''id'' = None" using assms(3) NodeDelete by (simp add: payloadValid_def strFld_None)
    then show ?thesis using assms(1,2) NodeDelete
      by (auto simp: dispatch_def Let_def p dispatchNodeDelete_def hookWired_def missing_def)
  next
    case EdgeDelete
    have "edgeTriple ?p = None" using assms(3) EdgeDelete by (simp add: payloadValid_def edgeTriple_None)
    then show ?thesis using assms(1,2) EdgeDelete
      by (auto simp: dispatch_def Let_def p dispatchEdgeDelete_def hookWired_def missing_def)
  next
    case NodeMarkStale
    have "arrFld ?p ''ids'' = None" using assms(3) NodeMarkStale by (simp add: payloadValid_def arrFld_None)
    then show ?thesis using assms(1,2) NodeMarkStale
      by (auto simp: dispatch_def Let_def p dispatchMarkStale_def hookWired_def missing_def)
  next
    case VerbatimTombstone
    have "neStrFld ?p ''id'' = None" using assms(3) VerbatimTombstone by (simp add: payloadValid_def neStrFld_None)
    then show ?thesis using assms(1,2) VerbatimTombstone
      by (auto simp: dispatch_def Let_def p dispatchTombstone_def hookWired_def missing_def)
  next
    case VerbatimPurge
    have "purgeIdsOf ?p = []" using assms(3) VerbatimPurge by (simp add: payloadValid_def purgeIds_Nil)
    then show ?thesis using assms(1,2) VerbatimPurge
      by (auto simp: dispatch_def Let_def p dispatchPurge_def hookWired_def missing_def)
  next
    case VerbatimUpsertBatch
    have "arrFld ?p ''items'' = None" using assms(3) VerbatimUpsertBatch by (simp add: payloadValid_def arrFld_None)
    then show ?thesis using assms(1,2) VerbatimUpsertBatch
      by (auto simp: dispatch_def Let_def p dispatchVerbatimBatch_def hookWired_def missing_def)
  next
    case EmbedBatch
    then show ?thesis using assms embed_missing [of S _ _ ?p "workspace e" w]
      by (auto simp: dispatch_def Let_def p hookWired_def missing_def)
  qed (use assms in \<open>simp_all add: payloadValid_def\<close>)
qed



section \<open>Both directions of an edge\<close>

text \<open>Note: replaying an edge that is not explicitly one-directional writes the edge and then its
  reverse, with source and target exchanged and every other field kept; the dispatch succeeds
  only if both writes did, and an error of the second write is the error of the dispatch, so a
  half-applied edge is never counted as replicated.\<close>

theorem edge_upsert_both_directions:
  assumes "operationKind e = Some EdgeUpsert" "payload e = Some p" "addEdge S = Some f"
    and "payloadValid EdgeUpsert p" "fld p ''bidirectional'' \<noteq> Some (JBool False)"
  shows "fld (reversePayload p) ''sourceId'' = fld p ''targetId'' \<and> fld (reversePayload p) ''targetId'' = fld p ''sourceId'' \<and>
    (\<forall>k. k \<noteq> ''sourceId'' \<and> k \<noteq> ''targetId'' \<longrightarrow> fld (reversePayload p) k = fld p k) \<and>
    (\<forall>w w'. dispatch S e w = (None, w') \<longleftrightarrow>
       (\<exists>w1. f p (workspace e) w = (None, w1) \<and> f (reversePayload p) (workspace e) w1 = (None, w'))) \<and>
    (\<forall>w w1 err w'. f p (workspace e) w = (None, w1) \<and> f (reversePayload p) (workspace e) w1 = (Some err, w') \<longrightarrow>
       dispatch S e w = (Some err, w'))"
proof -
  obtain s t where st: "fld p ''sourceId'' = Some s" "fld p ''targetId'' = Some t"
    using assms(4) by (cases "fld p ''sourceId''"; cases "fld p ''targetId''") (auto simp: payloadValid_def)
  have d: "dispatch S e w = andThen (f p (workspace e) w) (\<lambda>w. f (reversePayload p) (workspace e) w)" for w
    using assms by (simp add: dispatch_def Let_def dispatchEdgeUpsert_def payloadValid_def)
  have "fld (reversePayload p) ''sourceId'' = fld p ''targetId''" "fld (reversePayload p) ''targetId'' = fld p ''sourceId''"
    "\<forall>k. k \<noteq> ''sourceId'' \<and> k \<noteq> ''targetId'' \<longrightarrow> fld (reversePayload p) k = fld p k"
    using st by (simp_all add: reversePayload_def fld_setFld)
  then show ?thesis unfolding d by (auto simp: andThen_def split: prod.splits option.splits)
qed

definition edgeLog :: "((json option \<times> json option) list, unit) Substrates" where
  "edgeLog = noSubstrates\<lparr>addEdge := Some (\<lambda>p ws w. (None, w @ [(fld p ''sourceId'', fld p ''targetId'')]))\<rparr>"

theorem edge_upsert_both_directions_witness:
  "let p = [(''sourceId'', JStr ''a''), (''targetId'', JStr ''b''), (''relation'', JStr ''uses'')]
   in dispatch edgeLog (sampleEntry ''q'' ''w'' EdgeUpsert p) [] =
        (None, [(Some (JStr ''a''), Some (JStr ''b'')), (Some (JStr ''b''), Some (JStr ''a''))]) \<and>
      fld (reversePayload p) ''relation'' = Some (JStr ''uses'')"
proof -
  let ?p = "[(''sourceId'', JStr ''a''), (''targetId'', JStr ''b''), (''relation'', JStr ''uses'')]"
  have "dispatch edgeLog (sampleEntry ''q'' ''w'' EdgeUpsert ?p) [] =
        (None, [(Some (JStr ''a''), Some (JStr ''b'')), (Some (JStr ''b''), Some (JStr ''a''))])" by code_simp
  then show ?thesis
    using edge_upsert_both_directions [where e = "sampleEntry ''q'' ''w'' EdgeUpsert ?p" and p = ?p and S = edgeLog and
        f = "\<lambda>p ws w. (None, w @ [(fld p ''sourceId'', fld p ''targetId'')])"]
    by (simp add: Let_def sampleEntry_def edgeLog_def payloadValid_def fld_def)
qed

section \<open>Content witnesses of self-heal\<close>

lemma outcome_of_verified: "verified x \<Longrightarrow> \<exists>r. x = \<lparr>verified = True, reason = r\<rparr>" for x :: VerifyOutcome
  by (cases x) simp

lemma verified_body:
  assumes "verified (verifyApplied sha1Hex S e w)" "operationKind e = Some k"
  shows "\<exists>r. verifyBody sha1Hex S k (payloadOf e) (workspace e) w = outcome True r"
  using assms by (auto simp: verifyApplied_def payloadOf_def outcome_def outcome_of_verified split: sum.splits)

lemma outcome_inject [simp]: "outcome b r = outcome b' r' \<longleftrightarrow> b = b' \<and> r = r'"
  by (simp add: outcome_def)

lemma outcome_not_Inl [simp]: "Inl err \<noteq> outcome b r" "outcome b r \<noteq> Inl err"
  by (simp_all add: outcome_def)

lemma probeAll_True:
  "probeAll get bad xs yes = outcome True r \<Longrightarrow> x \<in> set xs \<Longrightarrow> \<exists>v. get x = Inr v \<and> bad x v = None"
  by (induction xs) (auto split: sum.splits option.splits)

lemma verify_node_upsert:
  assumes "verifyNodeUpsert S p ws w = outcome True r"
  shows "\<exists>i. fld p ''id'' = Some (JStr i) \<and>
    ((\<exists>f s. f \<in> set NODE_CONTENT_WITNESS_FIELDS \<and> fld p f = Some (JStr s)) \<longrightarrow>
      (\<exists>get node. getNode S = Some get \<and> get i ws w = Inr (Some node) \<and>
        (\<forall>f s. f \<in> set NODE_CONTENT_WITNESS_FIELDS \<and> fld p f = Some (JStr s) \<longrightarrow> fieldText node f = s)))"
proof -
  obtain i where i: "neStrFld p ''id'' = Some i"
    using assms by (auto simp: verifyNodeUpsert_def split: option.splits)
  have "\<exists>get node. getNode S = Some get \<and> get i ws w = Inr (Some node) \<and>
        (\<forall>f s. f \<in> set NODE_CONTENT_WITNESS_FIELDS \<and> fld p f = Some (JStr s) \<longrightarrow> fieldText node f = s)"
    if "f0 \<in> set NODE_CONTENT_WITNESS_FIELDS" "fld p f0 = Some (JStr s0)" for f0 s0
  proof -
    let ?fs = "filter (\<lambda>f. strFld p f \<noteq> None) NODE_CONTENT_WITNESS_FIELDS"
    have ne: "?fs \<noteq> []" using that by (auto simp: filter_empty_conv strFld_Some [symmetric])
    then obtain get node where g: "getNode S = Some get" "get i ws w = Inr (Some node)"
      "list_all (\<lambda>f. Some (fieldText node f) = strFld p f) ?fs"
      using assms i by (auto simp: verifyNodeUpsert_def Let_def split: option.splits sum.splits if_splits)
    then have "fieldText node f = s" if "f \<in> set NODE_CONTENT_WITNESS_FIELDS" "fld p f = Some (JStr s)" for f s
      using that by (auto simp: list_all_iff strFld_Some [symmetric])
    then show ?thesis using g by blast
  qed
  then show ?thesis using i by (auto simp: neStrFld_Some)
qed

lemma verify_edge_upsert:
  assumes "verifyEdgeUpsert S p ws w = outcome True r"
  shows "\<exists>has s t rel. hasEdge S = Some has \<and> edgeTriple p = Some (s, t, rel) \<and> has s t rel ws w = Inr True \<and>
    (fld p ''bidirectional'' \<noteq> Some (JBool False) \<longrightarrow> has t s rel ws w = Inr True)"
  using assms by (auto simp: verifyEdgeUpsert_def split: option.splits sum.splits bool.splits if_splits)

lemma verify_verbatim_upsert:
  assumes "verifyVerbatimUpsert sha1Hex S p ws w = outcome True r" "expectedVerbatimHash sha1Hex p = Some h" "h \<noteq> []"
  shows "\<exists>i get row. fld p ''id'' = Some (JStr i) \<and> getVerbatim S = Some get \<and> get i ws w = Inr (Some row) \<and>
    storedVerbatimHash sha1Hex row = h"
  using assms
  by (auto simp: verifyVerbatimUpsert_def neStrFld_Some split: option.splits sum.splits bool.splits if_splits list.splits)

lemma verify_purge:
  assumes "verifyPurge S p ws w = outcome True r"
  shows "\<exists>get. getVerbatim S = Some get \<and> (\<forall>i. i \<in> set (purgeIdsOf p) \<longrightarrow> get i ws w = Inr None)"
  using assms
  by (auto simp: verifyPurge_def split: option.splits sum.splits if_splits dest!: probeAll_True)

text \<open>Note: a positive self-heal verdict is backed by what the substrate holds. For a node write that
  carries content, the stored node agrees with the payload on every content field it names; for
  a verbatim write, the stored content hash is the one the payload would produce; for an edge,
  the forward edge is there and, unless the row is one-directional, the reverse too; for a node
  delete the node is absent, and for a purge every listed id is absent. Existence alone never
  confirms a write that carries content.\<close>

theorem self_heal_verdict_sound:
  assumes "verified (verifyApplied sha1Hex S e w)" "operationKind e = Some k" "payload e = Some p"
  shows "(k = NodeUpsert \<and> (\<exists>f s. f \<in> set NODE_CONTENT_WITNESS_FIELDS \<and> fld p f = Some (JStr s)) \<longrightarrow>
      (\<exists>i get node. fld p ''id'' = Some (JStr i) \<and> getNode S = Some get \<and> get i (workspace e) w = Inr (Some node) \<and>
        (\<forall>f s. f \<in> set NODE_CONTENT_WITNESS_FIELDS \<and> fld p f = Some (JStr s) \<longrightarrow> fieldText node f = s))) \<and>
    (\<forall>h. k = VerbatimUpsert \<and> expectedVerbatimHash sha1Hex p = Some h \<and> h \<noteq> [] \<longrightarrow>
      (\<exists>i get row. fld p ''id'' = Some (JStr i) \<and> getVerbatim S = Some get \<and> get i (workspace e) w = Inr (Some row) \<and>
        storedVerbatimHash sha1Hex row = h)) \<and>
    (k = EdgeUpsert \<longrightarrow>
      (\<exists>has s t rel. hasEdge S = Some has \<and> edgeTriple p = Some (s, t, rel) \<and> has s t rel (workspace e) w = Inr True \<and>
        (fld p ''bidirectional'' \<noteq> Some (JBool False) \<longrightarrow> has t s rel (workspace e) w = Inr True))) \<and>
    (k = NodeDelete \<longrightarrow>
      (\<exists>i has. fld p ''id'' = Some (JStr i) \<and> hasNode S = Some has \<and> has i (workspace e) w = Inr False)) \<and>
    (k = VerbatimPurge \<longrightarrow>
      (\<exists>get. getVerbatim S = Some get \<and> (\<forall>i. i \<in> set (purgeIdsOf p) \<longrightarrow> get i (workspace e) w = Inr None)))"
proof -
  obtain r where r: "verifyBody sha1Hex S k p (workspace e) w = outcome True r"
    using verified_body [OF assms(1,2)] assms(3) by (auto simp: payloadOf_def)
  have del: "k = NodeDelete \<Longrightarrow> \<exists>i has. fld p ''id'' = Some (JStr i) \<and> hasNode S = Some has \<and> has i (workspace e) w = Inr False"
    using r by (auto simp: verifyBody_def verifyNodeDelete_def neStrFld_Some split: option.splits sum.splits)
  have node: "k = NodeUpsert \<Longrightarrow> \<exists>i. fld p ''id'' = Some (JStr i) \<and>
    ((\<exists>f s. f \<in> set NODE_CONTENT_WITNESS_FIELDS \<and> fld p f = Some (JStr s)) \<longrightarrow>
      (\<exists>get node. getNode S = Some get \<and> get i (workspace e) w = Inr (Some node) \<and>
        (\<forall>f s. f \<in> set NODE_CONTENT_WITNESS_FIELDS \<and> fld p f = Some (JStr s) \<longrightarrow> fieldText node f = s)))"
    using r by (intro verify_node_upsert) (simp add: verifyBody_def)
  have "k = EdgeUpsert \<Longrightarrow> verifyEdgeUpsert S p (workspace e) w = outcome True r"
    "k = VerbatimUpsert \<Longrightarrow> verifyVerbatimUpsert sha1Hex S p (workspace e) w = outcome True r"
    "k = VerbatimPurge \<Longrightarrow> verifyPurge S p (workspace e) w = outcome True r"
    using r by (simp_all add: verifyBody_def)
  then show ?thesis
    using node del verify_edge_upsert [of S p "workspace e" w r] verify_verbatim_upsert [of sha1Hex S p "workspace e" w r]
      verify_purge [of S p "workspace e" w r] by blast
qed

definition contentGraph :: "(obj, unit) Substrates" where
  "contentGraph = noSubstrates\<lparr>getNode := Some (\<lambda>i ws w. Inr (if fld w ''id'' = Some (JStr i) then Some w else None))\<rparr>"

theorem self_heal_verdict_sound_witness:
  "let p = [(''id'', JStr ''n''), (''content'', JStr ''new'')]; e = sampleEntry ''q'' ''w'' NodeUpsert p
   in verified (verifyApplied (\<lambda>s. s) contentGraph e p) \<and>
      \<not> verified (verifyApplied (\<lambda>s. s) contentGraph e [(''id'', JStr ''n''), (''content'', JStr ''old'')]) \<and>
      fieldText p ''content'' = ''new''"
proof -
  let ?p = "[(''id'', JStr ''n''), (''content'', JStr ''new'')]"
  have v: "verified (verifyApplied (\<lambda>s. s) contentGraph (sampleEntry ''q'' ''w'' NodeUpsert ?p) ?p)"
    "\<not> verified (verifyApplied (\<lambda>s. s) contentGraph (sampleEntry ''q'' ''w'' NodeUpsert ?p) [(''id'', JStr ''n''), (''content'', JStr ''old'')])"
    by code_simp+
  have c: "''content'' \<in> set NODE_CONTENT_WITNESS_FIELDS" "fld ?p ''content'' = Some (JStr ''new'')"
    by (simp_all add: NODE_CONTENT_WITNESS_FIELDS_def fld_def)
  obtain i get node where g: "getNode contentGraph = Some get" "get i (Some ''w'') ?p = Inr (Some node)" "fieldText node ''content'' = ''new''"
    using self_heal_verdict_sound [OF v(1), of NodeUpsert ?p] c by (auto simp: sampleEntry_def)
  then have "node = ?p" by (auto simp: contentGraph_def split: if_splits)
  with g(3) v show ?thesis by (simp add: Let_def)
qed

end
