(* ===== verification/OutboxSettle.thy ===== *)
theory OutboxSettle
  imports OutboxReplicator OutboxStoreProps
begin

text \<open>
  The hot lane (\<open>outbox/hotLane.ts\<close>): how a single write and a bulk write are recorded ahead
  of their graph commit, flipped ready after it, and retracted or compensated when the commit
  fails; and the settling of the \<open>pending_commit\<close> rows nobody finished
  (\<open>outbox/pendingCommit.ts\<close>, with \<open>revisionOf\<close> of \<open>engines/graphShared/revision.ts\<close>).

  The store is \<open>SqliteOutboxStore\<close>, which implements every optional method the two files probe
  (\<open>markCommitted\<close>, \<open>listPendingCommit\<close>, \<open>removeIfPending\<close>, \<open>batchRecord\<close>), so the
  \<open>typeof store.m === 'function'\<close> guards hold. \<open>randomUUID()\<close> is an argument. The graph read
  of the settle pass is a parameter \<open>rd n id ws\<close>, the answer to the \<open>n\<close>-th read of the
  pass: the graph may change between two reads. The clock of one pass is one instant.
\<close>

section \<open>\<open>engines/graphShared/revision.ts\<close>\<close>

definition revisionOf :: "obj option \<Rightarrow> int" where
  "revisionOf node =
     (case node of None \<Rightarrow> 0
      | Some n \<Rightarrow> (case fld n ''revision'' of Some (JNum r) \<Rightarrow> r | _ \<Rightarrow> 0))"

definition payloadRevision :: "obj \<Rightarrow> int option" where
  "payloadRevision p =
     (case fld p ''revision'' of Some (JNum r) \<Rightarrow> (if r \<ge> 1 then Some r else None) | _ \<Rightarrow> None)"

section \<open>\<open>outbox/hotLane.ts\<close>\<close>

record HotWriteSpec =
  hwWorkspace :: string
  hwOperationKind :: OutboxOperationKind
  hwPayload :: obj
  hwInitiator :: "string option"
  hwOperation :: "string option"
  hwPendingCommit :: "bool option"

datatype HotError = HotWorkspaceRequired OutboxOperationKind | HotStore StoreError

definition initialStatus :: "HotWriteSpec \<Rightarrow> OutboxStatus" where
  "initialStatus spec = (if hwPendingCommit spec = Some True then PendingCommit else Pending)"

definition hotEntry :: "string \<Rightarrow> ms \<Rightarrow> HotWriteSpec \<Rightarrow> OutboxEntry" where
  "hotEntry uuid now spec = \<lparr>
     entryId = uuid,
     operation = (case hwOperation spec of None \<Rightarrow> kindName (hwOperationKind spec) | Some x \<Rightarrow> x),
     initiator = (case hwInitiator spec of None \<Rightarrow> ''system:hot-lane'' | Some x \<Rightarrow> x),
     createdAt = now, updatedAt = now,
     steps = [\<lparr>stepKind = kindName (hwOperationKind spec), stepStatus = StepDone,
               stepPayload = Some (hwPayload spec), stepError = None, startedAt = None, finishedAt = None\<rparr>],
     completed = False,
     sequenceId = None,
     workspace = Some (hwWorkspace spec),
     operationKind = Some (hwOperationKind spec),
     payload = Some (hwPayload spec),
     status = Some (initialStatus spec),
     attempts = Some 0,
     lastError = None, replicatedAt = None, failedAt = None, nextAttemptAt = None,
     firstTransientAt = None, transientRetries = None, deadReason = None\<rparr>"

definition commitHotRows :: "Store option \<Rightarrow> string option list \<Rightarrow> ms \<Rightarrow> Store option" where
  "commitHotRows store ids now =
     (let real = filter (\<lambda>i. i \<noteq> []) (List.map_filter (\<lambda>i. i) ids)
      in case store of None \<Rightarrow> None
         | Some st \<Rightarrow> Some (if real = [] then st else snd (markCommitted st real now)))"

definition recordHotWrite ::
  "Store \<Rightarrow> string \<Rightarrow> ms \<Rightarrow> HotWriteSpec \<Rightarrow> HotError + OutboxEntry \<times> Store" where
  "recordHotWrite st uuid now spec =
     (if hwWorkspace spec = [] then Inl (HotWorkspaceRequired (hwOperationKind spec))
      else case recordEntry st (hotEntry uuid now spec) of
             Inl err \<Rightarrow> Inl (HotStore err)
           | Inr st' \<Rightarrow> Inr (hotEntry uuid now spec, st'))"

fun hotEntries ::
  "(nat \<Rightarrow> string) \<Rightarrow> nat \<Rightarrow> ms \<Rightarrow> HotWriteSpec list \<Rightarrow> HotError + OutboxEntry list" where
  "hotEntries uuid k now [] = Inr []"
| "hotEntries uuid k now (spec # specs) =
     (if hwWorkspace spec = [] then Inl (HotWorkspaceRequired (hwOperationKind spec))
      else case hotEntries uuid (k + 1) now specs of
             Inl err \<Rightarrow> Inl err
           | Inr es \<Rightarrow> Inr (hotEntry (uuid k) now spec # es))"

definition recordHotWriteBatch ::
  "Store \<Rightarrow> (nat \<Rightarrow> string) \<Rightarrow> ms \<Rightarrow> HotWriteSpec list \<Rightarrow> HotError + OutboxEntry list \<times> Store" where
  "recordHotWriteBatch st uuid now specs =
     (if specs = [] then Inr ([], st)
      else case hotEntries uuid 0 now specs of
             Inl err \<Rightarrow> Inl err
           | Inr es \<Rightarrow> (case batchRecord st es of Inl err \<Rightarrow> Inl (HotStore err) | Inr st' \<Rightarrow> Inr (es, st')))"

definition retractHotWriteOrCompensate ::
  "Store \<Rightarrow> string \<Rightarrow> HotWriteSpec option \<Rightarrow> string \<Rightarrow> ms \<Rightarrow> HotError + Store" where
  "retractHotWriteOrCompensate st i compensating uuid now =
     (let (removed, st') = removeIfPending st i
      in case compensating of
           None \<Rightarrow> Inr st'
         | Some spec \<Rightarrow>
             if removed then Inr st'
             else (case recordHotWrite st' uuid now spec of Inl err \<Rightarrow> Inl err | Inr (e, st'') \<Rightarrow> Inr st''))"

section \<open>\<open>outbox/pendingCommit.ts\<close>\<close>

text \<open>
  JavaScript's \<open>===\<close> between a field of a parsed payload and a field of a node read from the
  graph: primitives compare by value, two separately built arrays or objects never are
  identical, and an absent field is \<open>undefined\<close>.
\<close>

fun strictEq :: "json option \<Rightarrow> json option \<Rightarrow> bool" where
  "strictEq None None = True"
| "strictEq (Some JNull) (Some JNull) = True"
| "strictEq (Some (JBool a)) (Some (JBool b)) = (a = b)"
| "strictEq (Some (JNum a)) (Some (JNum b)) = (a = b)"
| "strictEq (Some (JStr a)) (Some (JStr b)) = (a = b)"
| "strictEq _ _ = False"

definition rowCommitted :: "obj option \<Rightarrow> obj option \<Rightarrow> bool" where
  "rowCommitted pay node =
     (case node of None \<Rightarrow> False
      | Some n \<Rightarrow>
          (let p = (case pay of None \<Rightarrow> [] | Some q \<Rightarrow> q)
           in case fld p ''revision'' of
                Some (JNum r) \<Rightarrow> revisionOf node \<ge> r
              | _ \<Rightarrow> list_all (\<lambda>k. fld p k = None \<or> strictEq (fld p k) (fld n k)) [''type'', ''label'', ''content'']))"

definition supersedeEdgeRow :: "OutboxEntry \<Rightarrow> (string \<times> string) option" where
  "supersedeEdgeRow e =
     (if operationKind e \<noteq> Some EdgeUpsert then None
      else case payload e of None \<Rightarrow> None
           | Some p \<Rightarrow>
               if fld p ''relation'' = Some (JStr ''supersedes'')
               then (case (strFld p ''sourceId'', strFld p ''targetId'') of
                       (Some s, Some t) \<Rightarrow> Some (s, t) | _ \<Rightarrow> None)
               else None)"

record SettleReport =
  flipped :: nat
  retracted :: nat
  waiting :: nat
  unreachable :: nat

record SettlePass =
  spStore :: Store
  spDown :: "string list"
  spReport :: SettleReport
  spReads :: nat

type_synonym reader = "nat \<Rightarrow> string \<Rightarrow> string \<Rightarrow> ReplayError + obj option"

text \<open>The node whose stored state decides a row, \<open>None\<close> when there is nothing to ask.\<close>

definition askedId :: "OutboxEntry \<Rightarrow> string option" where
  "askedId e =
     (case supersedeEdgeRow e of
        Some (s, t) \<Rightarrow> Some t
      | None \<Rightarrow> if operationKind e = Some NodeUpsert
                then (case payload e of None \<Rightarrow> None | Some p \<Rightarrow> strFld p ''id'') else None)"

definition showsCommit :: "OutboxEntry \<Rightarrow> obj option \<Rightarrow> bool" where
  "showsCommit e node =
     (case supersedeEdgeRow e of
        Some (s, t) \<Rightarrow> (case node of None \<Rightarrow> False | Some n \<Rightarrow> fld n ''supersededBy'' = Some (JStr s))
      | None \<Rightarrow> rowCommitted (payload e) node)"

definition settleFlip :: "ms \<Rightarrow> OutboxEntry \<Rightarrow> SettlePass \<Rightarrow> SettlePass" where
  "settleFlip now e P =
     (let (n, st') = markCommitted (spStore P) [entryId e] now
      in P\<lparr>spStore := st', spReport := (spReport P)\<lparr>flipped := flipped (spReport P) + n\<rparr>\<rparr>)"

definition settleWait :: "SettlePass \<Rightarrow> SettlePass" where
  "settleWait P = P\<lparr>spReport := (spReport P)\<lparr>waiting := waiting (spReport P) + 1\<rparr>\<rparr>"

definition settleUnreachable :: "SettlePass \<Rightarrow> SettlePass" where
  "settleUnreachable P = P\<lparr>spReport := (spReport P)\<lparr>unreachable := unreachable (spReport P) + 1\<rparr>\<rparr>"

definition retract :: "OutboxEntry \<Rightarrow> SettlePass \<Rightarrow> SettlePass" where
  "retract e P =
     (let (b, st') = removeIfPending (spStore P) (entryId e)
      in P\<lparr>spStore := st',
           spReport := (spReport P)\<lparr>retracted := retracted (spReport P) + (if b then 1 else 0)\<rparr>\<rparr>)"

definition settleRow :: "reader option \<Rightarrow> int \<Rightarrow> ms \<Rightarrow> OutboxEntry \<Rightarrow> SettlePass \<Rightarrow> SettlePass" where
  "settleRow rd graceMs now e P =
     (let ws = (case workspace e of None \<Rightarrow> [] | Some w \<Rightarrow> w);
          fresh = now - createdAt e < graceMs
      in if List.member (spDown P) ws then settleUnreachable P
         else case (askedId e, rd) of
                (Some i, Some g) \<Rightarrow>
                  (let P' = P\<lparr>spReads := spReads P + 1\<rparr>
                   in case g (spReads P) i ws of
                        Inl err \<Rightarrow> settleUnreachable (P'\<lparr>spDown := ws # spDown P'\<rparr>)
                      | Inr node \<Rightarrow>
                          if showsCommit e node then settleFlip now e P'
                          else if fresh then settleWait P' else retract e P')
              | _ \<Rightarrow> if fresh then settleWait P else settleFlip now e P)"

definition PENDING_COMMIT_LIMIT :: int where
  "PENDING_COMMIT_LIMIT = 500"

definition settlePendingCommits ::
  "reader option \<Rightarrow> int \<Rightarrow> ms \<Rightarrow> Store \<Rightarrow> SettleReport \<times> Store" where
  "settlePendingCommits rd graceMs now st =
     (let P = fold (settleRow rd graceMs now) (listPendingCommit st PENDING_COMMIT_LIMIT)
                \<lparr>spStore = st, spDown = [],
                 spReport = \<lparr>flipped = 0, retracted = 0, waiting = 0, unreachable = 0\<rparr>, spReads = 0\<rparr>
      in (spReport P, spStore P))"

record PendingCommitSweepState =
  nextAt :: ms
  failures :: nat

definition newPendingCommitSweepState :: PendingCommitSweepState where
  "newPendingCommitSweepState = \<lparr>nextAt = 0, failures = 0\<rparr>"

definition sweepBackoff :: "(nat \<Rightarrow> int \<Rightarrow> int) \<Rightarrow> DispositionEnv" where
  "sweepBackoff jit = \<lparr>maxAttempts = 0, transientCeilingMs = 0, transientBaseMs = 500, transientCapMs = 60000,
     classify = None, haltBatch = None, jitter = jit\<rparr>"

definition sweepPendingCommits ::
  "reader option \<Rightarrow> int \<Rightarrow> int \<Rightarrow> (nat \<Rightarrow> int \<Rightarrow> int) \<Rightarrow> nat \<Rightarrow> ms \<Rightarrow> PendingCommitSweepState \<Rightarrow> Store \<Rightarrow>
   PendingCommitSweepState \<times> Store" where
  "sweepPendingCommits rd graceMs interval jit draw now s st =
     (if now < nextAt s then (s, st)
      else let (rep, st') = settlePendingCommits rd graceMs now st
           in if unreachable rep > 0
              then (\<lparr>nextAt = now + max interval (transientBackoffMs (sweepBackoff jit) draw (failures s + 1)),
                     failures = failures s + 1\<rparr>, st')
              else (\<lparr>nextAt = now + interval, failures = 0\<rparr>, st'))"

section \<open>What a settle pass may do to a row\<close>

text \<open>The evidence the code asks for before it flips a row ready, and before it retracts one.\<close>

definition flipEvidence :: "reader option \<Rightarrow> int \<Rightarrow> ms \<Rightarrow> Row \<Rightarrow> bool" where
  "flipEvidence rd graceMs now r \<longleftrightarrow>
     (case (askedId (rowToEntry r), rd) of
        (Some i, Some g) \<Rightarrow> (\<exists>n node. g n i (r_workspace r) = Inr node \<and> showsCommit (rowToEntry r) node)
      | _ \<Rightarrow> graceMs \<le> now - r_createdAt r)"

definition retractEvidence :: "reader option \<Rightarrow> int \<Rightarrow> ms \<Rightarrow> Row \<Rightarrow> bool" where
  "retractEvidence rd graceMs now r \<longleftrightarrow>
     graceMs \<le> now - r_createdAt r \<and>
     (case (askedId (rowToEntry r), rd) of
        (Some i, Some g) \<Rightarrow> (\<exists>n node. g n i (r_workspace r) = Inr node \<and> \<not> showsCommit (rowToEntry r) node)
      | _ \<Rightarrow> False)"

definition settledAt :: "reader option \<Rightarrow> int \<Rightarrow> ms \<Rightarrow> Row option \<Rightarrow> Row option \<Rightarrow> bool" where
  "settledAt rd graceMs now old new \<longleftrightarrow>
     new = old \<or>
     (\<exists>r. old = Some r \<and> r_status r = PendingCommit \<and>
        (new = Some (r\<lparr>r_status := Pending, r_updatedAt := now\<rparr>) \<and> flipEvidence rd graceMs now r \<or>
         new = None \<and> retractEvidence rd graceMs now r))"

lemma settledAt_frame:
  "settledAt rd g now None y \<longleftrightarrow> y = None"
  by (auto simp: settledAt_def)

lemma markCommitted_one:
  "snd (markCommitted st [i] now) = updRow st i (commitRow now)"
  by (simp add: split_beta Let_def)

lemma markCommitted_get:
  "getRow (snd (markCommitted st [i] now)) j = (if j = i then map_option (commitRow now) (getRow st j) else getRow st j)"
  unfolding markCommitted_one by (rule getRow_updRow) simp

lemma settleFlip_store [simp]:
  "spStore (settleFlip now e P) = snd (markCommitted (spStore P) [entryId e] now)"
  "spDown (settleFlip now e P) = spDown P"
  by (simp_all add: settleFlip_def split_beta Let_def)

lemma settlePass_store [simp]:
  "spStore (settleWait P) = spStore P" "spStore (settleUnreachable P) = spStore P"
  "spDown (settleWait P) = spDown P" "spDown (settleUnreachable P) = spDown P"
  "spStore (retract e P) = snd (removeIfPending (spStore P) (entryId e))"
  "spDown (retract e P) = spDown P"
  by (simp_all add: settleWait_def settleUnreachable_def retract_def split_beta Let_def)

text \<open>One row of a pass: the store is left alone, or the row is flipped or retracted on evidence.\<close>

lemma settleRow_cases:
  fixes P :: SettlePass and rd :: "reader option" and graceMs :: int and now :: ms
  assumes "e = rowToEntry r"
  defines "st' \<equiv> spStore (settleRow rd graceMs now e P)"
  shows "st' = spStore P \<or>
    st' = snd (markCommitted (spStore P) [r_id r] now) \<and> flipEvidence rd graceMs now r \<or>
    st' = snd (removeIfPending (spStore P) (r_id r)) \<and> retractEvidence rd graceMs now r"
proof (cases "List.member (spDown P) (r_workspace r)")
  case True
  then show ?thesis by (simp add: assms settleRow_def Let_def)
next
  case up: False
  show ?thesis
  proof (cases "\<exists>i g. askedId e = Some i \<and> rd = Some g")
    case True
    then obtain i g where ig: "askedId e = Some i" "rd = Some g" by blast
    show ?thesis
    proof (cases "g (spReads P) i (r_workspace r)")
      case (Inl err)
      then show ?thesis using up ig by (simp add: assms settleRow_def Let_def)
    next
      case (Inr node)
      then show ?thesis using up ig
        by (auto simp: assms settleRow_def flipEvidence_def retractEvidence_def Let_def simp del: markCommitted.simps)
    qed
  next
    case False
    then show ?thesis using up
      by (auto simp: assms settleRow_def flipEvidence_def Let_def simp del: markCommitted.simps split: option.splits)
  qed
qed

lemma commitRow_again [simp]:
  "commitRow now (r\<lparr>r_status := Pending, r_updatedAt := now\<rparr>) = r\<lparr>r_status := Pending, r_updatedAt := now\<rparr>"
  by (simp add: commitRow_def)

lemma settleRow_keeps:
  assumes inv: "store_inv (spStore P)" "\<forall>j. settledAt rd graceMs now (getRow st j) (getRow (spStore P) j)"
    and row: "getRow st (r_id r) = Some r" "r_status r = PendingCommit"
  shows "store_inv (spStore (settleRow rd graceMs now (rowToEntry r) P)) \<and>
    (\<forall>j. settledAt rd graceMs now (getRow st j) (getRow (spStore (settleRow rd graceMs now (rowToEntry r) P)) j))"
proof -
  let ?st' = "spStore (settleRow rd graceMs now (rowToEntry r) P)"
  have at: "settledAt rd graceMs now (Some r) (getRow (spStore P) (r_id r))"
    using inv(2) row(1) by metis
  consider "?st' = spStore P"
    | (flip) "?st' = snd (markCommitted (spStore P) [r_id r] now)" "flipEvidence rd graceMs now r"
    | (gone) "?st' = snd (removeIfPending (spStore P) (r_id r))" "retractEvidence rd graceMs now r"
    using settleRow_cases [OF refl, of rd graceMs now r P] by blast
  then show ?thesis
  proof cases
    case 1
    then show ?thesis using inv by simp
  next
    case flip
    have "settledAt rd graceMs now (Some r) (map_option (commitRow now) (getRow (spStore P) (r_id r)))"
      using at flip(2) row(2) by (auto simp: settledAt_def commitRow_def)
    then have "\<forall>j. settledAt rd graceMs now (getRow st j) (getRow ?st' j)"
      unfolding flip(1) markCommitted_get using inv(2) row(1) by simp
    then show ?thesis using inv(1) flip(1) markCommitted_inv by metis
  next
    case gone
    have "store_inv ?st'" using gone(1) inv(1) store_step_inv [OF store_step.retract_step] by metis
    moreover have "getRow ?st' j = getRow (spStore P) j \<or> j = r_id r \<and> getRow ?st' j = None" for j
      unfolding gone(1) retract_eq [OF inv(1)] by (auto simp: removeRow_get split: option.splits)
    ultimately show ?thesis
      using inv(2) gone(2) row unfolding settledAt_def by metis
  qed
qed

lemma settle_fold_keeps:
  assumes "store_inv (spStore P)" "\<forall>j. settledAt rd graceMs now (getRow st j) (getRow (spStore P) j)"
    and "\<forall>r\<in>set rs. getRow st (r_id r) = Some r \<and> r_status r = PendingCommit"
  shows "store_inv (spStore (fold (settleRow rd graceMs now) (map rowToEntry rs) P)) \<and>
    (\<forall>j. settledAt rd graceMs now (getRow st j)
       (getRow (spStore (fold (settleRow rd graceMs now) (map rowToEntry rs) P)) j))"
  using assms
proof (induction rs arbitrary: P)
  case (Cons r rs)
  then show ?case using settleRow_keeps [of P rd graceMs now st r] by simp
qed simp

lemma listPendingCommit_rows:
  "\<exists>rs. listPendingCommit st n = map rowToEntry rs \<and> (\<forall>r\<in>set rs. r \<in> set (entries st) \<and> r_status r = PendingCommit)"
  unfolding listPendingCommit_def by (rule exI, rule conjI, rule refl) (auto dest: orderLimit_mem)

lemma getRow_mem: "store_inv st \<Longrightarrow> r \<in> set (entries st) \<Longrightarrow> getRow st (r_id r) = Some r"
  unfolding getRow_def by (rule ob.get_unique) (simp_all add: store_inv_def)


lemma pending_commit_reachable:
  "store_reachable (sampleStore [sampleRow ''a'' ''w'' 1 NodeUpsert p PendingCommit])"
proof -
  have "recordEntry (openStore 500) ((sampleEntry ''a'' ''w'' NodeUpsert p)\<lparr>status := Some PendingCommit\<rparr>) =
     Inr (sampleStore [sampleRow ''a'' ''w'' 1 NodeUpsert p PendingCommit])"
    by (simp add: record_defs sample_defs)
  then show ?thesis
    by (rule store_reachable.stepped [OF store_reachable.opened store_step.record_step, rotated]) simp
qed

text \<open>A node row at revision 2 and a graph whose node stands at revision \<open>k\<close>.\<close>

definition revisionPayload :: obj where
  "revisionPayload = [(''id'', JStr ''n''), (''revision'', JNum 2)]"

definition graphAt :: "int \<Rightarrow> reader" where
  "graphAt k n i ws = Inr (Some [(''id'', JStr i), (''revision'', JNum k)])"

lemmas settle_eval = settlePendingCommits_def settleRow_def listPendingCommit_def PENDING_COMMIT_LIMIT_def
  askedId_def supersedeEdgeRow_def showsCommit_def rowCommitted_def revisionOf_def revisionPayload_def graphAt_def
  strFld_def fld_def sampleStore_def sampleRow_def rowToEntry_def orderLimit_def Let_def

lemma settle_old_revision:
  "settlePendingCommits (Some (graphAt 1)) 60000 70000
     (sampleStore [sampleRow ''a'' ''w'' 1 NodeUpsert revisionPayload PendingCommit]) =
   (\<lparr>flipped = 0, retracted = 1, waiting = 0, unreachable = 0\<rparr>, sampleStore [])"
  by (simp add: settle_eval retract_def removeIfPending_def setEntries_def)

lemma settle_new_revision:
  "settlePendingCommits (Some (graphAt 2)) 60000 70000
     (sampleStore [sampleRow ''a'' ''w'' 1 NodeUpsert revisionPayload PendingCommit]) =
   (\<lparr>flipped = 1, retracted = 0, waiting = 0, unreachable = 0\<rparr>,
    sampleStore [(sampleRow ''a'' ''w'' 1 NodeUpsert revisionPayload Pending)\<lparr>r_updatedAt := 70000\<rparr>])"
  by (simp add: settle_eval settleFlip_def updRow_def tableUpd_def commitRow_def setEntries_def)

lemma sample_present:
  "getRow (sampleStore [sampleRow i ws s k p t]) i = Some (sampleRow i ws s k p t)"
  by (simp add: getRow_def tableGet_def sampleStore_def sampleRow_def)


section \<open>A pass over a reachable graph settles everything old\<close>

lemma commitRow_status: "r_status (commitRow now r) \<noteq> PendingCommit"
  by (simp add: commitRow_def)

lemma settleRow_total:
  assumes inv: "store_inv (spStore P)" and down: "spDown P = []"
    and total: "\<forall>g n i ws. rd = Some g \<longrightarrow> (\<exists>node. g n i ws = Inr node)"
    and old: "graceMs \<le> now - r_createdAt r"
  defines "P' \<equiv> settleRow rd graceMs now (rowToEntry r) P"
  shows "store_inv (spStore P') \<and> spDown P' = [] \<and>
    (\<forall>x. getRow (spStore P') (r_id r) = Some x \<longrightarrow> r_status x = PendingCommit \<longrightarrow> False) \<and>
    (\<forall>j. j \<noteq> r_id r \<longrightarrow> getRow (spStore P') j = getRow (spStore P) j)"
proof -
  have "spDown P' = [] \<and> (spStore P' = snd (markCommitted (spStore P) [r_id r] now) \<or>
      spStore P' = snd (removeIfPending (spStore P) (r_id r)))"
  proof (cases "\<exists>i g. askedId (rowToEntry r) = Some i \<and> rd = Some g")
    case True
    then obtain i g where ig: "askedId (rowToEntry r) = Some i" "rd = Some g" by blast
    then obtain node where "g (spReads P) i (r_workspace r) = Inr node" using total by blast
    then show ?thesis using ig down old
      by (simp add: P'_def settleRow_def Let_def del: markCommitted.simps)
  next
    case False
    then show ?thesis using down old
      by (auto simp: P'_def settleRow_def Let_def simp del: markCommitted.simps split: option.splits)
  qed
  moreover have "store_inv (snd (markCommitted (spStore P) [r_id r] now))"
    using inv by (rule markCommitted_inv)
  moreover have "store_inv (snd (removeIfPending (spStore P) (r_id r)))"
    using inv by (rule store_step_inv [OF store_step.retract_step])
  moreover have "\<forall>j. j \<noteq> r_id r \<longrightarrow> getRow (snd (removeIfPending (spStore P) (r_id r))) j = getRow (spStore P) j"
    by (auto simp: retract_eq [OF inv] removeRow_get split: option.splits)
  moreover have "\<forall>x. getRow (snd (removeIfPending (spStore P) (r_id r))) (r_id r) = Some x \<longrightarrow> r_status x \<noteq> PendingCommit"
    by (auto simp: retract_eq [OF inv] removeRow_get split: option.splits if_splits)
  moreover have "\<forall>x. getRow (snd (markCommitted (spStore P) [r_id r] now)) (r_id r) = Some x \<longrightarrow> r_status x \<noteq> PendingCommit"
    unfolding markCommitted_get by (auto simp: commitRow_status)
  moreover have "\<forall>j. j \<noteq> r_id r \<longrightarrow> getRow (snd (markCommitted (spStore P) [r_id r] now)) j = getRow (spStore P) j"
    unfolding markCommitted_get by simp
  ultimately show ?thesis by metis
qed

lemma settle_fold_total:
  assumes "store_inv (spStore P)" "spDown P = []"
    and total: "\<forall>g n i ws. rd = Some g \<longrightarrow> (\<exists>node. g n i ws = Inr node)"
    and "\<forall>r\<in>set rs. graceMs \<le> now - r_createdAt r"
  shows "\<forall>j x. getRow (spStore (fold (settleRow rd graceMs now) (map rowToEntry rs) P)) j = Some x \<longrightarrow>
    r_status x = PendingCommit \<longrightarrow> j \<notin> r_id ` set rs \<and> getRow (spStore P) j = Some x"
  using assms(1,2,4)
proof (induction rs arbitrary: P)
  case (Cons r rs)
  let ?P = "settleRow rd graceMs now (rowToEntry r) P"
  have step: "store_inv (spStore ?P)" "spDown ?P = []"
    "\<forall>x. getRow (spStore ?P) (r_id r) = Some x \<longrightarrow> r_status x = PendingCommit \<longrightarrow> False"
    "\<forall>j. j \<noteq> r_id r \<longrightarrow> getRow (spStore ?P) j = getRow (spStore P) j"
    using settleRow_total [OF Cons.prems(1,2) total, of graceMs now r] Cons.prems(3) by simp_all
  have IH: "\<forall>j x. getRow (spStore (fold (settleRow rd graceMs now) (map rowToEntry rs) ?P)) j = Some x \<longrightarrow>
    r_status x = PendingCommit \<longrightarrow> j \<notin> r_id ` set rs \<and> getRow (spStore ?P) j = Some x"
    using step(1,2) Cons.prems(3) by (intro Cons.IH) auto
  show ?case
  proof (intro allI impI)
    fix j x
    assume a: "getRow (spStore (fold (settleRow rd graceMs now) (map rowToEntry (r # rs)) P)) j = Some x"
      "r_status x = PendingCommit"
    then have "j \<notin> r_id ` set rs" "getRow (spStore ?P) j = Some x" using IH by auto
    moreover from this have "j \<noteq> r_id r" using a(2) step(3) by auto
    ultimately show "j \<notin> r_id ` set (r # rs) \<and> getRow (spStore P) j = Some x" using step(4) by simp
  qed
qed simp

text \<open>Note: when the graph answers every read and at most 500 rows wait, one pass over rows older than the
  grace period leaves no \<open>pending_commit\<close> row behind: each is flipped ready or retracted.\<close>

theorem settle_finishes_old_rows:
  assumes "store_reachable st"
    and "\<forall>g n i ws. rd = Some g \<longrightarrow> (\<exists>node. g n i ws = Inr node)"
    and "length (filter (\<lambda>r. r_status r = PendingCommit) (entries st)) \<le> 500"
    and "\<forall>r\<in>set (entries st). r_status r = PendingCommit \<longrightarrow> graceMs \<le> now - r_createdAt r"
  shows "list_all (\<lambda>r. r_status r \<noteq> PendingCommit) (entries (snd (settlePendingCommits rd graceMs now st)))"
proof -
  let ?P = "\<lparr>spStore = st, spDown = [],
        spReport = \<lparr>flipped = 0, retracted = 0, waiting = 0, unreachable = 0\<rparr>, spReads = 0\<rparr>"
  let ?rs = "orderLimit (\<lambda>r. (r_createdAt r, r_sequenceId r)) 500 (filter (\<lambda>r. r_status r = PendingCommit) (entries st))"
  let ?st' = "spStore (fold (settleRow rd graceMs now) (map rowToEntry ?rs) ?P)"
  have inv: "store_inv st" using assms(1) by (rule store_reachable_inv)
  have rs: "set ?rs = {r \<in> set (entries st). r_status r = PendingCommit}"
    using assms(3) by (simp add: orderLimit_def)
  have res: "snd (settlePendingCommits rd graceMs now st) = ?st'"
    by (simp add: settlePendingCommits_def Let_def listPendingCommit_def PENDING_COMMIT_LIMIT_def)
  have inv': "store_inv ?st'"
  proof (rule conjunct1 [OF settle_fold_keeps [where st = st]])
    show "store_inv (spStore ?P)" "\<forall>j. settledAt rd graceMs now (getRow st j) (getRow (spStore ?P) j)"
      using inv by (simp_all add: settledAt_def)
    show "\<forall>r\<in>set ?rs. getRow st (r_id r) = Some r \<and> r_status r = PendingCommit"
      unfolding rs using getRow_mem [OF inv] by blast
  qed
  have "\<forall>j x. getRow ?st' j = Some x \<longrightarrow> r_status x = PendingCommit \<longrightarrow>
      j \<notin> r_id ` set ?rs \<and> getRow (spStore ?P) j = Some x"
  proof (rule settle_fold_total)
    show "\<forall>r\<in>set ?rs. graceMs \<le> now - r_createdAt r" unfolding rs using assms(4) by blast
  qed (use inv assms(2) in simp_all)
  then have fin: "\<forall>j x. getRow ?st' j = Some x \<longrightarrow> r_status x = PendingCommit \<longrightarrow>
      j \<notin> r_id ` set ?rs \<and> getRow st j = Some x" by simp
  show ?thesis unfolding list_all_iff
  proof
    fix r assume "r \<in> set (entries (snd (settlePendingCommits rd graceMs now st)))"
    then have get: "getRow ?st' (r_id r) = Some r" unfolding res by (rule getRow_mem [OF inv'])
    show "r_status r \<noteq> PendingCommit"
    proof
      assume p: "r_status r = PendingCommit"
      then have "r_id r \<notin> r_id ` set ?rs \<and> getRow st (r_id r) = Some r"
        using fin get by blast
      then show False using rs p getRow_SomeD by blast
    qed
  qed
qed

theorem settle_finishes_old_rows_witness:
  "store_reachable (sampleStore [sampleRow ''a'' ''w'' 1 NodeUpsert revisionPayload PendingCommit]) \<and>
   list_all (\<lambda>r. r_status r \<noteq> PendingCommit) (entries (snd (settlePendingCommits (Some (graphAt 1)) 60000 70000
      (sampleStore [sampleRow ''a'' ''w'' 1 NodeUpsert revisionPayload PendingCommit]))))"
  using pending_commit_reachable settle_finishes_old_rows [OF pending_commit_reachable [of revisionPayload],
      where rd = "Some (graphAt 1)" and graceMs = 60000 and now = 70000]
  by (simp add: graphAt_def sampleStore_def sampleRow_def)

section \<open>Recording, flipping and retracting a hot write\<close>

definition hotRow :: "string \<Rightarrow> ms \<Rightarrow> HotWriteSpec \<Rightarrow> int \<Rightarrow> Row" where
  "hotRow uuid now spec s =
     rowOfEntry (hotEntry uuid now spec) (hwWorkspace spec) s (hwOperationKind spec) (initialStatus spec)"

lemma hotRow_simps [simp]:
  "r_id (hotRow uuid now spec s) = uuid" "r_workspace (hotRow uuid now spec s) = hwWorkspace spec"
  "r_sequenceId (hotRow uuid now spec s) = s" "r_operationKind (hotRow uuid now spec s) = hwOperationKind spec"
  "r_payload (hotRow uuid now spec s) = Some (hwPayload spec)" "r_status (hotRow uuid now spec s) = initialStatus spec"
  "r_attempts (hotRow uuid now spec s) = 0" "r_createdAt (hotRow uuid now spec s) = now"
  "r_nextAttemptAt (hotRow uuid now spec s) = None"
  by (simp_all add: hotRow_def rowOfEntry_def hotEntry_def)

lemma tablePut_fresh:
  "getRow st (r_id x) = None \<Longrightarrow> tablePut r_id x (entries st) = entries st @ [x]"
  by (simp add: tablePut_def getRow_None filter_id_conv)

lemma recordHotWrite_fresh:
  assumes "getRow st uuid = None" "hwWorkspace spec \<noteq> []"
  shows "recordHotWrite st uuid now spec =
    Inr (hotEntry uuid now spec,
         setEntries (entries st @ [hotRow uuid now spec (nextSequenceId st (hwWorkspace spec))]) st)"
proof -
  have "recordEntry st (hotEntry uuid now spec) =
      Inr (setEntries (tablePut r_id (hotRow uuid now spec (nextSequenceId st (hwWorkspace spec))) (entries st)) st)"
    using assms(2) by (subst recordEntry_eq) (auto simp: hotEntry_def hotRow_def Let_def split: list.splits)
  then show ?thesis
    using assms tablePut_fresh [of st "hotRow uuid now spec (nextSequenceId st (hwWorkspace spec))"]
    by (simp add: recordHotWrite_def)
qed

lemma getRow_append:
  "getRow (setEntries (entries st @ rs) st) i = (case getRow st i of None \<Rightarrow> find (\<lambda>r. r_id r = i) rs | Some r \<Rightarrow> Some r)"
  by (simp add: getRow_def tableGet_def find_append)

lemma append_reachable:
  assumes "store_reachable st" "getRow st uuid = None" "hwWorkspace spec \<noteq> []"
  shows "store_reachable (setEntries (entries st @ [hotRow uuid now spec (nextSequenceId st (hwWorkspace spec))]) st)"
proof -
  have "recordEntry st (hotEntry uuid now spec) =
      Inr (setEntries (entries st @ [hotRow uuid now spec (nextSequenceId st (hwWorkspace spec))]) st)"
    using recordHotWrite_fresh [OF assms(2,3), of now] assms(3) by (auto simp: recordHotWrite_def split: sum.splits)
  then show ?thesis
    by (rule store_reachable.stepped [OF assms(1) store_step.record_step, rotated]) (simp add: hotEntry_def)
qed

text \<open>Note: a hot write recorded ahead of its commit is a \<open>pending_commit\<close> row numbered after everything in
  its workspace and cannot be claimed; after the commit \<open>commitHotRows\<close> makes exactly that row
  claimable; if the commit failed, retracting it restores the table as it was before the write and
  records no compensation.\<close>

theorem hot_write_lifecycle:
  assumes "store_reachable st" "getRow st uuid = None" "uuid \<noteq> []" "hwWorkspace spec \<noteq> []"
    and "hwPendingCommit spec = Some True"
  shows "\<exists>e st1 r st2 st3. recordHotWrite st uuid now spec = Inr (e, st1) \<and>
    getRow st1 uuid = Some r \<and> r_status r = PendingCommit \<and> r_payload r = Some (hwPayload spec) \<and>
    r_sequenceId r = nextSequenceId st (hwWorkspace spec) \<and>
    fst (claimForReplication st1 uuid now') = False \<and>
    commitHotRows (Some st1) [Some uuid] now' = Some st2 \<and>
    fst (claimForReplication st2 uuid now') = True \<and>
    (\<forall>j. j \<noteq> uuid \<longrightarrow> getRow st2 j = getRow st j) \<and>
    retractHotWriteOrCompensate st1 uuid compensating uuid' now' = Inr st3 \<and> entries st3 = entries st"
proof -
  define r where "r = hotRow uuid now spec (nextSequenceId st (hwWorkspace spec))"
  define st1 where "st1 = setEntries (entries st @ [r]) st"
  define st2 where "st2 = snd (markCommitted st1 [uuid] now')"
  have reach: "store_reachable st1"
    unfolding st1_def r_def using assms(1,2,4) by (rule append_reachable)
  then have inv: "store_inv st1" by (rule store_reachable_inv)
  have inv2: "store_inv st2" unfolding st2_def using inv by (rule markCommitted_inv)
  have get: "getRow st1 j = (if j = uuid then Some r else getRow st j)" for j
    using assms(2) by (auto simp: st1_def getRow_append r_def split: option.splits)
  have r: "r_status r = PendingCommit" using assms(5) by (simp add: r_def initialStatus_def)
  have get2: "getRow st2 j = (if j = uuid then Some (commitRow now' r) else getRow st j)" for j
    unfolding st2_def markCommitted_get using get by simp
  have claim1: "fst (claimForReplication st1 uuid now') = False"
    using r by (simp add: claim_fst [OF inv] get claimableRow_def)
  have claim2: "fst (claimForReplication st2 uuid now') = True"
    using r by (simp add: claim_fst [OF inv2] get2 claimableRow_def commitRow_def dueRow_def) (simp add: r_def)
  have restored: "entries (removeRow st1 uuid) = entries st"
    using assms(2) by (simp add: removeRow_def st1_def r_def getRow_None filter_id_conv)
  have rem: "removeIfPending st1 uuid = (True, removeRow st1 uuid)"
    using r by (simp add: retract_eq [OF inv] get)
  have rec: "recordHotWrite st uuid now spec = Inr (hotEntry uuid now spec, st1)"
    using assms(2,4) by (simp add: recordHotWrite_fresh st1_def r_def)
  have flip: "commitHotRows (Some st1) [Some uuid] now' = Some st2"
    using assms(3) by (simp add: commitHotRows_def st2_def List.map_filter_def del: markCommitted.simps)
  have undo: "retractHotWriteOrCompensate st1 uuid compensating uuid' now' = Inr (removeRow st1 uuid)"
    by (simp add: retractHotWriteOrCompensate_def rem split: option.splits)
  have fields: "r_payload r = Some (hwPayload spec)" "r_sequenceId r = nextSequenceId st (hwWorkspace spec)"
    by (simp_all add: r_def)
  have row1: "getRow st1 uuid = Some r" and others: "\<forall>j. j \<noteq> uuid \<longrightarrow> getRow st2 j = getRow st j"
    by (simp_all add: get get2)
  show ?thesis
    using rec row1 r fields claim1 flip claim2 others undo restored by blast
qed

definition sampleSpec :: "OutboxOperationKind \<Rightarrow> string \<Rightarrow> bool \<Rightarrow> HotWriteSpec" where
  "sampleSpec k i b = \<lparr>hwWorkspace = ''w'', hwOperationKind = k, hwPayload = [(''id'', JStr i)],
     hwInitiator = None, hwOperation = None, hwPendingCommit = Some b\<rparr>"

theorem hot_write_lifecycle_witness:
  "\<exists>e st1. recordHotWrite (openStore 500) ''u'' 7 (sampleSpec NodeUpsert ''n'' True) = Inr (e, st1) \<and>
     fst (claimForReplication st1 ''u'' 9) = False"
  using hot_write_lifecycle [OF store_reachable.opened [of 500], where uuid = "''u''" and now = 7 and now' = 9
      and spec = "sampleSpec NodeUpsert ''n'' True" and compensating = None and uuid' = "''v''"]
  by (auto simp: getRow_def tableGet_def openStore_def sampleSpec_def)

text \<open>Note: retracting a write the replicator already took. The row is left as it is, and the compensating
  write is numbered after it in its workspace, so a compensating \<open>node.delete\<close> of the same node is
  the newer delete the replicator looks for before it replays the row again. Without a claim in
  between, no compensation is written.\<close>

theorem compensation_sequenced_last:
  assumes "store_reachable st" "getRow st i = Some r" "getRow st uuid = None"
    and "hwWorkspace spec = r_workspace r" "r_workspace r \<noteq> []" "hwPendingCommit spec \<noteq> Some True"
  shows "\<exists>st'. retractHotWriteOrCompensate st i (Some spec) uuid now = Inr st' \<and>
    (if r_status r = Pending \<or> r_status r = PendingCommit
     then getRow st' i = None \<and> getRow st' uuid = None
     else getRow st' i = Some r \<and>
       (\<exists>c. getRow st' uuid = Some c \<and> r_payload c = Some (hwPayload spec) \<and> r_sequenceId r < r_sequenceId c) \<and>
       (hwOperationKind spec = NodeDelete \<and> strFld (hwPayload spec) ''id'' = Some key \<longrightarrow>
          hasNewerDeleteForKey st' (r_workspace r) NodeFamily key (r_sequenceId r)))"
proof (cases "r_status r = Pending \<or> r_status r = PendingCommit")
  case True
  have inv: "store_inv st" using assms(1) by (rule store_reachable_inv)
  show ?thesis using True assms(2,3)
    by (auto simp: retractHotWriteOrCompensate_def retract_eq [OF inv] removeRow_get)
next
  case False
  have inv: "store_inv st" using assms(1) by (rule store_reachable_inv)
  define s where "s = nextSequenceId st (r_workspace r)"
  define c where "c = hotRow uuid now spec s"
  have gt: "r_sequenceId r < s"
    unfolding s_def using getRow_SomeD [OF assms(2)] by (simp add: nextSequenceId_gt_row)
  have st': "retractHotWriteOrCompensate st i (Some spec) uuid now = Inr (setEntries (entries st @ [c]) st)"
    using False assms(2-5)
    by (simp add: retractHotWriteOrCompensate_def retract_eq [OF inv] recordHotWrite_fresh c_def s_def)
  have get: "getRow (setEntries (entries st @ [c]) st) j = (if j = uuid then Some c else getRow st j)" for j
    using assms(3) by (auto simp: getRow_append c_def split: option.splits)
  have "i \<noteq> uuid" using assms(2,3) by auto
  moreover have "hasNewerDeleteForKey (setEntries (entries st @ [c]) st) (r_workspace r) NodeFamily key (r_sequenceId r)"
    if "hwOperationKind spec = NodeDelete" "strFld (hwPayload spec) ''id'' = Some key"
    using that gt assms(4,6)
    by (auto simp: hasNewerDeleteForKey_def c_def initialStatus_def familyMatch_def strFld_def
        split: option.splits json.splits)
  ultimately show ?thesis
    using False st' get assms(2) gt by (auto simp: c_def)
qed

theorem compensation_sequenced_last_witness:
  "\<exists>st'. retractHotWriteOrCompensate
       (sampleStore [(sampleRow ''a'' ''w'' 1 NodeUpsert [] Replicating)\<lparr>r_updatedAt := 5\<rparr>, sampleRow ''b'' ''w'' 2 NodeDelete [] Pending])
       ''a'' (Some (sampleSpec NodeDelete ''n'' False)) ''u'' 9 = Inr st' \<and>
     hasNewerDeleteForKey st' ''w'' NodeFamily ''n'' 1"
proof -
  let ?r = "(sampleRow ''a'' ''w'' 1 NodeUpsert [] Replicating)\<lparr>r_updatedAt := 5\<rparr>"
  let ?st = "sampleStore [?r, sampleRow ''b'' ''w'' 2 NodeDelete [] Pending]"
  have "snd (claimForReplication (sampleStore [sampleRow ''a'' ''w'' 1 NodeUpsert [] Pending,
      sampleRow ''b'' ''w'' 2 NodeDelete [] Pending]) ''a'' 5) = ?st"
    by (simp add: claimForReplication_def sample_defs claimableRow_def dueRow_def updRow_def tableUpd_def
        setEntries_def claimRow_def)
  then have reach: "store_reachable ?st"
    using store_reachable.stepped [OF two_rows_reachable store_step.claim_step, of "''a''" 5] by simp
  have got: "getRow ?st ''a'' = Some ?r" "getRow ?st ''u'' = None"
    by (simp_all add: getRow_def tableGet_def sample_defs)
  show ?thesis
    using compensation_sequenced_last [OF reach got, where spec = "sampleSpec NodeDelete ''n'' False" and now = 9 and key = "''n''"]
    by (auto simp: sampleSpec_def sampleRow_def strFld_def fld_def)
qed

section \<open>A bulk write\<close>

fun numberRows :: "(string \<Rightarrow> int) \<Rightarrow> (nat \<Rightarrow> string) \<Rightarrow> nat \<Rightarrow> ms \<Rightarrow> HotWriteSpec list \<Rightarrow> Row list" where
  "numberRows nxt uuid k now [] = []"
| "numberRows nxt uuid k now (spec # specs) =
     hotRow (uuid k) now spec (nxt (hwWorkspace spec)) #
     numberRows (nxt(hwWorkspace spec := nxt (hwWorkspace spec) + 1)) uuid (k + 1) now specs"

lemma length_numberRows [simp]: "length (numberRows nxt uuid k now specs) = length specs"
  by (induction specs arbitrary: nxt k) simp_all

lemma numberRows_nth:
  "n < length specs \<Longrightarrow> numberRows nxt uuid k now specs ! n =
     hotRow (uuid (k + n)) now (specs ! n)
       (nxt (hwWorkspace (specs ! n)) +
        int (length (filter (\<lambda>s. hwWorkspace s = hwWorkspace (specs ! n)) (take n specs))))"
proof (induction specs arbitrary: nxt k n)
  case (Cons spec specs)
  then show ?case by (cases n) (auto simp: add.assoc)
qed simp

lemma hotEntries_ok:
  "list_all (\<lambda>s. hwWorkspace s \<noteq> []) specs \<Longrightarrow>
   hotEntries uuid k now specs = Inr (map (\<lambda>(n, s). hotEntry (uuid n) now s) (enumerate k specs))"
  by (induction specs arbitrary: k) simp_all

lemma hotEntries_fails:
  "\<not> list_all (\<lambda>s. hwWorkspace s \<noteq> []) specs \<Longrightarrow> \<exists>kd. hotEntries uuid k now specs = Inl (HotWorkspaceRequired kd)"
proof (induction specs arbitrary: k)
  case (Cons s specs)
  then show ?case by (cases "hwWorkspace s = []") (auto dest!: Cons.IH [of "k + 1"])
qed simp

lemma normalize_hotEntry:
  "hwWorkspace s \<noteq> [] \<Longrightarrow> normalizeForWrite (hotEntry u now s) = Inr (hotEntry u now s)"
  by (simp add: normalizeForWrite_def hotEntry_def Let_def)

lemma normalizeAll_hot:
  "list_all (\<lambda>s. hwWorkspace s \<noteq> []) specs \<Longrightarrow>
   normalizeAll (map (\<lambda>(n, s). hotEntry (uuid n) now s) (enumerate k specs)) =
     Inr (map (\<lambda>(n, s). hotEntry (uuid n) now s) (enumerate k specs))"
  by (induction specs arbitrary: k) (simp_all add: normalize_hotEntry)

lemma nextSequenceId_append_other:
  "w \<noteq> r_workspace r \<Longrightarrow> nextSequenceId (setEntries (entries st @ [r]) st) w = nextSequenceId st w"
  by (simp add: nextSequenceId_def)

lemma upsert_hot:
  "getRow st u = None \<Longrightarrow>
   upsertRow st ((hotEntry u now s)\<lparr>sequenceId := Some q\<rparr>) = Inr (setEntries (entries st @ [hotRow u now s q]) st)"
  using tablePut_fresh [of st "hotRow u now s q"]
  by (simp add: upsertRow_def hotEntry_def hotRow_def rowOfEntry_def)

lemma batchRows_hot:
  assumes "\<forall>n \<in> {k..<k + length specs}. getRow st (uuid n) = None"
    and "inj_on uuid {k..<k + length specs}"
    and "\<forall>w. nxt w = (case nx w of None \<Rightarrow> nextSequenceId st w | Some s \<Rightarrow> s)"
  shows "batchRows nx st (map (\<lambda>(n, s). hotEntry (uuid n) now s) (enumerate k specs)) =
    Inr (setEntries (entries st @ numberRows nxt uuid k now specs) st)"
  using assms
proof (induction specs arbitrary: k st nx nxt)
  case Nil
  then show ?case by (simp add: setEntries_def)
next
  case (Cons s specs)
  let ?w = "hwWorkspace s"
  let ?row = "hotRow (uuid k) now s (nxt ?w)"
  let ?st = "setEntries (entries st @ [?row]) st"
  have ent: "workspace (hotEntry (uuid k) now s) = Some ?w" "sequenceId (hotEntry (uuid k) now s) = None"
    by (simp_all add: hotEntry_def)
  have fresh: "getRow st (uuid k) = None" using Cons.prems(1) by simp
  have nxt: "(case nx ?w of None \<Rightarrow> nextSequenceId st ?w | Some s \<Rightarrow> s) = nxt ?w" using Cons.prems(3) by simp
  have "batchRows nx st (map (\<lambda>(n, s). hotEntry (uuid n) now s) (enumerate k (s # specs))) =
      batchRows (nx(?w \<mapsto> nxt ?w + 1)) ?st (map (\<lambda>(n, s). hotEntry (uuid n) now s) (enumerate (Suc k) specs))"
    by (simp add: ent nxt upsert_hot [OF fresh] Let_def)
  also have "\<dots> = Inr (setEntries (entries ?st @ numberRows (nxt(?w := nxt ?w + 1)) uuid (Suc k) now specs) ?st)"
  proof (rule Cons.IH)
    show "\<forall>n\<in>{Suc k..<Suc k + length specs}. getRow ?st (uuid n) = None"
    proof
      fix n assume n: "n \<in> {Suc k..<Suc k + length specs}"
      then have "uuid n \<noteq> uuid k" using inj_onD [OF Cons.prems(2), of n k] by auto
      then show "getRow ?st (uuid n) = None" using n Cons.prems(1) by (auto simp: getRow_append)
    qed
    show "inj_on uuid {Suc k..<Suc k + length specs}"
      using Cons.prems(2) by (rule inj_on_subset) auto
    show "\<forall>w. (nxt(?w := nxt ?w + 1)) w = (case (nx(?w \<mapsto> nxt ?w + 1)) w of None \<Rightarrow> nextSequenceId ?st w | Some s \<Rightarrow> s)"
      using Cons.prems(3) by (auto simp: nextSequenceId_append_other split: option.splits)
  qed
  finally show ?case by (simp add: setEntries_def)
qed

text \<open>Note: a bulk write is all or nothing and keeps its order. If any item lacks a workspace the call fails
  before anything is stored. Otherwise every item gets its own row, in the table's one rewrite,
  numbered in its workspace after everything that was there and after the items of the same
  workspace that precede it in the request, and no row that was there changes.\<close>

theorem hot_batch_atomic_in_order:
  assumes "inj_on uuid {..<length specs}" "\<forall>n<length specs. getRow st (uuid n) = None"
  shows "(\<not> list_all (\<lambda>s. hwWorkspace s \<noteq> []) specs \<longrightarrow>
      (\<exists>k. recordHotWriteBatch st uuid now specs = Inl (HotWorkspaceRequired k))) \<and>
    (list_all (\<lambda>s. hwWorkspace s \<noteq> []) specs \<longrightarrow>
      (\<exists>es rows st'. recordHotWriteBatch st uuid now specs = Inr (es, st') \<and>
         entries st' = entries st @ rows \<and> length rows = length specs \<and> map r_id rows = map uuid [0..<length specs] \<and>
         (\<forall>n<length specs. r_workspace (rows ! n) = hwWorkspace (specs ! n) \<and>
            r_payload (rows ! n) = Some (hwPayload (specs ! n)) \<and> r_status (rows ! n) = initialStatus (specs ! n) \<and>
            r_sequenceId (rows ! n) = nextSequenceId st (hwWorkspace (specs ! n)) +
              int (length (filter (\<lambda>s. hwWorkspace s = hwWorkspace (specs ! n)) (take n specs))))))"
proof (intro conjI impI)
  assume "\<not> list_all (\<lambda>s. hwWorkspace s \<noteq> []) specs"
  then show "\<exists>k. recordHotWriteBatch st uuid now specs = Inl (HotWorkspaceRequired k)"
    using hotEntries_fails [of specs uuid 0 now] by (cases specs) (auto simp: recordHotWriteBatch_def)
next
  assume ok: "list_all (\<lambda>s. hwWorkspace s \<noteq> []) specs"
  let ?es = "map (\<lambda>(n, s). hotEntry (uuid n) now s) (enumerate 0 specs)"
  let ?rows = "numberRows (nextSequenceId st) uuid 0 now specs"
  have "batchRows Map.empty st ?es = Inr (setEntries (entries st @ ?rows) st)"
    using assms by (intro batchRows_hot) (auto simp: atLeast0LessThan)
  then have "batchRecord st ?es = Inr (setEntries (entries st @ ?rows) st)"
    by (cases "?es = []") (simp_all add: batchRecord_def normalizeAll_hot [OF ok])
  then have "recordHotWriteBatch st uuid now specs = Inr (?es, setEntries (entries st @ ?rows) st)"
    unfolding recordHotWriteBatch_def hotEntries_ok [OF ok] by (simp add: setEntries_def)
  moreover have "map r_id ?rows = map uuid [0..<length specs]"
    by (rule nth_equalityI) (simp_all add: numberRows_nth)
  ultimately show "\<exists>es rows st'. recordHotWriteBatch st uuid now specs = Inr (es, st') \<and>
         entries st' = entries st @ rows \<and> length rows = length specs \<and> map r_id rows = map uuid [0..<length specs] \<and>
         (\<forall>n<length specs. r_workspace (rows ! n) = hwWorkspace (specs ! n) \<and>
            r_payload (rows ! n) = Some (hwPayload (specs ! n)) \<and> r_status (rows ! n) = initialStatus (specs ! n) \<and>
            r_sequenceId (rows ! n) = nextSequenceId st (hwWorkspace (specs ! n)) +
              int (length (filter (\<lambda>s. hwWorkspace s = hwWorkspace (specs ! n)) (take n specs))))"
    by (intro exI [of _ ?es] exI [of _ ?rows] exI [of _ "setEntries (entries st @ ?rows) st"])
       (simp add: numberRows_nth)
qed

theorem hot_batch_atomic_in_order_witness:
  "\<exists>es st'. recordHotWriteBatch (openStore 500) (\<lambda>n. showNat n) 7
      [sampleSpec NodeUpsert ''n'' True, sampleSpec NodeDelete ''m'' False] = Inr (es, st') \<and>
    map r_id (entries st') = [showNat 0, showNat 1]"
proof -
  let ?specs = "[sampleSpec NodeUpsert ''n'' True, sampleSpec NodeDelete ''m'' False]"
  have inj: "inj_on showNat {..<length ?specs}"
    by (simp add: inj_on_def lessThan_Suc showNat.simps)
  have fresh: "\<forall>n<length ?specs. getRow (openStore 500) (showNat n) = None"
    by (simp add: getRow_def tableGet_def openStore_def)
  show ?thesis
    using hot_batch_atomic_in_order [OF inj fresh, of 7]
    by (auto simp: sampleSpec_def openStore_def)
qed

section \<open>The cadence of the sweep\<close>

text \<open>Note: the settle sweep runs at most once per interval and backs off while the graph is unreachable.
  Before its time it changes nothing. A pass that reached the graph resets the backoff and comes
  back after one interval; a pass that did not is counted and comes back no sooner than the
  interval and no later than the larger of the interval and one minute.\<close>

theorem settle_sweep_cadence:
  assumes "\<And>n m. 0 < m \<Longrightarrow> 0 \<le> jit n m \<and> jit n m < m" "0 \<le> interval"
    and "sweepPendingCommits rd graceMs interval jit draw now s st = (s', st')"
  shows "(now < nextAt s \<longrightarrow> s' = s \<and> st' = st) \<and>
    (nextAt s \<le> now \<longrightarrow> st' = snd (settlePendingCommits rd graceMs now st) \<and>
       now + interval \<le> nextAt s' \<and> nextAt s' \<le> now + max interval 60000 \<and>
       (if unreachable (fst (settlePendingCommits rd graceMs now st)) = 0
        then nextAt s' = now + interval \<and> failures s' = 0 else failures s' = failures s + 1))"
proof -
  have "(0::int) < 2 ^ min (failures s + 1) 30" by simp
  then have "0 < min 60000 (500 * 2 ^ min (failures s + 1) 30 :: int)" by linarith
  then have "transientBackoffMs (sweepBackoff jit) draw (failures s + 1) \<le> 60000"
    using assms(1) [of "min 60000 (500 * 2 ^ min (failures s + 1) 30)" draw]
    by (simp add: transientBackoffMs_def sweepBackoff_def)
  then show ?thesis
    using assms(2,3) by (auto simp: sweepPendingCommits_def split_beta Let_def split: if_splits)
qed

theorem settle_sweep_cadence_witness:
  "nextAt (fst (sweepPendingCommits None 60000 1000 (\<lambda>n m. 0) 0 5000 newPendingCommitSweepState (openStore 500))) \<le> 65000"
  using settle_sweep_cadence [of "\<lambda>n m. 0" 1000 None 60000 0 5000 newPendingCommitSweepState "openStore 500",
      OF _ _ surjective_pairing]
  by (simp add: newPendingCommitSweepState_def)

end
