(* ===== verification/OutboxRecovery.thy ===== *)
theory OutboxRecovery
  imports OutboxStoreProps
begin

text \<open>
  The step checklist of the outbox: the \<open>withOutbox\<close> coordinator (\<open>outbox/coordinator.ts\<close>) that
  records an entry before a multi-substrate write and completes it after, and the boot-time
  recovery that finishes what a crash left behind (\<open>outbox/recovery.ts\<close>).

  The registered step handlers and the caller's callback are parameters. A handler maps the
  substrate world to the message of the error it threw, if any, and the new world. The callback of
  \<open>withOutbox\<close> sees nothing of the store but the entry, so it is given by the \<open>markStep\<close> calls it
  makes and by what it returns or throws. The clock of one call is one instant.
\<close>

section \<open>\<open>outbox/recovery.ts\<close>\<close>

type_synonym 'w handler = "obj option \<Rightarrow> OutboxEntry \<Rightarrow> 'w \<Rightarrow> string option \<times> 'w"

type_synonym 'w registry = "string \<rightharpoonup> 'w handler"

datatype RegistryError = AlreadyRegistered string

definition registerHandler :: "'w registry \<Rightarrow> string \<Rightarrow> 'w handler \<Rightarrow> RegistryError + 'w registry" where
  "registerHandler reg kind h = (if reg kind \<noteq> None then Inl (AlreadyRegistered kind) else Inr (reg(kind \<mapsto> h)))"

record StepFailure =
  sfEntryId :: string
  sfKind :: string
  sfError :: string

record RecoveryReport =
  discovered :: nat
  recCompleted :: nat
  stillUnfinished :: "string list"
  stepFailures :: "StepFailure list"
  skippedReplicatorRows :: nat
  requeuedReplicating :: nat

record 'w Recovery =
  rcStore :: Store
  rcWorld :: 'w
  rcReport :: RecoveryReport

definition noHandlerMsg :: "string \<Rightarrow> string" where
  "noHandlerMsg k = ''no handler registered for step kind '' @ [CHR 0x27] @ k @ [CHR 0x27]"

definition addFailure :: "OutboxEntry \<Rightarrow> string \<Rightarrow> string \<Rightarrow> 'w Recovery \<Rightarrow> 'w Recovery" where
  "addFailure e k msg R = R\<lparr>rcReport := (rcReport R)\<lparr>stepFailures :=
     stepFailures (rcReport R) @ [\<lparr>sfEntryId = entryId e, sfKind = k, sfError = msg\<rparr>]\<rparr>\<rparr>"

text \<open>The inner loop, from step \<open>i\<close> on; the first component is \<open>allDone\<close>.\<close>

fun recoverSteps ::
  "'w registry \<Rightarrow> ms \<Rightarrow> OutboxEntry \<Rightarrow> nat \<Rightarrow> OutboxStep list \<Rightarrow> 'w Recovery \<Rightarrow> bool \<times> 'w Recovery" where
  "recoverSteps reg now e i [] R = (True, R)"
| "recoverSteps reg now e i (s # ss) R =
     (if stepStatus s = StepDone then recoverSteps reg now e (i + 1) ss R
      else case reg (stepKind s) of
             None \<Rightarrow>
               (False, snd (recoverSteps reg now e (i + 1) ss (addFailure e (stepKind s) (noHandlerMsg (stepKind s)) R)))
           | Some h \<Rightarrow>
               (case h (stepPayload s) e (rcWorld R) of
                  (None, w) \<Rightarrow>
                    recoverSteps reg now e (i + 1) ss
                      (R\<lparr>rcWorld := w, rcStore := markStep (rcStore R) (entryId e) i StepDone None now\<rparr>)
                | (Some msg, w) \<Rightarrow>
                    (False, snd (recoverSteps reg now e (i + 1) ss
                      (addFailure e (stepKind s) msg
                        (R\<lparr>rcWorld := w, rcStore := markStep (rcStore R) (entryId e) i StepFailed (Some msg) now\<rparr>))))))"

definition unfinishedLine :: "OutboxEntry \<Rightarrow> string" where
  "unfinishedLine e = entryId e @ '' ('' @ operation e @ ''): '' @
     showNat (length (filter (\<lambda>s. stepStatus s \<noteq> StepDone) (steps e))) @ '' step(s) outstanding''"

definition recoverEntry :: "'w registry \<Rightarrow> ms \<Rightarrow> OutboxEntry \<Rightarrow> 'w Recovery \<Rightarrow> 'w Recovery" where
  "recoverEntry reg now e R =
     (if allStepsDone (steps e) then
        (let R' = (if status e = Some Replicating
                   then R\<lparr>rcStore := markEntryStatus (rcStore R) (entryId e) Pending noInfo now,
                          rcReport := (rcReport R)\<lparr>requeuedReplicating := requeuedReplicating (rcReport R) + 1\<rparr>\<rparr>
                   else R)
         in R'\<lparr>rcReport := (rcReport R')\<lparr>skippedReplicatorRows := skippedReplicatorRows (rcReport R') + 1\<rparr>\<rparr>)
      else
        (let (allDone, R') = recoverSteps reg now e 0 (steps e) R
         in if allDone
            then R'\<lparr>rcStore := markCompleted (rcStore R') (entryId e) now,
                    rcReport := (rcReport R')\<lparr>recCompleted := recCompleted (rcReport R') + 1\<rparr>\<rparr>
            else R'\<lparr>rcReport := (rcReport R')\<lparr>stillUnfinished := stillUnfinished (rcReport R') @ [unfinishedLine e]\<rparr>\<rparr>))"

definition recoverOutbox :: "'w registry \<Rightarrow> ms \<Rightarrow> 'w \<Rightarrow> Store \<Rightarrow> RecoveryReport \<times> 'w \<times> Store" where
  "recoverOutbox reg now w st =
     (let unfinished = listUnfinished st;
          R = fold (recoverEntry reg now) unfinished
                \<lparr>rcStore = st, rcWorld = w,
                 rcReport = \<lparr>discovered = length unfinished, recCompleted = 0, stillUnfinished = [], stepFailures = [],
                             skippedReplicatorRows = 0, requeuedReplicating = 0\<rparr>\<rparr>
      in (rcReport R, rcWorld R, rcStore R))"

section \<open>\<open>outbox/coordinator.ts\<close>\<close>

record PlannedStep =
  plKind :: string
  plPayload :: "obj option"

record WithOutboxSpec =
  woId :: "string option"
  woOperation :: string
  woInitiator :: string
  woSteps :: "PlannedStep list"
  woRemoveOnComplete :: "bool option"

type_synonym 'a callback = "OutboxEntry \<Rightarrow> (nat \<times> StepStatus \<times> string option) list \<times> (string + 'a)"

datatype 'a CoordResult = CoordStoreError StoreError | CoordThrown string | CoordReturned 'a

definition coordEntry :: "WithOutboxSpec \<Rightarrow> string \<Rightarrow> ms \<Rightarrow> OutboxEntry" where
  "coordEntry spec uuid now = \<lparr>
     entryId = (case woId spec of None \<Rightarrow> uuid | Some i \<Rightarrow> i),
     operation = woOperation spec, initiator = woInitiator spec, createdAt = now, updatedAt = now,
     steps = map (\<lambda>p. \<lparr>stepKind = plKind p, stepStatus = StepPending, stepPayload = plPayload p,
                        stepError = None, startedAt = None, finishedAt = None\<rparr>) (woSteps spec),
     completed = False,
     sequenceId = None, workspace = None, operationKind = None, payload = None, status = None, attempts = None,
     lastError = None, replicatedAt = None, failedAt = None, nextAttemptAt = None,
     firstTransientAt = None, transientRetries = None, deadReason = None\<rparr>"

definition markCalls :: "string \<Rightarrow> ms \<Rightarrow> (nat \<times> StepStatus \<times> string option) list \<Rightarrow> Store \<Rightarrow> Store" where
  "markCalls i now calls st = fold (\<lambda>(k, s, err) st. markStep st i k s err now) calls st"

definition withOutbox ::
  "Store \<Rightarrow> WithOutboxSpec \<Rightarrow> string \<Rightarrow> ms \<Rightarrow> 'a callback \<Rightarrow> 'a CoordResult \<times> Store" where
  "withOutbox st spec uuid now handler =
     (let entry = coordEntry spec uuid now
      in case recordEntry st entry of
           Inl err \<Rightarrow> (CoordStoreError err, st)
         | Inr st1 \<Rightarrow>
             (let (calls, res) = handler entry;
                  st2 = markCalls (entryId entry) now calls st1
              in case res of
                   Inl err \<Rightarrow> (CoordThrown err, st2)
                 | Inr result \<Rightarrow>
                     (let (done, st3) = completeIfAllStepsDone st2 (entryId entry) now
                      in if \<not> done then (CoordReturned result, st3)
                         else if woRemoveOnComplete spec \<noteq> Some False
                              then (CoordReturned result, removeRow st3 (entryId entry))
                              else (CoordReturned result, st3))))"

section \<open>What the recovery pass does to one row\<close>

text \<open>The row with another checklist and another modification time.\<close>

definition onlySteps :: "Row \<Rightarrow> Row \<Rightarrow> bool" where
  "onlySteps r r' \<longleftrightarrow> (\<exists>ss t. r' = r\<lparr>r_steps := ss, r_updatedAt := t\<rparr>)"

lemma onlySteps_refl [simp]: "onlySteps r r"
  unfolding onlySteps_def by (rule exI [of _ "r_steps r"], rule exI [of _ "r_updatedAt r"]) simp

lemma onlySteps_trans: "onlySteps r s \<Longrightarrow> onlySteps s t \<Longrightarrow> onlySteps r t"
  unfolding onlySteps_def by clarsimp blast

lemma all_from_split:
  "i < n \<Longrightarrow> (\<forall>k<n. i \<le> k \<longrightarrow> P k) \<longleftrightarrow> P i \<and> (\<forall>k<n. Suc i \<le> k \<longrightarrow> P k)" for i n :: nat
  by (auto simp: le_eq_less_or_eq Suc_le_eq)

text \<open>A step that was done or has no handler is left alone; any other is done or failed afterwards.\<close>

definition stepFate :: "'w registry \<Rightarrow> OutboxStep \<Rightarrow> OutboxStep \<Rightarrow> bool" where
  "stepFate reg s s' \<longleftrightarrow>
     (if stepStatus s = StepDone \<or> reg (stepKind s) = None then s' = s
      else stepStatus s' = StepDone \<or> stepStatus s' = StepFailed)"

lemma getRow_markStep:
  assumes "getRow st i = Some r" "k < length (r_steps r)"
  shows "getRow (markStep st i k t err now) j =
    (if j = i then Some (r\<lparr>r_steps := (r_steps r)[k := touchStep (r_steps r ! k) t err now], r_updatedAt := now\<rparr>)
     else getRow st j)"
  using assms by (simp add: markStep_def getRow_updRow [OF keepsKey_rows(7)])

lemma markStep_retryBase [simp]: "retryBaseMs (markStep st i k t err now) = retryBaseMs st"
  by (simp add: markStep_def split: option.splits)

lemma markStep_inv: "store_inv st \<Longrightarrow> store_inv (markStep st i k t err now)"
  by (rule store_step_inv [OF store_step.mark_step_step])

lemma addFailure_simps [simp]:
  "rcStore (addFailure e k msg R) = rcStore R" "rcWorld (addFailure e k msg R) = rcWorld R"
  by (simp_all add: addFailure_def)

lemma touchStep_status [simp]: "stepStatus (touchStep s t err now) = t"
  by (simp add: touchStep_def)

text \<open>What the inner loop from step \<open>i\<close> on has done to the row, and what its \<open>allDone\<close> means.\<close>

definition drivenFrom :: "'w registry \<Rightarrow> nat \<Rightarrow> Row \<Rightarrow> Row \<Rightarrow> bool \<Rightarrow> bool" where
  "drivenFrom reg i r r' ok \<longleftrightarrow>
     onlySteps r r' \<and> length (r_steps r') = length (r_steps r) \<and>
     (\<forall>k<length (r_steps r). if k < i then r_steps r' ! k = r_steps r ! k else stepFate reg (r_steps r ! k) (r_steps r' ! k)) \<and>
     (ok \<longleftrightarrow> (\<forall>k<length (r_steps r). i \<le> k \<longrightarrow> stepStatus (r_steps r' ! k) = StepDone))"

lemma drivenFrom_skip:
  assumes "drivenFrom reg (Suc i) r r' ok" "i < length (r_steps r)"
    and "stepStatus (r_steps r ! i) = StepDone \<or> reg (stepKind (r_steps r ! i)) = None"
  shows "drivenFrom reg i r r' (ok \<and> stepStatus (r_steps r ! i) = StepDone)"
proof -
  have i: "r_steps r' ! i = r_steps r ! i" using assms(1,2) by (auto simp: drivenFrom_def)
  have "\<forall>k<length (r_steps r). if k < i then r_steps r' ! k = r_steps r ! k else stepFate reg (r_steps r ! k) (r_steps r' ! k)"
  proof (intro allI impI)
    fix k assume "k < length (r_steps r)"
    then show "if k < i then r_steps r' ! k = r_steps r ! k else stepFate reg (r_steps r ! k) (r_steps r' ! k)"
      using assms(1,3) i by (cases "k = i") (auto simp: drivenFrom_def stepFate_def less_Suc_eq)
  qed
  moreover have "(\<forall>k<length (r_steps r). i \<le> k \<longrightarrow> stepStatus (r_steps r' ! k) = StepDone) \<longleftrightarrow>
      (\<forall>k<length (r_steps r). Suc i \<le> k \<longrightarrow> stepStatus (r_steps r' ! k) = StepDone) \<and> stepStatus (r_steps r ! i) = StepDone"
    unfolding all_from_split [OF assms(2)] by (simp add: i conj_commute)
  ultimately show ?thesis using assms(1) unfolding drivenFrom_def by blast
qed

lemma drivenFrom_mark:
  assumes "drivenFrom reg (Suc i) (r\<lparr>r_steps := (r_steps r)[i := s'], r_updatedAt := now\<rparr>) r' ok" "i < length (r_steps r)"
    and "stepStatus (r_steps r ! i) \<noteq> StepDone" "reg (stepKind (r_steps r ! i)) \<noteq> None"
    and "stepStatus s' = StepDone \<or> stepStatus s' = StepFailed"
  shows "drivenFrom reg i r r' (ok \<and> stepStatus s' = StepDone)"
proof -
  let ?m = "r\<lparr>r_steps := (r_steps r)[i := s'], r_updatedAt := now\<rparr>"
  have only: "onlySteps r r'"
    using assms(1) by (auto simp: drivenFrom_def intro: onlySteps_trans [of r ?m]) (auto simp: onlySteps_def)
  have len: "length (r_steps r') = length (r_steps r)" using assms(1) by (simp add: drivenFrom_def)
  have i: "r_steps r' ! i = s'" using assms(1,2) by (auto simp: drivenFrom_def)
  have "\<forall>k<length (r_steps r). if k < i then r_steps r' ! k = r_steps r ! k else stepFate reg (r_steps r ! k) (r_steps r' ! k)"
  proof (intro allI impI)
    fix k assume "k < length (r_steps r)"
    then show "if k < i then r_steps r' ! k = r_steps r ! k else stepFate reg (r_steps r ! k) (r_steps r' ! k)"
      using assms i by (cases "k = i") (auto simp: drivenFrom_def stepFate_def less_Suc_eq nth_list_update)
  qed
  moreover have "(\<forall>k<length (r_steps r). i \<le> k \<longrightarrow> stepStatus (r_steps r' ! k) = StepDone) \<longleftrightarrow>
      (\<forall>k<length (r_steps r). Suc i \<le> k \<longrightarrow> stepStatus (r_steps r' ! k) = StepDone) \<and> stepStatus s' = StepDone"
    unfolding all_from_split [OF assms(2)] by (simp add: i conj_commute)
  moreover have "ok \<longleftrightarrow> (\<forall>k<length (r_steps r). Suc i \<le> k \<longrightarrow> stepStatus (r_steps r' ! k) = StepDone)"
    using assms(1) by (simp add: drivenFrom_def)
  ultimately show ?thesis using only len unfolding drivenFrom_def by blast
qed

lemma recoverSteps_row:
  assumes "getRow (rcStore R) (entryId e) = Some r" "i + length ss = length (r_steps r)" "drop i (r_steps r) = ss"
    and "store_inv (rcStore R)"
  shows "\<exists>r'. getRow (rcStore (snd (recoverSteps reg now e i ss R))) (entryId e) = Some r' \<and>
    drivenFrom reg i r r' (fst (recoverSteps reg now e i ss R)) \<and>
    (\<forall>j. j \<noteq> entryId e \<longrightarrow> getRow (rcStore (snd (recoverSteps reg now e i ss R))) j = getRow (rcStore R) j) \<and>
    store_inv (rcStore (snd (recoverSteps reg now e i ss R)))"
  using assms
proof (induction ss arbitrary: i R r)
  case Nil
  then show ?case by (auto simp: drivenFrom_def)
next
  case (Cons s ss)
  have i: "i < length (r_steps r)" using Cons.prems(2) by simp
  have s: "r_steps r ! i = s" and ss: "drop (Suc i) (r_steps r) = ss"
    using Cons.prems(3) Cons_nth_drop_Suc [OF i] by simp_all
  consider (fin) "stepStatus s = StepDone"
    | (none) "stepStatus s \<noteq> StepDone" "reg (stepKind s) = None"
    | (ran) h where "stepStatus s \<noteq> StepDone" "reg (stepKind s) = Some h"
    by blast
  then show ?case
  proof cases
    case fin
    then obtain r' where "getRow (rcStore (snd (recoverSteps reg now e (Suc i) ss R))) (entryId e) = Some r'"
      "drivenFrom reg (Suc i) r r' (fst (recoverSteps reg now e (Suc i) ss R))"
      "\<forall>j. j \<noteq> entryId e \<longrightarrow> getRow (rcStore (snd (recoverSteps reg now e (Suc i) ss R))) j = getRow (rcStore R) j"
      "store_inv (rcStore (snd (recoverSteps reg now e (Suc i) ss R)))"
      using Cons.IH [of R r "Suc i"] Cons.prems ss by auto
    then show ?thesis using fin drivenFrom_skip [of reg i r r'] i s by auto
  next
    case none
    let ?R = "addFailure e (stepKind s) (noHandlerMsg (stepKind s)) R"
    obtain r' where "getRow (rcStore (snd (recoverSteps reg now e (Suc i) ss ?R))) (entryId e) = Some r'"
      "drivenFrom reg (Suc i) r r' (fst (recoverSteps reg now e (Suc i) ss ?R))"
      "\<forall>j. j \<noteq> entryId e \<longrightarrow> getRow (rcStore (snd (recoverSteps reg now e (Suc i) ss ?R))) j = getRow (rcStore R) j"
      "store_inv (rcStore (snd (recoverSteps reg now e (Suc i) ss ?R)))"
      using Cons.IH [of ?R r "Suc i"] Cons.prems ss by auto
    then show ?thesis using none drivenFrom_skip [of reg i r r'] i s by auto
  next
    case ran
    obtain x w where x: "h (stepPayload s) e (rcWorld R) = (x, w)" by (cases "h (stepPayload s) e (rcWorld R)")
    define t where "t = (if x = None then StepDone else StepFailed)"
    define M where "M = R\<lparr>rcWorld := w, rcStore := markStep (rcStore R) (entryId e) i t x now\<rparr>"
    define N where "N = (case x of None \<Rightarrow> M | Some msg \<Rightarrow> addFailure e (stepKind s) msg M)"
    let ?m = "r\<lparr>r_steps := (r_steps r)[i := touchStep s t x now], r_updatedAt := now\<rparr>"
    have NM: "rcStore N = markStep (rcStore R) (entryId e) i t x now" by (simp add: N_def M_def split: option.splits)
    have get: "getRow (rcStore N) j = (if j = entryId e then Some ?m else getRow (rcStore R) j)" for j
      unfolding NM using getRow_markStep [OF Cons.prems(1) i] s by simp
    have step: "recoverSteps reg now e i (s # ss) R =
        (t = StepDone \<and> fst (recoverSteps reg now e (Suc i) ss N), snd (recoverSteps reg now e (Suc i) ss N))"
      using ran x by (simp add: N_def M_def t_def split: option.splits)
    obtain r' where r': "getRow (rcStore (snd (recoverSteps reg now e (Suc i) ss N))) (entryId e) = Some r'"
      "drivenFrom reg (Suc i) ?m r' (fst (recoverSteps reg now e (Suc i) ss N))"
      "\<forall>j. j \<noteq> entryId e \<longrightarrow> getRow (rcStore (snd (recoverSteps reg now e (Suc i) ss N))) j = getRow (rcStore N) j"
      "store_inv (rcStore (snd (recoverSteps reg now e (Suc i) ss N)))"
      using Cons.IH [of N ?m "Suc i"] get Cons.prems ss markStep_inv [OF Cons.prems(4)] NM by auto
    have "drivenFrom reg i r r' (fst (recoverSteps reg now e (Suc i) ss N) \<and> stepStatus (touchStep s t x now) = StepDone)"
      by (rule drivenFrom_mark [OF r'(2) i]) (use ran s in \<open>auto simp: t_def\<close>)
    then show ?thesis unfolding step using r'(1,3,4) get by (auto simp: conj_commute)
  qed
qed

text \<open>The row a recovery pass leaves for an unfinished row \<open>r\<close>.\<close>

definition recovered :: "'w registry \<Rightarrow> ms \<Rightarrow> Row \<Rightarrow> Row \<Rightarrow> bool" where
  "recovered reg now r r' \<longleftrightarrow>
     (if allStepsDone (r_steps r)
      then r' = (if r_status r = Replicating then r\<lparr>r_status := Pending, r_updatedAt := now, r_nextAttemptAt := None\<rparr> else r)
      else \<exists>m ok. drivenFrom reg 0 r m ok \<and> r' = (if ok then completeRow now m else m))"

lemma markRow_pending: "markRow base Pending noInfo now r = r\<lparr>r_status := Pending, r_updatedAt := now, r_nextAttemptAt := None\<rparr>"
  by (simp add: markRow_def noInfo_def)

lemma recoverEntry_row:
  assumes "getRow (rcStore R) (r_id r) = Some r" "store_inv (rcStore R)"
  shows "store_inv (rcStore (recoverEntry reg now (rowToEntry r) R)) \<and>
    (\<exists>r'. getRow (rcStore (recoverEntry reg now (rowToEntry r) R)) (r_id r) = Some r' \<and> recovered reg now r r') \<and>
    (\<forall>j. j \<noteq> r_id r \<longrightarrow> getRow (rcStore (recoverEntry reg now (rowToEntry r) R)) j = getRow (rcStore R) j)"
proof (cases "allStepsDone (r_steps r)")
  case True
  have "store_inv (markEntryStatus (rcStore R) (r_id r) Pending noInfo now)"
    using assms(2) by (rule store_step_inv [OF store_step.status_step])
  then show ?thesis using True assms
    by (simp add: recoverEntry_def recovered_def Let_def markEntryStatus_def getRow_updRow markRow_pending)
next
  case False
  let ?e = "rowToEntry r"
  let ?S = "recoverSteps reg now ?e 0 (r_steps r) R"
  obtain m where m: "getRow (rcStore (snd ?S)) (r_id r) = Some m" "drivenFrom reg 0 r m (fst ?S)"
    "\<forall>j. j \<noteq> r_id r \<longrightarrow> getRow (rcStore (snd ?S)) j = getRow (rcStore R) j" "store_inv (rcStore (snd ?S))"
    using recoverSteps_row [of R ?e r 0 "r_steps r" reg now] assms by auto
  have st: "rcStore (recoverEntry reg now ?e R) =
      (if fst ?S then markCompleted (rcStore (snd ?S)) (r_id r) now else rcStore (snd ?S))"
    using False by (simp add: recoverEntry_def split_beta Let_def)
  have inv: "store_inv (markCompleted (rcStore (snd ?S)) (r_id r) now)"
    using m(4) by (rule store_step_inv [OF store_step.completed_step])
  have get: "getRow (markCompleted (rcStore (snd ?S)) (r_id r) now) j =
      (if j = r_id r then Some (completeRow now m) else getRow (rcStore R) j)" for j
    using m(1,3) by (simp add: markCompleted_def getRow_updRow)
  show ?thesis
  proof (cases "fst ?S")
    case True
    have "recovered reg now r (completeRow now m)"
      using False m(2) True by (auto simp: recovered_def)
    then show ?thesis unfolding st using True inv get by simp
  next
    case notok: False
    have "recovered reg now r m" using False m(2) notok by (auto simp: recovered_def)
    then show ?thesis unfolding st using notok m by simp
  qed
qed

lemma recover_fold:
  fixes R :: "'w Recovery" and reg :: "'w registry" and now :: ms
  assumes "store_inv (rcStore R)" "distinct (map r_id rs)" "\<forall>r\<in>set rs. getRow (rcStore R) (r_id r) = Some r"
  defines "R' \<equiv> fold (recoverEntry reg now) (map rowToEntry rs) R"
  shows "store_inv (rcStore R') \<and>
    (\<forall>r\<in>set rs. \<exists>r'. getRow (rcStore R') (r_id r) = Some r' \<and> recovered reg now r r') \<and>
    (\<forall>j. j \<notin> r_id ` set rs \<longrightarrow> getRow (rcStore R') j = getRow (rcStore R) j)"
  using assms(1-3) unfolding R'_def
proof (induction rs arbitrary: R)
  case (Cons r rs)
  let ?Q = "recoverEntry reg now (rowToEntry r) R"
  have r: "store_inv (rcStore ?Q)" "\<exists>r'. getRow (rcStore ?Q) (r_id r) = Some r' \<and> recovered reg now r r'"
    "\<forall>j. j \<noteq> r_id r \<longrightarrow> getRow (rcStore ?Q) j = getRow (rcStore R) j"
    using recoverEntry_row [of R r reg now] Cons.prems by auto
  have rest: "\<forall>x\<in>set rs. getRow (rcStore ?Q) (r_id x) = Some x"
  proof
    fix x assume "x \<in> set rs"
    moreover from this have "r_id x \<noteq> r_id r" using Cons.prems(2) by (auto simp: image_iff)
    ultimately show "getRow (rcStore ?Q) (r_id x) = Some x" using Cons.prems(3) r(3) by simp
  qed
  have new: "r_id r \<notin> r_id ` set rs" using Cons.prems(2) by simp
  let ?F = "fold (recoverEntry reg now) (map rowToEntry rs) ?Q"
  have IH: "store_inv (rcStore ?F)" "\<forall>x\<in>set rs. \<exists>r'. getRow (rcStore ?F) (r_id x) = Some r' \<and> recovered reg now x r'"
    "\<forall>j. j \<notin> r_id ` set rs \<longrightarrow> getRow (rcStore ?F) j = getRow (rcStore ?Q) j"
    using Cons.IH [OF r(1) _ rest] Cons.prems(2) by auto
  have "getRow (rcStore ?F) (r_id r) = getRow (rcStore ?Q) (r_id r)" using IH(3) new by blast
  then show ?case using IH r by auto
qed simp

lemma recovered_driven:
  assumes "recovered reg now r r'" "\<not> allStepsDone (r_steps r)" "\<not> r_completed r"
  shows "r_payload r' = r_payload r \<and> r_sequenceId r' = r_sequenceId r \<and> length (r_steps r') = length (r_steps r) \<and>
    (\<forall>k<length (r_steps r). stepFate reg (r_steps r ! k) (r_steps r' ! k)) \<and>
    r_completed r' = allStepsDone (r_steps r') \<and>
    r_status r' = (if allStepsDone (r_steps r') then Replicated else r_status r)"
proof -
  obtain m ok where d: "drivenFrom reg 0 r m ok" "r' = (if ok then completeRow now m else m)"
    using assms(1,2) by (auto simp: recovered_def)
  obtain ss t where m: "m = r\<lparr>r_steps := ss, r_updatedAt := t\<rparr>"
    using d(1) by (auto simp: drivenFrom_def onlySteps_def)
  have "length ss = length (r_steps r)" "\<forall>k<length (r_steps r). stepFate reg (r_steps r ! k) (ss ! k)" "ok = allStepsDone ss"
    using d(1) by (auto simp: drivenFrom_def m allStepsDone_def list_all_length)
  then show ?thesis using assms(3) unfolding d(2) m by (cases ok) (simp_all add: completeRow_def)
qed

lemma recover_pass:
  assumes inv: "store_inv st" and run: "recoverOutbox reg now w st = (report, w', st')"
  shows "getRow st i = None \<Longrightarrow> getRow st' i = None"
    and "getRow st i = Some r \<Longrightarrow> r_completed r \<Longrightarrow> getRow st' i = Some r"
    and "getRow st i = Some r \<Longrightarrow> \<not> r_completed r \<Longrightarrow> \<exists>r'. getRow st' i = Some r' \<and> recovered reg now r r'"
proof -
  define rs where "rs = filter (\<lambda>r. \<not> r_completed r) (entries st)"
  define R where "R = \<lparr>rcStore = st, rcWorld = w,
     rcReport = \<lparr>discovered = length (listUnfinished st), recCompleted = 0, stillUnfinished = [], stepFailures = [],
                 skippedReplicatorRows = 0, requeuedReplicating = 0\<rparr>\<rparr>"
  have st': "st' = rcStore (fold (recoverEntry reg now) (map rowToEntry rs) R)"
    using run by (simp add: recoverOutbox_def listUnfinished_def rs_def R_def Let_def)
  have got: "\<forall>r\<in>set rs. getRow st (r_id r) = Some r"
    using inv by (auto simp: rs_def getRow_def store_inv_def intro: ob.get_unique)
  have "distinct (map r_id rs)" using inv by (simp add: rs_def store_inv_def distinct_map_filter)
  then have pass: "\<forall>r\<in>set rs. \<exists>r'. getRow st' (r_id r) = Some r' \<and> recovered reg now r r'"
    "\<forall>j. j \<notin> r_id ` set rs \<longrightarrow> getRow st' j = getRow st j"
    using recover_fold [of R rs reg now] inv got unfolding st' by (simp_all add: R_def)
  show "getRow st' i = None" if "getRow st i = None"
  proof -
    have "i \<notin> r_id ` set rs" using that by (auto simp: getRow_None rs_def)
    then show ?thesis using pass(2) that by simp
  qed
  show "getRow st' i = Some r" if "getRow st i = Some r" "r_completed r"
  proof -
    have "i \<notin> r_id ` set rs" using that got by (auto simp: rs_def)
    then show ?thesis using pass(2) that(1) by simp
  qed
  show "\<exists>r'. getRow st' i = Some r' \<and> recovered reg now r r'" if "getRow st i = Some r" "\<not> r_completed r"
    using getRow_SomeD [OF that(1)] that(2) pass(1) by (auto simp: rs_def)
qed


definition twoStepSpec :: WithOutboxSpec where
  "twoStepSpec = \<lparr>woId = Some ''c'', woOperation = ''store'', woInitiator = ''test'',
     woSteps = [\<lparr>plKind = ''graph'', plPayload = None\<rparr>, \<lparr>plKind = ''vector'', plPayload = None\<rparr>], woRemoveOnComplete = None\<rparr>"

definition crashedCallback :: "unit callback" where
  "crashedCallback e = ([(0, StepDone, None)], Inl ''down'')"

definition crashedStore :: Store where
  "crashedStore = snd (withOutbox (openStore 500) twoStepSpec ''u'' 5 crashedCallback)"

lemma crashedStore_row: "\<exists>r. getRow crashedStore ''c'' = Some r \<and> \<not> r_completed r \<and> \<not> allStepsDone (r_steps r) \<and>
    length (r_steps r) = 2"
  by (simp add: crashedStore_def withOutbox_def coordEntry_def twoStepSpec_def crashedCallback_def markCalls_def
      record_defs markStep_def getRow_def tableGet_def updRow_def tableUpd_def DEFAULT_WORKSPACE_BACKFILL_def
      touchStep_def allStepsDone_def)

section \<open>The coordinator\<close>

text \<open>The status the callback's \<open>markStep\<close> calls leave on step \<open>k\<close>.\<close>

definition finalStatus :: "(nat \<times> StepStatus \<times> string option) list \<Rightarrow> nat \<Rightarrow> StepStatus \<Rightarrow> StepStatus" where
  "finalStatus calls k t = fold (\<lambda>(j, s, err) t. if j = k then s else t) calls t"

lemma markCalls_Cons: "markCalls i now ((k, s, err) # calls) st = markCalls i now calls (markStep st i k s err now)"
  by (simp add: markCalls_def)

lemma markCalls_row:
  assumes "getRow st i = Some r"
  shows "\<exists>r'. getRow (markCalls i now calls st) i = Some r' \<and> onlySteps r r' \<and>
    length (r_steps r') = length (r_steps r) \<and>
    (\<forall>k<length (r_steps r). stepStatus (r_steps r' ! k) = finalStatus calls k (stepStatus (r_steps r ! k))) \<and>
    (\<forall>j. j \<noteq> i \<longrightarrow> getRow (markCalls i now calls st) j = getRow st j)"
  using assms
proof (induction calls arbitrary: st r)
  case Nil
  then show ?case by (auto simp: markCalls_def finalStatus_def)
next
  case (Cons c calls)
  obtain k s err where c: "c = (k, s, err)" by (cases c)
  define m where "m = (if k < length (r_steps r)
    then r\<lparr>r_steps := (r_steps r)[k := touchStep (r_steps r ! k) s err now], r_updatedAt := now\<rparr> else r)"
  have get: "getRow (markStep st i k s err now) j = (if j = i then Some m else getRow st j)" for j
    using Cons.prems by (cases "k < length (r_steps r)") (auto simp: m_def getRow_markStep, auto simp: markStep_def)
  then obtain r' where r': "getRow (markCalls i now calls (markStep st i k s err now)) i = Some r'" "onlySteps m r'"
    "length (r_steps r') = length (r_steps m)"
    "\<forall>q<length (r_steps m). stepStatus (r_steps r' ! q) = finalStatus calls q (stepStatus (r_steps m ! q))"
    "\<forall>j. j \<noteq> i \<longrightarrow> getRow (markCalls i now calls (markStep st i k s err now)) j = getRow (markStep st i k s err now) j"
    using Cons.IH [of "markStep st i k s err now" m] by auto
  have m: "onlySteps r m" "length (r_steps m) = length (r_steps r)"
    "\<forall>q<length (r_steps r). stepStatus (r_steps m ! q) = (if q = k then s else stepStatus (r_steps r ! q))"
    by (auto simp: m_def onlySteps_def nth_list_update)
       (rule exI [of _ "r_steps r"], rule exI [of _ "r_updatedAt r"], simp)
  have "\<forall>q<length (r_steps r). stepStatus (r_steps r' ! q) = finalStatus (c # calls) q (stepStatus (r_steps r ! q))"
    using r'(4) m(2,3) by (simp add: finalStatus_def c)
  then show ?case
    unfolding c markCalls_Cons using r'(1,3,5) m(1,2) onlySteps_trans [OF m(1) r'(2)] get c by auto
qed

lemma markCalls_reachable: "store_reachable st \<Longrightarrow> store_reachable (markCalls i now calls st)"
proof (induction calls arbitrary: st)
  case (Cons c calls)
  then show ?case
    by (cases c) (auto simp: markCalls_Cons intro: Cons.IH store_reachable.stepped store_step.mark_step_step)
qed (simp add: markCalls_def)

definition coordRow :: "WithOutboxSpec \<Rightarrow> string \<Rightarrow> ms \<Rightarrow> int \<Rightarrow> Row" where
  "coordRow spec uuid now s = rowOfEntry (coordEntry spec uuid now) DEFAULT_WORKSPACE_BACKFILL s SyncVectorMirror Pending"

lemma coordRow_simps [simp]:
  "r_id (coordRow spec uuid now s) = entryId (coordEntry spec uuid now)"
  "r_steps (coordRow spec uuid now s) = steps (coordEntry spec uuid now)"
  "r_status (coordRow spec uuid now s) = Pending" "r_completed (coordRow spec uuid now s) = False"
  by (simp_all add: coordRow_def rowOfEntry_def) (simp add: coordEntry_def)

lemma coord_record:
  "recordEntry st (coordEntry spec uuid now) =
     Inr (setEntries (tablePut r_id (coordRow spec uuid now (nextSequenceId st DEFAULT_WORKSPACE_BACKFILL)) (entries st)) st)"
  by (subst recordEntry_eq) (simp_all add: coordRow_def, simp_all add: coordEntry_def Let_def)

lemma coord_steps [simp]:
  "length (steps (coordEntry spec uuid now)) = length (woSteps spec)"
  "k < length (woSteps spec) \<Longrightarrow> stepStatus (steps (coordEntry spec uuid now) ! k) = StepPending"
  by (simp_all add: coordEntry_def)

lemma coord_marked:
  fixes spec uuid now st
  defines "i \<equiv> entryId (coordEntry spec uuid now)"
    and "st1 \<equiv> setEntries (tablePut r_id (coordRow spec uuid now (nextSequenceId st DEFAULT_WORKSPACE_BACKFILL)) (entries st)) st"
  shows "\<exists>r. (\<forall>j. getRow (markCalls i now calls st1) j = (if j = i then Some r else getRow st j)) \<and>
    r_status r = Pending \<and> \<not> r_completed r \<and>
    map stepStatus (r_steps r) = map (\<lambda>k. finalStatus calls k StepPending) [0..<length (woSteps spec)] \<and>
    (allStepsDone (r_steps r) \<longleftrightarrow> (\<forall>k<length (woSteps spec). finalStatus calls k StepPending = StepDone))"
proof -
  define row where "row = coordRow spec uuid now (nextSequenceId st DEFAULT_WORKSPACE_BACKFILL)"
  have get1: "getRow st1 j = (if j = i then Some row else getRow st j)" for j
    unfolding st1_def getRow_def ob.get_put by (simp add: row_def i_def)
  obtain r where r: "getRow (markCalls i now calls st1) i = Some r" "onlySteps row r"
    "length (r_steps r) = length (r_steps row)"
    "\<forall>k<length (r_steps row). stepStatus (r_steps r ! k) = finalStatus calls k (stepStatus (r_steps row ! k))"
    "\<forall>j. j \<noteq> i \<longrightarrow> getRow (markCalls i now calls st1) j = getRow st1 j"
    using markCalls_row [of st1 i row now calls] get1 by auto
  have sts: "map stepStatus (r_steps r) = map (\<lambda>k. finalStatus calls k StepPending) [0..<length (woSteps spec)]"
    using r(3,4) by (intro nth_equalityI) (simp_all add: row_def)
  have fin: "allStepsDone (r_steps r) \<longleftrightarrow> (\<forall>k<length (woSteps spec). finalStatus calls k StepPending = StepDone)"
    using r(3,4) by (simp add: allStepsDone_def list_all_length row_def)
  have "r_status r = Pending" "\<not> r_completed r" using r(2) by (auto simp: onlySteps_def row_def)
  moreover have "\<forall>j. getRow (markCalls i now calls st1) j = (if j = i then Some r else getRow st j)"
    using r(1,5) get1 by simp
  ultimately show ?thesis using sts fin by blast
qed

lemma completeRow_simps [simp]:
  "r_completed (completeRow now r)" "r_status (completeRow now r) = Replicated" "r_steps (completeRow now r) = r_steps r"
  by (simp_all add: completeRow_def)

text \<open>Note: the coordinator records before it runs the callback and completes only a finished checklist.
  Whatever the callback throws is rethrown and the entry stays, unfinished, for recovery. If it
  returns, its result is returned; the entry is removed (or kept, completed, when asked) exactly
  when the last mark on every planned step was \<open>done\<close>, and otherwise stays unfinished. No other row
  changes.\<close>

theorem coordinator_completes_finished_only:
  assumes "handler (coordEntry spec uuid now) = (calls, out)"
    and "withOutbox st spec uuid now handler = (res, st')"
  shows "(let i = entryId (coordEntry spec uuid now);
              finished = (\<forall>k<length (woSteps spec). finalStatus calls k StepPending = StepDone)
     in (case out of Inl err \<Rightarrow> res = CoordThrown err | Inr a \<Rightarrow> res = CoordReturned a) \<and>
        (case getRow st' i of
           None \<Rightarrow> (\<exists>a. out = Inr a) \<and> finished \<and> woRemoveOnComplete spec \<noteq> Some False
         | Some r \<Rightarrow>
             r_completed r = ((\<exists>a. out = Inr a) \<and> finished) \<and>
             (r_completed r \<longrightarrow> r_status r = Replicated \<and> woRemoveOnComplete spec = Some False) \<and>
             map stepStatus (r_steps r) = map (\<lambda>k. finalStatus calls k StepPending) [0..<length (woSteps spec)]) \<and>
        (\<forall>j. j \<noteq> i \<longrightarrow> getRow st' j = getRow st j))"
proof -
  define i where "i = entryId (coordEntry spec uuid now)"
  define st1 where "st1 = setEntries (tablePut r_id (coordRow spec uuid now (nextSequenceId st DEFAULT_WORKSPACE_BACKFILL)) (entries st)) st"
  define finished where "finished = (\<forall>k<length (woSteps spec). finalStatus calls k StepPending = StepDone)"
  define st2 where "st2 = markCalls i now calls st1"
  obtain r where get: "\<forall>j. getRow st2 j = (if j = i then Some r else getRow st j)"
    and r: "r_status r = Pending" "\<not> r_completed r"
      "map stepStatus (r_steps r) = map (\<lambda>k. finalStatus calls k StepPending) [0..<length (woSteps spec)]"
      "allStepsDone (r_steps r) \<longleftrightarrow> finished"
    using coord_marked [of spec uuid now calls st] unfolding i_def st1_def finished_def st2_def by blast
  have run: "withOutbox st spec uuid now handler =
      (case out of
         Inl err \<Rightarrow> (CoordThrown err, st2)
       | Inr a \<Rightarrow>
           (CoordReturned a,
            if finished
            then (if woRemoveOnComplete spec \<noteq> Some False then removeRow (updRow st2 i (completeRow now)) i
                  else updRow st2 i (completeRow now))
            else st2))"
    using assms(1) get r(4)
    by (simp add: withOutbox_def coord_record st1_def [symmetric] i_def [symmetric] st2_def [symmetric]
        completeIfAllStepsDone_def Let_def split: sum.splits)
  have getc: "getRow (updRow st2 i (completeRow now)) j = (if j = i then Some (completeRow now r) else getRow st j)" for j
    using get by (simp add: getRow_updRow)
  show ?thesis
    using run assms(2) get getc r
    by (cases out)
       (auto simp: Let_def i_def [symmetric] finished_def [symmetric] removeRow_get split: if_splits)
qed

theorem coordinator_completes_finished_only_witness:
  "withOutbox (openStore 500) twoStepSpec ''u'' 5 crashedCallback = (CoordThrown ''down'', crashedStore) \<and>
   (\<exists>r. getRow crashedStore ''c'' = Some r \<and> \<not> r_completed r)"
proof -
  have i: "entryId (coordEntry twoStepSpec ''u'' 5) = ''c''" by (simp add: coordEntry_def twoStepSpec_def)
  have call: "crashedCallback (coordEntry twoStepSpec ''u'' 5) = ([(0, StepDone, None)], Inl ''down'')"
    by (simp add: crashedCallback_def)
  obtain res where run: "withOutbox (openStore 500) twoStepSpec ''u'' 5 crashedCallback = (res, crashedStore)"
    by (cases "withOutbox (openStore 500) twoStepSpec ''u'' 5 crashedCallback") (simp add: crashedStore_def)
  from coordinator_completes_finished_only [where handler = crashedCallback, OF call run] run show ?thesis
    by (auto simp: Let_def i split: option.splits)
qed

lemma withOutbox_reachable:
  assumes "store_reachable st"
  shows "store_reachable (snd (withOutbox st spec uuid now handler))"
proof -
  let ?e = "coordEntry spec uuid now"
  have rec: "store_reachable st1" if "recordEntry st ?e = Inr st1" for st1
    by (rule store_reachable.stepped [OF assms store_step.record_step [OF _ that]]) (simp add: coordEntry_def)
  show ?thesis
    by (auto simp: withOutbox_def Let_def split_beta assms rec split: sum.splits
        intro!: markCalls_reachable store_reachable.stepped [OF _ store_step.complete_step]
          store_reachable.stepped [OF _ store_step.remove_step])
qed


end
