(* ===== verification/OutboxWatch.thy ===== *)
theory OutboxWatch
  imports OutboxStoreProps
begin

text \<open>
  The observers of the outbox: the backpressure cache in front of every write endpoint
  (\<open>outbox/lagCache.ts\<close>), the dead-letter alarm (\<open>outbox/deadLetterWatch.ts\<close>) and the reads behind
  \<open>awaitRecallable\<close> (\<open>outbox/recallableQueries.ts\<close>).

  A waiter of the cache is the token of the promise it resolves. The log lines of the alarm are
  values of \<open>WatchLine\<close>, one constructor per template string with the numbers it interpolates. A
  \<open>Record<string, number>\<close> of counts is its list of entries.
\<close>

section \<open>\<open>outbox/lagCache.ts\<close>\<close>

record LagCacheSnapshot =
  snapLagSeconds :: int
  snapDepth :: nat
  refreshedAt :: ms

record BackpressureDecision =
  shouldBlock :: bool
  currentLagSeconds :: int
  thresholdSeconds :: int
  outboxDepth :: nat
  bpDepthThreshold :: int
  cacheMiss :: bool

record LagCacheConfig =
  defaultLagThresholdSeconds :: int
  depthThreshold :: int
  thresholdResolver :: "(string \<Rightarrow> int) option"

record LagCache =
  lagCfg :: LagCacheConfig
  snapshots :: "string \<rightharpoonup> LagCacheSnapshot"
  warnedMiss :: "string list"
  lastRefreshAt :: ms
  refreshWaiters :: "nat list"

definition DEFAULT_LAG_THRESHOLD_SECONDS :: int where
  "DEFAULT_LAG_THRESHOLD_SECONDS = 30"

definition DEFAULT_DEPTH_THRESHOLD :: int where
  "DEFAULT_DEPTH_THRESHOLD = 10000"

text \<open>\<open>Number(env)\<close> that is not a finite number is \<open>None\<close>.\<close>

definition readEnvLagCacheConfig :: "int option \<Rightarrow> int option \<Rightarrow> int \<times> int" where
  "readEnvLagCacheConfig lagEnv depthEnv =
     ((case lagEnv of Some n \<Rightarrow> if n > 0 then n else DEFAULT_LAG_THRESHOLD_SECONDS | None \<Rightarrow> DEFAULT_LAG_THRESHOLD_SECONDS),
      (case depthEnv of Some n \<Rightarrow> if n > 0 then n else DEFAULT_DEPTH_THRESHOLD | None \<Rightarrow> DEFAULT_DEPTH_THRESHOLD))"

definition newLagCache :: "LagCacheConfig \<Rightarrow> LagCache" where
  "newLagCache cfg = \<lparr>lagCfg = cfg, snapshots = Map.empty, warnedMiss = [], lastRefreshAt = 0, refreshWaiters = []\<rparr>"

definition resolveThreshold :: "LagCacheConfig \<Rightarrow> string \<Rightarrow> int" where
  "resolveThreshold cfg ws =
     (case thresholdResolver cfg of None \<Rightarrow> defaultLagThresholdSeconds cfg | Some f \<Rightarrow> f ws)"

text \<open>\<open>refresh\<close>, with the waiters it wakes.\<close>

definition refreshCache :: "LagCache \<Rightarrow> OutboxAggregateStats \<Rightarrow> ms \<Rightarrow> nat list \<times> LagCache" where
  "refreshCache c stats now =
     (refreshWaiters c,
      c\<lparr>snapshots := map_of (map (\<lambda>(ws, s). (ws, \<lparr>snapLagSeconds = wsLagSeconds s, snapDepth = wsDepth s, refreshedAt = now\<rparr>))
                              (perWorkspace stats)),
        warnedMiss := [], lastRefreshAt := now, refreshWaiters := []\<rparr>)"

text \<open>
  \<open>waitForRefresh\<close> registers a waiter, unless its signal is already aborted; the timer and the
  abort event remove it again.
\<close>

definition waitForRefresh :: "LagCache \<Rightarrow> nat \<Rightarrow> bool \<Rightarrow> bool \<times> LagCache" where
  "waitForRefresh c waiter aborted =
     (if aborted then (True, c\<lparr>refreshWaiters := removeAll waiter (refreshWaiters c)\<rparr>)
      else (False, c\<lparr>refreshWaiters := List.insert waiter (refreshWaiters c)\<rparr>))"

definition waiterDone :: "LagCache \<Rightarrow> nat \<Rightarrow> LagCache" where
  "waiterDone c waiter = c\<lparr>refreshWaiters := removeAll waiter (refreshWaiters c)\<rparr>"

definition shouldBackpressure :: "LagCache \<Rightarrow> string \<Rightarrow> BackpressureDecision \<times> LagCache" where
  "shouldBackpressure c ws =
     (let threshold = resolveThreshold (lagCfg c) ws
      in case snapshots c ws of
           None \<Rightarrow>
             (\<lparr>shouldBlock = False, currentLagSeconds = 0, thresholdSeconds = threshold, outboxDepth = 0,
               bpDepthThreshold = depthThreshold (lagCfg c), cacheMiss = True\<rparr>,
              c\<lparr>warnedMiss := List.insert ws (warnedMiss c)\<rparr>)
         | Some snap \<Rightarrow>
             (\<lparr>shouldBlock = (snapLagSeconds snap > threshold \<or> int (snapDepth snap) > depthThreshold (lagCfg c)),
               currentLagSeconds = snapLagSeconds snap, thresholdSeconds = threshold, outboxDepth = snapDepth snap,
               bpDepthThreshold = depthThreshold (lagCfg c), cacheMiss = False\<rparr>,
              c\<lparr>warnedMiss := removeAll ws (warnedMiss c)\<rparr>))"

section \<open>\<open>outbox/deadLetterWatch.ts\<close>\<close>

definition DEAD_LETTER_ESCALATE_TICKS :: nat where
  "DEAD_LETTER_ESCALATE_TICKS = 3"

record DeadLetterWatchState =
  lastDeadCount :: "int option"
  consecutiveIncreases :: nat
  lastByReason :: "(string \<times> int) list option"

datatype WatchLine =
    StartupNote int
  | DataLoss int "(string \<times> int) list" int
  | StillClimbing nat int

definition newDeadLetterWatchState :: DeadLetterWatchState where
  "newDeadLetterWatchState = \<lparr>lastDeadCount = None, consecutiveIncreases = 0, lastByReason = None\<rparr>"

definition newReasons :: "(string \<times> int) list option \<Rightarrow> (string \<times> int) list option \<Rightarrow> (string \<times> int) list" where
  "newReasons byReason lastBy =
     filter (\<lambda>(r, n). n > 0)
       (map (\<lambda>(r, n). (r, n - (case map_of (case lastBy of None \<Rightarrow> [] | Some l \<Rightarrow> l) r of None \<Rightarrow> 0 | Some m \<Rightarrow> m)))
         (case byReason of None \<Rightarrow> [] | Some l \<Rightarrow> l))"

definition observeDeadLetters ::
  "DeadLetterWatchState \<Rightarrow> int \<Rightarrow> (string \<times> int) list option \<Rightarrow> DeadLetterWatchState \<times> WatchLine list" where
  "observeDeadLetters s dead byReason =
     (let base = \<lparr>lastDeadCount = Some dead, consecutiveIncreases = 0, lastByReason = byReason\<rparr>
      in case lastDeadCount s of
           None \<Rightarrow> (base, if dead > 0 then [StartupNote dead] else [])
         | Some was \<Rightarrow>
             if dead \<le> was then (base, [])
             else (let inc = consecutiveIncreases s + 1;
                       line = DataLoss (dead - was) (newReasons byReason (lastByReason s)) dead
                   in if inc \<ge> DEAD_LETTER_ESCALATE_TICKS
                      then (base, [line, StillClimbing DEAD_LETTER_ESCALATE_TICKS dead])
                      else (base\<lparr>consecutiveIncreases := inc\<rparr>, [line])))"

definition observeWatch ::
  "DeadLetterWatchState \<Rightarrow> int \<Rightarrow> int \<Rightarrow> (string \<times> int) list option \<Rightarrow> DeadLetterWatchState \<times> WatchLine list" where
  "observeWatch s dead superseded deadByReason =
     observeDeadLetters s (max 0 (dead - superseded))
       (map_option (filter (\<lambda>(r, n). r \<noteq> ''superseded'')) deadByReason)"

section \<open>\<open>outbox/recallableQueries.ts\<close>\<close>

datatype EmbedRowState = EmbedQueued | EmbedDead | EmbedReplicated

fun embedStateOfStatus :: "OutboxStatus \<Rightarrow> EmbedRowState option" where
  "embedStateOfStatus Pending = Some EmbedQueued"
| "embedStateOfStatus Failed = Some EmbedQueued"
| "embedStateOfStatus Replicating = Some EmbedQueued"
| "embedStateOfStatus Dead = Some EmbedDead"
| "embedStateOfStatus Replicated = Some EmbedReplicated"
| "embedStateOfStatus PendingCommit = None"

definition mergeEmbedState :: "(EmbedRowState \<times> int) option \<Rightarrow> EmbedRowState \<times> int \<Rightarrow> EmbedRowState \<times> int" where
  "mergeEmbedState cur next =
     (case cur of
        None \<Rightarrow> next
      | Some c \<Rightarrow> if snd next > snd c then next
                  else if snd next = snd c \<and> fst next = EmbedQueued then next else c)"

definition VERBATIM_PREFIX :: string where
  "VERBATIM_PREFIX = ''lore:''"

definition CHUNK :: nat where
  "CHUNK = 500"

definition embedTargetsOf :: "OutboxOperationKind \<Rightarrow> obj option \<Rightarrow> string list" where
  "embedTargetsOf kind pay =
     (case pay of None \<Rightarrow> []
      | Some p \<Rightarrow>
          if kind = VerbatimUpsert then
            (case strFld p ''id'' of
               Some i \<Rightarrow> if take (length VERBATIM_PREFIX) i = VERBATIM_PREFIX then [drop (length VERBATIM_PREFIX) i] else []
             | None \<Rightarrow> [])
          else if kind = EmbedBatch then
            (case arrFld p ''targetNodeIds'' of Some xs \<Rightarrow> strsOf xs | None \<Rightarrow> [])
          else [])"

text \<open>The rows of the two queries of one chunk, as (node id, status, sequence number).\<close>

definition verbatimHits :: "Store \<Rightarrow> string \<Rightarrow> string list \<Rightarrow> (string \<times> OutboxStatus \<times> int) list" where
  "verbatimHits st ws part =
     concat (map (\<lambda>r. case r_payload r of None \<Rightarrow> []
                       | Some p \<Rightarrow> (case fld p ''id'' of
                           Some (JStr pid) \<Rightarrow>
                             if List.member (map (\<lambda>n. VERBATIM_PREFIX @ n) part) pid
                             then [(drop (length VERBATIM_PREFIX) pid, r_status r, r_sequenceId r)] else []
                         | _ \<Rightarrow> []))
       (filter (\<lambda>r. r_workspace r = ws \<and> r_operationKind r = VerbatimUpsert) (entries st)))"

definition batchHits :: "Store \<Rightarrow> string \<Rightarrow> string list \<Rightarrow> (string \<times> OutboxStatus \<times> int) list" where
  "batchHits st ws part =
     concat (map (\<lambda>r. case r_payload r of None \<Rightarrow> []
                       | Some p \<Rightarrow> map (\<lambda>n. (n, r_status r, r_sequenceId r))
                                     (filter (List.member part) (strsOf (jsonEach (fld p ''targetNodeIds'')))))
       (filter (\<lambda>r. r_workspace r = ws \<and> r_operationKind r = EmbedBatch) (entries st)))"

definition mergeHit ::
  "string \<times> OutboxStatus \<times> int \<Rightarrow> (string \<rightharpoonup> EmbedRowState \<times> int) \<Rightarrow> (string \<rightharpoonup> EmbedRowState \<times> int)" where
  "mergeHit h best =
     (case h of (n, s, q) \<Rightarrow>
        (case embedStateOfStatus s of None \<Rightarrow> best | Some x \<Rightarrow> best(n \<mapsto> mergeEmbedState (best n) (x, q))))"

function embedChunks ::
  "Store \<Rightarrow> string \<Rightarrow> string list \<Rightarrow> (string \<rightharpoonup> EmbedRowState \<times> int) \<Rightarrow> (string \<rightharpoonup> EmbedRowState \<times> int)" where
  "embedChunks st ws ids best =
     (if ids = [] then best
      else let part = take CHUNK ids
           in embedChunks st ws (drop CHUNK ids)
                (fold mergeHit (batchHits st ws part) (fold mergeHit (verbatimHits st ws part) best)))"
  by pat_completeness auto
termination
  by (relation "measure (\<lambda>(st, ws, ids, best). length ids)") (auto simp: CHUNK_def)

declare embedChunks.simps [simp del]

definition embedStatesForNodes :: "Store \<Rightarrow> string \<Rightarrow> string list \<Rightarrow> (string \<rightharpoonup> EmbedRowState)" where
  "embedStatesForNodes st ws ids = (\<lambda>n. map_option fst (embedChunks st ws ids Map.empty n))"

record EmbedBacklog =
  highWaterSequenceId :: int
  ebQueued :: nat
  sampleNodeIds :: "string list"

definition embedKind :: "OutboxOperationKind \<Rightarrow> bool" where
  "embedKind k = (k = VerbatimUpsert \<or> k = EmbedBatch)"

fun addTargets :: "int \<Rightarrow> string list \<Rightarrow> string list \<Rightarrow> string list" where
  "addTargets limit [] out = out"
| "addTargets limit (i # is) out =
     (if int (length out) \<ge> limit then out
      else addTargets limit is (if List.member out i then out else out @ [i]))"

fun sampleRows :: "int \<Rightarrow> Row list \<Rightarrow> string list \<Rightarrow> string list" where
  "sampleRows limit [] out = out"
| "sampleRows limit (r # rs) out =
     (let out' = addTargets limit (embedTargetsOf (r_operationKind r) (r_payload r)) out
      in if int (length out') \<ge> limit then out' else sampleRows limit rs out')"

definition embedBacklog :: "Store \<Rightarrow> string \<Rightarrow> int option \<Rightarrow> int \<Rightarrow> EmbedBacklog" where
  "embedBacklog st ws upTo sampleLimit =
     (let hw = maxOr0 (map r_sequenceId (filter (\<lambda>r. r_workspace r = ws) (entries st)))
      in case upTo of
           None \<Rightarrow> \<lparr>highWaterSequenceId = hw, ebQueued = 0, sampleNodeIds = []\<rparr>
         | Some m \<Rightarrow>
             (let mine = filter (\<lambda>r. r_workspace r = ws \<and> embedKind (r_operationKind r) \<and> r_sequenceId r \<le> m) (entries st)
              in \<lparr>highWaterSequenceId = hw,
                  ebQueued = length (filter (\<lambda>r. queuedStatus (r_status r)) mine),
                  sampleNodeIds = sampleRows sampleLimit
                    (orderLimit (\<lambda>r. - r_sequenceId r) (nat (max 1 sampleLimit))
                      (filter (\<lambda>r. r_status r = Replicated) mine)) []\<rparr>))"

section \<open>The backpressure gate\<close>

lemma fold_min_le_iff: "fold min xs (a::int) < b \<longleftrightarrow> a < b \<or> (\<exists>x\<in>set xs. x < b)"
  by (induction xs arbitrary: a) (auto simp: min_less_iff_disj)

lemma minOr_less: "(\<exists>m. minOr xs = Some m \<and> m < b) \<longleftrightarrow> (\<exists>x\<in>set xs. x < b)"
  by (cases xs) (auto simp: minOr_def fold_min_le_iff)

lemma lag_over_iff:
  assumes "0 \<le> thr"
  shows "wsLagSeconds (wsStats st now ws) > thr \<longleftrightarrow>
    (\<exists>r\<in>set (entries st). r_workspace r = ws \<and> queuedStatus (r_status r) \<and> (now - r_createdAt r) div 1000 > thr)"
proof -
  let ?q = "filter (\<lambda>r. queuedStatus (r_status r)) (filter (\<lambda>r. r_workspace r = ws) (entries st))"
  have age: "(now - c) div 1000 > thr \<longleftrightarrow> c < now - 1000 * thr - 999" for c
  proof -
    define a q m where "a = now - c" and "q = a div 1000" and "m = a mod 1000"
    have "a = 1000 * q + m" "0 \<le> m" "m < 1000" by (simp_all add: a_def q_def m_def)
    then have "q > thr \<longleftrightarrow> a > 1000 * thr + 999" by linarith
    then show ?thesis unfolding q_def a_def by linarith
  qed
  have "wsLagSeconds (wsStats st now ws) > thr \<longleftrightarrow> (\<exists>m. minOr (map r_createdAt ?q) = Some m \<and> m < now - 1000 * thr - 999)"
    using assms by (auto simp: wsStats_def Let_def age split: option.splits)
  then show ?thesis unfolding minOr_less by (auto simp: age)
qed

lemma map_of_stats:
  "map_of (map ((\<lambda>(w, s). (w, g s)) \<circ> (\<lambda>w. (w, f w))) ws) w = (if w \<in> set ws then Some (g (f w)) else None)"
  by (induction ws) auto

lemma refreshed_snapshot:
  "snapshots (snd (refreshCache c (aggregateStats st now) t)) ws =
     (if \<exists>r\<in>set (entries st). r_workspace r = ws \<and> r_status r \<noteq> Replicated
      then Some \<lparr>snapLagSeconds = wsLagSeconds (wsStats st now ws), snapDepth = wsDepth (wsStats st now ws), refreshedAt = t\<rparr>
      else None)"
  unfolding refreshCache_def aggregateStats_def statsByWorkspace_def Let_def
  by (auto simp: map_of_stats)

lemma refreshed_cfg [simp]: "lagCfg (snd (refreshCache c s t)) = lagCfg c"
  by (simp add: refreshCache_def)

text \<open>Note: after a refresh from the store's statistics the gate answers exactly. It blocks a workspace's
  writes when some queued row is older than the lag threshold or when more rows are queued than
  the depth threshold, and never otherwise; a workspace with nothing but replicated rows is a cache
  miss and fails open.\<close>

theorem backpressure_exact:
  assumes "0 \<le> resolveThreshold (lagCfg c) ws" "0 \<le> depthThreshold (lagCfg c)"
  shows "(let d = fst (shouldBackpressure (snd (refreshCache c (aggregateStats st now) t)) ws)
     in (shouldBlock d \<longleftrightarrow>
          (\<exists>r\<in>set (entries st). r_workspace r = ws \<and> queuedStatus (r_status r) \<and>
             (now - r_createdAt r) div 1000 > resolveThreshold (lagCfg c) ws) \<or>
          int (length (filter (\<lambda>r. r_workspace r = ws \<and> queuedStatus (r_status r)) (entries st))) > depthThreshold (lagCfg c)) \<and>
        (cacheMiss d \<longleftrightarrow> (\<forall>r\<in>set (entries st). r_workspace r = ws \<longrightarrow> r_status r = Replicated)))"
proof (cases "\<exists>r\<in>set (entries st). r_workspace r = ws \<and> r_status r \<noteq> Replicated")
  case True
  have "wsDepth (wsStats st now ws) = length (filter (\<lambda>r. r_workspace r = ws \<and> queuedStatus (r_status r)) (entries st))"
    by (simp add: wsStats_def Let_def conj_commute)
  then show ?thesis using True
    by (auto simp: shouldBackpressure_def refreshed_snapshot Let_def lag_over_iff [OF assms(1)])
next
  case False
  then have none: "filter (\<lambda>r. r_workspace r = ws \<and> queuedStatus (r_status r)) (entries st) = []"
    by (auto simp: filter_empty_conv dest: queued_not_replicated)
  then show ?thesis using False assms(2)
    by (auto simp: shouldBackpressure_def refreshed_snapshot Let_def none filter_empty_conv queuedStatus_def)
qed

definition sampleCache :: LagCache where
  "sampleCache = newLagCache \<lparr>defaultLagThresholdSeconds = 30, depthThreshold = 10000, thresholdResolver = None\<rparr>"

theorem backpressure_exact_witness:
  "shouldBlock (fst (shouldBackpressure (snd (refreshCache sampleCache
     (aggregateStats (sampleStore [sampleRow ''a'' ''w'' 1 NodeUpsert [] Pending]) 31000) 31000)) ''w'')) = True"
  using backpressure_exact [of sampleCache "''w''" "sampleStore [sampleRow ''a'' ''w'' 1 NodeUpsert [] Pending]" 31000 31000]
  by (simp add: sampleCache_def newLagCache_def resolveThreshold_def Let_def sample_defs queuedStatus_def)

section \<open>The dead-letter alarm\<close>

fun watchRun :: "DeadLetterWatchState \<Rightarrow> (int \<times> (string \<times> int) list option) list \<Rightarrow> DeadLetterWatchState \<times> WatchLine list" where
  "watchRun s [] = (s, [])"
| "watchRun s ((d, b) # obs) =
     (let (s', ls) = observeDeadLetters s d b; (s'', ls') = watchRun s' obs in (s'', ls @ ls'))"

fun lossOf :: "WatchLine list \<Rightarrow> int" where
  "lossOf [] = 0"
| "lossOf (DataLoss n rs d # ls) = n + lossOf ls"
| "lossOf (_ # ls) = lossOf ls"

text \<open>The sum of the increases of a sequence of counts, and the length of its last run of increases.\<close>

fun gains :: "int \<Rightarrow> int list \<Rightarrow> int" where
  "gains was [] = 0"
| "gains was (d # ds) = max 0 (d - was) + gains d ds"

fun streak :: "int \<Rightarrow> nat \<Rightarrow> int list \<Rightarrow> nat" where
  "streak was n [] = n"
| "streak was n (d # ds) = (if d > was then streak d (n + 1) ds else streak d 0 ds)"

lemma lossOf_append: "lossOf (xs @ ys) = lossOf xs + lossOf ys"
  by (induction xs rule: lossOf.induct) simp_all

lemma observe_known:
  assumes "lastDeadCount s = Some was" "consecutiveIncreases s = n mod 3"
  shows "lossOf (snd (observeDeadLetters s d b)) = max 0 (d - was)"
    and "lastDeadCount (fst (observeDeadLetters s d b)) = Some d"
    and "consecutiveIncreases (fst (observeDeadLetters s d b)) = (if d > was then n + 1 else 0) mod 3"
    and "(\<exists>k t. StillClimbing k t \<in> set (snd (observeDeadLetters s d b))) \<longleftrightarrow> d > was \<and> 3 dvd (n + 1)"
  using assms by (auto simp: observeDeadLetters_def Let_def DEAD_LETTER_ESCALATE_TICKS_def mod_Suc dvd_eq_mod_eq_0)

lemma watchRun_known:
  assumes "lastDeadCount s = Some was" "consecutiveIncreases s = n mod 3"
  shows "lossOf (snd (watchRun s obs)) = gains was (map fst obs) \<and>
    lastDeadCount (fst (watchRun s obs)) = Some (last (was # map fst obs)) \<and>
    consecutiveIncreases (fst (watchRun s obs)) = streak was n (map fst obs) mod 3"
  using assms
proof (induction obs arbitrary: s was n)
  case (Cons o' obs)
  obtain d b where o': "o' = (d, b)" by (cases o')
  note k = observe_known [OF Cons.prems, of d b]
  show ?case using Cons.IH [OF k(2,3)] k(1) by (simp add: o' Let_def split_beta lossOf_append)
qed simp

lemma watchRun_first:
  "lossOf (snd (observeDeadLetters newDeadLetterWatchState d b)) = 0"
  "lastDeadCount (fst (observeDeadLetters newDeadLetterWatchState d b)) = Some d"
  "consecutiveIncreases (fst (observeDeadLetters newDeadLetterWatchState d b)) = 0 mod 3"
  by (simp_all add: observeDeadLetters_def newDeadLetterWatchState_def)

text \<open>Note: the alarm reports every dead letter once and only once. From the first observation on, the
  losses it announces add up to the sum of the increases of the count, whatever the operator
  drains in between; and an observation raises the "still climbing" escalation exactly when it is
  the third, sixth, ninth, ... increase in an unbroken run.\<close>

theorem dead_letter_alarm_exact:
  shows "lossOf (snd (watchRun newDeadLetterWatchState ((d0, b0) # obs))) = gains d0 (map fst obs) \<and>
    ((\<exists>k t. StillClimbing k t \<in>
        set (snd (observeDeadLetters (fst (watchRun newDeadLetterWatchState ((d0, b0) # obs))) d b))) \<longleftrightarrow>
      d > last (d0 # map fst obs) \<and> 3 dvd streak d0 0 (map fst obs @ [d]))"
proof -
  let ?s = "fst (observeDeadLetters newDeadLetterWatchState d0 b0)"
  let ?t = "fst (watchRun newDeadLetterWatchState ((d0, b0) # obs))"
  have run: "fst (watchRun ?s obs) = ?t"
    "snd (watchRun newDeadLetterWatchState ((d0, b0) # obs)) =
       snd (observeDeadLetters newDeadLetterWatchState d0 b0) @ snd (watchRun ?s obs)"
    by (simp_all add: split_beta Let_def)
  note w = watchRun_known [OF watchRun_first(2,3), of d0 b0 obs]
  have str: "streak was n (ds @ [x]) = (if x > last (was # ds) then streak was n ds + 1 else 0)" for was n ds x
    by (induction ds arbitrary: was n) auto
  have "(\<exists>k t. StillClimbing k t \<in> set (snd (observeDeadLetters ?t d b))) \<longleftrightarrow>
      d > last (d0 # map fst obs) \<and> 3 dvd (streak d0 0 (map fst obs) + 1)"
    using w unfolding run(1) by (intro observe_known(4)) simp_all
  then show ?thesis
    using w unfolding run(2) by (auto simp: lossOf_append watchRun_first(1) str)
qed

section \<open>The newest row decides\<close>

text \<open>The row \<open>r\<close> embeds node \<open>n\<close> of workspace \<open>ws\<close>, as the two queries see it.\<close>

definition embedsNode :: "string \<Rightarrow> string \<Rightarrow> Row \<Rightarrow> bool" where
  "embedsNode ws n r \<longleftrightarrow>
     r_workspace r = ws \<and>
     (\<exists>p. r_payload r = Some p \<and>
        (r_operationKind r = VerbatimUpsert \<and> fld p ''id'' = Some (JStr (VERBATIM_PREFIX @ n)) \<or>
         r_operationKind r = EmbedBatch \<and> JStr n \<in> set (jsonEach (fld p ''targetNodeIds''))))"

lemma verbatimHit_row:
  "(n, s, q) \<in> set (case r_payload r of None \<Rightarrow> []
      | Some p \<Rightarrow> (case fld p ''id'' of
          Some (JStr pid) \<Rightarrow>
            if List.member (map (\<lambda>n. VERBATIM_PREFIX @ n) part) pid
            then [(drop (length VERBATIM_PREFIX) pid, r_status r, r_sequenceId r)] else []
        | _ \<Rightarrow> [])) \<longleftrightarrow>
   n \<in> set part \<and> (\<exists>p. r_payload r = Some p \<and> fld p ''id'' = Some (JStr (VERBATIM_PREFIX @ n)) \<and>
     s = r_status r \<and> q = r_sequenceId r)"
  by (cases "r_payload r") (auto split: option.splits json.splits if_splits)

lemma set_verbatimHits:
  "(n, s, q) \<in> set (verbatimHits st ws part) \<longleftrightarrow>
   n \<in> set part \<and> (\<exists>r p. r \<in> set (entries st) \<and> r_workspace r = ws \<and> r_operationKind r = VerbatimUpsert \<and>
     r_payload r = Some p \<and> fld p ''id'' = Some (JStr (VERBATIM_PREFIX @ n)) \<and> s = r_status r \<and> q = r_sequenceId r)"
  unfolding verbatimHits_def set_concat set_map UN_iff bex_simps(7) verbatimHit_row by auto

lemma batchHit_row:
  "(n, s, q) \<in> set (case r_payload r of None \<Rightarrow> []
      | Some p \<Rightarrow> map (\<lambda>n. (n, r_status r, r_sequenceId r))
                    (filter (List.member part) (strsOf (jsonEach (fld p ''targetNodeIds''))))) \<longleftrightarrow>
   n \<in> set part \<and> (\<exists>p. r_payload r = Some p \<and> JStr n \<in> set (jsonEach (fld p ''targetNodeIds'')) \<and>
     s = r_status r \<and> q = r_sequenceId r)"
  by (cases "r_payload r") (auto simp: set_strsOf)

lemma set_batchHits:
  "(n, s, q) \<in> set (batchHits st ws part) \<longleftrightarrow>
   n \<in> set part \<and> (\<exists>r p. r \<in> set (entries st) \<and> r_workspace r = ws \<and> r_operationKind r = EmbedBatch \<and>
     r_payload r = Some p \<and> JStr n \<in> set (jsonEach (fld p ''targetNodeIds'')) \<and> s = r_status r \<and> q = r_sequenceId r)"
  unfolding batchHits_def set_concat set_map UN_iff bex_simps(7) batchHit_row by auto

definition embedHits :: "Store \<Rightarrow> string \<Rightarrow> string set \<Rightarrow> (string \<times> OutboxStatus \<times> int) set" where
  "embedHits st ws N = {(n, s, q). n \<in> N \<and> (\<exists>r\<in>set (entries st). embedsNode ws n r \<and> s = r_status r \<and> q = r_sequenceId r)}"

lemma embedHits_Un: "embedHits st ws (A \<union> B) = embedHits st ws A \<union> embedHits st ws B"
  by (auto simp: embedHits_def)

lemma set_hits: "set (batchHits st ws part) \<union> set (verbatimHits st ws part) = embedHits st ws (set part)"
proof (rule set_eqI)
  fix h :: "string \<times> OutboxStatus \<times> int"
  obtain n s q where h: "h = (n, s, q)" by (cases h) auto
  show "h \<in> set (batchHits st ws part) \<union> set (verbatimHits st ws part) \<longleftrightarrow> h \<in> embedHits st ws (set part)"
    unfolding h Un_iff set_verbatimHits set_batchHits embedHits_def embedsNode_def by blast
qed

text \<open>A table entry comes from a hit and no hit is newer than it.\<close>

definition bestOf :: "(string \<times> OutboxStatus \<times> int) set \<Rightarrow> string \<Rightarrow> (EmbedRowState \<times> int) option \<Rightarrow> bool" where
  "bestOf H n b \<longleftrightarrow>
     (case b of
        None \<Rightarrow> (\<forall>s q. (n, s, q) \<in> H \<longrightarrow> embedStateOfStatus s = None)
      | Some (x, q) \<Rightarrow> (\<exists>s. (n, s, q) \<in> H \<and> embedStateOfStatus s = Some x) \<and>
                      (\<forall>s' q'. (n, s', q') \<in> H \<and> embedStateOfStatus s' \<noteq> None \<longrightarrow> q' \<le> q))"

lemma mergeHit_best:
  assumes "bestOf H n (best n)"
  shows "bestOf (insert h H) n (mergeHit h best n)"
proof -
  obtain m s q where h: "h = (m, s, q)" by (cases h) auto
  show ?thesis
  proof (cases "embedStateOfStatus s")
    case None
    then have "mergeHit h best = best" by (simp add: mergeHit_def h)
    then show ?thesis using assms None unfolding bestOf_def h by (auto split: option.splits prod.splits)
  next
    case (Some x)
    then have "mergeHit h best n = (if n = m then Some (mergeEmbedState (best n) (x, q)) else best n)"
      by (simp add: mergeHit_def h)
    then show ?thesis using assms Some unfolding bestOf_def h mergeEmbedState_def
      by (cases "n = m"; cases "best n") (auto split: prod.splits if_splits, force)
  qed
qed

lemma fold_mergeHit_best:
  "bestOf H n (best n) \<Longrightarrow> bestOf (set hs \<union> H) n (fold mergeHit hs best n)"
proof (induction hs arbitrary: H best)
  case (Cons h hs)
  have "bestOf (set hs \<union> insert h H) n (fold mergeHit hs (mergeHit h best) n)"
    by (rule Cons.IH, rule mergeHit_best, rule Cons.prems)
  then show ?case by simp
qed simp

lemma embedChunks_best:
  assumes "bestOf (embedHits st ws N) n (best n)"
  shows "bestOf (embedHits st ws (N \<union> set ids)) n (embedChunks st ws ids best n)"
  using assms
proof (induction st ws ids best arbitrary: N rule: embedChunks.induct)
  case (1 st ws ids best)
  show ?case
  proof (cases "ids = []")
    case True
    then show ?thesis using "1.prems" by (simp add: embedChunks.simps)
  next
    case False
    let ?part = "take CHUNK ids"
    let ?best = "fold mergeHit (batchHits st ws ?part) (fold mergeHit (verbatimHits st ws ?part) best)"
    have "bestOf (set (batchHits st ws ?part) \<union> (set (verbatimHits st ws ?part) \<union> embedHits st ws N)) n (?best n)"
      by (intro fold_mergeHit_best "1.prems")
    then have "bestOf (embedHits st ws (N \<union> set ?part)) n (?best n)"
      unfolding Un_assoc [symmetric] set_hits embedHits_Un by (simp add: Un_commute)
    then have "bestOf (embedHits st ws (N \<union> set ?part \<union> set (drop CHUNK ids))) n (embedChunks st ws (drop CHUNK ids) ?best n)"
      by (rule "1.IH" [OF False refl])
    moreover have "N \<union> set ?part \<union> set (drop CHUNK ids) = N \<union> set ids"
      by (metis Un_assoc append_take_drop_id set_append)
    ultimately show ?thesis using False by (subst embedChunks.simps) (simp add: Let_def)
  qed
qed

text \<open>Note: the embed state of a node is the state of its newest embedding row. For every requested node
  the query answers with the state of the row of that workspace, of either kind, with the largest
  sequence number among those past \<open>pending_commit\<close>; it answers nothing exactly when the node was
  not asked for or no such row exists.\<close>

theorem embed_state_newest_wins:
  "(case embedStatesForNodes st ws ids n of
      None \<Rightarrow> (\<nexists>r. n \<in> set ids \<and> r \<in> set (entries st) \<and> embedsNode ws n r \<and> r_status r \<noteq> PendingCommit)
    | Some x \<Rightarrow> n \<in> set ids \<and>
        (\<exists>r\<in>set (entries st). embedsNode ws n r \<and> embedStateOfStatus (r_status r) = Some x \<and>
           (\<nexists>r'. r' \<in> set (entries st) \<and> embedsNode ws n r' \<and> r_status r' \<noteq> PendingCommit \<and>
              r_sequenceId r' > r_sequenceId r)))"
proof -
  have pc: "embedStateOfStatus s = None \<longleftrightarrow> s = PendingCommit" for s by (cases s) auto
  have "bestOf (embedHits st ws ({} \<union> set ids)) n (embedChunks st ws ids Map.empty n)"
    by (rule embedChunks_best) (simp add: bestOf_def embedHits_def)
  then have best: "bestOf (embedHits st ws (set ids)) n (embedChunks st ws ids Map.empty n)" by simp
  show ?thesis
  proof (cases "embedChunks st ws ids Map.empty n")
    case None
    then show ?thesis using best by (auto simp: embedStatesForNodes_def bestOf_def embedHits_def pc)
  next
    case (Some xq)
    obtain x q where xq: "xq = (x, q)" by (cases xq)
    obtain r where "n \<in> set ids" "r \<in> set (entries st)" "embedsNode ws n r" "q = r_sequenceId r"
      "embedStateOfStatus (r_status r) = Some x"
      using best Some xq by (auto simp: bestOf_def embedHits_def)
    moreover have "\<forall>r'. r' \<in> set (entries st) \<and> embedsNode ws n r' \<and> r_status r' \<noteq> PendingCommit \<longrightarrow> r_sequenceId r' \<le> q"
      using best Some xq \<open>n \<in> set ids\<close> by (auto simp: bestOf_def embedHits_def pc)
    ultimately show ?thesis using Some xq by (auto simp: embedStatesForNodes_def not_less)
  qed
qed

section \<open>The backlog behind \<open>awaitRecallable\<close>\<close>

lemma addTargets_keeps:
  "distinct out \<Longrightarrow> int (length out) \<le> limit \<Longrightarrow>
   distinct (addTargets limit is out) \<and> int (length (addTargets limit is out)) \<le> limit \<and>
   set (addTargets limit is out) \<subseteq> set out \<union> set is"
  by (induction limit "is" out rule: addTargets.induct) auto

lemma sampleRows_keeps:
  "distinct out \<Longrightarrow> int (length out) \<le> limit \<Longrightarrow>
   distinct (sampleRows limit rs out) \<and> int (length (sampleRows limit rs out)) \<le> limit \<and>
   set (sampleRows limit rs out) \<subseteq> set out \<union> (\<Union>r\<in>set rs. set (embedTargetsOf (r_operationKind r) (r_payload r)))"
proof (induction rs arbitrary: out)
  case (Cons r rs)
  let ?o = "addTargets limit (embedTargetsOf (r_operationKind r) (r_payload r)) out"
  have o: "distinct ?o" "int (length ?o) \<le> limit" "set ?o \<subseteq> set out \<union> set (embedTargetsOf (r_operationKind r) (r_payload r))"
    using addTargets_keeps [OF Cons.prems] by auto
  show ?case
  proof (cases "int (length ?o) \<ge> limit")
    case True
    then show ?thesis using o by (auto simp: Let_def)
  next
    case False
    then have "sampleRows limit (r # rs) out = sampleRows limit rs ?o" by (simp add: Let_def)
    then show ?thesis using Cons.IH [OF o(1,2)] o(3) by auto
  qed
qed simp

text \<open>Note: the backlog report never declares embedding work done early. Asked up to a sequence number, it
  reports zero queued rows exactly when the workspace holds no embedding row up to that number
  that still has to run; the sample has no duplicates, respects its limit, and names only nodes
  that a replicated row up to that number embeds.\<close>

theorem embed_backlog_sound:
  assumes "0 \<le> limit"
  shows "(let b = embedBacklog st ws (Some m) limit
     in (ebQueued b = 0 \<longleftrightarrow>
          (\<nexists>r. r \<in> set (entries st) \<and> r_workspace r = ws \<and> embedKind (r_operationKind r) \<and> r_sequenceId r \<le> m \<and>
             queuedStatus (r_status r))) \<and>
        distinct (sampleNodeIds b) \<and> int (length (sampleNodeIds b)) \<le> limit \<and>
        set (sampleNodeIds b) \<subseteq> (\<Union>r\<in>{r \<in> set (entries st). r_workspace r = ws \<and> r_status r = Replicated \<and> r_sequenceId r \<le> m}.
           set (embedTargetsOf (r_operationKind r) (r_payload r))))"
proof -
  define mine where "mine = filter (\<lambda>r. r_workspace r = ws \<and> embedKind (r_operationKind r) \<and> r_sequenceId r \<le> m) (entries st)"
  define rs where "rs = orderLimit (\<lambda>r. - r_sequenceId r) (nat (max 1 limit)) (filter (\<lambda>r. r_status r = Replicated) mine)"
  have sub: "set rs \<subseteq> {r \<in> set (entries st). r_workspace r = ws \<and> r_status r = Replicated \<and> r_sequenceId r \<le> m}"
    by (auto simp: rs_def mine_def dest: orderLimit_mem)
  have s: "sampleNodeIds (embedBacklog st ws (Some m) limit) = sampleRows limit rs []"
    by (simp add: embedBacklog_def Let_def rs_def mine_def)
  have q: "ebQueued (embedBacklog st ws (Some m) limit) = 0 \<longleftrightarrow>
      (\<nexists>r. r \<in> set (entries st) \<and> r_workspace r = ws \<and> embedKind (r_operationKind r) \<and> r_sequenceId r \<le> m \<and>
         queuedStatus (r_status r))"
    by (auto simp: embedBacklog_def Let_def filter_empty_conv)
  have k: "distinct (sampleRows limit rs [])" "int (length (sampleRows limit rs [])) \<le> limit"
      "set (sampleRows limit rs []) \<subseteq> set [] \<union> (\<Union>r\<in>set rs. set (embedTargetsOf (r_operationKind r) (r_payload r)))"
    using sampleRows_keeps [of "[]" limit rs] assms by simp_all
  have "set (sampleRows limit rs []) \<subseteq>
      (\<Union>r\<in>{r \<in> set (entries st). r_workspace r = ws \<and> r_status r = Replicated \<and> r_sequenceId r \<le> m}.
         set (embedTargetsOf (r_operationKind r) (r_payload r)))"
    using k(3) sub by auto
  then show ?thesis unfolding Let_def s q using k(1,2) by blast
qed

theorem embed_backlog_sound_witness:
  "ebQueued (embedBacklog (sampleStore [sampleRow ''a'' ''w'' 1 EmbedBatch [] Replicated]) ''w'' (Some 1) 5) = 0"
  using embed_backlog_sound [of 5 "sampleStore [sampleRow ''a'' ''w'' 1 EmbedBatch [] Replicated]" "''w''" 1]
  by (simp add: sample_defs queuedStatus_def Let_def)

end
