(* ===== verification/PendingOps.thy ===== *)
theory PendingOps
  imports Json KeyedTable
begin

text \<open>
  The second-party approval queue: its data and interface (\<open>security/pendingOps.ts\<close>) and the two
  stores that implement it, the process-local one (\<open>security/inMemoryPendingOpsStore.ts\<close>) and the
  durable one (\<open>security/sqlitePendingOpsStore.ts\<close>).

  The TypeScript interface \<open>PendingOpsStore\<close> is a record of operations on a state type. Each store is
  a value of that record, and the contract both keep is the locale \<open>pending_ops_store\<close>. The minted
  id and the clock reading of a call are arguments. The \<open>argsJson\<close> column holds text the store wrote
  with \<open>JSON.stringify\<close>, so the cell is the value that text denotes. A \<open>limit\<close> is a whole number.
\<close>

section \<open>\<open>security/pendingOps.ts\<close>\<close>

datatype PendingOpStatus = OpPending | OpApproved | OpRejected | OpExecuted | OpExpired

datatype ApproverPermission = Administer | ManageMembers

record PendingOp =
  opId :: string
  opOperation :: string
  opWorkspaceId :: string
  opInitiator :: string
  opArgsJson :: json
  opStatus :: PendingOpStatus
  opCreatedAt :: ms
  opDecidedAt :: "ms option"
  opExecutedAt :: "ms option"
  opDecidedBy :: "string option"
  opDecidedReason :: "string option"
  opEnqueueRationale :: "string option"
  opApproverPermission :: "ApproverPermission option"

record EnqueueInput =
  eqOperation :: string
  eqWorkspaceId :: string
  eqInitiator :: string
  eqArgs :: "json option"
  eqRationale :: "string option"
  eqApproverPermission :: "ApproverPermission option"

datatype Decision = DecApproved | DecRejected

record DecisionInput =
  decId :: string
  decDecision :: Decision
  decDecidedBy :: string
  decReason :: "string option"

record ListPendingOpsOpts =
  loStatus :: "PendingOpStatus option"
  loWorkspaceId :: "string option"
  loInitiator :: "string option"
  loLimit :: "int option"

datatype PendingOpError =
    PendingOpNotFound string
  | SelfApprovalForbidden string
  | PendingOpStale string PendingOpStatus
  | PrimaryKeyConstraint string

fun decisionStatus :: "Decision \<Rightarrow> PendingOpStatus" where
  "decisionStatus DecApproved = OpApproved"
| "decisionStatus DecRejected = OpRejected"

record 's PendingOpsStore =
  psEnqueue :: "'s \<Rightarrow> string \<Rightarrow> ms \<Rightarrow> EnqueueInput \<Rightarrow> (PendingOpError + PendingOp) \<times> 's"
  psGetById :: "'s \<Rightarrow> string \<Rightarrow> PendingOp option"
  psList :: "'s \<Rightarrow> ListPendingOpsOpts \<Rightarrow> PendingOp list"
  psDecide :: "'s \<Rightarrow> ms \<Rightarrow> DecisionInput \<Rightarrow> (PendingOpError + PendingOp) \<times> 's"
  psMarkExecuted :: "'s \<Rightarrow> ms \<Rightarrow> string \<Rightarrow> (PendingOpError + PendingOp) \<times> 's"
  psExpireOlderThan :: "'s \<Rightarrow> ms \<Rightarrow> ms \<Rightarrow> nat \<times> 's"

definition argsOrNull :: "json option \<Rightarrow> json" where
  "argsOrNull a = (case a of None \<Rightarrow> JNull | Some v \<Rightarrow> v)"

text \<open>A filter string that is absent or empty does not filter.\<close>

definition filterStr :: "string option \<Rightarrow> string \<Rightarrow> bool" where
  "filterStr f s = (case f of None \<Rightarrow> True | Some x \<Rightarrow> x = [] \<or> s = x)"

definition listMatch :: "ListPendingOpsOpts \<Rightarrow> PendingOpStatus \<Rightarrow> string \<Rightarrow> string \<Rightarrow> bool" where
  "listMatch opts st ws ini =
     ((case loStatus opts of None \<Rightarrow> True | Some s \<Rightarrow> st = s) \<and>
      filterStr (loWorkspaceId opts) ws \<and> filterStr (loInitiator opts) ini)"

section \<open>\<open>security/inMemoryPendingOpsStore.ts\<close>\<close>

text \<open>
  A JavaScript \<open>Map\<close> iterates in insertion order and \<open>set\<close> on a present key keeps its place.
\<close>

record MemOps =
  memRows :: "PendingOp list"

definition setMemRows :: "PendingOp list \<Rightarrow> MemOps \<Rightarrow> MemOps" where
  "setMemRows rs s = s\<lparr>memRows := rs\<rparr>"

definition memGet :: "MemOps \<Rightarrow> string \<Rightarrow> PendingOp option" where
  "memGet s i = tableGet opId (memRows s) i"

definition memSet :: "MemOps \<Rightarrow> PendingOp \<Rightarrow> MemOps" where
  "memSet s x =
     (if memGet s (opId x) = None then setMemRows (memRows s @ [x]) s
      else setMemRows (tableUpd opId (opId x) (\<lambda>r. x) (memRows s)) s)"

definition newOp :: "string \<Rightarrow> ms \<Rightarrow> EnqueueInput \<Rightarrow> PendingOp" where
  "newOp i now inp = \<lparr>
     opId = i, opOperation = eqOperation inp, opWorkspaceId = eqWorkspaceId inp, opInitiator = eqInitiator inp,
     opArgsJson = argsOrNull (eqArgs inp), opStatus = OpPending, opCreatedAt = now,
     opDecidedAt = None, opExecutedAt = None, opDecidedBy = None, opDecidedReason = None,
     opEnqueueRationale = eqRationale inp, opApproverPermission = eqApproverPermission inp\<rparr>"

definition memEnqueue :: "MemOps \<Rightarrow> string \<Rightarrow> ms \<Rightarrow> EnqueueInput \<Rightarrow> (PendingOpError + PendingOp) \<times> MemOps" where
  "memEnqueue s i now inp = (Inr (newOp i now inp), memSet s (newOp i now inp))"

text \<open>\<open>Array.prototype.slice(0, n)\<close>\<close>

definition sliceTo :: "int \<Rightarrow> 'a list \<Rightarrow> 'a list" where
  "sliceTo n xs = (if n < 0 then take (nat (int (length xs) + n)) xs else take (nat n) xs)"

definition memList :: "MemOps \<Rightarrow> ListPendingOpsOpts \<Rightarrow> PendingOp list" where
  "memList s opts =
     (let found = sort_key (\<lambda>r. - opCreatedAt r)
                    (filter (\<lambda>r. listMatch opts (opStatus r) (opWorkspaceId r) (opInitiator r)) (memRows s))
      in case loLimit opts of None \<Rightarrow> found | Some n \<Rightarrow> sliceTo n found)"

definition memDecide :: "MemOps \<Rightarrow> ms \<Rightarrow> DecisionInput \<Rightarrow> (PendingOpError + PendingOp) \<times> MemOps" where
  "memDecide s now d =
     (case memGet s (decId d) of
        None \<Rightarrow> (Inl (PendingOpNotFound (decId d)), s)
      | Some row \<Rightarrow>
          if opInitiator row = decDecidedBy d then (Inl (SelfApprovalForbidden (decId d)), s)
          else if opStatus row \<noteq> OpPending then (Inl (PendingOpStale (decId d) (opStatus row)), s)
          else let updated = row\<lparr>opStatus := decisionStatus (decDecision d), opDecidedAt := Some now,
                                 opDecidedBy := Some (decDecidedBy d), opDecidedReason := decReason d\<rparr>
               in (Inr updated, memSet s updated))"

definition memMarkExecuted :: "MemOps \<Rightarrow> ms \<Rightarrow> string \<Rightarrow> (PendingOpError + PendingOp) \<times> MemOps" where
  "memMarkExecuted s now i =
     (case memGet s i of
        None \<Rightarrow> (Inl (PendingOpNotFound i), s)
      | Some row \<Rightarrow>
          if opStatus row \<noteq> OpApproved then (Inl (PendingOpStale i (opStatus row)), s)
          else let updated = row\<lparr>opStatus := OpExecuted, opExecutedAt := Some now\<rparr>
               in (Inr updated, memSet s updated))"

definition TERMINAL_RETENTION_MS :: ms where
  "TERMINAL_RETENTION_MS = 7 * 24 * 60 * 60 * 1000"

definition terminalState :: "PendingOpStatus \<Rightarrow> bool" where
  "terminalState st = (st = OpExecuted \<or> st = OpRejected \<or> st = OpExpired)"

definition lastTransitionAt :: "PendingOp \<Rightarrow> ms" where
  "lastTransitionAt r =
     (case opExecutedAt r of Some t \<Rightarrow> t
      | None \<Rightarrow> (case opDecidedAt r of Some t \<Rightarrow> t | None \<Rightarrow> opCreatedAt r))"

definition cleanupTerminalRows :: "MemOps \<Rightarrow> ms \<Rightarrow> nat \<times> MemOps" where
  "cleanupTerminalRows s now =
     (let gone = (\<lambda>r. terminalState (opStatus r) \<and> lastTransitionAt r < now - TERMINAL_RETENTION_MS)
      in (length (filter gone (memRows s)), setMemRows (filter (\<lambda>r. \<not> gone r) (memRows s)) s))"

definition expirable :: "ms \<Rightarrow> PendingOp \<Rightarrow> bool" where
  "expirable cutoff r = (opStatus r = OpPending \<and> opCreatedAt r < cutoff)"

definition memExpireOlderThan :: "MemOps \<Rightarrow> ms \<Rightarrow> ms \<Rightarrow> nat \<times> MemOps" where
  "memExpireOlderThan s now cutoff =
     (let s' = setMemRows (map (\<lambda>r. if expirable cutoff r then r\<lparr>opStatus := OpExpired\<rparr> else r) (memRows s)) s
      in (length (filter (expirable cutoff) (memRows s)), snd (cleanupTerminalRows s' now)))"

definition memOps :: "MemOps PendingOpsStore" where
  "memOps = \<lparr>psEnqueue = memEnqueue, psGetById = memGet, psList = memList, psDecide = memDecide,
     psMarkExecuted = memMarkExecuted, psExpireOlderThan = memExpireOlderThan\<rparr>"

definition emptyMemOps :: MemOps where
  "emptyMemOps = \<lparr>memRows = []\<rparr>"

section \<open>\<open>security/sqlitePendingOpsStore.ts\<close>\<close>

record OpRow =
  orId :: string
  orOperation :: string
  orWorkspaceId :: string
  orInitiator :: string
  orArgsJson :: json
  orStatus :: PendingOpStatus
  orCreatedAt :: ms
  orDecidedAt :: "ms option"
  orExecutedAt :: "ms option"
  orDecidedBy :: "string option"
  orDecidedReason :: "string option"
  orEnqueueRationale :: "string option"
  orApproverPermission :: "ApproverPermission option"

text \<open>\<open>opt\<close>: NULL and the empty string read as \<open>undefined\<close>.\<close>

definition optStr :: "string option \<Rightarrow> string option" where
  "optStr v = (if v = Some [] then None else v)"

definition rowToPendingOp :: "OpRow \<Rightarrow> PendingOp" where
  "rowToPendingOp r = \<lparr>
     opId = orId r, opOperation = orOperation r, opWorkspaceId = orWorkspaceId r, opInitiator = orInitiator r,
     opArgsJson = orArgsJson r, opStatus = orStatus r, opCreatedAt = orCreatedAt r,
     opDecidedAt = orDecidedAt r, opExecutedAt = orExecutedAt r,
     opDecidedBy = optStr (orDecidedBy r), opDecidedReason = optStr (orDecidedReason r),
     opEnqueueRationale = optStr (orEnqueueRationale r), opApproverPermission = orApproverPermission r\<rparr>"

record SqlOps =
  sqlRows :: "OpRow list"

definition setSqlRows :: "OpRow list \<Rightarrow> SqlOps \<Rightarrow> SqlOps" where
  "setSqlRows rs s = s\<lparr>sqlRows := rs\<rparr>"

definition sqlGetById :: "SqlOps \<Rightarrow> string \<Rightarrow> PendingOp option" where
  "sqlGetById s i = map_option rowToPendingOp (tableGet orId (sqlRows s) i)"

definition sqlEnqueue :: "SqlOps \<Rightarrow> string \<Rightarrow> ms \<Rightarrow> EnqueueInput \<Rightarrow> (PendingOpError + PendingOp) \<times> SqlOps" where
  "sqlEnqueue s i now inp =
     (let row = \<lparr>orId = i, orOperation = eqOperation inp, orWorkspaceId = eqWorkspaceId inp, orInitiator = eqInitiator inp,
                 orArgsJson = argsOrNull (eqArgs inp), orStatus = OpPending, orCreatedAt = now,
                 orDecidedAt = None, orExecutedAt = None, orDecidedBy = None, orDecidedReason = None,
                 orEnqueueRationale = optStr (eqRationale inp), orApproverPermission = eqApproverPermission inp\<rparr>
      in if tableGet orId (sqlRows s) i \<noteq> None then (Inl (PrimaryKeyConstraint i), s)
         else (Inr ((newOp i now inp)\<lparr>opEnqueueRationale := optStr (eqRationale inp)\<rparr>), setSqlRows (sqlRows s @ [row]) s))"

definition sqlList :: "SqlOps \<Rightarrow> ListPendingOpsOpts \<Rightarrow> PendingOp list" where
  "sqlList s opts =
     (let found = sort_key (\<lambda>r. - orCreatedAt r)
                    (filter (\<lambda>r. listMatch opts (orStatus r) (orWorkspaceId r) (orInitiator r)) (sqlRows s))
      in map rowToPendingOp (case loLimit opts of None \<Rightarrow> found | Some n \<Rightarrow> if n > 0 then take (nat n) found else found))"

text \<open>
  \<open>decide\<close> reads the row, and only after an \<open>await\<close> runs the guarded \<open>UPDATE\<close>: \<open>seen\<close> is what the
  read returned and \<open>s\<close> the table at the time of the update, which other deciders may have changed
  in between. The same holds of \<open>markExecuted\<close>.
\<close>

definition sqlDecideAt ::
  "PendingOp option \<Rightarrow> SqlOps \<Rightarrow> ms \<Rightarrow> DecisionInput \<Rightarrow> (PendingOpError + PendingOp) \<times> SqlOps" where
  "sqlDecideAt seen s now d =
     (case seen of
        None \<Rightarrow> (Inl (PendingOpNotFound (decId d)), s)
      | Some existing \<Rightarrow>
          if opInitiator existing = decDecidedBy d then (Inl (SelfApprovalForbidden (decId d)), s)
          else if opStatus existing \<noteq> OpPending then (Inl (PendingOpStale (decId d) (opStatus existing)), s)
          else if list_ex (\<lambda>r. orId r = decId d \<and> orStatus r = OpPending) (sqlRows s) then
            (let s' = setSqlRows (map (\<lambda>r. if orId r = decId d \<and> orStatus r = OpPending
                        then r\<lparr>orStatus := decisionStatus (decDecision d), orDecidedAt := Some now,
                               orDecidedBy := Some (decDecidedBy d), orDecidedReason := decReason d\<rparr> else r) (sqlRows s)) s
             in case sqlGetById s' (decId d) of
                  None \<Rightarrow> (Inl (PendingOpNotFound (decId d)), s')
                | Some updated \<Rightarrow> (Inr updated, s'))
          else (Inl (PendingOpStale (decId d)
                  (case sqlGetById s (decId d) of None \<Rightarrow> OpExpired | Some cur \<Rightarrow> opStatus cur)), s))"

definition sqlDecide :: "SqlOps \<Rightarrow> ms \<Rightarrow> DecisionInput \<Rightarrow> (PendingOpError + PendingOp) \<times> SqlOps" where
  "sqlDecide s now d = sqlDecideAt (sqlGetById s (decId d)) s now d"

definition sqlMarkExecutedAt ::
  "PendingOp option \<Rightarrow> SqlOps \<Rightarrow> ms \<Rightarrow> string \<Rightarrow> (PendingOpError + PendingOp) \<times> SqlOps" where
  "sqlMarkExecutedAt seen s now i =
     (case seen of
        None \<Rightarrow> (Inl (PendingOpNotFound i), s)
      | Some existing \<Rightarrow>
          if opStatus existing \<noteq> OpApproved then (Inl (PendingOpStale i (opStatus existing)), s)
          else if list_ex (\<lambda>r. orId r = i \<and> orStatus r = OpApproved) (sqlRows s) then
            (let s' = setSqlRows (map (\<lambda>r. if orId r = i \<and> orStatus r = OpApproved
                        then r\<lparr>orStatus := OpExecuted, orExecutedAt := Some now\<rparr> else r) (sqlRows s)) s
             in case sqlGetById s' i of
                  None \<Rightarrow> (Inl (PendingOpNotFound i), s')
                | Some updated \<Rightarrow> (Inr updated, s'))
          else (Inl (PendingOpStale i (case sqlGetById s i of None \<Rightarrow> OpExpired | Some cur \<Rightarrow> opStatus cur)), s))"

definition sqlMarkExecuted :: "SqlOps \<Rightarrow> ms \<Rightarrow> string \<Rightarrow> (PendingOpError + PendingOp) \<times> SqlOps" where
  "sqlMarkExecuted s now i = sqlMarkExecutedAt (sqlGetById s i) s now i"

definition sqlExpireOlderThan :: "SqlOps \<Rightarrow> ms \<Rightarrow> ms \<Rightarrow> nat \<times> SqlOps" where
  "sqlExpireOlderThan s now cutoff =
     (let hit = (\<lambda>r. orStatus r = OpPending \<and> orCreatedAt r < cutoff)
      in (length (filter hit (sqlRows s)),
          setSqlRows (map (\<lambda>r. if hit r then r\<lparr>orStatus := OpExpired\<rparr> else r) (sqlRows s)) s))"

definition sqlOps :: "SqlOps PendingOpsStore" where
  "sqlOps = \<lparr>psEnqueue = sqlEnqueue, psGetById = sqlGetById, psList = sqlList, psDecide = sqlDecide,
     psMarkExecuted = sqlMarkExecuted, psExpireOlderThan = sqlExpireOlderThan\<rparr>"

definition emptySqlOps :: SqlOps where
  "emptySqlOps = \<lparr>sqlRows = []\<rparr>"

end
