(* ===== verification/PendingOpsProps.thy ===== *)
theory PendingOpsProps
  imports PendingOps
begin

text \<open>
  Correctness of the approval queue. The abstract specification is a machine on maps from ids to
  requests, with one rule per way a request may evolve; its invariants are proved by rule
  induction. The locale \<open>pending_ops_store\<close> states the contract of the TypeScript interface and
  derives, once, that every step of a store that keeps it is a step of the abstract machine. Both
  stores are interpretations.
\<close>

section \<open>The abstract approval machine\<close>

definition sameRequest :: "PendingOp \<Rightarrow> PendingOp \<Rightarrow> bool" where
  "sameRequest a b \<longleftrightarrow>
     opId b = opId a \<and> opOperation b = opOperation a \<and> opWorkspaceId b = opWorkspaceId a \<and> opInitiator b = opInitiator a \<and>
     opArgsJson b = opArgsJson a \<and> opCreatedAt b = opCreatedAt a \<and> opApproverPermission b = opApproverPermission a"

lemma sameRequest_refl [simp]: "sameRequest a a"
  by (simp add: sameRequest_def)

lemma sameRequest_trans: "sameRequest a b \<Longrightarrow> sameRequest b c \<Longrightarrow> sameRequest a c"
  by (simp add: sameRequest_def)

text \<open>What a TTL sweep may do to one entry: nothing, expire it, or forget a finished one.\<close>

definition swept :: "PendingOp option \<Rightarrow> PendingOp option \<Rightarrow> bool" where
  "swept x y \<longleftrightarrow> y = x \<or>
     (\<exists>op. x = Some op \<and> opStatus op = OpPending \<and> (y = Some (op\<lparr>opStatus := OpExpired\<rparr>) \<or> y = None)) \<or>
     (\<exists>op. x = Some op \<and> terminalState (opStatus op) \<and> y = None)"

inductive approval_step :: "(string \<rightharpoonup> PendingOp) \<Rightarrow> (string \<rightharpoonup> PendingOp) \<Rightarrow> bool" where
  submitted: "m i = None \<Longrightarrow> opId op = i \<Longrightarrow> opStatus op = OpPending \<Longrightarrow> opDecidedBy op = None \<Longrightarrow>
    approval_step m (m(i \<mapsto> op))"
| decided: "m i = Some op \<Longrightarrow> opStatus op = OpPending \<Longrightarrow> sameRequest op op' \<Longrightarrow> opDecidedBy op' = Some who \<Longrightarrow>
    who \<noteq> opInitiator op \<Longrightarrow> opStatus op' = OpApproved \<or> opStatus op' = OpRejected \<Longrightarrow> approval_step m (m(i \<mapsto> op'))"
| executed: "m i = Some op \<Longrightarrow> opStatus op = OpApproved \<Longrightarrow> sameRequest op op' \<Longrightarrow> opDecidedBy op' = opDecidedBy op \<Longrightarrow>
    opStatus op' = OpExecuted \<Longrightarrow> approval_step m (m(i \<mapsto> op'))"
| sweep: "(\<And>i. swept (m i) (m' i)) \<Longrightarrow> approval_step m m'"
| refused: "approval_step m m"

inductive approval_reach :: "(string \<rightharpoonup> PendingOp) \<Rightarrow> bool" where
  start: "approval_reach Map.empty"
| step: "approval_reach m \<Longrightarrow> approval_step m m' \<Longrightarrow> approval_reach m'"

definition dualControl :: "(string \<rightharpoonup> PendingOp) \<Rightarrow> bool" where
  "dualControl m \<longleftrightarrow> (\<forall>i op. m i = Some op \<longrightarrow> opId op = i \<and>
     (opStatus op = OpPending \<longrightarrow> opDecidedBy op = None) \<and>
     (opStatus op \<in> {OpApproved, OpRejected, OpExecuted} \<longrightarrow> (\<exists>who. opDecidedBy op = Some who \<and> who \<noteq> opInitiator op)))"

lemma dualControl_sweep:
  assumes "dualControl m" "\<And>i. swept (m i) (m' i)"
  shows "dualControl m'"
  unfolding dualControl_def
proof (intro allI impI)
  fix i op assume "m' i = Some op"
  then have "m i = Some op \<or> (\<exists>q. m i = Some q \<and> op = q\<lparr>opStatus := OpExpired\<rparr>)"
    using assms(2) [of i] by (auto simp: swept_def)
  then show "opId op = i \<and> (opStatus op = OpPending \<longrightarrow> opDecidedBy op = None) \<and>
      (opStatus op \<in> {OpApproved, OpRejected, OpExecuted} \<longrightarrow> (\<exists>who. opDecidedBy op = Some who \<and> who \<noteq> opInitiator op))"
    using assms(1) by (auto simp: dualControl_def)
qed

lemma dualControl_step: "approval_step m m' \<Longrightarrow> dualControl m \<Longrightarrow> dualControl m'"
proof (induction rule: approval_step.induct)
  case (sweep m m')
  then show ?case using dualControl_sweep by blast
qed (auto simp: dualControl_def sameRequest_def)

lemma dualControl_reach: "approval_reach m \<Longrightarrow> dualControl m"
  by (induction rule: approval_reach.induct) (auto simp: dualControl_def [of Map.empty] intro: dualControl_step)

text \<open>The only ways the status of a request moves.\<close>

fun statusMove :: "PendingOpStatus \<Rightarrow> PendingOpStatus \<Rightarrow> bool" where
  "statusMove OpPending t = (t \<noteq> OpExecuted)"
| "statusMove OpApproved t = (t = OpApproved \<or> t = OpExecuted)"
| "statusMove s t = (t = s)"

lemma statusMove_refl [simp]: "statusMove s s"
  by (cases s) auto

lemma approval_moves:
  assumes "approval_step m m'" "m i = Some op"
  shows "(\<exists>op'. m' i = Some op' \<and> sameRequest op op' \<and> statusMove (opStatus op) (opStatus op')) \<or>
    m' i = None \<and> opStatus op \<noteq> OpApproved"
  using assms
proof (induction rule: approval_step.induct)
  case (sweep m m')
  then show ?case using sweep.hyps [of i]
    by (cases "opStatus op") (auto simp: swept_def terminalState_def sameRequest_def)
qed auto

section \<open>The contract of \<open>PendingOpsStore\<close>\<close>

inductive ops_step :: "'s PendingOpsStore \<Rightarrow> 's \<Rightarrow> 's \<Rightarrow> bool" for S where
  enqueue_step: "psGetById S s i = None \<Longrightarrow> ops_step S s (snd (psEnqueue S s i now inp))"
| decide_step: "decDecidedBy d \<noteq> [] \<Longrightarrow> ops_step S s (snd (psDecide S s now d))"
| executed_step: "ops_step S s (snd (psMarkExecuted S s now i))"
| expire_step: "ops_step S s (snd (psExpireOlderThan S s now cutoff))"

inductive ops_reach :: "'s PendingOpsStore \<Rightarrow> 's \<Rightarrow> 's \<Rightarrow> bool" for S s0 where
  ops_start: "ops_reach S s0 s0"
| ops_next: "ops_reach S s0 s \<Longrightarrow> ops_step S s s' \<Longrightarrow> ops_reach S s0 s'"

locale pending_ops_store =
  fixes S :: "'s PendingOpsStore"
    and inv :: "'s \<Rightarrow> bool"
  assumes enqueue_law: "inv s \<Longrightarrow> psGetById S s i = None \<Longrightarrow> psEnqueue S s i now inp = (r, s') \<Longrightarrow>
      inv s' \<and> (\<exists>op. r = Inr op \<and> psGetById S s' = (psGetById S s)(i \<mapsto> op) \<and> opId op = i \<and> opStatus op = OpPending \<and>
        opDecidedBy op = None \<and> opOperation op = eqOperation inp \<and> opWorkspaceId op = eqWorkspaceId inp \<and>
        opInitiator op = eqInitiator inp \<and> opArgsJson op = argsOrNull (eqArgs inp) \<and>
        opApproverPermission op = eqApproverPermission inp)"
    and decide_law: "inv s \<Longrightarrow> decDecidedBy d \<noteq> [] \<Longrightarrow> psDecide S s now d = (r, s') \<Longrightarrow>
      inv s' \<and> (case psGetById S s (decId d) of
        None \<Rightarrow> r = Inl (PendingOpNotFound (decId d)) \<and> s' = s
      | Some op \<Rightarrow>
          if opInitiator op = decDecidedBy d then r = Inl (SelfApprovalForbidden (decId d)) \<and> s' = s
          else if opStatus op \<noteq> OpPending then r = Inl (PendingOpStale (decId d) (opStatus op)) \<and> s' = s
          else \<exists>op'. r = Inr op' \<and> psGetById S s' = (psGetById S s)(decId d \<mapsto> op') \<and> sameRequest op op' \<and>
                 opStatus op' = decisionStatus (decDecision d) \<and> opDecidedBy op' = Some (decDecidedBy d))"
    and executed_law: "inv s \<Longrightarrow> psMarkExecuted S s now i = (r, s') \<Longrightarrow>
      inv s' \<and> (case psGetById S s i of
        None \<Rightarrow> r = Inl (PendingOpNotFound i) \<and> s' = s
      | Some op \<Rightarrow>
          if opStatus op \<noteq> OpApproved then r = Inl (PendingOpStale i (opStatus op)) \<and> s' = s
          else \<exists>op'. r = Inr op' \<and> psGetById S s' = (psGetById S s)(i \<mapsto> op') \<and> sameRequest op op' \<and>
                 opStatus op' = OpExecuted \<and> opDecidedBy op' = opDecidedBy op)"
    and expire_law: "inv s \<Longrightarrow> psExpireOlderThan S s now cutoff = (n, s') \<Longrightarrow>
      inv s' \<and> (\<forall>i. swept (psGetById S s i) (psGetById S s' i))"
begin

lemma step_refines:
  assumes "ops_step S s s'" "inv s"
  shows "inv s' \<and> approval_step (psGetById S s) (psGetById S s')"
  using assms
proof (induction rule: ops_step.induct)
  case (enqueue_step s i now inp)
  then show ?case using enqueue_law [of s i now inp] by (metis approval_step.submitted prod.collapse)
next
  case (decide_step d s now)
  note law = decide_law [OF decide_step.prems decide_step.hyps prod.collapse [symmetric], of now]
  show ?case
  proof (cases "psGetById S s (decId d)")
    case None
    then show ?thesis using law decide_step.prems by (simp add: approval_step.refused)
  next
    case (Some op)
    show ?thesis
    proof (cases "opInitiator op = decDecidedBy d \<or> opStatus op \<noteq> OpPending")
      case True
      then show ?thesis using law Some decide_step.prems by (auto simp: approval_step.refused split: if_splits)
    next
      case False
      then obtain op' where op': "psGetById S (snd (psDecide S s now d)) = (psGetById S s)(decId d \<mapsto> op')" "sameRequest op op'"
        "opStatus op' = decisionStatus (decDecision d)" "opDecidedBy op' = Some (decDecidedBy d)"
        using law Some by auto
      have "opStatus op' = OpApproved \<or> opStatus op' = OpRejected" using op'(3) by (cases "decDecision d") auto
      then have "approval_step (psGetById S s) ((psGetById S s)(decId d \<mapsto> op'))"
        using Some False op'(2,4) by (intro approval_step.decided [where op = op and who = "decDecidedBy d"]) auto
      then show ?thesis unfolding op'(1) using law by blast
    qed
  qed
next
  case (executed_step s now i)
  note law = executed_law [OF executed_step.prems prod.collapse [symmetric], of now i]
  then show ?case
    by (auto simp: approval_step.refused split: option.splits if_splits
        intro!: approval_step.executed [where m = "psGetById S s"])
next
  case (expire_step s now cutoff)
  then show ?case using expire_law [OF expire_step.prems prod.collapse [symmetric], of now cutoff]
    by (auto intro: approval_step.sweep)
qed

lemma reach_refines:
  assumes "ops_reach S s0 s" "inv s0" "psGetById S s0 = Map.empty"
  shows "inv s \<and> approval_reach (psGetById S s)"
  using assms
proof (induction rule: ops_reach.induct)
  case ops_start
  then show ?case using approval_reach.start by simp
next
  case (ops_next s s')
  then show ?case using step_refines approval_reach.step by blast
qed

lemma dual_control:
  assumes "ops_reach S s0 s" "inv s0" "psGetById S s0 = Map.empty"
  shows "dualControl (psGetById S s)"
  using reach_refines [OF assms] dualControl_reach by blast

end

section \<open>The in-memory store keeps the contract\<close>

interpretation mo: keyed_table memRows setMemRows opId
  by unfold_locales (simp add: setMemRows_def)

lemma memRows_set [simp]: "memRows (setMemRows rs s) = rs"
  by (simp add: setMemRows_def)

definition memInv :: "MemOps \<Rightarrow> bool" where
  "memInv s \<longleftrightarrow> distinct (map opId (memRows s))"

lemma memGet_SomeD: "memGet s i = Some r \<Longrightarrow> r \<in> set (memRows s) \<and> opId r = i"
  unfolding memGet_def by (rule mo.get_mem)

lemma memGet_append:
  "memGet (setMemRows (memRows s @ [x]) s) j = (case memGet s j of None \<Rightarrow> if j = opId x then Some x else None | Some r \<Rightarrow> Some r)"
  by (auto simp: memGet_def tableGet_def find_append split: option.splits)

lemma memGet_put: "memGet (memSet s x) j = (if j = opId x then Some x else memGet s j)"
proof (cases "memGet s (opId x)")
  case None
  then show ?thesis by (simp add: memSet_def memGet_append split: option.splits)
next
  case (Some r)
  have "find (\<lambda>r. opId r = j) (map (\<lambda>r. if opId r = opId x then x else r) rs) =
      (if j = opId x then map_option (\<lambda>r. x) (find (\<lambda>r. opId r = j) rs) else find (\<lambda>r. opId r = j) rs)" for rs
    by (induction rs) auto
  then show ?thesis using Some by (simp add: memSet_def memGet_def tableGet_def tableUpd_def)
qed

lemma memInv_put: "memInv s \<Longrightarrow> memInv (memSet s x)"
proof (cases "memGet s (opId x)")
  case None
  then have "opId x \<notin> set (map opId (memRows s))" by (auto simp: memGet_def mo.get_None)
  then show "memInv s \<Longrightarrow> memInv (memSet s x)" using None by (simp add: memSet_def memInv_def)
next
  case (Some r)
  have "map opId (tableUpd opId (opId x) (\<lambda>r. x) (memRows s)) = map opId (memRows s)" by (simp add: tableUpd_def)
  then show "memInv s \<Longrightarrow> memInv (memSet s x)" using Some by (simp add: memSet_def memInv_def)
qed

lemma memExpire_get:
  assumes "memInv s"
  shows "swept (memGet s i) (memGet (snd (memExpireOlderThan s now cutoff)) i)"
proof -
  define f where "f = (\<lambda>r. if expirable cutoff r then r\<lparr>opStatus := OpExpired\<rparr> else r)"
  define keep where "keep = (\<lambda>r. \<not> (terminalState (opStatus r) \<and> lastTransitionAt r < now - TERMINAL_RETENTION_MS))"
  have rows: "memRows (snd (memExpireOlderThan s now cutoff)) = filter keep (map f (memRows s))"
    by (simp add: memExpireOlderThan_def cleanupTerminalRows_def Let_def f_def keep_def)
  have id: "opId (f r) = opId r" for r by (simp add: f_def)
  have "find (\<lambda>r. opId r = i) (filter keep (map f rs)) =
      (case find (\<lambda>r. opId r = i) rs of None \<Rightarrow> None | Some r \<Rightarrow> if keep (f r) then Some (f r) else None)"
    if "distinct (map opId rs)" for rs
    using that
  proof (induction rs)
    case (Cons r rs)
    have "find (\<lambda>r. opId r = i) (filter keep (map f rs)) = None" if "i = opId r"
    proof -
      have "i \<notin> opId ` set rs" using Cons.prems that by simp
      then show ?thesis by (auto simp: find_None_iff id)
    qed
    then show ?case using Cons by (auto simp: id)
  qed simp
  then have "memGet (snd (memExpireOlderThan s now cutoff)) i =
      (case memGet s i of None \<Rightarrow> None | Some r \<Rightarrow> if keep (f r) then Some (f r) else None)"
    using assms by (simp add: memGet_def tableGet_def rows memInv_def)
  then show ?thesis
    by (auto simp: swept_def f_def keep_def expirable_def split: option.splits)
qed

lemma memExpire_inv:
  assumes "memInv s"
  shows "memInv (snd (memExpireOlderThan s now cutoff))"
proof -
  let ?f = "\<lambda>r. if expirable cutoff r then r\<lparr>opStatus := OpExpired\<rparr> else r"
  have "map opId (map ?f rs) = map opId rs" for rs by (induction rs) auto
  then have "distinct (map opId (map ?f (memRows s)))" using assms unfolding memInv_def by metis
  then show ?thesis
    unfolding memInv_def memExpireOlderThan_def cleanupTerminalRows_def Let_def snd_conv memRows_set
    by (rule distinct_map_filter)
qed

interpretation mem: pending_ops_store memOps memInv
proof (unfold_locales, goal_cases)
  case (1 s i now inp r s')
  then show ?case
    by (auto simp: memOps_def memEnqueue_def memInv_put memGet_put newOp_def fun_eq_iff)
next
  case (2 s d now r s')
  then show ?case
    by (auto simp: memOps_def memDecide_def memInv_put memGet_put sameRequest_def Let_def fun_eq_iff
        dest: memGet_SomeD split: option.splits if_splits)
next
  case (3 s now i r s')
  then show ?case
    by (auto simp: memOps_def memMarkExecuted_def memInv_put memGet_put sameRequest_def Let_def fun_eq_iff
        dest: memGet_SomeD split: option.splits if_splits)
next
  case (4 s now cutoff n s')
  then have "s' = snd (memExpireOlderThan s now cutoff)" by (simp add: memOps_def)
  then show ?case using 4(1) memExpire_get memExpire_inv by (simp add: memOps_def)
qed

section \<open>The SQLite store keeps the contract\<close>

interpretation so: keyed_table sqlRows setSqlRows orId
  by unfold_locales (simp add: setSqlRows_def)

lemma sqlRows_set [simp]: "sqlRows (setSqlRows rs s) = rs"
  by (simp add: setSqlRows_def)

definition sqlInv :: "SqlOps \<Rightarrow> bool" where
  "sqlInv s \<longleftrightarrow> distinct (map orId (sqlRows s))"

text \<open>\<open>UPDATE ... WHERE id = ? AND status = ?\<close>\<close>

definition guardUpd :: "string \<Rightarrow> PendingOpStatus \<Rightarrow> (OpRow \<Rightarrow> OpRow) \<Rightarrow> SqlOps \<Rightarrow> SqlOps" where
  "guardUpd i p f s = setSqlRows (map (\<lambda>r. if orId r = i \<and> orStatus r = p then f r else r) (sqlRows s)) s"

lemma guardUpd_get:
  assumes "\<And>r. orId (f r) = orId r"
  shows "sqlGetById (guardUpd i p f s) j =
    (if j = i then map_option (\<lambda>r. rowToPendingOp (if orStatus r = p then f r else r)) (tableGet orId (sqlRows s) j) else sqlGetById s j)"
proof -
  have "guardUpd i p f s = setSqlRows (tableUpd orId i (\<lambda>r. if orStatus r = p then f r else r) (sqlRows s)) s"
    by (auto simp: guardUpd_def tableUpd_def intro!: arg_cong [where f = "\<lambda>rs. setSqlRows rs s"])
  then show ?thesis
    using so.get_upd [of "\<lambda>r. if orStatus r = p then f r else r" i s j] assms
    by (simp add: sqlGetById_def option.map_comp comp_def)
qed

lemma keys_map: "(\<And>r. k (g r) = k r) \<Longrightarrow> map k (map g rs) = map k rs"
  by simp

lemma guardUpd_inv:
  assumes "\<And>r. orId (f r) = orId r" "sqlInv s"
  shows "sqlInv (guardUpd i p f s)"
proof -
  have "map orId (map (\<lambda>r. if orId r = i \<and> orStatus r = p then f r else r) (sqlRows s)) = map orId (sqlRows s)"
    using assms(1) by (intro keys_map) simp
  then show ?thesis using assms(2) unfolding sqlInv_def guardUpd_def sqlRows_set by metis
qed

lemma guard_hit:
  "sqlInv s \<Longrightarrow> list_ex (\<lambda>r. orId r = i \<and> orStatus r = p) (sqlRows s) \<longleftrightarrow> (\<exists>op. sqlGetById s i = Some op \<and> opStatus op = p)"
  by (auto simp: sqlInv_def sqlGetById_def tableGet_def list_ex_key [OF _ refl] rowToPendingOp_def split: option.splits)

text \<open>The guarded update decides exactly a row that is pending when it runs, whatever was read before.\<close>

lemma sqlDecideAt_run:
  assumes "sqlInv s" "opInitiator existing \<noteq> decDecidedBy d" "opStatus existing = OpPending"
  shows "(\<exists>op op'. sqlGetById s (decId d) = Some op \<and> opStatus op = OpPending \<and>
      sqlGetById (snd (sqlDecideAt (Some existing) s now d)) = (sqlGetById s)(decId d \<mapsto> op') \<and>
      fst (sqlDecideAt (Some existing) s now d) = Inr op' \<and> sameRequest op op' \<and>
      opStatus op' = decisionStatus (decDecision d) \<and> opDecidedBy op' = optStr (Some (decDecidedBy d))) \<and>
      sqlInv (snd (sqlDecideAt (Some existing) s now d)) \<or>
    (\<nexists>op. sqlGetById s (decId d) = Some op \<and> opStatus op = OpPending) \<and>
      (\<exists>st. sqlDecideAt (Some existing) s now d = (Inl (PendingOpStale (decId d) st), s))"
proof (cases "\<exists>op. sqlGetById s (decId d) = Some op \<and> opStatus op = OpPending")
  case True
  then obtain r where r: "tableGet orId (sqlRows s) (decId d) = Some r" "orStatus r = OpPending"
    by (auto simp: sqlGetById_def rowToPendingOp_def)
  define f :: "OpRow \<Rightarrow> OpRow" where "f = (\<lambda>r. r\<lparr>orStatus := decisionStatus (decDecision d), orDecidedAt := Some now,
     orDecidedBy := Some (decDecidedBy d), orDecidedReason := decReason d\<rparr>)"
  have key: "orId (f x) = orId x" for x by (simp add: f_def)
  note get = guardUpd_get [of f "decId d" OpPending s, OF key]
  have "sqlDecideAt (Some existing) s now d = (Inr (rowToPendingOp (f r)), guardUpd (decId d) OpPending f s)"
    using assms True guard_hit [OF assms(1), of "decId d" OpPending] get [of "decId d"] r
    by (simp add: sqlDecideAt_def Let_def guardUpd_def f_def)
  moreover have "sqlGetById (guardUpd (decId d) OpPending f s) = (sqlGetById s)(decId d \<mapsto> rowToPendingOp (f r))"
    using get r by (auto simp: fun_eq_iff)
  moreover have "sameRequest (rowToPendingOp r) (rowToPendingOp (f r)) \<and>
      opStatus (rowToPendingOp (f r)) = decisionStatus (decDecision d) \<and>
      opDecidedBy (rowToPendingOp (f r)) = optStr (Some (decDecidedBy d))"
    by (simp add: sameRequest_def rowToPendingOp_def f_def)
  moreover have "sqlInv (guardUpd (decId d) OpPending f s)" using assms(1) key by (intro guardUpd_inv) auto
  ultimately show ?thesis using r by (auto simp: sqlGetById_def rowToPendingOp_def)
next
  case False
  then show ?thesis using assms guard_hit [OF assms(1), of "decId d" OpPending]
    by (auto simp: sqlDecideAt_def)
qed

lemma sqlExecuted_run:
  assumes "sqlInv s" "sqlGetById s i = Some op" "opStatus op = OpApproved"
  shows "\<exists>op'. fst (sqlMarkExecuted s now i) = Inr op' \<and>
    sqlGetById (snd (sqlMarkExecuted s now i)) = (sqlGetById s)(i \<mapsto> op') \<and> sameRequest op op' \<and>
    opStatus op' = OpExecuted \<and> opDecidedBy op' = opDecidedBy op \<and> sqlInv (snd (sqlMarkExecuted s now i))"
proof -
  obtain r where r: "tableGet orId (sqlRows s) i = Some r" "op = rowToPendingOp r"
    using assms(2) by (auto simp: sqlGetById_def)
  define f :: "OpRow \<Rightarrow> OpRow" where "f = (\<lambda>r. r\<lparr>orStatus := OpExecuted, orExecutedAt := Some now\<rparr>)"
  have key: "orId (f x) = orId x" for x by (simp add: f_def)
  have st: "orStatus r = OpApproved" using assms(3) r(2) by (simp add: rowToPendingOp_def)
  note get = guardUpd_get [of f i OpApproved s, OF key]
  have "sqlMarkExecuted s now i = (Inr (rowToPendingOp (f r)), guardUpd i OpApproved f s)"
    using assms guard_hit [OF assms(1), of i OpApproved] get [of i] r st
    by (simp add: sqlMarkExecuted_def sqlMarkExecutedAt_def Let_def guardUpd_def f_def)
  moreover have "sqlGetById (guardUpd i OpApproved f s) = (sqlGetById s)(i \<mapsto> rowToPendingOp (f r))"
    using get r st by (auto simp: fun_eq_iff)
  moreover have "sameRequest op (rowToPendingOp (f r)) \<and> opStatus (rowToPendingOp (f r)) = OpExecuted \<and>
      opDecidedBy (rowToPendingOp (f r)) = opDecidedBy op"
    by (simp add: r(2) sameRequest_def rowToPendingOp_def f_def)
  moreover have "sqlInv (guardUpd i OpApproved f s)" using assms(1) key by (intro guardUpd_inv) auto
  ultimately show ?thesis by auto
qed

lemma sqlExpire_get:
  "sqlGetById (snd (sqlExpireOlderThan s now cutoff)) i =
     map_option (\<lambda>op. if expirable cutoff op then op\<lparr>opStatus := OpExpired\<rparr> else op) (sqlGetById s i)"
proof -
  let ?f = "\<lambda>r. if orStatus r = OpPending \<and> orCreatedAt r < cutoff then r\<lparr>orStatus := OpExpired\<rparr> else r"
  have "find (\<lambda>r. orId r = i) (map ?f (sqlRows s)) = map_option ?f (find (\<lambda>r. orId r = i) (sqlRows s))"
    by (rule find_map_key) simp
  then show ?thesis
    by (auto simp: sqlExpireOlderThan_def Let_def sqlGetById_def tableGet_def option.map_comp comp_def
        rowToPendingOp_def expirable_def intro!: option.map_cong)
qed

lemma sqlExpire_inv:
  assumes "sqlInv s"
  shows "sqlInv (snd (sqlExpireOlderThan s now cutoff))"
proof -
  have "map orId (map (\<lambda>r. if orStatus r = OpPending \<and> orCreatedAt r < cutoff then r\<lparr>orStatus := OpExpired\<rparr> else r) (sqlRows s)) =
      map orId (sqlRows s)"
    by (intro keys_map) simp
  then show ?thesis using assms unfolding sqlInv_def sqlExpireOlderThan_def Let_def snd_conv sqlRows_set by metis
qed

lemma sqlEnqueue_run:
  assumes "sqlInv s" "sqlGetById s i = None"
  shows "\<exists>op. fst (sqlEnqueue s i now inp) = Inr op \<and> sqlGetById (snd (sqlEnqueue s i now inp)) = (sqlGetById s)(i \<mapsto> op) \<and>
    op = (newOp i now inp)\<lparr>opEnqueueRationale := optStr (eqRationale inp)\<rparr> \<and> sqlInv (snd (sqlEnqueue s i now inp))"
proof -
  have none: "tableGet orId (sqlRows s) i = None" using assms(2) by (simp add: sqlGetById_def)
  then have "i \<notin> set (map orId (sqlRows s))" by (auto simp: so.get_None)
  then show ?thesis
    using assms none
    by (auto simp: sqlEnqueue_def Let_def sqlInv_def sqlGetById_def tableGet_def find_append fun_eq_iff
        rowToPendingOp_def newOp_def optStr_def split: option.splits)
qed

interpretation sql: pending_ops_store sqlOps sqlInv
proof (unfold_locales, goal_cases)
  case (1 s i now inp r s')
  then show ?case using sqlEnqueue_run [of s i now inp]
    by (auto simp: sqlOps_def newOp_def)
next
  case (2 s d now r s')
  then have d: "r = fst (sqlDecide s now d)" "s' = snd (sqlDecide s now d)" by (simp_all add: sqlOps_def)
  show ?case
  proof (cases "sqlGetById s (decId d)")
    case None
    then show ?thesis using 2(1) d by (simp add: sqlOps_def sqlDecide_def sqlDecideAt_def)
  next
    case (Some op)
    then show ?thesis
      using 2(1,2) sqlDecideAt_run [of s op d now] unfolding d
      by (auto simp: sqlOps_def sqlDecide_def optStr_def) (auto simp: sqlDecideAt_def)
  qed
next
  case (3 s now i r s')
  then have d: "r = fst (sqlMarkExecuted s now i)" "s' = snd (sqlMarkExecuted s now i)" by (simp_all add: sqlOps_def)
  show ?case
  proof (cases "\<exists>op. sqlGetById s i = Some op \<and> opStatus op = OpApproved")
    case True
    then show ?thesis using sqlExecuted_run [OF 3(1)] unfolding d by (fastforce simp: sqlOps_def)
  next
    case False
    then show ?thesis using 3(1) unfolding d
      by (auto simp: sqlOps_def sqlMarkExecuted_def sqlMarkExecutedAt_def split: option.splits)
  qed
next
  case (4 s now cutoff n s')
  then have "s' = snd (sqlExpireOlderThan s now cutoff)" by (simp add: sqlOps_def)
  moreover have "swept x (map_option (\<lambda>op. if expirable cutoff op then op\<lparr>opStatus := OpExpired\<rparr> else op) x)" for x
    by (cases x) (auto simp: swept_def expirable_def)
  ultimately show ?case using 4(1) sqlExpire_inv by (simp add: sqlOps_def sqlExpire_get)
qed

section \<open>Properties\<close>

lemma ops_get [simp]: "psGetById sqlOps = sqlGetById" "psGetById memOps = memGet"
  by (simp_all add: sqlOps_def memOps_def)

lemma empty_stores [simp]:
  "memGet emptyMemOps = Map.empty" "memInv emptyMemOps" "sqlGetById emptySqlOps = Map.empty" "sqlInv emptySqlOps"
  by (simp_all add: emptyMemOps_def memGet_def tableGet_def memInv_def emptySqlOps_def sqlGetById_def sqlInv_def fun_eq_iff)

lemmas sql_reach = sql.reach_refines [where ?s0.0 = emptySqlOps, simplified]
lemmas mem_reach = mem.reach_refines [where ?s0.0 = emptyMemOps, simplified]

text \<open>C31: both stores implement the same abstract approval machine: from the empty store on, every
  operation of either, seen through \<open>getById\<close>, submits one new pending request, settles one pending
  request under a decider who is not its initiator, executes one approved request, expires or
  forgets entries in a sweep, or changes nothing.\<close>

theorem approval_stores_refine:
  assumes "ops_reach sqlOps emptySqlOps s" "ops_step sqlOps s s'"
    and "ops_reach memOps emptyMemOps t" "ops_step memOps t t'"
  shows "approval_step (sqlGetById s) (sqlGetById s') \<and> approval_step (memGet t) (memGet t')"
  using sql_reach [OF assms(1)] sql.step_refines [OF assms(2)] mem_reach [OF assms(3)] mem.step_refines [OF assms(4)]
  by simp

definition sampleRequest :: EnqueueInput where
  "sampleRequest = \<lparr>eqOperation = ''drop'', eqWorkspaceId = ''w'', eqInitiator = ''ann'', eqArgs = None,
     eqRationale = None, eqApproverPermission = None\<rparr>"

definition bobApproves :: DecisionInput where
  "bobApproves = \<lparr>decId = ''q'', decDecision = DecApproved, decDecidedBy = ''bob'', decReason = None\<rparr>"

definition sqlQueued :: SqlOps where
  "sqlQueued = snd (sqlEnqueue emptySqlOps ''q'' 1 sampleRequest)"

definition memQueued :: MemOps where
  "memQueued = snd (memEnqueue emptyMemOps ''q'' 1 sampleRequest)"

lemma queued_reach: "ops_reach sqlOps emptySqlOps sqlQueued" "ops_reach memOps emptyMemOps memQueued"
  using ops_reach.ops_next [OF ops_reach.ops_start ops_step.enqueue_step [of sqlOps emptySqlOps "''q''" 1 sampleRequest]]
    ops_reach.ops_next [OF ops_reach.ops_start ops_step.enqueue_step [of memOps emptyMemOps "''q''" 1 sampleRequest]]
  by (simp_all add: sqlQueued_def memQueued_def) (simp_all add: sqlOps_def memOps_def)

lemma queued_decide:
  "ops_step sqlOps sqlQueued (snd (sqlDecide sqlQueued 2 bobApproves))"
  "ops_step memOps memQueued (snd (memDecide memQueued 2 bobApproves))"
  using ops_step.decide_step [of bobApproves sqlOps sqlQueued 2] ops_step.decide_step [of bobApproves memOps memQueued 2]
  by (simp_all add: bobApproves_def) (simp_all add: sqlOps_def memOps_def)

theorem approval_stores_refine_witness:
  "approval_step (sqlGetById sqlQueued) (sqlGetById (snd (sqlDecide sqlQueued 2 bobApproves))) \<and>
   approval_step (memGet memQueued) (memGet (snd (memDecide memQueued 2 bobApproves)))"
  using approval_stores_refine [OF queued_reach(1) queued_decide(1) queued_reach(2) queued_decide(2)] .

text \<open>C34: dual control. In every state either store can reach, a request that is approved, rejected or
  executed names a decider, and the decider is not the one who asked; a pending request names none.
  Whatever happens next, an approved request stays approved or becomes executed and is never lost,
  a finished one keeps its status or is forgotten, and no request changes its operation, its
  arguments or its initiator.\<close>

theorem approval_dual_control:
  assumes "ops_reach sqlOps emptySqlOps s" "ops_step sqlOps s s'" "sqlGetById s i = Some op"
    and "ops_reach memOps emptyMemOps t" "ops_step memOps t t'" "memGet t j = Some oq"
  shows "dualControl (sqlGetById s) \<and> dualControl (memGet t) \<and>
    ((\<exists>op'. sqlGetById s' i = Some op' \<and> sameRequest op op' \<and> statusMove (opStatus op) (opStatus op')) \<or>
      sqlGetById s' i = None \<and> opStatus op \<noteq> OpApproved) \<and>
    ((\<exists>oq'. memGet t' j = Some oq' \<and> sameRequest oq oq' \<and> statusMove (opStatus oq) (opStatus oq')) \<or>
      memGet t' j = None \<and> opStatus oq \<noteq> OpApproved)"
proof -
  have "approval_step (sqlGetById s) (sqlGetById s')" "approval_step (memGet t) (memGet t')"
    using sql_reach [OF assms(1)] sql.step_refines [OF assms(2)] mem_reach [OF assms(4)] mem.step_refines [OF assms(5)]
    by simp_all
  then show ?thesis
    using sql_reach [OF assms(1)] mem_reach [OF assms(4)] dualControl_reach approval_moves assms(3,6) by blast
qed

lemma queued_get:
  "sqlGetById sqlQueued ''q'' = Some (newOp ''q'' 1 sampleRequest)" "memGet memQueued ''q'' = Some (newOp ''q'' 1 sampleRequest)"
  by (simp_all add: sqlQueued_def sqlEnqueue_def emptySqlOps_def sqlGetById_def tableGet_def Let_def setSqlRows_def
      rowToPendingOp_def newOp_def sampleRequest_def optStr_def
      memQueued_def memEnqueue_def memSet_def memGet_def emptyMemOps_def setMemRows_def)

theorem approval_dual_control_witness:
  "dualControl (sqlGetById sqlQueued) \<and> dualControl (memGet memQueued)"
  using approval_dual_control [OF queued_reach(1) queued_decide(1) queued_get(1) queued_reach(2) queued_decide(2) queued_get(2)]
  by blast

section \<open>Two deciders at once\<close>

lemma sql_step_keeps:
  assumes "ops_step sqlOps s s'" "sqlInv s" "sqlGetById s i \<noteq> None"
  shows "sqlGetById s' i \<noteq> None"
  using assms
proof (induction rule: ops_step.induct)
  case (enqueue_step s k now inp)
  then show ?case using sqlEnqueue_run [of s k now inp] by (auto simp: sqlOps_def)
next
  case (decide_step d s now)
  then show ?case
    using sql.decide_law [OF decide_step.prems(1) decide_step.hyps prod.collapse [symmetric], of now]
    by (auto split: option.splits if_splits)
next
  case (executed_step s now k)
  then show ?case
    using sql.executed_law [OF executed_step.prems(1) prod.collapse [symmetric], of now k]
    by (auto split: option.splits if_splits)
next
  case (expire_step s now cutoff)
  then show ?case by (simp add: sqlOps_def sqlExpire_get)
qed

lemma sql_persists:
  assumes "ops_reach sqlOps s0 s" "sqlInv s0" "sqlGetById s0 i = Some op"
  shows "sqlInv s \<and> (\<exists>op'. sqlGetById s i = Some op' \<and> sameRequest op op' \<and> (opStatus op \<noteq> OpPending \<longrightarrow> opStatus op' \<noteq> OpPending))"
  using assms
proof (induction rule: ops_reach.induct)
  case (ops_next s s')
  then obtain q where q: "sqlInv s" "sqlGetById s i = Some q" "sameRequest op q" "opStatus op \<noteq> OpPending \<longrightarrow> opStatus q \<noteq> OpPending"
    by auto
  have "sqlInv s'" and step: "approval_step (sqlGetById s) (sqlGetById s')"
    using sql.step_refines [OF ops_next.hyps(2) q(1)] by simp_all
  moreover obtain q' where "sqlGetById s' i = Some q'" using sql_step_keeps [OF ops_next.hyps(2) q(1)] q(2) by auto
  moreover from this have "sameRequest q q'" "statusMove (opStatus q) (opStatus q')"
    using approval_moves [OF step q(2)] by auto
  moreover have "opStatus q \<noteq> OpPending \<longrightarrow> opStatus q' \<noteq> OpPending"
    using \<open>statusMove (opStatus q) (opStatus q')\<close> by (cases "opStatus q") auto
  ultimately show ?case using q(3,4) sameRequest_trans by blast
qed auto

text \<open>C33: deciding is atomic although it reads before it writes. Let a decider read a request, let any
  other operations run, and then let it write: either it fails and changes nothing, or it has
  exactly the effect of a decision taken in one step at the time of the write. After a decision
  that succeeded, every later decision on that request fails, whatever it read before.\<close>

theorem decide_race_one_winner:
  assumes "ops_reach sqlOps emptySqlOps s0" "ops_reach sqlOps s0 s" "decDecidedBy d \<noteq> []"
    and "sqlDecideAt (sqlGetById s0 (decId d)) s now d = (r, s')"
  shows "(case r of Inl e \<Rightarrow> s' = s | Inr op \<Rightarrow> sqlDecide s now d = (Inr op, s')) \<and>
    (\<forall>op s'' seen now' d'. r = Inr op \<longrightarrow> ops_reach sqlOps s' s'' \<longrightarrow> decId d' = decId d \<longrightarrow>
       (\<exists>e. sqlDecideAt seen s'' now' d' = (Inl e, s'')))"
proof (cases "sqlGetById s0 (decId d)")
  case None
  then show ?thesis using assms(4) by (auto simp: sqlDecideAt_def)
next
  case (Some seen)
  have inv0: "sqlInv s0" using sql_reach [OF assms(1)] by blast
  obtain q where q: "sqlInv s" "sqlGetById s (decId d) = Some q" "sameRequest seen q"
    using sql_persists [OF assms(2) inv0 Some] by blast
  show ?thesis
  proof (cases "opInitiator seen \<noteq> decDecidedBy d \<and> opStatus seen = OpPending \<and> opStatus q = OpPending")
    case False
    then show ?thesis
      using assms(4) sqlDecideAt_run [OF q(1), of seen d now] q(2) Some
      by (auto simp: sqlDecideAt_def split: if_splits)
  next
    case True
    then have at: "sqlDecideAt (Some seen) s now d = sqlDecide s now d"
      using q(2,3) by (simp add: sqlDecide_def sqlDecideAt_def sameRequest_def)
    then obtain op where op: "r = Inr op" "sqlGetById s' (decId d) = Some op" "sqlInv s'"
        "opStatus op = decisionStatus (decDecision d)"
      using sqlDecideAt_run [OF q(1), of seen d now] True q(2) assms(4) Some by auto
    have "\<exists>e. sqlDecideAt seen' s'' now' d' = (Inl e, s'')"
      if later: "ops_reach sqlOps s' s''" "decId d' = decId d" for s'' seen' now' d'
    proof -
      have "opStatus op \<noteq> OpPending" using op(4) by (cases "decDecision d") auto
      then obtain op' where "sqlInv s''" "sqlGetById s'' (decId d) = Some op'" "opStatus op' \<noteq> OpPending"
        using sql_persists [OF later(1) op(3,2)] by blast
      then show ?thesis
        using later(2) guard_hit [of s'' "decId d" OpPending] by (cases seen') (auto simp: sqlDecideAt_def split: if_splits)
    qed
    then show ?thesis using at assms(4) Some op(1) by auto
  qed
qed

theorem decide_race_one_winner_witness:
  "\<exists>e. sqlDecideAt (sqlGetById sqlQueued ''q'') (snd (sqlDecide sqlQueued 2 bobApproves)) 3
     (bobApproves\<lparr>decDecision := DecRejected, decDecidedBy := ''carl''\<rparr>) = (Inl e, snd (sqlDecide sqlQueued 2 bobApproves))"
proof -
  obtain r s' where run: "sqlDecideAt (sqlGetById sqlQueued (decId bobApproves)) sqlQueued 2 bobApproves = (r, s')"
    by (metis surj_pair)
  then have run': "sqlDecide sqlQueued 2 bobApproves = (r, s')" by (simp add: sqlDecide_def)
  have inv: "sqlInv sqlQueued" using sql_reach [OF queued_reach(1)] by blast
  have "\<exists>op. r = Inr op"
    using sql.decide_law [OF inv, of bobApproves 2 r s'] run' queued_get(1)
    by (auto simp: bobApproves_def newOp_def sampleRequest_def sqlOps_def)
  then show ?thesis
    using decide_race_one_winner [OF queued_reach(1) ops_reach.ops_start _ run] run'
    by (auto simp: bobApproves_def intro: ops_reach.ops_start)
qed

end
