(* ===== verification/Principal.thy ===== *)
theory Principal
  imports Json
begin

text \<open>
  The request principal and its scope guards (\<open>auth/principal.ts\<close>), the binding of a request to a workspace
  (\<open>security/routeWorkspaceBinding.ts\<close>), the tenant stage of the HTTP pipeline that seeds it
  (\<open>mcp/http/middleware.ts\<close>) and the permission gate in front of a route (\<open>security/routeGate.ts\<close>,
  \<open>security/rebacGate.ts\<close>).

  The principal and the binding slot live in an \<open>AsyncLocalStorage\<close>; here they are arguments, \<open>None\<close> outside a
  request. A gate that writes a denial to the response returns it as a value.
\<close>

section \<open>\<open>auth/principal.ts\<close>\<close>

datatype PrincipalKind = BootstrapKind | AppKind | SharedSecretKind

record Principal =
  pnKind :: PrincipalKind
  pnWorkspace :: string
  pnScopes :: "string list"
  pnLabel :: string
  pnAllowedWorkspaces :: "string list option"

record ScopeOutcome =
  soOk :: bool
  soStatus :: "nat option"
  soCode :: "string option"
  soReason :: "string option"

definition scopeOk :: ScopeOutcome where
  "scopeOk = \<lparr>soOk = True, soStatus = None, soCode = None, soReason = None\<rparr>"

definition scopeDeny :: "nat \<Rightarrow> string \<Rightarrow> string option \<Rightarrow> ScopeOutcome" where
  "scopeDeny status code reason = \<lparr>soOk = False, soStatus = Some status, soCode = Some code, soReason = reason\<rparr>"

definition dq :: "string \<Rightarrow> string" where
  "dq s = CHR 34 # s @ [CHR 34]"

definition sq :: "string \<Rightarrow> string" where
  "sq s = CHR 39 # s @ [CHR 39]"

definition requireWriteToWorkspace :: "Principal option \<Rightarrow> string option \<Rightarrow> ScopeOutcome" where
  "requireWriteToWorkspace pn requestedWorkspace =
     (case pn of
        None \<Rightarrow> scopeDeny 401 ''auth_required'' None
      | Some p \<Rightarrow>
          if \<not> List.member (pnScopes p) ''write'' then scopeDeny 403 ''scope_missing'' (Some ''token lacks 'write' scope'')
          else let target = (case requestedWorkspace of None \<Rightarrow> pnWorkspace p | Some w \<Rightarrow> w)
               in if target \<noteq> pnWorkspace p \<and> \<not> List.member (pnScopes p) ''cross-workspace-write'' then
                    scopeDeny 403 ''workspace_forbidden''
                      (Some (''token is scoped to workspace '' @ dq (pnWorkspace p) @ '', cannot write to '' @ dq target @
                             '' (missing 'cross-workspace-write' scope)''))
                  else scopeOk)"

definition requireReviewToWorkspace :: "Principal option \<Rightarrow> string option \<Rightarrow> ScopeOutcome" where
  "requireReviewToWorkspace pn requestedWorkspace =
     (case pn of
        None \<Rightarrow> scopeDeny 401 ''auth_required'' None
      | Some p \<Rightarrow>
          if \<not> List.member (pnScopes p) ''review'' then scopeDeny 403 ''scope_missing'' (Some ''token lacks 'review' scope'')
          else let target = (case requestedWorkspace of None \<Rightarrow> pnWorkspace p | Some w \<Rightarrow> w)
               in if target \<noteq> pnWorkspace p \<and> \<not> List.member (pnScopes p) ''cross-workspace-write'' then
                    scopeDeny 403 ''workspace_forbidden''
                      (Some (''token is scoped to workspace '' @ dq (pnWorkspace p) @ '', cannot review in '' @ dq target @
                             '' (missing 'cross-workspace-write' scope)''))
                  else scopeOk)"

definition requireReadFromWorkspace :: "Principal option \<Rightarrow> string option \<Rightarrow> ScopeOutcome" where
  "requireReadFromWorkspace pn requestedWorkspace =
     (case pn of
        None \<Rightarrow> scopeDeny 401 ''auth_required'' None
      | Some p \<Rightarrow>
          if \<not> List.member (pnScopes p) ''read'' then scopeDeny 403 ''scope_missing'' (Some ''token lacks 'read' scope'')
          else case requestedWorkspace of
                 None \<Rightarrow> scopeOk
               | Some w \<Rightarrow>
                   if w = pnWorkspace p then scopeOk
                   else if \<not> List.member (pnScopes p) ''cross-workspace-read'' then
                     scopeDeny 403 ''workspace_forbidden''
                       (Some (if w = ''*''
                              then ''token lacks 'cross-workspace-read' scope (needed for workspace:'' @ dq ''*'' @ '' aggregation)''
                              else ''token is scoped to workspace '' @ dq (pnWorkspace p) @ '', cannot read '' @ dq w @
                                   '' (missing 'cross-workspace-read' scope)''))
                   else scopeOk)"

datatype Intent = ReadIntent | WriteIntent

definition intentText :: "Intent \<Rightarrow> string" where
  "intentText i = (case i of ReadIntent \<Rightarrow> ''read'' | WriteIntent \<Rightarrow> ''write'')"

definition isWorkspaceHeaderAuthorized :: "Principal option \<Rightarrow> string \<Rightarrow> Intent \<Rightarrow> bool" where
  "isWorkspaceHeaderAuthorized pn headerWorkspace intent =
     (case pn of
        None \<Rightarrow> False
      | Some p \<Rightarrow>
          if headerWorkspace = pnWorkspace p then True
          else if (case pnAllowedWorkspaces p of None \<Rightarrow> False | Some ws \<Rightarrow> List.member ws headerWorkspace) then True
          else if intent = WriteIntent then List.member (pnScopes p) ''cross-workspace-write''
          else List.member (pnScopes p) ''cross-workspace-read'' \<or> List.member (pnScopes p) ''cross-workspace-write'')"

definition resolveWorkspaceHeaderBinding :: "Principal option \<Rightarrow> string option \<Rightarrow> Intent \<Rightarrow> ScopeOutcome \<times> string option" where
  "resolveWorkspaceHeaderBinding pn headerWorkspace intent =
     (case pn of
        None \<Rightarrow> (scopeDeny 401 ''auth_required'' (Some ''cloud tenant routing requires an authenticated principal''), None)
      | Some p \<Rightarrow>
          (case headerWorkspace of
             None \<Rightarrow> (scopeOk, Some (pnWorkspace p))
           | Some h \<Rightarrow>
               if trimJs h = [] then (scopeOk, Some (pnWorkspace p))
               else if \<not> isWorkspaceHeaderAuthorized pn (trimJs h) intent then
                 (scopeDeny 403 ''workspace_forbidden''
                    (Some (''principal is scoped to workspace '' @ dq (pnWorkspace p) @ '', not authorized to target tenant '' @
                           dq (trimJs h) @ '' via X-Lore-Workspace (missing cross-workspace-'' @ intentText intent @ '' scope)'')), None)
               else (scopeOk, Some (trimJs h))))"

section \<open>\<open>security/routeWorkspaceBinding.ts\<close>\<close>

datatype RouteLane = WorkspaceLane | CrossWorkspaceLane | DaemonOperatorLane

record RouteWorkspaceBinding =
  rbTarget :: string
  rbLane :: RouteLane
  rbExtraTargets :: "string list"

datatype RouteIntent = BindRead | BindWrite | BindReview

datatype Bound = BoundTo string | Denied nat string "string option" | Unbound

definition isLegacyBypass :: "Principal option \<Rightarrow> RouteWorkspaceBinding option \<Rightarrow> string option \<Rightarrow> bool" where
  "isLegacyBypass pn slot requested = (pn = None \<and> slot = None \<and> requested = None)"

definition denialOf :: "ScopeOutcome \<Rightarrow> Bound" where
  "denialOf out =
     Denied (case soStatus out of None \<Rightarrow> 403 | Some s \<Rightarrow> s)
            (case soCode out of None \<Rightarrow> ''workspace_forbidden'' | Some c \<Rightarrow> c) (soReason out)"

definition requireIntent :: "RouteIntent \<Rightarrow> Principal option \<Rightarrow> string option \<Rightarrow> ScopeOutcome" where
  "requireIntent intent pn target =
     (case intent of
        BindWrite \<Rightarrow> requireWriteToWorkspace pn target
      | BindReview \<Rightarrow> requireReviewToWorkspace pn target
      | BindRead \<Rightarrow> requireReadFromWorkspace pn target)"

definition bindRouteTarget ::
  "Principal option \<Rightarrow> string option \<Rightarrow> RouteIntent \<Rightarrow> RouteWorkspaceBinding option \<Rightarrow> Bound \<times> RouteWorkspaceBinding option" where
  "bindRouteTarget pn requested intent slot =
     (if requested = Some ''*'' then
        (if intent \<noteq> BindRead then
           (Denied 403 ''workspace_forbidden''
              (Some (''workspace:'' @ dq ''*'' @ '' is a read-only aggregation lane; there is no '' @ dq ''*'' @ '' write lane'')), slot)
         else if pn \<noteq> None \<and> \<not> soOk (requireReadFromWorkspace pn (Some ''*'')) then
           (denialOf (requireReadFromWorkspace pn (Some ''*'')), slot)
         else (BoundTo ''*'', map_option (\<lambda>b. b\<lparr>rbTarget := ''*'', rbLane := CrossWorkspaceLane\<rparr>) slot))
      else
        (case (case requested of Some w \<Rightarrow> Some w
               | None \<Rightarrow> (case slot of Some b \<Rightarrow> Some (rbTarget b) | None \<Rightarrow> map_option pnWorkspace pn)) of
           None \<Rightarrow> (Unbound, slot)
         | Some target \<Rightarrow>
             if pn \<noteq> None \<and> \<not> soOk (requireIntent intent pn (Some target)) then
               (denialOf (requireIntent intent pn (Some target)), slot)
             else (BoundTo target,
                   map_option (\<lambda>b. b\<lparr>rbTarget := target,
                                     rbLane := (if rbLane b = CrossWorkspaceLane then WorkspaceLane else rbLane b)\<rparr>) slot)))"

definition operatorLane :: "RouteWorkspaceBinding option \<Rightarrow> RouteWorkspaceBinding option" where
  "operatorLane slot = map_option (\<lambda>b. b\<lparr>rbLane := DaemonOperatorLane\<rparr>) slot"

definition bindDaemonOperatorLane ::
  "Principal option \<Rightarrow> Intent \<Rightarrow> string option \<Rightarrow> RouteWorkspaceBinding option \<Rightarrow> Bound option \<times> RouteWorkspaceBinding option" where
  "bindDaemonOperatorLane pn intent requested slot =
     (case pn of
        None \<Rightarrow> (None, operatorLane slot)
      | Some p \<Rightarrow>
          if pnKind p = BootstrapKind \<or> pnKind p = SharedSecretKind then (None, operatorLane slot)
          else (case requested of
                  None \<Rightarrow>
                    if \<not> List.member (pnScopes p) ''cross-workspace-write'' then
                      (Some (Denied 403 ''workspace_forbidden''
                         (Some (''token is scoped to workspace '' @ dq (pnWorkspace p) @
                                '', cannot run a daemon-wide operator operation (missing 'cross-workspace-write' scope)''))), slot)
                    else (None, operatorLane slot)
                | Some target \<Rightarrow>
                    (let outcome = (if intent = WriteIntent then requireWriteToWorkspace pn (Some target)
                                    else requireReadFromWorkspace pn (Some target))
                     in if \<not> soOk outcome then (Some (denialOf outcome), slot)
                        else (None, if target \<noteq> pnWorkspace p then operatorLane slot else slot))))"

definition authorizeExtraTarget :: "string \<Rightarrow> RouteWorkspaceBinding option \<Rightarrow> RouteWorkspaceBinding option" where
  "authorizeExtraTarget workspace slot = map_option (\<lambda>b. b\<lparr>rbExtraTargets := List.insert workspace (rbExtraTargets b)\<rparr>) slot"

definition canPrincipalReadWorkspace :: "Principal option \<Rightarrow> string \<Rightarrow> bool" where
  "canPrincipalReadWorkspace pn workspace = soOk (requireReadFromWorkspace pn (Some workspace))"

text \<open>\<open>Some\<close> carries the two fields of \<open>WorkspaceAccessDeniedError\<close>; \<open>None\<close> is a return.\<close>

definition assertWorkspaceOpenAllowed :: "string \<Rightarrow> RouteWorkspaceBinding option \<Rightarrow> (string \<times> string) option" where
  "assertWorkspaceOpenAllowed workspace slot =
     (case slot of
        None \<Rightarrow> None
      | Some b \<Rightarrow>
          if workspace = rbTarget b then None
          else if List.member (rbExtraTargets b) workspace then None
          else if rbLane b \<noteq> WorkspaceLane then None
          else Some (rbTarget b, workspace))"

section \<open>The tenant stage of \<open>runHttpGates\<close>\<close>

datatype DeploymentMode = LocalMode | CloudMode

definition headerExempt :: "string \<Rightarrow> bool" where
  "headerExempt pathname =
     List.member [''/api/auth/bootstrap'', ''/api/health'', ''/api/ready'', ''/api/orphan'', ''/api/workspaces'',
                  ''/api/workspaces/switch''] pathname"

definition upperAscii :: "char \<Rightarrow> char" where
  "upperAscii c = (let n = of_char c :: nat in if 97 \<le> n \<and> n \<le> 122 then char_of (n - 32) else c)"

definition methodIntent :: "string option \<Rightarrow> Intent" where
  "methodIntent m =
     (let method = map upperAscii (case m of None \<Rightarrow> ''GET'' | Some x \<Rightarrow> x)
      in if method = ''GET'' \<or> method = ''HEAD'' \<or> method = ''OPTIONS'' then ReadIntent else WriteIntent)"

datatype TenantStage = TenantPass "string option" | TenantReject nat string

definition rejectWith :: "ScopeOutcome \<Rightarrow> TenantStage" where
  "rejectWith out =
     TenantReject (case soStatus out of None \<Rightarrow> 403 | Some s \<Rightarrow> s)
                  (case soCode out of None \<Rightarrow> ''workspace_forbidden'' | Some c \<Rightarrow> c)"

definition tenantStage ::
  "DeploymentMode \<Rightarrow> Principal option \<Rightarrow> string \<Rightarrow> string \<Rightarrow> string option \<Rightarrow> string option \<Rightarrow> TenantStage" where
  "tenantStage mode pn url pathname method wsHeader =
     (let gated = (startsWith url ''/api/'' \<or> startsWith url ''/v1/'')
      in if mode = CloudMode \<and> gated then
           (if headerExempt pathname then TenantPass None
            else case wsHeader of
                   None \<Rightarrow> TenantReject 400 ''workspace_header_required''
                 | Some h \<Rightarrow>
                     if trimJs h = [] then TenantReject 400 ''workspace_header_required''
                     else (case resolveWorkspaceHeaderBinding pn (Some h) (methodIntent method) of
                             (out, ws) \<Rightarrow>
                               if \<not> soOk out then rejectWith out
                               else TenantPass (Some (case ws of None \<Rightarrow> trimJs h | Some w \<Rightarrow> w))))
         else if mode = LocalMode \<and> pn \<noteq> None \<and> gated then
           (if headerExempt pathname then TenantPass None
            else (case resolveWorkspaceHeaderBinding pn wsHeader (methodIntent method) of
                    (out, ws) \<Rightarrow>
                      if \<not> soOk out then rejectWith out
                      else TenantPass (case ws of None \<Rightarrow> map_option pnWorkspace pn | Some w \<Rightarrow> Some w)))
         else TenantPass None)"

definition routeBindingSlot :: "DeploymentMode \<Rightarrow> string option \<Rightarrow> RouteWorkspaceBinding option" where
  "routeBindingSlot mode workspaceId =
     (if mode \<noteq> LocalMode \<or> workspaceId = None \<or> workspaceId = Some [] then None
      else Some \<lparr>rbTarget = the workspaceId, rbLane = WorkspaceLane, rbExtraTargets = []\<rparr>)"

section \<open>The permission gate\<close>

record ActorContext =
  portalUserId :: string
  actorScopes :: "string list"

datatype DenyReason = NoActor | NoDataplane | DeniedReason | Unreachable

datatype PermissionDecision = AllowedDecision | DeniedDecision DenyReason "string option"

definition unwrapAllowed :: "json \<Rightarrow> bool" where
  "unwrapAllowed raw =
     (case raw of
        JObj r \<Rightarrow>
          (case fld r ''allowed'' of
             Some (JBool b) \<Rightarrow> b
           | _ \<Rightarrow> (case fld r ''data'' of
                    Some (JObj d) \<Rightarrow> (case fld d ''allowed'' of Some (JBool b) \<Rightarrow> b | _ \<Rightarrow> False)
                  | _ \<Rightarrow> False))
      | _ \<Rightarrow> False)"

record CheckInput =
  ciSubjectType :: string
  ciSubjectId :: string
  ciPermission :: string
  ciResourceType :: string
  ciResourceId :: string

definition checkRequest :: "CheckInput \<Rightarrow> json" where
  "checkRequest i =
     JObj [(''subject'', JObj [(''type'', JStr (ciSubjectType i)), (''id'', JStr (ciSubjectId i))]),
           (''resource'', JObj [(''type'', JStr (ciResourceType i)), (''id'', JStr (ciResourceId i))]),
           (''permission'', JStr (ciPermission i))]"

definition checkPermission :: "(string \<Rightarrow> json \<Rightarrow> string + json) \<Rightarrow> CheckInput \<Rightarrow> string + bool" where
  "checkPermission fetch i = map_sum id unwrapAllowed (fetch ''/v1/authz/check'' (checkRequest i))"

definition requirePermission ::
  "ActorContext option \<Rightarrow> (string \<Rightarrow> json \<Rightarrow> string + json) option \<Rightarrow> string \<Rightarrow> string \<Rightarrow> string \<Rightarrow> PermissionDecision" where
  "requirePermission actor dataplane resourceType resourceId permission =
     (case actor of
        None \<Rightarrow> DeniedDecision NoActor None
      | Some a \<Rightarrow>
          (case dataplane of
             None \<Rightarrow> DeniedDecision NoDataplane None
           | Some fetch \<Rightarrow>
               if resourceId = [] then DeniedDecision DeniedReason (Some ''empty resourceId'')
               else (case checkPermission fetch
                            \<lparr>ciSubjectType = ''lore__user'', ciSubjectId = portalUserId a, ciPermission = permission,
                             ciResourceType = resourceType, ciResourceId = resourceId\<rparr> of
                       Inl msg \<Rightarrow> DeniedDecision Unreachable (Some msg)
                     | Inr ok \<Rightarrow> if ok then AllowedDecision else DeniedDecision DeniedReason None)))"

definition permissionStatus :: "DenyReason \<Rightarrow> nat" where
  "permissionStatus r = (case r of NoActor \<Rightarrow> 401 | DeniedReason \<Rightarrow> 403 | _ \<Rightarrow> 503)"

definition gateRoute ::
  "DeploymentMode \<Rightarrow> Principal option \<Rightarrow> ActorContext option \<Rightarrow> (string \<Rightarrow> json \<Rightarrow> string + json) option \<Rightarrow> string option \<Rightarrow>
   string \<Rightarrow> string option \<Rightarrow> string option \<Rightarrow> PermissionDecision" where
  "gateRoute mode pn actor dataplane currentWorkspaceId permission resourceType resourceId =
     (if mode = LocalMode then
        (case pn of
           None \<Rightarrow> AllowedDecision
         | Some p \<Rightarrow>
             if permission \<noteq> ''read'' \<and> \<not> List.member (pnScopes p) ''write''
             then DeniedDecision DeniedReason (Some ''token scope does not include write'')
             else AllowedDecision)
      else
        (let rt = (case resourceType of None \<Rightarrow> ''lore__workspace'' | Some t \<Rightarrow> t);
             rid = (case resourceId of Some i \<Rightarrow> i | None \<Rightarrow> (case currentWorkspaceId of None \<Rightarrow> [] | Some w \<Rightarrow> w))
         in if rid = [] then DeniedDecision DeniedReason (Some (''no '' @ rt @ '' id in request context''))
            else if map_option pnKind pn = Some SharedSecretKind then AllowedDecision
            else requirePermission actor dataplane rt rid permission))"

end
