(* ===== verification/Approval.thy ===== *)
theory Approval
  imports PendingOps Principal
begin

text \<open>
  The governance of destructive operations: the approval tiers (\<open>security/humanApproval.ts\<close>), the
  enforcer every gated route calls (\<open>security/approvalEnforcer.ts\<close>), the classification of schema
  changes (\<open>schemas/destructive.ts\<close>) and the schema gate (\<open>security/schemaApprovalGate.ts\<close>), the replay
  of an approved operation (\<open>security/approvalReplay.ts\<close>) and the handlers behind
  \<open>/api/approvals\<close> (\<open>mcp/http/routes/approvals.ts\<close>).

  Everything here is written against the interface record \<open>'s PendingOpsStore\<close>, as the code is. The
  replay handlers and \<open>redactError\<close> are parameters; a handler maps the world to the text of the error
  it threw, if any, and the new world. Of an HTTP error body the \<open>code\<close> and the \<open>currentStatus\<close> are
  kept, the human-readable message is not. A stored \<open>argsJson\<close> always parses, so the branch of the
  replay that reports unparseable arguments does not arise. A property read on something that is not an object
  yields \<open>undefined\<close>.
\<close>

section \<open>\<open>security/humanApproval.ts\<close>\<close>

datatype HumanApprovalTier = Automated | SelfConfirm | SecondParty

datatype ConfirmToken = TokenTrue | TokenLiteral string

record HumanApprovalPolicy =
  polTier :: HumanApprovalTier
  polRationale :: "string option"
  polConfirmToken :: "ConfirmToken option"
  polApproverPermission :: "ApproverPermission option"

datatype ApprovalDecision =
    AdExecute
  | AdNeedsSelfConfirm ConfirmToken string
  | AdEnqueue ApproverPermission

fun tokenJson :: "ConfirmToken \<Rightarrow> json" where
  "tokenJson TokenTrue = JBool True"
| "tokenJson (TokenLiteral s) = JStr s"

definition argField :: "json option \<Rightarrow> string \<Rightarrow> json option" where
  "argField args k = (case args of Some (JObj p) \<Rightarrow> fld p k | _ \<Rightarrow> None)"

definition decideApproval :: "HumanApprovalPolicy \<Rightarrow> json option \<Rightarrow> string option \<Rightarrow> ApprovalDecision" where
  "decideApproval policy args confirmField =
     (let field = (case confirmField of None \<Rightarrow> ''confirm'' | Some f \<Rightarrow> f)
      in case polTier policy of
           Automated \<Rightarrow> AdExecute
         | SelfConfirm \<Rightarrow>
             (let expected = (case polConfirmToken policy of None \<Rightarrow> TokenTrue | Some t \<Rightarrow> t)
              in if argField args field = Some (tokenJson expected) then AdExecute
                 else AdNeedsSelfConfirm expected field)
         | SecondParty \<Rightarrow>
             AdEnqueue (case polApproverPermission policy of None \<Rightarrow> Administer | Some p \<Rightarrow> p))"

record SelfConfirmError =
  sceOperation :: string
  sceField :: string
  sceExpected :: ConfirmToken
  sceMessage :: string

definition formatSelfConfirmError :: "string \<Rightarrow> ConfirmToken \<Rightarrow> string \<Rightarrow> string option \<Rightarrow> SelfConfirmError" where
  "formatSelfConfirmError oper expected field rationale =
     (let desc = (case expected of TokenTrue \<Rightarrow> ''`true` (boolean)''
                  | TokenLiteral s \<Rightarrow> ''the literal '' @ [CHR 0x27] @ s @ [CHR 0x27]);
          reason = (case rationale of None \<Rightarrow> [] | Some r \<Rightarrow> if r = [] then [] else '' Reason: '' @ r)
      in \<lparr>sceOperation = oper, sceField = field, sceExpected = expected,
          sceMessage = oper @ '' requires self-confirmation. Pass '' @ field @ ''='' @ desc @
            '' to acknowledge the destructive operation.'' @ reason\<rparr>)"

section \<open>\<open>security/approvalEnforcer.ts\<close>\<close>

datatype EnforceApprovalOutcome =
    EoExecute
  | EoSelfConfirmRequired SelfConfirmError
  | EoEnqueued PendingOp
  | EoThrown PendingOpError

definition enforceApproval ::
  "'s PendingOpsStore \<Rightarrow> string \<Rightarrow> ms \<Rightarrow> string \<Rightarrow> HumanApprovalPolicy \<Rightarrow> json option \<Rightarrow> string \<Rightarrow> string \<Rightarrow>
   string option \<Rightarrow> 's \<Rightarrow> EnforceApprovalOutcome \<times> 's" where
  "enforceApproval S uuid now oper policy args ws ini confirmField s =
     (case decideApproval policy args confirmField of
        AdExecute \<Rightarrow> (EoExecute, s)
      | AdNeedsSelfConfirm expected field \<Rightarrow>
          (EoSelfConfirmRequired (formatSelfConfirmError oper expected field (polRationale policy)), s)
      | AdEnqueue perm \<Rightarrow>
          (case psEnqueue S s uuid now \<lparr>eqOperation = oper, eqWorkspaceId = ws, eqInitiator = ini, eqArgs = args,
                                         eqRationale = polRationale policy, eqApproverPermission = Some perm\<rparr> of
             (Inl err, s') \<Rightarrow> (EoThrown err, s')
           | (Inr op, s') \<Rightarrow> (EoEnqueued op, s')))"

section \<open>\<open>schemas/destructive.ts\<close>\<close>

datatype SchemaChangeKind =
    NodeTypeAdded | NodeTypeRemoved | NodeTypeRenamed | NodeTypeKindChanged
  | FieldAdded | FieldRemoved | FieldTypeChanged | FieldSensitivityFlipped
  | EdgeTypeAdded | EdgeTypeRemoved
  | PermissionAdded | PermissionChanged | PermissionRemoved
  | WorkspaceSystemPromptChanged | WorkspaceDomainChanged
  | MigrationAppliedKind

fun changeKindName :: "SchemaChangeKind \<Rightarrow> string" where
  "changeKindName NodeTypeAdded = ''node_type.added''"
| "changeKindName NodeTypeRemoved = ''node_type.removed''"
| "changeKindName NodeTypeRenamed = ''node_type.renamed''"
| "changeKindName NodeTypeKindChanged = ''node_type.kind_changed''"
| "changeKindName FieldAdded = ''field.added''"
| "changeKindName FieldRemoved = ''field.removed''"
| "changeKindName FieldTypeChanged = ''field.type_changed''"
| "changeKindName FieldSensitivityFlipped = ''field.sensitivity_flipped''"
| "changeKindName EdgeTypeAdded = ''edge_type.added''"
| "changeKindName EdgeTypeRemoved = ''edge_type.removed''"
| "changeKindName PermissionAdded = ''permission.added''"
| "changeKindName PermissionChanged = ''permission.changed''"
| "changeKindName PermissionRemoved = ''permission.removed''"
| "changeKindName WorkspaceSystemPromptChanged = ''workspace.system_prompt_changed''"
| "changeKindName WorkspaceDomainChanged = ''workspace.domain_changed''"
| "changeKindName MigrationAppliedKind = ''migration.applied''"

record ProposedChange =
  chKind :: SchemaChangeKind
  chTarget :: string

record SchemaProposal =
  prChanges :: "ProposedChange list"
  prProposedBy :: string

definition DESTRUCTIVE_CHANGE_KINDS :: "SchemaChangeKind list" where
  "DESTRUCTIVE_CHANGE_KINDS =
     [NodeTypeRemoved, NodeTypeRenamed, NodeTypeKindChanged, FieldRemoved, FieldTypeChanged, FieldSensitivityFlipped,
      EdgeTypeRemoved, PermissionChanged, PermissionRemoved]"

definition hasDestructiveChange :: "SchemaProposal \<Rightarrow> bool" where
  "hasDestructiveChange p = list_ex (\<lambda>c. List.member DESTRUCTIVE_CHANGE_KINDS (chKind c)) (prChanges p)"

definition isHumanProposer :: "string \<Rightarrow> bool" where
  "isHumanProposer who = (take 6 who = ''human:'')"

fun joinCommaSp :: "string list \<Rightarrow> string" where
  "joinCommaSp [] = []"
| "joinCommaSp [s] = s"
| "joinCommaSp (s # ss) = s @ '', '' @ joinCommaSp ss"

text \<open>\<open>None\<close> when the call returns, the listed offenders when it throws.\<close>

definition assertHumanForDestructive :: "SchemaProposal \<Rightarrow> string option" where
  "assertHumanForDestructive p =
     (if \<not> hasDestructiveChange p then None
      else if isHumanProposer (prProposedBy p) then None
      else Some (joinCommaSp (map (\<lambda>c. changeKindName (chKind c) @ ''('' @ chTarget c @ '')'')
                  (filter (\<lambda>c. List.member DESTRUCTIVE_CHANGE_KINDS (chKind c)) (prChanges p)))))"

section \<open>\<open>security/schemaApprovalGate.ts\<close>\<close>

definition SCHEMA_APPROVE_OPERATION :: string where
  "SCHEMA_APPROVE_OPERATION = ''schema_approve''"

datatype RunMode = ModeLocal | ModeCloud | ModeEmbedded | ModeArcade

text \<open>The rationale text; its dash is the three UTF-8 bytes of U+2014.\<close>

definition SCHEMA_RATIONALE :: string where
  "SCHEMA_RATIONALE = ''Destructive schema change '' @ [CHR 0xE2, CHR 0x80, CHR 0x94] @
     '' requires an explicit human-confirmation step (POST /api/approvals/{id}/decision) before it is applied to the live schema.''"

datatype SchemaApprovalGateOutcome =
    GateProceed
  | GateEnqueued PendingOp string
  | GateRefused string
  | GateThrown PendingOpError

definition schemaGateArgs :: "string \<Rightarrow> string \<Rightarrow> string option \<Rightarrow> json" where
  "schemaGateArgs sandboxId approver note =
     JObj ([(''sandboxId'', JStr sandboxId), (''approver'', JStr approver)] @
           (case note of None \<Rightarrow> [] | Some n \<Rightarrow> [(''note'', JStr n)]))"

text \<open>\<open>store\<close> is \<open>None\<close> when no queue is wired.\<close>

definition gateSchemaApproval ::
  "'s PendingOpsStore option \<Rightarrow> string \<Rightarrow> ms \<Rightarrow> SchemaProposal \<Rightarrow> string \<Rightarrow> string \<Rightarrow> string option \<Rightarrow> string \<Rightarrow>
   RunMode option \<Rightarrow> 's \<Rightarrow> SchemaApprovalGateOutcome \<times> 's" where
  "gateSchemaApproval store uuid now proposal sandboxId approver note ws runMode s =
     (if \<not> hasDestructiveChange proposal then (GateProceed, s)
      else if runMode = Some ModeEmbedded then (GateRefused ''destructive_hitl_unavailable_embedded'', s)
      else case store of
             None \<Rightarrow> (GateRefused ''destructive_hitl_unavailable'', s)
           | Some S \<Rightarrow>
               (case enforceApproval S uuid now SCHEMA_APPROVE_OPERATION
                       \<lparr>polTier = SecondParty, polRationale = Some SCHEMA_RATIONALE, polConfirmToken = None,
                        polApproverPermission = Some Administer\<rparr>
                       (Some (schemaGateArgs sandboxId approver note)) ws (''schema-approve:'' @ sandboxId) None s of
                  (EoEnqueued op, s') \<Rightarrow> (GateEnqueued op SCHEMA_RATIONALE, s')
                | (EoThrown err, s') \<Rightarrow> (GateThrown err, s')
                | (out, s') \<Rightarrow> (GateProceed, s')))"

section \<open>\<open>security/approvalReplay.ts\<close>\<close>

record ReplayContext =
  rcWorkspaceId :: string
  rcInitiator :: string
  rcDecidedBy :: string

type_synonym 'w replay_handler = "json \<Rightarrow> ReplayContext \<Rightarrow> 'w \<Rightarrow> string option \<times> 'w"

type_synonym 'w replay_registry = "string \<rightharpoonup> 'w replay_handler"

datatype ReplayResult = RrExecuted | RrNoHandler string | RrFailed string

definition registerReplayHandler :: "'w replay_registry \<Rightarrow> string \<Rightarrow> 'w replay_handler \<Rightarrow> 'w replay_registry option" where
  "registerReplayHandler reg oper h = (if reg oper \<noteq> None then None else Some (reg(oper \<mapsto> h)))"

fun opStatusName :: "PendingOpStatus \<Rightarrow> string" where
  "opStatusName OpPending = ''pending''"
| "opStatusName OpApproved = ''approved''"
| "opStatusName OpRejected = ''rejected''"
| "opStatusName OpExecuted = ''executed''"
| "opStatusName OpExpired = ''expired''"

definition quoted :: "string \<Rightarrow> string" where
  "quoted s = [CHR 0x27] @ s @ [CHR 0x27]"

definition noDeciderMsg :: string where
  "noDeciderMsg = '' but has no decidedBy '' @ [CHR 0xE2, CHR 0x80, CHR 0x94] @ '' refusing to replay''"

definition replayApprovedOp :: "PendingOp \<Rightarrow> 'w replay_registry \<Rightarrow> 'w \<Rightarrow> ReplayResult \<times> 'w" where
  "replayApprovedOp op reg w =
     (if opStatus op \<noteq> OpApproved then
        (RrFailed (''replayApprovedOp: op '' @ opId op @ '' is '' @ opStatusName (opStatus op) @ '', expected '' @ quoted ''approved''), w)
      else case reg (opOperation op) of
             None \<Rightarrow> (RrNoHandler (opOperation op), w)
           | Some h \<Rightarrow>
               (case opDecidedBy op of
                  None \<Rightarrow> (RrFailed (''replayApprovedOp: op '' @ opId op @ '' is '' @ quoted ''approved'' @ noDeciderMsg), w)
                | Some who \<Rightarrow>
                    if who = [] then
                      (RrFailed (''replayApprovedOp: op '' @ opId op @ '' is '' @ quoted ''approved'' @ noDeciderMsg), w)
                    else (case h (opArgsJson op)
                                 \<lparr>rcWorkspaceId = opWorkspaceId op, rcInitiator = opInitiator op, rcDecidedBy = who\<rparr> w of
                            (None, w') \<Rightarrow> (RrExecuted, w')
                          | (Some err, w') \<Rightarrow> (RrFailed err, w'))))"

section \<open>\<open>mcp/http/routes/approvals.ts\<close>\<close>

definition MAX_REASON_LEN :: nat where
  "MAX_REASON_LEN = 2000"

record DecisionBody =
  dbDecision :: "json option"
  dbReason :: "json option"
  dbDecidedBy :: "json option"

datatype ReplayOutcome = ReplaySkipped | ReplayExecuted | ReplayNoHandler string | ReplayFailed string

datatype HandlerResult =
    ErrorBody nat string "PendingOpStatus option"
  | DecideOk PendingOp ReplayOutcome
  | ListOk "PendingOp list"
  | GetOk PendingOp
  | HandlerThrew PendingOpError

definition deciderOf :: "string option \<Rightarrow> string option \<Rightarrow> DecisionBody \<Rightarrow> string option" where
  "deciderOf actor label body =
     (case actor of Some a \<Rightarrow> Some a
      | None \<Rightarrow> (case label of Some l \<Rightarrow> Some l
                 | None \<Rightarrow> (case dbDecidedBy body of Some (JStr b) \<Rightarrow> if b = [] then None else Some b | _ \<Rightarrow> None)))"

fun errorResponse :: "PendingOpError \<Rightarrow> HandlerResult" where
  "errorResponse (PendingOpNotFound i) = ErrorBody 404 ''not_found'' None"
| "errorResponse (SelfApprovalForbidden i) = ErrorBody 403 ''self_approval_forbidden'' None"
| "errorResponse (PendingOpStale i st) = ErrorBody 409 ''op_stale'' (Some st)"
| "errorResponse (PrimaryKeyConstraint i) = HandlerThrew (PrimaryKeyConstraint i)"

fun opErrorMessage :: "PendingOpError \<Rightarrow> string" where
  "opErrorMessage (PendingOpNotFound i) = ''pending op not found: '' @ i"
| "opErrorMessage (SelfApprovalForbidden i) =
     ''approver must be a different user from the initiator (op '' @ i @ '')''"
| "opErrorMessage (PendingOpStale i st) = ''op '' @ i @ '' is '' @ opStatusName st @ '', no further action allowed''"
| "opErrorMessage (PrimaryKeyConstraint i) = ''UNIQUE constraint failed: lore_pending_op.id''"

text \<open>What follows a recorded decision: nothing for a rejection or without a registry, else the replay.\<close>

definition afterDecision ::
  "'s PendingOpsStore \<Rightarrow> (string \<Rightarrow> string) \<Rightarrow> 'w replay_registry option \<Rightarrow> ms \<Rightarrow> Decision \<Rightarrow> PendingOp \<Rightarrow> 's \<Rightarrow> 'w \<Rightarrow>
   HandlerResult \<times> 's \<times> 'w" where
  "afterDecision S redact registry now dec updated s w =
     (case (dec, registry) of
        (DecApproved, Some reg) \<Rightarrow>
          (case replayApprovedOp updated reg w of
             (RrExecuted, w') \<Rightarrow>
               (case psMarkExecuted S s now (opId updated) of
                  (Inr executed, s') \<Rightarrow> (DecideOk executed ReplayExecuted, s', w')
                | (Inl err, s') \<Rightarrow> (DecideOk updated (ReplayFailed (''markExecuted failed: '' @ redact (opErrorMessage err))), s', w'))
           | (RrNoHandler oper, w') \<Rightarrow> (DecideOk updated (ReplayNoHandler oper), s, w')
           | (RrFailed err, w') \<Rightarrow> (DecideOk updated (ReplayFailed (redact err)), s, w'))
      | _ \<Rightarrow> (DecideOk updated ReplaySkipped, s, w))"

definition handleDecide ::
  "'s PendingOpsStore \<Rightarrow> (string \<Rightarrow> string) \<Rightarrow> 'w replay_registry option \<Rightarrow> ms \<Rightarrow> string \<Rightarrow> DecisionBody \<Rightarrow>
   string option \<Rightarrow> string option \<Rightarrow> 's \<Rightarrow> 'w \<Rightarrow> HandlerResult \<times> 's \<times> 'w" where
  "handleDecide S redact registry now i body actor label s w =
     (let decision = (case dbDecision body of
                        Some (JStr d) \<Rightarrow> if d = ''approved'' then Some DecApproved
                                         else if d = ''rejected'' then Some DecRejected else None
                      | _ \<Rightarrow> None)
      in case decision of
           None \<Rightarrow> (ErrorBody 400 ''invalid_decision'' None, s, w)
         | Some dec \<Rightarrow>
             (case deciderOf actor label body of
                None \<Rightarrow> (ErrorBody 401 ''missing_decider'' None, s, w)
              | Some who \<Rightarrow>
                  if who = [] then (ErrorBody 401 ''missing_decider'' None, s, w)
                  else let reason = (case dbReason body of Some (JStr r) \<Rightarrow> Some (take MAX_REASON_LEN r) | _ \<Rightarrow> None)
                       in case psDecide S s now \<lparr>decId = i, decDecision = dec, decDecidedBy = who, decReason = reason\<rparr> of
                            (Inl err, s') \<Rightarrow> (errorResponse err, s', w)
                          | (Inr updated, s') \<Rightarrow> afterDecision S redact registry now dec updated s' w))"

definition handleGetById :: "'s PendingOpsStore \<Rightarrow> 's \<Rightarrow> string \<Rightarrow> HandlerResult" where
  "handleGetById S s i =
     (case psGetById S s i of None \<Rightarrow> ErrorBody 404 ''not_found'' None | Some op \<Rightarrow> GetOk op)"

fun parseStatus :: "string \<Rightarrow> PendingOpStatus option" where
  "parseStatus s =
     (if s = ''pending'' then Some OpPending else if s = ''approved'' then Some OpApproved
      else if s = ''rejected'' then Some OpRejected else if s = ''executed'' then Some OpExecuted
      else if s = ''expired'' then Some OpExpired else None)"

definition scopeApprovalsToPrincipal :: "PendingOp list \<Rightarrow> Principal option \<Rightarrow> PendingOp list" where
  "scopeApprovalsToPrincipal ops pn =
     (case pn of
        None \<Rightarrow> ops
      | Some p \<Rightarrow>
          if List.member (pnScopes p) ''cross-workspace-read'' \<or> List.member (pnScopes p) ''cross-workspace-write'' then ops
          else filter (\<lambda>op. List.member (pnWorkspace p # (case pnAllowedWorkspaces p of None \<Rightarrow> [] | Some ws \<Rightarrow> ws))
                              (opWorkspaceId op)) ops)"

text \<open>
  \<open>limit\<close> is \<open>None\<close> without the query parameter and \<open>Some None\<close> when \<open>Number\<close> of it is not finite.
\<close>

definition handleList ::
  "'s PendingOpsStore \<Rightarrow> 's \<Rightarrow> string option \<Rightarrow> int option option \<Rightarrow> string option \<Rightarrow> string option \<Rightarrow> Principal option \<Rightarrow>
   HandlerResult" where
  "handleList S s statusParam limit ini scopedWs pn =
     (let bad = (case statusParam of None \<Rightarrow> False | Some t \<Rightarrow> t \<noteq> [] \<and> parseStatus t = None)
      in if bad then ErrorBody 400 ''invalid_status'' None
         else case limit of
                Some None \<Rightarrow> ErrorBody 400 ''invalid_limit'' None
              | limitArg \<Rightarrow>
                  (let n = (case limitArg of Some (Some k) \<Rightarrow> Some k | _ \<Rightarrow> None)
                   in if (case n of None \<Rightarrow> False | Some k \<Rightarrow> k \<le> 0) then ErrorBody 400 ''invalid_limit'' None
                      else ListOk (scopeApprovalsToPrincipal
                             (psList S s \<lparr>loStatus = (case statusParam of None \<Rightarrow> None | Some t \<Rightarrow> parseStatus t),
                                          loWorkspaceId = scopedWs, loInitiator = ini, loLimit = n\<rparr>) pn)))"

end
