(* ===== verification/ApprovalProps.thy ===== *)
theory ApprovalProps
  imports PendingOpsProps Approval
begin

text \<open>
  Correctness of the governance of destructive operations. What the decision endpoint does is proved
  once for any store that keeps the contract \<open>pending_ops_store\<close>; the properties below state it, the
  approval tiers, the schema gate and the listing on the durable store.
\<close>

section \<open>The decision endpoint, over the interface\<close>

context pending_ops_store
begin

lemma afterDecision_effect:
  assumes "inv s" "afterDecision S redact registry now dec updated s w = (res, s', w')"
    and "psGetById S s (opId updated) = Some updated"
  shows "inv s' \<and> (\<exists>op out. res = DecideOk op out) \<and>
    (\<exists>op'. psGetById S s' (opId updated) = Some op' \<and> sameRequest updated op' \<and>
       (opStatus op' = opStatus updated \<or> opStatus updated = OpApproved \<and> opStatus op' = OpExecuted)) \<and>
    (w' \<noteq> w \<longrightarrow> dec = DecApproved \<and> (\<exists>reg h who. registry = Some reg \<and> reg (opOperation updated) = Some h \<and>
       opDecidedBy updated = Some who \<and>
       w' = snd (h (opArgsJson updated)
              \<lparr>rcWorkspaceId = opWorkspaceId updated, rcInitiator = opInitiator updated, rcDecidedBy = who\<rparr> w)))"
proof (cases "dec = DecApproved \<and> registry \<noteq> None")
  case False
  then have "res = DecideOk updated ReplaySkipped" "s' = s" "w' = w"
    using assms(2) by (auto simp: afterDecision_def split: Decision.splits option.splits)
  then show ?thesis using assms(1,3) by auto
next
  case True
  then obtain reg where reg: "registry = Some reg" "dec = DecApproved" by auto
  obtain rr v where rr: "replayApprovedOp updated reg w = (rr, v)" by (metis surj_pair)
  have world: "v = w \<or> (\<exists>h who. reg (opOperation updated) = Some h \<and> opDecidedBy updated = Some who \<and>
      v = snd (h (opArgsJson updated)
             \<lparr>rcWorkspaceId = opWorkspaceId updated, rcInitiator = opInitiator updated, rcDecidedBy = who\<rparr> w))"
    using rr by (auto simp: replayApprovedOp_def split: if_splits option.splits prod.splits)
  show ?thesis
  proof (cases rr)
    case RrExecuted
    obtain r t where m: "psMarkExecuted S s now (opId updated) = (r, t)" by (metis surj_pair)
    have s': "s' = t" "w' = v" and out: "\<exists>op out. res = DecideOk op out"
      using assms(2) rr RrExecuted reg m by (auto simp: afterDecision_def split: sum.splits)
    have "inv t \<and> (\<exists>op'. psGetById S t (opId updated) = Some op' \<and> sameRequest updated op' \<and>
       (opStatus op' = opStatus updated \<or> opStatus updated = OpApproved \<and> opStatus op' = OpExecuted))"
      using executed_law [OF assms(1) m] assms(3) by (auto split: if_splits)
    then show ?thesis using world s' reg out by auto
  next
    case (RrNoHandler oper)
    then have "s' = s" "w' = v" "\<exists>op out. res = DecideOk op out"
      using assms(2) rr reg by (auto simp: afterDecision_def)
    then show ?thesis using world reg assms(1,3) by auto
  next
    case (RrFailed err)
    then have "s' = s" "w' = v" "\<exists>op out. res = DecideOk op out"
      using assms(2) rr reg by (auto simp: afterDecision_def)
    then show ?thesis using world reg assms(1,3) by auto
  qed
qed

lemma handleDecide_effect:
  assumes "inv s" "dualControl (psGetById S s)" "handleDecide S redact registry now i body actor label s w = (res, s', w')"
  shows "inv s' \<and>
    ((\<nexists>op out. res = DecideOk op out) \<longrightarrow> s' = s \<and> w' = w) \<and>
    ((\<exists>op out. res = DecideOk op out) \<longrightarrow>
       (\<exists>op op' who. psGetById S s i = Some op \<and> opStatus op = OpPending \<and>
          deciderOf actor label body = Some who \<and> who \<noteq> opInitiator op \<and>
          psGetById S s' i = Some op' \<and> sameRequest op op' \<and> opStatus op' \<noteq> OpPending \<and>
          (w' \<noteq> w \<longrightarrow> dbDecision body = Some (JStr ''approved'') \<and>
             (\<exists>reg h. registry = Some reg \<and> reg (opOperation op) = Some h \<and>
                w' = snd (h (opArgsJson op) \<lparr>rcWorkspaceId = opWorkspaceId op, rcInitiator = opInitiator op, rcDecidedBy = who\<rparr> w)))))"
proof -
  consider (invalid) "s' = s \<and> w' = w \<and> (\<nexists>op out. res = DecideOk op out)"
    | (run) dec who reason where "deciderOf actor label body = Some who" "who \<noteq> []"
        "dec = DecApproved \<Longrightarrow> dbDecision body = Some (JStr ''approved'')"
        "(case psDecide S s now \<lparr>decId = i, decDecision = dec, decDecidedBy = who, decReason = reason\<rparr> of
            (Inl err, s') \<Rightarrow> (errorResponse err, s', w)
          | (Inr updated, s') \<Rightarrow> afterDecision S redact registry now dec updated s' w) = (res, s', w')"
    using assms(3) by (auto simp: handleDecide_def Let_def split: option.splits json.splits if_splits)
  then show ?thesis
  proof cases
    case invalid
    then show ?thesis using assms(1) by auto
  next
    case run
    let ?d = "\<lparr>decId = i, decDecision = dec, decDecidedBy = who, decReason = reason\<rparr>"
    obtain r t where rt: "psDecide S s now ?d = (r, t)" by (metis surj_pair)
    note law = decide_law [OF assms(1) _ rt]
    show ?thesis
    proof (cases r)
      case (Inl err)
      then have "t = s" "inv t" using law run(2) by (auto split: option.splits if_splits)
      moreover have "\<nexists>op out. errorResponse err = DecideOk op out" by (cases err) auto
      ultimately show ?thesis using run(4) rt Inl by auto
    next
      case (Inr upd)
      then obtain op where op: "psGetById S s i = Some op" "opInitiator op \<noteq> who" "opStatus op = OpPending"
          "psGetById S t = (psGetById S s)(i \<mapsto> upd)" "sameRequest op upd"
          "opStatus upd = decisionStatus dec" "opDecidedBy upd = Some who" "inv t"
        using law run(2) by (auto split: option.splits if_splits)
      have i: "opId upd = i" using assms(2) op(1,5) by (auto simp: dualControl_def sameRequest_def)
      have after: "afterDecision S redact registry now dec upd t w = (res, s', w')" using run(4) rt Inr by simp
      have got: "psGetById S t (opId upd) = Some upd" using op(4) i by simp
      have ne: "opStatus upd \<noteq> OpPending" using op(6) by (cases dec) auto
      show ?thesis
        using afterDecision_effect [OF op(8) after got] op run(1,3) ne i sameRequest_trans [OF op(5)]
        by (auto simp: sameRequest_def)
    qed
  qed
qed

end

section \<open>Properties\<close>

lemmas sql_effect = sql.handleDecide_effect [simplified]

lemma sql_reach_inv:
  assumes "ops_reach sqlOps emptySqlOps s"
  shows "sqlInv s" "dualControl (sqlGetById s)"
  using sql_reach [OF assms] dualControl_reach by blast+

text \<open>C32: the decision endpoint. A response other than success leaves the queue and the world as they
  were. A success means the request was pending and the decider, who is the authenticated actor, or
  else the bound principal, or only without either the name in the body, is not its initiator;
  afterwards it is no longer pending. The world changes only when the decision is an approval, and
  then by one run of the handler registered for the operation, on the arguments that were
  submitted, in the initiator's workspace and crediting the decider.\<close>

theorem decision_endpoint_guarded:
  assumes "ops_reach sqlOps emptySqlOps s"
    and "handleDecide sqlOps redact registry now i body actor label s w = (res, s', w')"
  shows "((\<nexists>op out. res = DecideOk op out) \<longrightarrow> s' = s \<and> w' = w) \<and>
    ((\<exists>op out. res = DecideOk op out) \<longrightarrow>
       (\<exists>op op' who. sqlGetById s i = Some op \<and> opStatus op = OpPending \<and>
          (actor = None \<or> actor = Some who) \<and> (actor = None \<longrightarrow> label = None \<or> label = Some who) \<and>
          (actor = None \<and> label = None \<longrightarrow> dbDecidedBy body = Some (JStr who)) \<and> who \<noteq> opInitiator op \<and>
          sqlGetById s' i = Some op' \<and> sameRequest op op' \<and> opStatus op' \<noteq> OpPending \<and>
          (w' \<noteq> w \<longrightarrow> dbDecision body = Some (JStr ''approved'') \<and>
             (\<exists>reg h. registry = Some reg \<and> reg (opOperation op) = Some h \<and>
                w' = snd (h (opArgsJson op) \<lparr>rcWorkspaceId = opWorkspaceId op, rcInitiator = opInitiator op, rcDecidedBy = who\<rparr> w)))))"
proof -
  have who: "(actor = None \<or> actor = Some who) \<and> (actor = None \<longrightarrow> label = None \<or> label = Some who) \<and>
      (actor = None \<and> label = None \<longrightarrow> dbDecidedBy body = Some (JStr who))" if "deciderOf actor label body = Some who" for who
    using that by (auto simp: deciderOf_def split: option.splits json.splits if_splits)
  note eff = sql_effect [OF sql_reach_inv [OF assms(1)] assms(2)]
  show ?thesis
  proof (cases "\<exists>op out. res = DecideOk op out")
    case True
    then show ?thesis using eff who by (elim conjE) (fastforce)
  next
    case False
    then show ?thesis using eff by blast
  qed
qed

definition logHandler :: "string list replay_handler" where
  "logHandler args ctx w = (None, rcDecidedBy ctx # w)"

definition approveBody :: DecisionBody where
  "approveBody = \<lparr>dbDecision = Some (JStr ''approved''), dbReason = None, dbDecidedBy = Some (JStr ''eve'')\<rparr>"

lemma sample_decide:
  "\<exists>op s'. handleDecide sqlOps id (Some [''drop'' \<mapsto> logHandler]) 2 ''q'' approveBody (Some ''bob'') None sqlQueued [] =
     (DecideOk op ReplayExecuted, s', [''bob''])"
  by (simp add: handleDecide_def approveBody_def deciderOf_def sqlOps_def sqlDecide_def sqlDecideAt_def queued_get Let_def
      sqlQueued_def sqlEnqueue_def emptySqlOps_def setSqlRows_def sampleRequest_def newOp_def sqlGetById_def tableGet_def
      rowToPendingOp_def optStr_def afterDecision_def replayApprovedOp_def logHandler_def sqlMarkExecuted_def sqlMarkExecutedAt_def)

theorem decision_endpoint_guarded_witness:
  "\<exists>op who. sqlGetById sqlQueued ''q'' = Some op \<and> opStatus op = OpPending \<and> who = ''bob'' \<and> who \<noteq> opInitiator op"
proof -
  obtain op s' where "handleDecide sqlOps id (Some [''drop'' \<mapsto> logHandler]) 2 ''q'' approveBody (Some ''bob'') None sqlQueued [] =
     (DecideOk op ReplayExecuted, s', [''bob''])"
    using sample_decide by blast
  from decision_endpoint_guarded [OF queued_reach(1) this] show ?thesis by auto
qed

lemma handleDecide_refused:
  assumes "\<And>d. decId d = i \<Longrightarrow> decDecidedBy d \<noteq> [] \<Longrightarrow> \<exists>e. psDecide S s now d = (Inl e, s)"
    and "handleDecide S redact registry now i body actor label s w = (res, s', w')"
  shows "(\<nexists>op out. res = DecideOk op out) \<and> s' = s \<and> w' = w"
proof -
  have err: "errorResponse e \<noteq> DecideOk op out" for e op out by (cases e) auto
  consider "s' = s \<and> w' = w \<and> (\<nexists>op out. res = DecideOk op out)"
    | dec who reason where "who \<noteq> []"
        "(case psDecide S s now \<lparr>decId = i, decDecision = dec, decDecidedBy = who, decReason = reason\<rparr> of
            (Inl err, s') \<Rightarrow> (errorResponse err, s', w)
          | (Inr updated, s') \<Rightarrow> afterDecision S redact registry now dec updated s' w) = (res, s', w')"
    using assms(2) by (auto simp: handleDecide_def Let_def split: option.splits json.splits if_splits)
  then show ?thesis
  proof cases
    case (2 dec who reason)
    obtain e where "psDecide S s now \<lparr>decId = i, decDecision = dec, decDecidedBy = who, decReason = reason\<rparr> = (Inl e, s)"
      using assms(1) [of "\<lparr>decId = i, decDecision = dec, decDecidedBy = who, decReason = reason\<rparr>"] 2(1) by auto
    then show ?thesis using 2(2) err by auto
  qed blast
qed

lemma sql_decide_settled:
  assumes "sqlInv s" "sqlGetById s (decId d) = Some q" "opStatus q \<noteq> OpPending"
  shows "\<exists>e. psDecide sqlOps s now d = (Inl e, s)"
  using assms by (auto simp: sqlOps_def sqlDecide_def sqlDecideAt_def)

text \<open>C36: an approval is replayed at most once, and a failed replay is not retried. Once a decision on a
  request was recorded, then in every later state of the queue, whatever the replay did and whoever
  asks, the decision endpoint refuses that request and runs nothing: a request left at
  \<open>approved\<close> by a handler that threw is never run again by this endpoint.\<close>

theorem approved_op_replayed_at_most_once:
  assumes "ops_reach sqlOps emptySqlOps s0"
    and "handleDecide sqlOps redact registry now i body actor label s0 w0 = (DecideOk op out, s1, w1)"
    and "ops_reach sqlOps s1 s2"
    and "handleDecide sqlOps redact' registry' now' i body' actor' label' s2 w2 = (res, s3, w3)"
  shows "(\<nexists>op' out'. res = DecideOk op' out') \<and> s3 = s2 \<and> w3 = w2"
proof -
  note eff = sql_effect [OF sql_reach_inv [OF assms(1)] assms(2)]
  then obtain q where q: "sqlInv s1" "sqlGetById s1 i = Some q" "opStatus q \<noteq> OpPending" by blast
  obtain q' where q': "sqlInv s2" "sqlGetById s2 i = Some q'" "opStatus q' \<noteq> OpPending"
    using sql_persists [OF assms(3) q(1,2)] q(3) by blast
  show ?thesis
    by (rule handleDecide_refused [OF _ assms(4)]) (use sql_decide_settled [OF q'(1)] q'(2,3) in auto)
qed

theorem approved_op_replayed_at_most_once_witness:
  "\<exists>op s' res. handleDecide sqlOps id (Some [''drop'' \<mapsto> logHandler]) 2 ''q'' approveBody (Some ''bob'') None sqlQueued [] =
       (DecideOk op ReplayExecuted, s', [''bob'']) \<and>
     handleDecide sqlOps id (Some [''drop'' \<mapsto> logHandler]) 3 ''q'' approveBody (Some ''carol'') None s' [''bob''] = (res, s', [''bob''])"
proof -
  obtain op s' where run: "handleDecide sqlOps id (Some [''drop'' \<mapsto> logHandler]) 2 ''q'' approveBody (Some ''bob'') None sqlQueued [] =
     (DecideOk op ReplayExecuted, s', [''bob''])"
    using sample_decide by blast
  obtain res s3 w3 where again: "handleDecide sqlOps id (Some [''drop'' \<mapsto> logHandler]) 3 ''q'' approveBody (Some ''carol'') None s' [''bob''] = (res, s3, w3)"
    by (rule prod_cases3)
  have "s3 = s'" "w3 = [''bob'']"
    using approved_op_replayed_at_most_once [OF queued_reach(1) run ops_start again] by auto
  then show ?thesis using run again by blast
qed

text \<open>Note: the approval tiers. With a fresh id, an automated operation runs at once; a self-confirmed one
  runs exactly when its confirm field holds the expected token, and is otherwise refused; a
  second-party one never runs here, whatever its arguments: exactly one pending request is added
  to the queue, with the operation, workspace, initiator and arguments of the call, the approver
  permission of the policy, and nobody credited for it. The queue changes in no other case.\<close>

theorem approval_tiers_exact:
  assumes "ops_reach sqlOps emptySqlOps s" "sqlGetById s uuid = None"
    and "enforceApproval sqlOps uuid now oper policy args ws ini cf s = (out, s')"
  shows "case polTier policy of
      Automated \<Rightarrow> out = EoExecute \<and> s' = s
    | SelfConfirm \<Rightarrow> s' = s \<and>
        (let field = (case cf of None \<Rightarrow> ''confirm'' | Some f \<Rightarrow> f);
             expected = (case polConfirmToken policy of None \<Rightarrow> TokenTrue | Some t \<Rightarrow> t)
         in if \<exists>p. args = Some (JObj p) \<and> fld p field = Some (tokenJson expected) then out = EoExecute
            else \<exists>e. out = EoSelfConfirmRequired e \<and> sceField e = field \<and> sceExpected e = expected)
    | SecondParty \<Rightarrow> (\<exists>op. out = EoEnqueued op \<and> sqlGetById s' = (sqlGetById s)(uuid \<mapsto> op) \<and>
        opStatus op = OpPending \<and> opDecidedBy op = None \<and> opOperation op = oper \<and> opWorkspaceId op = ws \<and>
        opInitiator op = ini \<and> opArgsJson op = argsOrNull args \<and>
        opApproverPermission op = Some (case polApproverPermission policy of None \<Rightarrow> Administer | Some p \<Rightarrow> p))"
proof (cases "polTier policy")
  case Automated
  then show ?thesis using assms(3) by (simp add: enforceApproval_def decideApproval_def)
next
  case SelfConfirm
  then show ?thesis using assms(3)
    by (auto simp: enforceApproval_def decideApproval_def Let_def formatSelfConfirmError_def argField_def
        split: if_splits option.splits json.splits)
next
  case SecondParty
  let ?inp = "\<lparr>eqOperation = oper, eqWorkspaceId = ws, eqInitiator = ini, eqArgs = args, eqRationale = polRationale policy,
    eqApproverPermission = Some (case polApproverPermission policy of None \<Rightarrow> Administer | Some p \<Rightarrow> p)\<rparr>"
  obtain r t where enq: "psEnqueue sqlOps s uuid now ?inp = (r, t)" by (metis surj_pair)
  have "psGetById sqlOps s uuid = None" using assms(2) by simp
  from sql.enqueue_law [OF sql_reach_inv(1) [OF assms(1)] this enq] show ?thesis
    using assms(3) SecondParty enq by (auto simp: enforceApproval_def decideApproval_def Let_def)
qed

definition wipePolicy :: HumanApprovalPolicy where
  "wipePolicy = \<lparr>polTier = SecondParty, polRationale = None, polConfirmToken = None, polApproverPermission = None\<rparr>"

theorem approval_tiers_exact_witness:
  "\<exists>out s' op. enforceApproval sqlOps ''r'' 5 ''wipe'' wipePolicy None ''ws'' ''dan'' None sqlQueued = (out, s') \<and>
     out = EoEnqueued op \<and> sqlGetById s' = (sqlGetById sqlQueued)(''r'' \<mapsto> op)"
proof -
  obtain out s' where run: "enforceApproval sqlOps ''r'' 5 ''wipe'' wipePolicy None ''ws'' ''dan'' None sqlQueued = (out, s')"
    by (metis surj_pair)
  have "sqlGetById sqlQueued ''r'' = None"
    by (simp add: sqlQueued_def sqlEnqueue_def emptySqlOps_def setSqlRows_def sqlGetById_def tableGet_def)
  from approval_tiers_exact [OF queued_reach(1) this run] show ?thesis using run by (auto simp: wipePolicy_def)
qed

text \<open>C35: a destructive schema proposal is never waved through. If some change of the proposal is not
  purely additive, the gate refuses, leaving the queue as it was, when the runtime is embedded or no
  queue is wired, and otherwise parks exactly one second-party request carrying the sandbox and the approver.
  A proposal of additive changes only passes, whatever is wired, and parks nothing.\<close>

theorem schema_gate_fail_closed:
  assumes "ops_reach sqlOps emptySqlOps s" "sqlGetById s uuid = None" "store = None \<or> store = Some sqlOps"
    and "gateSchemaApproval store uuid now proposal sandboxId approver note ws runMode s = (out, s')"
  shows "if list_ex (\<lambda>c. chKind c \<notin> {NodeTypeAdded, FieldAdded, EdgeTypeAdded, PermissionAdded, WorkspaceSystemPromptChanged,
                          WorkspaceDomainChanged, MigrationAppliedKind}) (prChanges proposal)
    then if runMode = Some ModeEmbedded \<or> store = None then (\<exists>why. out = GateRefused why) \<and> s' = s
         else (\<exists>op why. out = GateEnqueued op why \<and> sqlGetById s' = (sqlGetById s)(uuid \<mapsto> op) \<and> opStatus op = OpPending \<and>
                opOperation op = ''schema_approve'' \<and> opWorkspaceId op = ws \<and>
                opInitiator op = ''schema-approve:'' @ sandboxId \<and> opArgsJson op = schemaGateArgs sandboxId approver note \<and>
                opApproverPermission op = Some Administer)
    else out = GateProceed \<and> s' = s"
proof -
  have kinds: "List.member DESTRUCTIVE_CHANGE_KINDS k \<longleftrightarrow> k \<notin> {NodeTypeAdded, FieldAdded, EdgeTypeAdded, PermissionAdded,
      WorkspaceSystemPromptChanged, WorkspaceDomainChanged, MigrationAppliedKind}" for k
    by (cases k) (simp_all add: DESTRUCTIVE_CHANGE_KINDS_def)
  have destr: "hasDestructiveChange proposal \<longleftrightarrow> list_ex (\<lambda>c. chKind c \<notin> {NodeTypeAdded, FieldAdded, EdgeTypeAdded, PermissionAdded,
      WorkspaceSystemPromptChanged, WorkspaceDomainChanged, MigrationAppliedKind}) (prChanges proposal)"
    by (simp only: hasDestructiveChange_def kinds)
  show ?thesis
  proof (cases "hasDestructiveChange proposal \<and> runMode \<noteq> Some ModeEmbedded \<and> store \<noteq> None")
    case False
    then show ?thesis unfolding destr [symmetric] using assms(4) by (auto simp: gateSchemaApproval_def split: if_splits)
  next
    case True
    let ?inp = "\<lparr>eqOperation = ''schema_approve'', eqWorkspaceId = ws, eqInitiator = ''schema-approve:'' @ sandboxId,
      eqArgs = Some (schemaGateArgs sandboxId approver note), eqRationale = Some SCHEMA_RATIONALE, eqApproverPermission = Some Administer\<rparr>"
    obtain r t where enq: "psEnqueue sqlOps s uuid now ?inp = (r, t)" by (metis surj_pair)
    have "psGetById sqlOps s uuid = None" using assms(2) by simp
    from sql.enqueue_law [OF sql_reach_inv(1) [OF assms(1)] this enq] show ?thesis
      unfolding destr [symmetric] using assms(3,4) True enq
      by (auto simp: gateSchemaApproval_def enforceApproval_def decideApproval_def Let_def SCHEMA_APPROVE_OPERATION_def argsOrNull_def)
  qed
qed

definition dropFieldProposal :: SchemaProposal where
  "dropFieldProposal = \<lparr>prChanges = [\<lparr>chKind = FieldRemoved, chTarget = ''Person.email''\<rparr>], prProposedBy = ''agent:a''\<rparr>"

theorem schema_gate_fail_closed_witness:
  "\<exists>out s' why. gateSchemaApproval (None :: SqlOps PendingOpsStore option) ''r'' 5 dropFieldProposal ''sb'' ''human:h'' None ''ws'' None sqlQueued = (out, s') \<and>
     out = GateRefused why \<and> s' = sqlQueued"
proof -
  obtain out s' where run: "gateSchemaApproval (None :: SqlOps PendingOpsStore option) ''r'' 5 dropFieldProposal ''sb'' ''human:h'' None ''ws'' None sqlQueued = (out, s')"
    by (metis surj_pair)
  have free: "sqlGetById sqlQueued ''r'' = None"
    by (simp add: sqlQueued_def sqlEnqueue_def emptySqlOps_def setSqlRows_def sqlGetById_def tableGet_def)
  from schema_gate_fail_closed [OF queued_reach(1) free disjI1 [OF refl] run] show ?thesis
    using run by (auto simp: dropFieldProposal_def)
qed

section \<open>The listing\<close>

definition mayRead :: "Principal option \<Rightarrow> string \<Rightarrow> bool" where
  "mayRead pn ws \<longleftrightarrow> (\<forall>p. pn = Some p \<longrightarrow>
     ''cross-workspace-read'' \<in> set (pnScopes p) \<or> ''cross-workspace-write'' \<in> set (pnScopes p) \<or> ws = pnWorkspace p \<or>
     (\<exists>allowed. pnAllowedWorkspaces p = Some allowed \<and> ws \<in> set allowed))"

lemma scope_filter: "scopeApprovalsToPrincipal ops pn = filter (\<lambda>op. mayRead pn (opWorkspaceId op)) ops"
  by (cases pn) (auto simp: scopeApprovalsToPrincipal_def mayRead_def intro!: filter_cong [OF refl] split: option.splits)

lemma sqlGet_iff:
  assumes "sqlInv s"
  shows "sqlGetById s (opId op) = Some op \<longleftrightarrow> op \<in> rowToPendingOp ` set (sqlRows s)"
proof
  assume "sqlGetById s (opId op) = Some op"
  then show "op \<in> rowToPendingOp ` set (sqlRows s)"
    unfolding sqlGetById_def using so.get_mem [of s "opId op"] by blast
next
  assume "op \<in> rowToPendingOp ` set (sqlRows s)"
  then obtain r where r: "r \<in> set (sqlRows s)" "op = rowToPendingOp r" by blast
  then show "sqlGetById s (opId op) = Some op"
    using so.get_unique [of s r] assms by (simp add: sqlGetById_def sqlInv_def rowToPendingOp_def)
qed

lemma sorted_desc: "sorted (map (\<lambda>r. - f r) rs) \<Longrightarrow> sorted_wrt (\<lambda>a b. (f b :: int) \<le> f a) rs"
  by (simp add: sorted_map)

lemma sqlList_spec:
  assumes "sqlInv s"
  obtains "all" where "sqlList s opts = (case loLimit opts of None \<Rightarrow> all | Some n \<Rightarrow> if n > 0 then take (nat n) all else all)"
    "sorted_wrt (\<lambda>a b. opCreatedAt b \<le> opCreatedAt a) all" "distinct (map opId all)"
    "set all = {op. sqlGetById s (opId op) = Some op \<and> listMatch opts (opStatus op) (opWorkspaceId op) (opInitiator op)}"
proof
  let ?P = "\<lambda>r. listMatch opts (orStatus r) (orWorkspaceId r) (orInitiator r)"
  let ?rs = "sort_key (\<lambda>r. - orCreatedAt r) (filter ?P (sqlRows s))"
  have ids: "map opId (map rowToPendingOp rs) = map orId rs" for rs by (simp add: rowToPendingOp_def)
  show "sqlList s opts = (case loLimit opts of None \<Rightarrow> map rowToPendingOp ?rs
      | Some n \<Rightarrow> if n > 0 then take (nat n) (map rowToPendingOp ?rs) else map rowToPendingOp ?rs)"
    by (simp add: sqlList_def Let_def take_map split: option.split)
  have "sorted_wrt (\<lambda>a b. orCreatedAt b \<le> orCreatedAt a) ?rs" by (rule sorted_desc) simp
  then show "sorted_wrt (\<lambda>a b. opCreatedAt b \<le> opCreatedAt a) (map rowToPendingOp ?rs)"
    by (simp add: sorted_wrt_map rowToPendingOp_def)
  show "distinct (map opId (map rowToPendingOp ?rs))"
    unfolding ids using assms by (intro distinct_map_sort_key distinct_map_filter) (simp add: sqlInv_def)
  show "set (map rowToPendingOp ?rs) =
      {op. sqlGetById s (opId op) = Some op \<and> listMatch opts (opStatus op) (opWorkspaceId op) (opInitiator op)}"
    unfolding sqlGet_iff [OF assms] by (auto simp: rowToPendingOp_def)
qed

text \<open>Note: the listing endpoint. A malformed status or a limit that is not a positive number is refused.
  Otherwise the answer lists, newest first and without repetition, requests of the queue that have
  the asked status, workspace and initiator and belong to a workspace the principal may read, at
  most as many as the limit; without a limit it lists all of them.\<close>

theorem approvals_list_scoped:
  assumes "ops_reach sqlOps emptySqlOps s"
  shows "case handleList sqlOps s st limitArg ini scoped pn of
      ListOk ops \<Rightarrow>
        sorted_wrt (\<lambda>a b. opCreatedAt b \<le> opCreatedAt a) ops \<and> distinct (map opId ops) \<and>
        (case limitArg of None \<Rightarrow> True | Some None \<Rightarrow> False | Some (Some n) \<Rightarrow> 0 < n \<and> int (length ops) \<le> n) \<and>
        (let asked = {op. sqlGetById s (opId op) = Some op \<and> mayRead pn (opWorkspaceId op) \<and>
              (case st of None \<Rightarrow> True | Some t \<Rightarrow> t = [] \<or> opStatusName (opStatus op) = t) \<and>
              filterStr scoped (opWorkspaceId op) \<and> filterStr ini (opInitiator op)}
         in set ops \<subseteq> asked \<and> (limitArg = None \<longrightarrow> set ops = asked))
    | ErrorBody code why cur \<Rightarrow> code = 400 \<and>
        (why = ''invalid_status'' \<and> (\<exists>t. st = Some t \<and> t \<noteq> [] \<and> (\<nexists>x. opStatusName x = t)) \<or>
         why = ''invalid_limit'' \<and> (limitArg = Some None \<or> (\<exists>n. limitArg = Some (Some n) \<and> n \<le> 0)))
    | _ \<Rightarrow> False"
proof -
  have name: "parseStatus t = Some x \<longleftrightarrow> opStatusName x = t" for t x by (cases x) auto
  have inj: "opStatusName x = opStatusName y \<longleftrightarrow> x = y" "opStatusName x \<noteq> []" for x y by (cases x; cases y; simp)+
  have unnamed: "parseStatus t = None \<longleftrightarrow> (\<nexists>x. opStatusName x = t)" for t
    by (metis name option.exhaust option.distinct(1))
  have inv: "sqlInv s" by (rule sql_reach_inv(1) [OF assms])
  define opts where "opts = \<lparr>loStatus = (case st of None \<Rightarrow> None | Some t \<Rightarrow> parseStatus t), loWorkspaceId = scoped,
     loInitiator = ini, loLimit = (case limitArg of Some (Some k) \<Rightarrow> Some k | _ \<Rightarrow> None)\<rparr>"
  define badStatus where "badStatus \<longleftrightarrow> (\<exists>t. st = Some t \<and> t \<noteq> [] \<and> (\<nexists>x. opStatusName x = t))"
  define badLimit where "badLimit \<longleftrightarrow> limitArg = Some None \<or> (\<exists>n. limitArg = Some (Some n) \<and> n \<le> 0)"
  obtain "all" where all: "sqlList s opts = (case loLimit opts of None \<Rightarrow> all | Some n \<Rightarrow> if n > 0 then take (nat n) all else all)"
    "sorted_wrt (\<lambda>a b. opCreatedAt b \<le> opCreatedAt a) all" "distinct (map opId all)"
    "set all = {op. sqlGetById s (opId op) = Some op \<and> listMatch opts (opStatus op) (opWorkspaceId op) (opInitiator op)}"
    by (rule sqlList_spec [OF inv, of opts])
  have res: "handleList sqlOps s st limitArg ini scoped pn =
     (if badStatus then ErrorBody 400 ''invalid_status'' None else if badLimit then ErrorBody 400 ''invalid_limit'' None
      else ListOk (filter (\<lambda>op. mayRead pn (opWorkspaceId op)) (sqlList s opts)))"
    unfolding handleList_def badStatus_def badLimit_def opts_def scope_filter
    by (simp add: sqlOps_def Let_def unnamed split: option.split del: parseStatus.simps)
  show ?thesis
  proof (cases "badStatus \<or> badLimit")
    case True
    then show ?thesis unfolding res using badStatus_def badLimit_def by auto
  next
    case False
    have match: "listMatch opts (opStatus op) (opWorkspaceId op) (opInitiator op) \<longleftrightarrow>
        (case st of None \<Rightarrow> True | Some t \<Rightarrow> t = [] \<or> opStatusName (opStatus op) = t) \<and>
        filterStr scoped (opWorkspaceId op) \<and> filterStr ini (opInitiator op)" for op
      using False unnamed name
      by (auto simp: badStatus_def listMatch_def opts_def inj split: option.splits simp del: parseStatus.simps)
    define m where "m = (case limitArg of Some (Some n) \<Rightarrow> nat n | _ \<Rightarrow> length all)"
    have m: "sqlList s opts = take m all" "limitArg = None \<Longrightarrow> m = length all" "\<And>n. limitArg = Some (Some n) \<Longrightarrow> m = nat n \<and> 0 < n"
      using False all(1) by (auto simp: m_def badLimit_def opts_def split: option.splits)
    define ops where "ops = filter (\<lambda>op. mayRead pn (opWorkspaceId op)) (take m all)"
    have ordered: "sorted_wrt (\<lambda>a b. opCreatedAt b \<le> opCreatedAt a) ops \<and> distinct (map opId ops)"
      using all(2,3) by (auto simp: ops_def sorted_wrt_filter sorted_wrt_take intro!: distinct_map_filter simp flip: take_map)
    have "length ops \<le> m" using length_filter_le [of _ "take m all"] by (simp add: ops_def min.coboundedI2 order.trans)
    then have len: "case limitArg of None \<Rightarrow> True | Some None \<Rightarrow> False | Some (Some n) \<Rightarrow> 0 < n \<and> int (length ops) \<le> n"
      using False m(3) by (auto simp: badLimit_def split: option.splits)
    have "set ops \<subseteq> {op \<in> set all. mayRead pn (opWorkspaceId op)}" "limitArg = None \<Longrightarrow> set ops = {op \<in> set all. mayRead pn (opWorkspaceId op)}"
      using m(2) by (auto simp: ops_def dest: in_set_takeD)
    moreover have "{op \<in> set all. mayRead pn (opWorkspaceId op)} = {op. sqlGetById s (opId op) = Some op \<and> mayRead pn (opWorkspaceId op) \<and>
        (case st of None \<Rightarrow> True | Some t \<Rightarrow> t = [] \<or> opStatusName (opStatus op) = t) \<and>
        filterStr scoped (opWorkspaceId op) \<and> filterStr ini (opInitiator op)}"
      unfolding all(4) match by blast
    moreover have "handleList sqlOps s st limitArg ini scoped pn = ListOk ops"
      unfolding res m(1) ops_def using False by simp
    ultimately show ?thesis using ordered len by (simp add: Let_def)
  qed
qed

theorem approvals_list_scoped_witness:
  "\<exists>op. handleList sqlOps sqlQueued (Some ''pending'') None None None None = ListOk [op] \<and>
     opStatusName (opStatus op) = ''pending'' \<and> sqlGetById sqlQueued (opId op) = Some op"
proof -
  have "\<exists>op. handleList sqlOps sqlQueued (Some ''pending'') None None None None = ListOk [op]"
    by (simp add: handleList_def Let_def sqlOps_def sqlList_def sqlQueued_def sqlEnqueue_def emptySqlOps_def setSqlRows_def
        tableGet_def listMatch_def filterStr_def scopeApprovalsToPrincipal_def)
  then obtain op where run: "handleList sqlOps sqlQueued (Some ''pending'') None None None None = ListOk [op]" ..
  show ?thesis
    using approvals_list_scoped [OF queued_reach(1), of "Some ''pending''" None None None None] run by (auto simp: Let_def)
qed

end
