(* ===== verification/GraphRow.thy ===== *)
theory GraphRow
  imports Json Complex_Main
begin

text \<open>
  The data of the SQLite graph engine: the \<open>LoreNode\<close> and \<open>LoreEdge\<close> objects of
  \<open>providers/types.ts\<close>, the columns of the \<open>nodes\<close> and \<open>edges\<close> tables
  (\<open>engines/sqlite/sqliteGraphSchema.ts\<close>), and the two mappings between them: \<open>toNodeRow\<close>
  (\<open>engines/sqlite/sqliteGraphRow.ts\<close>), which fills what a write omits from the stored row, and
  \<open>rowToLoreNode\<close> (\<open>engines/loreNodeRow.ts\<close>). Tags are normalised by \<open>engines/normalizeTags.ts\<close> and
  the placement key is resolved by \<open>engines/graphShared/partitionKey.ts\<close>.

  A field that is \<open>undefined\<close> or \<open>null\<close> is \<open>None\<close>: every read of such a field is a \<open>??\<close>. Timestamps
  are the ISO strings the columns hold. The two columns that hold JSON text of a list of strings
  (\<open>tags\<close>, \<open>security_scopes\<close>) are the list itself. A similarity score is a rational number: the engine
  stores and returns it and computes nothing with it. Letter case and white space are those of ASCII
  text, and a length counts characters.
\<close>

type_synonym iso = string

section \<open>\<open>engines/normalizeTags.ts\<close>\<close>

definition MAX_TAG_LENGTH :: nat where
  "MAX_TAG_LENGTH = 64"

definition normalizeTag :: "string \<Rightarrow> string" where
  "normalizeTag raw = take MAX_TAG_LENGTH (map lowerAscii (trimJs raw))"

fun finalizeTags :: "string list \<Rightarrow> string list \<Rightarrow> string list" where
  "finalizeTags seen [] = []"
| "finalizeTags seen (raw # rs) =
     (let t = normalizeTag raw
      in if t = [] \<or> List.member seen t then finalizeTags seen rs else t # finalizeTags (t # seen) rs)"

fun tagsToArray :: "json option \<Rightarrow> string list" where
  "tagsToArray (Some (JArr xs)) = finalizeTags [] (concat (map (splitOn CHR '','') (strsOf xs)))"
| "tagsToArray (Some (JStr s)) = finalizeTags [] (splitOn CHR '','' s)"
| "tagsToArray _ = []"

section \<open>\<open>providers/types.ts\<close>\<close>

record LoreNode =
  ln_id :: string
  ln_type :: "string option"
  ln_label :: "string option"
  ln_content :: "string option"
  ln_tags :: "json option"
  ln_project :: "string option"
  ln_ecosystem :: "string option"
  ln_metadata :: "json option"
  ln_createdAt :: "iso option"
  ln_updatedAt :: "iso option"
  ln_syncedAt :: "iso option"
  ln_revision :: "int option"
  ln_securityScopes :: "string list option"
  ln_partitionKey :: "string option"
  ln_language :: "string option"
  ln_supersededBy :: "string option"
  ln_supersededAt :: "iso option"
  ln_supersededReason :: "string option"
  ln_ephemeral :: "bool option"
  ln_ttlMs :: "int option"
  ln_stale :: "bool option"
  ln_lastAccessedAt :: "iso option"
  ln_lastRetrievedAt :: "iso option"
  ln_classification :: "string option"
  ln_status :: "string option"
  ln_successCount :: "int option"
  ln_failureCount :: "int option"
  ln_partialCount :: "int option"
  ln_confirmationScore :: "rat option"
  ln_anchorStale :: "bool option"
  ln_anchorStaleSince :: "iso option"
  ln_validFrom :: "iso option"
  ln_validUntil :: "iso option"

record EdgeProvenance =
  pvOrigin :: "string option"
  pvPolicyVersion :: "string option"
  pvModelFingerprint :: "string option"
  pvCreatedAt :: "iso option"
  pvValidTo :: "iso option"

record LoreEdge =
  leSourceId :: string
  leTargetId :: string
  leRelation :: string
  leConfidence :: "string option"
  leConfidenceScore :: "rat option"
  leProvenance :: "EdgeProvenance option"

section \<open>\<open>engines/sqlite/sqliteGraphSchema.ts\<close>\<close>

record NodeRow =
  n_id :: string
  n_type :: string
  n_label :: string
  n_content :: string
  n_tags :: "string list"
  n_project :: string
  n_ecosystem :: string
  n_metadata :: string
  n_createdAt :: iso
  n_updatedAt :: iso
  n_syncedAt :: iso
  n_securityScopes :: "string list"
  n_language :: string
  n_ephemeral :: bool
  n_ttlMs :: int
  n_stale :: bool
  n_status :: string
  n_classification :: string
  n_anchorStale :: bool
  n_anchorStaleSince :: iso
  n_validFrom :: iso
  n_validUntil :: iso
  n_supersededBy :: string
  n_supersededAt :: iso
  n_supersededReason :: string
  n_partitionKey :: string
  n_lastAccessedAt :: iso
  n_lastRetrievedAt :: iso
  n_successCount :: int
  n_failureCount :: int
  n_partialCount :: int
  n_confirmationScore :: rat
  n_revision :: int

record EdgeRow =
  e_source :: string
  e_target :: string
  e_relation :: string
  e_confidence :: string
  e_score :: rat
  e_origin :: "string option"
  e_policyVersion :: "string option"
  e_modelFingerprint :: "string option"
  e_createdAt :: "iso option"
  e_validTo :: "iso option"

text \<open>A row with every column at its declared default.\<close>

definition freshRow :: "string \<Rightarrow> NodeRow" where
  "freshRow i = \<lparr>n_id = i, n_type = [], n_label = [], n_content = [], n_tags = [], n_project = ''*'', n_ecosystem = ''*'',
     n_metadata = ''{}'', n_createdAt = [], n_updatedAt = [], n_syncedAt = [], n_securityScopes = [], n_language = [],
     n_ephemeral = False, n_ttlMs = 0, n_stale = False, n_status = ''active'', n_classification = ''tactical'',
     n_anchorStale = False, n_anchorStaleSince = [], n_validFrom = [], n_validUntil = [], n_supersededBy = [],
     n_supersededAt = [], n_supersededReason = [], n_partitionKey = [], n_lastAccessedAt = [], n_lastRetrievedAt = [],
     n_successCount = 0, n_failureCount = 0, n_partialCount = 0, n_confirmationScore = 0, n_revision = 0\<rparr>"

datatype GraphError =
    RevisionConflictError string int int
  | PartitionKeyImmutableError string string string
  | NodeAlreadyExistsError string
  | EdgeEndpointMissing "string list"
  | InvalidEdgeOrigin string

section \<open>\<open>engines/graphShared/partitionKey.ts\<close>\<close>

definition PARTITION_KEY_MAX_LENGTH :: nat where
  "PARTITION_KEY_MAX_LENGTH = 128"

definition resolvePartitionKey :: "string \<Rightarrow> string option \<Rightarrow> string option \<Rightarrow> GraphError + string" where
  "resolvePartitionKey nodeId requested prior =
     (let current = (case prior of None \<Rightarrow> [] | Some k \<Rightarrow> k)
      in case requested of
           None \<Rightarrow> Inr current
         | Some k \<Rightarrow> if current \<noteq> [] \<and> k \<noteq> current then Inl (PartitionKeyImmutableError nodeId current k) else Inr k)"

definition validatePartitionKey :: "json \<Rightarrow> bool" where
  "validatePartitionKey v =
     (case v of
        JStr s \<Rightarrow> length s \<le> PARTITION_KEY_MAX_LENGTH \<and>
          list_all (\<lambda>c. let n = of_char c :: nat in 32 \<le> n \<and> \<not> (127 \<le> n \<and> n \<le> 159)) s
      | _ \<Rightarrow> False)"

section \<open>\<open>engines/sqlite/sqliteGraphRow.ts\<close>\<close>

definition metadataToSqliteText :: "json option \<Rightarrow> string option" where
  "metadataToSqliteText v =
     (case v of None \<Rightarrow> None | Some JNull \<Rightarrow> None | Some (JStr s) \<Rightarrow> Some s | Some x \<Rightarrow> Some (stringify x))"

text \<open>\<open>x ?? y\<close>\<close>

abbreviation orElse :: "'a option \<Rightarrow> 'a \<Rightarrow> 'a" where
  "orElse x y \<equiv> (case x of None \<Rightarrow> y | Some v \<Rightarrow> v)"

text \<open>
  The row a write leaves: the written columns come from the node, or else from the stored row, or
  else from the column default; the columns no write names (access times, outcome counters,
  revision) stay those of the stored row.
\<close>

definition writtenRow :: "LoreNode \<Rightarrow> iso \<Rightarrow> iso \<Rightarrow> string \<Rightarrow> NodeRow \<Rightarrow> NodeRow" where
  "writtenRow node createdAt updatedAt key prior = prior\<lparr>
     n_type := orElse (ln_type node) (n_type prior),
     n_label := orElse (ln_label node) (n_label prior),
     n_content := orElse (ln_content node) (n_content prior),
     n_tags := tagsToArray (ln_tags node),
     n_project := orElse (ln_project node) (n_project prior),
     n_ecosystem := orElse (ln_ecosystem node) (n_ecosystem prior),
     n_metadata := orElse (metadataToSqliteText (ln_metadata node)) (n_metadata prior),
     n_createdAt := createdAt,
     n_updatedAt := updatedAt,
     n_syncedAt := [],
     n_securityScopes := orElse (ln_securityScopes node) (n_securityScopes prior),
     n_language := orElse (ln_language node) (n_language prior),
     n_ephemeral := orElse (ln_ephemeral node) (n_ephemeral prior),
     n_ttlMs := orElse (ln_ttlMs node) (n_ttlMs prior),
     n_stale := orElse (ln_stale node) (n_stale prior),
     n_status := orElse (ln_status node) (n_status prior),
     n_classification := orElse (ln_classification node) (n_classification prior),
     n_anchorStale := orElse (ln_anchorStale node) (n_anchorStale prior),
     n_anchorStaleSince := orElse (ln_anchorStaleSince node) (n_anchorStaleSince prior),
     n_validFrom := orElse (ln_validFrom node) (n_validFrom prior),
     n_validUntil := orElse (ln_validUntil node) (n_validUntil prior),
     n_supersededBy := orElse (ln_supersededBy node) (n_supersededBy prior),
     n_supersededAt := orElse (ln_supersededAt node) (n_supersededAt prior),
     n_supersededReason := orElse (ln_supersededReason node) (n_supersededReason prior),
     n_partitionKey := key\<rparr>"

definition toNodeRow :: "LoreNode \<Rightarrow> iso \<Rightarrow> iso \<Rightarrow> NodeRow option \<Rightarrow> GraphError + NodeRow" where
  "toNodeRow node createdAt updatedAt existing =
     (case resolvePartitionKey (ln_id node) (ln_partitionKey node) (map_option n_partitionKey existing) of
        Inl err \<Rightarrow> Inl err
      | Inr key \<Rightarrow> Inr (writtenRow node createdAt updatedAt key (orElse existing (freshRow (ln_id node)))))"

section \<open>\<open>engines/loreNodeRow.ts\<close>\<close>

text \<open>\<open>s.length > 0 ? s : null\<close>\<close>

definition nonEmpty :: "string \<Rightarrow> string option" where
  "nonEmpty s = (if s = [] then None else Some s)"

definition rowToLoreNode :: "NodeRow \<Rightarrow> LoreNode" where
  "rowToLoreNode r = \<lparr>
     ln_id = n_id r, ln_type = Some (n_type r), ln_label = Some (n_label r), ln_content = Some (n_content r),
     ln_tags = Some (JArr (map JStr (tagsToArray (Some (JArr (map JStr (n_tags r))))))),
     ln_project = Some (n_project r), ln_ecosystem = Some (n_ecosystem r), ln_metadata = Some (JStr (n_metadata r)),
     ln_createdAt = Some (n_createdAt r), ln_updatedAt = Some (n_updatedAt r), ln_syncedAt = nonEmpty (n_syncedAt r),
     ln_revision = Some (n_revision r), ln_securityScopes = Some (n_securityScopes r),
     ln_partitionKey = nonEmpty (n_partitionKey r), ln_language = nonEmpty (n_language r),
     ln_supersededBy = nonEmpty (n_supersededBy r), ln_supersededAt = nonEmpty (n_supersededAt r),
     ln_supersededReason = nonEmpty (n_supersededReason r),
     ln_ephemeral = (if n_ephemeral r then Some True else None),
     ln_ttlMs = (if n_ttlMs r > 0 then Some (n_ttlMs r) else None),
     ln_stale = (if n_stale r then Some True else None),
     ln_lastAccessedAt = nonEmpty (n_lastAccessedAt r), ln_lastRetrievedAt = nonEmpty (n_lastRetrievedAt r),
     ln_classification = Some (if n_classification r = [] then ''tactical'' else n_classification r),
     ln_status = Some (if n_status r = [] then ''active'' else n_status r),
     ln_successCount = Some (n_successCount r), ln_failureCount = Some (n_failureCount r),
     ln_partialCount = Some (n_partialCount r), ln_confirmationScore = Some (n_confirmationScore r),
     ln_anchorStale = (if n_anchorStale r then Some True else None),
     ln_anchorStaleSince = nonEmpty (n_anchorStaleSince r),
     ln_validFrom = nonEmpty (n_validFrom r), ln_validUntil = nonEmpty (n_validUntil r)\<rparr>"

section \<open>\<open>providers/edgeProvenance.ts\<close>\<close>

definition EDGE_ORIGINS :: "string list" where
  "EDGE_ORIGINS = [''caller'', ''link_on_arrival'', ''reconnect'', ''discovery'', ''import'']"

record EdgeProvenanceColumns =
  pcOrigin :: string
  pcPolicyVersion :: "string option"
  pcModelFingerprint :: "string option"
  pcCreatedAt :: iso

definition resolveEdgeProvenance :: "EdgeProvenance option \<Rightarrow> string \<Rightarrow> iso \<Rightarrow> GraphError + EdgeProvenanceColumns" where
  "resolveEdgeProvenance p defaultOrigin now =
     (let origin = orElse (Option.bind p pvOrigin) defaultOrigin
      in if \<not> List.member EDGE_ORIGINS origin then Inl (InvalidEdgeOrigin origin)
         else Inr \<lparr>pcOrigin = origin, pcPolicyVersion = Option.bind p pvPolicyVersion,
                   pcModelFingerprint = Option.bind p pvModelFingerprint,
                   pcCreatedAt = orElse (Option.bind p pvCreatedAt) now\<rparr>)"

end
