(* ===== verification/GraphEngine.thy ===== *)
theory GraphEngine
  imports GraphRow KeyedTable
begin

text \<open>
  The SQLite graph engine: the write side (\<open>engines/sqlite/sqliteGraphWrites.ts\<close>,
  \<open>sqliteGraphEdgesBatch.ts\<close>, \<open>sqliteGraphLinkOptOut.ts\<close>, \<open>archiveNode\<close> of \<open>sqliteGraphOverview.ts\<close>),
  the keyed reads it rests on, and the supersession guards every engine shares
  (\<open>engines/graphShared/supersedeGuard.ts\<close>, \<open>supersedeCycle.ts\<close>).

  The state is the three tables of \<open>graph.sqlite\<close>. The driver is synchronous, so each function here
  runs without interleaving; a call's clock reading \<open>new Date().toISOString()\<close> is the argument \<open>now\<close>.
  A thrown error is \<open>Inl\<close>, and a transaction that throws leaves the tables as they were.
\<close>

record Graph =
  gNodes :: "NodeRow list"
  gEdges :: "EdgeRow list"
  gOptOut :: "string list"

definition setNodes :: "NodeRow list \<Rightarrow> Graph \<Rightarrow> Graph" where
  "setNodes ns g = g\<lparr>gNodes := ns\<rparr>"

definition setEdges :: "EdgeRow list \<Rightarrow> Graph \<Rightarrow> Graph" where
  "setEdges es g = g\<lparr>gEdges := es\<rparr>"

definition emptyGraph :: Graph where
  "emptyGraph = \<lparr>gNodes = [], gEdges = [], gOptOut = []\<rparr>"

abbreviation edgeKeyOf :: "EdgeRow \<Rightarrow> string \<times> string \<times> string" where
  "edgeKeyOf e \<equiv> (e_source e, e_target e, e_relation e)"

definition nodeRow :: "Graph \<Rightarrow> string \<Rightarrow> NodeRow option" where
  "nodeRow g i = tableGet n_id (gNodes g) i"

definition edgeRow :: "Graph \<Rightarrow> string \<times> string \<times> string \<Rightarrow> EdgeRow option" where
  "edgeRow g t = tableGet edgeKeyOf (gEdges g) t"

text \<open>\<open>UPDATE nodes SET ... WHERE id = ?\<close>, and an upsert of a whole row.\<close>

definition updNode :: "string \<Rightarrow> (NodeRow \<Rightarrow> NodeRow) \<Rightarrow> Graph \<Rightarrow> Graph" where
  "updNode i f g = setNodes (tableUpd n_id i f (gNodes g)) g"

definition putNode :: "NodeRow \<Rightarrow> Graph \<Rightarrow> Graph" where
  "putNode r g = setNodes (tableSet n_id r (gNodes g)) g"

definition putEdge :: "EdgeRow \<Rightarrow> Graph \<Rightarrow> Graph" where
  "putEdge e g = setEdges (tableSet edgeKeyOf e (gEdges g)) g"

definition getNode :: "Graph \<Rightarrow> string \<Rightarrow> LoreNode option" where
  "getNode g i = map_option rowToLoreNode (nodeRow g i)"

section \<open>Node writes\<close>

datatype NodeWriteMode =
    Bump iso
  | Keep iso
  | Conditional iso int bool
  | Replay iso int "iso option"

fun modeUpdatedAt :: "NodeWriteMode \<Rightarrow> iso" where
  "modeUpdatedAt (Bump when) = when"
| "modeUpdatedAt (Keep when) = when"
| "modeUpdatedAt (Conditional when expected mustExist) = when"
| "modeUpdatedAt (Replay when revision createdAt) = when"

fun insertRevision :: "NodeWriteMode \<Rightarrow> int" where
  "insertRevision (Bump when) = 1"
| "insertRevision (Keep when) = 1"
| "insertRevision (Conditional when expected mustExist) = expected + 1"
| "insertRevision (Replay when revision createdAt) = revision"

fun updateRevision :: "NodeWriteMode \<Rightarrow> int \<Rightarrow> int" where
  "updateRevision (Bump when) stored = stored + 1"
| "updateRevision (Keep when) stored = stored"
| "updateRevision (Conditional when expected mustExist) stored = stored + 1"
| "updateRevision (Replay when revision createdAt) stored = revision"

text \<open>The revision part of the \<open>WHERE\<close> guard of the conflict branch.\<close>

fun revisionGuard :: "NodeWriteMode \<Rightarrow> int \<Rightarrow> bool" where
  "revisionGuard (Bump when) stored = True"
| "revisionGuard (Keep when) stored = True"
| "revisionGuard (Conditional when expected mustExist) stored = (stored = expected)"
| "revisionGuard (Replay when revision createdAt) stored = (stored < revision)"

fun expectedOf :: "NodeWriteMode \<Rightarrow> int" where
  "expectedOf (Conditional when expected mustExist) = expected"
| "expectedOf (Replay when revision createdAt) = revision"
| "expectedOf m = 0"

fun mustExistMode :: "NodeWriteMode \<Rightarrow> bool" where
  "mustExistMode (Conditional when expected mustExist) = mustExist"
| "mustExistMode m = False"

fun replayCreatedAt :: "NodeWriteMode \<Rightarrow> iso option" where
  "replayCreatedAt (Replay when revision createdAt) = createdAt"
| "replayCreatedAt m = None"

text \<open>What a node write returns: the caller's node with the fields the write settled.\<close>

definition echoNode :: "LoreNode \<Rightarrow> iso \<Rightarrow> iso \<Rightarrow> int \<Rightarrow> string \<Rightarrow> LoreNode" where
  "echoNode node createdAt now revision key = node\<lparr>
     ln_tags := Some (JArr (map JStr (tagsToArray (ln_tags node)))), ln_createdAt := Some createdAt,
     ln_updatedAt := Some now, ln_syncedAt := None, ln_revision := Some revision,
     ln_partitionKey := (if key = [] then ln_partitionKey node else Some key)\<rparr>"

definition writeNodeSync :: "LoreNode \<Rightarrow> NodeWriteMode \<Rightarrow> Graph \<Rightarrow> (GraphError + LoreNode) \<times> Graph" where
  "writeNodeSync node m g =
     (let i = ln_id node; now = modeUpdatedAt m; existing = nodeRow g i
      in if existing = None \<and> mustExistMode m then (Inl (RevisionConflictError i (expectedOf m) 0), g)
         else let createdAt = (case existing of Some r \<Rightarrow> n_createdAt r
                               | None \<Rightarrow> (case replayCreatedAt m of Some c \<Rightarrow> if c = [] then now else c | None \<Rightarrow> now))
              in case toNodeRow node createdAt now existing of
                   Inl err \<Rightarrow> (Inl err, g)
                 | Inr doc \<Rightarrow>
                     (case existing of
                        None \<Rightarrow>
                          (Inr (echoNode node createdAt now (insertRevision m) (n_partitionKey doc)),
                           putNode (doc\<lparr>n_revision := insertRevision m\<rparr>) g)
                      | Some r \<Rightarrow>
                          if revisionGuard m (n_revision r) \<and>
                             (mustExistMode m \<or> n_partitionKey r = [] \<or> n_partitionKey r = n_partitionKey doc)
                          then (Inr (echoNode node createdAt now (updateRevision m (n_revision r)) (n_partitionKey doc)),
                                putNode (doc\<lparr>n_revision := updateRevision m (n_revision r)\<rparr>) g)
                          else if n_partitionKey r \<noteq> [] \<and> n_partitionKey r \<noteq> n_partitionKey doc
                          then (Inl (PartitionKeyImmutableError i (n_partitionKey r) (n_partitionKey doc)), g)
                          else (Inl (RevisionConflictError i (expectedOf m) (n_revision r)), g)))"

definition upsertNode :: "iso \<Rightarrow> LoreNode \<Rightarrow> Graph \<Rightarrow> (GraphError + LoreNode) \<times> Graph" where
  "upsertNode now node g = writeNodeSync node (Bump now) g"

definition upsertNodeKeepRevision :: "iso \<Rightarrow> LoreNode \<Rightarrow> Graph \<Rightarrow> (GraphError + LoreNode) \<times> Graph" where
  "upsertNodeKeepRevision now node g = writeNodeSync node (Keep now) g"

definition upsertNodeAtRevision :: "LoreNode \<Rightarrow> int \<Rightarrow> iso \<Rightarrow> bool \<Rightarrow> Graph \<Rightarrow> (GraphError + LoreNode) \<times> Graph" where
  "upsertNodeAtRevision node expected updatedAt mustExist g = writeNodeSync node (Conditional updatedAt expected mustExist) g"

text \<open>\<open>a || b\<close> on an optional string: the empty string is falsy.\<close>

definition strOr :: "string option \<Rightarrow> string \<Rightarrow> string" where
  "strOr x y = (case x of None \<Rightarrow> y | Some s \<Rightarrow> if s = [] then y else s)"

definition replayNodeAtRevision :: "iso \<Rightarrow> LoreNode \<Rightarrow> Graph \<Rightarrow> (GraphError + bool) \<times> Graph" where
  "replayNodeAtRevision now node g =
     (case writeNodeSync node
             (Replay (strOr (ln_updatedAt node) now) (orElse (ln_revision node) 0)
                     (case ln_createdAt node of Some c \<Rightarrow> if c = [] then None else Some c | None \<Rightarrow> None)) g of
        (Inr w, g') \<Rightarrow> (Inr True, g')
      | (Inl (RevisionConflictError i e a), g') \<Rightarrow> (Inr False, g')
      | (Inl err, g') \<Rightarrow> (Inl err, g'))"

definition insertNodeIfAbsent :: "iso \<Rightarrow> LoreNode \<Rightarrow> Graph \<Rightarrow> (GraphError + LoreNode) \<times> Graph" where
  "insertNodeIfAbsent now node g =
     (case toNodeRow node now now None of
        Inl err \<Rightarrow> (Inl err, g)
      | Inr doc \<Rightarrow>
          if nodeRow g (ln_id node) \<noteq> None then (Inl (NodeAlreadyExistsError (ln_id node)), g)
          else (Inr (echoNode node now now 1 (n_partitionKey doc)), putNode (doc\<lparr>n_revision := 1\<rparr>) g))"

definition bulkUpsertNodes :: "iso \<Rightarrow> LoreNode list \<Rightarrow> Graph \<Rightarrow> (string \<times> GraphError option) list \<times> Graph" where
  "bulkUpsertNodes now batch g =
     fold (\<lambda>node (out, h). case upsertNode now node h of
             (Inr w, h') \<Rightarrow> (out @ [(ln_id node, None)], h')
           | (Inl err, h') \<Rightarrow> (out @ [(ln_id node, Some err)], h')) batch ([], g)"

definition deleteNode :: "string \<Rightarrow> Graph \<Rightarrow> bool \<times> Graph" where
  "deleteNode i g =
     (let g1 = g\<lparr>gOptOut := filter (\<lambda>x. x \<noteq> i) (gOptOut g)\<rparr>
      in if nodeRow g i = None then (False, g1)
         else (True, setNodes (filter (\<lambda>r. n_id r \<noteq> i) (gNodes g1))
                       (setEdges (filter (\<lambda>e. \<not> (e_source e = i \<or> e_target e = i)) (gEdges g1)) g1)))"

section \<open>Edge writes\<close>

definition addEdge :: "iso \<Rightarrow> LoreEdge \<Rightarrow> Graph \<Rightarrow> (GraphError + unit) \<times> Graph" where
  "addEdge now edge g =
     (let missing = filter (\<lambda>i. nodeRow g i = None) [leSourceId edge, leTargetId edge]
      in if missing \<noteq> [] then (Inl (EdgeEndpointMissing missing), g)
         else case resolveEdgeProvenance (leProvenance edge) ''caller'' now of
                Inl err \<Rightarrow> (Inl err, g)
              | Inr pv \<Rightarrow>
                  (Inr (), putEdge \<lparr>
                     e_source = leSourceId edge, e_target = leTargetId edge, e_relation = leRelation edge,
                     e_confidence = orElse (leConfidence edge) ''extracted'', e_score = orElse (leConfidenceScore edge) 1,
                     e_origin = Some (pcOrigin pv), e_policyVersion = pcPolicyVersion pv,
                     e_modelFingerprint = pcModelFingerprint pv,
                     e_createdAt = Some (orElse (Option.bind (edgeRow g (leSourceId edge, leTargetId edge, leRelation edge)) e_createdAt)
                                           (pcCreatedAt pv)),
                     e_validTo = None\<rparr> g))"

definition addBidirectionalEdge :: "iso \<Rightarrow> LoreEdge \<Rightarrow> Graph \<Rightarrow> (GraphError + unit) \<times> Graph" where
  "addBidirectionalEdge now edge g =
     (case addEdge now edge g of
        (Inl err, g') \<Rightarrow> (Inl err, g')
      | (Inr u, g') \<Rightarrow> addEdge now \<lparr>leSourceId = leTargetId edge, leTargetId = leSourceId edge, leRelation = leRelation edge,
                                    leConfidence = leConfidence edge, leConfidenceScore = leConfidenceScore edge,
                                    leProvenance = None\<rparr> g')"

definition deleteEdge :: "string \<Rightarrow> string \<Rightarrow> string \<Rightarrow> Graph \<Rightarrow> nat \<times> Graph" where
  "deleteEdge s t r g =
     (length (filter (\<lambda>e. edgeKeyOf e = (s, t, r)) (gEdges g)),
      setEdges (filter (\<lambda>e. edgeKeyOf e \<noteq> (s, t, r)) (gEdges g)) g)"

definition pruneInferredLoreEdges :: "string \<Rightarrow> Graph \<Rightarrow> nat \<times> Graph" where
  "pruneInferredLoreEdges prefix g =
     (let hit = (\<lambda>e. take (length prefix) (e_relation e) = prefix)
      in (length (filter hit (gEdges g)), setEdges (filter (\<lambda>e. \<not> hit e) (gEdges g)) g))"

record InferredEdge =
  ieSourceId :: string
  ieTargetId :: string
  ieRelation :: string
  ieConfidenceScore :: rat
  ieProvenance :: "EdgeProvenance option"

record BatchEdgeResult =
  beWritten :: nat
  beSkippedMissingEndpoint :: nat
  beKeptExisting :: nat

text \<open>The conditional upsert of one edge: \<open>False\<close> when a row that is not inferred was kept.\<close>

definition inferredUpsert :: "iso \<Rightarrow> InferredEdge \<Rightarrow> Graph \<Rightarrow> GraphError + bool \<times> Graph" where
  "inferredUpsert now e g =
     (case resolveEdgeProvenance (ieProvenance e) ''link_on_arrival'' now of
        Inl err \<Rightarrow> Inl err
      | Inr pv \<Rightarrow>
          (let fresh = \<lparr>e_source = ieSourceId e, e_target = ieTargetId e, e_relation = ieRelation e,
                 e_confidence = ''inferred'', e_score = ieConfidenceScore e, e_origin = Some (pcOrigin pv),
                 e_policyVersion = pcPolicyVersion pv, e_modelFingerprint = pcModelFingerprint pv,
                 e_createdAt = Some (pcCreatedAt pv), e_validTo = None\<rparr>
           in case edgeRow g (ieSourceId e, ieTargetId e, ieRelation e) of
                None \<Rightarrow> Inr (True, putEdge fresh g)
              | Some old \<Rightarrow>
                  if e_confidence old = ''inferred''
                  then Inr (True, putEdge (fresh\<lparr>e_createdAt := Some (orElse (e_createdAt old) (pcCreatedAt pv))\<rparr>) g)
                  else Inr (False, g)))"

text \<open>\<open>present\<close> holds the endpoints read once at the start of the transaction.\<close>

fun inferredStep :: "iso \<Rightarrow> string list \<Rightarrow> InferredEdge list \<Rightarrow> BatchEdgeResult \<times> Graph \<Rightarrow> GraphError + BatchEdgeResult \<times> Graph" where
  "inferredStep now present [] (out, g) = Inr (out, g)"
| "inferredStep now present (e # es) (out, g) =
     (if \<not> List.member present (ieSourceId e) \<or> \<not> List.member present (ieTargetId e)
      then inferredStep now present es (out\<lparr>beSkippedMissingEndpoint := beSkippedMissingEndpoint out + 1\<rparr>, g)
      else case inferredUpsert now e g of
             Inl err \<Rightarrow> Inl err
           | Inr (True, g') \<Rightarrow> inferredStep now present es (out\<lparr>beWritten := beWritten out + 1\<rparr>, g')
           | Inr (False, g') \<Rightarrow> inferredStep now present es (out\<lparr>beKeptExisting := beKeptExisting out + 1\<rparr>, g'))"

definition addInferredEdgesBatch :: "iso \<Rightarrow> InferredEdge list \<Rightarrow> Graph \<Rightarrow> (GraphError + BatchEdgeResult) \<times> Graph" where
  "addInferredEdgesBatch now edges g =
     (case inferredStep now (map n_id (gNodes g)) edges
             (\<lparr>beWritten = 0, beSkippedMissingEndpoint = 0, beKeptExisting = 0\<rparr>, g) of
        Inl err \<Rightarrow> (Inl err, g)
      | Inr (out, g') \<Rightarrow> (Inr out, g'))"

definition invalidateEdge :: "iso \<Rightarrow> string \<times> string \<times> string \<Rightarrow> Graph \<Rightarrow> nat \<times> Graph" where
  "invalidateEdge when k g =
     (length (filter (\<lambda>e. edgeKeyOf e = k \<and> e_validTo e = None) (gEdges g)),
      setEdges (map (\<lambda>e. if edgeKeyOf e = k \<and> e_validTo e = None then e\<lparr>e_validTo := Some when\<rparr> else e) (gEdges g)) g)"

fun invalidateEdges :: "iso \<Rightarrow> (string \<times> string \<times> string) list \<Rightarrow> Graph \<Rightarrow> nat \<times> Graph" where
  "invalidateEdges when [] g = (0, g)"
| "invalidateEdges when (k # ks) g =
     (let (n, g') = invalidateEdge when k g; (m, g'') = invalidateEdges when ks g' in (n + m, g''))"

definition setLinkOptOuts :: "string list \<Rightarrow> bool \<Rightarrow> Graph \<Rightarrow> Graph" where
  "setLinkOptOuts ids optOut g =
     (if optOut then g\<lparr>gOptOut := fold (\<lambda>i acc. if List.member acc i then acc else acc @ [i]) ids (gOptOut g)\<rparr>
      else g\<lparr>gOptOut := filter (\<lambda>i. \<not> List.member ids i) (gOptOut g)\<rparr>)"

definition getLinkOptOuts :: "Graph \<Rightarrow> string list \<Rightarrow> string list" where
  "getLinkOptOuts g ids = filter (List.member ids) (gOptOut g)"

section \<open>\<open>graphShared/supersedeGuard.ts\<close> and \<open>graphShared/supersedeCycle.ts\<close>\<close>

datatype SupersedeResult = SupersedeOk bool | SupersedeFailed string "string option"

definition ALREADY_SUPERSEDED_REASON :: string where
  "ALREADY_SUPERSEDED_REASON = ''already-superseded''"

text \<open>\<open>None\<close>: free to claim. \<open>SupersedeOk True\<close>: already ours, nothing to write.\<close>

definition supersedeGuardVerdict :: "string option \<Rightarrow> string \<Rightarrow> SupersedeResult option" where
  "supersedeGuardVerdict current newId =
     (case current of
        None \<Rightarrow> None
      | Some c \<Rightarrow> if c = [] then None
                  else if c = newId then Some (SupersedeOk True)
                  else Some (SupersedeFailed ALREADY_SUPERSEDED_REASON (Some c)))"

definition MAX_SUPERSEDE_CHAIN_HOPS :: nat where
  "MAX_SUPERSEDE_CHAIN_HOPS = 1000"

text \<open>The \<open>while\<close> loop: \<open>hops\<close> is what is left of the cap.\<close>

fun cycleWalk :: "(string \<Rightarrow> string option) \<Rightarrow> string \<Rightarrow> nat \<Rightarrow> string list \<Rightarrow> string option \<Rightarrow> bool" where
  "cycleWalk getSupersededBy target hops visited None = False"
| "cycleWalk getSupersededBy target 0 visited (Some c) = False"
| "cycleWalk getSupersededBy target (Suc hops) visited (Some c) =
     (if c = [] then False
      else if c = target then True
      else if List.member visited c then False
      else cycleWalk getSupersededBy target hops (c # visited) (getSupersededBy c))"

definition wouldCreateSupersedeCycle :: "string \<Rightarrow> string option \<Rightarrow> (string \<Rightarrow> string option) \<Rightarrow> bool" where
  "wouldCreateSupersedeCycle target start getSupersededBy =
     cycleWalk getSupersededBy target MAX_SUPERSEDE_CHAIN_HOPS [] start"

section \<open>Lifecycle writes\<close>

definition supersededByOf :: "Graph \<Rightarrow> string \<Rightarrow> string option" where
  "supersededByOf g i = Option.bind (getNode g i) ln_supersededBy"

text \<open>The guarded claim of the old node.\<close>

definition supersedeClaim :: "string \<Rightarrow> iso \<Rightarrow> string \<Rightarrow> NodeRow \<Rightarrow> NodeRow" where
  "supersedeClaim newId when reason r = r\<lparr>
     n_supersededBy := newId, n_supersededAt := when, n_supersededReason := reason, n_revision := n_revision r + 1,
     n_validUntil := (if n_validUntil r = [] then when else n_validUntil r)\<rparr>"

definition claimable :: "string \<Rightarrow> NodeRow \<Rightarrow> bool" where
  "claimable newId r = (n_supersededBy r = [] \<or> n_supersededBy r = newId)"

definition bumpRevision :: "int \<Rightarrow> NodeRow \<Rightarrow> NodeRow" where
  "bumpRevision k r = r\<lparr>n_revision := n_revision r + k\<rparr>"

definition supersedeNode :: "iso \<Rightarrow> string \<Rightarrow> string \<Rightarrow> string option \<Rightarrow> Graph \<Rightarrow> SupersedeResult \<times> Graph" where
  "supersedeNode now oldId newId reason g =
     (if oldId = newId then (SupersedeFailed ''self'' None, g)
      else case getNode g oldId of
             None \<Rightarrow> (SupersedeFailed ''old-not-found'' None, g)
           | Some oldNode \<Rightarrow>
               (case getNode g newId of
                  None \<Rightarrow> (SupersedeFailed ''new-not-found'' None, g)
                | Some newNode \<Rightarrow>
                    (case supersedeGuardVerdict (ln_supersededBy oldNode) newId of
                       Some early \<Rightarrow> (early, g)
                     | None \<Rightarrow>
                         if wouldCreateSupersedeCycle oldId (ln_supersededBy newNode) (supersededByOf g)
                         then (SupersedeFailed ''cycle'' None, g)
                         else (case nodeRow g oldId of
                                 Some r \<Rightarrow>
                                   if claimable newId r
                                   then (SupersedeOk False,
                                         updNode newId (bumpRevision 1) (updNode oldId (supersedeClaim newId now (orElse reason [])) g))
                                   else (orElse (supersedeGuardVerdict (ln_supersededBy oldNode) newId)
                                           (SupersedeFailed ''old-not-found'' None), g)
                               | None \<Rightarrow> (SupersedeFailed ''old-not-found'' None, g)))))"

definition unsupersedeNode :: "string \<Rightarrow> Graph \<Rightarrow> bool \<times> Graph" where
  "unsupersedeNode i g =
     (case getNode g i of
        None \<Rightarrow> (False, g)
      | Some node \<Rightarrow>
          let clearValidUntil = (ln_validUntil node \<noteq> None \<and> ln_validUntil node = ln_supersededAt node)
          in (True, updNode i (\<lambda>r. r\<lparr>
                n_supersededBy := [], n_supersededAt := [], n_supersededReason := [],
                n_revision := n_revision r + (if n_supersededBy r \<noteq> [] then 1 else 0),
                n_validUntil := (if clearValidUntil then [] else n_validUntil r)\<rparr>) g))"

definition staleRow :: "NodeRow \<Rightarrow> NodeRow" where
  "staleRow r = r\<lparr>n_stale := True, n_revision := n_revision r + (if n_stale r then 0 else 1)\<rparr>"

text \<open>\<open>UPDATE nodes SET stale = 1 ... WHERE P\<close>, with the number of rows the statement matched.\<close>

definition markStaleWhere :: "(NodeRow \<Rightarrow> bool) \<Rightarrow> Graph \<Rightarrow> nat \<times> Graph" where
  "markStaleWhere P g =
     (length (filter P (gNodes g)), setNodes (map (\<lambda>r. if P r then staleRow r else r) (gNodes g)) g)"

definition normalizedTags :: "string list \<Rightarrow> string list" where
  "normalizedTags tags = filter (\<lambda>t. t \<noteq> []) (map normalizeTag tags)"

definition hasAnyTag :: "string list \<Rightarrow> NodeRow \<Rightarrow> bool" where
  "hasAnyTag tags r = list_ex (List.member tags) (n_tags r)"

definition markStaleByTags :: "string list \<Rightarrow> Graph \<Rightarrow> nat \<times> Graph" where
  "markStaleByTags tags g =
     (let ts = normalizedTags tags in if ts = [] then (0, g) else markStaleWhere (hasAnyTag ts) g)"

definition findNodeIdsByTags :: "Graph \<Rightarrow> string list \<Rightarrow> string list" where
  "findNodeIdsByTags g tags =
     (let ts = normalizedTags tags in if ts = [] then [] else map n_id (filter (hasAnyTag ts) (gNodes g)))"

definition markStaleByIds :: "string list \<Rightarrow> Graph \<Rightarrow> nat \<times> Graph" where
  "markStaleByIds ids g =
     (let us = remdups (filter (\<lambda>i. i \<noteq> []) ids)
      in if us = [] then (0, g) else markStaleWhere (\<lambda>r. List.member us (n_id r)) g)"

definition archiveNode :: "iso \<Rightarrow> string \<Rightarrow> Graph \<Rightarrow> Graph" where
  "archiveNode now i g = updNode i (\<lambda>r. r\<lparr>
     n_revision := n_revision r + (if n_status r = ''archived'' then 0 else 1), n_status := ''archived'', n_updatedAt := now\<rparr>) g"

record AccessStamp =
  asId :: string
  asAccessedAt :: iso
  asRetrievedAt :: "iso option"

text \<open>
  The stamps of one flush. Entries with the same pair of times form a group, in the order the groups
  first appear; each group is one \<open>UPDATE\<close>.
\<close>

definition stampKey :: "AccessStamp \<Rightarrow> string" where
  "stampKey e = asAccessedAt e @ '' '' @ orElse (asRetrievedAt e) []"

definition stampGroup :: "AccessStamp list \<Rightarrow> Graph \<Rightarrow> nat \<times> Graph" where
  "stampGroup grp g =
     (case grp of
        [] \<Rightarrow> (0, g)
      | e # es \<Rightarrow>
          let hit = (\<lambda>r. List.member (map asId grp) (n_id r));
              stamp = (\<lambda>r. case asRetrievedAt e of
                         Some t \<Rightarrow> if t = [] then r\<lparr>n_lastAccessedAt := asAccessedAt e\<rparr>
                                   else r\<lparr>n_lastAccessedAt := asAccessedAt e, n_lastRetrievedAt := t\<rparr>
                       | None \<Rightarrow> r\<lparr>n_lastAccessedAt := asAccessedAt e\<rparr>)
          in (length (filter hit (gNodes g)), setNodes (map (\<lambda>r. if hit r then stamp r else r) (gNodes g)) g))"

definition stampAccessTimes :: "AccessStamp list \<Rightarrow> Graph \<Rightarrow> nat \<times> Graph" where
  "stampAccessTimes entries g =
     (let valid = filter (\<lambda>e. asId e \<noteq> [] \<and> asAccessedAt e \<noteq> []) entries;
          keys = fold (\<lambda>k ks. if List.member ks k then ks else ks @ [k]) (map stampKey valid) []
      in fold (\<lambda>k (n, h). let (m, h') = stampGroup (filter (\<lambda>e. stampKey e = k) valid) h in (n + m, h')) keys (0, g))"

section \<open>\<open>importRaw\<close>\<close>

definition importNode :: "LoreNode \<Rightarrow> Graph \<Rightarrow> GraphError + Graph" where
  "importNode n g =
     (case toNodeRow n (orElse (ln_createdAt n) []) (orElse (ln_updatedAt n) []) None of
        Inl err \<Rightarrow> Inl err
      | Inr doc \<Rightarrow> Inr (putNode (doc\<lparr>
          n_successCount := orElse (ln_successCount n) 0, n_failureCount := orElse (ln_failureCount n) 0,
          n_partialCount := orElse (ln_partialCount n) 0, n_confirmationScore := orElse (ln_confirmationScore n) 0,
          n_lastAccessedAt := orElse (ln_lastAccessedAt n) [], n_lastRetrievedAt := orElse (ln_lastRetrievedAt n) [],
          n_revision := orElse (ln_revision n) 0\<rparr>) g))"

definition importEdge :: "iso \<Rightarrow> LoreEdge \<Rightarrow> Graph \<Rightarrow> GraphError + Graph" where
  "importEdge now e g =
     (case resolveEdgeProvenance (leProvenance e) ''import'' now of
        Inl err \<Rightarrow> Inl err
      | Inr pv \<Rightarrow> Inr (putEdge \<lparr>
          e_source = leSourceId e, e_target = leTargetId e, e_relation = leRelation e,
          e_confidence = orElse (leConfidence e) ''extracted'', e_score = orElse (leConfidenceScore e) 1,
          e_origin = Some (pcOrigin pv), e_policyVersion = pcPolicyVersion pv, e_modelFingerprint = pcModelFingerprint pv,
          e_createdAt = Some (pcCreatedAt pv), e_validTo = Option.bind (leProvenance e) pvValidTo\<rparr> g))"

fun foldE :: "('a \<Rightarrow> 's \<Rightarrow> 'e + 's) \<Rightarrow> 'a list \<Rightarrow> 's \<Rightarrow> 'e + 's" where
  "foldE f [] s = Inr s"
| "foldE f (x # xs) s = (case f x s of Inl err \<Rightarrow> Inl err | Inr s' \<Rightarrow> foldE f xs s')"

definition importRaw :: "iso \<Rightarrow> LoreNode list \<Rightarrow> LoreEdge list \<Rightarrow> Graph \<Rightarrow> (GraphError + nat \<times> nat) \<times> Graph" where
  "importRaw now nodes edges g =
     (case foldE importNode nodes g of
        Inl err \<Rightarrow> (Inl err, g)
      | Inr g1 \<Rightarrow>
          (case foldE (importEdge now) edges g1 of
             Inl err \<Rightarrow> (Inl err, g)
           | Inr g2 \<Rightarrow> (Inr (length nodes, length edges), g2)))"

end
