(* ===== verification/GraphBatch.thy ===== *)
theory GraphBatch
  imports GraphEngine
begin

text \<open>
  The atomic multi-node commit: its shape rules and vocabulary (\<open>engines/graphShared/nodeBatch.ts\<close>),
  the SQLite implementation (\<open>engines/sqlite/sqliteNodeBatch.ts\<close>) and the one retry helper around it
  (\<open>engines/graphShared/nodeBatchRetry.ts\<close>).

  A refusal and a thrown error both roll the transaction back, so the state of a call that does not
  commit is the state it started from. Waiting between attempts is not modelled; the helper is
  generic in the state its callbacks act on, because another daemon may move the database between
  two attempts.
\<close>

section \<open>\<open>graphShared/nodeBatch.ts\<close>\<close>

record NodeBatchCheck =
  ckId :: string
  ckRevision :: int

datatype NodeBatchWrite =
    CasWrite LoreNode int bool iso
  | InsertWrite LoreNode iso

fun writeNodeOf :: "NodeBatchWrite \<Rightarrow> LoreNode" where
  "writeNodeOf (CasWrite n expected mustExist when) = n"
| "writeNodeOf (InsertWrite n when) = n"

abbreviation writeId :: "NodeBatchWrite \<Rightarrow> string" where
  "writeId w \<equiv> ln_id (writeNodeOf w)"

fun writeAt :: "NodeBatchWrite \<Rightarrow> iso" where
  "writeAt (CasWrite n expected mustExist when) = when"
| "writeAt (InsertWrite n when) = when"

record NodeBatchSupersedeLink =
  lkTarget :: string
  lkMark :: bool
  lkEdge :: bool

record NodeBatchSupersedes =
  spSuccessor :: string
  spReason :: string
  spAt :: iso
  spLinks :: "NodeBatchSupersedeLink list"

datatype NodeBatchOutcome =
    BatchOk "(string \<times> int) list"
  | BatchPrecondition nat string int
  | BatchRevision nat string int
  | BatchExists nat string
  | BatchSupersede nat string
  | BatchContention
  | BatchRefused string
  | BatchUnknown

datatype BatchShapeError =
    NoWrites
  | TooManyWrites
  | TooManyChecks
  | RepeatedWrite string
  | BadCheckRevision string
  | RepeatedCheck string
  | SuccessorNotWritten string
  | SelfSupersede
  | TargetIsWritten string
  | RepeatedTarget string
  | TooManyTargets

definition MAX_NODE_BATCH_WRITES :: nat where
  "MAX_NODE_BATCH_WRITES = 100"

definition MAX_NODE_BATCH_CHECKS :: nat where
  "MAX_NODE_BATCH_CHECKS = 400"

fun firstRepeat :: "string list \<Rightarrow> string list \<Rightarrow> string option" where
  "firstRepeat seen [] = None"
| "firstRepeat seen (i # is) = (if List.member seen i then Some i else firstRepeat (i # seen) is)"

fun checkShape :: "string list \<Rightarrow> NodeBatchCheck list \<Rightarrow> BatchShapeError option" where
  "checkShape seen [] = None"
| "checkShape seen (c # cs) =
     (if ckRevision c < 0 then Some (BadCheckRevision (ckId c))
      else if List.member seen (ckId c) then Some (RepeatedCheck (ckId c))
      else checkShape (ckId c # seen) cs)"

fun linkShape :: "string \<Rightarrow> string list \<Rightarrow> string list \<Rightarrow> NodeBatchSupersedeLink list \<Rightarrow> BatchShapeError option" where
  "linkShape successor written seen [] = None"
| "linkShape successor written seen (l # ls) =
     (if lkTarget l = successor then Some SelfSupersede
      else if List.member written (lkTarget l) then Some (TargetIsWritten (lkTarget l))
      else if List.member seen (lkTarget l) then Some (RepeatedTarget (lkTarget l))
      else linkShape successor written (lkTarget l # seen) ls)"

definition assertNodeBatchShape ::
  "NodeBatchCheck list \<Rightarrow> NodeBatchWrite list \<Rightarrow> NodeBatchSupersedes option \<Rightarrow> BatchShapeError option" where
  "assertNodeBatchShape checks writes supersedes =
     (if writes = [] then Some NoWrites
      else if length writes > MAX_NODE_BATCH_WRITES then Some TooManyWrites
      else if length checks > MAX_NODE_BATCH_CHECKS then Some TooManyChecks
      else case firstRepeat [] (map writeId writes) of
             Some i \<Rightarrow> Some (RepeatedWrite i)
           | None \<Rightarrow>
               (case checkShape [] checks of
                  Some err \<Rightarrow> Some err
                | None \<Rightarrow>
                    (case supersedes of
                       None \<Rightarrow> None
                     | Some s \<Rightarrow>
                         if \<not> List.member (map writeId writes) (spSuccessor s) then Some (SuccessorNotWritten (spSuccessor s))
                         else case linkShape (spSuccessor s) (map writeId writes) [] (spLinks s) of
                                Some err \<Rightarrow> Some err
                              | None \<Rightarrow>
                                  if length (spLinks s) + length writes + length checks > MAX_NODE_BATCH_CHECKS + MAX_NODE_BATCH_WRITES
                                  then Some TooManyTargets else None)))"

fun landedRevision :: "NodeBatchWrite \<Rightarrow> int" where
  "landedRevision (CasWrite n expected mustExist when) = expected + 1"
| "landedRevision (InsertWrite n when) = 1"

definition supersedeMarkCount :: "NodeBatchSupersedes option \<Rightarrow> int" where
  "supersedeMarkCount s = (case s of None \<Rightarrow> 0 | Some sp \<Rightarrow> int (length (filter lkMark (spLinks sp))))"

definition batchLandedRevision :: "NodeBatchWrite \<Rightarrow> NodeBatchSupersedes option \<Rightarrow> int" where
  "batchLandedRevision w s =
     landedRevision w + (case s of None \<Rightarrow> 0 | Some sp \<Rightarrow> if writeId w = spSuccessor sp then supersedeMarkCount s else 0)"

section \<open>\<open>sqlite/sqliteNodeBatch.ts\<close>\<close>

datatype BatchError = NodeBatchInvalidError BatchShapeError | EngineError GraphError

datatype BatchAbort = AbortRefused NodeBatchOutcome | AbortThrown GraphError

definition storedRevision :: "Graph \<Rightarrow> string \<Rightarrow> bool \<times> int" where
  "storedRevision g i = (case nodeRow g i of None \<Rightarrow> (False, 0) | Some r \<Rightarrow> (True, n_revision r))"

fun runChecks :: "Graph \<Rightarrow> nat \<Rightarrow> NodeBatchCheck list \<Rightarrow> NodeBatchOutcome option" where
  "runChecks g i [] = None"
| "runChecks g i (c # cs) =
     (let rev = snd (storedRevision g (ckId c))
      in if rev \<noteq> ckRevision c then Some (BatchPrecondition i (ckId c) rev) else runChecks g (Suc i) cs)"

text \<open>The judgement of one write before its statement runs.\<close>

fun writeRefusal :: "Graph \<Rightarrow> nat \<Rightarrow> NodeBatchWrite \<Rightarrow> NodeBatchOutcome option" where
  "writeRefusal g k (InsertWrite n when) =
     (if fst (storedRevision g (ln_id n)) then Some (BatchExists k (ln_id n)) else None)"
| "writeRefusal g k (CasWrite n expected mustExist when) =
     (let (there, rev) = storedRevision g (ln_id n)
      in if \<not> there \<and> mustExist \<or> rev \<noteq> expected then Some (BatchRevision k (ln_id n) rev) else None)"

fun writeMode :: "NodeBatchWrite \<Rightarrow> NodeWriteMode" where
  "writeMode (InsertWrite n when) = Conditional when 0 False"
| "writeMode (CasWrite n expected mustExist when) = Conditional when expected mustExist"

fun runWrites ::
  "NodeBatchSupersedes option \<Rightarrow> nat \<Rightarrow> NodeBatchWrite list \<Rightarrow> (string \<times> int) list \<Rightarrow> Graph \<Rightarrow> BatchAbort + (string \<times> int) list \<times> Graph" where
  "runWrites s k [] revs g = Inr (revs, g)"
| "runWrites s k (w # ws) revs g =
     (case writeRefusal g k w of
        Some out \<Rightarrow> Inl (AbortRefused out)
      | None \<Rightarrow>
          (case writeNodeSync (writeNodeOf w) (writeMode w) g of
             (Inl (RevisionConflictError i expected actual), g') \<Rightarrow> Inl (AbortRefused (BatchRevision k (writeId w) actual))
           | (Inl err, g') \<Rightarrow> Inl (AbortThrown err)
           | (Inr node, g') \<Rightarrow> runWrites s (Suc k) ws (revs @ [(writeId w, batchLandedRevision w s)]) g'))"

fun markLinks :: "NodeBatchSupersedes \<Rightarrow> nat \<Rightarrow> NodeBatchSupersedeLink list \<Rightarrow> Graph \<Rightarrow> BatchAbort + Graph" where
  "markLinks s i [] g = Inr g"
| "markLinks s i (l # ls) g =
     (if \<not> lkMark l then markLinks s (Suc i) ls g
      else case nodeRow g (lkTarget l) of
             None \<Rightarrow> Inl (AbortRefused (BatchSupersede i (lkTarget l)))
           | Some r \<Rightarrow>
               if claimable (spSuccessor s) r
               then markLinks s (Suc i) ls (updNode (lkTarget l) (supersedeClaim (spSuccessor s) (spAt s) (spReason s)) g)
               else Inl (AbortRefused (BatchSupersede i (lkTarget l))))"

definition supersedeEdge :: "iso \<Rightarrow> string \<Rightarrow> string \<Rightarrow> Graph \<Rightarrow> Graph" where
  "supersedeEdge now successor target g =
     (case edgeRow g (successor, target, ''supersedes'') of
        None \<Rightarrow> putEdge \<lparr>e_source = successor, e_target = target, e_relation = ''supersedes'', e_confidence = ''extracted'',
                         e_score = 1, e_origin = Some ''caller'', e_policyVersion = None, e_modelFingerprint = None,
                         e_createdAt = Some now, e_validTo = None\<rparr> g
      | Some e \<Rightarrow> putEdge (e\<lparr>e_validTo := None\<rparr>) g)"

definition applySupersedes :: "iso \<Rightarrow> NodeBatchSupersedes \<Rightarrow> Graph \<Rightarrow> BatchAbort + Graph" where
  "applySupersedes now s g =
     (case markLinks s 0 (spLinks s) g of
        Inl abort \<Rightarrow> Inl abort
      | Inr g1 \<Rightarrow>
          (let marks = supersedeMarkCount (Some s);
               g2 = (if marks > 0 then updNode (spSuccessor s) (bumpRevision marks) g1 else g1)
           in Inr (fold (\<lambda>l h. if lkEdge l then supersedeEdge now (spSuccessor s) (lkTarget l) h else h) (spLinks s) g2)))"

definition commitSqliteNodeBatch ::
  "iso \<Rightarrow> NodeBatchCheck list \<Rightarrow> NodeBatchWrite list \<Rightarrow> NodeBatchSupersedes option \<Rightarrow> Graph \<Rightarrow>
   (BatchError + NodeBatchOutcome) \<times> Graph" where
  "commitSqliteNodeBatch now checks writes supersedes g =
     (case assertNodeBatchShape checks writes supersedes of
        Some err \<Rightarrow> (Inl (NodeBatchInvalidError err), g)
      | None \<Rightarrow>
          (case runChecks g 0 checks of
             Some out \<Rightarrow> (Inr out, g)
           | None \<Rightarrow>
               (case runWrites supersedes 0 writes [] g of
                  Inl (AbortRefused out) \<Rightarrow> (Inr out, g)
                | Inl (AbortThrown err) \<Rightarrow> (Inl (EngineError err), g)
                | Inr (revs, g1) \<Rightarrow>
                    (case supersedes of
                       None \<Rightarrow> (Inr (BatchOk revs), g1)
                     | Some s \<Rightarrow>
                         (case applySupersedes now s g1 of
                            Inl (AbortRefused out) \<Rightarrow> (Inr out, g)
                          | Inl (AbortThrown err) \<Rightarrow> (Inl (EngineError err), g)
                          | Inr g2 \<Rightarrow> (Inr (BatchOk revs), g2))))))"

section \<open>\<open>graphShared/nodeBatchRetry.ts\<close>\<close>

definition MAX_BATCH_ATTEMPTS :: nat where
  "MAX_BATCH_ATTEMPTS = 4"

definition TRANSIENT_MAX_RETRIES :: nat where
  "TRANSIENT_MAX_RETRIES = 2"

record NodeBatchPlan =
  plChecks :: "NodeBatchCheck list"
  plWrites :: "NodeBatchWrite list"
  plSupersedes :: "NodeBatchSupersedes option"

datatype NodeBatchResult =
    ResultOk "(string \<times> int) list" nat
  | ResultRefused NodeBatchOutcome nat

datatype 'e RetryError =
    PrepareThrew 'e
  | CommitThrew BatchError
  | ConnectRefused string
  | NodeBatchContentionError nat
  | OutcomeUnknownError string

text \<open>
  The scan of \<open>settleNodeBatchUnknown\<close>: the landed writes, and the first write that shows the batch
  can no longer commit. \<open>read\<close> answers \<open>Inl\<close> when the read failed.
\<close>

fun settleScan ::
  "(string \<Rightarrow> string + LoreNode option) \<Rightarrow> NodeBatchSupersedes option \<Rightarrow> nat \<Rightarrow> NodeBatchWrite list \<Rightarrow>
   (string \<times> int) list \<Rightarrow> NodeBatchOutcome option \<Rightarrow> string + (string \<times> int) list \<times> NodeBatchOutcome option" where
  "settleScan read s i [] revs conflict = Inr (revs, conflict)"
| "settleScan read s i (w # ws) revs conflict =
     (case read (writeId w) of
        Inl err \<Rightarrow> Inl (writeId w)
      | Inr row \<Rightarrow>
          (let rev = orElse (Option.bind row ln_revision) 0
           in if (case row of None \<Rightarrow> False | Some n \<Rightarrow> ln_updatedAt n = Some (writeAt w)) \<and> rev = batchLandedRevision w s
              then settleScan read s (Suc i) ws (revs @ [(writeId w, rev)]) conflict
              else settleScan read s (Suc i) ws revs
                     (case conflict of
                        Some c \<Rightarrow> Some c
                      | None \<Rightarrow>
                          (case w of
                             InsertWrite n when \<Rightarrow> if row \<noteq> None then Some (BatchExists i (writeId w)) else None
                           | CasWrite n expected mustExist when \<Rightarrow>
                               if rev \<noteq> expected then Some (BatchRevision i (writeId w) rev) else None))))"

definition settleNodeBatchUnknown ::
  "(string \<Rightarrow> string + LoreNode option) option \<Rightarrow> NodeBatchPlan \<Rightarrow> nat \<Rightarrow> 'e RetryError + NodeBatchResult" where
  "settleNodeBatchUnknown read plan attempts =
     (let first = (case plWrites plan of [] \<Rightarrow> [] | w # ws \<Rightarrow> writeId w)
      in case read of
           None \<Rightarrow> Inl (OutcomeUnknownError first)
         | Some rd \<Rightarrow>
             (case settleScan rd (plSupersedes plan) 0 (plWrites plan) [] None of
                Inl i \<Rightarrow> Inl (OutcomeUnknownError i)
              | Inr (revs, conflict) \<Rightarrow>
                  if length revs = length (plWrites plan) then Inr (ResultOk revs attempts)
                  else if revs \<noteq> [] then Inl (OutcomeUnknownError first)
                  else case conflict of
                         Some c \<Rightarrow> Inr (ResultRefused c attempts)
                       | None \<Rightarrow> Inl (OutcomeUnknownError first)))"

function retryLoop ::
  "(nat \<Rightarrow> 's \<Rightarrow> ('e + NodeBatchPlan) \<times> 's) \<Rightarrow> (NodeBatchPlan \<Rightarrow> 's \<Rightarrow> (BatchError + NodeBatchOutcome) \<times> 's) \<Rightarrow>
   ('s \<Rightarrow> (string \<Rightarrow> string + LoreNode option) option) \<Rightarrow> nat \<Rightarrow> nat \<Rightarrow> nat \<Rightarrow> 's \<Rightarrow> ('e RetryError + NodeBatchResult) \<times> 's" where
  "retryLoop prepare commit read limit attempt refused s =
     (if attempt > limit + refused then (Inl (NodeBatchContentionError limit), s)
      else case prepare attempt s of
             (Inl err, s1) \<Rightarrow> (Inl (PrepareThrew err), s1)
           | (Inr plan, s1) \<Rightarrow>
               (case commit plan s1 of
                  (Inl err, s2) \<Rightarrow> (Inl (CommitThrew err), s2)
                | (Inr (BatchOk revs), s2) \<Rightarrow> (Inr (ResultOk revs attempt), s2)
                | (Inr (BatchRefused cause), s2) \<Rightarrow>
                    if refused \<ge> TRANSIENT_MAX_RETRIES then (Inl (ConnectRefused cause), s2)
                    else retryLoop prepare commit read limit (Suc attempt) (Suc refused) s2
                | (Inr BatchContention, s2) \<Rightarrow>
                    if attempt - refused \<ge> limit then (Inl (NodeBatchContentionError limit), s2)
                    else retryLoop prepare commit read limit (Suc attempt) refused s2
                | (Inr BatchUnknown, s2) \<Rightarrow> (settleNodeBatchUnknown (read s2) plan attempt, s2)
                | (Inr out, s2) \<Rightarrow> (Inr (ResultRefused out attempt), s2)))"
  by pat_completeness auto
termination
  by (relation "measure (\<lambda>(prepare, commit, read, limit, attempt, refused, s).
        (TRANSIENT_MAX_RETRIES - refused) + (limit + refused + 1 - attempt))") auto

declare retryLoop.simps [simp del]

definition commitNodeBatchWithRetry ::
  "(nat \<Rightarrow> 's \<Rightarrow> ('e + NodeBatchPlan) \<times> 's) \<Rightarrow> (NodeBatchPlan \<Rightarrow> 's \<Rightarrow> (BatchError + NodeBatchOutcome) \<times> 's) \<Rightarrow>
   ('s \<Rightarrow> (string \<Rightarrow> string + LoreNode option) option) \<Rightarrow> 's \<Rightarrow> ('e RetryError + NodeBatchResult) \<times> 's" where
  "commitNodeBatchWithRetry prepare commit read s = retryLoop prepare commit read MAX_BATCH_ATTEMPTS 1 0 s"

end
