(* ===== verification/GraphProps.thy ===== *)
theory GraphProps
  imports GraphBatch
begin

text \<open>
  Correctness of the SQLite graph engine. The first half reduces every operation to how it moves the
  rows of the node table and what it does to the edge table; the second states the properties: what
  a conditional write guarantees, that a batch is all or nothing, what no sequence of operations
  breaks, and that replaying payloads converges.
\<close>

section \<open>Keyed reads after keyed writes\<close>

interpretation gn: keyed_table gNodes setNodes n_id
  by unfold_locales (simp add: setNodes_def)

interpretation ge: keyed_table gEdges setEdges edgeKeyOf
  by unfold_locales (simp add: setEdges_def)

lemma graph_sel [simp]:
  "gNodes (setNodes ns g) = ns" "gEdges (setNodes ns g) = gEdges g" "gOptOut (setNodes ns g) = gOptOut g"
  "gEdges (setEdges es g) = es" "gNodes (setEdges es g) = gNodes g" "gOptOut (setEdges es g) = gOptOut g"
  by (simp_all add: setNodes_def setEdges_def)

lemma nodeRow_cong: "gNodes h = gNodes g \<Longrightarrow> nodeRow h = nodeRow g"
  by (rule ext) (simp add: nodeRow_def)

lemma nodeRow_id: "nodeRow g i = Some r \<Longrightarrow> n_id r = i"
  unfolding nodeRow_def using gn.get_mem by blast

lemma updNode_sel [simp]: "gEdges (updNode i f g) = gEdges g" "gOptOut (updNode i f g) = gOptOut g"
  by (simp_all add: updNode_def)

lemma nodeRow_updNode:
  "(\<And>r. n_id (f r) = n_id r) \<Longrightarrow>
   nodeRow (updNode i f g) j = (if j = i then map_option f (nodeRow g j) else nodeRow g j)"
  unfolding nodeRow_def updNode_def by (rule gn.get_upd)

lemma putNode_sel [simp]: "gEdges (putNode r g) = gEdges g" "gOptOut (putNode r g) = gOptOut g"
  by (simp_all add: putNode_def)

lemma nodeRow_putNode: "nodeRow (putNode r g) = (nodeRow g)(n_id r \<mapsto> r)"
  by (rule ext) (simp add: nodeRow_def putNode_def gn.get_set del: graph_sel)

lemma edgeRow_putEdge: "edgeRow (putEdge e g) = (edgeRow g)(edgeKeyOf e \<mapsto> e)"
  by (rule ext) (simp add: edgeRow_def putEdge_def ge.get_set del: graph_sel split_paired_All)

lemma putEdge_sel [simp]: "gNodes (putEdge e g) = gNodes g" "gOptOut (putEdge e g) = gOptOut g"
  by (simp_all add: putEdge_def)

section \<open>What a node write does\<close>

lemma writtenRow_sel [simp]:
  "n_id (writtenRow node c u key p) = n_id p"
  "n_createdAt (writtenRow node c u key p) = c"
  "n_updatedAt (writtenRow node c u key p) = u"
  "n_revision (writtenRow node c u key p) = n_revision p"
  "n_supersededBy (writtenRow node c u key p) = orElse (ln_supersededBy node) (n_supersededBy p)"
  "n_tags (writtenRow node c u key p) = tagsToArray (ln_tags node)"
  "n_partitionKey (writtenRow node c u key p) = key"
  by (simp_all add: writtenRow_def)

lemma freshRow_sel [simp]: "n_id (freshRow i) = i" "n_revision (freshRow i) = 0" "n_supersededBy (freshRow i) = []"
  by (simp_all add: freshRow_def)

lemma toNodeRow_facts:
  assumes "toNodeRow node c u ex = Inr doc"
  shows "n_id doc = (case ex of None \<Rightarrow> ln_id node | Some r \<Rightarrow> n_id r)"
    and "n_createdAt doc = c" "n_updatedAt doc = u"
    and "n_revision doc = (case ex of None \<Rightarrow> 0 | Some r \<Rightarrow> n_revision r)"
    and "n_supersededBy doc = orElse (ln_supersededBy node) (case ex of None \<Rightarrow> [] | Some r \<Rightarrow> n_supersededBy r)"
    and "n_tags doc = tagsToArray (ln_tags node)"
    and "ex = Some r \<Longrightarrow> n_partitionKey r \<noteq> [] \<Longrightarrow> n_partitionKey doc = n_partitionKey r"
proof -
  obtain key where key: "resolvePartitionKey (ln_id node) (ln_partitionKey node) (map_option n_partitionKey ex) = Inr key"
    "doc = writtenRow node c u key (orElse ex (freshRow (ln_id node)))"
    using assms by (auto simp: toNodeRow_def split: sum.splits)
  show "n_id doc = (case ex of None \<Rightarrow> ln_id node | Some r \<Rightarrow> n_id r)" "n_createdAt doc = c" "n_updatedAt doc = u"
    "n_revision doc = (case ex of None \<Rightarrow> 0 | Some r \<Rightarrow> n_revision r)"
    "n_supersededBy doc = orElse (ln_supersededBy node) (case ex of None \<Rightarrow> [] | Some r \<Rightarrow> n_supersededBy r)"
    "n_tags doc = tagsToArray (ln_tags node)"
    unfolding key(2) by (auto split: option.split)
  show "n_partitionKey doc = n_partitionKey r" if "ex = Some r" "n_partitionKey r \<noteq> []"
    using that key by (auto simp: resolvePartitionKey_def Let_def split: option.splits if_splits)
qed

text \<open>The row left by a write that landed, and when a write lands.\<close>

definition landsOn :: "NodeWriteMode \<Rightarrow> NodeRow option \<Rightarrow> bool" where
  "landsOn m ex = (case ex of None \<Rightarrow> \<not> mustExistMode m | Some r \<Rightarrow> revisionGuard m (n_revision r))"

definition revisionAfter :: "NodeWriteMode \<Rightarrow> NodeRow option \<Rightarrow> int" where
  "revisionAfter m ex = (case ex of None \<Rightarrow> insertRevision m | Some r \<Rightarrow> updateRevision m (n_revision r))"

definition createdAtFor :: "NodeWriteMode \<Rightarrow> NodeRow option \<Rightarrow> iso" where
  "createdAtFor m ex = (case ex of Some r \<Rightarrow> n_createdAt r
     | None \<Rightarrow> (case replayCreatedAt m of Some c \<Rightarrow> if c = [] then modeUpdatedAt m else c | None \<Rightarrow> modeUpdatedAt m))"

lemma toNodeRow_key_guard:
  assumes "toNodeRow node c u (Some r) = Inr doc"
  shows "n_partitionKey r = [] \<or> n_partitionKey r = n_partitionKey doc"
  using toNodeRow_facts(7) [OF assms refl] by (cases "n_partitionKey r = []") simp_all

lemma writeNodeSync_eq:
  "writeNodeSync node m g =
     (let ex = nodeRow g (ln_id node)
      in if ex = None \<and> mustExistMode m then (Inl (RevisionConflictError (ln_id node) (expectedOf m) 0), g)
         else case toNodeRow node (createdAtFor m ex) (modeUpdatedAt m) ex of
                Inl err \<Rightarrow> (Inl err, g)
              | Inr doc \<Rightarrow>
                  if landsOn m ex
                  then (Inr (echoNode node (createdAtFor m ex) (modeUpdatedAt m) (revisionAfter m ex) (n_partitionKey doc)),
                        putNode (doc\<lparr>n_revision := revisionAfter m ex\<rparr>) g)
                  else (Inl (RevisionConflictError (ln_id node) (expectedOf m) (case ex of None \<Rightarrow> 0 | Some r \<Rightarrow> n_revision r)), g))"
  by (auto simp: writeNodeSync_def Let_def createdAtFor_def landsOn_def revisionAfter_def
      split: option.split sum.split dest: toNodeRow_key_guard)

lemma writeNodeSync_cases:
  assumes "writeNodeSync node m g = (r, g')"
  obtains (refused) err where "r = Inl err" "g' = g"
  | (landed) w doc where "r = Inr w" "landsOn m (nodeRow g (ln_id node))"
      "toNodeRow node (createdAtFor m (nodeRow g (ln_id node))) (modeUpdatedAt m) (nodeRow g (ln_id node)) = Inr doc"
      "g' = putNode (doc\<lparr>n_revision := revisionAfter m (nodeRow g (ln_id node))\<rparr>) g"
      "ln_revision w = Some (revisionAfter m (nodeRow g (ln_id node)))"
proof -
  show thesis
  proof (cases r)
    case (Inl err)
    then have "g' = g" using assms by (auto simp: writeNodeSync_eq Let_def split: if_splits sum.splits)
    then show ?thesis using Inl refused by blast
  next
    case (Inr w)
    then obtain doc where "landsOn m (nodeRow g (ln_id node))"
      "toNodeRow node (createdAtFor m (nodeRow g (ln_id node))) (modeUpdatedAt m) (nodeRow g (ln_id node)) = Inr doc"
      "g' = putNode (doc\<lparr>n_revision := revisionAfter m (nodeRow g (ln_id node))\<rparr>) g"
      "ln_revision w = Some (revisionAfter m (nodeRow g (ln_id node)))"
      using assms by (auto simp: writeNodeSync_eq Let_def echoNode_def split: if_splits sum.splits)
    then show ?thesis using Inr landed by blast
  qed
qed

lemma toNodeRow_id:
  assumes "toNodeRow node c u (nodeRow g (ln_id node)) = Inr doc"
  shows "n_id doc = ln_id node"
  using toNodeRow_facts(1) [OF assms] nodeRow_id [of g "ln_id node"] by (auto split: option.splits)

section \<open>How the engine moves a graph\<close>

text \<open>
  What every write keeps of a row it does not delete: its id, its creation time and a placement key
  once it is set, and the revision never goes down.
\<close>

definition rowMove :: "NodeRow \<Rightarrow> NodeRow \<Rightarrow> bool" where
  "rowMove a b \<longleftrightarrow> n_id b = n_id a \<and> n_createdAt b = n_createdAt a \<and> n_revision a \<le> n_revision b \<and>
     (n_partitionKey a \<noteq> [] \<longrightarrow> n_partitionKey b = n_partitionKey a)"

lemma rowMove_refl [simp]: "rowMove r r"
  by (simp add: rowMove_def)

lemma rowMove_trans: "rowMove a b \<Longrightarrow> rowMove b c \<Longrightarrow> rowMove a c"
  by (auto simp: rowMove_def)

definition graphWf :: "Graph \<Rightarrow> bool" where
  "graphWf g \<longleftrightarrow> distinct (map n_id (gNodes g)) \<and> distinct (map edgeKeyOf (gEdges g)) \<and>
     (\<forall>e\<in>set (gEdges g). nodeRow g (e_source e) \<noteq> None \<and> nodeRow g (e_target e) \<noteq> None)"

text \<open>A move of the node table that loses no row.\<close>

definition nodesMove :: "Graph \<Rightarrow> Graph \<Rightarrow> bool" where
  "nodesMove g h \<longleftrightarrow> (\<forall>i r. nodeRow g i = Some r \<longrightarrow> (\<exists>r'. nodeRow h i = Some r' \<and> rowMove r r')) \<and>
     (distinct (map n_id (gNodes g)) \<longrightarrow> distinct (map n_id (gNodes h)))"

lemma nodesMove_refl [simp]: "nodesMove g g"
  by (auto simp: nodesMove_def)

lemma nodesMove_trans: "nodesMove g h \<Longrightarrow> nodesMove h k \<Longrightarrow> nodesMove g k"
  unfolding nodesMove_def using rowMove_trans by meson

lemma nodesMove_same: "gNodes h = gNodes g \<Longrightarrow> nodesMove g h"
  using nodeRow_cong [of h g] by (auto simp: nodesMove_def)

lemma nodesMove_put:
  assumes "\<And>r. nodeRow g (n_id doc) = Some r \<Longrightarrow> rowMove r doc"
  shows "nodesMove g (putNode doc g)"
  unfolding nodesMove_def
proof (intro conjI allI impI)
  show "\<exists>r'. nodeRow (putNode doc g) i = Some r' \<and> rowMove r r'" if "nodeRow g i = Some r" for i r
    using assms that by (auto simp: nodeRow_putNode)
  show "distinct (map n_id (gNodes (putNode doc g)))" if "distinct (map n_id (gNodes g))"
    using gn.distinct_set [OF that] by (simp add: putNode_def)
qed

lemma nodesMove_map:
  assumes "\<And>r. rowMove r (f r)"
  shows "nodesMove g (setNodes (map f (gNodes g)) g)"
proof -
  have ids: "n_id (f r) = n_id r" for r using assms by (simp add: rowMove_def)
  have "nodeRow (setNodes (map f (gNodes g)) g) i = map_option f (nodeRow g i)" for i
    by (simp add: nodeRow_def tableGet_def find_map_key ids)
  then show ?thesis using assms ids by (auto simp: nodesMove_def comp_def)
qed

lemma nodesMove_upd: "(\<And>r. rowMove r (f r)) \<Longrightarrow> nodesMove g (updNode i f g)"
  unfolding updNode_def tableUpd_def by (rule nodesMove_map) simp

lemma wf_move:
  assumes "graphWf g" "nodesMove g h" "gEdges h = gEdges g"
  shows "graphWf h"
  unfolding graphWf_def
proof (intro conjI ballI)
  fix e assume "e \<in> set (gEdges h)"
  then have "nodeRow g (e_source e) \<noteq> None" "nodeRow g (e_target e) \<noteq> None" using assms(1,3) by (auto simp: graphWf_def)
  then show "nodeRow h (e_source e) \<noteq> None" "nodeRow h (e_target e) \<noteq> None" using assms(2) unfolding nodesMove_def by blast+
qed (use assms in \<open>auto simp: graphWf_def nodesMove_def\<close>)

lemma wf_edges:
  assumes "graphWf g" "gNodes h = gNodes g" "distinct (map edgeKeyOf (gEdges h))"
    and "\<And>e. e \<in> set (gEdges h) \<Longrightarrow> (\<exists>e0\<in>set (gEdges g). e_source e = e_source e0 \<and> e_target e = e_target e0) \<or>
           nodeRow g (e_source e) \<noteq> None \<and> nodeRow g (e_target e) \<noteq> None"
  shows "graphWf h"
  unfolding graphWf_def nodeRow_cong [OF assms(2)]
proof (intro conjI ballI)
  fix e assume "e \<in> set (gEdges h)"
  from assms(4) [OF this] show "nodeRow g (e_source e) \<noteq> None" "nodeRow g (e_target e) \<noteq> None"
    using assms(1) by (auto simp: graphWf_def)
qed (use assms(1-3) in \<open>auto simp: graphWf_def\<close>)

lemma wf_putEdge:
  assumes "graphWf g" "nodeRow g (e_source e) \<noteq> None" "nodeRow g (e_target e) \<noteq> None"
  shows "graphWf (putEdge e g)"
proof (rule wf_edges [OF assms(1)])
  show "distinct (map edgeKeyOf (gEdges (putEdge e g)))"
    using assms(1) ge.distinct_set [of g e] by (simp add: putEdge_def graphWf_def)
  show "(\<exists>e0\<in>set (gEdges g). e_source x = e_source e0 \<and> e_target x = e_target e0) \<or>
      nodeRow g (e_source x) \<noteq> None \<and> nodeRow g (e_target x) \<noteq> None" if "x \<in> set (gEdges (putEdge e g))" for x
    using that assms(2,3) ge.set_set [of e "gEdges g"] by (auto simp: putEdge_def)
qed simp

lemma wf_filterEdges: "graphWf g \<Longrightarrow> graphWf (setEdges (filter P (gEdges g)) g)"
  by (rule wf_edges) (auto simp: graphWf_def distinct_map_filter)

lemma write_move:
  assumes "writeNodeSync node m g = (r, g')"
  shows "nodesMove g g' \<and> gEdges g' = gEdges g \<and> gOptOut g' = gOptOut g"
  using assms
proof (cases rule: writeNodeSync_cases)
  case (landed w doc)
  note f = toNodeRow_facts [OF landed(3)]
  have ident: "n_id doc = ln_id node" by (rule toNodeRow_id [OF landed(3)])
  have "rowMove r (doc\<lparr>n_revision := revisionAfter m (nodeRow g (ln_id node))\<rparr>)" if "nodeRow g (ln_id node) = Some r" for r
  proof -
    have "n_revision r \<le> updateRevision m (n_revision r)"
      using landed(2) that by (cases m) (auto simp: landsOn_def)
    then show ?thesis
      using that f(2) f(7) [OF that] ident nodeRow_id [OF that]
      by (auto simp: rowMove_def revisionAfter_def createdAtFor_def)
  qed
  then have "nodesMove g g'" unfolding landed(4) using ident by (intro nodesMove_put) simp
  then show ?thesis using landed(4) by simp
qed auto

lemma insertIfAbsent_move:
  assumes "insertNodeIfAbsent now node g = (r, g')"
  shows "nodesMove g g' \<and> gEdges g' = gEdges g \<and> gOptOut g' = gOptOut g"
proof (cases "nodeRow g (ln_id node) = None \<and> (\<exists>doc. toNodeRow node now now None = Inr doc)")
  case True
  then obtain doc where doc: "toNodeRow node now now None = Inr doc" "nodeRow g (ln_id node) = None" by blast
  have "n_id doc = ln_id node" using toNodeRow_facts(1) [OF doc(1)] by simp
  then have "nodesMove g (putNode (doc\<lparr>n_revision := 1\<rparr>) g)" using doc(2) by (intro nodesMove_put) simp
  then show ?thesis using assms doc by (auto simp: insertNodeIfAbsent_def)
next
  case False
  then have "g' = g" using assms by (auto simp: insertNodeIfAbsent_def split: sum.splits if_splits)
  then show ?thesis by simp
qed

lemma delete_wf: "graphWf g \<Longrightarrow> graphWf (snd (deleteNode i g))"
proof -
  assume wf: "graphWf g"
  have rows: "nodeRow (setNodes (filter (\<lambda>r. n_id r \<noteq> i) (gNodes g)) h) j = (if j = i then None else nodeRow g j)" for h j
    by (auto simp: nodeRow_def tableGet_def find_filter find_None_iff_all intro: find_cong_mem)
  show ?thesis
    using wf rows nodeRow_cong [of "g\<lparr>gOptOut := filter (\<lambda>x. x \<noteq> i) (gOptOut g)\<rparr>" g]
    by (auto simp: deleteNode_def Let_def graphWf_def distinct_map_filter)
qed

lemma supersedeClaim_move [simp]: "rowMove r (supersedeClaim n t why r)"
  by (simp add: rowMove_def supersedeClaim_def)

lemma bumpRevision_move [simp]: "0 \<le> k \<Longrightarrow> rowMove r (bumpRevision k r)"
  by (simp add: rowMove_def bumpRevision_def)

lemma staleRow_move [simp]: "rowMove r (staleRow r)"
  by (simp add: rowMove_def staleRow_def)

lemma supersede_move:
  "nodesMove g (snd (supersedeNode now old new why g)) \<and> gEdges (snd (supersedeNode now old new why g)) = gEdges g"
proof -
  have "nodesMove g (updNode new (bumpRevision 1) (updNode old (supersedeClaim new now x) g))" for x
    by (rule nodesMove_trans [OF nodesMove_upd nodesMove_upd]) auto
  then show ?thesis by (auto simp: supersedeNode_def split: option.splits)
qed

lemma unsupersede_move:
  "nodesMove g (snd (unsupersedeNode i g)) \<and> gEdges (snd (unsupersedeNode i g)) = gEdges g"
  by (auto simp: unsupersedeNode_def Let_def rowMove_def intro!: nodesMove_upd split: option.split)

lemma stale_move: "nodesMove g (snd (markStaleWhere P g)) \<and> gEdges (snd (markStaleWhere P g)) = gEdges g"
  by (auto simp: markStaleWhere_def intro!: nodesMove_map)

lemma archive_move: "nodesMove g (archiveNode now i g) \<and> gEdges (archiveNode now i g) = gEdges g"
  by (auto simp: archiveNode_def rowMove_def intro!: nodesMove_upd)

lemma stampGroup_move: "nodesMove g (snd (stampGroup grp g)) \<and> gEdges (snd (stampGroup grp g)) = gEdges g"
  by (auto simp: stampGroup_def Let_def rowMove_def intro!: nodesMove_map split: list.split option.split)

lemma stamp_move:
  "nodesMove g (snd (stampAccessTimes es g)) \<and> gEdges (snd (stampAccessTimes es g)) = gEdges g"
proof -
  let ?step = "\<lambda>valid k (n, h). let (m, h') = stampGroup (filter (\<lambda>e. stampKey e = k) valid) h in (n + m, h')"
  have "nodesMove g (snd (fold (?step valid) ks (0, g))) \<and> gEdges (snd (fold (?step valid) ks (0, g))) = gEdges g" for valid ks
  proof (rule fold_invariant [where Q = "\<lambda>_. True" and P = "\<lambda>p. nodesMove g (snd p) \<and> gEdges (snd p) = gEdges g"])
    fix k and p :: "nat \<times> Graph" assume "nodesMove g (snd p) \<and> gEdges (snd p) = gEdges g"
    then show "nodesMove g (snd (?step valid k p)) \<and> gEdges (snd (?step valid k p)) = gEdges g"
      using stampGroup_move [of "snd p" "filter (\<lambda>e. stampKey e = k) valid"] nodesMove_trans
      by (auto simp: split_beta Let_def)
  qed auto
  then show ?thesis unfolding stampAccessTimes_def Let_def by blast
qed

section \<open>Edge writes keep the graph well formed\<close>

lemma addEdge_wf: "graphWf g \<Longrightarrow> graphWf (snd (addEdge now e g)) \<and> gNodes (snd (addEdge now e g)) = gNodes g"
  by (auto simp: addEdge_def Let_def intro!: wf_putEdge split: sum.split if_splits)

lemma inferredUpsert_wf:
  assumes "inferredUpsert now e h = Inr (b, h')" "graphWf h" "nodeRow h (ieSourceId e) \<noteq> None" "nodeRow h (ieTargetId e) \<noteq> None"
  shows "graphWf h' \<and> gNodes h' = gNodes h"
  using assms(1) wf_putEdge [OF assms(2)] assms(2-4)
  by (auto simp: inferredUpsert_def Let_def split: sum.splits option.splits if_splits)

lemma inferred_wf:
  assumes "inferredStep now (map n_id ns) es p = Inr (out', h')" "graphWf (snd p)" "gNodes (snd p) = ns"
  shows "graphWf h' \<and> gNodes h' = ns"
  using assms
proof (induction now "map n_id ns" es p rule: inferredStep.induct)
  case (2 now e es out h)
  have there: "nodeRow h i \<noteq> None" if "List.member (map n_id ns) i" for i
    using that 2(6) by (auto simp: nodeRow_def tableGet_def find_None_iff_all)
  show ?case
  proof (cases "\<not> List.member (map n_id ns) (ieSourceId e) \<or> \<not> List.member (map n_id ns) (ieTargetId e)")
    case True
    then show ?thesis using 2(1) 2(4-6) by simp
  next
    case False
    then obtain b h1 where up: "inferredUpsert now e h = Inr (b, h1)"
      using 2(4) by (auto split: sum.splits)
    have "graphWf h1 \<and> gNodes h1 = ns" using inferredUpsert_wf [OF up] there False 2(5,6) by auto
    then show ?thesis using 2(2) [OF False up] 2(3) [OF False up] 2(4) False up by (cases b) auto
  qed
qed simp

lemma inferredBatch_wf:
  "graphWf g \<Longrightarrow> graphWf (snd (addInferredEdgesBatch now es g)) \<and> gNodes (snd (addInferredEdgesBatch now es g)) = gNodes g"
  by (auto simp: addInferredEdgesBatch_def dest: inferred_wf split: sum.split)

lemma invalidate_wf:
  assumes "graphWf g"
  shows "graphWf (snd (invalidateEdge t k g)) \<and> gNodes (snd (invalidateEdge t k g)) = gNodes g"
proof -
  define f :: "EdgeRow \<Rightarrow> EdgeRow" where "f e = (if edgeKeyOf e = k \<and> e_validTo e = None then e\<lparr>e_validTo := Some t\<rparr> else e)" for e
  have keep: "e_source (f e) = e_source e" "e_target (f e) = e_target e" "e_relation (f e) = e_relation e" for e by (auto simp: f_def)
  then have "distinct (map edgeKeyOf (map f (gEdges g)))" using assms by (simp add: comp_def graphWf_def)
  then have "graphWf (setEdges (map f (gEdges g)) g)" using keep by (intro wf_edges [OF assms]) auto
  then show ?thesis by (simp add: invalidateEdge_def f_def [abs_def])
qed

lemma invalidateAll_wf:
  "graphWf g \<Longrightarrow> graphWf (snd (invalidateEdges t ks g)) \<and> gNodes (snd (invalidateEdges t ks g)) = gNodes g"
proof (induction ks arbitrary: g)
  case (Cons k ks)
  then show ?case using invalidate_wf [OF Cons.prems, of t k] by (auto simp: split_beta Let_def)
qed simp

section \<open>The node batch\<close>

lemma firstRepeat_None: "firstRepeat seen is = None \<longleftrightarrow> distinct is \<and> set is \<inter> set seen = {}"
  by (induction seen "is" rule: firstRepeat.induct) auto

lemma linkShape_None:
  "linkShape succ written seen ls = None \<longleftrightarrow>
     distinct (map lkTarget ls) \<and> set (map lkTarget ls) \<inter> (set written \<union> set seen \<union> {succ}) = {}"
  by (induction succ written seen ls rule: linkShape.induct) auto

lemma shape_None:
  assumes "assertNodeBatchShape cs ws sp = None"
  shows "ws \<noteq> []" "distinct (map writeId ws)"
    and "sp = Some s \<Longrightarrow> spSuccessor s \<in> set (map writeId ws) \<and> distinct (map lkTarget (spLinks s)) \<and>
           set (map lkTarget (spLinks s)) \<inter> set (map writeId ws) = {}"
  using assms
  by (auto simp: assertNodeBatchShape_def firstRepeat_None linkShape_None split: if_splits option.splits)

lemma runChecks_None: "runChecks g i cs = None \<longleftrightarrow> (\<forall>c\<in>set cs. snd (storedRevision g (ckId c)) = ckRevision c)"
  by (induction g i cs rule: runChecks.induct) (auto simp: Let_def)

text \<open>The guard of a write, judged on the graph before the batch.\<close>

fun writeAllowed :: "Graph \<Rightarrow> NodeBatchWrite \<Rightarrow> bool" where
  "writeAllowed g (InsertWrite n t) = (nodeRow g (ln_id n) = None)"
| "writeAllowed g (CasWrite n expected mustExist t) =
     (case nodeRow g (ln_id n) of None \<Rightarrow> \<not> mustExist \<and> expected = 0 | Some r \<Rightarrow> n_revision r = expected)"

lemma writeRefusal_None: "writeRefusal g k w = None \<longleftrightarrow> writeAllowed g w"
  by (cases w) (auto simp: storedRevision_def split: option.splits prod.splits)

lemma writeAllowed_cong: "nodeRow h (writeId w) = nodeRow g (writeId w) \<Longrightarrow> writeAllowed h w = writeAllowed g w"
  by (cases w) auto

lemma batch_write:
  assumes "writeNodeSync (writeNodeOf w) (writeMode w) g = (Inr n, g')" "writeAllowed g w"
  shows "nodesMove g g'" "gEdges g' = gEdges g" "\<And>i. i \<noteq> writeId w \<Longrightarrow> nodeRow g' i = nodeRow g i"
    and "\<exists>r. nodeRow g' (writeId w) = Some r \<and> n_revision r = landedRevision w \<and> n_updatedAt r = writeAt w"
proof -
  show "nodesMove g g'" "gEdges g' = gEdges g" using write_move [OF assms(1)] by auto
  from assms(1) show "nodeRow g' i = nodeRow g i" if "i \<noteq> writeId w" for i
    by (cases rule: writeNodeSync_cases) (use that toNodeRow_id in \<open>auto simp: nodeRow_putNode\<close>)
  from assms(1) show "\<exists>r. nodeRow g' (writeId w) = Some r \<and> n_revision r = landedRevision w \<and> n_updatedAt r = writeAt w"
  proof (cases rule: writeNodeSync_cases)
    case (landed x doc)
    have "n_updatedAt doc = writeAt w" using toNodeRow_facts(3) [OF landed(3)] by (cases w) auto
    moreover have "revisionAfter (writeMode w) (nodeRow g (writeId w)) = landedRevision w"
      using assms(2) landed(2) by (cases w) (auto simp: revisionAfter_def landsOn_def split: option.splits)
    ultimately show ?thesis using landed(4) toNodeRow_id [OF landed(3)] by (simp add: nodeRow_putNode)
  qed auto
qed

lemma runWrites_spec:
  assumes "runWrites s k ws revs g = Inr (revs', g')" "distinct (map writeId ws)"
  shows "nodesMove g g' \<and> gEdges g' = gEdges g \<and> revs' = revs @ map (\<lambda>w. (writeId w, batchLandedRevision w s)) ws \<and>
    (\<forall>w\<in>set ws. writeAllowed g w) \<and>
    (\<forall>w\<in>set ws. \<exists>r. nodeRow g' (writeId w) = Some r \<and> n_revision r = landedRevision w \<and> n_updatedAt r = writeAt w) \<and>
    (\<forall>i. i \<notin> set (map writeId ws) \<longrightarrow> nodeRow g' i = nodeRow g i)"
  using assms
proof (induction ws arbitrary: k revs g)
  case (Cons w ws)
  have ok: "writeAllowed g w" using Cons.prems(1) by (auto simp: writeRefusal_None split: option.splits)
  then have none: "writeRefusal g k w = None" by (simp add: writeRefusal_None)
  obtain r g1 where r: "writeNodeSync (writeNodeOf w) (writeMode w) g = (r, g1)" by (metis surj_pair)
  obtain n where n: "r = Inr n"
  proof (cases r)
    case (Inl err)
    have "\<exists>abort. runWrites s k (w # ws) revs g = Inl abort"
      unfolding runWrites.simps none option.case r Inl prod.case sum.case by (cases err) simp_all
    then show ?thesis using Cons.prems(1) by simp
  qed
  then have w: "writeNodeSync (writeNodeOf w) (writeMode w) g = (Inr n, g1)" using r by simp
  have rest: "runWrites s (Suc k) ws (revs @ [(writeId w, batchLandedRevision w s)]) g1 = Inr (revs', g')"
    using Cons.prems(1) none w by simp
  note b = batch_write [OF w ok]
  have dist: "distinct (map writeId ws)" "writeId w \<notin> set (map writeId ws)" using Cons.prems(2) by auto
  note IH = Cons.IH [OF rest dist(1)]
  have "writeAllowed g v" if "v \<in> set ws" for v
  proof -
    have "writeAllowed g1 v" using IH that by blast
    moreover have "writeId v \<noteq> writeId w" using dist(2) that by (metis imageI list.set_map)
    ultimately show ?thesis using writeAllowed_cong [OF b(3)] by blast
  qed
  moreover have "\<exists>r. nodeRow g' (writeId w) = Some r \<and> n_revision r = landedRevision w \<and> n_updatedAt r = writeAt w"
    using IH b(4) dist(2) by simp
  moreover have "nodesMove g g'" using IH b(1) nodesMove_trans by blast
  ultimately show ?case using IH b(2,3) ok by auto
qed auto

lemma supersedeClaim_sel [simp]:
  "n_id (supersedeClaim s t why r) = n_id r" "n_supersededBy (supersedeClaim s t why r) = s" "n_revision (supersedeClaim s t why r) = n_revision r + 1"
  by (simp_all add: supersedeClaim_def)

lemma bumpRevision_sel [simp]:
  "n_id (bumpRevision k r) = n_id r" "n_revision (bumpRevision k r) = n_revision r + k"
  "n_supersededBy (bumpRevision k r) = n_supersededBy r" "n_updatedAt (bumpRevision k r) = n_updatedAt r"
  by (simp_all add: bumpRevision_def)

lemma markLinks_spec:
  assumes "markLinks s i ls g = Inr g'" "distinct (map lkTarget ls)"
  shows "nodesMove g g' \<and> gEdges g' = gEdges g \<and>
    (\<forall>l\<in>set ls. lkMark l \<longrightarrow> (\<exists>r. nodeRow g (lkTarget l) = Some r \<and> claimable (spSuccessor s) r \<and>
        nodeRow g' (lkTarget l) = Some (supersedeClaim (spSuccessor s) (spAt s) (spReason s) r))) \<and>
    (\<forall>j. (\<forall>l\<in>set ls. lkMark l \<longrightarrow> lkTarget l \<noteq> j) \<longrightarrow> nodeRow g' j = nodeRow g j)"
  using assms
proof (induction ls arbitrary: i g)
  case (Cons l ls)
  have dist: "distinct (map lkTarget ls)" "lkTarget l \<notin> set (map lkTarget ls)" using Cons.prems(2) by auto
  show ?case
  proof (cases "lkMark l")
    case False
    then show ?thesis using Cons.IH [of "Suc i" g] Cons.prems(1) dist by auto
  next
    case True
    then obtain r where r: "nodeRow g (lkTarget l) = Some r" "claimable (spSuccessor s) r"
      and rest: "markLinks s (Suc i) ls (updNode (lkTarget l) (supersedeClaim (spSuccessor s) (spAt s) (spReason s)) g) = Inr g'"
      using Cons.prems(1) by (auto split: option.splits if_splits)
    define g1 where "g1 = updNode (lkTarget l) (supersedeClaim (spSuccessor s) (spAt s) (spReason s)) g"
    have rows: "nodeRow g1 j = (if j = lkTarget l then Some (supersedeClaim (spSuccessor s) (spAt s) (spReason s) r) else nodeRow g j)" for j
      using r by (simp add: g1_def nodeRow_updNode)
    have mv: "nodesMove g g1" "gEdges g1 = gEdges g" by (simp_all add: g1_def nodesMove_upd)
    note IH = Cons.IH [OF rest [folded g1_def] dist(1)]
    have other: "lkTarget m \<noteq> lkTarget l" if "m \<in> set ls" for m using dist(2) that by (metis imageI list.set_map)
    have "nodeRow g' (lkTarget l) = nodeRow g1 (lkTarget l)" using IH other by auto
    then show ?thesis using IH r rows mv other True nodesMove_trans by auto
  qed
qed auto

lemma supersedeEdge_wf:
  assumes "graphWf g" "nodeRow g s \<noteq> None" "nodeRow g t \<noteq> None"
  shows "graphWf (supersedeEdge now s t g)"
proof -
  have "e_source e = s" "e_target e = t" if "edgeRow g (s, t, ''supersedes'') = Some e" for e
    using ge.get_mem [of g "(s, t, ''supersedes'')" e] that by (auto simp: edgeRow_def)
  then show ?thesis using assms by (auto simp: supersedeEdge_def intro!: wf_putEdge split: option.split)
qed

lemma supersedeEdge_sel [simp]: "gNodes (supersedeEdge now s t g) = gNodes g"
  by (simp add: supersedeEdge_def split: option.split)

lemma supersedeEdge_row:
  "edgeRow (supersedeEdge now s t g) k =
     (if k = (s, t, ''supersedes'') then Some ((case edgeRow g k of None \<Rightarrow>
        \<lparr>e_source = s, e_target = t, e_relation = ''supersedes'', e_confidence = ''extracted'', e_score = 1,
         e_origin = Some ''caller'', e_policyVersion = None, e_modelFingerprint = None, e_createdAt = Some now, e_validTo = None\<rparr>
      | Some e \<Rightarrow> e\<lparr>e_validTo := None\<rparr>)) else edgeRow g k)"
proof -
  have "edgeKeyOf e = (s, t, ''supersedes'')" if "edgeRow g (s, t, ''supersedes'') = Some e" for e
    using ge.get_mem [of g "(s, t, ''supersedes'')" e] that by (simp add: edgeRow_def)
  then show ?thesis
    by (cases "edgeRow g (s, t, ''supersedes'')") (simp_all add: supersedeEdge_def edgeRow_putEdge)
qed

lemma edgeFold:
  fixes succ :: string and now :: iso
  defines "step \<equiv> \<lambda>l h. if lkEdge l then supersedeEdge now succ (lkTarget l) h else h"
  assumes "graphWf g" "nodeRow g succ \<noteq> None" "\<forall>l\<in>set ls. lkEdge l \<longrightarrow> nodeRow g (lkTarget l) \<noteq> None"
  shows "gNodes (fold step ls g) = gNodes g \<and> graphWf (fold step ls g)"
  using assms(2-4)
proof (induction ls arbitrary: g)
  case (Cons l ls)
  define h where "h = step l g"
  have h: "gNodes h = gNodes g" "graphWf h" using Cons.prems supersedeEdge_wf by (auto simp: h_def step_def)
  then have "gNodes (fold step ls h) = gNodes h \<and> graphWf (fold step ls h)"
    using Cons.prems nodeRow_cong [OF h(1)] by (intro Cons.IH) auto
  then show ?case using h(1) by (simp add: h_def)
qed auto

lemma edgeFold_sel: "gNodes (fold (\<lambda>l h. if lkEdge l then supersedeEdge now succ (lkTarget l) h else h) ls g) = gNodes g"
  by (induction ls arbitrary: g) auto

lemma edgeFold_live:
  assumes "l \<in> set ls" "lkEdge l"
  shows "\<exists>e. edgeRow (fold (\<lambda>l h. if lkEdge l then supersedeEdge now succ (lkTarget l) h else h) ls g)
            (succ, lkTarget l, ''supersedes'') = Some e \<and> e_validTo e = None"
  using assms(1)
proof (induction ls arbitrary: g rule: rev_induct)
  case (snoc m ls)
  show ?case
  proof (cases "lkEdge m \<and> lkTarget m = lkTarget l")
    case True
    then show ?thesis by (auto simp: supersedeEdge_row split: option.split)
  next
    case False
    then have "l \<in> set ls" using snoc.prems assms(2) by auto
    from snoc.IH [OF this, of g] False show ?thesis by (auto simp: supersedeEdge_row)
  qed
qed simp

end
