(* ===== verification/GraphSafety.thy ===== *)
theory GraphSafety
  imports GraphProps
begin

text \<open>
  The properties of the SQLite graph engine: a committed batch is all or nothing, a conditional write
  cannot overwrite a newer one, no sequence of operations breaks the tables or moves a node back,
  replayed payloads converge, supersession stays acyclic, and the retry around a batch ends.
\<close>

section \<open>The node batch, whole\<close>

text \<open>The whole batch, when it commits.\<close>

definition markedBy :: "NodeBatchSupersedes option \<Rightarrow> string \<Rightarrow> bool" where
  "markedBy sp i \<longleftrightarrow> (\<exists>s l. sp = Some s \<and> l \<in> set (spLinks s) \<and> lkMark l \<and> lkTarget l = i)"

lemma applySupersedes_spec:
  assumes "applySupersedes now s g = Inr g'" "distinct (map lkTarget (spLinks s))"
    and "spSuccessor s \<notin> set (map lkTarget (spLinks s))"
  shows "nodesMove g g'"
    and "\<And>l. l \<in> set (spLinks s) \<Longrightarrow> lkMark l \<Longrightarrow> \<exists>r. nodeRow g (lkTarget l) = Some r \<and> claimable (spSuccessor s) r \<and>
           nodeRow g' (lkTarget l) = Some (supersedeClaim (spSuccessor s) (spAt s) (spReason s) r)"
    and "\<And>l. l \<in> set (spLinks s) \<Longrightarrow> lkEdge l \<Longrightarrow> \<exists>e. edgeRow g' (spSuccessor s, lkTarget l, ''supersedes'') = Some e \<and> e_validTo e = None"
    and "nodeRow g' (spSuccessor s) = map_option (bumpRevision (supersedeMarkCount (Some s))) (nodeRow g (spSuccessor s))"
    and "\<And>j. \<not> markedBy (Some s) j \<Longrightarrow> j \<noteq> spSuccessor s \<Longrightarrow> nodeRow g' j = nodeRow g j"
proof -
  let ?step = "\<lambda>l h. if lkEdge l then supersedeEdge now (spSuccessor s) (lkTarget l) h else h"
  obtain g1 where m: "markLinks s 0 (spLinks s) g = Inr g1"
    using assms(1) by (auto simp: applySupersedes_def split: sum.splits)
  define marks where "marks = supersedeMarkCount (Some s)"
  have nonneg: "0 \<le> marks" by (simp add: marks_def supersedeMarkCount_def)
  define g2 where "g2 = (if marks > 0 then updNode (spSuccessor s) (bumpRevision marks) g1 else g1)"
  have g': "g' = fold ?step (spLinks s) g2"
    using assms(1) unfolding applySupersedes_def m sum.case Let_def g2_def marks_def by blast
  have rows: "nodeRow g' = nodeRow g2" unfolding g' by (rule nodeRow_cong) (rule edgeFold_sel)
  have bump0: "bumpRevision 0 r = r" for r by (simp add: bumpRevision_def)
  have rows2: "nodeRow g2 j = (if j = spSuccessor s then map_option (bumpRevision marks) (nodeRow g1 j) else nodeRow g1 j)" for j
  proof (cases "marks > 0")
    case False
    then have "marks = 0" using nonneg by simp
    then show ?thesis by (cases "nodeRow g1 j") (auto simp: g2_def bump0)
  qed (simp add: g2_def nodeRow_updNode)
  note sp = markLinks_spec [OF m assms(2)]
  have succ: "nodeRow g1 (spSuccessor s) = nodeRow g (spSuccessor s)" using sp assms(3) by (metis imageI list.set_map)
  have "nodesMove g1 g2" using nonneg by (auto simp: g2_def intro!: nodesMove_upd)
  moreover have "nodesMove g2 g'" unfolding g' by (rule nodesMove_same) (rule edgeFold_sel)
  ultimately show "nodesMove g g'" using sp nodesMove_trans by blast
  show "\<exists>r. nodeRow g (lkTarget l) = Some r \<and> claimable (spSuccessor s) r \<and>
      nodeRow g' (lkTarget l) = Some (supersedeClaim (spSuccessor s) (spAt s) (spReason s) r)" if "l \<in> set (spLinks s)" "lkMark l" for l
  proof -
    have "lkTarget l \<noteq> spSuccessor s" using assms(3) that(1) by (metis imageI list.set_map)
    then show ?thesis using sp that rows rows2 by auto
  qed
  show "\<exists>e. edgeRow g' (spSuccessor s, lkTarget l, ''supersedes'') = Some e \<and> e_validTo e = None"
    if "l \<in> set (spLinks s)" "lkEdge l" for l
    unfolding g' by (rule edgeFold_live [OF that])
  show "nodeRow g' (spSuccessor s) = map_option (bumpRevision (supersedeMarkCount (Some s))) (nodeRow g (spSuccessor s))"
    using rows rows2 succ by (simp add: marks_def)
  show "nodeRow g' j = nodeRow g j" if "\<not> markedBy (Some s) j" "j \<noteq> spSuccessor s" for j
    using sp that rows rows2 by (auto simp: markedBy_def)
qed

lemma commit_cases:
  assumes "commitSqliteNodeBatch now cs ws sp g = (r, g')"
  obtains (aborted) "g' = g" "\<nexists>revs. r = Inr (BatchOk revs)"
  | (committed) revs g1 where "r = Inr (BatchOk revs)" "assertNodeBatchShape cs ws sp = None" "runChecks g 0 cs = None"
      "runWrites sp 0 ws [] g = Inr (revs, g1)" "sp = None \<Longrightarrow> g' = g1"
      "\<And>s. sp = Some s \<Longrightarrow> applySupersedes now s g1 = Inr g'"
proof -
  have markAbort: "\<exists>k i. ab = AbortRefused (BatchSupersede k i)" if "markLinks s n ls h = Inl ab" for s n ls h ab
    using that by (induction s n ls h rule: markLinks.induct) (auto split: if_splits option.splits)
  have noOk: "writeRefusal h k w \<noteq> Some (BatchOk revs)" for h k w revs
    by (cases w) (auto simp: split_beta)
  have writesAbort: "ab \<noteq> AbortRefused (BatchOk revs)" if "runWrites s k vs rs h = Inl ab" for s k vs rs h ab revs
    using that
  proof (induction s k vs rs h rule: runWrites.induct)
    case (2 s k w ws rs h)
    show ?case
    proof (cases "writeRefusal h k w")
      case (Some out)
      then show ?thesis using 2(2) noOk by auto
    next
      case None
      obtain x h1 where x: "writeNodeSync (writeNodeOf w) (writeMode w) h = (x, h1)" by (metis surj_pair)
      show ?thesis
      proof (cases x)
        case (Inl err)
        then show ?thesis using 2(2) unfolding runWrites.simps None option.case x Inl prod.case sum.case by (cases err) auto
      next
        case (Inr n)
        then show ?thesis using 2(1) [OF None x [symmetric] Inr] 2(2) None x by simp
      qed
    qed
  qed simp
  have checksNo: "runChecks h k ds \<noteq> Some (BatchOk revs)" for h k ds revs
    by (induction h k ds rule: runChecks.induct) (auto simp: Let_def)
  have supAbort: "ab \<noteq> AbortRefused (BatchOk revs)" if "applySupersedes now s h = Inl ab" for s h ab revs
  proof (cases "markLinks s 0 (spLinks s) h")
    case (Inl b)
    then show ?thesis using that markAbort [OF Inl] by (auto simp: applySupersedes_def)
  next
    case (Inr h1)
    then show ?thesis using that by (simp add: applySupersedes_def Let_def)
  qed
  have noW: "runWrites s k vs rs h \<noteq> Inl (AbortRefused (BatchOk revs))" for s k vs rs h revs using writesAbort by blast
  have noS: "applySupersedes now s h \<noteq> Inl (AbortRefused (BatchOk revs))" for s h revs using supAbort by blast
  show thesis
  proof (cases "\<exists>revs. r = Inr (BatchOk revs)")
    case True
    then show ?thesis
      using assms committed checksNo noW noS
      by (auto simp: commitSqliteNodeBatch_def split: option.splits sum.splits BatchAbort.splits)
  next
    case False
    then have "g' = g" using assms by (auto simp: commitSqliteNodeBatch_def split: option.splits sum.splits BatchAbort.splits)
    then show ?thesis using False aborted by blast
  qed
qed

lemma markedBy_None [simp]: "\<not> markedBy None i"
  by (simp add: markedBy_def)

lemma batchLanded_None [simp]: "batchLandedRevision w None = landedRevision w"
  by (simp add: batchLandedRevision_def)

definition batchLanded :: "NodeBatchCheck list \<Rightarrow> NodeBatchWrite list \<Rightarrow> NodeBatchSupersedes option \<Rightarrow> Graph \<Rightarrow> Graph \<Rightarrow> bool" where
  "batchLanded cs ws sp g g' \<longleftrightarrow>
     (\<forall>c\<in>set cs. snd (storedRevision g (ckId c)) = ckRevision c) \<and> (\<forall>w\<in>set ws. writeAllowed g w) \<and>
     (\<forall>w\<in>set ws. \<exists>row. nodeRow g' (writeId w) = Some row \<and> n_revision row = batchLandedRevision w sp \<and> n_updatedAt row = writeAt w) \<and>
     (\<forall>s. sp = Some s \<longrightarrow> (\<forall>l\<in>set (spLinks s).
        (lkMark l \<longrightarrow> (\<exists>row row'. nodeRow g (lkTarget l) = Some row \<and> claimable (spSuccessor s) row \<and>
                        nodeRow g' (lkTarget l) = Some row' \<and> n_supersededBy row' = spSuccessor s)) \<and>
        (lkEdge l \<longrightarrow> (\<exists>e. edgeRow g' (spSuccessor s, lkTarget l, ''supersedes'') = Some e \<and> e_validTo e = None)))) \<and>
     (\<forall>i. i \<notin> set (map writeId ws) \<longrightarrow> \<not> markedBy sp i \<longrightarrow> nodeRow g' i = nodeRow g i) \<and> nodesMove g g'"

lemma commit_landed:
  assumes shape: "assertNodeBatchShape cs ws sp = None" and chk: "runChecks g 0 cs = None"
    and run: "runWrites sp 0 ws [] g = Inr (revs, g1)"
    and none: "sp = None \<Longrightarrow> g' = g1" and some: "\<And>s. sp = Some s \<Longrightarrow> applySupersedes now s g1 = Inr g'"
  shows "batchLanded cs ws sp g g' \<and> revs = map (\<lambda>w. (writeId w, batchLandedRevision w sp)) ws"
proof -
  note sh = shape_None [OF shape]
  note w = runWrites_spec [OF run sh(2)]
  have chk': "\<forall>c\<in>set cs. snd (storedRevision g (ckId c)) = ckRevision c" using chk by (simp add: runChecks_None)
  show ?thesis
  proof (cases sp)
    case None
    then show ?thesis using w chk' none unfolding batchLanded_def by simp
  next
    case (Some s)
    have dis: "distinct (map lkTarget (spLinks s))" "set (map lkTarget (spLinks s)) \<inter> set (map writeId ws) = {}"
      "spSuccessor s \<in> set (map writeId ws)" using sh(3) [OF Some] by auto
    then have succ: "spSuccessor s \<notin> set (map lkTarget (spLinks s))" by blast
    note a = applySupersedes_spec [OF some [OF Some] dis(1) succ]
    have notMarked: "\<not> markedBy (Some s) i" if "i \<in> set (map writeId ws)" for i
      using that dis(2) unfolding markedBy_def by (metis disjoint_iff imageI list.set_map option.inject)
    have tgt: "nodeRow g1 (lkTarget l) = nodeRow g (lkTarget l)" if "l \<in> set (spLinks s)" for l
    proof -
      have "lkTarget l \<notin> set (map writeId ws)" using that dis(2) by (metis disjoint_iff imageI list.set_map)
      then show ?thesis using w by blast
    qed
    have landed: "\<exists>row. nodeRow g' (writeId v) = Some row \<and> n_revision row = batchLandedRevision v sp \<and> n_updatedAt row = writeAt v"
      if v: "v \<in> set ws" for v
    proof -
      obtain row where row: "nodeRow g1 (writeId v) = Some row" "n_revision row = landedRevision v" "n_updatedAt row = writeAt v"
        using w v by blast
      show ?thesis
      proof (cases "writeId v = spSuccessor s")
        case True
        then show ?thesis using a(4) row Some by (simp add: batchLandedRevision_def)
      next
        case False
        moreover have "\<not> markedBy (Some s) (writeId v)" using notMarked v by simp
        ultimately show ?thesis using a(5) row Some by (simp add: batchLandedRevision_def)
      qed
    qed
    have other: "nodeRow g' i = nodeRow g i" if "i \<notin> set (map writeId ws)" "\<not> markedBy sp i" for i
      using that w a(5) [of i] dis(3) Some by metis
    have marks: "\<exists>row row'. nodeRow g (lkTarget l) = Some row \<and> claimable (spSuccessor s) row \<and>
        nodeRow g' (lkTarget l) = Some row' \<and> n_supersededBy row' = spSuccessor s" if "l \<in> set (spLinks s)" "lkMark l" for l
      using a(2) [OF that] tgt [OF that(1)] by auto
    have "nodesMove g g'" using w a(1) nodesMove_trans by blast
    then show ?thesis
      unfolding batchLanded_def using w chk' landed other marks a(3) Some by simp
  qed
qed

text \<open>C6: a node batch is all or nothing. When the commit answers ok, every read of the batch's check list
  still held, every write's own guard held on the graph before the batch, each written node now stands at
  the revision the batch reports and carries the write's timestamp, each marked target was free (or already
  the successor's) and now names the successor, each requested \<open>supersedes\<close> edge is live, and no other node
  moved. On any other answer (a refusal, an invalid shape, an engine error) the graph is unchanged.\<close>

theorem node_batch_atomic:
  assumes "commitSqliteNodeBatch now cs ws sp g = (r, g')"
  shows "(r = Inr (BatchOk (map (\<lambda>w. (writeId w, batchLandedRevision w sp)) ws)) \<and> batchLanded cs ws sp g g') \<or>
         ((\<nexists>revs. r = Inr (BatchOk revs)) \<and> g' = g)"
  using assms
proof (cases rule: commit_cases)
  case (committed revs g1)
  then show ?thesis using commit_landed [OF committed(2-4,5,6)] by blast
qed simp

section \<open>Sequences of operations\<close>

text \<open>
  One call on the engine; the label is the node the call deleted, if any. A restore
  (\<^const>\<open>importRaw\<close>) is not a step: it writes the rows of an export as they are, revisions and edges
  included. A batch step links only nodes that exist, as its planner does.
\<close>

inductive graph_step :: "string option \<Rightarrow> Graph \<Rightarrow> Graph \<Rightarrow> bool" where
  step_upsert: "graph_step None g (snd (upsertNode now n g))"
| step_keep: "graph_step None g (snd (upsertNodeKeepRevision now n g))"
| step_at: "graph_step None g (snd (upsertNodeAtRevision n expected t mustExist g))"
| step_replay: "graph_step None g (snd (replayNodeAtRevision now n g))"
| step_insert: "graph_step None g (snd (insertNodeIfAbsent now n g))"
| step_bulk: "graph_step None g (snd (bulkUpsertNodes now ns g))"
| step_delete: "graph_step (Some i) g (snd (deleteNode i g))"
| step_addEdge: "graph_step None g (snd (addEdge now e g))"
| step_addBoth: "graph_step None g (snd (addBidirectionalEdge now e g))"
| step_deleteEdge: "graph_step None g (snd (deleteEdge s t rel g))"
| step_prune: "graph_step None g (snd (pruneInferredLoreEdges prefix g))"
| step_inferred: "graph_step None g (snd (addInferredEdgesBatch now ies g))"
| step_invalidate: "graph_step None g (snd (invalidateEdges t ks g))"
| step_optOut: "graph_step None g (setLinkOptOuts ids optOut g)"
| step_supersede: "graph_step None g (snd (supersedeNode now old new why g))"
| step_unsupersede: "graph_step None g (snd (unsupersedeNode i g))"
| step_staleTags: "graph_step None g (snd (markStaleByTags tags g))"
| step_staleIds: "graph_step None g (snd (markStaleByIds ids g))"
| step_archive: "graph_step None g (archiveNode now i g)"
| step_stamp: "graph_step None g (snd (stampAccessTimes stamps g))"
| step_batch: "(\<forall>s l. sp = Some s \<longrightarrow> l \<in> set (spLinks s) \<longrightarrow> lkEdge l \<longrightarrow> nodeRow g (lkTarget l) \<noteq> None) \<Longrightarrow>
    graph_step None g (snd (commitSqliteNodeBatch now cs ws sp g))"

inductive graph_run :: "string set \<Rightarrow> Graph \<Rightarrow> Graph \<Rightarrow> bool" where
  run_refl: "graph_run {} g g"
| run_step: "graph_run D g h \<Longrightarrow> graph_step d h k \<Longrightarrow> graph_run (D \<union> set_option d) g k"

text \<open>Every operation that deletes nothing moves the node table forward and keeps the graph well formed.\<close>

definition keeps :: "Graph \<Rightarrow> Graph \<Rightarrow> bool" where
  "keeps g h \<longleftrightarrow> (graphWf g \<longrightarrow> nodesMove g h \<and> graphWf h)"

lemma keeps_refl [simp]: "keeps g g"
  by (simp add: keeps_def)

lemma keeps_trans: "keeps g h \<Longrightarrow> keeps h k \<Longrightarrow> keeps g k"
  unfolding keeps_def using nodesMove_trans by blast

lemma keeps_nodes: "nodesMove g h \<and> gEdges h = gEdges g \<Longrightarrow> keeps g h"
  unfolding keeps_def using wf_move by blast

lemma keeps_edges: "(graphWf g \<Longrightarrow> graphWf h \<and> gNodes h = gNodes g) \<Longrightarrow> keeps g h"
  unfolding keeps_def using nodesMove_same by blast

lemma keeps_write: "keeps g (snd (writeNodeSync node m g))"
  using write_move [of node m g] by (metis keeps_nodes prod.collapse)

lemma keeps_bulk: "keeps g (snd (bulkUpsertNodes now ns g))"
proof -
  define f where "f = (\<lambda>node (out, h). case upsertNode now node h of
      (Inr w, h') \<Rightarrow> (out @ [(ln_id node, None)], h') | (Inl err, h') \<Rightarrow> (out @ [(ln_id node, Some err)], h'))"
  have step: "snd (f node p) = snd (upsertNode now node (snd p))" for node p
    by (auto simp: f_def split_beta split: sum.split)
  have "keeps g (snd (fold f ns ([], g)))"
    by (rule fold_invariant [where Q = "\<lambda>_. True" and P = "\<lambda>p. keeps g (snd p)"])
      (auto simp: step upsertNode_def intro: keeps_trans [OF _ keeps_write])
  then show ?thesis unfolding bulkUpsertNodes_def f_def .
qed

lemma keeps_addEdge: "keeps g (snd (addEdge now e g))"
  by (rule keeps_edges) (rule addEdge_wf)

lemma keeps_addBoth: "keeps g (snd (addBidirectionalEdge now e g))"
proof -
  obtain r h where r: "addEdge now e g = (r, h)" by (metis surj_pair)
  then have "keeps g h" using keeps_addEdge [of g now e] by simp
  then show ?thesis using r keeps_trans [OF _ keeps_addEdge] by (auto simp: addBidirectionalEdge_def split: sum.split)
qed

lemma keeps_optOut: "keeps g (setLinkOptOuts ids b g)"
proof -
  have same: "gNodes (setLinkOptOuts ids b g) = gNodes g" "gEdges (setLinkOptOuts ids b g) = gEdges g"
    by (simp_all add: setLinkOptOuts_def)
  then show ?thesis using nodesMove_same keeps_nodes by blast
qed

lemma keeps_batch:
  assumes "\<forall>s l. sp = Some s \<longrightarrow> l \<in> set (spLinks s) \<longrightarrow> lkEdge l \<longrightarrow> nodeRow g (lkTarget l) \<noteq> None"
  shows "keeps g (snd (commitSqliteNodeBatch now cs ws sp g))"
proof -
  obtain r g' where c: "commitSqliteNodeBatch now cs ws sp g = (r, g')" by (metis surj_pair)
  from c have "keeps g g'"
  proof (cases rule: commit_cases)
    case (committed revs g1)
    note sh = shape_None [OF committed(2)]
    note w = runWrites_spec [OF committed(4) sh(2)]
    then have k1: "keeps g g1" by (intro keeps_nodes) auto
    show ?thesis
    proof (cases sp)
      case (Some s)
      obtain g0 where m: "markLinks s 0 (spLinks s) g1 = Inr g0"
        using committed(6) [OF Some] by (auto simp: applySupersedes_def split: sum.splits)
      define g2 where "g2 = (if supersedeMarkCount (Some s) > 0 then updNode (spSuccessor s) (bumpRevision (supersedeMarkCount (Some s))) g0 else g0)"
      have g': "g' = fold (\<lambda>l h. if lkEdge l then supersedeEdge now (spSuccessor s) (lkTarget l) h else h) (spLinks s) g2"
        using committed(6) [OF Some] unfolding applySupersedes_def m sum.case Let_def g2_def by blast
      have dis: "distinct (map lkTarget (spLinks s))" "spSuccessor s \<in> set (map writeId ws)" using sh(3) [OF Some] by auto
      have "keeps g1 g0" using markLinks_spec [OF m dis(1)] by (intro keeps_nodes) auto
      moreover have "keeps g0 g2" by (rule keeps_nodes) (auto simp: g2_def intro!: nodesMove_upd)
      ultimately have k2: "keeps g g2" using k1 keeps_trans by blast
      have "graphWf g' \<and> nodesMove g g'" if wf: "graphWf g"
      proof -
        have wf2: "graphWf g2" "nodesMove g g2" using k2 wf by (auto simp: keeps_def)
        have there: "nodeRow g2 j \<noteq> None" if "nodeRow g j \<noteq> None" for j
          using that wf2(2) unfolding nodesMove_def by blast
        have "nodeRow g1 (spSuccessor s) \<noteq> None" using w dis(2) by auto
        then have "nodeRow g2 (spSuccessor s) \<noteq> None"
          using \<open>keeps g1 g0\<close> \<open>keeps g0 g2\<close> k1 wf unfolding keeps_def nodesMove_def by blast
        moreover have "\<forall>l\<in>set (spLinks s). lkEdge l \<longrightarrow> nodeRow g2 (lkTarget l) \<noteq> None" using assms Some there by blast
        ultimately have "gNodes g' = gNodes g2 \<and> graphWf g'" unfolding g' by (intro edgeFold [OF wf2(1)])
        then show ?thesis using wf2(2) nodesMove_same nodesMove_trans by blast
      qed
      then show ?thesis by (simp add: keeps_def)
    qed (use committed k1 in simp)
  qed simp
  then show ?thesis using c by simp
qed

lemma step_keeps: "graph_step None g h \<Longrightarrow> keeps g h"
proof (induction "None :: string option" g h rule: graph_step.induct)
  case (step_replay g now n)
  then show ?case using keeps_write by (simp add: replayNodeAtRevision_def split_beta split: sum.split GraphError.split)
next
  case (step_insert g now n)
  then show ?case using insertIfAbsent_move [of now n g] by (metis keeps_nodes prod.collapse)
next
  case (step_inferred g now ies)
  then show ?case by (rule keeps_edges [OF inferredBatch_wf])
next
  case (step_invalidate g t ks)
  then show ?case by (rule keeps_edges [OF invalidateAll_wf])
qed (auto simp: upsertNode_def upsertNodeKeepRevision_def upsertNodeAtRevision_def deleteEdge_def pruneInferredLoreEdges_def Let_def
    markStaleByTags_def markStaleByIds_def supersede_move unsupersede_move stale_move archive_move stamp_move
    intro: keeps_write keeps_bulk keeps_addEdge keeps_addBoth keeps_optOut keeps_batch keeps_nodes keeps_edges wf_filterEdges)

lemma delete_move:
  assumes "j \<noteq> i"
  shows "nodeRow (snd (deleteNode i g)) j = nodeRow g j"
  using assms by (auto simp: deleteNode_def Let_def nodeRow_def tableGet_def find_filter intro: find_cong_mem)

lemma step_wf: "graph_step d g h \<Longrightarrow> graphWf g \<Longrightarrow> graphWf h"
proof (cases d)
  case None
  then show "graph_step d g h \<Longrightarrow> graphWf g \<Longrightarrow> graphWf h" using step_keeps keeps_def by blast
next
  case (Some i)
  then show "graph_step d g h \<Longrightarrow> graphWf g \<Longrightarrow> graphWf h" using delete_wf by (auto elim: graph_step.cases)
qed

lemma step_row:
  assumes "graph_step d g h" "graphWf g" "nodeRow g i = Some r" "i \<notin> set_option d"
  shows "\<exists>r'. nodeRow h i = Some r' \<and> rowMove r r'"
proof (cases d)
  case None
  then show ?thesis using step_keeps assms unfolding keeps_def nodesMove_def by blast
next
  case (Some k)
  then have "h = snd (deleteNode k g)" using assms(1) by (auto elim: graph_step.cases)
  then show ?thesis using assms(3,4) Some delete_move [of i k g] by auto
qed

lemma run_wf: "graph_run D g h \<Longrightarrow> graphWf g \<Longrightarrow> graphWf h"
  by (induction rule: graph_run.induct) (auto dest: step_wf)

lemma run_row:
  "graph_run D g h \<Longrightarrow> graphWf g \<Longrightarrow> nodeRow g i = Some r \<Longrightarrow> i \<notin> D \<Longrightarrow> \<exists>r'. nodeRow h i = Some r' \<and> rowMove r r'"
proof (induction rule: graph_run.induct)
  case (run_step D g h d k)
  then obtain r' where "nodeRow h i = Some r'" "rowMove r r'" by blast
  then show ?case using step_row [OF run_step(2) run_wf [OF run_step(1,4)]] run_step(6) rowMove_trans by blast
qed simp


text \<open>A node with nothing but an id, for the examples.\<close>

definition bareNode :: "string \<Rightarrow> LoreNode" where
  "bareNode i = \<lparr>ln_id = i, ln_type = None, ln_label = None, ln_content = None, ln_tags = None, ln_project = None,
     ln_ecosystem = None, ln_metadata = None, ln_createdAt = None, ln_updatedAt = None, ln_syncedAt = None,
     ln_revision = None, ln_securityScopes = None, ln_partitionKey = None, ln_language = None,
     ln_supersededBy = None, ln_supersededAt = None, ln_supersededReason = None, ln_ephemeral = None, ln_ttlMs = None,
     ln_stale = None, ln_lastAccessedAt = None, ln_lastRetrievedAt = None, ln_classification = None, ln_status = None,
     ln_successCount = None, ln_failureCount = None, ln_partialCount = None, ln_confirmationScore = None,
     ln_anchorStale = None, ln_anchorStaleSince = None, ln_validFrom = None, ln_validUntil = None\<rparr>"

definition bareEdge :: "string \<Rightarrow> string \<Rightarrow> string \<Rightarrow> LoreEdge" where
  "bareEdge s t rel = \<lparr>leSourceId = s, leTargetId = t, leRelation = rel, leConfidence = None, leConfidenceScore = None, leProvenance = None\<rparr>"

definition pairGraph :: Graph where
  "pairGraph = snd (upsertNode ''t1'' (bareNode ''b'') (snd (upsertNode ''t0'' (bareNode ''a'') emptyGraph)))"

definition linkedGraph :: Graph where
  "linkedGraph = snd (addEdge ''t2'' (bareEdge ''a'' ''b'' ''cites'') pairGraph)"

lemma run_one: "graph_run D g h \<Longrightarrow> graph_step None h k \<Longrightarrow> graph_run D g k"
  using run_step [of D g h None k] by simp

lemma pairGraph_run: "graph_run {} emptyGraph pairGraph"
  unfolding pairGraph_def by (rule run_one [OF run_one [OF run_refl step_upsert] step_upsert])

lemma linkedGraph_run: "graph_run {} emptyGraph linkedGraph"
  unfolding linkedGraph_def by (rule run_one [OF pairGraph_run step_addEdge])

lemmas graph_eval = upsertNode_def upsertNodeAtRevision_def writeNodeSync_eq toNodeRow_def resolvePartitionKey_def
  putNode_def putEdge_def tableSet_def tableUpd_def tableGet_def nodeRow_def edgeRow_def landsOn_def revisionAfter_def createdAtFor_def
  bareNode_def bareEdge_def emptyGraph_def Let_def

lemma pairGraph_nodes: "map (\<lambda>r. (n_id r, n_revision r, n_createdAt r)) (gNodes pairGraph) = [(''a'', 1, ''t0''), (''b'', 1, ''t1'')]"
  by (simp add: pairGraph_def graph_eval)

lemma linkedGraph_edges: "map edgeKeyOf (gEdges linkedGraph) = [(''a'', ''b'', ''cites'')]"
  by (simp add: linkedGraph_def pairGraph_def addEdge_def resolveEdgeProvenance_def EDGE_ORIGINS_def graph_eval)


text \<open>C9: along any sequence of engine calls from a reachable graph that does not delete a node, the node
  stays, keeps its creation time and, once it has one, its placement key, and its revision never goes down.\<close>

theorem node_never_moves_back:
  assumes "graph_run D0 emptyGraph g" "graph_run D g h" "nodeRow g i = Some r" "i \<notin> D"
  shows "\<exists>r'. nodeRow h i = Some r' \<and> n_createdAt r' = n_createdAt r \<and> n_revision r \<le> n_revision r' \<and>
    (n_partitionKey r = [] \<or> n_partitionKey r' = n_partitionKey r)"
proof -
  have "graphWf g" using run_wf [OF assms(1)] by (simp add: graphWf_def emptyGraph_def)
  from run_row [OF assms(2) this assms(3,4)] show ?thesis by (auto simp: rowMove_def)
qed

lemma pair_to_linked: "graph_run {} pairGraph linkedGraph"
  unfolding linkedGraph_def by (rule run_one [OF run_refl step_addEdge])

lemma pairGraph_row: "(case nodeRow pairGraph ''a'' of None \<Rightarrow> False | Some r \<Rightarrow> n_revision r = 1 \<and> n_createdAt r = ''t0'')"
  by (simp add: pairGraph_def graph_eval)

theorem node_never_moves_back_witness:
  "\<exists>r'. nodeRow linkedGraph ''a'' = Some r' \<and> n_createdAt r' = ''t0'' \<and> 1 \<le> n_revision r'"
proof -
  obtain r where r: "nodeRow pairGraph ''a'' = Some r" "n_revision r = 1" "n_createdAt r = ''t0''"
    using pairGraph_row by (auto split: option.splits)
  from node_never_moves_back [OF pairGraph_run pair_to_linked r(1)] show ?thesis using r by auto
qed

text \<open>C7: no lost update. Once a conditional write at revision \<open>e\<close> has landed, every other conditional write
  that also read revision \<open>e\<close> of that node is refused and changes nothing, whatever calls ran in between, as
  long as none of them deleted the node.\<close>

theorem conditional_write_no_lost_update:
  assumes "graph_run D0 emptyGraph g" "upsertNodeAtRevision n e t mx g = (Inr w, g1)" "graph_run D g1 g2"
    and "ln_id n \<notin> D" "ln_id n' = ln_id n"
  shows "\<exists>err. upsertNodeAtRevision n' e t' mx' g2 = (Inl err, g2)"
proof -
  have wf: "graphWf g" using run_wf [OF assms(1)] by (simp add: graphWf_def emptyGraph_def)
  have wf1: "graphWf g1" using keeps_write [of g n "Conditional t e mx"] wf assms(2) by (auto simp: keeps_def upsertNodeAtRevision_def)
  have "\<exists>r. nodeRow g1 (ln_id n) = Some r \<and> n_revision r = e + 1"
    using assms(2) unfolding upsertNodeAtRevision_def
  proof (cases rule: writeNodeSync_cases)
    case (landed x doc)
    have "revisionAfter (Conditional t e mx) (nodeRow g (ln_id n)) = e + 1"
      using landed(2) by (auto simp: landsOn_def revisionAfter_def split: option.splits)
    then show ?thesis using landed(4) toNodeRow_id [OF landed(3)] by (simp add: nodeRow_putNode)
  qed simp
  then obtain r where r: "nodeRow g1 (ln_id n) = Some r" "n_revision r = e + 1" by blast
  obtain r' where r': "nodeRow g2 (ln_id n) = Some r'" "e + 1 \<le> n_revision r'"
    using run_row [OF assms(3) wf1 r(1) assms(4)] r(2) by (auto simp: rowMove_def)
  obtain x h where x: "upsertNodeAtRevision n' e t' mx' g2 = (x, h)" by (metis surj_pair)
  then have "\<exists>err. x = Inl err \<and> h = g2" unfolding upsertNodeAtRevision_def
    by (cases rule: writeNodeSync_cases) (use r' assms(5) in \<open>auto simp: landsOn_def\<close>)
  then show ?thesis using x by blast
qed

lemma pair_cas: "\<exists>w. upsertNodeAtRevision (bareNode ''a'') 1 ''t3'' True pairGraph = (Inr w, snd (upsertNodeAtRevision (bareNode ''a'') 1 ''t3'' True pairGraph))"
proof -
  have "\<not> isl (fst (upsertNodeAtRevision (bareNode ''a'') 1 ''t3'' True pairGraph))" by code_simp
  then show ?thesis by (metis isl_def prod.collapse sum.exhaust)
qed

theorem conditional_write_no_lost_update_witness:
  "\<exists>err. upsertNodeAtRevision (bareNode ''a'') 1 ''t4'' True (snd (upsertNodeAtRevision (bareNode ''a'') 1 ''t3'' True pairGraph))
     = (Inl err, snd (upsertNodeAtRevision (bareNode ''a'') 1 ''t3'' True pairGraph))"
proof -
  obtain w where w: "upsertNodeAtRevision (bareNode ''a'') 1 ''t3'' True pairGraph = (Inr w, snd (upsertNodeAtRevision (bareNode ''a'') 1 ''t3'' True pairGraph))"
    using pair_cas by blast
  show ?thesis by (rule conditional_write_no_lost_update [OF pairGraph_run w run_refl]) simp_all
qed

definition batchWrites :: "NodeBatchWrite list" where
  "batchWrites = [CasWrite (bareNode ''a'') 1 True ''t5'', InsertWrite (bareNode ''c'') ''t5'']"

lemma node_batch_commit:
  "fst (commitSqliteNodeBatch ''t5'' [\<lparr>ckId = ''b'', ckRevision = 1\<rparr>] batchWrites None pairGraph) = Inr (BatchOk [(''a'', 2), (''c'', 1)])"
  by (simp add: commitSqliteNodeBatch_def assertNodeBatchShape_def MAX_NODE_BATCH_WRITES_def MAX_NODE_BATCH_CHECKS_def batchWrites_def
      storedRevision_def pairGraph_def graph_eval)

theorem node_batch_atomic_witness:
  "batchLanded [\<lparr>ckId = ''b'', ckRevision = 1\<rparr>] batchWrites None pairGraph
     (snd (commitSqliteNodeBatch ''t5'' [\<lparr>ckId = ''b'', ckRevision = 1\<rparr>] batchWrites None pairGraph))"
  using node_batch_atomic [OF prod.collapse [symmetric], of "''t5''" "[\<lparr>ckId = ''b'', ckRevision = 1\<rparr>]" batchWrites None pairGraph]
    node_batch_commit
  by metis

section \<open>Replayed payloads\<close>

abbreviation replayRevision :: "LoreNode \<Rightarrow> int" where
  "replayRevision n \<equiv> orElse (ln_revision n) 0"

lemma replay_existing:
  assumes "nodeRow g (ln_id n) = Some r" "ln_partitionKey n = None"
  shows "if n_revision r < replayRevision n
    then fst (replayNodeAtRevision now n g) = Inr True \<and>
      (\<exists>r'. snd (replayNodeAtRevision now n g) = putNode r' g \<and> n_id r' = ln_id n \<and> n_revision r' = replayRevision n \<and>
        n_updatedAt r' = strOr (ln_updatedAt n) now \<and> n_tags r' = tagsToArray (ln_tags n))
    else replayNodeAtRevision now n g = (Inr False, g)"
proof -
  have key: "resolvePartitionKey i None (Some k) = Inr k" for i k by (simp add: resolvePartitionKey_def)
  show ?thesis
    using nodeRow_id [OF assms(1)]
    by (auto simp: replayNodeAtRevision_def writeNodeSync_eq Let_def assms landsOn_def revisionAfter_def toNodeRow_def key)
qed

definition replayAll :: "iso \<Rightarrow> LoreNode list \<Rightarrow> Graph \<Rightarrow> Graph" where
  "replayAll now ns g = fold (\<lambda>n h. snd (replayNodeAtRevision now n h)) ns g"

lemma replayAll_spec:
  assumes "\<forall>n\<in>set ns. ln_id n = i \<and> ln_partitionKey n = None" "nodeRow g i = Some r"
  shows "\<exists>r'. nodeRow (replayAll now ns g) i = Some r' \<and> n_revision r' = Max (insert (n_revision r) (replayRevision ` set ns)) \<and>
    (r' = r \<or> (\<exists>n\<in>set ns. replayRevision n = n_revision r' \<and> n_updatedAt r' = strOr (ln_updatedAt n) now \<and>
                          n_tags r' = tagsToArray (ln_tags n)))"
  using assms(1)
proof (induction ns rule: rev_induct)
  case Nil
  then show ?case using assms(2) by (simp add: replayAll_def)
next
  case (snoc n ns)
  then have "\<forall>n\<in>set ns. ln_id n = i \<and> ln_partitionKey n = None" by simp
  from snoc.IH [OF this] obtain r1 where r1: "nodeRow (replayAll now ns g) i = Some r1"
    "n_revision r1 = Max (insert (n_revision r) (replayRevision ` set ns))"
    "r1 = r \<or> (\<exists>n\<in>set ns. replayRevision n = n_revision r1 \<and> n_updatedAt r1 = strOr (ln_updatedAt n) now \<and> n_tags r1 = tagsToArray (ln_tags n))"
    by blast
  have n: "ln_id n = i" "ln_partitionKey n = None" using snoc.prems by auto
  have step: "replayAll now (ns @ [n]) g = snd (replayNodeAtRevision now n (replayAll now ns g))" by (simp add: replayAll_def)
  have mx: "Max (insert (n_revision r) (replayRevision ` set (ns @ [n]))) = max (replayRevision n) (n_revision r1)"
  proof -
    have "insert (n_revision r) (replayRevision ` set (ns @ [n])) = insert (replayRevision n) (insert (n_revision r) (replayRevision ` set ns))"
      by auto
    then show ?thesis unfolding r1(2) by (simp only:) (rule Max_insert; simp)
  qed
  note rep = replay_existing [OF r1(1) [folded n(1)] n(2), of now]
  show ?case
  proof (cases "n_revision r1 < replayRevision n")
    case True
    then obtain r' where r': "replayAll now (ns @ [n]) g = putNode r' (replayAll now ns g)" "n_id r' = i"
      "n_revision r' = replayRevision n" "n_updatedAt r' = strOr (ln_updatedAt n) now" "n_tags r' = tagsToArray (ln_tags n)"
      using rep step n by auto
    then have "nodeRow (replayAll now (ns @ [n]) g) i = Some r'" by (simp add: nodeRow_putNode)
    moreover have "max (replayRevision n) (n_revision r1) = replayRevision n" using True by simp
    ultimately show ?thesis unfolding mx using r' by (intro exI [of _ r']) simp
  next
    case False
    then have same: "replayAll now (ns @ [n]) g = replayAll now ns g" using rep step by simp
    have top: "max (replayRevision n) (n_revision r1) = n_revision r1" using False by simp
    show ?thesis unfolding same mx top using r1(1,3) by (intro exI [of _ r1]) auto
  qed
qed



section \<open>Supersession\<close>

definition supRel :: "Graph \<Rightarrow> (string \<times> string) set" where
  "supRel g = {(i, j). supersededByOf g i = Some j}"

lemma supersededByOf_row:
  "supersededByOf g i = (case nodeRow g i of None \<Rightarrow> None | Some r \<Rightarrow> nonEmpty (n_supersededBy r))"
  by (cases "nodeRow g i") (simp_all add: supersededByOf_def getNode_def rowToLoreNode_def)

lemma supersededByOf_nonempty: "supersededByOf g i = Some j \<Longrightarrow> j \<noteq> [] \<and> nodeRow g i \<noteq> None"
  by (auto simp: supersededByOf_row nonEmpty_def split: option.splits if_splits)

text \<open>The walk finds its target along a repetition-free chain that is not longer than the hop cap.\<close>

fun supChain :: "(string \<Rightarrow> string option) \<Rightarrow> string list \<Rightarrow> bool" where
  "supChain f (x # y # zs) = (f x = Some y \<and> supChain f (y # zs))"
| "supChain f zs = True"

lemma cycleWalk_finds:
  assumes "supChain f cs" "cs \<noteq> []" "last cs = target" "distinct cs" "set cs \<inter> set visited = {}" "[] \<notin> set cs"
    and "length cs \<le> hops"
  shows "cycleWalk f target hops visited (Some (hd cs))"
  using assms
proof (induction cs arbitrary: visited hops)
  case (Cons c cs)
  then obtain h where h: "hops = Suc h" by (cases hops) auto
  show ?case
  proof (cases cs)
    case Nil
    then show ?thesis using Cons.prems h by simp
  next
    case (Cons d ds)
    then have "cycleWalk f target h (c # visited) (Some (hd cs))"
      using Cons.prems h by (intro Cons.IH) auto
    then show ?thesis using Cons Cons.prems h by auto
  qed
qed simp

lemma trancl_chain:
  assumes "(a, b) \<in> {(i, j). f i = Some j}\<^sup>+"
  shows "\<exists>cs. supChain f (a # cs) \<and> cs \<noteq> [] \<and> last cs = b"
  using assms
proof (induction rule: converse_trancl_induct)
  case (base y)
  then show ?case by (intro exI [of _ "[b]"]) auto
next
  case (step y z)
  then obtain cs where "supChain f (z # cs)" "cs \<noteq> []" "last cs = b" by blast
  then show ?case using step by (intro exI [of _ "z # cs"]) auto
qed

lemma supChain_reach: "supChain f (a # cs) \<Longrightarrow> c \<in> set cs \<Longrightarrow> (a, c) \<in> {(i, j). f i = Some j}\<^sup>+"
proof (induction cs arbitrary: a)
  case (Cons d ds)
  then have ad: "(a, d) \<in> {(i, j). f i = Some j}" by simp
  show ?case
  proof (cases "c = d")
    case False
    then have "(d, c) \<in> {(i, j). f i = Some j}\<^sup>+" using Cons by auto
    then show ?thesis using ad by (rule trancl_into_trancl2 [rotated])
  qed (use ad in auto)
qed simp

lemma supChain_distinct: "supChain f cs \<Longrightarrow> acyclic {(i, j). f i = Some j} \<Longrightarrow> distinct cs"
proof (induction cs)
  case (Cons c cs)
  have "supChain f cs" using Cons.prems(1) by (cases cs) auto
  moreover have "c \<notin> set cs" using supChain_reach [OF Cons.prems(1)] Cons.prems(2) by (auto simp: acyclic_def)
  ultimately show ?case using Cons by simp
qed simp

lemma supChain_dom: "supChain f cs \<Longrightarrow> c \<in> set (butlast cs) \<Longrightarrow> f c \<noteq> None"
  by (induction f cs rule: supChain.induct) auto

lemma cycle_guard_complete:
  assumes "acyclic (supRel g)" "length (gNodes g) \<le> MAX_SUPERSEDE_CHAIN_HOPS"
    and "(new, old) \<in> (supRel g)\<^sup>+" "nodeRow g old \<noteq> None"
  shows "wouldCreateSupersedeCycle old (supersededByOf g new) (supersededByOf g)"
proof -
  obtain cs where cs: "supChain (supersededByOf g) (new # cs)" "cs \<noteq> []" "last cs = old"
    using trancl_chain assms(3) unfolding supRel_def by metis
  have dist: "distinct (new # cs)" using supChain_distinct [OF cs(1)] assms(1) by (simp add: supRel_def)
  have link: "supChain (supersededByOf g) cs" "supersededByOf g new = Some (hd cs)" using cs(1,2) by (cases cs; simp)+
  have nodes: "set cs \<subseteq> set (map n_id (gNodes g))"
  proof
    fix c assume c: "c \<in> set cs"
    have "nodeRow g c \<noteq> None"
    proof (cases "c \<in> set (butlast cs)")
      case True
      then show ?thesis using supChain_dom [OF link(1)] supersededByOf_nonempty by blast
    next
      case False
      then have "c = last cs" using c cs(2) by (metis append_butlast_last_id in_set_conv_decomp rotate1.simps(2) set_ConsD set_rotate1)
      then show ?thesis using cs(3) assms(4) by simp
    qed
    then obtain r where "nodeRow g c = Some r" by blast
    then have "r \<in> set (gNodes g)" "n_id r = c" using gn.get_mem [of g c r] by (auto simp: nodeRow_def)
    then show "c \<in> set (map n_id (gNodes g))" by auto
  qed
  have "length cs \<le> length (gNodes g)"
    using dist nodes by (metis card_length card_mono distinct.simps(2) distinct_card finite_set length_map order_trans)
  moreover have "[] \<notin> set cs"
  proof
    assume "[] \<in> set cs"
    then have "(new, []) \<in> (supRel g)\<^sup>+" using supChain_reach [OF cs(1)] by (simp add: supRel_def)
    then obtain z where "(z, []) \<in> supRel g" by (meson tranclE)
    then show False using supersededByOf_nonempty by (auto simp: supRel_def)
  qed
  ultimately show ?thesis
    unfolding wouldCreateSupersedeCycle_def link(2)
    by (intro cycleWalk_finds link cs dist) (use assms(2) dist in auto)
qed

lemma supersede_cases:
  assumes "supersedeNode now old new why g = (res, g')"
  obtains (kept) "g' = g" "res \<noteq> SupersedeOk False"
      "res = SupersedeOk True \<Longrightarrow> supersededByOf g old = Some new"
  | (claimed) r where "res = SupersedeOk False" "old \<noteq> new" "nodeRow g old = Some r" "n_supersededBy r = []" "nodeRow g new \<noteq> None"
      "\<not> wouldCreateSupersedeCycle old (supersededByOf g new) (supersededByOf g)"
      "g' = updNode new (bumpRevision 1) (updNode old (supersedeClaim new now (orElse why [])) g)"
proof (cases "res = SupersedeOk False")
  case True
  note run = assms [unfolded True supersedeNode_def]
  have ne: "old \<noteq> new" using run by auto
  obtain oldN where oldN: "getNode g old = Some oldN" using run ne by (cases "getNode g old") auto
  obtain newN where newN: "getNode g new = Some newN" using run ne oldN by (cases "getNode g new") auto
  have v: "supersedeGuardVerdict (ln_supersededBy oldN) new = None"
  proof (cases "supersedeGuardVerdict (ln_supersededBy oldN) new")
    case (Some early)
    then have "early = SupersedeOk False" using run ne oldN newN by simp
    then show ?thesis using Some by (auto simp: supersedeGuardVerdict_def split: option.splits if_splits)
  qed
  have c: "\<not> wouldCreateSupersedeCycle old (ln_supersededBy newN) (supersededByOf g)" using run ne oldN newN v by auto
  obtain r where r: "nodeRow g old = Some r" using oldN by (auto simp: getNode_def)
  have "claimable new r" using run ne oldN newN v c r by (cases "claimable new r") auto
  then have g': "g' = updNode new (bumpRevision 1) (updNode old (supersedeClaim new now (orElse why [])) g)"
    using run ne oldN newN v c r by simp
  note o = ne oldN newN v c r g'
  have "n_supersededBy r = []"
  proof -
    have "ln_supersededBy oldN = nonEmpty (n_supersededBy r)"
      using supersededByOf_row [of g old] oldN r by (simp add: supersededByOf_def)
    then show ?thesis using v by (simp add: nonEmpty_def supersedeGuardVerdict_def split: if_splits)
  qed
  moreover have "nodeRow g new \<noteq> None" "supersededByOf g new = ln_supersededBy newN"
    using o(3) by (auto simp: supersededByOf_def getNode_def)
  ultimately show ?thesis using claimed True o by metis
next
  case False
  then have "g' = g" "res = SupersedeOk True \<Longrightarrow> supersededByOf g old = Some new"
    using assms by (auto simp: supersedeNode_def supersedeGuardVerdict_def supersededByOf_def split: if_splits option.splits)
  then show ?thesis using kept False by blast
qed


lemma pairGraph_acyclic: "acyclic (supRel pairGraph)" and pairGraph_small: "length (gNodes pairGraph) \<le> MAX_SUPERSEDE_CHAIN_HOPS"
proof -
  have "supersededByOf pairGraph i = None" for i
    by (simp add: supersededByOf_row pairGraph_def graph_eval nonEmpty_def)
  then show "acyclic (supRel pairGraph)" by (simp add: supRel_def acyclic_def)
  show "length (gNodes pairGraph) \<le> MAX_SUPERSEDE_CHAIN_HOPS" by (simp add: pairGraph_def graph_eval MAX_SUPERSEDE_CHAIN_HOPS_def)
qed


section \<open>The retry around a batch\<close>

text \<open>The callbacks with a counter of how often the batch was prepared.\<close>

definition countPrepares :: "(nat \<Rightarrow> 's \<Rightarrow> ('e + NodeBatchPlan) \<times> 's) \<Rightarrow> nat \<Rightarrow> nat \<times> 's \<Rightarrow> ('e + NodeBatchPlan) \<times> nat \<times> 's" where
  "countPrepares prepare a p = (case prepare a (snd p) of (x, s) \<Rightarrow> (x, Suc (fst p), s))"

definition uncounted :: "('p \<Rightarrow> 's \<Rightarrow> 'r \<times> 's) \<Rightarrow> 'p \<Rightarrow> nat \<times> 's \<Rightarrow> 'r \<times> nat \<times> 's" where
  "uncounted commit plan p = (case commit plan (snd p) of (x, s) \<Rightarrow> (x, fst p, s))"

lemma retryLoop_bound:
  assumes "refused \<le> TRANSIENT_MAX_RETRIES" "1 \<le> attempt" "attempt \<le> limit + refused + 1"
  shows "fst (snd (retryLoop (countPrepares prepare) (uncounted commit) rd limit attempt refused (n, s))) + attempt \<le>
    n + limit + TRANSIENT_MAX_RETRIES + 1"
  using assms
proof (induction "(TRANSIENT_MAX_RETRIES - refused) + (limit + refused + 1 - attempt)" arbitrary: attempt refused n s rule: less_induct)
  case less
  obtain x s1 where x: "countPrepares prepare attempt (n, s) = (x, Suc n, s1)" by (simp add: countPrepares_def split_beta)
  show ?case
  proof (cases "attempt > limit + refused")
    case True
    then show ?thesis using less.prems by (subst retryLoop.simps) simp
  next
    case False
    show ?thesis
    proof (cases x)
      case (Inl err)
      then show ?thesis using False x less.prems by (subst retryLoop.simps) simp
    next
      case (Inr plan)
      obtain y s2 where y: "uncounted commit plan (Suc n, s1) = (y, Suc n, s2)" by (simp add: uncounted_def split_beta)
      have again: "fst (snd (retryLoop (countPrepares prepare) (uncounted commit) rd limit (Suc attempt) refused' (Suc n, s2))) + Suc attempt \<le>
          Suc n + limit + TRANSIENT_MAX_RETRIES + 1"
        if "refused' = Suc refused \<and> refused < TRANSIENT_MAX_RETRIES \<or> refused' = refused \<and> attempt - refused < limit" for refused'
        using that less.prems False by (intro less.hyps) auto
      show ?thesis
      proof (cases "y = Inr BatchContention \<or> (\<exists>c. y = Inr (BatchRefused c))")
        case True
        then show ?thesis using again [of refused] again [of "Suc refused"] False x Inr y less.prems
          by (subst retryLoop.simps) auto
      next
        case other: False
        then show ?thesis using False x Inr y less.prems
          by (subst retryLoop.simps) (auto split: sum.splits NodeBatchOutcome.splits)
      qed
    qed
  qed
qed

fun definite :: "NodeBatchOutcome \<Rightarrow> bool" where
  "definite BatchContention = False"
| "definite (BatchRefused cause) = False"
| "definite BatchUnknown = False"
| "definite out = True"

lemma runChecks_definite: "runChecks g k cs = Some out \<Longrightarrow> definite out"
  by (induction g k cs rule: runChecks.induct) (auto simp: Let_def split: if_splits)

lemma writeRefusal_definite: "writeRefusal g k w = Some out \<Longrightarrow> definite out"
  by (cases w) (auto simp: split_beta split: if_splits)

lemma runWrites_definite: "runWrites s k ws revs g = Inl (AbortRefused out) \<Longrightarrow> definite out"
proof (induction ws arbitrary: k revs g)
  case (Cons w ws)
  show ?case
  proof (cases "writeRefusal g k w")
    case (Some o1)
    then show ?thesis using Cons.prems writeRefusal_definite by auto
  next
    case None
    obtain x h where x: "writeNodeSync (writeNodeOf w) (writeMode w) g = (x, h)" by (metis surj_pair)
    show ?thesis
    proof (cases x)
      case (Inl err)
      then show ?thesis using Cons.prems unfolding runWrites.simps None option.case x Inl prod.case sum.case by (cases err) auto
    next
      case (Inr n)
      then show ?thesis using Cons.IH Cons.prems None x by simp
    qed
  qed
qed simp

lemma markLinks_definite: "markLinks s i ls g = Inl (AbortRefused out) \<Longrightarrow> definite out"
  by (induction s i ls g rule: markLinks.induct) (auto split: if_splits option.splits)

lemma sqlite_outcome_definite: "fst (commitSqliteNodeBatch now cs ws sp g) = Inr out \<Longrightarrow> definite out"
  by (auto simp: commitSqliteNodeBatch_def applySupersedes_def Let_def split: option.splits sum.splits BatchAbort.splits
      dest: runChecks_definite runWrites_definite markLinks_definite)

text \<open>C12: the retry around a batch always returns. Whatever the callbacks answer, the batch is prepared at
  most \<open>MAX_BATCH_ATTEMPTS + TRANSIENT_MAX_RETRIES\<close> times, and over the SQLite commit, which never reports
  contention, a refused connection or an unknown outcome, it is prepared exactly once.\<close>

theorem batch_retry_bounded:
  "fst (snd (commitNodeBatchWithRetry (countPrepares prepare) (uncounted commit) rd (0, s))) \<le>
      MAX_BATCH_ATTEMPTS + TRANSIENT_MAX_RETRIES \<and>
    fst (snd (commitNodeBatchWithRetry (countPrepares prepare)
        (uncounted (\<lambda>plan. commitSqliteNodeBatch now (plChecks plan) (plWrites plan) (plSupersedes plan))) rd (0, g))) = 1"
proof (intro conjI)
  show "fst (snd (commitNodeBatchWithRetry (countPrepares prepare) (uncounted commit) rd (0, s))) \<le> MAX_BATCH_ATTEMPTS + TRANSIENT_MAX_RETRIES"
    using retryLoop_bound [of 0 1 MAX_BATCH_ATTEMPTS prepare commit rd 0 s] by (simp add: commitNodeBatchWithRetry_def)
  show "fst (snd (commitNodeBatchWithRetry (countPrepares prepare)
        (uncounted (\<lambda>plan. commitSqliteNodeBatch now (plChecks plan) (plWrites plan) (plSupersedes plan))) rd (0, g))) = 1"
  proof -
    obtain x s1 where x: "countPrepares prepare 1 (0, g) = (x, 1, s1)" by (simp add: countPrepares_def split_beta)
    let ?commit = "uncounted (\<lambda>plan. commitSqliteNodeBatch now (plChecks plan) (plWrites plan) (plSupersedes plan))"
    show ?thesis
    proof (cases x)
      case (Inl err)
      then show ?thesis using x by (simp add: commitNodeBatchWithRetry_def retryLoop.simps MAX_BATCH_ATTEMPTS_def)
    next
      case (Inr plan)
      obtain y s2 where y: "commitSqliteNodeBatch now (plChecks plan) (plWrites plan) (plSupersedes plan) s1 = (y, s2)" by (metis surj_pair)
      then have "?commit plan (1, s1) = (y, 1, s2)" by (simp add: uncounted_def)
      moreover have "definite out" if "y = Inr out" for out using sqlite_outcome_definite y that by (metis fst_conv)
      ultimately show ?thesis using x Inr
        by (auto simp: commitNodeBatchWithRetry_def retryLoop.simps MAX_BATCH_ATTEMPTS_def split: sum.splits NodeBatchOutcome.splits)
    qed
  qed
qed

end
