(* ===== verification/GraphTraverse.thy ===== *)
theory GraphTraverse
  imports GraphSafety
begin

text \<open>
  The breadth-first walks of the graph: the engine-neutral core (\<open>engines/graphShared/traverseBfs.ts\<close>),
  the frontier reads and the two public walks of the SQLite engine (\<open>traverse\<close> of
  \<open>engines/sqlite/sqliteGraphReads.ts\<close>, \<open>traverseDirected\<close> of \<open>sqliteGraphDirected.ts\<close>).

  \<open>localeCompare\<close> is the argument \<open>lc\<close>: its sign is what \<open>Array.prototype.sort\<close> uses. The sort is a
  stable insertion sort, which for a lawful comparator is the only stable result. A depth is an
  optional rational (\<open>None\<close> is \<open>NaN\<close>). A walk reads one state of the edge table; the memo of the read
  cache and the log line at the cap are left out.
\<close>

section \<open>\<open>graphShared/traverseBfs.ts\<close>\<close>

datatype EdgeDirection = DirOut | DirIn

record FrontierEdgeCandidate =
  fe_to :: string
  fe_relation :: string
  fe_direction :: EdgeDirection

fun insertBy :: "('a \<Rightarrow> 'a \<Rightarrow> int) \<Rightarrow> 'a \<Rightarrow> 'a list \<Rightarrow> 'a list" where
  "insertBy cmp x [] = [x]"
| "insertBy cmp x (y # ys) = (if cmp x y \<le> 0 then x # y # ys else y # insertBy cmp x ys)"

definition sortBy :: "('a \<Rightarrow> 'a \<Rightarrow> int) \<Rightarrow> 'a list \<Rightarrow> 'a list" where
  "sortBy cmp xs = foldr (insertBy cmp) xs []"

definition edgeCompare :: "(string \<Rightarrow> string \<Rightarrow> int) \<Rightarrow> FrontierEdgeCandidate \<Rightarrow> FrontierEdgeCandidate \<Rightarrow> int" where
  "edgeCompare lc a b =
     (let byDirection = (if fe_direction a = fe_direction b then 0 else if fe_direction a = DirOut then -1 else 1);
          byRelation = lc (fe_relation a) (fe_relation b)
      in if byDirection \<noteq> 0 then byDirection else if byRelation \<noteq> 0 then byRelation else lc (fe_to a) (fe_to b))"

definition sortFrontierEdges :: "(string \<Rightarrow> string \<Rightarrow> int) \<Rightarrow> FrontierEdgeCandidate list \<Rightarrow> FrontierEdgeCandidate list" where
  "sortFrontierEdges lc edges = sortBy (edgeCompare lc) edges"

record TraverseBfsStep =
  ts_id :: string
  ts_depth :: nat
  ts_relation :: string

type_synonym frontier_map = "string \<rightharpoonup> FrontierEdgeCandidate list"

text \<open>The two inner loops: \<open>True\<close> when the walk broke off at the cap.\<close>

fun expandEdges ::
  "nat \<Rightarrow> nat \<Rightarrow> FrontierEdgeCandidate list \<Rightarrow> string list \<times> string list \<times> TraverseBfsStep list \<Rightarrow>
   bool \<times> string list \<times> string list \<times> TraverseBfsStep list" where
  "expandEdges cap depth [] s = (False, s)"
| "expandEdges cap depth (e # es) (visited, nextFrontier, steps) =
     (if List.member visited (fe_to e) then expandEdges cap depth es (visited, nextFrontier, steps)
      else let s = (visited @ [fe_to e], nextFrontier @ [fe_to e],
                    steps @ [\<lparr>ts_id = fe_to e, ts_depth = depth, ts_relation = fe_relation e\<rparr>])
           in if length steps + 1 \<ge> cap then (True, s) else expandEdges cap depth es s)"

fun expandFrontier ::
  "(string \<Rightarrow> string \<Rightarrow> int) \<Rightarrow> nat \<Rightarrow> nat \<Rightarrow> frontier_map \<Rightarrow> string list \<Rightarrow> string list \<times> string list \<times> TraverseBfsStep list \<Rightarrow>
   bool \<times> string list \<times> string list \<times> TraverseBfsStep list" where
  "expandFrontier lc cap depth byFrontier [] s = (False, s)"
| "expandFrontier lc cap depth byFrontier (i # is) s =
     (case expandEdges cap depth (sortFrontierEdges lc (orElse (byFrontier i) [])) s of
        (True, s') \<Rightarrow> (True, s')
      | (False, s') \<Rightarrow> expandFrontier lc cap depth byFrontier is s')"

text \<open>The outer loop, with the number of levels it has left.\<close>

fun bfsLevels ::
  "(string \<Rightarrow> string \<Rightarrow> int) \<Rightarrow> (string list \<Rightarrow> frontier_map) \<Rightarrow> nat \<Rightarrow> nat \<Rightarrow> nat \<Rightarrow> string list \<Rightarrow> string list \<Rightarrow> TraverseBfsStep list \<Rightarrow>
   TraverseBfsStep list \<times> bool" where
  "bfsLevels lc fetch cap 0 depth frontier visited steps = (steps, False)"
| "bfsLevels lc fetch cap (Suc left) depth frontier visited steps =
     (case expandFrontier lc cap depth (fetch frontier) frontier (visited, [], steps) of
        (True, visited', next, steps') \<Rightarrow> (steps', True)
      | (False, visited', next, steps') \<Rightarrow>
          if next = [] then (steps', False) else bfsLevels lc fetch cap left (Suc depth) next visited' steps')"

definition runTraverseBfs ::
  "(string \<Rightarrow> string \<Rightarrow> int) \<Rightarrow> string \<Rightarrow> nat \<Rightarrow> nat \<Rightarrow> (string list \<Rightarrow> frontier_map) \<Rightarrow> TraverseBfsStep list \<times> bool" where
  "runTraverseBfs lc seedId clampedDepth nodeCap fetchFrontierEdges =
     bfsLevels lc fetchFrontierEdges nodeCap clampedDepth 1 [seedId] [seedId] []"

record DirectedBfsStep =
  ds_to :: string
  ds_depth :: nat
  ds_relation :: string
  ds_direction :: EdgeDirection
  ds_via :: string

fun directionText :: "EdgeDirection \<Rightarrow> string" where
  "directionText DirOut = ''out''"
| "directionText DirIn = ''in''"

definition directedKey :: "string \<Rightarrow> FrontierEdgeCandidate \<Rightarrow> string" where
  "directedKey via e = via @ ''|'' @ directionText (fe_direction e) @ ''|'' @ fe_relation e @ ''|'' @ fe_to e"

record DirectedState =
  dsVisited :: "string list"
  dsEmitted :: "string list"
  dsNext :: "string list"
  dsSteps :: "DirectedBfsStep list"

definition emitEdge :: "nat \<Rightarrow> string \<Rightarrow> FrontierEdgeCandidate \<Rightarrow> DirectedState \<Rightarrow> DirectedState" where
  "emitEdge depth via e s =
     (if List.member (dsEmitted s) (directedKey via e) then s
      else s\<lparr>dsEmitted := dsEmitted s @ [directedKey via e],
             dsSteps := dsSteps s @ [\<lparr>ds_to = fe_to e, ds_depth = depth, ds_relation = fe_relation e,
                                      ds_direction = fe_direction e, ds_via = via\<rparr>]\<rparr>)"

definition visitTarget :: "FrontierEdgeCandidate \<Rightarrow> DirectedState \<Rightarrow> DirectedState" where
  "visitTarget e s =
     (if List.member (dsVisited s) (fe_to e) then s
      else s\<lparr>dsVisited := dsVisited s @ [fe_to e], dsNext := dsNext s @ [fe_to e]\<rparr>)"

fun directedEdges :: "string \<Rightarrow> nat \<Rightarrow> nat \<Rightarrow> string \<Rightarrow> FrontierEdgeCandidate list \<Rightarrow> DirectedState \<Rightarrow> bool \<times> DirectedState" where
  "directedEdges seed cap depth via [] s = (False, s)"
| "directedEdges seed cap depth via (e # es) s =
     (if fe_to e = seed then directedEdges seed cap depth via es s
      else if \<not> List.member (dsEmitted s) (directedKey via e) \<and> length (dsSteps s) + 1 \<ge> cap
      then (True, emitEdge depth via e s)
      else directedEdges seed cap depth via es (visitTarget e (emitEdge depth via e s)))"

fun directedFrontier ::
  "(string \<Rightarrow> string \<Rightarrow> int) \<Rightarrow> string \<Rightarrow> nat \<Rightarrow> nat \<Rightarrow> frontier_map \<Rightarrow> string list \<Rightarrow> DirectedState \<Rightarrow> bool \<times> DirectedState" where
  "directedFrontier lc seed cap depth byFrontier [] s = (False, s)"
| "directedFrontier lc seed cap depth byFrontier (i # is) s =
     (case directedEdges seed cap depth i (sortFrontierEdges lc (orElse (byFrontier i) [])) s of
        (True, s') \<Rightarrow> (True, s')
      | (False, s') \<Rightarrow> directedFrontier lc seed cap depth byFrontier is s')"

fun directedLevels ::
  "(string \<Rightarrow> string \<Rightarrow> int) \<Rightarrow> (string list \<Rightarrow> frontier_map) \<Rightarrow> string \<Rightarrow> nat \<Rightarrow> nat \<Rightarrow> nat \<Rightarrow> string list \<Rightarrow> DirectedState \<Rightarrow>
   DirectedBfsStep list \<times> bool" where
  "directedLevels lc fetch seed cap 0 depth frontier s = (dsSteps s, False)"
| "directedLevels lc fetch seed cap (Suc left) depth frontier s =
     (case directedFrontier lc seed cap depth (fetch frontier) frontier (s\<lparr>dsNext := []\<rparr>) of
        (True, s') \<Rightarrow> (dsSteps s', True)
      | (False, s') \<Rightarrow>
          if dsNext s' = [] then (dsSteps s', False)
          else directedLevels lc fetch seed cap left (Suc depth) (dsNext s') s')"

definition runDirectedTraverseBfs ::
  "(string \<Rightarrow> string \<Rightarrow> int) \<Rightarrow> string \<Rightarrow> nat \<Rightarrow> nat \<Rightarrow> (string list \<Rightarrow> frontier_map) \<Rightarrow> DirectedBfsStep list \<times> bool" where
  "runDirectedTraverseBfs lc seedId clampedDepth nodeCap fetchDirectedFrontier =
     directedLevels lc fetchDirectedFrontier seedId nodeCap clampedDepth 1 [seedId]
       \<lparr>dsVisited = [seedId], dsEmitted = [], dsNext = [], dsSteps = []\<rparr>"

section \<open>The SQLite reads\<close>

definition TRAVERSE_NODE_CAP :: nat where
  "TRAVERSE_NODE_CAP = 10000"

definition CHUNK_SIZE :: nat where
  "CHUNK_SIZE = 256"

text \<open>\<open>for (i = 0; i < xs.length; i += CHUNK_SIZE) ... xs.slice(i, i + CHUNK_SIZE)\<close>\<close>

fun chunksOf :: "nat \<Rightarrow> 'a list \<Rightarrow> 'a list list" where
  "chunksOf n [] = []"
| "chunksOf n (x # xs) = take (Suc n) (x # xs) # chunksOf n (drop n xs)"

definition pushEdge :: "string \<Rightarrow> FrontierEdgeCandidate \<Rightarrow> frontier_map \<Rightarrow> frontier_map" where
  "pushEdge i c m = m(i \<mapsto> orElse (m i) [] @ [c])"

definition liveEdges :: "Graph \<Rightarrow> EdgeRow list" where
  "liveEdges g = filter (\<lambda>e. e_validTo e = None) (gEdges g)"

definition outEdge :: "EdgeRow \<Rightarrow> FrontierEdgeCandidate" where
  "outEdge e = \<lparr>fe_to = e_target e, fe_relation = e_relation e, fe_direction = DirOut\<rparr>"

definition inEdge :: "EdgeRow \<Rightarrow> FrontierEdgeCandidate" where
  "inEdge e = \<lparr>fe_to = e_source e, fe_relation = e_relation e, fe_direction = DirIn\<rparr>"

definition fetchChunk :: "(EdgeRow list \<Rightarrow> EdgeRow list) \<Rightarrow> (EdgeRow list \<Rightarrow> EdgeRow list) \<Rightarrow> Graph \<Rightarrow> string list \<Rightarrow> frontier_map \<Rightarrow> frontier_map" where
  "fetchChunk orderOut orderIn g chunk m =
     (let outRows = orderOut (filter (\<lambda>e. List.member chunk (e_source e)) (liveEdges g));
          inRows = orderIn (filter (\<lambda>e. List.member chunk (e_target e)) (liveEdges g))
      in fold (\<lambda>e. pushEdge (e_target e) (inEdge e)) inRows (fold (\<lambda>e. pushEdge (e_source e) (outEdge e)) outRows m))"

definition fetchFrontier :: "(EdgeRow list \<Rightarrow> EdgeRow list) \<Rightarrow> (EdgeRow list \<Rightarrow> EdgeRow list) \<Rightarrow> Graph \<Rightarrow> string list \<Rightarrow> frontier_map" where
  "fetchFrontier orderOut orderIn g frontier =
     fold (fetchChunk orderOut orderIn g) (chunksOf (CHUNK_SIZE - 1) frontier) (fold (\<lambda>i m. m(i \<mapsto> [])) frontier Map.empty)"

definition fetchFrontierEdges :: "Graph \<Rightarrow> string list \<Rightarrow> frontier_map" where
  "fetchFrontierEdges g frontier = fetchFrontier (\<lambda>es. es) (\<lambda>es. es) g frontier"

definition fetchDirectedFrontier :: "Graph \<Rightarrow> string list \<Rightarrow> frontier_map" where
  "fetchDirectedFrontier g frontier =
     fetchFrontier (sort_key (\<lambda>e. (e_source e, e_target e, e_relation e))) (sort_key (\<lambda>e. (e_target e, e_source e, e_relation e))) g frontier"

definition uniqueIds :: "string list \<Rightarrow> string list" where
  "uniqueIds ids = fold (\<lambda>i us. if List.member us i then us else us @ [i]) (filter (\<lambda>i. i \<noteq> []) ids) []"

definition getNodesByIds :: "Graph \<Rightarrow> string list \<Rightarrow> (string \<times> LoreNode) list" where
  "getNodesByIds g ids =
     concat (map (\<lambda>i. case getNode g i of None \<Rightarrow> [] | Some n \<Rightarrow> [(i, n)]) (uniqueIds ids))"

text \<open>\<open>Math.min(Math.max(Math.trunc(maxDepth), 1), 5)\<close>\<close>

definition clampDepth :: "rat option \<Rightarrow> nat option" where
  "clampDepth maxDepth =
     map_option (\<lambda>x. nat (min (max (if x \<ge> 0 then floor x else ceiling x) 1) 5)) maxDepth"

record TraversalResult =
  tr_node :: LoreNode
  tr_depth :: nat
  tr_relation :: string

datatype TraverseError = InvalidTraversalDepth

definition traverse :: "(string \<Rightarrow> string \<Rightarrow> int) \<Rightarrow> Graph \<Rightarrow> string \<Rightarrow> rat option \<Rightarrow> TraverseError + TraversalResult list" where
  "traverse lc g nodeId maxDepth =
     (case clampDepth maxDepth of
        None \<Rightarrow> Inl InvalidTraversalDepth
      | Some d \<Rightarrow>
          let (steps, capped) = runTraverseBfs lc nodeId d TRAVERSE_NODE_CAP (fetchFrontierEdges g);
              hydrated = getNodesByIds g (map ts_id steps)
          in Inr (sort_key tr_depth
                    (map (\<lambda>s. \<lparr>tr_node = orElse (map_of hydrated (ts_id s)) (bareNode (ts_id s)),
                               tr_depth = ts_depth s, tr_relation = ts_relation s\<rparr>) steps)))"

record DirectedTraversalResult =
  dr_node :: LoreNode
  dr_depth :: nat
  dr_relation :: string
  dr_direction :: EdgeDirection
  dr_via :: string

definition traverseDirected ::
  "(string \<Rightarrow> string \<Rightarrow> int) \<Rightarrow> Graph \<Rightarrow> string \<Rightarrow> rat option \<Rightarrow> TraverseError + DirectedTraversalResult list" where
  "traverseDirected lc g nodeId maxDepth =
     (case clampDepth maxDepth of
        None \<Rightarrow> Inl InvalidTraversalDepth
      | Some d \<Rightarrow>
          let (steps, capped) = runDirectedTraverseBfs lc nodeId d TRAVERSE_NODE_CAP (fetchDirectedFrontier g);
              hydrated = getNodesByIds g (map ds_to steps)
          in Inr (sort_key dr_depth
                    (map (\<lambda>s. \<lparr>dr_node = orElse (map_of hydrated (ds_to s)) (bareNode (ds_to s)),
                               dr_depth = ds_depth s, dr_relation = ds_relation s,
                               dr_direction = ds_direction s, dr_via = ds_via s\<rparr>) steps)))"

end
