(* ===== verification/GraphTraverseProps.thy ===== *)
theory GraphTraverseProps
  imports GraphTraverse "HOL-Library.Multiset"
begin

text \<open>
  What the walks return. The interface between the walk and an engine is the frontier read: the locale
  \<open>frontier_source\<close> states what the walk relies on, its lemmas are the correctness of the walk over any
  engine, and the two SQLite reads are its instances.
\<close>

section \<open>Sorting and chunking lose nothing\<close>

lemma mset_insertBy [simp]: "mset (insertBy cmp x xs) = add_mset x (mset xs)"
  by (induction xs) auto

lemma mset_sortBy [simp]: "mset (sortBy cmp xs) = mset xs"
  unfolding sortBy_def by (induction xs) auto

lemma set_sortFrontierEdges [simp]: "set (sortFrontierEdges lc es) = set es"
  unfolding sortFrontierEdges_def by (metis mset_sortBy set_mset_mset)

lemma concat_chunksOf [simp]: "concat (chunksOf n xs) = xs"
  by (induction n xs rule: chunksOf.induct) simp_all

section \<open>Distance layers\<close>

definition layer :: "('a \<times> 'a) set \<Rightarrow> 'a \<Rightarrow> nat \<Rightarrow> 'a set" where
  "layer R s k = (R ^^ k) `` {s} - (\<Union>j<k. (R ^^ j) `` {s})"

definition ball :: "('a \<times> 'a) set \<Rightarrow> 'a \<Rightarrow> nat \<Rightarrow> 'a set" where
  "ball R s k = (\<Union>j\<le>k. (R ^^ j) `` {s})"

lemma ball_0 [simp]: "ball R s 0 = {s}" and layer_0 [simp]: "layer R s 0 = {s}"
  by (auto simp: ball_def layer_def)

lemma layer_ball: "layer R s (Suc k) = (R ^^ Suc k) `` {s} - ball R s k"
  by (auto simp: layer_def ball_def less_Suc_eq_le)

lemma ball_Suc: "ball R s (Suc k) = ball R s k \<union> layer R s (Suc k)"
  unfolding layer_ball by (auto simp: ball_def le_Suc_eq simp del: relpow.simps)

lemma layer_sub_ball: "layer R s k \<subseteq> ball R s k"
  by (auto simp: layer_def ball_def)

lemma ball_step: "a \<in> ball R s k \<Longrightarrow> (a, b) \<in> R \<Longrightarrow> b \<in> ball R s (Suc k)"
  unfolding ball_def by (force intro: relpow_Suc_I)

lemma ball_layers: "ball R s k = (\<Union>j\<le>k. layer R s j)"
proof (induction k)
  case (Suc k)
  then show ?case by (auto simp: ball_Suc le_Suc_eq)
qed simp

lemma layer_next: "layer R s (Suc k) = R `` layer R s k - ball R s k"
proof (intro equalityI subsetI DiffI)
  fix b assume b: "b \<in> layer R s (Suc k)"
  then have nb: "b \<notin> ball R s k" by (simp add: layer_ball)
  then show "b \<notin> ball R s k" .
  obtain a where a: "(s, a) \<in> R ^^ k" "(a, b) \<in> R" using b by (auto simp: layer_ball elim: relpow_Suc_E)
  have "a \<notin> (\<Union>j<k. (R ^^ j) `` {s})"
  proof
    assume "a \<in> (\<Union>j<k. (R ^^ j) `` {s})"
    then obtain j where "j < k" "(s, a) \<in> R ^^ j" by auto
    then have "b \<in> ball R s k" using a(2) by (auto simp: ball_def intro!: bexI [of _ "Suc j"] relpow_Suc_I)
    then show False using nb by blast
  qed
  then show "b \<in> R `` layer R s k" using a by (auto simp: layer_def)
next
  fix b assume "b \<in> R `` layer R s k - ball R s k"
  then show "b \<in> layer R s (Suc k)"
    unfolding layer_ball by (auto simp: layer_def simp del: relpow.simps intro: relpow_Suc_I)
qed

lemma layer_empty: "layer R s k = {} \<Longrightarrow> k \<le> m \<Longrightarrow> layer R s m = {}"
proof (induction m)
  case (Suc m)
  then show ?case by (cases "k = Suc m") (auto simp: layer_next le_Suc_eq)
qed simp

lemma layer_disjoint: "i \<in> layer R s k \<Longrightarrow> i \<in> layer R s m \<Longrightarrow> k = m"
  by (cases k m rule: linorder_cases) (auto simp: layer_def)

section \<open>One level of the walk\<close>

text \<open>\<open>new\<close> are the steps the loops append; the ids of those steps go to the visited list and the next frontier.\<close>

definition appends ::
  "nat \<Rightarrow> (FrontierEdgeCandidate \<Rightarrow> bool) \<Rightarrow> string list \<times> string list \<times> TraverseBfsStep list \<Rightarrow> TraverseBfsStep list \<Rightarrow>
   string list \<times> string list \<times> TraverseBfsStep list \<Rightarrow> bool" where
  "appends d E s new s' \<longleftrightarrow>
     (case s of (v, n, st) \<Rightarrow> s' = (v @ map ts_id new, n @ map ts_id new, st @ new) \<and> distinct (map ts_id new) \<and>
        set (map ts_id new) \<inter> set v = {}) \<and>
     (\<forall>x\<in>set new. ts_depth x = d \<and> (\<exists>e. E e \<and> fe_to e = ts_id x \<and> fe_relation e = ts_relation x))"

lemma appends_mono: "appends d E s new s' \<Longrightarrow> (\<And>e. E e \<Longrightarrow> F e) \<Longrightarrow> appends d F s new s'"
  unfolding appends_def by blast

lemma appends_trans:
  assumes "appends d E (v, n, st) a (v1, n1, st1)" "appends d F (v1, n1, st1) b s'"
  shows "appends d (\<lambda>e. E e \<or> F e) (v, n, st) (a @ b) s'"
proof -
  have "\<forall>x\<in>set (a @ b). ts_depth x = d \<and> (\<exists>e. (E e \<or> F e) \<and> fe_to e = ts_id x \<and> fe_relation e = ts_relation x)"
    using assms unfolding appends_def by (metis Un_iff set_append)
  then show ?thesis using assms unfolding appends_def by auto
qed

lemma expandEdges_spec:
  assumes "expandEdges cap d es (v, n, st) = (capped, s')"
  shows "\<exists>new. appends d (\<lambda>e. e \<in> set es) (v, n, st) new s' \<and>
    (capped \<longrightarrow> cap \<le> length (st @ new)) \<and> (length st < cap \<longrightarrow> length (st @ new) \<le> cap) \<and>
    (\<not> capped \<longrightarrow> set (map ts_id new) = fe_to ` set es - set v \<and> (length st < cap \<longrightarrow> length (st @ new) < cap))"
  using assms
proof (induction es arbitrary: v n st)
  case Nil
  then show ?case by (intro exI [of _ "[]"]) (auto simp: appends_def)
next
  case (Cons e es)
  show ?case
  proof (cases "fe_to e \<in> set v")
    case True
    then obtain new where "appends d (\<lambda>x. x \<in> set es) (v, n, st) new s'"
      "capped \<longrightarrow> cap \<le> length (st @ new)" "length st < cap \<longrightarrow> length (st @ new) \<le> cap"
      "\<not> capped \<longrightarrow> set (map ts_id new) = fe_to ` set es - set v \<and> (length st < cap \<longrightarrow> length (st @ new) < cap)"
      using Cons by fastforce
    then show ?thesis using True by (intro exI [of _ new]) (auto simp: appends_def)
  next
    case False
    define x where "x = \<lparr>ts_id = fe_to e, ts_depth = d, ts_relation = fe_relation e\<rparr>"
    show ?thesis
    proof (cases "length st + 1 \<ge> cap")
      case True
      then have "capped" "s' = (v @ [fe_to e], n @ [fe_to e], st @ [x])" using Cons.prems False by (auto simp: x_def)
      then show ?thesis using False True by (intro exI [of _ "[x]"]) (auto simp: appends_def x_def)
    next
      case less: False
      then have "expandEdges cap d es (v @ [fe_to e], n @ [fe_to e], st @ [x]) = (capped, s')"
        using Cons.prems False by (simp add: x_def)
      from Cons.IH [OF this] obtain new where new: "appends d (\<lambda>e. e \<in> set es) (v @ [fe_to e], n @ [fe_to e], st @ [x]) new s'"
        "capped \<longrightarrow> cap \<le> length ((st @ [x]) @ new)" "length (st @ [x]) < cap \<longrightarrow> length ((st @ [x]) @ new) \<le> cap"
        "\<not> capped \<longrightarrow> set (map ts_id new) = fe_to ` set es - set (v @ [fe_to e]) \<and> (length (st @ [x]) < cap \<longrightarrow> length ((st @ [x]) @ new) < cap)"
        by blast
      have x: "ts_id x = fe_to e" "ts_depth x = d" "ts_relation x = fe_relation e" by (simp_all add: x_def)
      have "appends d (\<lambda>f. f \<in> set (e # es)) (v, n, st) (x # new) s'"
        using new(1) False x by (auto simp: appends_def)
      then show ?thesis using new(2-4) less False x by (intro exI [of _ "x # new"]) auto
    qed
  qed
qed

lemma expandFrontier_spec:
  assumes "expandFrontier lc cap d m is (v, n, st) = (capped, s')" "length st < cap"
  shows "\<exists>new. appends d (\<lambda>e. \<exists>i\<in>set is. e \<in> set (orElse (m i) [])) (v, n, st) new s' \<and>
    (capped \<longrightarrow> cap \<le> length (st @ new)) \<and> length (st @ new) \<le> cap \<and>
    (\<not> capped \<longrightarrow> set (map ts_id new) = (\<Union>i\<in>set is. fe_to ` set (orElse (m i) [])) - set v \<and> length (st @ new) < cap)"
  using assms
proof (induction "is" arbitrary: v n st)
  case Nil
  then show ?case by (intro exI [of _ "[]"]) (auto simp: appends_def)
next
  case (Cons i "is")
  obtain c v1 n1 st1 where e: "expandEdges cap d (sortFrontierEdges lc (orElse (m i) [])) (v, n, st) = (c, v1, n1, st1)"
    by (metis surj_pair)
  obtain a where a: "appends d (\<lambda>e. e \<in> set (orElse (m i) [])) (v, n, st) a (v1, n1, st1)"
    "c \<longrightarrow> cap \<le> length (st @ a)" "length (st @ a) \<le> cap"
    "\<not> c \<longrightarrow> set (map ts_id a) = fe_to ` set (orElse (m i) []) - set v \<and> length (st @ a) < cap"
    using expandEdges_spec [OF e] Cons.prems(2) unfolding set_sortFrontierEdges by blast
  show ?case
  proof (cases c)
    case True
    then have "capped" "s' = (v1, n1, st1)" using Cons.prems(1) e by auto
    moreover have "appends d (\<lambda>e. \<exists>j\<in>set (i # is). e \<in> set (orElse (m j) [])) (v, n, st) a (v1, n1, st1)"
      by (rule appends_mono [OF a(1)]) simp
    ultimately show ?thesis using a(2,3) True by blast
  next
    case False
    then have r: "expandFrontier lc cap d m is (v1, n1, st1) = (capped, s')" using Cons.prems(1) e by simp
    have s1: "st1 = st @ a" "v1 = v @ map ts_id a" "n1 = n @ map ts_id a" using a(1) by (auto simp: appends_def)
    have "length st1 < cap" using a(4) False s1 by simp
    from Cons.IH [OF r this] obtain b where b: "appends d (\<lambda>e. \<exists>i\<in>set is. e \<in> set (orElse (m i) [])) (v1, n1, st1) b s'"
      "capped \<longrightarrow> cap \<le> length (st1 @ b)" "length (st1 @ b) \<le> cap"
      "\<not> capped \<longrightarrow> set (map ts_id b) = (\<Union>i\<in>set is. fe_to ` set (orElse (m i) [])) - set v1 \<and> length (st1 @ b) < cap"
      by blast
    have "appends d (\<lambda>e. \<exists>j\<in>set (i # is). e \<in> set (orElse (m j) [])) (v, n, st) (a @ b) s'"
      by (rule appends_mono [OF appends_trans [OF a(1) b(1)]]) auto
    moreover have "set (map ts_id (a @ b)) = (\<Union>j\<in>set (i # is). fe_to ` set (orElse (m j) [])) - set v" if "\<not> capped"
      using a(4) b(4) False that s1 by auto
    ultimately show ?thesis using b s1 by (intro exI [of _ "a @ b"]) auto
  qed
qed

section \<open>The whole walk, over any engine\<close>

locale frontier_source =
  fixes fetch :: "string list \<Rightarrow> frontier_map"
    and edgesAt :: "string \<Rightarrow> FrontierEdgeCandidate set"
  assumes fetch_edges: "distinct F \<Longrightarrow> i \<in> set F \<Longrightarrow> set (orElse (fetch F i) []) = edgesAt i"
begin

definition adj :: "(string \<times> string) set" where
  "adj = {(i, j). \<exists>e\<in>edgesAt i. fe_to e = j}"

definition walkStep :: "string \<Rightarrow> TraverseBfsStep \<Rightarrow> bool" where
  "walkStep s x \<longleftrightarrow> ts_id x \<in> layer adj s (ts_depth x) \<and>
     (\<exists>i\<in>layer adj s (ts_depth x - 1). \<exists>e\<in>edgesAt i. fe_to e = ts_id x \<and> fe_relation e = ts_relation x)"

lemma level_new:
  assumes "expandFrontier lc cap (Suc k) (fetch F) F (V, [], S) = (capped, V', N, S')"
    and "set F = layer adj s k" "distinct F" "set V = ball adj s k" "length S < cap"
  shows "\<exists>new. S' = S @ new \<and> N = map ts_id new \<and> V' = V @ N \<and> distinct N \<and> set N \<subseteq> layer adj s (Suc k) \<and>
    (\<forall>x\<in>set new. ts_depth x = Suc k \<and> walkStep s x) \<and> length S' \<le> cap \<and> (capped \<longrightarrow> cap \<le> length S') \<and>
    (\<not> capped \<longrightarrow> set N = layer adj s (Suc k) \<and> length S' < cap)"
proof -
  have edges: "set (orElse (fetch F i) []) = edgesAt i" if "i \<in> set F" for i using fetch_edges assms(3) that by blast
  have reach: "(\<Union>i\<in>set F. fe_to ` set (orElse (fetch F i) [])) - set V = layer adj s (Suc k)"
    using edges unfolding layer_next assms(2,4) by (auto simp: adj_def)
  obtain new where new: "appends (Suc k) (\<lambda>e. \<exists>i\<in>set F. e \<in> set (orElse (fetch F i) [])) (V, [], S) new (V', N, S')"
    "capped \<longrightarrow> cap \<le> length (S @ new)" "length (S @ new) \<le> cap"
    "\<not> capped \<longrightarrow> set (map ts_id new) = (\<Union>i\<in>set F. fe_to ` set (orElse (fetch F i) [])) - set V \<and> length (S @ new) < cap"
    using expandFrontier_spec [OF assms(1,5)] by blast
  have shape: "V' = V @ map ts_id new" "N = map ts_id new" "S' = S @ new" "distinct (map ts_id new)" "set (map ts_id new) \<inter> set V = {}"
    using new(1) by (auto simp: appends_def)
  have steps: "ts_depth x = Suc k \<and> (\<exists>i\<in>layer adj s k. \<exists>e\<in>edgesAt i. fe_to e = ts_id x \<and> fe_relation e = ts_relation x)" if "x \<in> set new" for x
    using new(1) that edges assms(2) unfolding appends_def by blast
  have sub: "set (map ts_id new) \<subseteq> layer adj s (Suc k)"
  proof
    fix j assume j: "j \<in> set (map ts_id new)"
    then obtain x where x: "x \<in> set new" "ts_id x = j" by auto
    obtain i e where "i \<in> layer adj s k" "e \<in> edgesAt i" "fe_to e = j" using steps [OF x(1)] x(2) by blast
    moreover have "j \<notin> ball adj s k" using shape(5) j assms(4) by blast
    ultimately show "j \<in> layer adj s (Suc k)" unfolding layer_next by (auto simp: adj_def)
  qed
  have walk: "ts_depth x = Suc k \<and> walkStep s x" if "x \<in> set new" for x
  proof -
    have "ts_id x \<in> layer adj s (Suc k)" using sub that by auto
    then show ?thesis using steps [OF that] unfolding walkStep_def by (metis diff_Suc_1)
  qed
  show ?thesis using shape sub walk new(2-4) reach by (intro exI [of _ new]) auto
qed

lemma levels_spec:
  assumes "bfsLevels lc fetch cap left (Suc k) F V S = (steps, capped)"
    and "set F = layer adj s k" "distinct F" "set V = ball adj s k" "length S < cap"
  shows "\<exists>new. steps = S @ new \<and> distinct (map ts_id new) \<and> sorted (map ts_depth new) \<and>
    (\<forall>x\<in>set new. walkStep s x \<and> k < ts_depth x \<and> ts_depth x \<le> k + left) \<and> length steps \<le> cap \<and>
    (capped \<longrightarrow> cap \<le> length steps) \<and>
    (\<not> capped \<longrightarrow> length steps < cap \<and> (\<forall>j. k < j \<and> j \<le> k + left \<longrightarrow> layer adj s j \<subseteq> set (map ts_id new)))"
  using assms
proof (induction left arbitrary: k F V S)
  case 0
  then show ?case by (intro exI [of _ "[]"]) auto
next
  case (Suc left)
  obtain c V' N S' where e: "expandFrontier lc cap (Suc k) (fetch F) F (V, [], S) = (c, V', N, S')" by (metis surj_pair)
  obtain a where a: "S' = S @ a" "N = map ts_id a" "V' = V @ N" "distinct N" "set N \<subseteq> layer adj s (Suc k)"
    "\<forall>x\<in>set a. ts_depth x = Suc k \<and> walkStep s x" "length S' \<le> cap" "c \<longrightarrow> cap \<le> length S'"
    "\<not> c \<longrightarrow> set N = layer adj s (Suc k) \<and> length S' < cap"
    using level_new [OF e Suc.prems(2-5)] by blast
  have flat: "sorted (map ts_depth a)" using a(6) by (simp add: sorted_wrt_map sorted_wrt_iff_nth_less)
  show ?case
  proof (cases "c \<or> N = []")
    case True
    then have r: "steps = S'" "capped = c" using Suc.prems(1) e by (auto split: bool.splits)
    have "layer adj s j \<subseteq> set (map ts_id a)" if "\<not> c" "k < j" for j
    proof -
      have "layer adj s (Suc k) = {}" using True a(9) that(1) by auto
      then show ?thesis using layer_empty [of adj s "Suc k" j] that(2) by auto
    qed
    then show ?thesis using a r flat by (intro exI [of _ a]) auto
  next
    case False
    then have run: "bfsLevels lc fetch cap left (Suc (Suc k)) N V' S' = (steps, capped)" using Suc.prems(1) e by auto
    have "set V' = ball adj s (Suc k)" using a(3,9) False Suc.prems(4) by (auto simp: ball_Suc)
    from Suc.IH [OF run _ a(4) this] obtain b where b: "steps = S' @ b" "distinct (map ts_id b)" "sorted (map ts_depth b)"
      "\<forall>x\<in>set b. walkStep s x \<and> Suc k < ts_depth x \<and> ts_depth x \<le> Suc k + left" "length steps \<le> cap" "capped \<longrightarrow> cap \<le> length steps"
      "\<not> capped \<longrightarrow> length steps < cap \<and> (\<forall>j. Suc k < j \<and> j \<le> Suc k + left \<longrightarrow> layer adj s j \<subseteq> set (map ts_id b))"
      using a(9) False by blast
    have "ts_id x \<noteq> ts_id y" if "x \<in> set a" "y \<in> set b" for x y
      using that a(6) b(4) layer_disjoint unfolding walkStep_def by (metis less_irrefl)
    then have "distinct (map ts_id (a @ b))" using a(2,4) b(2) by auto
    moreover have "sorted (map ts_depth (a @ b))" using flat b(3,4) a(6) by (auto simp: sorted_append)
    moreover have "layer adj s j \<subseteq> set (map ts_id (a @ b))" if "\<not> capped" "k < j" "j \<le> k + Suc left" for j
    proof (cases "j = Suc k")
      case True
      then show ?thesis using a(2,9) False by auto
    next
      case neq: False
      then have "layer adj s j \<subseteq> set (map ts_id b)" using b(7) that by auto
      then show ?thesis by auto
    qed
    moreover have "walkStep s x \<and> k < ts_depth x \<and> ts_depth x \<le> k + Suc left" if "x \<in> set (a @ b)" for x
      using that a(6) b(4) by (metis Suc_lessD Un_iff add_Suc_right add_Suc_shift le_add1 lessI set_append)
    moreover have "steps = S @ (a @ b)" using a(1) b(1) by simp
    ultimately show ?thesis using b(5-7) by blast
  qed
qed

lemma walk_exact:
  assumes "runTraverseBfs lc s d cap fetch = (steps, capped)" "0 < cap"
  shows "distinct (map ts_id steps)" "sorted (map ts_depth steps)" "length steps \<le> cap" "capped \<longleftrightarrow> length steps = cap"
    and "\<And>x. x \<in> set steps \<Longrightarrow> walkStep s x \<and> 1 \<le> ts_depth x \<and> ts_depth x \<le> d"
    and "\<not> capped \<Longrightarrow> (\<lambda>x. (ts_id x, ts_depth x)) ` set steps = {(i, k). 1 \<le> k \<and> k \<le> d \<and> i \<in> layer adj s k}"
proof -
  have run: "bfsLevels lc fetch cap d (Suc 0) [s] [s] [] = (steps, capped)"
    using assms(1) by (simp add: runTraverseBfs_def)
  from levels_spec [OF run, of s] assms(2)
  have sp: "distinct (map ts_id steps)" "sorted (map ts_depth steps)" "\<forall>x\<in>set steps. walkStep s x \<and> 0 < ts_depth x \<and> ts_depth x \<le> 0 + d"
    "length steps \<le> cap" "capped \<longrightarrow> cap \<le> length steps"
    "\<not> capped \<longrightarrow> length steps < cap \<and> (\<forall>j. 0 < j \<and> j \<le> 0 + d \<longrightarrow> layer adj s j \<subseteq> set (map ts_id steps))"
    by auto
  then show "distinct (map ts_id steps)" "sorted (map ts_depth steps)" "length steps \<le> cap" "capped \<longleftrightarrow> length steps = cap"
    "\<And>x. x \<in> set steps \<Longrightarrow> walkStep s x \<and> 1 \<le> ts_depth x \<and> ts_depth x \<le> d" by auto
  show "(\<lambda>x. (ts_id x, ts_depth x)) ` set steps = {(i, k). 1 \<le> k \<and> k \<le> d \<and> i \<in> layer adj s k}" if nc: "\<not> capped"
  proof (intro equalityI subsetI)
    fix p assume "p \<in> {(i, k). 1 \<le> k \<and> k \<le> d \<and> i \<in> layer adj s k}"
    then obtain i k where p: "p = (i, k)" "1 \<le> k" "k \<le> d" "i \<in> layer adj s k" by auto
    have "layer adj s k \<subseteq> set (map ts_id steps)" using sp(6) nc p(2,3) by simp
    then obtain x where x: "x \<in> set steps" "ts_id x = i" using p(4) by auto
    then have "ts_depth x = k" using sp(3) p(4) layer_disjoint unfolding walkStep_def by metis
    then show "p \<in> (\<lambda>x. (ts_id x, ts_depth x)) ` set steps" using x p(1) by force
  qed (use sp(3) in \<open>auto simp: walkStep_def\<close>)
qed

end

section \<open>The SQLite frontier reads\<close>

definition edgesAt :: "Graph \<Rightarrow> string \<Rightarrow> FrontierEdgeCandidate set" where
  "edgesAt g i = outEdge ` {e \<in> set (liveEdges g). e_source e = i} \<union> inEdge ` {e \<in> set (liveEdges g). e_target e = i}"

text \<open>What a frontier map holds for one node.\<close>

definition edgesIn :: "frontier_map \<Rightarrow> string \<Rightarrow> FrontierEdgeCandidate set" where
  "edgesIn m i = set (orElse (m i) [])"

lemma edgesIn_upd [simp]: "edgesIn (m(j \<mapsto> cs)) i = (if i = j then set cs else edgesIn m i)"
  by (simp add: edgesIn_def)

lemma edgesIn_push: "edgesIn (pushEdge j c m) i = edgesIn m i \<union> (if i = j then {c} else {})"
  unfolding pushEdge_def edgesIn_upd by (simp add: edgesIn_def)

lemma fold_pushEdge: "edgesIn (fold (\<lambda>e. pushEdge (f e) (h e)) rows m) i = edgesIn m i \<union> h ` {e \<in> set rows. f e = i}"
  by (induction rows arbitrary: m) (auto simp: edgesIn_push)

lemma fetchChunk_edges:
  assumes "\<And>es. set (oo es) = set es" "\<And>es. set (oi es) = set es"
  shows "edgesIn (fetchChunk oo oi g ch m) i = edgesIn m i \<union> (if i \<in> set ch then edgesAt g i else {})"
  unfolding fetchChunk_def Let_def fold_pushEdge assms by (auto simp: edgesAt_def)

lemma fetchFrontier_edges:
  assumes "\<And>es. set (oo es) = set es" "\<And>es. set (oi es) = set es" "i \<in> set F"
  shows "edgesIn (fetchFrontier oo oi g F) i = edgesAt g i"
proof -
  have chunks: "edgesIn (fold (fetchChunk oo oi g) chs m) i = edgesIn m i \<union> (if i \<in> set (concat chs) then edgesAt g i else {})" for chs m
    by (induction chs arbitrary: m) (auto simp: fetchChunk_edges [OF assms(1,2)])
  have init: "edgesIn (fold (\<lambda>i m. m(i \<mapsto> [])) is m) i \<subseteq> edgesIn m i" for "is" m
  proof (induction "is" arbitrary: m)
    case (Cons j "is")
    have "edgesIn (m(j \<mapsto> [])) i \<subseteq> edgesIn m i" unfolding edgesIn_upd by simp
    then show ?case using Cons [of "m(j \<mapsto> [])"] unfolding fold_simps by blast
  qed simp
  have "edgesIn Map.empty i = {}" by (simp add: edgesIn_def)
  then show ?thesis unfolding fetchFrontier_def chunks using assms(3) init [of F Map.empty] by auto
qed

interpretation sq: frontier_source "fetchFrontierEdges g" "edgesAt g" for g
  by unfold_locales (simp only: fetchFrontierEdges_def fetchFrontier_edges flip: edgesIn_def)

interpretation sqd: frontier_source "fetchDirectedFrontier g" "edgesAt g" for g
  by unfold_locales (simp only: fetchDirectedFrontier_def fetchFrontier_edges set_sort flip: edgesIn_def)

text \<open>Two nodes are neighbours when a live edge joins them, in either direction.\<close>

definition neighbours :: "Graph \<Rightarrow> (string \<times> string) set" where
  "neighbours g = {(i, j). \<exists>e\<in>set (gEdges g). e_validTo e = None \<and>
     (e_source e = i \<and> e_target e = j \<or> e_source e = j \<and> e_target e = i)}"

lemma adj_neighbours: "sq.adj g = neighbours g"
  unfolding sq.adj_def neighbours_def edgesAt_def
  by (auto simp: liveEdges_def outEdge_def inEdge_def split: if_splits) (force simp: outEdge_def inEdge_def)+

section \<open>What \<open>traverse\<close> returns\<close>

lemma set_uniqueIds: "set (uniqueIds ids) = set ids - {[]}"
proof -
  have "set (fold (\<lambda>i us. if List.member us i then us else us @ [i]) xs us) = set xs \<union> set us" for xs us :: "string list"
    by (induction xs arbitrary: us) auto
  then show ?thesis by (auto simp: uniqueIds_def)
qed

lemma getNodesByIds_lookup: "map_of (getNodesByIds g ids) i = (if i \<in> set ids \<and> i \<noteq> [] then getNode g i else None)"
proof -
  have look: "map_of (concat (map (\<lambda>i. case getNode g i of None \<Rightarrow> [] | Some n \<Rightarrow> [(i, n)]) us)) i = (if i \<in> set us then getNode g i else None)" for us
    by (induction us) (auto split: option.splits)
  show ?thesis unfolding getNodesByIds_def look by (simp add: set_uniqueIds)
qed

lemma getNode_id: "getNode g i = Some n \<Longrightarrow> ln_id n = i"
  by (auto simp: getNode_def rowToLoreNode_def dest: nodeRow_id)

lemma clampDepth_range: "clampDepth md = Some d \<Longrightarrow> 1 \<le> d \<and> d \<le> 5"
  by (auto simp: clampDepth_def)

lemma sort_key_sorted: "sorted (map f xs) \<Longrightarrow> sort_key f xs = xs"
  by (rule sort_key_id_if_sorted)

text \<open>C25: the walk is exact. \<open>traverse\<close> refuses only a depth that is not a number and clamps every other to
  1..5. Its result lists every node at most once, nearest first, never the seed, at most 10000 of them; each is
  reported at its exact distance over live edges taken in either direction, with the relation of a live edge
  from a node one step closer, and carries the stored node. Below the cap the result holds exactly the nodes
  at distance 1 to the clamped depth.\<close>

theorem traverse_exact:
  assumes "traverse lc g s md = Inr res"
  shows "\<exists>d. clampDepth md = Some d \<and> 1 \<le> d \<and> d \<le> 5 \<and> distinct (map (ln_id \<circ> tr_node) res) \<and> sorted (map tr_depth res) \<and>
    length res \<le> TRAVERSE_NODE_CAP \<and>
    (\<forall>x\<in>set res. 1 \<le> tr_depth x \<and> tr_depth x \<le> d \<and> ln_id (tr_node x) \<in> layer (neighbours g) s (tr_depth x) \<and>
       (\<exists>i\<in>layer (neighbours g) s (tr_depth x - 1). \<exists>e\<in>edgesAt g i. fe_to e = ln_id (tr_node x) \<and> fe_relation e = tr_relation x) \<and>
       (ln_id (tr_node x) = [] \<or> getNode g (ln_id (tr_node x)) \<in> {None, Some (tr_node x)})) \<and>
    (length res < TRAVERSE_NODE_CAP \<longrightarrow>
       (\<lambda>x. (ln_id (tr_node x), tr_depth x)) ` set res = {(i, k). 1 \<le> k \<and> k \<le> d \<and> i \<in> layer (neighbours g) s k})"
proof -
  obtain d where d: "clampDepth md = Some d" using assms by (cases "clampDepth md") (auto simp: traverse_def)
  obtain steps capped where run: "runTraverseBfs lc s d TRAVERSE_NODE_CAP (fetchFrontierEdges g) = (steps, capped)" by (metis surj_pair)
  note w = sq.walk_exact [OF run, unfolded adj_neighbours sq.walkStep_def]
  have pos: "0 < TRAVERSE_NODE_CAP" by (simp add: TRAVERSE_NODE_CAP_def)
  define f where "f x = \<lparr>tr_node = orElse (map_of (getNodesByIds g (map ts_id steps)) (ts_id x)) (bareNode (ts_id x)),
      tr_depth = ts_depth x, tr_relation = ts_relation x\<rparr>" for x :: TraverseBfsStep
  have f [simp]: "ln_id (tr_node (f x)) = ts_id x" "tr_depth (f x) = ts_depth x" "tr_relation (f x) = ts_relation x" for x
    by (auto simp: f_def getNodesByIds_lookup bareNode_def dest: getNode_id split: option.split)
  have "res = sort_key tr_depth (map f steps)" using assms d run by (simp add: traverse_def f_def [abs_def])
  also have "\<dots> = map f steps" using w(2) [OF pos] by (intro sort_key_sorted) (simp add: comp_def)
  finally have res: "res = map f steps" .
  have node: "ts_id x = [] \<or> getNode g (ts_id x) \<in> {None, Some (tr_node (f x))}" if "x \<in> set steps" for x
    using that by (cases "getNode g (ts_id x)") (auto simp: f_def getNodesByIds_lookup)
  have eq: "(\<lambda>x. (ln_id (tr_node x), tr_depth x)) ` set res = (\<lambda>x. (ts_id x, ts_depth x)) ` set steps"
    by (simp add: res image_image)
  show ?thesis
    using d clampDepth_range [OF d] w [OF pos] node eq by (auto simp: res comp_def)
qed

definition sampleCompare :: "string \<Rightarrow> string \<Rightarrow> int" where
  "sampleCompare a b = (if a < b then -1 else if a = b then 0 else 1)"

theorem traverse_exact_witness:
  "\<exists>res. traverse sampleCompare linkedGraph ''a'' (Some 2) = Inr res \<and> distinct (map (ln_id \<circ> tr_node) res) \<and>
     sorted (map tr_depth res) \<and> length res \<le> TRAVERSE_NODE_CAP"
proof -
  obtain res where "traverse sampleCompare linkedGraph ''a'' (Some 2) = Inr res"
    by (cases "traverse sampleCompare linkedGraph ''a'' (Some 2)") (auto simp: traverse_def clampDepth_def split_beta Let_def)
  then show ?thesis using traverse_exact by blast
qed

section \<open>The directed walk\<close>

definition stepOf :: "nat \<Rightarrow> string \<Rightarrow> FrontierEdgeCandidate \<Rightarrow> DirectedBfsStep" where
  "stepOf depth via e = \<lparr>ds_to = fe_to e, ds_depth = depth, ds_relation = fe_relation e, ds_direction = fe_direction e, ds_via = via\<rparr>"

definition stepKey :: "DirectedBfsStep \<Rightarrow> string" where
  "stepKey x = ds_via x @ ''|'' @ directionText (ds_direction x) @ ''|'' @ ds_relation x @ ''|'' @ ds_to x"

lemma stepKey_stepOf [simp]: "stepKey (stepOf d via e) = directedKey via e"
  by (simp add: stepKey_def stepOf_def directedKey_def)

text \<open>The emitted keys are the keys of the steps, and every step reports an edge of the list \<open>E\<close>.\<close>

definition emittedOk :: "DirectedState \<Rightarrow> bool" where
  "emittedOk s \<longleftrightarrow> dsEmitted s = map stepKey (dsSteps s) \<and> distinct (dsEmitted s)"

lemma emitEdge_sel [simp]:
  "dsVisited (emitEdge d via e s) = dsVisited s" "dsNext (emitEdge d via e s) = dsNext s"
  by (simp_all add: emitEdge_def)

lemma emitEdge_steps:
  "dsSteps (emitEdge d via e s) = dsSteps s @ (if directedKey via e \<in> set (dsEmitted s) then [] else [stepOf d via e])"
  by (simp add: emitEdge_def stepOf_def)

lemma emitEdge_ok: "emittedOk s \<Longrightarrow> emittedOk (emitEdge d via e s)"
  by (auto simp: emittedOk_def emitEdge_def stepKey_def directedKey_def)

lemma emitEdge_emitted: "emittedOk s \<Longrightarrow> directedKey via e \<in> stepKey ` set (dsSteps (emitEdge d via e s))"
  unfolding emitEdge_steps emittedOk_def by auto

lemma visitTarget_sel [simp]: "dsSteps (visitTarget e s) = dsSteps s" "dsEmitted (visitTarget e s) = dsEmitted s"
  by (simp_all add: visitTarget_def)

lemma visitTarget_ok [simp]: "emittedOk (visitTarget e s) = emittedOk s"
  by (simp add: emittedOk_def)

definition visits :: "DirectedState \<Rightarrow> string list \<Rightarrow> DirectedState \<Rightarrow> bool" where
  "visits s ids s' \<longleftrightarrow> dsVisited s' = dsVisited s @ ids \<and> dsNext s' = dsNext s @ ids \<and> distinct ids \<and> set ids \<inter> set (dsVisited s) = {}"

lemma visits_trans: "visits s is s1 \<Longrightarrow> visits s1 js s2 \<Longrightarrow> visits s (is @ js) s2"
  by (auto simp: visits_def)

lemma visits_target: "visits s (if fe_to e \<in> set (dsVisited s) then [] else [fe_to e]) (visitTarget e s)"
  by (auto simp: visits_def visitTarget_def)

definition emits :: "nat \<Rightarrow> (string \<Rightarrow> FrontierEdgeCandidate \<Rightarrow> bool) \<Rightarrow> DirectedState \<Rightarrow> DirectedState \<Rightarrow> bool" where
  "emits d E s s' \<longleftrightarrow> emittedOk s' \<and>
     (\<exists>new. dsSteps s' = dsSteps s @ new \<and> (\<forall>x\<in>set new. \<exists>via e. E via e \<and> x = stepOf d via e))"

lemma emits_trans: "emits d E s s1 \<Longrightarrow> emits d F s1 s2 \<Longrightarrow> emits d (\<lambda>via e. E via e \<or> F via e) s s2"
  unfolding emits_def by (auto simp: ball_Un) blast+

lemma emits_mono: "emits d E s s' \<Longrightarrow> (\<And>via e. E via e \<Longrightarrow> F via e) \<Longrightarrow> emits d F s s'"
  unfolding emits_def by meson

lemma emits_steps: "emits d E s s' \<Longrightarrow> set (dsSteps s) \<subseteq> set (dsSteps s')"
  by (auto simp: emits_def)

lemma directedEdges_spec:
  assumes "directedEdges seed cap d via es s = (capped, s')" "emittedOk s" "length (dsSteps s) < cap"
  shows "emits d (\<lambda>v e. v = via \<and> e \<in> set es \<and> fe_to e \<noteq> seed) s s' \<and> length (dsSteps s') \<le> cap \<and>
    (capped \<longrightarrow> cap \<le> length (dsSteps s')) \<and>
    (\<not> capped \<longrightarrow> length (dsSteps s') < cap \<and> (\<forall>e\<in>set es. fe_to e \<noteq> seed \<longrightarrow> directedKey via e \<in> stepKey ` set (dsSteps s')) \<and>
      (\<exists>ids. visits s ids s' \<and> set ids = fe_to ` {e \<in> set es. fe_to e \<noteq> seed} - set (dsVisited s)))"
  using assms
proof (induction es arbitrary: s)
  case Nil
  then show ?case by (auto simp: emits_def visits_def)
next
  case (Cons e es)
  show ?case
  proof (cases "fe_to e = seed")
    case True
    then have "directedEdges seed cap d via es s = (capped, s')" using Cons.prems(1) by simp
    note IH = Cons.IH [OF this Cons.prems(2,3)]
    have same: "{f \<in> set (e # es). fe_to f \<noteq> seed} = {f \<in> set es. fe_to f \<noteq> seed}" using True by auto
    have "(\<lambda>v f. v = via \<and> f \<in> set (e # es) \<and> fe_to f \<noteq> seed) = (\<lambda>v f. v = via \<and> f \<in> set es \<and> fe_to f \<noteq> seed)"
      using True by (auto simp: fun_eq_iff)
    then show ?thesis using IH True unfolding same by auto
  next
    case seed: False
    define s1 where "s1 = emitEdge d via e s"
    have e1: "emits d (\<lambda>v f. v = via \<and> f = e) s s1" using emitEdge_ok [OF Cons.prems(2)]
      by (auto simp: emits_def s1_def emitEdge_steps)
    have key: "directedKey via e \<in> stepKey ` set (dsSteps s1)" unfolding s1_def by (rule emitEdge_emitted [OF Cons.prems(2)])
    show ?thesis
    proof (cases "directedKey via e \<notin> set (dsEmitted s) \<and> length (dsSteps s) + 1 \<ge> cap")
      case True
      then have "capped" "s' = s1" using Cons.prems(1) seed by (auto simp: s1_def)
      then show ?thesis using emits_mono [OF e1] seed True Cons.prems(3) by (auto simp: s1_def emitEdge_steps)
    next
      case False
      define s2 where "s2 = visitTarget e s1"
      have run: "directedEdges seed cap d via es s2 = (capped, s')" using Cons.prems(1) seed False by (auto simp: s1_def s2_def)
      have ok2: "emittedOk s2" using e1 by (simp add: s2_def emits_def)
      have len2: "length (dsSteps s2) < cap" using False Cons.prems(3) by (auto simp: s2_def s1_def emitEdge_steps)
      note IH = Cons.IH [OF run ok2 len2]
      have e2: "emits d (\<lambda>v f. v = via \<and> f = e) s s2" using e1 by (simp add: emits_def s2_def)
      have all: "emits d (\<lambda>v f. v = via \<and> f \<in> set (e # es) \<and> fe_to f \<noteq> seed) s s'"
        using IH seed by (intro emits_mono [OF emits_trans [OF e2]]) auto
      have key': "directedKey via e \<in> stepKey ` set (dsSteps s')"
        using key IH emits_steps [of d _ s2 s'] by (auto simp: s2_def)
      have v2: "visits s (if fe_to e \<in> set (dsVisited s) then [] else [fe_to e]) s2"
        using visits_target [of s1 e] by (simp add: visits_def s2_def s1_def)
      have "\<exists>ids. visits s ids s' \<and> set ids = fe_to ` {f \<in> set (e # es). fe_to f \<noteq> seed} - set (dsVisited s)" if nc: "\<not> capped"
      proof -
        obtain ids where ids: "visits s2 ids s'" "set ids = fe_to ` {e \<in> set es. fe_to e \<noteq> seed} - set (dsVisited s2)" using IH nc by blast
        have vis: "set (dsVisited s2) = insert (fe_to e) (set (dsVisited s))" using v2 by (auto simp: visits_def)
        show ?thesis using visits_trans [OF v2 ids(1)] ids(2) seed vis by (intro exI conjI) (auto split: if_splits)
      qed
      then show ?thesis using IH all key' by auto
    qed
  qed
qed

lemma directedFrontier_spec:
  assumes "directedFrontier lc seed cap d m is s = (capped, s')" "emittedOk s" "length (dsSteps s) < cap"
  shows "emits d (\<lambda>v e. v \<in> set is \<and> e \<in> edgesIn m v \<and> fe_to e \<noteq> seed) s s' \<and> length (dsSteps s') \<le> cap \<and>
    (capped \<longrightarrow> cap \<le> length (dsSteps s')) \<and>
    (\<not> capped \<longrightarrow> length (dsSteps s') < cap \<and>
      (\<forall>i\<in>set is. \<forall>e\<in>edgesIn m i. fe_to e \<noteq> seed \<longrightarrow> directedKey i e \<in> stepKey ` set (dsSteps s')) \<and>
      (\<exists>ids. visits s ids s' \<and> set ids = fe_to ` {e. (\<exists>i\<in>set is. e \<in> edgesIn m i) \<and> fe_to e \<noteq> seed} - set (dsVisited s)))"
  using assms
proof (induction "is" arbitrary: s)
  case Nil
  then show ?case by (auto simp: emits_def visits_def)
next
  case (Cons i "is")
  obtain c s1 where e: "directedEdges seed cap d i (sortFrontierEdges lc (orElse (m i) [])) s = (c, s1)" by (metis surj_pair)
  have a: "emits d (\<lambda>v e. v = i \<and> e \<in> edgesIn m i \<and> fe_to e \<noteq> seed) s s1" "length (dsSteps s1) \<le> cap" "c \<longrightarrow> cap \<le> length (dsSteps s1)"
    "\<not> c \<longrightarrow> length (dsSteps s1) < cap \<and> (\<forall>e\<in>edgesIn m i. fe_to e \<noteq> seed \<longrightarrow> directedKey i e \<in> stepKey ` set (dsSteps s1)) \<and>
      (\<exists>ids. visits s ids s1 \<and> set ids = fe_to ` {e \<in> edgesIn m i. fe_to e \<noteq> seed} - set (dsVisited s))"
    using directedEdges_spec [OF e Cons.prems(2,3)] unfolding set_sortFrontierEdges edgesIn_def [symmetric] by blast+
  show ?case
  proof (cases c)
    case True
    then have "capped" "s' = s1" using Cons.prems(1) e by auto
    moreover have "emits d (\<lambda>v e. v \<in> set (i # is) \<and> e \<in> edgesIn m v \<and> fe_to e \<noteq> seed) s s1"
      by (rule emits_mono [OF a(1)]) simp
    ultimately show ?thesis using a(2,3) True by blast
  next
    case False
    then have r: "directedFrontier lc seed cap d m is s1 = (capped, s')" using Cons.prems(1) e by simp
    have ok1: "emittedOk s1" using a(1) by (simp add: emits_def)
    have len1: "length (dsSteps s1) < cap" using a(4) False by simp
    note IH = Cons.IH [OF r ok1 len1]
    have "emits d (\<lambda>v e. v \<in> set (i # is) \<and> e \<in> edgesIn m v \<and> fe_to e \<noteq> seed) s s'"
      using IH by (intro emits_mono [OF emits_trans [OF a(1)]]) auto
    moreover have "directedKey j f \<in> stepKey ` set (dsSteps s')" if "\<not> capped" "j \<in> set (i # is)" "f \<in> edgesIn m j" "fe_to f \<noteq> seed" for j f
    proof (cases "j \<in> set is")
      case True
      then show ?thesis using IH that by blast
    next
      case no: False
      then have "directedKey j f \<in> stepKey ` set (dsSteps s1)" using a(4) False that by simp
      then show ?thesis using IH emits_steps [of d _ s1 s'] by blast
    qed
    moreover have "\<exists>ids. visits s ids s' \<and> set ids = fe_to ` {e. (\<exists>j\<in>set (i # is). e \<in> edgesIn m j) \<and> fe_to e \<noteq> seed} - set (dsVisited s)"
      if nc: "\<not> capped"
    proof -
      obtain x where x: "visits s x s1" "set x = fe_to ` {e \<in> edgesIn m i. fe_to e \<noteq> seed} - set (dsVisited s)" using a(4) False by blast
      obtain y where y: "visits s1 y s'" "set y = fe_to ` {e. (\<exists>i\<in>set is. e \<in> edgesIn m i) \<and> fe_to e \<noteq> seed} - set (dsVisited s1)"
        using IH nc by blast
      have "set (dsVisited s1) = set (dsVisited s) \<union> set x" using x(1) by (simp add: visits_def)
      then have "set (x @ y) = fe_to ` {e. (\<exists>j\<in>set (i # is). e \<in> edgesIn m j) \<and> fe_to e \<noteq> seed} - set (dsVisited s)"
        using x(2) y(2) by auto
      then show ?thesis using visits_trans [OF x(1) y(1)] by blast
    qed
    ultimately show ?thesis using IH by blast
  qed
qed

context frontier_source
begin

definition directedStep :: "string \<Rightarrow> DirectedBfsStep \<Rightarrow> bool" where
  "directedStep s x \<longleftrightarrow> (\<exists>e. 0 < ds_depth x \<and> ds_via x \<in> layer adj s (ds_depth x - 1) \<and> e \<in> edgesAt (ds_via x) \<and>
     fe_to e \<noteq> s \<and> x = stepOf (ds_depth x) (ds_via x) e)"

lemma directed_level:
  assumes "directedFrontier lc seed cap (Suc k) (fetch F) F (s\<lparr>dsNext := []\<rparr>) = (capped, s')"
    and "set F = layer adj seed k" "distinct F" "set (dsVisited s) = ball adj seed k" "emittedOk s" "length (dsSteps s) < cap"
  shows "emittedOk s'" "length (dsSteps s') \<le> cap" "capped \<Longrightarrow> cap \<le> length (dsSteps s')"
    and "\<exists>new. dsSteps s' = dsSteps s @ new \<and> (\<forall>x\<in>set new. directedStep seed x \<and> ds_depth x = Suc k)"
    and "\<not> capped \<Longrightarrow> length (dsSteps s') < cap \<and> set (dsNext s') = layer adj seed (Suc k) \<and> distinct (dsNext s') \<and>
      set (dsVisited s') = ball adj seed (Suc k) \<and>
      (\<forall>i\<in>layer adj seed k. \<forall>e\<in>edgesAt i. fe_to e \<noteq> seed \<longrightarrow> directedKey i e \<in> stepKey ` set (dsSteps s'))"
proof -
  let ?s = "s\<lparr>dsNext := []\<rparr>"
  have ok: "emittedOk ?s" "length (dsSteps ?s) < cap" using assms(5,6) by (auto simp: emittedOk_def)
  have edges: "edgesIn (fetch F) i = edgesAt i" if "i \<in> set F" for i
    unfolding edgesIn_def by (rule fetch_edges [OF assms(3) that])
  note sp = directedFrontier_spec [OF assms(1) ok]
  show "emittedOk s'" "length (dsSteps s') \<le> cap" "capped \<Longrightarrow> cap \<le> length (dsSteps s')" using sp by (auto simp: emits_def)
  obtain new where new: "dsSteps s' = dsSteps s @ new"
    "\<forall>x\<in>set new. \<exists>via e. (via \<in> set F \<and> e \<in> edgesIn (fetch F) via \<and> fe_to e \<noteq> seed) \<and> x = stepOf (Suc k) via e"
    using sp by (auto simp: emits_def)
  have "directedStep seed x \<and> ds_depth x = Suc k" if "x \<in> set new" for x
  proof -
    obtain via e where "via \<in> set F" "e \<in> edgesIn (fetch F) via" "fe_to e \<noteq> seed" "x = stepOf (Suc k) via e" using new(2) \<open>x \<in> set new\<close> by blast
    then show ?thesis using edges assms(2) by (auto simp: directedStep_def stepOf_def intro!: exI [of _ e])
  qed
  then show "\<exists>new. dsSteps s' = dsSteps s @ new \<and> (\<forall>x\<in>set new. directedStep seed x \<and> ds_depth x = Suc k)" using new(1) by blast
  assume nc: "\<not> capped"
  obtain ids where ids: "visits ?s ids s'" "set ids = fe_to ` {e. (\<exists>i\<in>set F. e \<in> edgesIn (fetch F) i) \<and> fe_to e \<noteq> seed} - set (dsVisited ?s)"
    using sp nc by blast
  have "seed \<in> ball adj seed k" unfolding ball_def by (rule UN_I [of 0]) auto
  then have lay: "set ids = layer adj seed (Suc k)"
    unfolding ids(2) layer_next using edges assms(2,4) by (auto simp: adj_def)
  have shape: "dsVisited s' = dsVisited s @ ids" "dsNext s' = ids" "distinct ids" using ids(1) by (auto simp: visits_def)
  have "set (dsVisited s') = ball adj seed (Suc k)" using shape lay assms(4) by (simp add: ball_Suc)
  moreover have "\<forall>i\<in>layer adj seed k. \<forall>e\<in>edgesAt i. fe_to e \<noteq> seed \<longrightarrow> directedKey i e \<in> stepKey ` set (dsSteps s')"
    using sp nc edges assms(2) by metis
  ultimately show "length (dsSteps s') < cap \<and> set (dsNext s') = layer adj seed (Suc k) \<and> distinct (dsNext s') \<and>
      set (dsVisited s') = ball adj seed (Suc k) \<and>
      (\<forall>i\<in>layer adj seed k. \<forall>e\<in>edgesAt i. fe_to e \<noteq> seed \<longrightarrow> directedKey i e \<in> stepKey ` set (dsSteps s'))"
    using shape lay sp nc by simp
qed

lemma directed_levels:
  assumes "directedLevels lc fetch seed cap left (Suc k) F s = (steps, capped)"
    and "set F = layer adj seed k" "distinct F" "set (dsVisited s) = ball adj seed k" "emittedOk s" "length (dsSteps s) < cap"
  shows "\<exists>new. steps = dsSteps s @ new \<and> distinct (map stepKey steps) \<and> sorted (map ds_depth new) \<and>
    (\<forall>x\<in>set new. directedStep seed x \<and> k < ds_depth x \<and> ds_depth x \<le> k + left) \<and> length steps \<le> cap \<and>
    (capped \<longrightarrow> cap \<le> length steps) \<and>
    (\<not> capped \<longrightarrow> length steps < cap \<and> (\<forall>j i e. k \<le> j \<and> j < k + left \<and> i \<in> layer adj seed j \<and> e \<in> edgesAt i \<and> fe_to e \<noteq> seed \<longrightarrow>
        directedKey i e \<in> stepKey ` set steps))"
  using assms
proof (induction left arbitrary: k F s)
  case 0
  then show ?case by (auto simp: emittedOk_def)
next
  case (Suc left)
  obtain c s1 where e: "directedFrontier lc seed cap (Suc k) (fetch F) F (s\<lparr>dsNext := []\<rparr>) = (c, s1)" by (metis surj_pair)
  note l = directed_level [OF e Suc.prems(2-6)]
  obtain a where a: "dsSteps s1 = dsSteps s @ a" "\<forall>x\<in>set a. directedStep seed x \<and> ds_depth x = Suc k" using l(4) by blast
  have flat: "sorted (map ds_depth a)" using a(2) by (simp add: sorted_wrt_map sorted_wrt_iff_nth_less)
  have dist: "distinct (map stepKey (dsSteps s1))" using l(1) unfolding emittedOk_def by metis
  show ?case
  proof (cases "c \<or> dsNext s1 = []")
    case True
    then have r: "steps = dsSteps s1" "capped = c" using Suc.prems(1) e by (auto split: bool.splits)
    have "directedKey i f \<in> stepKey ` set steps" if "\<not> c" "k \<le> j" "i \<in> layer adj seed j" "f \<in> edgesAt i" "fe_to f \<noteq> seed" for i j f
    proof -
      have "layer adj seed (Suc k) = {}" using True l(5) that(1) by auto
      then have "j = k" using layer_empty [of adj seed "Suc k" j] that(2,3) by (cases "j = k") auto
      then show ?thesis using l(5) that r(1) by blast
    qed
    then show ?thesis using a r flat l(2,3,5) dist by (intro exI [of _ a]) auto
  next
    case False
    then have run: "directedLevels lc fetch seed cap left (Suc (Suc k)) (dsNext s1) s1 = (steps, capped)" using Suc.prems(1) e by auto
    have nx: "set (dsNext s1) = layer adj seed (Suc k)" "distinct (dsNext s1)" "set (dsVisited s1) = ball adj seed (Suc k)" "length (dsSteps s1) < cap"
      using l(5) False by auto
    from Suc.IH [OF run nx(1-3) l(1) nx(4)] obtain b where b: "steps = dsSteps s1 @ b" "distinct (map stepKey steps)" "sorted (map ds_depth b)"
      "\<forall>x\<in>set b. directedStep seed x \<and> Suc k < ds_depth x \<and> ds_depth x \<le> Suc k + left" "length steps \<le> cap" "capped \<longrightarrow> cap \<le> length steps"
      "\<not> capped \<longrightarrow> length steps < cap \<and> (\<forall>j i e. Suc k \<le> j \<and> j < Suc k + left \<and> i \<in> layer adj seed j \<and> e \<in> edgesAt i \<and> fe_to e \<noteq> seed \<longrightarrow>
        directedKey i e \<in> stepKey ` set steps)"
      by blast
    have "directedKey i f \<in> stepKey ` set steps" if "\<not> capped" "k \<le> j" "j < k + Suc left" "i \<in> layer adj seed j" "f \<in> edgesAt i" "fe_to f \<noteq> seed" for i j f
    proof (cases "j = k")
      case True
      then have "directedKey i f \<in> stepKey ` set (dsSteps s1)" using l(5) False that by blast
      then show ?thesis using b(1) by auto
    next
      case neq: False
      then have "Suc k \<le> j" "j < Suc k + left" using that(2,3) by auto
      then show ?thesis using b(7) that by blast
    qed
    moreover have "sorted (map ds_depth (a @ b))" using flat b(3,4) a(2) by (auto simp: sorted_append)
    moreover have "directedStep seed x \<and> k < ds_depth x \<and> ds_depth x \<le> k + Suc left" if "x \<in> set (a @ b)" for x
      using that a(2) b(4) by (metis Suc_lessD Un_iff add_Suc_right add_Suc_shift le_add1 lessI set_append)
    moreover have "steps = dsSteps s @ (a @ b)" using a(1) b(1) by simp
    ultimately show ?thesis using b(2,5-7) by blast
  qed
qed

lemma directed_walk_exact:
  assumes "runDirectedTraverseBfs lc s d cap fetch = (steps, capped)" "0 < cap"
  shows "distinct (map stepKey steps)" "sorted (map ds_depth steps)" "length steps \<le> cap" "capped \<longleftrightarrow> length steps = cap"
    and "\<And>x. x \<in> set steps \<Longrightarrow> directedStep s x \<and> ds_depth x \<le> d"
    and "\<And>j i e. \<not> capped \<Longrightarrow> j < d \<Longrightarrow> i \<in> layer adj s j \<Longrightarrow> e \<in> edgesAt i \<Longrightarrow> fe_to e \<noteq> s \<Longrightarrow> directedKey i e \<in> stepKey ` set steps"
proof -
  have run: "directedLevels lc fetch s cap d (Suc 0) [s] \<lparr>dsVisited = [s], dsEmitted = [], dsNext = [], dsSteps = []\<rparr> = (steps, capped)"
    using assms(1) by (simp add: runDirectedTraverseBfs_def)
  obtain new where sp: "steps = new" "distinct (map stepKey steps)" "sorted (map ds_depth new)"
    "\<forall>x\<in>set new. directedStep s x \<and> 0 < ds_depth x \<and> ds_depth x \<le> 0 + d" "length steps \<le> cap" "capped \<longrightarrow> cap \<le> length steps"
    "\<not> capped \<longrightarrow> length steps < cap \<and> (\<forall>j i e. 0 \<le> j \<and> j < 0 + d \<and> i \<in> layer adj s j \<and> e \<in> edgesAt i \<and> fe_to e \<noteq> s \<longrightarrow>
        directedKey i e \<in> stepKey ` set steps)"
    using directed_levels [OF run] assms(2) by (auto simp: emittedOk_def)
  then show "distinct (map stepKey steps)" "sorted (map ds_depth steps)" "length steps \<le> cap" "capped \<longleftrightarrow> length steps = cap"
    "\<And>x. x \<in> set steps \<Longrightarrow> directedStep s x \<and> ds_depth x \<le> d" by auto
  show "directedKey i e \<in> stepKey ` set steps" if "\<not> capped" "j < d" "i \<in> layer adj s j" "e \<in> edgesAt i" "fe_to e \<noteq> s" for j i e
    using sp(7) that by auto
qed

end

definition barFree :: "Graph \<Rightarrow> bool" where
  "barFree g \<longleftrightarrow> (\<forall>e\<in>set (gEdges g). CHR ''|'' \<notin> set (e_source e) \<union> set (e_target e) \<union> set (e_relation e))"

lemma directedKey_inj:
  assumes "directedKey i e = directedKey j f" "barFree g" "e \<in> edgesAt g i" "f \<in> edgesAt g j"
  shows "i = j \<and> e = f"
proof -
  have free: "CHR ''|'' \<notin> set k \<and> CHR ''|'' \<notin> set (fe_relation x)" if "x \<in> edgesAt g k" for k x
    using that assms(2) by (auto simp: edgesAt_def barFree_def liveEdges_def outEdge_def inEdge_def)
  have dir: "CHR ''|'' \<notin> set (directionText t)" for t by (cases t) auto
  have k: "directedKey k x = k @ CHR ''|'' # directionText (fe_direction x) @ CHR ''|'' # fe_relation x @ CHR ''|'' # fe_to x" for k x
    by (simp add: directedKey_def)
  note one = split_at_sep [OF assms(1) [unfolded k]]
  note two = split_at_sep [OF conjunct2 [OF one] dir dir]
  have "i = j" using one free assms(3,4) by blast
  moreover have "directionText (fe_direction e) = directionText (fe_direction f)" using two free assms(3,4) by blast
  then have "fe_direction e = fe_direction f" by (cases "fe_direction e"; cases "fe_direction f") auto
  moreover have "fe_relation e = fe_relation f \<and> fe_to e = fe_to f"
    using split_at_sep [OF conjunct2 [OF two]] free assms(3,4) by blast
  ultimately show ?thesis by simp
qed

lemma adjd_neighbours: "sqd.adj g = neighbours g"
  using adj_neighbours by (simp add: sq.adj_def sqd.adj_def)

text \<open>How a result of the directed walk describes the edge it reports.\<close>

definition reportOf :: "DirectedTraversalResult \<Rightarrow> string \<times> EdgeDirection \<times> string \<times> string \<times> nat" where
  "reportOf x = (dr_via x, dr_direction x, dr_relation x, ln_id (dr_node x), dr_depth x)"

definition edgeReports :: "Graph \<Rightarrow> string \<Rightarrow> nat \<Rightarrow> (string \<times> EdgeDirection \<times> string \<times> string \<times> nat) set" where
  "edgeReports g s d = {(i, fe_direction e, fe_relation e, fe_to e, Suc k) |i e k.
     k < d \<and> i \<in> layer (neighbours g) s k \<and> e \<in> edgesAt g i \<and> fe_to e \<noteq> s}"

text \<open>Note: the directed walk rebuilds the subgraph. In a graph whose ids and relations contain no vertical bar,
  \<open>traverseDirected\<close> reports, nearest first, each live edge that starts at a node closer than the clamped depth and
  does not lead back to the seed: in the direction it points seen from that node, at the node's distance plus
  one, never twice, and below the cap of 10000 all of them.\<close>

theorem traverse_directed_exact:
  assumes "traverseDirected lc g s md = Inr res" "barFree g"
  shows "\<exists>d. clampDepth md = Some d \<and> sorted (map dr_depth res) \<and> distinct (map reportOf res) \<and> length res \<le> TRAVERSE_NODE_CAP \<and>
    set (map reportOf res) \<subseteq> edgeReports g s d \<and>
    (length res < TRAVERSE_NODE_CAP \<longrightarrow> set (map reportOf res) = edgeReports g s d)"
proof -
  obtain d where d: "clampDepth md = Some d" using assms by (cases "clampDepth md") (auto simp: traverseDirected_def)
  obtain steps capped where run: "runDirectedTraverseBfs lc s d TRAVERSE_NODE_CAP (fetchDirectedFrontier g) = (steps, capped)" by (metis surj_pair)
  have "0 < TRAVERSE_NODE_CAP" by (simp add: TRAVERSE_NODE_CAP_def)
  note w = sqd.directed_walk_exact [OF run this, unfolded adjd_neighbours sqd.directedStep_def]
  define f where "f x = \<lparr>dr_node = orElse (map_of (getNodesByIds g (map ds_to steps)) (ds_to x)) (bareNode (ds_to x)),
      dr_depth = ds_depth x, dr_relation = ds_relation x, dr_direction = ds_direction x, dr_via = ds_via x\<rparr>" for x :: DirectedBfsStep
  have f: "reportOf (f x) = (ds_via x, ds_direction x, ds_relation x, ds_to x, ds_depth x)" "dr_depth (f x) = ds_depth x" for x
    by (auto simp: f_def reportOf_def getNodesByIds_lookup bareNode_def dest: getNode_id split: option.split)
  have "res = sort_key dr_depth (map f steps)" using assms(1) d run by (simp add: traverseDirected_def f_def [abs_def])
  also have "\<dots> = map f steps" using w(2) by (intro sort_key_sorted) (simp add: comp_def f)
  finally have res: "res = map f steps" .
  define keyOf where "keyOf = (\<lambda>(v, dir, rel, t, k::nat). v @ ''|'' @ directionText dir @ ''|'' @ rel @ ''|'' @ t)"
  have "map stepKey steps = map keyOf (map reportOf res)" by (simp add: res f keyOf_def stepKey_def comp_def)
  then have dist: "distinct (map reportOf res)" using w(1) by (metis distinct_map)
  have sub: "set (map reportOf res) \<subseteq> edgeReports g s d"
  proof
    fix p assume "p \<in> set (map reportOf res)"
    then obtain x where x: "x \<in> set steps" "p = reportOf (f x)" by (auto simp: res)
    obtain e where e: "0 < ds_depth x" "ds_via x \<in> layer (neighbours g) s (ds_depth x - 1)" "e \<in> edgesAt g (ds_via x)" "fe_to e \<noteq> s"
      "x = stepOf (ds_depth x) (ds_via x) e" "ds_depth x \<le> d" using w(5) [OF x(1)] by blast
    have "ds_relation x = fe_relation e" "ds_direction x = fe_direction e" "ds_to x = fe_to e" by (subst e(5); simp add: stepOf_def)+
    then have "p = (ds_via x, fe_direction e, fe_relation e, fe_to e, Suc (ds_depth x - 1))" using x(2) e(1) by (simp add: f)
    moreover have "ds_depth x - 1 < d" using e(1,6) by auto
    ultimately show "p \<in> edgeReports g s d" using e(2-4) unfolding edgeReports_def by blast
  qed
  have "edgeReports g s d \<subseteq> set (map reportOf res)" if len: "length res < TRAVERSE_NODE_CAP"
  proof
    fix p assume "p \<in> edgeReports g s d"
    then obtain i e k where p: "p = (i, fe_direction e, fe_relation e, fe_to e, Suc k)" "k < d" "i \<in> layer (neighbours g) s k"
      "e \<in> edgesAt g i" "fe_to e \<noteq> s" unfolding edgeReports_def by blast
    have "\<not> capped" using w(4) len by (simp add: res)
    then obtain x where x: "x \<in> set steps" "stepKey x = directedKey i e" using w(6) p(2-5) by (metis imageE)
    obtain e' where e': "0 < ds_depth x" "ds_via x \<in> layer (neighbours g) s (ds_depth x - 1)" "e' \<in> edgesAt g (ds_via x)"
      "x = stepOf (ds_depth x) (ds_via x) e'" using w(5) [OF x(1)] by blast
    have "directedKey (ds_via x) e' = directedKey i e" using x(2) e'(4) stepKey_stepOf by metis
    then have same: "ds_via x = i" "e' = e" using directedKey_inj [OF _ assms(2) e'(3) p(4)] by auto
    then have "ds_depth x - 1 = k" using e'(2) p(3) layer_disjoint by metis
    then have depth: "ds_depth x = Suc k" using e'(1) by simp
    have "ds_relation x = fe_relation e" "ds_direction x = fe_direction e" "ds_to x = fe_to e"
      unfolding same(2) [symmetric] by (subst e'(4); simp add: stepOf_def)+
    then have "reportOf (f x) = p" using same(1) depth p(1) by (simp add: f)
    then show "p \<in> set (map reportOf res)" using x(1) by (auto simp: res)
  qed
  then show ?thesis using d w(2,3) dist sub by (intro exI [of _ d]) (auto simp: res f comp_def)
qed

lemma linkedGraph_barFree: "barFree linkedGraph"
proof -
  have "edgeKeyOf e = (''a'', ''b'', ''cites'')" if "e \<in> set (gEdges linkedGraph)" for e
    using that linkedGraph_edges by (cases "gEdges linkedGraph") auto
  then show ?thesis by (auto simp: barFree_def)
qed

theorem traverse_directed_exact_witness:
  "\<exists>res. traverseDirected sampleCompare linkedGraph ''a'' (Some 3) = Inr res \<and> distinct (map reportOf res) \<and>
     set (map reportOf res) \<subseteq> edgeReports linkedGraph ''a'' 3"
proof -
  have d: "clampDepth (Some 3) = Some 3" by (simp add: clampDepth_def)
  obtain res where "traverseDirected sampleCompare linkedGraph ''a'' (Some 3) = Inr res"
    by (cases "traverseDirected sampleCompare linkedGraph ''a'' (Some 3)") (auto simp: traverseDirected_def d split_beta Let_def)
  moreover from traverse_directed_exact [OF this linkedGraph_barFree] obtain d where "clampDepth (Some 3) = Some d"
    "distinct (map reportOf res)" "set (map reportOf res) \<subseteq> edgeReports linkedGraph ''a'' d" by blast
  ultimately show ?thesis using d by auto
qed

section \<open>One order whatever the engine returns\<close>

lemma insertBy_sorted:
  assumes "\<And>a b. cmp a b \<le> 0 \<or> cmp b a \<le> 0" "\<And>a b c. cmp a b \<le> 0 \<Longrightarrow> cmp b c \<le> 0 \<Longrightarrow> cmp a c \<le> 0"
    and "sorted_wrt (\<lambda>a b. cmp a b \<le> 0) xs"
  shows "sorted_wrt (\<lambda>a b. cmp a b \<le> 0) (insertBy cmp x xs)"
  using assms(3)
proof (induction xs)
  case (Cons y ys)
  have set: "set (insertBy cmp x ys) = insert x (set ys)" by (metis mset_insertBy set_mset_add_mset_insert set_mset_mset)
  show ?case
  proof (cases "cmp x y \<le> 0")
    case True
    then show ?thesis using Cons.prems assms(2) by auto
  next
    case False
    then have "cmp y x \<le> 0" using assms(1) by blast
    then show ?thesis using Cons False set by auto
  qed
qed simp

lemma sorted_unique:
  assumes "\<And>a b. cmp a b \<le> (0::int) \<Longrightarrow> cmp b a \<le> 0 \<Longrightarrow> a = b" "mset xs = mset ys"
    and "sorted_wrt (\<lambda>a b. cmp a b \<le> 0) xs" "sorted_wrt (\<lambda>a b. cmp a b \<le> 0) ys"
  shows "xs = ys"
  using assms(2-)
proof (induction xs arbitrary: ys)
  case (Cons x xs)
  then obtain y ys' where y: "ys = y # ys'" by (cases ys) auto
  have "x = y"
  proof (rule ccontr)
    assume "x \<noteq> y"
    moreover have "x \<in> set ys" "y \<in> set (x # xs)" using Cons.prems(1) y by (metis list.set_intros(1) set_mset_mset)+
    ultimately show False using assms(1) [of x y] Cons.prems(2,3) y by auto
  qed
  then show ?case using Cons y by simp
qed simp

text \<open>What the sort relies on: a comparison that is a total order on strings.\<close>

definition lawfulCompare :: "(string \<Rightarrow> string \<Rightarrow> int) \<Rightarrow> bool" where
  "lawfulCompare lc \<longleftrightarrow> (\<forall>a b. lc a b = 0 \<longleftrightarrow> a = b) \<and> (\<forall>a b. lc a b \<le> 0 \<longleftrightarrow> lc b a \<ge> 0) \<and>
     (\<forall>a b c. lc a b \<le> 0 \<longrightarrow> lc b c \<le> 0 \<longrightarrow> lc a c \<le> 0)"

lemma edgeCompare_lawful:
  assumes "lawfulCompare lc"
  shows "edgeCompare lc a b \<le> 0 \<or> edgeCompare lc b a \<le> 0"
    and "edgeCompare lc a b \<le> 0 \<Longrightarrow> edgeCompare lc b a \<le> 0 \<Longrightarrow> a = b"
    and "edgeCompare lc a b \<le> 0 \<Longrightarrow> edgeCompare lc b c \<le> 0 \<Longrightarrow> edgeCompare lc a c \<le> 0"
proof -
  have z: "lc x y = 0 \<longleftrightarrow> x = y" and t: "lc x y \<le> 0 \<longleftrightarrow> lc y x \<ge> 0" and tr: "lc x y \<le> 0 \<Longrightarrow> lc y v \<le> 0 \<Longrightarrow> lc x v \<le> 0" for x y v
    using assms by (auto simp: lawfulCompare_def)
  have lt: "lc x y < 0 \<longleftrightarrow> lc x y \<le> 0 \<and> x \<noteq> y" for x y using z [of x y] by auto
  have zz: "lc x x = 0" for x using z by simp
  have le: "edgeCompare lc x y \<le> 0 \<longleftrightarrow> (fe_direction x = DirOut \<and> fe_direction y = DirIn) \<or>
      (fe_direction x = fe_direction y \<and> (lc (fe_relation x) (fe_relation y) < 0 \<or>
         fe_relation x = fe_relation y \<and> lc (fe_to x) (fe_to y) \<le> 0))" for x y
    by (cases "fe_direction x"; cases "fe_direction y") (auto simp: edgeCompare_def Let_def z zz lt)
  have anti: "lc x y \<le> 0 \<Longrightarrow> lc y x \<le> 0 \<Longrightarrow> x = y" for x y using z t by (metis order_antisym)
  have total: "lc x y \<le> 0 \<or> lc y x \<le> 0" for x y using t by (metis linear)
  show "edgeCompare lc a b \<le> 0 \<or> edgeCompare lc b a \<le> 0"
    unfolding le lt using total [of "fe_relation a" "fe_relation b"] total [of "fe_to a" "fe_to b"]
    by (cases "fe_direction a"; cases "fe_direction b") auto
  show "a = b" if "edgeCompare lc a b \<le> 0" "edgeCompare lc b a \<le> 0"
    using that unfolding le lt
    using anti [of "fe_relation a" "fe_relation b"] anti [of "fe_to a" "fe_to b"] by (intro FrontierEdgeCandidate.equality) auto
  show "edgeCompare lc a c \<le> 0" if "edgeCompare lc a b \<le> 0" "edgeCompare lc b c \<le> 0"
    using that unfolding le lt
    using tr [of "fe_relation a" "fe_relation b" "fe_relation c"] tr [of "fe_to a" "fe_to b" "fe_to c"] anti [of "fe_relation a" "fe_relation b"]
    by auto
qed

text \<open>Note: the expansion order does not depend on the engine. With a string comparison that is a total order, two
  engines that return the same edges of a node in any order expand the node in the same order.\<close>

theorem frontier_order_canonical:
  assumes "lawfulCompare lc" "mset es = mset fs"
  shows "sortFrontierEdges lc es = sortFrontierEdges lc fs"
proof -
  note law = edgeCompare_lawful [OF assms(1)]
  have sorted: "sorted_wrt (\<lambda>a b. edgeCompare lc a b \<le> 0) (sortBy (edgeCompare lc) xs)" for xs
    unfolding sortBy_def by (induction xs) (simp_all add: insertBy_sorted [OF law(1) law(3)])
  show ?thesis unfolding sortFrontierEdges_def
    by (rule sorted_unique [where cmp = "edgeCompare lc", OF law(2)]) (auto simp: assms(2) sorted)
qed

theorem frontier_order_canonical_witness:
  "sortFrontierEdges sampleCompare [\<lparr>fe_to = ''b'', fe_relation = ''r'', fe_direction = DirIn\<rparr>, \<lparr>fe_to = ''a'', fe_relation = ''r'', fe_direction = DirOut\<rparr>] =
   sortFrontierEdges sampleCompare [\<lparr>fe_to = ''a'', fe_relation = ''r'', fe_direction = DirOut\<rparr>, \<lparr>fe_to = ''b'', fe_relation = ''r'', fe_direction = DirIn\<rparr>]"
proof (rule frontier_order_canonical)
  show "lawfulCompare sampleCompare" by (auto simp: lawfulCompare_def sampleCompare_def)
qed simp

end
