(* ===== verification/ReadCache.thy ===== *)
theory ReadCache
  imports Json
begin

text \<open>
  The in-process read cache in front of the graph (\<open>engines/cache.ts\<close>): key construction, the LRU map
  with a time to live, the epoch that every write bumps, the per-kind statistics and the reconfiguration.

  A JavaScript \<open>Map\<close> is the list of its entries in insertion order. \<open>createHash('sha1')\<close> with the cut to
  16 digits is the argument \<open>sha\<close>, the estimate of a value's size the argument \<open>sz\<close>
  (\<open>estimateBytes\<close> is the estimate for JSON values), the clock the argument \<open>now\<close>. \<open>memoize\<close> awaits its
  loader, so it is two halves between which anything may run.
\<close>

section \<open>Keys and sizes\<close>

fun stableStringify :: "json \<Rightarrow> string" where
  "stableStringify (JArr xs) = CHR ''['' # joinComma (map stableStringify xs) @ '']''"
| "stableStringify (JObj kvs) =
     CHR ''{'' # joinComma (map snd (sort_key fst (map (\<lambda>(k, v). (k, quoteStr k @ CHR '':'' # stableStringify v)) kvs))) @ ''}''"
| "stableStringify v = stringify v"

definition cacheKey :: "(string \<Rightarrow> string) \<Rightarrow> string \<Rightarrow> string \<Rightarrow> nat \<Rightarrow> json \<Rightarrow> string" where
  "cacheKey sha kind workspace epoch params =
     ''v1|'' @ kind @ ''|'' @ workspace @ ''|'' @ showNat epoch @ ''|'' @ sha (stableStringify params)"

fun estimateBytes :: "json \<Rightarrow> nat" where
  "estimateBytes (JStr s) = length s * 2 + 8"
| "estimateBytes JNull = 0"
| "estimateBytes (JNum n) = 8"
| "estimateBytes (JBool b) = 8"
| "estimateBytes (JArr xs) = 8 + sum_list (map estimateBytes xs)"
| "estimateBytes (JObj kvs) = 16 + sum_list (map (\<lambda>(k, v). length k * 2 + estimateBytes v) kvs)"

section \<open>The cache\<close>

record 'v CacheEntry =
  ce_value :: 'v
  ce_insertedAt :: ms
  ce_expiresAt :: ms
  ce_bytes :: int

definition LATENCY_BUCKETS_MS :: "int list" where
  "LATENCY_BUCKETS_MS = [1, 5, 10, 25, 50, 100, 250, 500, 1000]"

record LatencyHistogram =
  lh_counts :: "nat list"
  lh_n :: nat
  lh_sumMs :: int
  lh_minMs :: int
  lh_maxMs :: int

record PerKindStats =
  pk_hits :: nat
  pk_misses :: nat
  pk_loaderLatency :: LatencyHistogram

record 'v ReadCache =
  rcMap :: "(string \<times> 'v CacheEntry) list"
  rcMaxSize :: int
  rcTtlMs :: int
  rcDisabled :: bool
  rcMaxBytes :: int
  rcTotalBytes :: int
  rcEpoch :: nat
  rcHits :: nat
  rcMisses :: nat
  rcEvictions :: nat
  rcInvalidations :: nat
  rcByKind :: "(string \<times> PerKindStats) list"

record CacheOptions =
  co_maxSize :: "int option"
  co_ttlMs :: "int option"
  co_disabled :: "bool option"
  co_maxBytes :: "int option"

abbreviation orDefault :: "'a option \<Rightarrow> 'a \<Rightarrow> 'a" where
  "orDefault x y \<equiv> (case x of None \<Rightarrow> y | Some v \<Rightarrow> v)"

definition newReadCache :: "CacheOptions \<Rightarrow> 'v ReadCache" where
  "newReadCache opts = \<lparr>
     rcMap = [], rcMaxSize = orDefault (co_maxSize opts) 500, rcTtlMs = orDefault (co_ttlMs opts) 60000,
     rcDisabled = orDefault (co_disabled opts) False, rcMaxBytes = orDefault (co_maxBytes opts) (256 * 1024 * 1024),
     rcTotalBytes = 0, rcEpoch = 0, rcHits = 0, rcMisses = 0, rcEvictions = 0, rcInvalidations = 0, rcByKind = []\<rparr>"

text \<open>The segment between the first two bars.\<close>

definition kindOf :: "string \<Rightarrow> string option" where
  "kindOf key =
     (case dropWhile (\<lambda>c. c \<noteq> CHR ''|'') key of
        [] \<Rightarrow> None
      | b # rest \<Rightarrow> if CHR ''|'' \<in> set rest then Some (takeWhile (\<lambda>c. c \<noteq> CHR ''|'') rest) else None)"

definition MAX_TRACKED_KINDS :: nat where
  "MAX_TRACKED_KINDS = 64"

definition freshStats :: PerKindStats where
  "freshStats = \<lparr>pk_hits = 0, pk_misses = 0, pk_loaderLatency =
     \<lparr>lh_counts = replicate (length LATENCY_BUCKETS_MS + 1) 0, lh_n = 0, lh_sumMs = 0, lh_minMs = 0, lh_maxMs = 0\<rparr>\<rparr>"

text \<open>\<open>statsForKind\<close> followed by an update of what it returned; \<open>None\<close> beyond the cap on kinds.\<close>

definition updStats :: "string option \<Rightarrow> (PerKindStats \<Rightarrow> PerKindStats) \<Rightarrow> 'v ReadCache \<Rightarrow> 'v ReadCache" where
  "updStats kind f c =
     (case kind of
        None \<Rightarrow> c
      | Some k \<Rightarrow>
          (case map_of (rcByKind c) k of
             Some s \<Rightarrow> c\<lparr>rcByKind := AList.update k (f s) (rcByKind c)\<rparr>
           | None \<Rightarrow> if length (rcByKind c) \<ge> MAX_TRACKED_KINDS then c
                     else c\<lparr>rcByKind := rcByKind c @ [(k, f freshStats)]\<rparr>))"

text \<open>An empty kind string is falsy in \<open>get\<close>, not in \<open>recordLoaderLatency\<close>.\<close>

definition truthyKind :: "string option \<Rightarrow> string option" where
  "truthyKind kind = (case kind of Some k \<Rightarrow> if k = [] then None else Some k | None \<Rightarrow> None)"

fun bucketIndex :: "int list \<Rightarrow> int \<Rightarrow> nat" where
  "bucketIndex [] t = 0"
| "bucketIndex (b # bs) t = (if t < b then 0 else Suc (bucketIndex bs t))"

definition observe :: "int \<Rightarrow> LatencyHistogram \<Rightarrow> LatencyHistogram" where
  "observe t h =
     (let i = bucketIndex LATENCY_BUCKETS_MS t
      in \<lparr>lh_counts = (lh_counts h)[i := lh_counts h ! i + 1], lh_n = lh_n h + 1, lh_sumMs = lh_sumMs h + t,
          lh_minMs = (if lh_n h + 1 = 1 then t else min (lh_minMs h) t), lh_maxMs = max (lh_maxMs h) t\<rparr>)"

definition recordLoaderLatency :: "string option \<Rightarrow> int \<Rightarrow> 'v ReadCache \<Rightarrow> 'v ReadCache" where
  "recordLoaderLatency kind t c = updStats kind (\<lambda>s. s\<lparr>pk_loaderLatency := observe t (pk_loaderLatency s)\<rparr>) c"

definition bumpEpoch :: "'v ReadCache \<Rightarrow> 'v ReadCache" where
  "bumpEpoch c = c\<lparr>rcEpoch := rcEpoch c + 1, rcInvalidations := rcInvalidations c + 1, rcMap := [], rcTotalBytes := 0\<rparr>"

definition mapDelete :: "string \<Rightarrow> (string \<times> 'e) list \<Rightarrow> (string \<times> 'e) list" where
  "mapDelete key m = filter (\<lambda>p. fst p \<noteq> key) m"

text \<open>\<open>Map.set\<close>: in place when the key is there, else at the end.\<close>

definition mapSet :: "string \<Rightarrow> 'e \<Rightarrow> (string \<times> 'e) list \<Rightarrow> (string \<times> 'e) list" where
  "mapSet key e m = (if map_of m key = None then m @ [(key, e)] else map (\<lambda>p. if fst p = key then (key, e) else p) m)"

definition missed :: "string \<Rightarrow> 'v ReadCache \<Rightarrow> 'v ReadCache" where
  "missed key c = updStats (truthyKind (kindOf key)) (\<lambda>s. s\<lparr>pk_misses := pk_misses s + 1\<rparr>) (c\<lparr>rcMisses := rcMisses c + 1\<rparr>)"

definition cacheGet :: "ms \<Rightarrow> string \<Rightarrow> 'v ReadCache \<Rightarrow> 'v option \<times> 'v ReadCache" where
  "cacheGet now key c =
     (if rcDisabled c then (None, c)
      else case map_of (rcMap c) key of
             None \<Rightarrow> (None, missed key c)
           | Some e \<Rightarrow>
               if ce_expiresAt e \<le> now
               then (None, missed key (c\<lparr>rcMap := mapDelete key (rcMap c), rcTotalBytes := rcTotalBytes c - ce_bytes e\<rparr>))
               else (Some (ce_value e),
                     updStats (truthyKind (kindOf key)) (\<lambda>s. s\<lparr>pk_hits := pk_hits s + 1\<rparr>)
                       (c\<lparr>rcMap := mapSet key e (mapDelete key (rcMap c)), rcHits := rcHits c + 1\<rparr>)))"

text \<open>The eviction loop: the remaining entries, the byte total and the number of evictions.\<close>

fun evictLoop :: "int \<Rightarrow> int \<Rightarrow> int \<Rightarrow> (string \<times> 'v CacheEntry) list \<Rightarrow> int \<Rightarrow> nat \<Rightarrow> (string \<times> 'v CacheEntry) list \<times> int \<times> nat" where
  "evictLoop maxSize maxBytes bytes [] used n = ([], used, n)"
| "evictLoop maxSize maxBytes bytes (p # ps) used n =
     (if int (length (p # ps)) \<ge> maxSize \<or> used + bytes > maxBytes
      then evictLoop maxSize maxBytes bytes ps (used - ce_bytes (snd p)) (Suc n)
      else (p # ps, used, n))"

definition cacheSet :: "('v \<Rightarrow> nat) \<Rightarrow> ms \<Rightarrow> string \<Rightarrow> 'v \<Rightarrow> ms option \<Rightarrow> 'v ReadCache \<Rightarrow> 'v ReadCache" where
  "cacheSet sz now key value ttlOverrideMs c =
     (if rcDisabled c then c
      else let ttl = orDefault ttlOverrideMs (rcTtlMs c);
               bytes = int (sz value);
               used = (case map_of (rcMap c) key of None \<Rightarrow> rcTotalBytes c | Some e \<Rightarrow> rcTotalBytes c - ce_bytes e);
               (m, t, n) = evictLoop (rcMaxSize c) (rcMaxBytes c) bytes (rcMap c) used (rcEvictions c)
           in c\<lparr>rcMap := mapSet key \<lparr>ce_value = value, ce_insertedAt = now, ce_expiresAt = now + ttl, ce_bytes = bytes\<rparr> m,
                rcTotalBytes := t + bytes, rcEvictions := n\<rparr>)"

definition cacheDelete :: "string \<Rightarrow> 'v ReadCache \<Rightarrow> 'v ReadCache" where
  "cacheDelete key c =
     (case map_of (rcMap c) key of
        None \<Rightarrow> c
      | Some e \<Rightarrow> c\<lparr>rcTotalBytes := rcTotalBytes c - ce_bytes e, rcMap := mapDelete key (rcMap c),
                    rcInvalidations := rcInvalidations c + 1\<rparr>)"

definition cacheClear :: "'v ReadCache \<Rightarrow> 'v ReadCache" where
  "cacheClear c = c\<lparr>rcInvalidations := rcInvalidations c + (if rcMap c \<noteq> [] then 1 else 0), rcMap := []\<rparr>"

definition configure :: "CacheOptions \<Rightarrow> 'v ReadCache \<Rightarrow> 'v ReadCache" where
  "configure opts c =
     (let c1 = (case co_maxSize opts of
                  Some n \<Rightarrow>
                    if n > 0
                    then let k = length (rcMap c) - nat n
                         in c\<lparr>rcMaxSize := n, rcMap := drop k (rcMap c), rcEvictions := rcEvictions c + k\<rparr>
                    else c
                | None \<Rightarrow> c);
          c2 = (case co_ttlMs opts of Some t \<Rightarrow> if t > 0 then c1\<lparr>rcTtlMs := t\<rparr> else c1 | None \<Rightarrow> c1)
      in case co_disabled opts of
           None \<Rightarrow> c2
         | Some d \<Rightarrow> (if d \<and> \<not> rcDisabled c2 then cacheClear c2 else c2)\<lparr>rcDisabled := d\<rparr>)"

definition resetStats :: "'v ReadCache \<Rightarrow> 'v ReadCache" where
  "resetStats c = c\<lparr>rcHits := 0, rcMisses := 0, rcEvictions := 0, rcInvalidations := 0, rcByKind := []\<rparr>"

text \<open>The half of \<open>memoize\<close> after the loader resolved; the half before it is \<^const>\<open>cacheGet\<close>.\<close>

definition memoizeFinish :: "('v \<Rightarrow> nat) \<Rightarrow> ms \<Rightarrow> ms \<Rightarrow> string \<Rightarrow> 'v \<Rightarrow> ms option \<Rightarrow> 'v ReadCache \<Rightarrow> 'v ReadCache" where
  "memoizeFinish sz t0 now key value ttl c = cacheSet sz now key value ttl (recordLoaderLatency (kindOf key) (now - t0) c)"

end
