(* ===== verification/ReadCacheProps.thy ===== *)
theory ReadCacheProps
  imports ReadCache
begin

text \<open>
  The cache never serves what a finished write made stale. The cache and the database move in
  interleaved steps: a read looks its key up, a miss starts a load that reads the database at some later
  moment and stores its result later still, a write changes the database and bumps the epoch afterwards.
\<close>

section \<open>Keys\<close>

lemma cacheKey_inj:
  assumes "cacheKey sha k ws e p = cacheKey sha k' ws e' p'" "CHR ''|'' \<notin> set k" "CHR ''|'' \<notin> set k'"
  shows "k = k' \<and> e = e' \<and> sha (stableStringify p) = sha (stableStringify p')"
proof -
  have k: "k @ CHR ''|'' # (ws @ CHR ''|'' # showNat e @ CHR ''|'' # sha (stableStringify p)) =
      k' @ CHR ''|'' # (ws @ CHR ''|'' # showNat e' @ CHR ''|'' # sha (stableStringify p'))"
    using assms(1) by (simp add: cacheKey_def)
  from split_at_sep [OF k assms(2,3)]
  have one: "k = k'" and two: "showNat e @ CHR ''|'' # sha (stableStringify p) = showNat e' @ CHR ''|'' # sha (stableStringify p')" by auto
  have bar: "CHR ''|'' \<notin> set (showNat n)" for n using showNat_digits by fastforce
  from split_at_sep [OF two bar bar] one show ?thesis by (simp add: showNat_inj)
qed

section \<open>The entries of the map\<close>

lemma updStats_sel [simp]:
  "rcMap (updStats k f c) = rcMap c" "rcEpoch (updStats k f c) = rcEpoch c" "rcDisabled (updStats k f c) = rcDisabled c"
  "rcMaxSize (updStats k f c) = rcMaxSize c"
  by (simp_all add: updStats_def split: option.split)

lemma missed_sel [simp]: "rcMap (missed k c) = rcMap c" "rcEpoch (missed k c) = rcEpoch c" "rcMaxSize (missed k c) = rcMaxSize c"
  by (simp_all add: missed_def)

lemma recordLoaderLatency_sel [simp]:
  "rcMap (recordLoaderLatency k t c) = rcMap c" "rcEpoch (recordLoaderLatency k t c) = rcEpoch c"
  "rcDisabled (recordLoaderLatency k t c) = rcDisabled c" "rcMaxSize (recordLoaderLatency k t c) = rcMaxSize c"
  by (simp_all add: recordLoaderLatency_def)

lemma mapDelete_sub: "set (mapDelete k m) \<subseteq> set m"
  by (auto simp: mapDelete_def)

lemma mapSet_sub: "set (mapSet k e m) \<subseteq> insert (k, e) (set m)"
  by (auto simp: mapSet_def)

lemma mapDelete_keys: "distinct (map fst m) \<Longrightarrow> distinct (map fst (mapDelete k m))"
  by (simp add: mapDelete_def distinct_map_filter)

lemma mapSet_keys:
  assumes "distinct (map fst m)"
  shows "distinct (map fst (mapSet k e m))"
proof (cases "map_of m k")
  case None
  then show ?thesis using assms by (simp add: mapSet_def map_of_eq_None_iff)
next
  case (Some e')
  then have "map fst (mapSet k e m) = map fst m" by (auto simp: mapSet_def)
  then show ?thesis using assms by simp
qed

lemma evictLoop_suffix: "evictLoop ms mb b m t n = (m', t', n') \<Longrightarrow> \<exists>d. m = d @ m'"
  by (induction ms mb b m t n rule: evictLoop.induct) (auto split: if_splits intro: exI [of _ "[]"])

lemma evictLoop_room: "evictLoop ms mb b m t n = (m', t', n') \<Longrightarrow> m' = [] \<or> int (length m') < ms \<and> t' + b \<le> mb"
  by (induction ms mb b m t n rule: evictLoop.induct) (auto split: if_splits)

lemma cacheGet_cases:
  assumes "cacheGet now k c = (r, c')"
  obtains (off) "r = None" "rcMap c' = rcMap c"
  | (absent) "r = None" "map_of (rcMap c) k = None" "rcMap c' = rcMap c"
  | (expired) "r = None" "rcMap c' = mapDelete k (rcMap c)"
  | (hit) e where "r = Some (ce_value e)" "map_of (rcMap c) k = Some e" "now < ce_expiresAt e"
      "rcMap c' = mapSet k e (mapDelete k (rcMap c))"
proof (cases "rcDisabled c")
  case True
  then show ?thesis using assms off by (simp add: cacheGet_def)
next
  case on: False
  show ?thesis
  proof (cases "map_of (rcMap c) k")
    case None
    then have "r = None" "rcMap c' = rcMap c" using assms on by (auto simp: cacheGet_def)
    then show ?thesis using absent None by blast
  next
    case (Some e)
    show ?thesis
    proof (cases "ce_expiresAt e \<le> now")
      case True
      then have "r = None" "rcMap c' = mapDelete k (rcMap c)" using assms on Some by (auto simp: cacheGet_def)
      then show ?thesis using expired by blast
    next
      case False
      then have "r = Some (ce_value e)" "rcMap c' = mapSet k e (mapDelete k (rcMap c))" using assms on Some by (auto simp: cacheGet_def)
      then show ?thesis using hit Some False by fastforce
    qed
  qed
qed

lemma cacheGet_epoch: "cacheGet now k c = (r, c') \<Longrightarrow> rcEpoch c' = rcEpoch c \<and> rcMaxSize c' = rcMaxSize c"
  by (auto simp: cacheGet_def split: if_splits option.splits)

lemma cacheGet_map:
  assumes "cacheGet now k c = (r, c')"
  shows "set (rcMap c') \<subseteq> set (rcMap c)"
  using assms
proof (cases rule: cacheGet_cases)
  case (hit e)
  then show ?thesis using mapDelete_sub [of k "rcMap c"] mapSet_sub [of k e "mapDelete k (rcMap c)"] map_of_SomeD [OF hit(2)] by auto
qed (use mapDelete_sub in auto)

lemma cacheGet_hit: "cacheGet now k c = (Some v, c') \<Longrightarrow> \<exists>e. (k, e) \<in> set (rcMap c) \<and> ce_value e = v \<and> now < ce_expiresAt e"
  by (auto simp: cacheGet_def dest: map_of_SomeD split: if_splits option.splits)

lemma cacheSet_map:
  "set (rcMap (cacheSet sz now k v ttl c)) \<subseteq> {(k, e) |e. ce_value e = v} \<union> set (rcMap c) \<and> rcEpoch (cacheSet sz now k v ttl c) = rcEpoch c"
proof (cases "rcDisabled c")
  case False
  let ?t = "case map_of (rcMap c) k of None \<Rightarrow> rcTotalBytes c | Some e \<Rightarrow> rcTotalBytes c - ce_bytes e"
  obtain m t n where ev: "evictLoop (rcMaxSize c) (rcMaxBytes c) (int (sz v)) (rcMap c) ?t (rcEvictions c) = (m, t, n)" by (metis surj_pair)
  have "set m \<subseteq> set (rcMap c)" using evictLoop_suffix [OF ev] by auto
  then show ?thesis using False ev mapSet_sub [of k _ m]
    by (fastforce simp: cacheSet_def Let_def simp del: mapSet_def split: prod.splits)
qed (auto simp: cacheSet_def)

lemma configure_map:
  "set (rcMap (configure opts c)) \<subseteq> set (rcMap c) \<and> rcEpoch (configure opts c) = rcEpoch c"
  by (auto simp: configure_def cacheClear_def Let_def dest: in_set_dropD split: option.splits)

lemma cacheDelete_map: "set (rcMap (cacheDelete k c)) \<subseteq> set (rcMap c) \<and> rcEpoch (cacheDelete k c) = rcEpoch c"
  using mapDelete_sub [of k "rcMap c"] by (auto simp: cacheDelete_def split: option.splits)

section \<open>Reads and writes, interleaved\<close>

text \<open>
  A load in flight: the kind, the parameters and the epoch its key was built from, and what it has read.
  \<open>sysDirty\<close> counts the writes that have changed the database and not yet bumped the epoch.
\<close>

record 'v Load =
  ldKind :: string
  ldParams :: json
  ldEpoch :: nat
  ldStart :: ms
  ldValue :: "'v option"

record ('d, 'v) CacheSystem =
  sysDb :: 'd
  sysCache :: "'v ReadCache"
  sysDirty :: nat
  sysLoads :: "'v Load list"

definition loadKey :: "(string \<Rightarrow> string) \<Rightarrow> string \<Rightarrow> 'v Load \<Rightarrow> string" where
  "loadKey sha ws l = cacheKey sha (ldKind l) ws (ldEpoch l) (ldParams l)"

definition newLoad :: "string \<Rightarrow> json \<Rightarrow> ms \<Rightarrow> ('d, 'v) CacheSystem \<Rightarrow> 'v Load" where
  "newLoad kind params now s = \<lparr>ldKind = kind, ldParams = params, ldEpoch = rcEpoch (sysCache s), ldStart = now, ldValue = None\<rparr>"

text \<open>\<open>rd d kind text\<close> is what the loader of a read of that kind with those canonical parameters returns on database \<open>d\<close>.\<close>

inductive cache_step ::
  "('d \<Rightarrow> string \<Rightarrow> string \<Rightarrow> 'v) \<Rightarrow> (string \<Rightarrow> string) \<Rightarrow> ('v \<Rightarrow> nat) \<Rightarrow> string \<Rightarrow> ('d, 'v) CacheSystem \<Rightarrow> ('d, 'v) CacheSystem \<Rightarrow> bool"
  for rd sha sz ws where
  step_hit: "CHR ''|'' \<notin> set kind \<Longrightarrow> cacheGet now (cacheKey sha kind ws (rcEpoch (sysCache s)) params) (sysCache s) = (Some v, c) \<Longrightarrow>
     cache_step rd sha sz ws s (s\<lparr>sysCache := c\<rparr>)"
| step_miss: "CHR ''|'' \<notin> set kind \<Longrightarrow> cacheGet now (cacheKey sha kind ws (rcEpoch (sysCache s)) params) (sysCache s) = (None, c) \<Longrightarrow>
     cache_step rd sha sz ws s (s\<lparr>sysCache := c, sysLoads := newLoad kind params now s # sysLoads s\<rparr>)"
| step_load: "i < length (sysLoads s) \<Longrightarrow>
     cache_step rd sha sz ws s (s\<lparr>sysLoads := (sysLoads s)[i := (sysLoads s ! i)
       \<lparr>ldValue := Some (rd (sysDb s) (ldKind (sysLoads s ! i)) (stableStringify (ldParams (sysLoads s ! i))))\<rparr>]\<rparr>)"
| step_finish: "l \<in> set (sysLoads s) \<Longrightarrow> ldValue l = Some v \<Longrightarrow>
     cache_step rd sha sz ws s (s\<lparr>sysCache := memoizeFinish sz (ldStart l) now (loadKey sha ws l) v ttl (sysCache s),
       sysLoads := remove1 l (sysLoads s)\<rparr>)"
| step_write: "cache_step rd sha sz ws s (s\<lparr>sysDb := d, sysDirty := Suc (sysDirty s)\<rparr>)"
| step_bump: "sysDirty s = Suc n \<Longrightarrow> cache_step rd sha sz ws s (s\<lparr>sysDirty := n, sysCache := bumpEpoch (sysCache s)\<rparr>)"
| step_idleBump: "cache_step rd sha sz ws s (s\<lparr>sysCache := bumpEpoch (sysCache s)\<rparr>)"
| step_configure: "cache_step rd sha sz ws s (s\<lparr>sysCache := configure opts (sysCache s)\<rparr>)"
| step_delete: "cache_step rd sha sz ws s (s\<lparr>sysCache := cacheDelete k (sysCache s)\<rparr>)"
| step_clear: "cache_step rd sha sz ws s (s\<lparr>sysCache := cacheClear (sysCache s)\<rparr>)"
| step_resetStats: "cache_step rd sha sz ws s (s\<lparr>sysCache := resetStats (sysCache s)\<rparr>)"

definition startSystem :: "'d \<Rightarrow> CacheOptions \<Rightarrow> ('d, 'v) CacheSystem" where
  "startSystem d opts = \<lparr>sysDb = d, sysCache = newReadCache opts, sysDirty = 0, sysLoads = []\<rparr>"

text \<open>A value filed under an epoch: when the epoch is current and every write is bumped, it is what a load would read now.\<close>

definition freshAt :: "('d \<Rightarrow> string \<Rightarrow> string \<Rightarrow> 'v) \<Rightarrow> ('d, 'v) CacheSystem \<Rightarrow> string \<Rightarrow> json \<Rightarrow> nat \<Rightarrow> 'v \<Rightarrow> bool" where
  "freshAt rd s kind params ep v \<longleftrightarrow> CHR ''|'' \<notin> set kind \<and> ep \<le> rcEpoch (sysCache s) \<and>
     (ep = rcEpoch (sysCache s) \<and> sysDirty s = 0 \<longrightarrow> v = rd (sysDb s) kind (stableStringify params))"

definition coherent :: "('d \<Rightarrow> string \<Rightarrow> string \<Rightarrow> 'v) \<Rightarrow> (string \<Rightarrow> string) \<Rightarrow> string \<Rightarrow> ('d, 'v) CacheSystem \<Rightarrow> bool" where
  "coherent rd sha ws s \<longleftrightarrow>
     (\<forall>(k, e)\<in>set (rcMap (sysCache s)). \<exists>kind params ep. k = cacheKey sha kind ws ep params \<and> freshAt rd s kind params ep (ce_value e)) \<and>
     (\<forall>l\<in>set (sysLoads s). CHR ''|'' \<notin> set (ldKind l) \<and> ldEpoch l \<le> rcEpoch (sysCache s) \<and>
        (\<forall>v. ldValue l = Some v \<longrightarrow> freshAt rd s (ldKind l) (ldParams l) (ldEpoch l) v))"

lemma coherent_shrink:
  assumes "coherent rd sha ws s" "set (rcMap c) \<subseteq> set (rcMap (sysCache s))" "rcEpoch c = rcEpoch (sysCache s)"
  shows "coherent rd sha ws (s\<lparr>sysCache := c\<rparr>)"
  using assms unfolding coherent_def freshAt_def by fastforce

lemma coherent_bump:
  assumes "coherent rd sha ws s"
  shows "coherent rd sha ws (s\<lparr>sysDirty := n, sysCache := bumpEpoch (sysCache s)\<rparr>)"
  using assms unfolding coherent_def freshAt_def bumpEpoch_def by fastforce

lemma coherent_step:
  assumes "cache_step rd sha sz ws s s'" "coherent rd sha ws s"
  shows "coherent rd sha ws s'"
  using assms
proof (induction rule: cache_step.induct)
  case (step_hit kind now s params v c)
  then show ?case using cacheGet_map cacheGet_epoch by (intro coherent_shrink) blast+
next
  case (step_miss kind now s params c)
  then have "coherent rd sha ws (s\<lparr>sysCache := c\<rparr>)" using cacheGet_map cacheGet_epoch by (intro coherent_shrink) blast+
  moreover have "rcEpoch c = rcEpoch (sysCache s)" using step_miss(2) cacheGet_epoch by blast
  ultimately show ?case using step_miss(1) unfolding coherent_def freshAt_def by (auto simp: newLoad_def)
next
  case (step_load i s)
  define l where "l = (sysLoads s ! i)\<lparr>ldValue := Some (rd (sysDb s) (ldKind (sysLoads s ! i)) (stableStringify (ldParams (sysLoads s ! i))))\<rparr>"
  have old: "sysLoads s ! i \<in> set (sysLoads s)" using step_load by simp
  have "set ((sysLoads s)[i := l]) \<subseteq> insert l (set (sysLoads s))" by (rule set_update_subset_insert)
  moreover have "CHR ''|'' \<notin> set (ldKind l) \<and> ldEpoch l \<le> rcEpoch (sysCache s) \<and> (\<forall>v. ldValue l = Some v \<longrightarrow> freshAt rd s (ldKind l) (ldParams l) (ldEpoch l) v)"
    using step_load(2) old unfolding coherent_def freshAt_def l_def by auto
  ultimately show ?case using step_load(2) unfolding coherent_def freshAt_def l_def [symmetric] by auto
next
  case (step_finish l s v now ttl)
  let ?c = "memoizeFinish sz (ldStart l) now (loadKey sha ws l) v ttl (sysCache s)"
  have sub: "set (rcMap ?c) \<subseteq> {(loadKey sha ws l, e) |e. ce_value e = v} \<union> set (rcMap (sysCache s))" "rcEpoch ?c = rcEpoch (sysCache s)"
    unfolding memoizeFinish_def
    using cacheSet_map [of sz now "loadKey sha ws l" v ttl "recordLoaderLatency (kindOf (loadKey sha ws l)) (now - ldStart l) (sysCache s)"]
    by simp_all
  have fresh: "freshAt rd s (ldKind l) (ldParams l) (ldEpoch l) v" using step_finish unfolding coherent_def by blast
  have "\<exists>kind params ep. k = cacheKey sha kind ws ep params \<and> freshAt rd s kind params ep (ce_value e)" if "(k, e) \<in> set (rcMap ?c)" for k e
  proof (cases "(k, e) \<in> set (rcMap (sysCache s))")
    case True
    then show ?thesis using step_finish(3) unfolding coherent_def by blast
  next
    case False
    then have "k = loadKey sha ws l" "ce_value e = v" using sub(1) that by auto
    then show ?thesis using fresh unfolding loadKey_def by blast
  qed
  moreover have "\<forall>x\<in>set (remove1 l (sysLoads s)). x \<in> set (sysLoads s)" by (meson notin_set_remove1)
  ultimately show ?case using step_finish(3) sub(2) unfolding coherent_def freshAt_def by auto
next
  case (step_write s d)
  then show ?case unfolding coherent_def freshAt_def by fastforce
next
  case (step_bump s n)
  then show ?case by (intro coherent_bump)
next
  case (step_idleBump s)
  then show ?case using coherent_bump [of rd sha ws s "sysDirty s"] by simp
next
  case (step_configure s opts)
  then show ?case using configure_map [of opts "sysCache s"] by (intro coherent_shrink) auto
next
  case (step_delete s k)
  then show ?case using cacheDelete_map [of k "sysCache s"] by (intro coherent_shrink) auto
qed (auto simp: cacheClear_def resetStats_def intro!: coherent_shrink)

lemma coherent_reach:
  assumes "(cache_step rd sha sz ws)\<^sup>*\<^sup>* (startSystem d opts) s"
  shows "coherent rd sha ws s"
  using assms
proof (induction rule: rtranclp_induct)
  case base
  then show ?case by (simp add: coherent_def startSystem_def newReadCache_def)
next
  case (step s s')
  then show ?case using coherent_step by blast
qed


definition plainRead :: "string \<Rightarrow> string \<Rightarrow> string \<Rightarrow> string \<times> string" where
  "plainRead d kind text = (d, text)"

definition plainOptions :: CacheOptions where
  "plainOptions = \<lparr>co_maxSize = None, co_ttlMs = None, co_disabled = None, co_maxBytes = None\<rparr>"

definition coldSystem :: "(string, string \<times> string) CacheSystem" where
  "coldSystem = startSystem ''db'' plainOptions"

definition warmKey :: string where
  "warmKey = cacheKey id ''getNode'' ''w'' 0 (JObj [])"

definition warmLoad :: "(string \<times> string) Load" where
  "warmLoad = newLoad ''getNode'' (JObj []) 5 coldSystem"

definition warmSystem :: "(string, string \<times> string) CacheSystem" where
  "warmSystem = coldSystem\<lparr>sysCache := memoizeFinish (\<lambda>_. 8) 5 7 warmKey (''db'', ''{}'') None (snd (cacheGet 5 warmKey (sysCache coldSystem))),
     sysLoads := []\<rparr>"

lemma cold [simp]:
  "rcEpoch (sysCache coldSystem) = 0" "rcMap (sysCache coldSystem) = []" "sysLoads coldSystem = []" "sysDb coldSystem = ''db''"
  "rcDisabled (sysCache coldSystem) = False" "sysDirty coldSystem = 0" "rcTtlMs (sysCache coldSystem) = 60000"
  by (simp_all add: coldSystem_def startSystem_def newReadCache_def plainOptions_def)

lemma warmSystem_reach: "(cache_step plainRead id (\<lambda>_. 8) ''w'')\<^sup>*\<^sup>* coldSystem warmSystem"
proof -
  let ?step = "cache_step plainRead id (\<lambda>_::string \<times> string. 8) ''w''"
  define c1 where "c1 = snd (cacheGet 5 warmKey (sysCache coldSystem))"
  have miss: "cacheGet 5 warmKey (sysCache coldSystem) = (None, c1)" unfolding c1_def by (simp add: cacheGet_def)
  have a: "?step coldSystem (coldSystem\<lparr>sysCache := c1, sysLoads := [warmLoad]\<rparr>)"
    using step_miss [of "''getNode''" 5 id "''w''" coldSystem "JObj []" c1 plainRead "\<lambda>_. 8"] miss by (simp add: warmKey_def warmLoad_def)
  have b: "?step (coldSystem\<lparr>sysCache := c1, sysLoads := [warmLoad]\<rparr>)
      (coldSystem\<lparr>sysCache := c1, sysLoads := [warmLoad\<lparr>ldValue := Some (''db'', ''{}'')\<rparr>]\<rparr>)"
    using step_load [of 0 "coldSystem\<lparr>sysCache := c1, sysLoads := [warmLoad]\<rparr>" plainRead id "\<lambda>_. 8" "''w''"]
    by (simp add: warmLoad_def newLoad_def plainRead_def)
  have key: "loadKey id ''w'' (warmLoad\<lparr>ldValue := x\<rparr>) = warmKey" for x by (simp add: loadKey_def warmLoad_def newLoad_def warmKey_def)
  have "ldStart (warmLoad\<lparr>ldValue := x\<rparr>) = 5" for x by (simp add: warmLoad_def newLoad_def)
  then have c: "?step (coldSystem\<lparr>sysCache := c1, sysLoads := [warmLoad\<lparr>ldValue := Some (''db'', ''{}'')\<rparr>]\<rparr>) warmSystem"
    using step_finish [of "warmLoad\<lparr>ldValue := Some (''db'', ''{}'')\<rparr>" "coldSystem\<lparr>sysCache := c1, sysLoads := [warmLoad\<lparr>ldValue := Some (''db'', ''{}'')\<rparr>]\<rparr>"
        "(''db'', ''{}'')" plainRead id "\<lambda>_. 8" "''w''" 7 None] key
    by (simp add: warmSystem_def c1_def)
  have "?step\<^sup>*\<^sup>* (coldSystem\<lparr>sysCache := c1, sysLoads := [warmLoad\<lparr>ldValue := Some (''db'', ''{}'')\<rparr>]\<rparr>) warmSystem"
    using c by (rule r_into_rtranclp [where r = ?step])
  then have "?step\<^sup>*\<^sup>* (coldSystem\<lparr>sysCache := c1, sysLoads := [warmLoad]\<rparr>) warmSystem" using b converse_rtranclp_into_rtranclp [of ?step] by blast
  then show ?thesis using a converse_rtranclp_into_rtranclp [of ?step] by blast
qed

lemma cacheSet_empty:
  "\<not> rcDisabled c \<Longrightarrow> rcMap c = [] \<Longrightarrow> rcMap (cacheSet sz now k v ttl c) =
     [(k, \<lparr>ce_value = v, ce_insertedAt = now, ce_expiresAt = now + orDefault ttl (rcTtlMs c), ce_bytes = int (sz v)\<rparr>)]"
  by (simp add: cacheSet_def Let_def mapSet_def)

lemma cacheGet_live:
  assumes "\<not> rcDisabled c" "rcMap c = [(k, e)]" "now < ce_expiresAt e"
  shows "\<exists>c'. cacheGet now k c = (Some (ce_value e), c')"
  using assms by (simp add: cacheGet_def)

lemma warm_entry:
  "\<not> rcDisabled (sysCache warmSystem) \<and> (\<exists>e. rcMap (sysCache warmSystem) = [(warmKey, e)] \<and> 9 < ce_expiresAt e)"
proof -
  define c where "c = recordLoaderLatency (kindOf warmKey) 2 (snd (cacheGet 5 warmKey (sysCache coldSystem)))"
  have ttl: "rcTtlMs (updStats k f d) = rcTtlMs d" for k f and d :: "(string \<times> string) ReadCache"
    by (simp add: updStats_def split: option.split)
  have c: "\<not> rcDisabled c" "rcMap c = []" "rcTtlMs c = 60000"
    by (simp_all add: c_def cacheGet_def missed_def recordLoaderLatency_def ttl)
  have w: "sysCache warmSystem = cacheSet (\<lambda>_. 8) 7 warmKey (''db'', ''{}'') None c"
    by (simp add: warmSystem_def memoizeFinish_def c_def)
  have "rcDisabled (cacheSet (\<lambda>_. 8) 7 warmKey (''db'', ''{}'') None c) = rcDisabled c" by (simp add: cacheSet_def Let_def split_beta)
  then show ?thesis unfolding w cacheSet_empty [OF c(1,2)] using c by simp
qed


section \<open>The size of the cache\<close>

definition bounded :: "'v ReadCache \<Rightarrow> bool" where
  "bounded c \<longleftrightarrow> distinct (map fst (rcMap c)) \<and> int (length (rcMap c)) \<le> max 1 (rcMaxSize c)"

lemma bounded_shrink:
  assumes "bounded c" "distinct (map fst (rcMap c'))" "length (rcMap c') \<le> length (rcMap c)" "rcMaxSize c' = rcMaxSize c"
  shows "bounded c'"
  using assms unfolding bounded_def by (metis of_nat_le_iff order_trans)

lemma mapDelete_less: "(k, e) \<in> set m \<Longrightarrow> length (mapDelete k m) < length m"
  unfolding mapDelete_def by (rule length_filter_less) auto

lemma mapSet_length: "length (mapSet k e m) \<le> Suc (length m)"
  by (simp add: mapSet_def)

lemma bounded_get:
  assumes "cacheGet now k c = (r, c')" "bounded c"
  shows "bounded c'"
proof -
  have sz: "rcMaxSize c' = rcMaxSize c" using cacheGet_epoch [OF assms(1)] by simp
  have keys: "distinct (map fst (rcMap c))" using assms(2) by (simp add: bounded_def)
  from assms(1) show ?thesis
  proof (cases rule: cacheGet_cases)
    case expired
    show ?thesis
      by (rule bounded_shrink [OF assms(2) _ _ sz]) (simp_all add: expired mapDelete_keys keys, simp add: mapDelete_def)
  next
    case (hit e)
    have len: "length (rcMap c') \<le> length (rcMap c)"
      using mapSet_length [of k e "mapDelete k (rcMap c)"] mapDelete_less [OF map_of_SomeD [OF hit(2)]] hit(4) by simp
    show ?thesis by (rule bounded_shrink [OF assms(2) _ len sz]) (simp add: hit(4) mapSet_keys mapDelete_keys keys)
  qed (use assms(2) sz in \<open>simp_all add: bounded_def\<close>)
qed

lemma bounded_set:
  assumes "bounded c"
  shows "bounded (cacheSet sz now k v ttl c)"
proof (cases "rcDisabled c")
  case False
  let ?t = "case map_of (rcMap c) k of None \<Rightarrow> rcTotalBytes c | Some e \<Rightarrow> rcTotalBytes c - ce_bytes e"
  obtain m t n where ev: "evictLoop (rcMaxSize c) (rcMaxBytes c) (int (sz v)) (rcMap c) ?t (rcEvictions c) = (m, t, n)" by (metis surj_pair)
  let ?e = "\<lparr>ce_value = v, ce_insertedAt = now, ce_expiresAt = now + orDefault ttl (rcTtlMs c), ce_bytes = int (sz v)\<rparr>"
  have map: "rcMap (cacheSet sz now k v ttl c) = mapSet k ?e m" "rcMaxSize (cacheSet sz now k v ttl c) = rcMaxSize c"
    using False ev by (simp_all add: cacheSet_def Let_def)
  have "distinct (map fst m)" using evictLoop_suffix [OF ev] assms by (auto simp: bounded_def)
  moreover have "int (length (mapSet k ?e m)) \<le> max 1 (rcMaxSize c)"
    using evictLoop_room [OF ev] mapSet_length [of k ?e m] by auto
  ultimately show ?thesis unfolding bounded_def map by (simp add: mapSet_keys)
qed (use assms in \<open>simp add: cacheSet_def\<close>)

lemma bounded_configure: "bounded c \<Longrightarrow> bounded (configure opts c)"
  by (auto simp: bounded_def configure_def cacheClear_def Let_def drop_map [symmetric] split: option.splits)

lemma bounded_delete: "bounded c \<Longrightarrow> bounded (cacheDelete k c)"
proof (cases "map_of (rcMap c) k")
  case (Some e)
  assume b: "bounded c"
  then have keys: "distinct (map fst (rcMap c))" by (simp add: bounded_def)
  show ?thesis by (rule bounded_shrink [OF b]) (simp_all add: cacheDelete_def Some mapDelete_keys [OF keys], simp add: mapDelete_def)
qed (simp add: cacheDelete_def)

lemma bounded_step: "cache_step rd sha sz ws s s' \<Longrightarrow> bounded (sysCache s) \<Longrightarrow> bounded (sysCache s')"
proof (induction rule: cache_step.induct)
  case (step_finish l s v now ttl)
  have "bounded (recordLoaderLatency (kindOf (loadKey sha ws l)) (now - ldStart l) (sysCache s))"
    using step_finish by (simp add: bounded_def)
  then show ?case by (simp add: memoizeFinish_def bounded_set)
next
  case (step_configure s opts)
  then show ?case by (simp add: bounded_configure)
next
  case (step_delete s k)
  then show ?case by (simp add: bounded_delete)
next
  case (step_hit kind now s params v c)
  then show ?case using bounded_get by simp
next
  case (step_miss kind now s params c)
  then show ?case using bounded_get by simp
qed (simp_all add: bounded_def bumpEpoch_def cacheClear_def resetStats_def)

text \<open>C27: the cache stays within its entry cap: in every reachable system its keys are unique and it holds at most
  \<open>max 1 maxSize\<close> entries.\<close>

theorem cache_within_cap:
  assumes "(cache_step rd sha sz ws)\<^sup>*\<^sup>* (startSystem d opts) s"
  shows "distinct (map fst (rcMap (sysCache s))) \<and> int (length (rcMap (sysCache s))) \<le> max 1 (rcMaxSize (sysCache s))"
  using assms
proof (induction rule: rtranclp_induct)
  case base
  then show ?case by (simp add: startSystem_def newReadCache_def)
next
  case (step s s')
  then show ?case using bounded_step [OF step(2)] by (simp add: bounded_def)
qed

theorem cache_within_cap_witness: "int (length (rcMap (sysCache warmSystem))) \<le> max 1 (rcMaxSize (sysCache warmSystem))"
  using cache_within_cap [OF warmSystem_reach [unfolded coldSystem_def]] by simp

end
