(* ===== verification/RateLimit.thy ===== *)
theory RateLimit
  imports KeyedTable Principal
begin

text \<open>
  The token-bucket rate limiter of the HTTP daemon: \<open>security/rateLimit.ts\<close> with its default tables, the
  request classifier, the bucket keys, \<open>tryConsume\<close> and the sweep of idle buckets; the classifier of the
  ArcadeDB deployment (\<open>security/arcadeRateClassifier.ts\<close>); and the rate-limit stage of both request
  pipelines (\<open>mcp/http/middleware.ts\<close>, \<open>mcp/arcadeBoot.ts\<close>).

  JavaScript numbers are exact rationals here, so the model has no rounding error; times are integers. The
  buckets, a JavaScript \<open>Map\<close>, are a keyed table in insertion order. Dividing by a refill rate of zero is
  JavaScript's \<open>Infinity\<close>, which is \<open>None\<close>. The clock (\<open>Date.now()\<close>) and the environment are arguments.
\<close>

section \<open>Bucket configurations\<close>

record BucketConfig =
  capacity :: rat
  refillPerMs :: rat

record Bucket = BucketConfig +
  tokens :: rat
  lastRefillMs :: ms

definition RATE_LIMIT_EXEMPT_PATHS :: "string list" where
  "RATE_LIMIT_EXEMPT_PATHS =
     [''/health'', ''/api/health'', ''/ready'', ''/api/ready'', ''/api/nodes/bulk-list'', ''/api/nodes/bulk'',
      ''/api/edges/bulk'', ''/api/nodes/bulk-delete'', ''/api/recall/bulk'']"

definition readEnvNumber :: "(string \<rightharpoonup> string) \<Rightarrow> string \<Rightarrow> rat option" where
  "readEnvNumber env name =
     (case env name of
        None \<Rightarrow> None
      | Some raw \<Rightarrow>
          if raw = [] then None
          else case jsNumber raw of None \<Rightarrow> None | Some n \<Rightarrow> if n > 0 then Some n else None)"

definition orElseNum :: "rat option \<Rightarrow> rat \<Rightarrow> rat" where
  "orElseNum v d = (case v of None \<Rightarrow> d | Some x \<Rightarrow> x)"

definition bucketCfg :: "rat \<Rightarrow> rat \<Rightarrow> BucketConfig" where
  "bucketCfg c r = \<lparr>capacity = c, refillPerMs = r\<rparr>"

definition buildDefaultBuckets :: "(string \<rightharpoonup> string) \<Rightarrow> DeploymentMode \<Rightarrow> (string \<times> BucketConfig) list" where
  "buildDefaultBuckets env mode =
     (let envCap = readEnvNumber env ''LORE_RATE_LIMIT_CAP'';
          envRefillPerSec = readEnvNumber env ''LORE_RATE_LIMIT_REFILL'';
          isLocal = (mode = LocalMode);
          genericCapacity = orElseNum envCap (if isLocal then 5000 else 1000);
          genericRefillPerSec = orElseNum envRefillPerSec (if isLocal then 500 else 100)
      in [(''chat'', bucketCfg 30 (60 / 60000)),
          (''reconnect'', bucketCfg 2 (5 / 600000)),
          (''reconsume'', bucketCfg 2 (5 / 600000)),
          (''extract'', bucketCfg 10 (30 / 60000)),
          (''recallable'', bucketCfg 20 (60 / 60000)),
          (''bootstrap'', bucketCfg 5 (5 / 60000)),
          (''destructive'', bucketCfg (if isLocal then 1000 else 20) (if isLocal then 100 / 1000 else 60 / 60000)),
          (''generic'', bucketCfg genericCapacity (genericRefillPerSec / 1000))])"

section \<open>The request classifier\<close>

definition pathOnly :: "string \<Rightarrow> string" where
  "pathOnly url = hd (splitOn CHR ''?'' url)"

definition classifyRequest :: "string \<Rightarrow> string \<Rightarrow> string option" where
  "classifyRequest url method =
     (let p = pathOnly url
      in if List.member RATE_LIMIT_EXEMPT_PATHS p then None
         else if p = ''/api/chat'' then Some ''chat''
         else if p = ''/api/graph/reconnect'' then Some ''reconnect''
         else if p = ''/api/graph/reconsume'' then Some ''reconsume''
         else if p = ''/api/extract'' then Some ''extract''
         else if p = ''/api/nodes/recallable'' \<and> method = ''POST'' then Some ''recallable''
         else if p = ''/api/auth/bootstrap'' \<and> method = ''GET'' then Some ''bootstrap''
         else if method = ''DELETE'' then Some ''destructive''
         else if p = ''/api/orphan'' \<and> method = ''POST'' then Some ''destructive''
         else if p = ''/api/workspaces/switch'' \<and> method = ''POST'' then Some ''destructive''
         else if startsWith p ''/api/'' then Some ''generic''
         else if startsWith p ''/v1/'' then
           (if method = ''DELETE'' then Some ''destructive''
            else if endsWith p ''/truncate'' \<and> method = ''POST'' then Some ''destructive''
            else Some ''generic'')
         else None)"

section \<open>Bucket keys\<close>

record TryConsumeContext =
  principalKey :: "string option"
  tenantKey :: "string option"

definition composeBucketKey :: "string \<Rightarrow> TryConsumeContext option \<Rightarrow> string" where
  "composeBucketKey bucketClass ctx =
     (let principal = (case Option.bind ctx principalKey of None \<Rightarrow> ''anon'' | Some p \<Rightarrow> p);
          tenant = (case Option.bind ctx tenantKey of None \<Rightarrow> [] | Some t \<Rightarrow> t)
      in if tenant \<noteq> [] then bucketClass @ ''::'' @ tenant @ ''::'' @ principal
         else bucketClass @ ''::'' @ principal)"

section \<open>The limiter\<close>

definition IDLE_BUCKET_TTL_MS :: ms where
  "IDLE_BUCKET_TTL_MS = 60 * 60 * 1000"

record EnvOverride =
  eoCap :: "rat option"
  eoRefillPerSec :: "rat option"

record RateLimiter =
  buckets :: "(string \<times> Bucket) list"
  configs :: "(string \<times> BucketConfig) list"
  rlMode :: DeploymentMode
  envOverride :: EnvOverride
  sweepTimer :: bool

definition startSweeper :: "RateLimiter \<Rightarrow> RateLimiter" where
  "startSweeper L = (if sweepTimer L then L else L\<lparr>sweepTimer := True\<rparr>)"

definition stopSweeper :: "RateLimiter \<Rightarrow> RateLimiter" where
  "stopSweeper L = (if sweepTimer L then L\<lparr>sweepTimer := False\<rparr> else L)"

definition newRateLimiter ::
  "(string \<rightharpoonup> string) \<Rightarrow> DeploymentMode \<Rightarrow> (string \<times> BucketConfig) list option \<Rightarrow> bool \<Rightarrow> RateLimiter" where
  "newRateLimiter env mode cfgs autoSweep =
     (let L = \<lparr>buckets = [],
               configs = (case cfgs of None \<Rightarrow> buildDefaultBuckets env mode | Some c \<Rightarrow> c),
               rlMode = mode,
               envOverride = \<lparr>eoCap = readEnvNumber env ''LORE_RATE_LIMIT_CAP'',
                              eoRefillPerSec = readEnvNumber env ''LORE_RATE_LIMIT_REFILL''\<rparr>,
               sweepTimer = False\<rparr>
      in if autoSweep then startSweeper L else L)"

definition idleBucket :: "ms \<Rightarrow> string \<times> Bucket \<Rightarrow> bool" where
  "idleBucket nowMs kb = (nowMs - lastRefillMs (snd kb) > IDLE_BUCKET_TTL_MS)"

definition sweepIdleBuckets :: "ms \<Rightarrow> RateLimiter \<Rightarrow> nat \<times> RateLimiter" where
  "sweepIdleBuckets nowMs L =
     (length (filter (idleBucket nowMs) (buckets L)),
      L\<lparr>buckets := filter (\<lambda>kb. \<not> idleBucket nowMs kb) (buckets L)\<rparr>)"

definition bucketCount :: "RateLimiter \<Rightarrow> nat" where
  "bucketCount L = length (buckets L)"

record RateLimitConfigSnapshot =
  snMode :: DeploymentMode
  snDefaults :: "(string \<times> rat \<times> rat) list"
  snExemptPaths :: "string list"
  snEnvOverride :: EnvOverride

definition getConfigSnapshot :: "RateLimiter \<Rightarrow> RateLimitConfigSnapshot" where
  "getConfigSnapshot L =
     \<lparr>snMode = rlMode L,
      snDefaults = map (\<lambda>(name, cfg). (name, capacity cfg, of_int (jsRound (refillPerMs cfg * 1000 * 1000)) / 1000)) (configs L),
      snExemptPaths = RATE_LIMIT_EXEMPT_PATHS,
      snEnvOverride = envOverride L\<rparr>"

definition freshBucket :: "BucketConfig \<Rightarrow> ms \<Rightarrow> Bucket" where
  "freshBucket cfg nowMs = BucketConfig.extend cfg \<lparr>tokens = capacity cfg, lastRefillMs = nowMs\<rparr>"

definition putBucket :: "string \<Rightarrow> Bucket \<Rightarrow> RateLimiter \<Rightarrow> RateLimiter" where
  "putBucket key b L = L\<lparr>buckets := tableSet fst (key, b) (buckets L)\<rparr>"

definition findBucket :: "RateLimiter \<Rightarrow> string \<Rightarrow> Bucket option" where
  "findBucket L key = map_option snd (tableGet fst (buckets L) key)"

definition getOrCreateBucket :: "string \<Rightarrow> string \<Rightarrow> ms \<Rightarrow> RateLimiter \<Rightarrow> Bucket option \<times> RateLimiter" where
  "getOrCreateBucket bucketClass key nowMs L =
     (case map_of (configs L) bucketClass of
        None \<Rightarrow> (None, L)
      | Some cfg \<Rightarrow>
          (case findBucket L key of
             Some b \<Rightarrow> (Some b, L)
           | None \<Rightarrow> let b = freshBucket cfg nowMs in (Some b, putBucket key b L)))"

record RateVerdict =
  rvAllowed :: bool
  retryAfterSec :: "int option"
  rvLimit :: rat
  remaining :: int
  resetSec :: "int option"

definition ceilDiv :: "rat \<Rightarrow> rat \<Rightarrow> int option" where
  "ceilDiv n d = (if d = 0 then None else Some \<lceil>n / d\<rceil>)"

definition refilled :: "ms \<Rightarrow> Bucket \<Rightarrow> Bucket" where
  "refilled nowMs b =
     (let elapsedMs = max 0 (nowMs - lastRefillMs b);
          refill = of_int elapsedMs * refillPerMs b
      in b\<lparr>tokens := min (capacity b) (tokens b + refill), lastRefillMs := nowMs\<rparr>)"

definition consumeOne :: "Bucket \<Rightarrow> RateVerdict \<times> Bucket" where
  "consumeOne b =
     (if tokens b \<ge> 1 then
        (let b1 = b\<lparr>tokens := tokens b - 1\<rparr>;
             headroom = max 0 (capacity b1 - tokens b1)
         in (\<lparr>rvAllowed = True, retryAfterSec = Some 0, rvLimit = capacity b1, remaining = \<lfloor>tokens b1\<rfloor>,
              resetSec = ceilDiv headroom (refillPerMs b1 * 1000)\<rparr>, b1))
      else
        (let tokensNeeded = 1 - tokens b;
             wait = map_option (max 1) (ceilDiv tokensNeeded (refillPerMs b * 1000))
         in (\<lparr>rvAllowed = False, retryAfterSec = wait, rvLimit = capacity b, remaining = 0, resetSec = wait\<rparr>, b)))"

definition tryConsume :: "string \<Rightarrow> TryConsumeContext option \<Rightarrow> ms \<Rightarrow> RateLimiter \<Rightarrow> RateVerdict \<times> RateLimiter" where
  "tryConsume bucketClass ctx nowMs L =
     (let key = composeBucketKey bucketClass ctx
      in case getOrCreateBucket bucketClass key nowMs L of
           (None, L1) \<Rightarrow>
             (\<lparr>rvAllowed = False, retryAfterSec = Some 60, rvLimit = 0, remaining = 0, resetSec = Some 60\<rparr>, L1)
         | (Some b, L1) \<Rightarrow>
             (case consumeOne (refilled nowMs b) of (v, b1) \<Rightarrow> (v, putBucket key b1 L1)))"

section \<open>The stage of the HTTP pipeline\<close>

datatype RateStage = NotLimited | Admitted RateVerdict | Rejected string RateVerdict

definition rateLimitStage ::
  "DeploymentMode \<Rightarrow> string option \<Rightarrow> string option \<Rightarrow> string \<Rightarrow> string option \<Rightarrow> ms \<Rightarrow> RateLimiter \<Rightarrow> RateStage \<times> RateLimiter" where
  "rateLimitStage deploymentMode principalLabel workspaceHeader url method nowMs L =
     (case classifyRequest url (case method of None \<Rightarrow> ''GET'' | Some m \<Rightarrow> m) of
        None \<Rightarrow> (NotLimited, L)
      | Some bucket \<Rightarrow>
          (let pk = (case principalLabel of None \<Rightarrow> ''anon'' | Some l \<Rightarrow> l);
               tk = (if deploymentMode = CloudMode then workspaceHeader else None)
           in case tryConsume bucket (Some \<lparr>principalKey = Some pk, tenantKey = tk\<rparr>) nowMs L of
                (v, L1) \<Rightarrow> (if rvAllowed v then Admitted v else Rejected bucket v, L1)))"

section \<open>The ArcadeDB deployment\<close>

definition arcadeBucketConfigs :: "(string \<times> BucketConfig) list" where
  "arcadeBucketConfigs =
     [(''arcade_provision'', bucketCfg 5 (5 / 60000)),
      (''arcade_migrate'', bucketCfg 2 (2 / 600000)),
      (''arcade_admin'', bucketCfg 20 (60 / 60000)),
      (''arcade_recallable'', bucketCfg 20 (60 / 60000))]"

definition migratePath :: "string \<Rightarrow> bool" where
  "migratePath p =
     list_ex (endsWith p) [''/import'', ''/export'', ''/backup'', ''/restore'', ''/repair-integrity'']"

definition classifyArcadeRequest :: "string \<Rightarrow> string \<Rightarrow> string option" where
  "classifyArcadeRequest p method =
     (if p = ''/health'' \<or> p = ''/api/health'' then None
      else if p = ''/ready'' \<or> p = ''/api/ready'' then None
      else if startsWith p ''/api/arcade/'' then
        (if method = ''DELETE'' then Some ''destructive''
         else if endsWith p ''/disable'' \<and> method = ''POST'' then Some ''destructive''
         else if p = ''/api/arcade/apps'' \<and> method = ''POST'' then Some ''arcade_provision''
         else if migratePath p then Some ''arcade_migrate''
         else Some ''arcade_admin'')
      else if p = ''/api/nodes/recallable'' \<and> method = ''POST'' then Some ''arcade_recallable''
      else if startsWith p ''/api/'' then
        (if method = ''DELETE'' then Some ''destructive'' else Some ''generic'')
      else None)"

definition cellChar :: "char \<Rightarrow> bool" where
  "cellChar c = (let n = of_char c :: nat in 97 \<le> n \<and> n \<le> 122 \<or> 48 \<le> n \<and> n \<le> 57)"

definition arcadeTenantKeyFromPath :: "string \<Rightarrow> string option" where
  "arcadeTenantKeyFromPath p =
     (if startsWith p ''/api/arcade/apps/'' then
        (let r = drop (length ''/api/arcade/apps/'') p;
             t = takeWhile cellChar r;
             r1 = drop (length t) r;
             a = takeWhile cellChar (tl r1);
             r2 = drop (length a) (tl r1)
         in if t \<noteq> [] \<and> startsWith r1 ''/'' \<and> a \<noteq> [] \<and> (r2 = [] \<or> startsWith r2 ''/'') then Some (t @ '':'' @ a) else None)
      else None)"

definition bearerOf :: "string option \<Rightarrow> string" where
  "bearerOf authorization =
     (let s = trimJs (case authorization of None \<Rightarrow> [] | Some h \<Rightarrow> h);
          r = drop 6 s
      in if map lowerAscii (take 6 s) = ''bearer'' \<and> r \<noteq> [] \<and> isSpace (hd r) then dropWhile isSpace r else s)"

definition arcadeRateStage ::
  "(string \<Rightarrow> string) \<Rightarrow> string \<Rightarrow> string \<Rightarrow> string option \<Rightarrow> ms \<Rightarrow> RateLimiter \<Rightarrow> RateStage \<times> RateLimiter" where
  "arcadeRateStage hashToken p method authorization nowMs L =
     (case classifyArcadeRequest p method of
        None \<Rightarrow> (NotLimited, L)
      | Some bucket \<Rightarrow>
          (let bearer = bearerOf authorization;
               isOperatorPath = startsWith p ''/api/arcade/'';
               pk = (if isOperatorPath then ''op:'' @ (if bearer \<noteq> [] then take 8 bearer else ''anon'')
                     else ''at:'' @ (if bearer \<noteq> [] then take 8 (hashToken bearer) else ''anon''));
               tk = (if isOperatorPath then arcadeTenantKeyFromPath p else None)
           in case tryConsume bucket (Some \<lparr>principalKey = Some pk, tenantKey = tk\<rparr>) nowMs L of
                (v, L1) \<Rightarrow> (if rvAllowed v then Admitted v else Rejected bucket v, L1)))"

end
