(* ===== verification/RateLimitProps.thy ===== *)
theory RateLimitProps
  imports RateLimit
begin

text \<open>
  What the rate limiter guarantees over time. A history is a list of events, requests and sweeps, with their
  clock readings; \<open>available\<close> is the number of tokens a key would find. It grows by at most the refill rate
  and shrinks by one per admitted request, which gives the bound on any window. Sweeping an idle bucket is
  invisible where the bucket refills within the idle time. The last section shows that the keys separate
  principals and that every class the classifiers return has a bucket.
\<close>

interpretation rb: keyed_table buckets "\<lambda>rs L. L\<lparr>buckets := rs\<rparr>" fst
  by unfold_locales simp

section \<open>Tokens of a key\<close>

definition saneConfigs :: "(string \<times> BucketConfig) list \<Rightarrow> bool" where
  "saneConfigs cs = list_all (\<lambda>(c, cfg). CHR '':'' \<notin> set c \<and> 0 \<le> capacity cfg \<and> 0 \<le> refillPerMs cfg) cs"

definition ownedBucket :: "RateLimiter \<Rightarrow> ms \<Rightarrow> string \<times> Bucket \<Rightarrow> bool" where
  "ownedBucket L t kb =
     (\<exists>c ctx cfg. fst kb = composeBucketKey c ctx \<and> map_of (configs L) c = Some cfg \<and>
        capacity (snd kb) = capacity cfg \<and> refillPerMs (snd kb) = refillPerMs cfg \<and>
        0 \<le> tokens (snd kb) \<and> tokens (snd kb) \<le> capacity cfg \<and> lastRefillMs (snd kb) \<le> t)"

definition rateInv :: "RateLimiter \<Rightarrow> ms \<Rightarrow> bool" where
  "rateInv L t \<longleftrightarrow> saneConfigs (configs L) \<and> distinct (map fst (buckets L)) \<and> (\<forall>kb\<in>set (buckets L). ownedBucket L t kb)"

definition available :: "RateLimiter \<Rightarrow> BucketConfig \<Rightarrow> string \<Rightarrow> ms \<Rightarrow> rat" where
  "available L cfg key t =
     (case findBucket L key of
        None \<Rightarrow> capacity cfg
      | Some b \<Rightarrow> min (capacity b) (tokens b + of_int (t - lastRefillMs b) * refillPerMs b))"

lemma findBucket_put [simp]: "findBucket (putBucket k b L) k' = (if k' = k then Some b else findBucket L k')"
  using rb.get_set [of "(k, b)" L k'] by (simp add: findBucket_def putBucket_def)

lemma configs_put [simp]: "configs (putBucket k b L) = configs L"
  by (simp add: putBucket_def)

lemma distinct_buckets_put: "distinct (map fst (buckets L)) \<Longrightarrow> distinct (map fst (buckets (putBucket k b L)))"
  using rb.distinct_set [of L "(k, b)"] by (simp add: putBucket_def)

lemma set_put: "set (buckets (putBucket k b L)) \<subseteq> insert (k, b) (set (buckets L))"
  by (auto simp: putBucket_def dest: subsetD [OF rb.set_set])

lemma findBucket_mem: "findBucket L k = Some b \<Longrightarrow> (k, b) \<in> set (buckets L)"
  by (auto simp: findBucket_def dest!: rb.get_mem)

lemma findBucket_filter:
  assumes "distinct (map fst (buckets L))"
  shows "findBucket (L\<lparr>buckets := filter P (buckets L)\<rparr>) k =
         (case findBucket L k of None \<Rightarrow> None | Some b \<Rightarrow> if P (k, b) then Some b else None)"
proof -
  have "tableGet fst (filter P rs) k = (case tableGet fst rs k of None \<Rightarrow> None | Some r \<Rightarrow> if P r then Some r else None)"
    if "distinct (map fst rs)" for rs :: "(string \<times> Bucket) list"
    using that
    by (induction rs) (auto simp: tableGet_def find_None_iff split: option.splits dest!: find_Some_mem)
  from this [OF assms] have g: "tableGet fst (filter P (buckets L)) k =
      (case tableGet fst (buckets L) k of None \<Rightarrow> None | Some r \<Rightarrow> if P r then Some r else None)" .
  show ?thesis
  proof (cases "tableGet fst (buckets L) k")
    case None
    then show ?thesis using g by (simp add: findBucket_def)
  next
    case (Some r)
    then have "fst r = k" using rb.get_mem by blast
    then have "r = (k, snd r)" by auto
    then show ?thesis using g Some by (auto simp: findBucket_def)
  qed
qed

lemma takeWhile_upto: "x \<notin> set c \<Longrightarrow> takeWhile (\<lambda>y. y \<noteq> x) (c @ x # r) = c"
  by (induction c) auto

lemma compose_class: "CHR '':'' \<notin> set c \<Longrightarrow> takeWhile (\<lambda>x. x \<noteq> CHR '':'') (composeBucketKey c ctx) = c"
  unfolding composeBucketKey_def Let_def by (simp add: takeWhile_upto)

lemma map_of_sane:
  assumes "saneConfigs cs" "map_of cs c = Some cfg"
  shows "CHR '':'' \<notin> set c" "0 \<le> capacity cfg" "0 \<le> refillPerMs cfg"
  using map_of_SomeD [OF assms(2)] assms(1) by (auto simp: saneConfigs_def list_all_iff)

lemma owned_config:
  assumes "rateInv L t" "findBucket L (composeBucketKey c ctx) = Some b" "map_of (configs L) c = Some cfg"
  shows "capacity b = capacity cfg" "refillPerMs b = refillPerMs cfg" "0 \<le> tokens b" "tokens b \<le> capacity cfg"
    "lastRefillMs b \<le> t"
proof -
  obtain c' ctx' cfg' where o: "composeBucketKey c ctx = composeBucketKey c' ctx'" "map_of (configs L) c' = Some cfg'"
      "capacity b = capacity cfg'" "refillPerMs b = refillPerMs cfg'" "0 \<le> tokens b" "tokens b \<le> capacity cfg'" "lastRefillMs b \<le> t"
    using findBucket_mem [OF assms(2)] assms(1) by (fastforce simp: rateInv_def ownedBucket_def)
  have s: "saneConfigs (configs L)" using assms(1) by (simp add: rateInv_def)
  have "c = c'"
    using compose_class [OF map_of_sane(1) [OF s assms(3)], of ctx] compose_class [OF map_of_sane(1) [OF s o(2)], of ctx'] o(1)
    by simp
  then show "capacity b = capacity cfg" "refillPerMs b = refillPerMs cfg" "0 \<le> tokens b" "tokens b \<le> capacity cfg" "lastRefillMs b \<le> t"
    using o assms(3) by auto
qed

lemma available_bounds:
  assumes "rateInv L t" "map_of (configs L) c = Some cfg" "t \<le> t'"
  shows "0 \<le> available L cfg (composeBucketKey c ctx) t'" "available L cfg (composeBucketKey c ctx) t' \<le> capacity cfg"
proof -
  have s: "saneConfigs (configs L)" using assms(1) by (simp add: rateInv_def)
  note m = map_of_sane [OF s assms(2)]
  have "0 \<le> available L cfg (composeBucketKey c ctx) t' \<and> available L cfg (composeBucketKey c ctx) t' \<le> capacity cfg"
  proof (cases "findBucket L (composeBucketKey c ctx)")
    case None
    then show ?thesis using m by (simp add: available_def)
  next
    case (Some b)
    note o = owned_config [OF assms(1) Some assms(2)]
    have "0 \<le> of_int (t' - lastRefillMs b) * refillPerMs b" using o m assms(3) by simp
    then show ?thesis using Some o m by (simp add: available_def)
  qed
  then show "0 \<le> available L cfg (composeBucketKey c ctx) t'" "available L cfg (composeBucketKey c ctx) t' \<le> capacity cfg"
    by simp_all
qed

lemma available_grows:
  assumes "rateInv L t" "map_of (configs L) c = Some cfg" "t \<le> t'"
  shows "available L cfg (composeBucketKey c ctx) t' \<le> available L cfg (composeBucketKey c ctx) t + of_int (t' - t) * refillPerMs cfg"
proof -
  have s: "saneConfigs (configs L)" using assms(1) by (simp add: rateInv_def)
  note m = map_of_sane [OF s assms(2)]
  have pos: "0 \<le> of_int (t' - t) * refillPerMs cfg" using m assms(3) by simp
  show ?thesis
  proof (cases "findBucket L (composeBucketKey c ctx)")
    case None
    then show ?thesis using pos by (simp add: available_def)
  next
    case (Some b)
    note o = owned_config [OF assms(1) Some assms(2)]
    have "of_int (t' - lastRefillMs b) * refillPerMs b = of_int (t - lastRefillMs b) * refillPerMs b + of_int (t' - t) * refillPerMs cfg"
      by (simp add: o algebra_simps)
    then show ?thesis using Some pos by (simp add: available_def min_def)
  qed
qed

section \<open>One request\<close>

definition bucketAt :: "BucketConfig \<Rightarrow> rat \<Rightarrow> ms \<Rightarrow> Bucket" where
  "bucketAt cfg a t = \<lparr>capacity = capacity cfg, refillPerMs = refillPerMs cfg, tokens = a, lastRefillMs = t\<rparr>"

lemma bucketAt_sel [simp]:
  "capacity (bucketAt cfg a t) = capacity cfg" "refillPerMs (bucketAt cfg a t) = refillPerMs cfg"
  "tokens (bucketAt cfg a t) = a" "lastRefillMs (bucketAt cfg a t) = t"
  by (simp_all add: bucketAt_def)

lemma bucket_eqI:
  fixes b b' :: Bucket
  assumes "capacity b = capacity b'" "refillPerMs b = refillPerMs b'" "tokens b = tokens b'" "lastRefillMs b = lastRefillMs b'"
  shows "b = b'"
  using assms by (cases b, cases b') auto

lemma refilled_sel [simp]:
  "capacity (refilled t b) = capacity b" "refillPerMs (refilled t b) = refillPerMs b" "lastRefillMs (refilled t b) = t"
  "tokens (refilled t b) = min (capacity b) (tokens b + of_int (max 0 (t - lastRefillMs b)) * refillPerMs b)"
  by (simp_all add: refilled_def Let_def)

lemma tryConsume_unfold:
  fixes ctx
  assumes "rateInv L t" "map_of (configs L) c = Some cfg" "t \<le> now"
  defines "key \<equiv> composeBucketKey c ctx"
  obtains L1 where "tryConsume c ctx now L =
      (let r = consumeOne (bucketAt cfg (available L cfg key now) now) in (fst r, putBucket key (snd r) L1))"
    "L1 = L \<or> (\<exists>b. L1 = putBucket key b L)"
proof (cases "findBucket L key")
  case None
  have "refilled now (freshBucket cfg now) = bucketAt cfg (available L cfg key now) now"
    by (rule bucket_eqI) (simp_all add: freshBucket_def BucketConfig.extend_def available_def None)
  then have "tryConsume c ctx now L =
      (let r = consumeOne (bucketAt cfg (available L cfg key now) now) in (fst r, putBucket key (snd r) (putBucket key (freshBucket cfg now) L)))"
    using None assms(2) by (simp add: tryConsume_def getOrCreateBucket_def key_def Let_def split_beta)
  then show thesis by (rule that) blast
next
  case (Some b)
  note o = owned_config [OF assms(1) Some [unfolded key_def] assms(2)]
  have "refilled now b = bucketAt cfg (available L cfg key now) now"
    by (rule bucket_eqI) (use o assms(3) in \<open>simp_all add: available_def Some\<close>)
  then have "tryConsume c ctx now L =
      (let r = consumeOne (bucketAt cfg (available L cfg key now) now) in (fst r, putBucket key (snd r) L))"
    using Some assms(2) by (simp add: tryConsume_def getOrCreateBucket_def key_def Let_def split_beta)
  then show thesis by (rule that) blast
qed

lemma consumeOne_bucketAt:
  "rvAllowed (fst (consumeOne (bucketAt cfg a t))) \<longleftrightarrow> 1 \<le> a"
  "snd (consumeOne (bucketAt cfg a t)) = bucketAt cfg (if 1 \<le> a then a - 1 else a) t"
  by (simp_all add: consumeOne_def Let_def bucketAt_def)

lemma tryConsume_known:
  fixes ctx
  assumes "rateInv L t" "map_of (configs L) c = Some cfg" "t \<le> now"
  defines "key \<equiv> composeBucketKey c ctx"
  defines "a \<equiv> available L cfg key now"
  shows tryConsume_verdict: "fst (tryConsume c ctx now L) = fst (consumeOne (bucketAt cfg a now))"
    and tryConsume_allowed: "rvAllowed (fst (tryConsume c ctx now L)) \<longleftrightarrow> 1 \<le> a"
    and tryConsume_bucket: "findBucket (snd (tryConsume c ctx now L)) key = Some (bucketAt cfg (if 1 \<le> a then a - 1 else a) now)"
    and tryConsume_others: "k \<noteq> key \<Longrightarrow> findBucket (snd (tryConsume c ctx now L)) k = findBucket L k"
    and tryConsume_configs: "configs (snd (tryConsume c ctx now L)) = configs L"
    and tryConsume_inv: "rateInv (snd (tryConsume c ctx now L)) now"
proof -
  obtain L1 where u: "tryConsume c ctx now L = (let r = consumeOne (bucketAt cfg a now) in (fst r, putBucket key (snd r) L1))"
    and L1: "L1 = L \<or> (\<exists>b. L1 = putBucket key b L)"
    using tryConsume_unfold [OF assms(1-3), of ctx] unfolding key_def a_def by metis
  define b1 where "b1 = bucketAt cfg (if 1 \<le> a then a - 1 else a) now"
  have u': "tryConsume c ctx now L = (fst (consumeOne (bucketAt cfg a now)), putBucket key b1 L1)"
    unfolding u Let_def consumeOne_bucketAt(2) b1_def by simp
  show "fst (tryConsume c ctx now L) = fst (consumeOne (bucketAt cfg a now))" unfolding u' by simp
  then show "rvAllowed (fst (tryConsume c ctx now L)) \<longleftrightarrow> 1 \<le> a" by (simp add: consumeOne_bucketAt)
  show "findBucket (snd (tryConsume c ctx now L)) key = Some (bucketAt cfg (if 1 \<le> a then a - 1 else a) now)"
    unfolding u' by (simp add: b1_def)
  show "k \<noteq> key \<Longrightarrow> findBucket (snd (tryConsume c ctx now L)) k = findBucket L k"
    unfolding u' using L1 by auto
  show cf: "configs (snd (tryConsume c ctx now L)) = configs L"
    unfolding u' using L1 by auto
  have a: "0 \<le> a" "a \<le> capacity cfg"
    unfolding a_def key_def by (rule available_bounds [OF assms(1-3)])+
  have own: "ownedBucket (snd (tryConsume c ctx now L)) now (key, b1)"
    unfolding ownedBucket_def cf using assms(2) a by (auto simp: b1_def key_def)
  have "ownedBucket (snd (tryConsume c ctx now L)) now kb"
    if kb: "kb \<in> set (buckets (putBucket key b1 L1))" "distinct (map fst (buckets (putBucket key b1 L1)))" for kb
  proof (cases "fst kb = key")
    case True
    have "findBucket (putBucket key b1 L1) (fst kb) = Some (snd kb)"
      using rb.get_unique [OF kb(2) kb(1)] by (simp add: findBucket_def)
    then show ?thesis using True own by (cases kb) simp
  next
    case False
    then have "kb \<in> set (buckets L)" using kb(1) L1 set_put by (auto dest!: subsetD [OF set_put])
    then have "ownedBucket L t kb" using assms(1) by (simp add: rateInv_def)
    then show ?thesis unfolding ownedBucket_def cf using assms(3) by fastforce
  qed
  moreover have "distinct (map fst (buckets (putBucket key b1 L1)))"
    using assms(1) L1 by (auto simp: rateInv_def intro!: distinct_buckets_put)
  ultimately show "rateInv (snd (tryConsume c ctx now L)) now"
    using assms(1) cf unfolding rateInv_def by (simp add: u')
qed

lemma tryConsume_unknown:
  "map_of (configs L) c = None \<Longrightarrow> tryConsume c ctx now L =
     (\<lparr>rvAllowed = False, retryAfterSec = Some 60, rvLimit = 0, remaining = 0, resetSec = Some 60\<rparr>, L)"
  by (simp add: tryConsume_def getOrCreateBucket_def)

section \<open>Histories of requests and sweeps\<close>

datatype RateEvent =
    Request string "TryConsumeContext option" ms
  | SweepAt ms

fun eventTime :: "RateEvent \<Rightarrow> ms" where
  "eventTime (Request c ctx t) = t"
| "eventTime (SweepAt t) = t"

fun rateStep :: "RateEvent \<Rightarrow> RateLimiter \<Rightarrow> RateLimiter" where
  "rateStep (Request c ctx t) L = snd (tryConsume c ctx t L)"
| "rateStep (SweepAt t) L = snd (sweepIdleBuckets t L)"

fun admits :: "string \<Rightarrow> RateEvent \<Rightarrow> RateLimiter \<Rightarrow> bool" where
  "admits key (Request c ctx t) L = (composeBucketKey c ctx = key \<and> rvAllowed (fst (tryConsume c ctx t L)))"
| "admits key (SweepAt t) L = False"

fun admitted :: "string \<Rightarrow> RateEvent list \<Rightarrow> RateLimiter \<Rightarrow> nat" where
  "admitted key [] L = 0"
| "admitted key (e # es) L = (if admits key e L then 1 else 0) + admitted key es (rateStep e L)"

fun timesFrom :: "ms \<Rightarrow> RateEvent list \<Rightarrow> bool" where
  "timesFrom t [] = True"
| "timesFrom t (e # es) = (t \<le> eventTime e \<and> timesFrom (eventTime e) es)"

fun sweeps :: "RateEvent \<Rightarrow> bool" where
  "sweeps (SweepAt t) = True"
| "sweeps (Request c ctx t) = False"

definition refillsWhileIdle :: "BucketConfig \<Rightarrow> bool" where
  "refillsWhileIdle cfg = (capacity cfg \<le> of_int IDLE_BUCKET_TTL_MS * refillPerMs cfg)"

lemma sweep_available:
  assumes "rateInv L t" "map_of (configs L) c = Some cfg" "refillsWhileIdle cfg" "t \<le> now" "now \<le> later"
  shows "available (snd (sweepIdleBuckets now L)) cfg (composeBucketKey c ctx) later = available L cfg (composeBucketKey c ctx) later"
proof -
  have s: "saneConfigs (configs L)" and d: "distinct (map fst (buckets L))" using assms(1) by (auto simp: rateInv_def)
  note m = map_of_sane [OF s assms(2)]
  show ?thesis
  proof (cases "findBucket L (composeBucketKey c ctx)")
    case None
    then show ?thesis by (simp add: available_def sweepIdleBuckets_def findBucket_filter [OF d])
  next
    case (Some b)
    note o = owned_config [OF assms(1) Some assms(2)]
    show ?thesis
    proof (cases "idleBucket now (composeBucketKey c ctx, b)")
      case True
      then have "of_int IDLE_BUCKET_TTL_MS * refillPerMs cfg \<le> of_int (later - lastRefillMs b) * refillPerMs cfg"
        using m(3) assms(5) by (intro mult_right_mono) (simp_all add: idleBucket_def)
      then have "capacity cfg \<le> tokens b + of_int (later - lastRefillMs b) * refillPerMs cfg"
        using assms(3) o(3) by (simp add: refillsWhileIdle_def)
      then show ?thesis using Some True o
        by (simp add: available_def sweepIdleBuckets_def findBucket_filter [OF d] min_def)
    next
      case False
      then show ?thesis using Some by (simp add: available_def sweepIdleBuckets_def findBucket_filter [OF d])
    qed
  qed
qed

lemma sweep_inv: "rateInv L t \<Longrightarrow> rateInv (snd (sweepIdleBuckets now L)) t"
  by (auto simp: rateInv_def sweepIdleBuckets_def ownedBucket_def intro: distinct_map_filter)

lemma rateInv_mono: "rateInv L t \<Longrightarrow> t \<le> t' \<Longrightarrow> rateInv L t'"
  unfolding rateInv_def ownedBucket_def by fastforce

lemma step_inv:
  assumes "rateInv L t" "t \<le> eventTime e"
  shows "rateInv (rateStep e L) (eventTime e)" "configs (rateStep e L) = configs L"
proof -
  have "rateInv (rateStep e L) (eventTime e) \<and> configs (rateStep e L) = configs L"
  proof (cases e)
    case (Request c ctx now)
    show ?thesis
    proof (cases "map_of (configs L) c")
      case None
      then show ?thesis using Request assms rateInv_mono by (simp add: tryConsume_unknown)
    next
      case (Some cfg)
      then show ?thesis
        using tryConsume_inv [OF assms(1) Some, of now ctx] tryConsume_configs [OF assms(1) Some, of now ctx] assms(2) Request by simp
    qed
  next
    case (SweepAt now)
    then show ?thesis using sweep_inv [OF rateInv_mono [OF assms], of now] by (simp add: sweepIdleBuckets_def)
  qed
  then show "rateInv (rateStep e L) (eventTime e)" "configs (rateStep e L) = configs L" by simp_all
qed

lemma step_tokens:
  fixes ctx
  assumes "rateInv L t" "map_of (configs L) c = Some cfg" "t \<le> eventTime e" "sweeps e \<Longrightarrow> refillsWhileIdle cfg"
  defines "key \<equiv> composeBucketKey c ctx"
  shows "of_bool (admits key e L) + available (rateStep e L) cfg key (eventTime e) = available L cfg key (eventTime e)"
proof (cases e)
  case (SweepAt now)
  then show ?thesis using sweep_available [OF assms(1,2), of now now ctx] assms(3,4) by (simp add: key_def)
next
  case (Request c' ctx' now)
  show ?thesis
  proof (cases "composeBucketKey c' ctx' = key")
    case False
    have "findBucket (snd (tryConsume c' ctx' now L)) key = findBucket L key"
    proof (cases "map_of (configs L) c'")
      case None
      then show ?thesis by (simp add: tryConsume_unknown)
    next
      case (Some cfg')
      have now: "t \<le> now" using assms(3) Request by simp
      show ?thesis using tryConsume_others [OF assms(1) Some now, of key ctx'] False by metis
    qed
    then show ?thesis using Request False by (simp add: available_def)
  next
    case True
    have s: "saneConfigs (configs L)" using assms(1) by (simp add: rateInv_def)
    show ?thesis
    proof (cases "map_of (configs L) c'")
      case None
      then show ?thesis using Request by (simp add: tryConsume_unknown)
    next
      case (Some cfg')
      have "c' = c"
        using compose_class [OF map_of_sane(1) [OF s Some], of ctx'] compose_class [OF map_of_sane(1) [OF s assms(2)], of ctx] True key_def
        by simp
      have now: "t \<le> now" using assms(3) Request by simp
      define a where "a = available L cfg key now"
      have al: "rvAllowed (fst (tryConsume c ctx' now L)) \<longleftrightarrow> 1 \<le> a"
        using tryConsume_allowed [OF assms(1,2) now, of ctx'] True \<open>c' = c\<close> by (simp add: a_def)
      have fb: "findBucket (snd (tryConsume c ctx' now L)) key = Some (bucketAt cfg (if 1 \<le> a then a - 1 else a) now)"
        using tryConsume_bucket [OF assms(1,2) now, of ctx'] True \<open>c' = c\<close> by (simp add: a_def)
      have "a \<le> capacity cfg" unfolding a_def key_def by (rule available_bounds [OF assms(1,2) now])
      then have "available (snd (tryConsume c ctx' now L)) cfg key now = (if 1 \<le> a then a - 1 else a)"
        using fb by (simp add: available_def min_def)
      then show ?thesis using Request \<open>c' = c\<close> True al by (simp add: a_def)
    qed
  qed
qed

lemma window_tokens:
  assumes "rateInv L t" "map_of (configs L) c = Some cfg" "timesFrom t es"
    and "list_ex sweeps es \<Longrightarrow> refillsWhileIdle cfg" "\<And>e. e \<in> set es \<Longrightarrow> eventTime e \<le> t + T" "0 \<le> T"
  shows "of_nat (admitted (composeBucketKey c ctx) es L) \<le> available L cfg (composeBucketKey c ctx) t + of_int T * refillPerMs cfg"
  using assms
proof (induction es arbitrary: L t T)
  case Nil
  have s: "saneConfigs (configs L)" using Nil.prems(1) by (simp add: rateInv_def)
  have "0 \<le> of_int T * refillPerMs cfg" using map_of_sane(3) [OF s Nil.prems(2)] Nil.prems(6) by simp
  then show ?case using available_bounds(1) [OF Nil.prems(1,2), of t ctx] by simp
next
  case (Cons e es)
  let ?k = "composeBucketKey c ctx" and ?t = "eventTime e"
  have le: "t \<le> ?t" using Cons.prems(3) by simp
  have *: "of_bool (admits ?k e L) + available (rateStep e L) cfg ?k ?t = available L cfg ?k ?t"
    by (rule step_tokens [OF Cons.prems(1,2) le]) (use Cons.prems(4) in simp)
  have "of_nat (admitted ?k es (rateStep e L)) \<le> available (rateStep e L) cfg ?k ?t + of_int (t + T - ?t) * refillPerMs cfg"
  proof (rule Cons.IH)
    show "rateInv (rateStep e L) ?t" "map_of (configs (rateStep e L)) c = Some cfg"
      using step_inv [OF Cons.prems(1) le] Cons.prems(2) by auto
  qed (use Cons.prems in auto)
  moreover have "available L cfg ?k ?t \<le> available L cfg ?k t + of_int (?t - t) * refillPerMs cfg"
    by (rule available_grows [OF Cons.prems(1,2) le])
  moreover have "of_int (t + T - ?t) * refillPerMs cfg + of_int (?t - t) * refillPerMs cfg = of_int T * refillPerMs cfg"
    by (simp add: algebra_simps)
  moreover have "of_nat (admitted ?k (e # es) L) = (of_bool (admits ?k e L) + of_nat (admitted ?k es (rateStep e L)) :: rat)"
    by simp
  ultimately show ?case using * by linarith
qed

lemma run_inv:
  "rateInv L t \<Longrightarrow> timesFrom t es \<Longrightarrow>
     rateInv (fold rateStep es L) (foldl (\<lambda>_ e. eventTime e) t es) \<and> configs (fold rateStep es L) = configs L"
proof (induction es arbitrary: L t)
  case (Cons e es)
  have le: "t \<le> eventTime e" using Cons.prems by simp
  show ?case using Cons.IH [OF step_inv(1) [OF Cons.prems(1) le]] Cons.prems(2) step_inv(2) [OF Cons.prems(1) le] by simp
qed simp

lemma timesFrom_append: "timesFrom t (xs @ ys) \<longleftrightarrow> timesFrom t xs \<and> timesFrom (foldl (\<lambda>_ e. eventTime e) t xs) ys"
  by (induction xs arbitrary: t) auto

lemma new_inv: "saneConfigs (configs (newRateLimiter env mode cfgs auto)) \<Longrightarrow> rateInv (newRateLimiter env mode cfgs auto) t"
  by (simp add: rateInv_def newRateLimiter_def startSweeper_def Let_def)

lemma window_from:
  assumes "rateInv L t" "map_of (configs L) c = Some cfg" "timesFrom t es"
    and "list_ex sweeps es \<Longrightarrow> refillsWhileIdle cfg" "\<And>e. e \<in> set es \<Longrightarrow> a \<le> eventTime e \<and> eventTime e \<le> a + T" "0 \<le> T"
  shows "of_nat (admitted (composeBucketKey c ctx) es L) \<le> capacity cfg + of_int T * refillPerMs cfg"
proof (cases es)
  case Nil
  have s: "saneConfigs (configs L)" using assms(1) by (simp add: rateInv_def)
  show ?thesis using Nil map_of_sane [OF s assms(2)] assms(6) by simp
next
  case (Cons e es')
  let ?t = "eventTime e"
  have t: "t \<le> ?t" "a \<le> ?t" using assms(3,5) Cons by auto
  have "of_nat (admitted (composeBucketKey c ctx) es L) \<le> available L cfg (composeBucketKey c ctx) ?t + of_int (a + T - ?t) * refillPerMs cfg"
  proof (rule window_tokens [OF rateInv_mono [OF assms(1) t(1)] assms(2)])
    show "timesFrom ?t es" using assms(3) Cons by simp
    show "0 \<le> a + T - ?t" using assms(5) [of e] Cons by simp
  qed (use assms(4,5) in auto)
  moreover have "available L cfg (composeBucketKey c ctx) ?t \<le> capacity cfg"
    by (rule available_bounds [OF assms(1,2) t(1)])
  moreover have "of_int (a + T - ?t) * refillPerMs cfg \<le> of_int T * refillPerMs cfg"
    using t(2) map_of_sane(3) [OF _ assms(2)] assms(1) by (intro mult_right_mono) (auto simp: rateInv_def)
  ultimately show ?thesis by linarith
qed


lemmas default_buckets = newRateLimiter_def buildDefaultBuckets_def readEnvNumber_def orElseNum_def bucketCfg_def Let_def


section \<open>Sweeping is invisible\<close>

fun verdicts :: "RateEvent list \<Rightarrow> RateLimiter \<Rightarrow> RateVerdict list" where
  "verdicts [] L = []"
| "verdicts (Request c ctx t # es) L = fst (tryConsume c ctx t L) # verdicts es (rateStep (Request c ctx t) L)"
| "verdicts (SweepAt t # es) L = verdicts es (rateStep (SweepAt t) L)"

definition sameTokens :: "ms \<Rightarrow> RateLimiter \<Rightarrow> RateLimiter \<Rightarrow> bool" where
  "sameTokens t L L' \<longleftrightarrow> rateInv L t \<and> rateInv L' t \<and> configs L' = configs L \<and>
     (\<forall>c cfg ctx later. map_of (configs L) c = Some cfg \<longrightarrow> t \<le> later \<longrightarrow>
        available L cfg (composeBucketKey c ctx) later = available L' cfg (composeBucketKey c ctx) later)"

lemma sameTokens_request:
  assumes "sameTokens t L L'" "t \<le> now"
  shows "fst (tryConsume c ctx now L) = fst (tryConsume c ctx now L')"
    "sameTokens now (snd (tryConsume c ctx now L)) (snd (tryConsume c ctx now L'))"
proof -
  note s = assms(1) [unfolded sameTokens_def]
  have inv: "rateInv L t" "rateInv L' t" and cf: "configs L' = configs L" using s by auto
  have av: "available L k (composeBucketKey d x) later = available L' k (composeBucketKey d x) later"
    if "map_of (configs L) d = Some k" "t \<le> later" for d k x later using s that by blast
  have "fst (tryConsume c ctx now L) = fst (tryConsume c ctx now L') \<and>
      sameTokens now (snd (tryConsume c ctx now L)) (snd (tryConsume c ctx now L'))"
  proof (cases "map_of (configs L) c")
    case None
    have "sameTokens now L L'"
      using s assms(2) rateInv_mono unfolding sameTokens_def by (meson order_trans)
    then show ?thesis using None cf by (simp add: tryConsume_unknown)
  next
    case (Some cfg)
    have Some': "map_of (configs L') c = Some cfg" using Some cf by simp
    note k = tryConsume_known [OF inv(1) Some assms(2), where ctx = ctx] and k' = tryConsume_known [OF inv(2) Some' assms(2), where ctx = ctx]
    have a: "available L cfg (composeBucketKey c ctx) now = available L' cfg (composeBucketKey c ctx) now"
      by (rule av [OF Some assms(2)])
    have "available (snd (tryConsume c ctx now L)) g (composeBucketKey d x) later =
        available (snd (tryConsume c ctx now L')) g (composeBucketKey d x) later"
      if d: "map_of (configs L) d = Some g" "now \<le> later" for d g x later
    proof (cases "composeBucketKey d x = composeBucketKey c ctx")
      case True
      then show ?thesis using k(3) k'(3) a unfolding available_def by simp
    next
      case False
      then show ?thesis using k(4) [OF False] k'(4) [OF False] av [OF d(1), of later x] assms(2) d(2)
        unfolding available_def by simp
    qed
    then show ?thesis using k k' a cf unfolding sameTokens_def by simp
  qed
  then show "fst (tryConsume c ctx now L) = fst (tryConsume c ctx now L')"
    "sameTokens now (snd (tryConsume c ctx now L)) (snd (tryConsume c ctx now L'))" by simp_all
qed

lemma sameTokens_sweep:
  assumes "sameTokens t L L'" "t \<le> now" "\<And>c cfg. map_of (configs L) c = Some cfg \<Longrightarrow> refillsWhileIdle cfg"
  shows "sameTokens now (snd (sweepIdleBuckets now L)) L'"
proof -
  have inv: "rateInv L t" "rateInv L' t" using assms(1) by (auto simp: sameTokens_def)
  have "available (snd (sweepIdleBuckets now L)) cfg (composeBucketKey c ctx) later = available L' cfg (composeBucketKey c ctx) later"
    if "map_of (configs L) c = Some cfg" "now \<le> later" for c cfg ctx later
    using sweep_available [OF inv(1) that(1) assms(3) [OF that(1)] assms(2) that(2)] assms(1,2) that
    unfolding sameTokens_def by simp
  then show ?thesis
    using sweep_inv [OF rateInv_mono [OF inv(1) assms(2)], of now] rateInv_mono [OF inv(2) assms(2)] assms(1)
    unfolding sameTokens_def by (simp add: sweepIdleBuckets_def)
qed

lemma verdicts_sweepless:
  assumes "sameTokens t L L'" "timesFrom t es" "\<And>c cfg. map_of (configs L) c = Some cfg \<Longrightarrow> refillsWhileIdle cfg"
  shows "verdicts es L = verdicts (filter (\<lambda>e. \<not> sweeps e) es) L'"
  using assms
proof (induction es arbitrary: t L L')
  case (Cons e es)
  show ?case
  proof (cases e)
    case (Request c ctx now)
    note r = sameTokens_request [OF Cons.prems(1), of now c ctx]
    have now: "t \<le> now" using Cons.prems(2) Request by simp
    have cf: "configs (snd (tryConsume c ctx now L)) = configs L"
      using step_inv(2) [of L t "Request c ctx now"] Cons.prems(1) now by (simp add: sameTokens_def)
    have "verdicts es (snd (tryConsume c ctx now L)) = verdicts (filter (\<lambda>e. \<not> sweeps e) es) (snd (tryConsume c ctx now L'))"
      by (rule Cons.IH [OF r(2) [OF now]]) (use Cons.prems Request cf in auto)
    then show ?thesis using Request r(1) [OF now] by simp
  next
    case (SweepAt now)
    have now: "t \<le> now" using Cons.prems(2) SweepAt by simp
    have "verdicts es (snd (sweepIdleBuckets now L)) = verdicts (filter (\<lambda>e. \<not> sweeps e) es) L'"
      by (rule Cons.IH [OF sameTokens_sweep [OF Cons.prems(1) now Cons.prems(3)]])
        (use Cons.prems SweepAt in \<open>auto simp: sweepIdleBuckets_def\<close>)
    then show ?thesis using SweepAt by simp
  qed
qed simp

text \<open>C23: The sweep is invisible: when every configured bucket refills from empty within the idle time, a history
  with sweeps of idle buckets gives every request the verdict it gets in the same history without them, to the
  last header value.\<close>

theorem sweep_invisible:
  assumes "saneConfigs (configs (newRateLimiter env mode cfgs auto))"
    and "\<And>c cfg. map_of (configs (newRateLimiter env mode cfgs auto)) c = Some cfg \<Longrightarrow> refillsWhileIdle cfg"
    and "timesFrom t es"
  shows "verdicts es (newRateLimiter env mode cfgs auto) =
      verdicts (filter (\<lambda>e. \<not> sweeps e) es) (newRateLimiter env mode cfgs auto)"
  by (rule verdicts_sweepless [OF _ assms(3,2)]) (use new_inv [OF assms(1)] in \<open>auto simp: sameTokens_def\<close>)

lemma default_configs_ok:
  "saneConfigs (buildDefaultBuckets Map.empty mode)"
  "map_of (buildDefaultBuckets Map.empty mode) c = Some cfg \<Longrightarrow> refillsWhileIdle cfg"
  by (cases mode; simp add: default_buckets saneConfigs_def)
    (cases mode; auto simp: default_buckets refillsWhileIdle_def IDLE_BUCKET_TTL_MS_def split: if_splits)

lemma default_configs: "configs (newRateLimiter env mode None auto) = buildDefaultBuckets env mode"
  by (simp add: newRateLimiter_def startSweeper_def Let_def)

theorem sweep_invisible_witness:
  "verdicts [Request ''chat'' None 0, SweepAt 4000000, Request ''chat'' None 4000001] (newRateLimiter Map.empty CloudMode None True) =
   verdicts [Request ''chat'' None 0, Request ''chat'' None 4000001] (newRateLimiter Map.empty CloudMode None True)"
  using sweep_invisible [of Map.empty CloudMode None True 0 "[Request ''chat'' None 0, SweepAt 4000000, Request ''chat'' None 4000001]"]
    default_configs_ok [of CloudMode] by (simp add: default_configs)

section \<open>Retry-After\<close>

lemma available_denied:
  assumes "rateInv L t" "map_of (configs L) c = Some cfg" "t \<le> now" "now \<le> later" "\<not> rvAllowed (fst (tryConsume c ctx now L))"
  shows "available (snd (tryConsume c ctx now L)) cfg (composeBucketKey c ctx) later =
      min (capacity cfg) (available L cfg (composeBucketKey c ctx) now + of_int (later - now) * refillPerMs cfg)"
proof -
  have "\<not> 1 \<le> available L cfg (composeBucketKey c ctx) now"
    using tryConsume_allowed [OF assms(1-3)] assms(5) by blast
  then show ?thesis using tryConsume_bucket [OF assms(1-3), of ctx] by (simp add: available_def [of "snd _"])
qed

lemma retry_verdict:
  assumes "\<not> 1 \<le> a" "0 < refillPerMs cfg"
  shows "retryAfterSec (fst (consumeOne (bucketAt cfg a t))) = Some (max 1 \<lceil>(1 - a) / (refillPerMs cfg * 1000)\<rceil>)"
  using assms by (simp add: consumeOne_def Let_def ceilDiv_def)

lemma ceil_reached:
  fixes x r :: rat
  assumes "0 < r" "of_int \<lceil>x / (r * 1000)\<rceil> * 1000 \<le> (d :: rat)"
  shows "x \<le> d * r"
proof -
  have "x / (r * 1000) \<le> of_int \<lceil>x / (r * 1000)\<rceil>" by (rule le_of_int_ceiling)
  then have "x \<le> of_int \<lceil>x / (r * 1000)\<rceil> * (r * 1000)" by (subst (asm) pos_divide_le_eq) (use assms(1) in simp_all)
  also have "\<dots> = (of_int \<lceil>x / (r * 1000)\<rceil> * 1000) * r" by simp
  also have "\<dots> \<le> d * r" using assms by (intro mult_right_mono) auto
  finally show ?thesis .
qed

lemma ceil_not_reached:
  fixes x r :: rat
  assumes "0 < r" "(d :: rat) \<le> (of_int \<lceil>x / (r * 1000)\<rceil> - 1) * 1000"
  shows "d * r < x"
proof -
  have "of_int \<lceil>x / (r * 1000)\<rceil> - 1 < x / (r * 1000)" using ceiling_correct [of "x / (r * 1000)"] by linarith
  then have "(of_int \<lceil>x / (r * 1000)\<rceil> - 1) * (r * 1000) < x" by (subst (asm) pos_less_divide_eq) (use assms(1) in simp_all)
  moreover have "d * r \<le> ((of_int \<lceil>x / (r * 1000)\<rceil> - 1) * 1000) * r" using assms by (intro mult_right_mono) auto
  ultimately show ?thesis by (simp add: mult.assoc mult.commute)
qed

lemma retry_exact:
  assumes "rateInv L t" "map_of (configs L) c = Some cfg" "t \<le> now" "\<not> rvAllowed (fst (tryConsume c ctx now L))"
    and "1 \<le> capacity cfg" "0 < refillPerMs cfg"
  shows "\<exists>s\<ge>1. retryAfterSec (fst (tryConsume c ctx now L)) = Some s \<and>
      (\<forall>later\<ge>now + s * 1000. rvAllowed (fst (tryConsume c ctx later (snd (tryConsume c ctx now L))))) \<and>
      (\<forall>later\<ge>now. later \<le> now + (s - 1) * 1000 \<longrightarrow> \<not> rvAllowed (fst (tryConsume c ctx later (snd (tryConsume c ctx now L)))))"
proof -
  let ?k = "composeBucketKey c ctx" and ?L = "snd (tryConsume c ctx now L)"
  define a where "a = available L cfg ?k now"
  define n where "n = \<lceil>(1 - a) / (refillPerMs cfg * 1000)\<rceil>"
  have a: "\<not> 1 \<le> a" using tryConsume_allowed [OF assms(1-3)] assms(4) by (simp add: a_def)
  have s: "retryAfterSec (fst (tryConsume c ctx now L)) = Some (max 1 n)"
    using tryConsume_verdict [OF assms(1-3), of ctx] retry_verdict [OF a assms(6), of now] by (simp add: a_def n_def)
  have "0 < (1 - a) / (refillPerMs cfg * 1000)" using a assms(6) by simp
  then have n: "1 \<le> n" unfolding n_def by linarith
  have inv: "rateInv ?L now" "map_of (configs ?L) c = Some cfg"
    using tryConsume_inv [OF assms(1-3)] tryConsume_configs [OF assms(1-3)] assms(2) by simp_all
  have al: "rvAllowed (fst (tryConsume c ctx later ?L)) \<longleftrightarrow> 1 \<le> a + of_int (later - now) * refillPerMs cfg" if "now \<le> later" for later
    using tryConsume_allowed [OF inv that, of ctx] available_denied [OF assms(1-3) that assms(4)] assms(5) by (simp add: a_def)
  have "rvAllowed (fst (tryConsume c ctx later ?L))" if "now + n * 1000 \<le> later" for later
  proof -
    have "n * 1000 \<le> later - now" using that by simp
    then have "(of_int (n * 1000) :: rat) \<le> of_int (later - now)" by (simp only: of_int_le_iff)
    then have "1 - a \<le> of_int (later - now) * refillPerMs cfg"
      by (intro ceil_reached [OF assms(6)]) (simp add: n_def)
    then show ?thesis using al [of later] that n by simp
  qed
  moreover have "\<not> rvAllowed (fst (tryConsume c ctx later ?L))" if l: "now \<le> later" "later \<le> now + (n - 1) * 1000" for later
  proof -
    have "later - now \<le> (n - 1) * 1000" using l by simp
    then have "(of_int (later - now) :: rat) \<le> of_int ((n - 1) * 1000)" by (simp only: of_int_le_iff)
    then have "of_int (later - now) * refillPerMs cfg < 1 - a"
      by (intro ceil_not_reached [OF assms(6)]) (simp add: n_def)
    then show ?thesis using al [OF l(1)] by simp
  qed
  ultimately show ?thesis using s n by (intro exI [of _ n]) (simp add: max_def)
qed


lemmas rate_eval = default_buckets startSweeper_def composeBucketKey_def tryConsume_def getOrCreateBucket_def findBucket_def
  putBucket_def tableGet_def tableSet_def tableUpd_def freshBucket_def BucketConfig.extend_def refilled_def consumeOne_def ceilDiv_def


section \<open>Keys separate principals\<close>

lemma containsText_mid: "containsText s (xs @ s @ ys)"
  by (induction xs) (cases s; cases ys; simp add: startsWith_def)+

definition plainPrincipal :: "string \<Rightarrow> bool" where
  "plainPrincipal p = (\<not> containsText ''::'' p \<and> \<not> startsWith p '':'')"

definition principalOf :: "TryConsumeContext option \<Rightarrow> string" where
  "principalOf ctx = (case Option.bind ctx principalKey of None \<Rightarrow> ''anon'' | Some p \<Rightarrow> p)"

definition tenantOf :: "TryConsumeContext option \<Rightarrow> string" where
  "tenantOf ctx = (case Option.bind ctx tenantKey of None \<Rightarrow> [] | Some t \<Rightarrow> t)"

lemma last_sep_shorter:
  assumes "u @ ''::'' @ p = ''::'' @ p'" "plainPrincipal p'"
  shows "u = []"
proof (rule ccontr)
  assume "u \<noteq> []"
  then obtain h v where u: "u = h # v" by (cases u) auto
  show False
  proof (cases v)
    case Nil
    then have "p' = CHR '':'' # p" using assms(1) u by simp
    then show False using assms(2) by (simp add: plainPrincipal_def startsWith_def)
  next
    case (Cons g w)
    then have "p' = w @ ''::'' @ p" using assms(1) u by simp
    then show False using assms(2) containsText_mid [of "''::''" w p] by (simp add: plainPrincipal_def)
  qed
qed

lemma last_sep_unique:
  assumes "x @ ''::'' @ p = x' @ ''::'' @ p'" "plainPrincipal p" "plainPrincipal p'"
  shows "x = x' \<and> p = p'"
proof -
  obtain u where "x = x' @ u \<and> u @ ''::'' @ p = ''::'' @ p' \<or> x @ u = x' \<and> ''::'' @ p = u @ ''::'' @ p'"
    using assms(1) by (auto simp: append_eq_append_conv2)
  then show ?thesis using last_sep_shorter [of u p p'] last_sep_shorter [of u p' p] assms(2,3) by auto
qed

lemma compose_alt:
  "composeBucketKey c ctx = (c @ (if tenantOf ctx = [] then [] else ''::'' @ tenantOf ctx)) @ ''::'' @ principalOf ctx"
  by (simp add: composeBucketKey_def tenantOf_def principalOf_def Let_def)

lemma compose_inj:
  assumes "composeBucketKey c ctx = composeBucketKey c' ctx'" "CHR '':'' \<notin> set c" "CHR '':'' \<notin> set c'"
    and "plainPrincipal (principalOf ctx)" "plainPrincipal (principalOf ctx')"
  shows "c = c' \<and> tenantOf ctx = tenantOf ctx' \<and> principalOf ctx = principalOf ctx'"
proof -
  have "c = c'" using assms(1-3) compose_class by metis
  then show ?thesis using last_sep_unique [OF assms(1) [unfolded compose_alt] assms(4,5)] by (auto split: if_splits)
qed

text \<open>Note: Principals are isolated: a request of one class, tenant or principal never changes the verdict on a
  request of another, as long as principal labels contain no double colon and do not start with a colon.\<close>

theorem rate_principals_isolated:
  assumes "rateInv L t" "map_of (configs L) c = Some cfg" "map_of (configs L) c' = Some cfg'" "t \<le> now" "now \<le> later"
    and "plainPrincipal (principalOf ctx)" "plainPrincipal (principalOf ctx')"
    and "(c, tenantOf ctx, principalOf ctx) \<noteq> (c', tenantOf ctx', principalOf ctx')"
  shows "fst (tryConsume c ctx later (snd (tryConsume c' ctx' now L))) = fst (tryConsume c ctx later L)"
proof -
  have s: "saneConfigs (configs L)" using assms(1) by (simp add: rateInv_def)
  have ne: "composeBucketKey c ctx \<noteq> composeBucketKey c' ctx'"
    using compose_inj [OF _ map_of_sane(1) [OF s assms(2)] map_of_sane(1) [OF s assms(3)] assms(6,7)] assms(8) by auto
  note k = tryConsume_known [OF assms(1,3,4), where ctx = ctx']
  have cf: "map_of (configs (snd (tryConsume c' ctx' now L))) c = Some cfg" using k(5) assms(2) by simp
  have "available (snd (tryConsume c' ctx' now L)) cfg (composeBucketKey c ctx) later = available L cfg (composeBucketKey c ctx) later"
    using k(4) [OF ne] by (simp add: available_def)
  then show ?thesis
    using tryConsume_verdict [OF k(6) cf assms(5), of ctx] tryConsume_verdict [OF assms(1,2), of later ctx] assms(4,5) by simp
qed

theorem rate_principals_isolated_witness:
  "fst (tryConsume ''reconnect'' (Some \<lparr>principalKey = Some ''bob'', tenantKey = None\<rparr>) 9
      (snd (tryConsume ''reconnect'' (Some \<lparr>principalKey = Some ''alice'', tenantKey = None\<rparr>) 5
        (newRateLimiter Map.empty LocalMode None False)))) =
   fst (tryConsume ''reconnect'' (Some \<lparr>principalKey = Some ''bob'', tenantKey = None\<rparr>) 9 (newRateLimiter Map.empty LocalMode None False))"
  by (rule rate_principals_isolated [of _ 0 _ "bucketCfg 2 (5 / 600000)" _ "bucketCfg 2 (5 / 600000)"])
    (simp add: new_inv default_configs default_configs_ok(1),
     simp_all add: plainPrincipal_def principalOf_def startsWith_def default_buckets)

section \<open>Every class has a bucket\<close>

lemma classify_configured:
  assumes "classifyRequest url method = Some c"
  shows "\<exists>cfg. map_of (buildDefaultBuckets env mode) c = Some cfg"
  using assms by (auto simp: classifyRequest_def buildDefaultBuckets_def Let_def split: if_splits)

lemma classify_arcade_configured:
  assumes "classifyArcadeRequest p method = Some c"
  shows "\<exists>cfg. map_of (buildDefaultBuckets env CloudMode @ arcadeBucketConfigs) c = Some cfg"
  using assms by (auto simp: classifyArcadeRequest_def buildDefaultBuckets_def arcadeBucketConfigs_def Let_def split: if_splits)

text \<open>Note: In cloud mode the throttle on the unauthenticated bootstrap endpoint is keyed by the request's own
  workspace header: a caller who sends a header value that has no bucket yet is admitted, however many requests
  it made before under other values.\<close>

theorem bootstrap_throttle_bypass:
  assumes "rateInv L t" "map_of (configs L) ''bootstrap'' = Some cfg" "1 \<le> capacity cfg" "t \<le> now" "ws \<noteq> []"
    and "findBucket L (''bootstrap::'' @ ws @ ''::anon'') = None"
  shows "\<exists>v. fst (rateLimitStage CloudMode None (Some ws) ''/api/auth/bootstrap'' (Some ''GET'') now L) = Admitted v"
proof -
  let ?ctx = "Some \<lparr>principalKey = Some ''anon'', tenantKey = Some ws\<rparr>"
  have k: "composeBucketKey ''bootstrap'' ?ctx = ''bootstrap::'' @ ws @ ''::anon''"
    using assms(5) by (simp add: composeBucketKey_def)
  have "1 \<le> available L cfg (composeBucketKey ''bootstrap'' ?ctx) now"
    using assms(3,6) k by (simp add: available_def)
  then have "rvAllowed (fst (tryConsume ''bootstrap'' ?ctx now L))"
    using tryConsume_allowed [OF assms(1,2,4)] by blast
  moreover have "classifyRequest ''/api/auth/bootstrap'' ''GET'' = Some ''bootstrap''"
    by (simp add: classifyRequest_def pathOnly_def RATE_LIMIT_EXEMPT_PATHS_def)
  ultimately show ?thesis by (simp add: rateLimitStage_def split_beta Let_def)
qed

theorem bootstrap_throttle_bypass_witness:
  "\<exists>v. fst (rateLimitStage CloudMode None (Some ''w7'') ''/api/auth/bootstrap'' (Some ''GET'') 9 (newRateLimiter Map.empty CloudMode None True)) = Admitted v"
  by (rule bootstrap_throttle_bypass [of _ 0 "bucketCfg 5 (5 / 60000)"])
    (simp add: new_inv default_configs default_configs_ok(1), simp_all add: default_buckets startSweeper_def findBucket_def tableGet_def)

end
