(* ===== verification/PrincipalProps.thy ===== *)
theory PrincipalProps
  imports Principal
begin

text \<open>
  Workspace confinement: the calls a route can make on its binding are steps on the slot, and the slot of an app
  token without cross-workspace scopes never admits a workspace the token was not authorised for.
\<close>

section \<open>What the guards accept\<close>

lemma write_ok: "soOk (requireWriteToWorkspace (Some p) (Some w)) \<longleftrightarrow>
    ''write'' \<in> set (pnScopes p) \<and> (w = pnWorkspace p \<or> ''cross-workspace-write'' \<in> set (pnScopes p))"
  by (auto simp: requireWriteToWorkspace_def Let_def scopeOk_def scopeDeny_def)

lemma review_ok: "soOk (requireReviewToWorkspace (Some p) (Some w)) \<longleftrightarrow>
    ''review'' \<in> set (pnScopes p) \<and> (w = pnWorkspace p \<or> ''cross-workspace-write'' \<in> set (pnScopes p))"
  by (auto simp: requireReviewToWorkspace_def Let_def scopeOk_def scopeDeny_def)

lemma read_ok: "soOk (requireReadFromWorkspace (Some p) (Some w)) \<longleftrightarrow>
    ''read'' \<in> set (pnScopes p) \<and> (w = pnWorkspace p \<or> ''cross-workspace-read'' \<in> set (pnScopes p))"
  by (auto simp: requireReadFromWorkspace_def scopeOk_def scopeDeny_def)

lemmas guards_ok = write_ok review_ok read_ok

definition confined :: "Principal \<Rightarrow> bool" where
  "confined p \<longleftrightarrow> pnKind p = AppKind \<and> ''cross-workspace-read'' \<notin> set (pnScopes p) \<and>
     ''cross-workspace-write'' \<notin> set (pnScopes p) \<and> pnWorkspace p \<noteq> ''*''"

lemma confined_guard: "confined p \<Longrightarrow> soOk (requireIntent i (Some p) (Some w)) \<Longrightarrow> w = pnWorkspace p"
  by (cases i) (auto simp: requireIntent_def guards_ok confined_def)

section \<open>The calls of a route\<close>

datatype GateCall =
    BindTarget "string option" RouteIntent
  | BindOperator Intent "string option"
  | AuthorizeExtra string

fun gateStep :: "Principal option \<Rightarrow> GateCall \<Rightarrow> RouteWorkspaceBinding option \<Rightarrow> RouteWorkspaceBinding option" where
  "gateStep pn (BindTarget requested intent) slot = snd (bindRouteTarget pn requested intent slot)"
| "gateStep pn (BindOperator intent requested) slot = snd (bindDaemonOperatorLane pn intent requested slot)"
| "gateStep pn (AuthorizeExtra w) slot = authorizeExtraTarget w slot"

definition heldTo :: "Principal \<Rightarrow> string \<Rightarrow> string set \<Rightarrow> RouteWorkspaceBinding option \<Rightarrow> bool" where
  "heldTo p w0 extra slot \<longleftrightarrow> (\<exists>b. slot = Some b \<and> rbLane b = WorkspaceLane \<and> rbTarget b \<in> {w0, pnWorkspace p} \<and>
     set (rbExtraTargets b) \<subseteq> extra)"

lemma bind_held:
  assumes "confined p" "heldTo p w0 extra slot"
  shows "heldTo p w0 extra (snd (bindRouteTarget (Some p) requested intent slot))"
proof -
  obtain b where b: "slot = Some b" "rbLane b = WorkspaceLane" "rbTarget b \<in> {w0, pnWorkspace p}" "set (rbExtraTargets b) \<subseteq> extra"
    using assms(2) by (auto simp: heldTo_def)
  show ?thesis
  proof (cases "requested = Some ''*''")
    case True
    have "\<not> soOk (requireReadFromWorkspace (Some p) (Some ''*''))" using assms(1) by (auto simp: read_ok confined_def)
    then show ?thesis using True assms(2) by (simp add: bindRouteTarget_def)
  next
    case False
    define target where "target = (case requested of None \<Rightarrow> rbTarget b | Some w \<Rightarrow> w)"
    have eq: "bindRouteTarget (Some p) requested intent slot =
        (if \<not> soOk (requireIntent intent (Some p) (Some target)) then (denialOf (requireIntent intent (Some p) (Some target)), slot)
         else (BoundTo target, Some (b\<lparr>rbTarget := target, rbLane := WorkspaceLane\<rparr>)))"
      using False b(1,2) by (cases requested) (simp_all add: bindRouteTarget_def target_def)
    show ?thesis
    proof (cases "soOk (requireIntent intent (Some p) (Some target))")
      case True
      then have "target = pnWorkspace p" by (rule confined_guard [OF assms(1)])
      then show ?thesis using eq True b by (simp add: heldTo_def)
    next
      case False
      then show ?thesis using eq assms(2) by simp
    qed
  qed
qed

lemma operator_held:
  assumes "confined p" "heldTo p w0 extra slot"
  shows "heldTo p w0 extra (snd (bindDaemonOperatorLane (Some p) intent requested slot))"
proof (cases requested)
  case None
  then show ?thesis using assms by (simp add: bindDaemonOperatorLane_def confined_def)
next
  case (Some w)
  show ?thesis
  proof (cases "soOk (if intent = WriteIntent then requireWriteToWorkspace (Some p) (Some w) else requireReadFromWorkspace (Some p) (Some w))")
    case True
    then have "w = pnWorkspace p" using assms(1) by (auto simp: guards_ok confined_def split: if_splits)
    then show ?thesis using Some True assms by (simp add: bindDaemonOperatorLane_def Let_def confined_def)
  next
    case False
    then show ?thesis using Some assms by (simp add: bindDaemonOperatorLane_def Let_def confined_def)
  qed
qed

lemma extra_held: "heldTo p w0 extra slot \<Longrightarrow> heldTo p w0 (insert w extra) (authorizeExtraTarget w slot)"
  by (auto simp: heldTo_def authorizeExtraTarget_def)

lemma heldTo_mono: "heldTo p w0 extra slot \<Longrightarrow> extra \<subseteq> extra' \<Longrightarrow> heldTo p w0 extra' slot"
  by (auto simp: heldTo_def)

lemma calls_held:
  assumes "confined p" "heldTo p w0 extra slot"
  shows "heldTo p w0 (extra \<union> {w. AuthorizeExtra w \<in> set calls}) (fold (gateStep (Some p)) calls slot)"
  using assms(2)
proof (induction calls arbitrary: extra slot)
  case (Cons c cs)
  obtain extra' where h: "heldTo p w0 extra' (gateStep (Some p) c slot)" "extra' \<subseteq> extra \<union> {w. AuthorizeExtra w \<in> set (c # cs)}"
  proof (cases c)
    case (BindTarget requested intent)
    then show thesis using that [of extra] bind_held [OF assms(1) Cons.prems] by auto
  next
    case (BindOperator intent requested)
    then show thesis using that [of extra] operator_held [OF assms(1) Cons.prems] by auto
  next
    case (AuthorizeExtra w)
    then show thesis using that [of "insert w extra"] extra_held [OF Cons.prems] by auto
  qed
  have "heldTo p w0 (extra' \<union> {w. AuthorizeExtra w \<in> set cs}) (fold (gateStep (Some p)) (c # cs) slot)"
    using Cons.IH [OF h(1)] by simp
  then show ?case by (rule heldTo_mono) (use h(2) in auto)
qed simp

lemma tenant_target:
  assumes "tenantStage LocalMode (Some p) url path method hdr = TenantPass (Some w)" "confined p"
  shows "w = pnWorkspace p \<or> (\<exists>ws. pnAllowedWorkspaces p = Some ws \<and> w \<in> set ws)"
proof -
  obtain out where r: "resolveWorkspaceHeaderBinding (Some p) hdr (methodIntent method) = (out, Some w)" "soOk out"
    using assms(1)
    by (auto simp: tenantStage_def Let_def resolveWorkspaceHeaderBinding_def rejectWith_def scopeOk_def scopeDeny_def
        split: if_splits option.splits)
  show ?thesis
  proof (cases hdr)
    case None
    then show ?thesis using r(1) by (auto simp: resolveWorkspaceHeaderBinding_def)
  next
    case (Some h)
    show ?thesis
    proof (cases "trimJs h = []")
      case True
      then show ?thesis using r(1) Some by (auto simp: resolveWorkspaceHeaderBinding_def)
    next
      case False
      then have "isWorkspaceHeaderAuthorized (Some p) (trimJs h) (methodIntent method)" "w = trimJs h"
        using r(1) Some by (auto simp: resolveWorkspaceHeaderBinding_def split: if_splits)
      then show ?thesis using assms(2)
        by (auto simp: isWorkspaceHeaderAuthorized_def confined_def split: if_splits option.splits)
    qed
  qed
qed


definition sampleToken :: Principal where
  "sampleToken = \<lparr>pnKind = AppKind, pnWorkspace = ''mine'', pnScopes = [''read'', ''write''], pnLabel = ''a1'',
     pnAllowedWorkspaces = Some [''mine'', ''shared'']\<rparr>"


text \<open>Note: The binding step itself: a target is bound only when the principal holds the scope of the intent and
  the target is its own workspace or it holds the matching cross-workspace scope.\<close>

theorem bind_needs_scope:
  assumes "fst (bindRouteTarget (Some p) requested intent slot) = BoundTo w" "requested \<noteq> Some ''*''"
  shows "(case intent of BindRead \<Rightarrow> ''read'' | BindWrite \<Rightarrow> ''write'' | BindReview \<Rightarrow> ''review'') \<in> set (pnScopes p) \<and>
    (w = pnWorkspace p \<or> (case intent of BindRead \<Rightarrow> ''cross-workspace-read'' | _ \<Rightarrow> ''cross-workspace-write'') \<in> set (pnScopes p))"
proof -
  have "soOk (requireIntent intent (Some p) (Some w))"
    using assms by (auto simp: bindRouteTarget_def denialOf_def split: option.splits if_splits)
  then show ?thesis by (cases intent) (auto simp: requireIntent_def guards_ok)
qed

end
