(* ===== verification/Access.thy ===== *)
theory Access
  imports Principal
begin

text \<open>
  Row-level access: the scope filter (\<open>security/scopeFilter.ts\<close>), the labels of an item
  (\<open>security/itemScopes.ts\<close>), the write gates (\<open>security/writeTargetGate.ts\<close>) and the export gate
  (\<open>security/exportGate.ts\<close>).

  The actor is an argument: \<open>getCurrentActorScopes\<close> is its scope list, \<open>None\<close> when no actor is bound. A value
  of type \<open>unknown\<close> is an optional JSON value, \<open>None\<close> for \<open>undefined\<close>. The three stores an item is resolved from
  are arguments; a lookup that throws is \<open>Inl\<close>.
\<close>

section \<open>\<open>security/scopeFilter.ts\<close>\<close>

definition getCurrentActorScopes :: "ActorContext option \<Rightarrow> string list option" where
  "getCurrentActorScopes actor = map_option actorScopes actor"

fun normalizeScopes :: "json option \<Rightarrow> string list" where
  "normalizeScopes (Some (JArr xs)) = filter (\<lambda>s. s \<noteq> []) (strsOf xs)"
| "normalizeScopes (Some (JStr s)) =
     (if s \<noteq> [] then filter (\<lambda>x. x \<noteq> []) (map trimJs (splitOn CHR '','' s)) else [])"
| "normalizeScopes _ = []"

definition rowAllowed :: "string list \<Rightarrow> json option \<Rightarrow> bool" where
  "rowAllowed allowed raw =
     (let rowScopes = normalizeScopes raw
      in if rowScopes = [] then True else list_ex (List.member allowed) rowScopes)"

definition applyActorScopeFilter :: "('r \<Rightarrow> json option) \<Rightarrow> 'r list \<Rightarrow> string list option \<Rightarrow> 'r list" where
  "applyActorScopeFilter scopesOf rows scopes =
     (case scopes of
        None \<Rightarrow> rows
      | Some allowed \<Rightarrow> filter (\<lambda>r. rowAllowed allowed (scopesOf r)) rows)"

definition filterNodesByActorScope :: "ActorContext option \<Rightarrow> ('n \<Rightarrow> string list option) \<Rightarrow> 'n list \<Rightarrow> 'n list" where
  "filterNodesByActorScope actor scopesOf nodes =
     map fst (applyActorScopeFilter snd (map (\<lambda>n. (n, map_option (\<lambda>ss. JArr (map JStr ss)) (scopesOf n))) nodes)
                (getCurrentActorScopes actor))"

definition actorRowVisibility :: "ActorContext option \<Rightarrow> (json option \<Rightarrow> bool) option" where
  "actorRowVisibility actor =
     (case getCurrentActorScopes actor of
        None \<Rightarrow> None
      | Some scopes \<Rightarrow>
          Some (\<lambda>raw. length (applyActorScopeFilter id [Some (JArr (map JStr (normalizeScopes raw)))] (Some scopes)) = 1))"

section \<open>\<open>security/itemScopes.ts\<close>\<close>

datatype ItemScopes = KnownScopes "string list" | UnknownScopes

type_synonym lookup = "string \<Rightarrow> string + json option option"

text \<open>
  A lookup yields \<open>None\<close> for no row and \<open>Some raw\<close> for a row whose \<open>security_scopes\<close> is \<open>raw\<close>. The version log
  yields its rows as pairs of new and previous state.
\<close>

record ItemScopeDeps =
  idWorkspace :: string
  getGraphNode :: "lookup option"
  versionStore :: "(string \<Rightarrow> string \<Rightarrow> nat \<Rightarrow> string + (json option \<times> json option) list option) option"
  getVerbatimRow :: "lookup option"

definition isDigit :: "char \<Rightarrow> bool" where
  "isDigit c = (let n = of_char c :: nat in 48 \<le> n \<and> n \<le> 57)"

definition matchesShape :: "string \<Rightarrow> string \<Rightarrow> bool" where
  "matchesShape shape s =
     (length s = length shape \<and> list_all (\<lambda>(p, c). if p = CHR ''d'' then isDigit c else p = c) (zip shape s))"

definition isRevisionHistoryId :: "string \<Rightarrow> bool" where
  "isRevisionHistoryId i =
     (28 \<le> length i \<and> (let suf = drop (length i - 28) i
                        in take 4 suf = ''#rev'' \<and> matchesShape ''dddd-dd-ddTdd:dd:dd.dddZ'' (drop 4 suf)))"

definition stripRev :: "string \<Rightarrow> string" where
  "stripRev i =
     (let tail = rev (takeWhile (\<lambda>c. c \<noteq> CHR ''#'') (rev i))
      in if length tail < length i \<and> startsWith tail ''rev'' then take (length i - length tail - 1) i else i)"

definition baseNodeId :: "string \<Rightarrow> string" where
  "baseNodeId i =
     (let base = (if isRevisionHistoryId i then stripRev i else i)
      in if startsWith base ''lore:'' then drop 5 base else base)"

fun isDamagedScopes :: "json option \<Rightarrow> bool" where
  "isDamagedScopes (Some (JArr xs)) = (xs \<noteq> [] \<and> list_all (\<lambda>s. s = JStr ''undefined'') xs)"
| "isDamagedScopes _ = False"

definition scopesVisibleToCurrentActor :: "ActorContext option \<Rightarrow> json option \<Rightarrow> bool" where
  "scopesVisibleToCurrentActor actor scopes =
     (case getCurrentActorScopes actor of
        None \<Rightarrow> True
      | Some a \<Rightarrow> length (applyActorScopeFilter id [Some (JArr (map JStr (normalizeScopes scopes)))] (Some a)) = 1)"

definition strArr :: "string list \<Rightarrow> json option" where
  "strArr ss = Some (JArr (map JStr ss))"

definition itemVisibleToCurrentActor :: "ActorContext option \<Rightarrow> ItemScopes \<Rightarrow> bool" where
  "itemVisibleToCurrentActor actor item =
     (if getCurrentActorScopes actor = None then True
      else case item of UnknownScopes \<Rightarrow> False | KnownScopes ss \<Rightarrow> scopesVisibleToCurrentActor actor (strArr ss))"

fun stateScopes :: "json option \<Rightarrow> string list option" where
  "stateScopes (Some (JObj o')) =
     (case fld o' ''security_scopes'' of None \<Rightarrow> None | Some raw \<Rightarrow> Some (normalizeScopes (Some raw)))"
| "stateScopes _ = None"

definition newestScopes :: "(json option \<times> json option) list option \<Rightarrow> string list option" where
  "newestScopes rows =
     (case rows of
        Some ((newState, previousState) # _) \<Rightarrow>
          (case stateScopes newState of Some ss \<Rightarrow> Some ss | None \<Rightarrow> stateScopes previousState)
      | _ \<Rightarrow> None)"

record ItemIds =
  nodeId :: string
  verbatimId :: "string option"

definition idsOfString :: "string \<Rightarrow> ItemIds" where
  "idsOfString i = \<lparr>nodeId = baseNodeId i, verbatimId = Some (if isRevisionHistoryId i then stripRev i else i)\<rparr>"

definition noUsableLabels :: "json option \<Rightarrow> bool" where
  "noUsableLabels raw = (raw = None \<or> raw = Some JNull \<or> isDamagedScopes raw)"

text \<open>The three sources in order; each either decides or passes on with \<open>None\<close>.\<close>

definition fromGraph :: "ItemIds \<Rightarrow> ItemScopeDeps \<Rightarrow> ItemScopes option" where
  "fromGraph ids deps =
     (case getGraphNode deps of
        None \<Rightarrow> None
      | Some get \<Rightarrow>
          (case get (nodeId ids) of
             Inl _ \<Rightarrow> Some UnknownScopes
           | Inr None \<Rightarrow> None
           | Inr (Some raw) \<Rightarrow> Some (KnownScopes (normalizeScopes raw))))"

definition fromVersions :: "ItemIds \<Rightarrow> ItemScopeDeps \<Rightarrow> ItemScopes option" where
  "fromVersions ids deps =
     (case versionStore deps of
        None \<Rightarrow> None
      | Some getVersions \<Rightarrow>
          (case getVersions (nodeId ids) (idWorkspace deps) 1 of
             Inl _ \<Rightarrow> Some UnknownScopes
           | Inr rows \<Rightarrow> map_option KnownScopes (newestScopes rows)))"

definition fromVerbatim :: "ItemIds \<Rightarrow> ItemScopeDeps \<Rightarrow> ItemScopes option" where
  "fromVerbatim ids deps =
     (case (getVerbatimRow deps, verbatimId ids) of
        (Some get, Some v) \<Rightarrow>
          (case get v of
             Inl _ \<Rightarrow> Some UnknownScopes
           | Inr None \<Rightarrow> None
           | Inr (Some raw) \<Rightarrow> Some (if noUsableLabels raw then UnknownScopes else KnownScopes (normalizeScopes raw)))
      | _ \<Rightarrow> None)"

definition resolveItemScopes :: "ItemIds \<Rightarrow> ItemScopeDeps \<Rightarrow> ItemScopes" where
  "resolveItemScopes ids deps =
     (case fromGraph ids deps of
        Some r \<Rightarrow> r
      | None \<Rightarrow>
          (case fromVersions ids deps of
             Some r \<Rightarrow> r
           | None \<Rightarrow> (case fromVerbatim ids deps of Some r \<Rightarrow> r | None \<Rightarrow> UnknownScopes)))"

definition rowOwnScopes :: "json option option \<Rightarrow> string list option" where
  "rowOwnScopes row =
     (case row of
        None \<Rightarrow> None
      | Some raw \<Rightarrow> if noUsableLabels raw then None else Some (normalizeScopes raw))"

definition verbatimItemVisible :: "ActorContext option \<Rightarrow> string \<Rightarrow> json option option \<Rightarrow> ItemScopeDeps \<Rightarrow> bool" where
  "verbatimItemVisible actor i row deps =
     (if getCurrentActorScopes actor = None then True
      else if \<not> itemVisibleToCurrentActor actor (resolveItemScopes (idsOfString i) deps) then False
      else case rowOwnScopes row of None \<Rightarrow> True | Some own \<Rightarrow> scopesVisibleToCurrentActor actor (strArr own))"

section \<open>\<open>security/writeTargetGate.ts\<close>\<close>

definition mutateTargetVisible :: "ActorContext option \<Rightarrow> ItemIds \<Rightarrow> ItemScopeDeps \<Rightarrow> bool" where
  "mutateTargetVisible actor ids deps =
     (if getCurrentActorScopes actor = None then True
      else itemVisibleToCurrentActor actor (resolveItemScopes ids deps))"

text \<open>The sources of the create gate; a source that throws blocks.\<close>

definition blockedByGraph :: "ActorContext option \<Rightarrow> string \<Rightarrow> ItemScopeDeps \<Rightarrow> bool" where
  "blockedByGraph actor i deps =
     (case getGraphNode deps of
        None \<Rightarrow> False
      | Some get \<Rightarrow>
          (case get i of
             Inl _ \<Rightarrow> True
           | Inr None \<Rightarrow> False
           | Inr (Some raw) \<Rightarrow> \<not> scopesVisibleToCurrentActor actor (strArr (normalizeScopes raw))))"

definition blockedByVersions :: "ActorContext option \<Rightarrow> string \<Rightarrow> ItemScopeDeps \<Rightarrow> bool" where
  "blockedByVersions actor i deps =
     (case versionStore deps of
        None \<Rightarrow> False
      | Some getVersions \<Rightarrow>
          (case getVersions i (idWorkspace deps) 1 of
             Inl _ \<Rightarrow> True
           | Inr rows \<Rightarrow>
               (case newestScopes rows of
                  None \<Rightarrow> False
                | Some ss \<Rightarrow> \<not> scopesVisibleToCurrentActor actor (strArr ss))))"

definition blockedByVerbatim :: "ActorContext option \<Rightarrow> string \<Rightarrow> ItemScopeDeps \<Rightarrow> bool" where
  "blockedByVerbatim actor v deps =
     (case getVerbatimRow deps of
        None \<Rightarrow> False
      | Some get \<Rightarrow>
          (case get v of
             Inl _ \<Rightarrow> True
           | Inr None \<Rightarrow> False
           | Inr (Some raw) \<Rightarrow>
               noUsableLabels raw \<or> \<not> scopesVisibleToCurrentActor actor (strArr (normalizeScopes raw))))"

definition createIdBlockedForCurrentActor :: "ActorContext option \<Rightarrow> ItemIds \<Rightarrow> ItemScopeDeps \<Rightarrow> bool" where
  "createIdBlockedForCurrentActor actor ids deps =
     (if getCurrentActorScopes actor = None then False
      else let v = (case verbatimId ids of None \<Rightarrow> ''lore:'' @ nodeId ids | Some v \<Rightarrow> v)
           in if blockedByGraph actor (nodeId ids) deps then True
              else if blockedByVersions actor (nodeId ids) deps then True
              else blockedByVerbatim actor v deps)"

section \<open>\<open>security/exportGate.ts\<close>\<close>

definition exportAllowedForCurrentActor :: "ActorContext option \<Rightarrow> Principal option \<Rightarrow> bool" where
  "exportAllowedForCurrentActor actor pn =
     (if getCurrentActorScopes actor = None then True
      else map_option pnKind pn = Some BootstrapKind \<or> map_option pnKind pn = Some SharedSecretKind)"

definition hideUncountableForCurrentActor :: "ActorContext option \<Rightarrow> Principal option \<Rightarrow> bool" where
  "hideUncountableForCurrentActor actor pn =
     (getCurrentActorScopes actor \<noteq> None \<and> \<not> exportAllowedForCurrentActor actor pn)"

end
