(* ===== verification/Rebac.thy ===== *)
theory Rebac
  imports Access KeyedTable
begin

text \<open>
  Relationship-based access control of a workspace: the relation tuples in SQLite (\<open>security/rebac.ts\<close>) and
  the evaluator of permission expressions over them (\<open>security/rebacEvaluator.ts\<close>).

  The table has the primary key (subject, relation, resource) and is a keyed table. Expiry times are the text the
  caller passed, compared as text, so \<open>now\<close> (\<open>NOW()\<close>) is an ISO string. \<open>nodeExists\<close> is the injected probe of the
  workspace's graph. A relation arrives as a string and is checked at run time.
\<close>

section \<open>Tuples\<close>

definition REBAC_RELATION_EDGE_NAMES :: "string list" where
  "REBAC_RELATION_EDGE_NAMES = [''owner'', ''editor'', ''viewer'', ''member'', ''parent'']"

definition isRebacRelation :: "string \<Rightarrow> bool" where
  "isRebacRelation name = List.member REBAC_RELATION_EDGE_NAMES name"

record RebacGrantInput =
  giSubject :: string
  giRelation :: string
  giResource :: string
  giGrantedBy :: string
  giExpiresAt :: "string option"

record RebacEdge =
  reSubject :: string
  reRelation :: string
  reResource :: string
  reGrantedAt :: string
  reGrantedBy :: string
  reExpiresAt :: string

datatype RebacError = NotARelation string | RebacGrantFailed string string string string

record RebacStore =
  rebacRows :: "RebacEdge list"

definition tupleKey :: "RebacEdge \<Rightarrow> string \<times> string \<times> string" where
  "tupleKey e = (reSubject e, reRelation e, reResource e)"

definition unexpired :: "string \<Rightarrow> RebacEdge \<Rightarrow> bool" where
  "unexpired now e = (reExpiresAt e = [] \<or> now < reExpiresAt e)"

definition assertRelation :: "string \<Rightarrow> (RebacStore \<Rightarrow> (RebacError + 'a) \<times> RebacStore) \<Rightarrow> RebacStore \<Rightarrow> (RebacError + 'a) \<times> RebacStore" where
  "assertRelation name k S = (if isRebacRelation name then k S else (Inl (NotARelation name), S))"

definition hasTuple :: "string \<Rightarrow> RebacStore \<Rightarrow> string \<Rightarrow> string \<Rightarrow> string \<Rightarrow> bool" where
  "hasTuple now S subject relation resource =
     list_ex (\<lambda>e. reSubject e = subject \<and> reRelation e = relation \<and> reResource e = resource \<and> unexpired now e) (rebacRows S)"

definition hasRelation :: "string \<Rightarrow> string \<Rightarrow> string \<Rightarrow> string \<Rightarrow> RebacStore \<Rightarrow> (RebacError + bool) \<times> RebacStore" where
  "hasRelation now subject relation resource =
     assertRelation relation (\<lambda>S. (Inr (hasTuple now S subject relation resource), S))"

definition edgeExists :: "RebacStore \<Rightarrow> string \<Rightarrow> string \<Rightarrow> string \<Rightarrow> bool" where
  "edgeExists S subject relation resource =
     list_ex (\<lambda>e. reSubject e = subject \<and> reRelation e = relation \<and> reResource e = resource) (rebacRows S)"

definition missingEndpoints :: "string list \<Rightarrow> RebacGrantInput \<Rightarrow> string list" where
  "missingEndpoints present i =
     (if List.member present (giSubject i) then [] else [''subject '' @ sq (giSubject i)]) @
     (if List.member present (giResource i) then [] else [''resource '' @ sq (giResource i)])"

fun joinAnd :: "string list \<Rightarrow> string" where
  "joinAnd [] = []"
| "joinAnd [x] = x"
| "joinAnd (x # xs) = x @ '' and '' @ joinAnd xs"

definition grantRow :: "string \<Rightarrow> RebacGrantInput \<Rightarrow> RebacEdge" where
  "grantRow now i =
     \<lparr>reSubject = giSubject i, reRelation = giRelation i, reResource = giResource i, reGrantedAt = now,
      reGrantedBy = giGrantedBy i, reExpiresAt = (case giExpiresAt i of None \<Rightarrow> [] | Some x \<Rightarrow> x)\<rparr>"

definition grant ::
  "(string list \<Rightarrow> string list) \<Rightarrow> string \<Rightarrow> RebacGrantInput \<Rightarrow> RebacStore \<Rightarrow> (RebacError + bool) \<times> RebacStore" where
  "grant nodeExists now i =
     assertRelation (giRelation i) (\<lambda>S.
       if hasTuple now S (giSubject i) (giRelation i) (giResource i) then (Inr False, S)
       else let missing = missingEndpoints (nodeExists [giSubject i, giResource i]) i
            in if missing \<noteq> [] then
                 (Inl (RebacGrantFailed (''rebac grant failed: '' @ joinAnd missing @
                         '' not found as a graph node. The grant would create an edge no permission check could ever match.'')
                         (giSubject i) (giRelation i) (giResource i)), S)
               else let S1 = S\<lparr>rebacRows := tablePut tupleKey (grantRow now i) (rebacRows S)\<rparr>
                    in if \<not> edgeExists S1 (giSubject i) (giRelation i) (giResource i) then
                         (Inl (RebacGrantFailed ''rebac grant failed: the edge does not exist after INSERT. The statement reported no error but produced no row - treat this as a substrate fault, not a permissions decision.''
                                 (giSubject i) (giRelation i) (giResource i)), S1)
                       else (Inr True, S1))"

definition clearAll :: "RebacStore \<Rightarrow> RebacStore" where
  "clearAll S = S\<lparr>rebacRows := []\<rparr>"

definition revoke :: "string \<Rightarrow> string \<Rightarrow> string \<Rightarrow> string \<Rightarrow> RebacStore \<Rightarrow> (RebacError + bool) \<times> RebacStore" where
  "revoke now subject relation resource =
     assertRelation relation (\<lambda>S.
       if \<not> hasTuple now S subject relation resource then (Inr False, S)
       else let keep = filter (\<lambda>e. tupleKey e \<noteq> (subject, relation, resource)) (rebacRows S)
            in (Inr (length keep < length (rebacRows S)), S\<lparr>rebacRows := keep\<rparr>))"

section \<open>Effective relations\<close>

definition listGroupsSubjectIsMemberOf :: "string \<Rightarrow> RebacStore \<Rightarrow> string \<Rightarrow> string list" where
  "listGroupsSubjectIsMemberOf now S subject =
     remdups (map reResource (filter (\<lambda>e. reSubject e = subject \<and> reRelation e = ''member'' \<and> unexpired now e) (rebacRows S)))"

definition listParentsOf :: "string \<Rightarrow> RebacStore \<Rightarrow> string list \<Rightarrow> string list" where
  "listParentsOf now S ids =
     (if ids = [] then []
      else remdups (map reResource (filter (\<lambda>e. List.member ids (reSubject e) \<and> reRelation e = ''parent'' \<and> unexpired now e) (rebacRows S))))"

definition heldBy :: "string \<Rightarrow> RebacStore \<Rightarrow> string \<Rightarrow> string list \<Rightarrow> string \<Rightarrow> string \<Rightarrow> bool" where
  "heldBy now S relation groupIds subject resource =
     (hasTuple now S subject relation resource \<or> list_ex (\<lambda>g. hasTuple now S g relation resource) groupIds)"

text \<open>The loop over the parents of one level: \<open>None\<close> is the early \<open>return true\<close>.\<close>

fun scanParents :: "(string \<Rightarrow> bool) \<Rightarrow> string list \<Rightarrow> string list \<Rightarrow> string list \<Rightarrow> (string list \<times> string list) option" where
  "scanParents held seen nxt [] = Some (seen, nxt)"
| "scanParents held seen nxt (p # ps) =
     (if List.member seen p then scanParents held seen nxt ps
      else if held p then None
      else scanParents held (p # seen) (nxt @ [p]) ps)"

fun ancestorLevels :: "(string list \<Rightarrow> string list) \<Rightarrow> (string \<Rightarrow> bool) \<Rightarrow> nat \<Rightarrow> string list \<Rightarrow> string list \<Rightarrow> bool" where
  "ancestorLevels parents held 0 seen frontier = False"
| "ancestorLevels parents held (Suc n) seen frontier =
     (case scanParents held seen [] (parents frontier) of
        None \<Rightarrow> True
      | Some (seen1, nxt) \<Rightarrow> if nxt = [] then False else ancestorLevels parents held n seen1 nxt)"

definition effectiveDepth :: "rat \<Rightarrow> nat" where
  "effectiveDepth maxDepth = nat (max 1 \<lfloor>maxDepth\<rfloor>)"

definition hasEffective :: "string \<Rightarrow> string \<Rightarrow> string \<Rightarrow> string \<Rightarrow> rat \<Rightarrow> RebacStore \<Rightarrow> (RebacError + bool) \<times> RebacStore" where
  "hasEffective now subject relation resource maxDepth =
     assertRelation relation (\<lambda>S.
       (Inr (if hasTuple now S subject relation resource then True
             else let groupIds = listGroupsSubjectIsMemberOf now S subject
                  in if list_ex (\<lambda>g. hasTuple now S g relation resource) groupIds then True
                     else ancestorLevels (listParentsOf now S) (heldBy now S relation groupIds subject)
                            (effectiveDepth maxDepth) [resource] [resource]), S))"

section \<open>Listings\<close>

definition listSubjectRelations :: "string \<Rightarrow> RebacStore \<Rightarrow> string \<Rightarrow> string \<Rightarrow> string list" where
  "listSubjectRelations now S subject resource =
     filter isRebacRelation
       (remdups (map reRelation (filter (\<lambda>e. reSubject e = subject \<and> reResource e = resource \<and> unexpired now e) (rebacRows S))))"

definition listResourceGrants :: "RebacStore \<Rightarrow> string \<Rightarrow> RebacEdge list" where
  "listResourceGrants S resource =
     filter (\<lambda>e. isRebacRelation (reRelation e)) (filter (\<lambda>e. reResource e = resource) (rebacRows S))"

definition listSubjectGrants :: "RebacStore \<Rightarrow> string \<Rightarrow> RebacEdge list" where
  "listSubjectGrants S subject =
     filter (\<lambda>e. isRebacRelation (reRelation e)) (filter (\<lambda>e. reSubject e = subject) (rebacRows S))"

section \<open>The permission schema\<close>

type_synonym PermissionSchema = "(string \<times> (string \<times> string) list) list"

record PermissionSource =
  psEdgeTypes :: "string list"
  psPermissions :: "PermissionSchema option"

definition orTerms :: "string \<Rightarrow> string list" where
  "orTerms expr = filter (\<lambda>t. t \<noteq> []) (map trimJs (splitOn CHR ''|'' expr))"

definition parsePermissionExpression :: "string \<Rightarrow> string list \<Rightarrow> string list \<times> string list" where
  "parsePermissionExpression expr known =
     (filter (List.member known) (orTerms expr), filter (\<lambda>t. \<not> List.member known t) (orTerms expr))"

definition knownRelations :: "PermissionSource \<Rightarrow> string list" where
  "knownRelations schema = [''owner'', ''editor'', ''viewer'', ''member'', ''parent''] @ psEdgeTypes schema"

definition findUnknownPermissionRelations :: "PermissionSource \<Rightarrow> (string \<times> string \<times> string list) list" where
  "findUnknownPermissionRelations schema =
     (let known = REBAC_RELATION_EDGE_NAMES @ psEdgeTypes schema
      in case psPermissions schema of
           None \<Rightarrow> []
         | Some perms \<Rightarrow>
             filter (\<lambda>(rt, action, unknown). unknown \<noteq> [])
               (concat (map (\<lambda>(rt, actions).
                  map (\<lambda>(action, expr). (rt, action, filter (\<lambda>t. \<not> List.member known t) (orTerms expr))) actions) perms)))"

section \<open>The evaluator\<close>

record RebacEvaluator =
  evPermissions :: PermissionSchema
  evKnown :: "string list"

definition newEvaluator :: "PermissionSource \<Rightarrow> RebacEvaluator" where
  "newEvaluator schema =
     \<lparr>evPermissions = (case psPermissions schema of None \<Rightarrow> [] | Some p \<Rightarrow> p), evKnown = knownRelations schema\<rparr>"

definition setSchema :: "PermissionSource \<Rightarrow> RebacEvaluator \<Rightarrow> RebacEvaluator" where
  "setSchema schema ev =
     ev\<lparr>evPermissions := (case psPermissions schema of None \<Rightarrow> [] | Some p \<Rightarrow> p), evKnown := knownRelations schema\<rparr>"

datatype DenyCause = NoSchema | NoAction | NoRelationMatches | UnknownRelation

datatype PermissionCheckResult = PermitVia string | Refuse DenyCause "string option"

fun evalTerms :: "(string \<Rightarrow> bool) \<Rightarrow> string list \<Rightarrow> PermissionCheckResult" where
  "evalTerms holds [] = Refuse NoRelationMatches None"
| "evalTerms holds (t # ts) =
     (if \<not> isRebacRelation t then Refuse UnknownRelation (Some (''non-ReBAC relation '' @ sq t @ '' in expression''))
      else if holds t then PermitVia t
      else evalTerms holds ts)"

definition effectiveNow :: "string \<Rightarrow> RebacStore \<Rightarrow> string \<Rightarrow> string \<Rightarrow> string \<Rightarrow> bool" where
  "effectiveNow now S subject resource term = (fst (hasEffective now subject term resource 8 S) = Inr True)"

definition permissionCheck ::
  "RebacEvaluator \<Rightarrow> string \<Rightarrow> RebacStore \<Rightarrow> string \<Rightarrow> string \<Rightarrow> string \<Rightarrow> string \<Rightarrow> PermissionCheckResult" where
  "permissionCheck ev now S subject action resource resourceType =
     (case map_of (evPermissions ev) resourceType of
        None \<Rightarrow> Refuse NoSchema (Some resourceType)
      | Some actions \<Rightarrow>
          (case map_of actions action of
             None \<Rightarrow> Refuse NoAction (Some action)
           | Some expr \<Rightarrow>
               if expr = [] then Refuse NoAction (Some action)
               else (case parsePermissionExpression expr (evKnown ev) of
                       (terms, unknown) \<Rightarrow>
                         if unknown \<noteq> [] then Refuse UnknownRelation (Some (joinComma unknown))
                         else evalTerms (effectiveNow now S subject resource) terms)))"

end
