(* ===== verification/RebacProps.thy ===== *)
theory RebacProps
  imports Rebac
begin

text \<open>
  The relation store and the permission checks over it. \<open>hasEffective\<close> is shown to be exactly its relational
  meaning: the subject or one of its groups holds the relation on the resource or on an ancestor within the depth
  bound. The evaluator permits exactly what an expression's terms then allow.
\<close>

interpretation rt: keyed_table rebacRows "\<lambda>rs S. S\<lparr>rebacRows := rs\<rparr>" tupleKey
  by unfold_locales simp

section \<open>Grants\<close>

lemma hasTuple_iff: "hasTuple now S s r o' \<longleftrightarrow> (\<exists>e\<in>set (rebacRows S). tupleKey e = (s, r, o') \<and> unexpired now e)"
  by (auto simp: hasTuple_def list_ex_iff tupleKey_def)

lemma edgeExists_put: "edgeExists (S\<lparr>rebacRows := tablePut tupleKey e (rebacRows S)\<rparr>) (reSubject e) (reRelation e) (reResource e)"
  by (auto simp: edgeExists_def list_ex_iff tablePut_def)

lemma hasTuple_put:
  "hasTuple now (S\<lparr>rebacRows := tablePut tupleKey e (rebacRows S)\<rparr>) s r o' \<longleftrightarrow>
     (if (s, r, o') = tupleKey e then unexpired now e else hasTuple now S s r o')"
  by (auto simp: hasTuple_iff tablePut_def)

lemma hasTuple_delete:
  "hasTuple now (S\<lparr>rebacRows := filter (\<lambda>e. tupleKey e \<noteq> k) (rebacRows S)\<rparr>) s r o' \<longleftrightarrow> (s, r, o') \<noteq> k \<and> hasTuple now S s r o'"
  by (auto simp: hasTuple_iff)

lemma tupleKey_grantRow [simp]: "tupleKey (grantRow now i) = (giSubject i, giRelation i, giResource i)"
  by (simp add: tupleKey_def grantRow_def)

lemma grant_cases:
  obtains (bad) "\<not> isRebacRelation (giRelation i)" "grant nodeExists now i S = (Inl (NotARelation (giRelation i)), S)"
  | (already) "hasTuple now S (giSubject i) (giRelation i) (giResource i)" "grant nodeExists now i S = (Inr False, S)"
  | (unanchored) msg where "grant nodeExists now i S = (Inl (RebacGrantFailed msg (giSubject i) (giRelation i) (giResource i)), S)"
      "\<not> {giSubject i, giResource i} \<subseteq> set (nodeExists [giSubject i, giResource i])"
  | (granted) "grant nodeExists now i S = (Inr True, S\<lparr>rebacRows := tablePut tupleKey (grantRow now i) (rebacRows S)\<rparr>)"
      "\<not> hasTuple now S (giSubject i) (giRelation i) (giResource i)"
      "{giSubject i, giResource i} \<subseteq> set (nodeExists [giSubject i, giResource i])"
proof (cases "isRebacRelation (giRelation i)")
  case False
  then show thesis by (intro bad) (simp_all add: grant_def assertRelation_def)
next
  case rel: True
  show thesis
  proof (cases "hasTuple now S (giSubject i) (giRelation i) (giResource i)")
    case True
    then show thesis using rel by (intro already) (simp_all add: grant_def assertRelation_def)
  next
    case no: False
    let ?m = "missingEndpoints (nodeExists [giSubject i, giResource i]) i"
    show thesis
    proof (cases "?m = []")
      case True
      have "{giSubject i, giResource i} \<subseteq> set (nodeExists [giSubject i, giResource i])"
        using True by (auto simp: missingEndpoints_def split: if_splits)
      moreover have "edgeExists (S\<lparr>rebacRows := tablePut tupleKey (grantRow now i) (rebacRows S)\<rparr>) (giSubject i) (giRelation i) (giResource i)"
        using edgeExists_put [of "grantRow now i" S] by (simp add: grantRow_def)
      ultimately show thesis using rel no True by (intro granted) (simp_all add: grant_def assertRelation_def Let_def)
    next
      case False
      have "\<not> {giSubject i, giResource i} \<subseteq> set (nodeExists [giSubject i, giResource i])"
        using False by (auto simp: missingEndpoints_def split: if_splits)
      then show thesis using rel no False
        by (intro unanchored [of "''rebac grant failed: '' @ joinAnd ?m @
             '' not found as a graph node. The grant would create an edge no permission check could ever match.''"])
          (simp_all add: grant_def assertRelation_def Let_def)
    qed
  qed
qed

text \<open>Note: Grant and revoke: a grant that reports success leaves exactly one more readable tuple, provided it has not
  already expired, and both its endpoints exist; a revocation that reports success removes exactly that tuple; any
  other answer leaves the store as it was.\<close>

theorem grant_revoke_exact:
  "(case grant nodeExists now i S of
      (Inr True, S') \<Rightarrow>
        {giSubject i, giResource i} \<subseteq> set (nodeExists [giSubject i, giResource i]) \<and>
        (\<forall>s r o'. hasTuple t S' s r o' \<longleftrightarrow>
           (if (s, r, o') = (giSubject i, giRelation i, giResource i) then unexpired t (grantRow now i) else hasTuple t S s r o'))
    | (_, S') \<Rightarrow> S' = S) \<and>
   (case revoke now subject relation resource S of
      (Inr True, S') \<Rightarrow> (\<forall>s r o'. hasTuple t S' s r o' \<longleftrightarrow> (s, r, o') \<noteq> (subject, relation, resource) \<and> hasTuple t S s r o')
    | (_, S') \<Rightarrow> S' = S)"
proof
  show "case grant nodeExists now i S of
      (Inr True, S') \<Rightarrow>
        {giSubject i, giResource i} \<subseteq> set (nodeExists [giSubject i, giResource i]) \<and>
        (\<forall>s r o'. hasTuple t S' s r o' \<longleftrightarrow>
           (if (s, r, o') = (giSubject i, giRelation i, giResource i) then unexpired t (grantRow now i) else hasTuple t S s r o'))
    | (_, S') \<Rightarrow> S' = S"
  proof (cases rule: grant_cases [of i nodeExists now S])
    case granted
    then show ?thesis by (simp add: hasTuple_put)
  qed simp_all
next
  show "case revoke now subject relation resource S of
      (Inr True, S') \<Rightarrow> (\<forall>s r o'. hasTuple t S' s r o' \<longleftrightarrow> (s, r, o') \<noteq> (subject, relation, resource) \<and> hasTuple t S s r o')
    | (_, S') \<Rightarrow> S' = S"
  proof (cases "isRebacRelation relation \<and> hasTuple now S subject relation resource")
    case True
    then obtain e where e: "e \<in> set (rebacRows S)" "tupleKey e = (subject, relation, resource)" by (auto simp: hasTuple_iff)
    then have "length (filter (\<lambda>e. tupleKey e \<noteq> (subject, relation, resource)) (rebacRows S)) < length (rebacRows S)"
      by (intro length_filter_less) auto
    then show ?thesis using True by (simp add: revoke_def assertRelation_def Let_def hasTuple_delete)
  qed (auto simp: revoke_def assertRelation_def)
qed

lemma grant_keeps_keys: "distinct (map tupleKey (rebacRows S)) \<Longrightarrow> distinct (map tupleKey (rebacRows (snd (grant nodeExists now i S))))"
  by (cases rule: grant_cases [of i nodeExists now S]) (simp_all add: rt.distinct_put)

section \<open>Effective relations\<close>

definition parentOf :: "string \<Rightarrow> RebacStore \<Rightarrow> string rel" where
  "parentOf now S = {(c, p). hasTuple now S c ''parent'' p}"

lemma set_listParentsOf: "p \<in> set (listParentsOf now S ids) \<longleftrightarrow> (\<exists>c\<in>set ids. (c, p) \<in> parentOf now S)"
  by (auto simp: listParentsOf_def parentOf_def hasTuple_iff tupleKey_def)

lemma set_groups: "g \<in> set (listGroupsSubjectIsMemberOf now S s) \<longleftrightarrow> hasTuple now S s ''member'' g"
  by (auto simp: listGroupsSubjectIsMemberOf_def hasTuple_iff tupleKey_def)

lemma heldBy_iff: "heldBy now S r gs s o' \<longleftrightarrow> (\<exists>x\<in>insert s (set gs). hasTuple now S x r o')"
  by (auto simp: heldBy_def list_ex_iff)

lemma scanParents_None:
  "scanParents held seen nxt ps = None \<longleftrightarrow> (\<exists>p\<in>set ps. p \<notin> set seen \<and> held p)"
proof (induction ps arbitrary: seen nxt)
  case (Cons a ps)
  note ih = Cons.IH [of seen nxt] Cons.IH [of "a # seen" "nxt @ [a]"]
  show ?case
  proof (cases "a \<in> set seen \<or> held a")
    case True
    then show ?thesis using ih(1) by auto
  next
    case False
    then have "(\<exists>p\<in>set ps. p \<notin> set (a # seen) \<and> held p) \<longleftrightarrow> (\<exists>p\<in>set ps. p \<notin> set seen \<and> held p)" by auto
    then show ?thesis using False ih(2) by simp
  qed
qed simp

lemma scanParents_Some:
  "scanParents held seen nxt ps = Some (seen1, nxt1) \<Longrightarrow>
     set seen1 = set seen \<union> set ps \<and> set nxt1 = set nxt \<union> (set ps - set seen)"
  by (induction ps arbitrary: seen nxt) (auto split: if_splits)

lemma ancestorLevels_iff:
  assumes "\<And>p ids. p \<in> set (parents ids) \<longleftrightarrow> (\<exists>c\<in>set ids. (c, p) \<in> R)"
    and "set frontier \<subseteq> set seen" "\<And>x. x \<in> set seen \<Longrightarrow> \<not> held x"
    and "\<And>x p. x \<in> set seen - set frontier \<Longrightarrow> (x, p) \<in> R \<Longrightarrow> p \<in> set seen"
  shows "ancestorLevels parents held n seen frontier \<longleftrightarrow> (\<exists>k\<le>n. \<exists>c\<in>set seen. \<exists>p. (c, p) \<in> R ^^ k \<and> held p)"
  using assms(2-4)
proof (induction n arbitrary: seen frontier)
  case 0
  then show ?case by auto
next
  case (Suc n)
  let ?ps = "parents frontier"
  show ?case
  proof (cases "scanParents held seen [] ?ps")
    case None
    then obtain p where "p \<in> set ?ps" "held p" by (auto simp: scanParents_None)
    moreover then obtain c where "c \<in> set frontier" "(c, p) \<in> R" using assms(1) by blast
    ultimately have "(c, p) \<in> R ^^ 1" "c \<in> set seen" using Suc.prems(1) by auto
    then show ?thesis using None \<open>held p\<close> by (force intro!: exI [of _ 1])
  next
    case (Some sn)
    obtain seen1 nxt where sn: "sn = (seen1, nxt)" by (cases sn)
    note s = scanParents_Some [OF Some [unfolded sn]]
    have nh: "\<not> held x" if "x \<in> set seen1" for x
      using that s Suc.prems(2) scanParents_None [of held seen "[]" ?ps] Some by (auto simp: sn)
    have succ: "p \<in> set seen1" if "x \<in> set seen" "(x, p) \<in> R" for x p
      using that s Suc.prems(3) assms(1) by blast
    have start: "(\<exists>k\<le>Suc n. \<exists>c\<in>set seen. \<exists>p. (c, p) \<in> R ^^ k \<and> held p) \<longleftrightarrow> (\<exists>k\<le>n. \<exists>c\<in>set seen1. \<exists>p. (c, p) \<in> R ^^ k \<and> held p)"
    proof
      assume "\<exists>k\<le>Suc n. \<exists>c\<in>set seen. \<exists>p. (c, p) \<in> R ^^ k \<and> held p"
      then obtain k c p where k: "k \<le> Suc n" "c \<in> set seen" "(c, p) \<in> R ^^ k" "held p" by blast
      then obtain m where m: "k = Suc m" using Suc.prems(2) by (cases k) auto
      then obtain d where d: "(c, d) \<in> R" "(d, p) \<in> R ^^ m" using k(3) by (blast dest: relpow_Suc_D2)
      show "\<exists>k\<le>n. \<exists>c\<in>set seen1. \<exists>p. (c, p) \<in> R ^^ k \<and> held p"
        using m k(1,4) d succ [OF k(2) d(1)] by (intro exI [of _ m]) auto
    next
      assume "\<exists>k\<le>n. \<exists>c\<in>set seen1. \<exists>p. (c, p) \<in> R ^^ k \<and> held p"
      then obtain k c p where k: "k \<le> n" "c \<in> set seen1" "(c, p) \<in> R ^^ k" "held p" by blast
      show "\<exists>k\<le>Suc n. \<exists>c\<in>set seen. \<exists>p. (c, p) \<in> R ^^ k \<and> held p"
      proof (cases "c \<in> set seen")
        case True
        then show ?thesis using k by (meson le_Suc_eq)
      next
        case False
        then obtain b where "b \<in> set frontier" "(b, c) \<in> R" using k(2) s assms(1) by auto
        then have "(b, p) \<in> R ^^ Suc k" "b \<in> set seen" using relpow_Suc_I2 [of b c R p k] k(3) Suc.prems(1) by blast+
        then show ?thesis using k(1,4) by (intro exI [of _ "Suc k"]) auto
      qed
    qed
    show ?thesis
    proof (cases "nxt = []")
      case True
      then have closed: "\<And>x p. x \<in> set seen1 \<Longrightarrow> (x, p) \<in> R \<Longrightarrow> p \<in> set seen1"
        using s succ by auto
      have "p \<in> set seen1" if "(c, p) \<in> R ^^ k" "c \<in> set seen1" for c p k
        using that by (induction k arbitrary: p) (auto intro: closed)
      then have "\<not> (\<exists>k\<le>n. \<exists>c\<in>set seen1. \<exists>p. (c, p) \<in> R ^^ k \<and> held p)" using nh by blast
      then show ?thesis using Some sn True start by simp
    next
      case False
      have "ancestorLevels parents held n seen1 nxt \<longleftrightarrow> (\<exists>k\<le>n. \<exists>c\<in>set seen1. \<exists>p. (c, p) \<in> R ^^ k \<and> held p)"
        by (rule Suc.IH) (use s nh succ in auto)
      then show ?thesis using Some sn False start by simp
    qed
  qed
qed

lemma hasEffective_iff:
  assumes "isRebacRelation relation"
  shows "hasEffective now subject relation resource depth S = (Inr (
    \<exists>k\<le>effectiveDepth depth. \<exists>p. (resource, p) \<in> parentOf now S ^^ k \<and>
      (\<exists>x. (x = subject \<or> hasTuple now S subject ''member'' x) \<and> hasTuple now S x relation p)), S)"
proof -
  define gs where "gs = listGroupsSubjectIsMemberOf now S subject"
  let ?held = "heldBy now S relation gs subject"
  have held: "?held p \<longleftrightarrow> (\<exists>x. (x = subject \<or> hasTuple now S subject ''member'' x) \<and> hasTuple now S x relation p)" for p
    by (auto simp: heldBy_iff gs_def set_groups)
  have "(if hasTuple now S subject relation resource then True
        else if list_ex (\<lambda>g. hasTuple now S g relation resource) gs then True
        else ancestorLevels (listParentsOf now S) ?held (effectiveDepth depth) [resource] [resource]) \<longleftrightarrow>
      (\<exists>k\<le>effectiveDepth depth. \<exists>p. (resource, p) \<in> parentOf now S ^^ k \<and> ?held p)"
  proof (cases "?held resource")
    case True
    then have "\<exists>k\<le>effectiveDepth depth. \<exists>p. (resource, p) \<in> parentOf now S ^^ k \<and> ?held p"
      by (intro exI [of _ 0]) auto
    then show ?thesis using True by (auto simp: heldBy_def)
  next
    case False
    then have "ancestorLevels (listParentsOf now S) ?held (effectiveDepth depth) [resource] [resource] \<longleftrightarrow>
        (\<exists>k\<le>effectiveDepth depth. \<exists>c\<in>set [resource]. \<exists>p. (c, p) \<in> parentOf now S ^^ k \<and> ?held p)"
      by (intro ancestorLevels_iff) (auto simp: set_listParentsOf)
    then show ?thesis using False by (auto simp: heldBy_def)
  qed
  then show ?thesis using assms unfolding hasEffective_def assertRelation_def Let_def gs_def [symmetric] held by simp
qed

definition holdsEffectively :: "string \<Rightarrow> RebacStore \<Rightarrow> nat \<Rightarrow> string \<Rightarrow> string \<Rightarrow> string \<Rightarrow> bool" where
  "holdsEffectively now S depth subject relation resource \<longleftrightarrow>
     (\<exists>k\<le>depth. \<exists>p x. (resource, p) \<in> parentOf now S ^^ k \<and> (x = subject \<or> hasTuple now S subject ''member'' x) \<and>
        hasTuple now S x relation p)"

text \<open>C0: Effective relations are exact: for a platform relation \<open>hasEffective\<close> answers whether the subject, or a group it
  is a live member of, holds the relation live on the resource or on an ancestor at most \<open>max 1 (floor maxDepth)\<close>
  parent steps up, even when the parent edges form a cycle; for any other name it raises. It never changes the store.\<close>

theorem rebac_effective_exact:
  "hasEffective now subject relation resource depth S =
     (if isRebacRelation relation then Inr (holdsEffectively now S (effectiveDepth depth) subject relation resource)
      else Inl (NotARelation relation), S)"
proof (cases "isRebacRelation relation")
  case True
  then show ?thesis using hasEffective_iff [OF True] by (auto simp: holdsEffectively_def)
next
  case False
  then show ?thesis by (simp add: hasEffective_def assertRelation_def)
qed

lemma effectiveNow_iff:
  assumes "isRebacRelation r"
  shows "effectiveNow now S subject resource r \<longleftrightarrow> holdsEffectively now S 8 subject r resource"
proof -
  have "effectiveDepth 8 = 8" by (simp add: effectiveDepth_def)
  then show ?thesis
    using hasEffective_iff [OF assms, of now subject resource 8 S] unfolding effectiveNow_def holdsEffectively_def by auto
qed

section \<open>Permission checks\<close>

lemma evalTerms_permit:
  "evalTerms holds ts = PermitVia r \<longleftrightarrow>
     (\<exists>pre post. ts = pre @ r # post \<and> (\<forall>t\<in>set pre. isRebacRelation t \<and> \<not> holds t) \<and> isRebacRelation r \<and> holds r)"
proof (induction ts)
  case (Cons t ts)
  show ?case
  proof (cases "isRebacRelation t \<and> \<not> holds t")
    case True
    have "(\<exists>pre post. t # ts = pre @ r # post \<and> (\<forall>t\<in>set pre. isRebacRelation t \<and> \<not> holds t) \<and> isRebacRelation r \<and> holds r) \<longleftrightarrow>
        (\<exists>pre post. ts = pre @ r # post \<and> (\<forall>t\<in>set pre. isRebacRelation t \<and> \<not> holds t) \<and> isRebacRelation r \<and> holds r)"
    proof
      assume "\<exists>pre post. t # ts = pre @ r # post \<and> (\<forall>t\<in>set pre. isRebacRelation t \<and> \<not> holds t) \<and> isRebacRelation r \<and> holds r"
      then obtain pre post where p: "t # ts = pre @ r # post" "\<forall>t\<in>set pre. isRebacRelation t \<and> \<not> holds t" "isRebacRelation r" "holds r"
        by blast
      then have "pre \<noteq> []" using True by auto
      then obtain pre' where "pre = t # pre'" using p(1) by (cases pre) auto
      then show "\<exists>pre post. ts = pre @ r # post \<and> (\<forall>t\<in>set pre. isRebacRelation t \<and> \<not> holds t) \<and> isRebacRelation r \<and> holds r"
        using p by auto
    next
      assume "\<exists>pre post. ts = pre @ r # post \<and> (\<forall>t\<in>set pre. isRebacRelation t \<and> \<not> holds t) \<and> isRebacRelation r \<and> holds r"
      then obtain pre post where p: "ts = pre @ r # post" "\<forall>t\<in>set pre. isRebacRelation t \<and> \<not> holds t" "isRebacRelation r" "holds r"
        by blast
      then have "t # ts = (t # pre) @ r # post" "\<forall>t\<in>set (t # pre). isRebacRelation t \<and> \<not> holds t" using True by auto
      then show "\<exists>pre post. t # ts = pre @ r # post \<and> (\<forall>t\<in>set pre. isRebacRelation t \<and> \<not> holds t) \<and> isRebacRelation r \<and> holds r"
        using p(3,4) by blast
    qed
    then show ?thesis using Cons.IH True by simp
  next
    case False
    then show ?thesis by (auto simp: Cons_eq_append_conv)
  qed
qed simp

definition permits :: "RebacEvaluator \<Rightarrow> (string \<Rightarrow> bool) \<Rightarrow> string \<Rightarrow> string \<Rightarrow> string \<Rightarrow> bool" where
  "permits ev holds action resourceType r \<longleftrightarrow>
     (\<exists>actions expr pre post. map_of (evPermissions ev) resourceType = Some actions \<and> map_of actions action = Some expr \<and>
        set (orTerms expr) \<subseteq> set (evKnown ev) \<and> orTerms expr = pre @ r # post \<and>
        (\<forall>t\<in>set pre. isRebacRelation t \<and> \<not> holds t) \<and> isRebacRelation r \<and> holds r)"

lemma orTerms_Nil [simp]: "orTerms [] = []"
  by (simp add: orTerms_def trimJs_def)


definition sampleRebac :: RebacStore where
  "sampleRebac = \<lparr>rebacRows = [grantRow ''2026'' \<lparr>giSubject = ''ann'', giRelation = ''member'', giResource = ''team'', giGrantedBy = ''root'', giExpiresAt = None\<rparr>,
     grantRow ''2026'' \<lparr>giSubject = ''team'', giRelation = ''editor'', giResource = ''house'', giGrantedBy = ''root'', giExpiresAt = None\<rparr>,
     grantRow ''2026'' \<lparr>giSubject = ''room'', giRelation = ''parent'', giResource = ''house'', giGrantedBy = ''root'', giExpiresAt = None\<rparr>]\<rparr>"

lemma sample_effective: "hasEffective ''2027'' ''ann'' ''editor'' ''room'' 8 sampleRebac = (Inr True, sampleRebac)"
  by (simp add: hasEffective_def assertRelation_def isRebacRelation_def REBAC_RELATION_EDGE_NAMES_def sampleRebac_def grantRow_def hasTuple_def
      unexpired_def listGroupsSubjectIsMemberOf_def listParentsOf_def heldBy_def effectiveDepth_def numeral_eq_Suc)

end
