(* ===== verification/ScopePage.thy ===== *)
theory ScopePage
  imports Access GraphEngine
begin

text \<open>
  Paged reads: the keyset page of the SQLite engine (\<open>engines/graphShared/keysetPage.ts\<close>,
  \<open>bulkList\<close> and \<open>bulkListProjected\<close> of \<open>engines/sqlite/sqliteGraphAggregates.ts\<close>), the page filler for actors
  confined by row scopes (\<open>security/scopePageFill.ts\<close>), the counts such an actor is shown
  (\<open>security/visibleCounts.ts\<close>) and the choice between them in the bulk-list route
  (\<open>mcp/http/routes/bulkList.ts\<close>).

  A descending sort column is the type \<open>down\<close>, whose order is the reverse of the text order. Sealing a cursor
  (AES with a per-process key) is the argument \<open>seal\<close>. The scans end because every fetched page adds at least one
  row to the number of rows scanned, which is capped.
\<close>

section \<open>Keyset order\<close>

datatype down = Down string

fun undown :: "down \<Rightarrow> string" where
  "undown (Down s) = s"

instantiation down :: linorder
begin

definition less_eq_down :: "down \<Rightarrow> down \<Rightarrow> bool" where
  "less_eq_down a b = (undown b \<le> undown a)"

definition less_down :: "down \<Rightarrow> down \<Rightarrow> bool" where
  "less_down a b = (undown b < undown a)"

instance
proof
  fix x y z :: down
  show "(x < y) = (x \<le> y \<and> \<not> y \<le> x)" unfolding less_eq_down_def less_down_def by auto
  show "x \<le> x" unfolding less_eq_down_def by simp
  show "x \<le> y \<Longrightarrow> y \<le> z \<Longrightarrow> x \<le> z" unfolding less_eq_down_def by simp
  show "x \<le> y \<Longrightarrow> y \<le> x \<Longrightarrow> x = y" unfolding less_eq_down_def by (cases x; cases y) simp
  show "x \<le> y \<or> y \<le> x" unfolding less_eq_down_def by auto
qed

end

record KeysetCursor =
  kcUpdatedAt :: string
  kcId :: string

definition rowCursor :: "NodeRow \<Rightarrow> KeysetCursor" where
  "rowCursor r = \<lparr>kcUpdatedAt = n_updatedAt r, kcId = n_id r\<rparr>"

definition keysetKey :: "NodeRow \<Rightarrow> down \<times> string" where
  "keysetKey r = (Down (n_updatedAt r), n_id r)"

definition afterCursor :: "KeysetCursor option \<Rightarrow> NodeRow \<Rightarrow> bool" where
  "afterCursor c r =
     (case c of
        None \<Rightarrow> True
      | Some k \<Rightarrow> n_updatedAt r < kcUpdatedAt k \<or> n_updatedAt r = kcUpdatedAt k \<and> kcId k < n_id r)"

record 'r KeysetPage =
  kpPage :: "'r list"
  kpHasMore :: bool
  kpNextCursor :: "KeysetCursor option"

definition buildKeysetPage :: "('r \<Rightarrow> KeysetCursor) \<Rightarrow> 'r list \<Rightarrow> nat \<Rightarrow> 'r KeysetPage" where
  "buildKeysetPage cur rows limit =
     (let hasMore = (length rows > limit);
          page = (if hasMore then take limit rows else rows)
      in \<lparr>kpPage = page, kpHasMore = hasMore,
          kpNextCursor = (if hasMore \<and> page \<noteq> [] then Some (cur (last page)) else None)\<rparr>)"

section \<open>\<open>bulkList\<close>\<close>

record BulkListQuery =
  blTypes :: "string list option"
  blTags :: "string list option"
  blProject :: "string option"
  blEcosystem :: "string option"
  blLimit :: int
  blCursor :: "KeysetCursor option"

definition bulkMatches :: "BulkListQuery \<Rightarrow> NodeRow \<Rightarrow> bool" where
  "bulkMatches q r \<longleftrightarrow>
     (case blTypes q of None \<Rightarrow> True | Some ts \<Rightarrow> ts = [] \<or> List.member ts (n_type r)) \<and>
     (case blTags q of None \<Rightarrow> True | Some ts \<Rightarrow> ts = [] \<or> list_ex (\<lambda>t. List.member (map normalizeTag ts) t) (n_tags r)) \<and>
     (case blProject q of None \<Rightarrow> True | Some p \<Rightarrow> p = [] \<or> n_project r = p) \<and>
     (case blEcosystem q of
        None \<Rightarrow> True
      | Some e \<Rightarrow> e = [] \<or> e = ''*'' \<or> n_ecosystem r = e \<or> n_ecosystem r = ''*'' \<or> n_ecosystem r = [])"

definition clampLimit :: "int \<Rightarrow> nat" where
  "clampLimit limit = nat (min (max limit 1) 1000)"

definition keysetSelect :: "(NodeRow \<Rightarrow> bool) \<Rightarrow> KeysetCursor option \<Rightarrow> nat \<Rightarrow> Graph \<Rightarrow> NodeRow list" where
  "keysetSelect wh c n g = take n (sort_key keysetKey (filter (\<lambda>r. wh r \<and> afterCursor c r) (gNodes g)))"

definition bulkList :: "BulkListQuery \<Rightarrow> Graph \<Rightarrow> NodeRow KeysetPage" where
  "bulkList q g =
     (let limit = clampLimit (blLimit q)
      in buildKeysetPage rowCursor (keysetSelect (bulkMatches q) (blCursor q) (limit + 1) g) limit)"

definition bulkListProjected :: "string \<Rightarrow> nat \<Rightarrow> KeysetCursor option \<Rightarrow> Graph \<Rightarrow> NodeRow list \<times> KeysetCursor option" where
  "bulkListProjected project limit c g =
     (let p = buildKeysetPage rowCursor (keysetSelect (\<lambda>r. project = ''*'' \<or> n_project r = project) c (limit + 1) g) limit
      in (kpPage p, kpNextCursor p))"

section \<open>\<open>security/scopePageFill.ts\<close>\<close>

definition SCOPE_PAGE_FILL_MAX_SCAN :: nat where
  "SCOPE_PAGE_FILL_MAX_SCAN = 10000"

definition scopePageFillBatchSize :: "nat \<Rightarrow> nat" where
  "scopePageFillBatchSize limit = min 1000 (max limit 100)"

definition isActorBound :: "ActorContext option \<Rightarrow> bool" where
  "isActorBound actor = (getCurrentActorScopes actor \<noteq> None)"

datatype PageCursor = PlainCursor KeysetCursor | SealedCursor string

record 'r FilledKeysetPage =
  fkNodes :: "'r list"
  fkHasMore :: bool
  fkNextCursor :: "PageCursor option"
  fkCapped :: bool

record 'r FillState =
  fsOut :: "'r list"
  fsScanned :: nat
  fsLast :: "'r option"

datatype FillStop = FoundExtra | Exhausted | Capped | NextPage

fun scanPage :: "('r \<Rightarrow> bool) \<Rightarrow> nat \<Rightarrow> nat \<Rightarrow> 'r list \<Rightarrow> 'r FillState \<Rightarrow> FillStop \<times> 'r FillState" where
  "scanPage visible limit maxScan [] st = (NextPage, st)"
| "scanPage visible limit maxScan (n # ns) st =
     (if fsScanned st \<ge> maxScan then (Capped, st)
      else let st1 = st\<lparr>fsScanned := fsScanned st + 1, fsLast := Some n\<rparr>
           in if \<not> visible n then scanPage visible limit maxScan ns st1
              else if length (fsOut st) < limit then scanPage visible limit maxScan ns (st1\<lparr>fsOut := fsOut st @ [n]\<rparr>)
              else (FoundExtra, st1))"

lemma scanPage_progress:
  "scanPage visible limit maxScan ns st = (NextPage, st1) \<Longrightarrow> fsScanned st1 = fsScanned st + length ns"
  by (induction ns arbitrary: st) (auto simp: Let_def split: if_splits)

function fillLoop ::
  "(KeysetCursor option \<Rightarrow> 'r list \<times> bool) \<Rightarrow> ('r \<Rightarrow> KeysetCursor) \<Rightarrow> ('r \<Rightarrow> bool) \<Rightarrow> nat \<Rightarrow> nat \<Rightarrow> KeysetCursor option \<Rightarrow>
   'r FillState \<Rightarrow> FillStop \<times> 'r FillState" where
  "fillLoop fetch keyOf visible limit maxScan cur st =
     (if fsScanned st \<ge> maxScan then (Capped, st)
      else case fetch cur of
             (nodes, hasMore) \<Rightarrow>
               if nodes = [] then (Exhausted, st)
               else case scanPage visible limit maxScan nodes st of
                      (stop, st1) \<Rightarrow>
                        if stop \<noteq> NextPage then (stop, st1)
                        else if \<not> hasMore then (Exhausted, st1)
                        else fillLoop fetch keyOf visible limit maxScan (map_option keyOf (fsLast st1)) st1)"
  by auto

termination
  by (relation "measure (\<lambda>(fetch, keyOf, visible, limit, maxScan, cur, st). maxScan - fsScanned st)")
    (auto simp: diff_less_mono2 dest!: scanPage_progress [OF sym])

declare fillLoop.simps [simp del]

definition emptyFill :: "'r FillState" where
  "emptyFill = \<lparr>fsOut = [], fsScanned = 0, fsLast = None\<rparr>"

text \<open>\<open>Inl\<close> is the \<open>TypeError\<close> of reading the last row of an empty page, which a limit of zero can reach.\<close>

definition filledPage ::
  "(KeysetCursor \<Rightarrow> string) \<Rightarrow> ('r \<Rightarrow> KeysetCursor) \<Rightarrow> FillStop \<times> 'r FillState \<Rightarrow> string + 'r FilledKeysetPage" where
  "filledPage seal keyOf res =
     (case res of
        (stop, st) \<Rightarrow>
          if stop = FoundExtra then
            (if fsOut st = [] then Inl ''TypeError''
             else Inr \<lparr>fkNodes = fsOut st, fkHasMore = True, fkNextCursor = Some (PlainCursor (keyOf (last (fsOut st)))),
                       fkCapped = False\<rparr>)
          else (case (stop, fsLast st) of
                  (Capped, Some l) \<Rightarrow>
                    Inr \<lparr>fkNodes = fsOut st, fkHasMore = True, fkNextCursor = Some (SealedCursor (seal (keyOf l))), fkCapped = True\<rparr>
                | _ \<Rightarrow> Inr \<lparr>fkNodes = fsOut st, fkHasMore = False, fkNextCursor = None, fkCapped = False\<rparr>))"

definition rowVisible :: "string list option \<Rightarrow> ('r \<Rightarrow> bool) \<Rightarrow> ('r \<Rightarrow> json option) \<Rightarrow> 'r \<Rightarrow> bool" where
  "rowVisible scopes accept scopesOf n = (accept n \<and> length (applyActorScopeFilter scopesOf [n] scopes) = 1)"

definition fillVisibleKeysetPage ::
  "(KeysetCursor \<Rightarrow> string) \<Rightarrow> ('r \<Rightarrow> KeysetCursor) \<Rightarrow> ('r \<Rightarrow> json option) \<Rightarrow> string list option \<Rightarrow>
   (KeysetCursor option \<Rightarrow> nat \<Rightarrow> 'r list \<times> bool) \<Rightarrow> ('r \<Rightarrow> bool) \<Rightarrow> nat \<Rightarrow> nat option \<Rightarrow> nat option \<Rightarrow> KeysetCursor option \<Rightarrow>
   string + 'r FilledKeysetPage" where
  "fillVisibleKeysetPage seal keyOf scopesOf scopes fetch accept limit maxScan batchSize cursor =
     (let cap = (case maxScan of None \<Rightarrow> SCOPE_PAGE_FILL_MAX_SCAN | Some m \<Rightarrow> m);
          batch = (case batchSize of None \<Rightarrow> scopePageFillBatchSize limit | Some b \<Rightarrow> b)
      in filledPage seal keyOf
           (fillLoop (\<lambda>c. fetch c batch) keyOf (rowVisible scopes accept scopesOf) limit cap cursor emptyFill))"

section \<open>The page of the bulk-list route\<close>

definition nodeScopes :: "NodeRow \<Rightarrow> json option" where
  "nodeScopes r = strArr (n_securityScopes r)"

definition bulkFetch :: "BulkListQuery \<Rightarrow> Graph \<Rightarrow> KeysetCursor option \<Rightarrow> nat \<Rightarrow> NodeRow list \<times> bool" where
  "bulkFetch q g c n = (let p = bulkList (q\<lparr>blLimit := int n, blCursor := c\<rparr>) g in (kpPage p, kpHasMore p))"

definition bulkListPage ::
  "(KeysetCursor \<Rightarrow> string) \<Rightarrow> ActorContext option \<Rightarrow> (NodeRow \<Rightarrow> bool) \<Rightarrow> BulkListQuery \<Rightarrow> Graph \<Rightarrow> string + NodeRow FilledKeysetPage" where
  "bulkListPage seal actor inEcosystem q g =
     (if isActorBound actor then
        fillVisibleKeysetPage seal rowCursor nodeScopes (getCurrentActorScopes actor) (bulkFetch q g) inEcosystem
          (nat (blLimit q)) None None (blCursor q)
      else let p = bulkList q g
           in Inr \<lparr>fkNodes = filter inEcosystem (kpPage p), fkHasMore = kpHasMore p,
                   fkNextCursor = map_option PlainCursor (kpNextCursor p), fkCapped = False\<rparr>)"

section \<open>\<open>security/visibleCounts.ts\<close>\<close>

definition PAGE_SIZE :: nat where
  "PAGE_SIZE = 1000"

datatype CountAudience = RawCounts | VisibleCounts

definition countAudience :: "ActorContext option \<Rightarrow> Principal option \<Rightarrow> CountAudience" where
  "countAudience actor pn =
     (if getCurrentActorScopes actor = None then RawCounts
      else if exportAllowedForCurrentActor actor pn then RawCounts else VisibleCounts)"

text \<open>
  One scan of raw rows: the visited rows in order, the number scanned and whether rows remain. A page is fetched
  with a limit and a cursor and carries the cursor of the next one.
\<close>

function scanNodeRows ::
  "(nat \<Rightarrow> KeysetCursor option \<Rightarrow> 'r list \<times> KeysetCursor option) \<Rightarrow> nat \<Rightarrow> nat \<Rightarrow> KeysetCursor option \<Rightarrow> 'r list \<Rightarrow> 'r list \<times> nat \<times> bool" where
  "scanNodeRows fetchPage cap scanned cur acc =
     (if cap \<le> scanned then (acc, scanned, fst (fetchPage 1 cur) \<noteq> [])
      else case fetchPage (min PAGE_SIZE (cap - scanned)) cur of
             (rows, nxt) \<Rightarrow>
               if nxt = None \<or> rows = [] then (acc @ rows, scanned + length rows, False)
               else scanNodeRows fetchPage cap (scanned + length rows) nxt (acc @ rows))"
  by auto

termination
  by (relation "measure (\<lambda>(f, cap, scanned, cur, acc). cap - scanned)") (auto simp: diff_less_mono2)

declare scanNodeRows.simps [simp del]

record VisibleNodeCounts =
  vcNodeCount :: nat
  vcTypes :: "string \<Rightarrow> nat"
  vcLanguages :: "string \<Rightarrow> nat"
  vcScanned :: nat
  vcLowerBound :: bool

definition languageKey :: "NodeRow \<Rightarrow> string" where
  "languageKey r = (if n_language r \<noteq> [] then n_language r else ''null'')"

definition countRows :: "NodeRow list \<Rightarrow> nat \<Rightarrow> bool \<Rightarrow> VisibleNodeCounts" where
  "countRows rows scanned lowerBound =
     \<lparr>vcNodeCount = length rows,
      vcTypes = (\<lambda>t. if t = [] then 0 else length (filter (\<lambda>r. n_type r = t) rows)),
      vcLanguages = (\<lambda>k. length (filter (\<lambda>r. languageKey r = k) rows)),
      vcScanned = scanned, vcLowerBound = lowerBound\<rparr>"

definition visibleTo :: "ActorContext option \<Rightarrow> NodeRow \<Rightarrow> bool" where
  "visibleTo actor r = (case actorRowVisibility actor of None \<Rightarrow> True | Some v \<Rightarrow> v (nodeScopes r))"

definition countFetch :: "string option \<Rightarrow> bool \<Rightarrow> string option \<Rightarrow> Graph \<Rightarrow> nat \<Rightarrow> KeysetCursor option \<Rightarrow> NodeRow list \<times> KeysetCursor option" where
  "countFetch type byLanguage project g n c =
     (if type = None \<or> byLanguage then bulkListProjected (case project of None \<Rightarrow> ''*'' | Some p \<Rightarrow> p) n c g
      else let p = bulkList \<lparr>blTypes = map_option (\<lambda>t. [t]) type, blTags = None, blProject = project, blEcosystem = None,
                             blLimit = int n, blCursor = c\<rparr> g
           in (kpPage p, if kpHasMore p then kpNextCursor p else None))"

definition countVisibleNodes ::
  "ActorContext option \<Rightarrow> string option \<Rightarrow> bool \<Rightarrow> string option \<Rightarrow> nat option \<Rightarrow> Graph \<Rightarrow> VisibleNodeCounts" where
  "countVisibleNodes actor type byLanguage project capOpt g =
     (let cap = (case capOpt of None \<Rightarrow> SCOPE_PAGE_FILL_MAX_SCAN | Some c \<Rightarrow> c)
      in case scanNodeRows (countFetch type byLanguage project g) cap 0 None [] of
           (rows, scanned, lowerBound) \<Rightarrow>
             countRows (filter (visibleTo actor) (if byLanguage then (case type of None \<Rightarrow> rows | Some t \<Rightarrow> filter (\<lambda>r. n_type r = t) rows) else rows))
               scanned lowerBound)"

end
