(* ===== verification/AccessProps.thy ===== *)
theory AccessProps
  imports Access
begin

text \<open>
  Row-level confinement. Labels are normalised once, whatever shape they are stored in; a bound actor sees an item
  exactly when its resolved labels are empty or meet its scopes; a source that fails hides the item; and the gate on
  caller-chosen ids lets through no id that names an item hidden from the actor.
\<close>

section \<open>Labels\<close>

lemma strsOf_JStr [simp]: "strsOf (map JStr ss) = ss"
  by (induction ss) auto

lemma normalizeScopes_strArr [simp]: "normalizeScopes (strArr ss) = filter (\<lambda>s. s \<noteq> []) ss"
  by (simp add: strArr_def)

lemma normalizeScopes_nonempty: "s \<in> set (normalizeScopes raw) \<Longrightarrow> s \<noteq> []"
  by (induction raw rule: normalizeScopes.induct) (auto split: if_splits)

lemma filter_normalize [simp]: "filter (\<lambda>s. s \<noteq> []) (normalizeScopes raw) = normalizeScopes raw"
  using normalizeScopes_nonempty [of _ raw] by (simp add: filter_id_conv)

definition meets :: "string list \<Rightarrow> string list \<Rightarrow> bool" where
  "meets allowed ss \<longleftrightarrow> ss = [] \<or> set ss \<inter> set allowed \<noteq> {}"

lemma rowAllowed_iff: "rowAllowed allowed raw \<longleftrightarrow> meets allowed (normalizeScopes raw)"
  by (auto simp: rowAllowed_def meets_def Let_def list_ex_iff)

lemma singleton_filter: "length (applyActorScopeFilter f [x] (Some a)) = Suc 0 \<longleftrightarrow> rowAllowed a (f x)"
  by (simp add: applyActorScopeFilter_def)

lemma scopesVisible_iff:
  "getCurrentActorScopes actor = Some a \<Longrightarrow> scopesVisibleToCurrentActor actor raw \<longleftrightarrow> meets a (normalizeScopes raw)"
  by (simp add: scopesVisibleToCurrentActor_def singleton_filter rowAllowed_iff)

lemma itemVisible_iff:
  "getCurrentActorScopes actor = Some a \<Longrightarrow>
     itemVisibleToCurrentActor actor item \<longleftrightarrow> (\<exists>ss. item = KnownScopes ss \<and> meets a (filter (\<lambda>s. s \<noteq> []) ss))"
  by (cases item) (simp_all add: itemVisibleToCurrentActor_def scopesVisible_iff)

text \<open>Note: The scope filter is exact on every surface: the list filter, the node filter, the row predicate and the
  label check agree for a bound actor, keep exactly the rows whose normalised labels are empty or share a scope with the
  actor, and keep their order; without a bound actor nothing is filtered.\<close>

theorem scope_filter_exact:
  "applyActorScopeFilter scopesOf rows (getCurrentActorScopes actor) =
     filter (\<lambda>r. scopesVisibleToCurrentActor actor (scopesOf r)) rows \<and>
   filterNodesByActorScope actor nodeScopesOf nodes =
     filter (\<lambda>n. scopesVisibleToCurrentActor actor (map_option (\<lambda>ss. JArr (map JStr ss)) (nodeScopesOf n))) nodes \<and>
   (\<forall>raw. (case actorRowVisibility actor of None \<Rightarrow> True | Some v \<Rightarrow> v raw) = scopesVisibleToCurrentActor actor raw) \<and>
   scopesVisibleToCurrentActor actor raw =
     (case actor of None \<Rightarrow> True | Some a \<Rightarrow> meets (actorScopes a) (normalizeScopes raw))"
proof (cases actor)
  case None
  then show ?thesis
    by (simp add: getCurrentActorScopes_def applyActorScopeFilter_def filterNodesByActorScope_def actorRowVisibility_def
        scopesVisibleToCurrentActor_def comp_def)
next
  case (Some a)
  then have s: "getCurrentActorScopes actor = Some (actorScopes a)" by (simp add: getCurrentActorScopes_def)
  have v: "scopesVisibleToCurrentActor actor r \<longleftrightarrow> rowAllowed (actorScopes a) r" for r
    by (simp add: scopesVisible_iff [OF s] rowAllowed_iff)
  have n: "filterNodesByActorScope actor nodeScopesOf nodes =
      filter (\<lambda>n. rowAllowed (actorScopes a) (map_option (\<lambda>ss. JArr (map JStr ss)) (nodeScopesOf n))) nodes"
    by (simp add: filterNodesByActorScope_def applyActorScopeFilter_def s filter_map comp_def)
  have p: "(case actorRowVisibility actor of None \<Rightarrow> True | Some v \<Rightarrow> v r) = rowAllowed (actorScopes a) r" for r
    by (simp add: actorRowVisibility_def s singleton_filter rowAllowed_iff)
  have c: "(case actor of None \<Rightarrow> True | Some a \<Rightarrow> meets (actorScopes a) (normalizeScopes raw)) = rowAllowed (actorScopes a) raw"
    using Some by (simp add: rowAllowed_iff)
  show ?thesis unfolding v n p c by (simp add: applyActorScopeFilter_def s)
qed

section \<open>The gates on items\<close>

definition visibleSource :: "ActorContext option \<Rightarrow> ItemScopes option \<Rightarrow> bool" where
  "visibleSource actor src \<longleftrightarrow> src = None \<or> (\<exists>item. src = Some item \<and> itemVisibleToCurrentActor actor item)"

definition defaultVerbatim :: "ItemIds \<Rightarrow> ItemIds" where
  "defaultVerbatim ids = ids\<lparr>verbatimId := Some (case verbatimId ids of None \<Rightarrow> ''lore:'' @ nodeId ids | Some v \<Rightarrow> v)\<rparr>"

lemma defaultVerbatim_sel [simp]:
  "nodeId (defaultVerbatim ids) = nodeId ids"
  "verbatimId (defaultVerbatim ids) = Some (case verbatimId ids of None \<Rightarrow> ''lore:'' @ nodeId ids | Some v \<Rightarrow> v)"
  by (simp_all add: defaultVerbatim_def)

lemma newestScopes_normal: "newestScopes rows = Some ss \<Longrightarrow> filter (\<lambda>s. s \<noteq> []) ss = ss"
proof -
  have "stateScopes st = Some ss \<Longrightarrow> filter (\<lambda>s. s \<noteq> []) ss = ss" for st
    by (induction st rule: stateScopes.induct) (auto split: option.splits)
  then show "newestScopes rows = Some ss \<Longrightarrow> ?thesis" by (auto simp: newestScopes_def split: option.splits list.splits prod.splits)
qed

lemma sources_visible:
  assumes "getCurrentActorScopes actor = Some a"
  shows "visibleSource actor (fromGraph ids deps) \<longleftrightarrow> \<not> blockedByGraph actor (nodeId ids) deps"
    and "visibleSource actor (fromVersions ids deps) \<longleftrightarrow> \<not> blockedByVersions actor (nodeId ids) deps"
    and "verbatimId ids = Some v \<Longrightarrow> visibleSource actor (fromVerbatim ids deps) \<longleftrightarrow> \<not> blockedByVerbatim actor v deps"
  using newestScopes_normal
  by (auto simp: visibleSource_def fromGraph_def fromVersions_def fromVerbatim_def blockedByGraph_def blockedByVersions_def
      blockedByVerbatim_def itemVisible_iff [OF assms] scopesVisible_iff [OF assms] split: option.splits sum.splits)

text \<open>C18: The create gate covers the reads: for a bound actor a caller-chosen id passes precisely when every source that
  knows the id (the live node, its newest version, its verbatim row) is visible to the actor; a source that fails blocks.
  So an id that passes resolves to a visible item or is known to no source.\<close>

theorem create_gate_covers_reads:
  assumes "getCurrentActorScopes actor = Some a"
  shows "(\<not> createIdBlockedForCurrentActor actor ids deps) =
      (visibleSource actor (fromGraph (defaultVerbatim ids) deps) \<and> visibleSource actor (fromVersions (defaultVerbatim ids) deps) \<and>
       visibleSource actor (fromVerbatim (defaultVerbatim ids) deps)) \<and>
    (createIdBlockedForCurrentActor actor ids deps \<or> mutateTargetVisible actor (defaultVerbatim ids) deps \<or>
     fromGraph (defaultVerbatim ids) deps = None \<and> fromVersions (defaultVerbatim ids) deps = None \<and>
     fromVerbatim (defaultVerbatim ids) deps = None)"
proof -
  note s = sources_visible [OF assms, where ids = "defaultVerbatim ids" and deps = deps]
  have 1: "(\<not> createIdBlockedForCurrentActor actor ids deps) =
      (visibleSource actor (fromGraph (defaultVerbatim ids) deps) \<and> visibleSource actor (fromVersions (defaultVerbatim ids) deps) \<and>
       visibleSource actor (fromVerbatim (defaultVerbatim ids) deps))"
    using assms by (simp add: createIdBlockedForCurrentActor_def Let_def s(1,2) s(3) [OF defaultVerbatim_sel(2)])
  moreover have "mutateTargetVisible actor (defaultVerbatim ids) deps \<or>
      fromGraph (defaultVerbatim ids) deps = None \<and> fromVersions (defaultVerbatim ids) deps = None \<and>
      fromVerbatim (defaultVerbatim ids) deps = None" if "\<not> createIdBlockedForCurrentActor actor ids deps"
    using that assms unfolding 1 visibleSource_def mutateTargetVisible_def resolveItemScopes_def by (auto split: option.splits)
  ultimately show ?thesis by blast
qed

definition sampleActor :: "ActorContext option" where
  "sampleActor = Some \<lparr>portalUserId = ''u1'', actorScopes = [''hr'']\<rparr>"

definition sampleDeps :: ItemScopeDeps where
  "sampleDeps = \<lparr>idWorkspace = ''w'', getGraphNode = Some (\<lambda>i. if i = ''secret'' then Inr (Some (Some (JArr [JStr ''board'']))) else Inr None),
     versionStore = None, getVerbatimRow = Some (\<lambda>v. Inl ''down'')\<rparr>"

theorem create_gate_covers_reads_witness:
  "createIdBlockedForCurrentActor sampleActor \<lparr>nodeId = ''secret'', verbatimId = None\<rparr> sampleDeps"
  using create_gate_covers_reads [of sampleActor "[''hr'']" "\<lparr>nodeId = ''secret'', verbatimId = None\<rparr>" sampleDeps]
  by (simp add: sampleActor_def sampleDeps_def getCurrentActorScopes_def fromGraph_def visibleSource_def itemVisibleToCurrentActor_def
      scopesVisibleToCurrentActor_def strArr_def applyActorScopeFilter_def rowAllowed_def defaultVerbatim_def)

text \<open>Note: Reads fail closed and never widen: for a bound actor an item is open to changes precisely when its first
  answering source gives labels the actor may see, so an id no source knows and an item whose source failed get the same
  answer as a hidden one; and a verbatim row is shown only where the item is and its own labels, if usable, allow it.\<close>

theorem item_access_fail_closed:
  assumes "getCurrentActorScopes actor = Some a"
  shows "mutateTargetVisible actor ids deps = (\<exists>ss. resolveItemScopes ids deps = KnownScopes ss \<and> meets a (filter (\<lambda>s. s \<noteq> []) ss)) \<and>
    (fromGraph ids deps = None \<and> fromVersions ids deps = None \<and> fromVerbatim ids deps = None \<longrightarrow> \<not> mutateTargetVisible actor ids deps) \<and>
    (fromGraph ids deps = Some UnknownScopes \<longrightarrow> \<not> mutateTargetVisible actor ids deps) \<and>
    verbatimItemVisible actor i row deps =
      (mutateTargetVisible actor (idsOfString i) deps \<and>
       (case row of Some raw \<Rightarrow> noUsableLabels raw \<or> meets a (normalizeScopes raw) | None \<Rightarrow> True))"
proof -
  have m: "mutateTargetVisible actor ids deps = (\<exists>ss. resolveItemScopes ids deps = KnownScopes ss \<and> meets a (filter (\<lambda>s. s \<noteq> []) ss))" for ids
    using assms by (simp add: mutateTargetVisible_def itemVisible_iff)
  have "verbatimItemVisible actor i row deps =
      (mutateTargetVisible actor (idsOfString i) deps \<and>
       (case row of Some raw \<Rightarrow> noUsableLabels raw \<or> meets a (normalizeScopes raw) | None \<Rightarrow> True))"
    using assms by (auto simp: verbatimItemVisible_def mutateTargetVisible_def rowOwnScopes_def scopesVisible_iff split: option.splits)
  then show ?thesis using m by (simp add: m resolveItemScopes_def)
qed

theorem item_access_fail_closed_witness:
  "\<not> mutateTargetVisible sampleActor \<lparr>nodeId = ''other'', verbatimId = Some ''lore:other''\<rparr> sampleDeps"
  using item_access_fail_closed [of sampleActor "[''hr'']" "\<lparr>nodeId = ''other'', verbatimId = Some ''lore:other''\<rparr>" sampleDeps "''lore:other''" None]
  by (simp add: sampleActor_def sampleDeps_def getCurrentActorScopes_def resolveItemScopes_def fromGraph_def fromVersions_def fromVerbatim_def)

end
