(* ===== verification/ScopePageProps.thy ===== *)
theory ScopePageProps
  imports ScopePage AccessProps GraphSafety
begin

text \<open>
  What a confined actor sees of a paged list. A keyset source is an engine whose pages are cuts of one strictly sorted
  list of rows; the SQLite \<open>bulkList\<close> is one. Over any such source the page filler returns the next visible rows, its
  cursor names only a row it returned or is sealed, and walking the cursors enumerates the visible rows once and ends.
  Rows the actor cannot see therefore change nothing it can observe, as long as the scan cap is not reached.
\<close>

section \<open>Cuts of a sorted list\<close>

lemma filter_after_mid:
  fixes key :: "'r \<Rightarrow> 'k::linorder"
  assumes "sorted_wrt (\<lambda>x y. key x < key y) (xs @ x # ys)"
  shows "filter (\<lambda>y. key x < key y) (xs @ x # ys) = ys"
proof -
  have "\<forall>y\<in>set xs. key y < key x" "\<forall>y\<in>set ys. key x < key y" using assms by (auto simp: sorted_wrt_append)
  then have "filter (\<lambda>y. key x < key y) xs = []" "filter (\<lambda>y. key x < key y) ys = ys"
    by (auto simp: filter_empty_conv filter_id_conv)
  then show ?thesis by simp
qed

lemma sorted_suffix:
  fixes key :: "'r \<Rightarrow> 'k::linorder"
  shows "sorted_wrt (\<lambda>x y. key x < key y) xs \<Longrightarrow> \<exists>pre. xs = pre @ filter (\<lambda>x. k < key x) xs"
proof (induction xs)
  case (Cons a xs)
  show ?case
  proof (cases "k < key a")
    case True
    then have "filter (\<lambda>x. k < key x) xs = xs" using Cons.prems by (auto simp: filter_id_conv intro: less_trans)
    then show ?thesis using True by simp
  next
    case False
    then show ?thesis using Cons by (auto intro: exI [of _ "a # _"])
  qed
qed simp

lemma sorted_distinct_sort_key:
  assumes "distinct (map k xs)"
  shows "sorted_wrt (\<lambda>x y. k x < k y) (sort_key k xs)"
proof -
  have "distinct (map k (sort_key k xs))" using assms distinct_map_sort_key by blast
  then have "sorted_wrt (<) (map k (sort_key k xs))" by (simp add: strict_sorted_iff)
  then show ?thesis by (simp add: sorted_wrt_map)
qed

section \<open>Keyset sources\<close>

locale keyset_source =
  fixes rows :: "'s \<Rightarrow> 'r list"
    and key :: "'r \<Rightarrow> 'k::linorder"
    and cur :: "'r \<Rightarrow> KeysetCursor"
    and curKey :: "KeysetCursor \<Rightarrow> 'k"
    and after :: "KeysetCursor option \<Rightarrow> 'r \<Rightarrow> bool"
    and fetch :: "'s \<Rightarrow> KeysetCursor option \<Rightarrow> nat \<Rightarrow> 'r list \<times> bool"
    and wf :: "'s \<Rightarrow> bool"
  assumes rows_sorted: "wf s \<Longrightarrow> sorted_wrt (\<lambda>x y. key x < key y) (rows s)"
    and after_None: "after None r"
    and after_Some: "after (Some k) x \<longleftrightarrow> curKey k < key x"
    and curKey_cur: "curKey (cur r) = key r"
    and fetch_page: "wf s \<Longrightarrow> 0 < n \<Longrightarrow> n \<le> 1000 \<Longrightarrow>
      fetch s c n = (take n (filter (after c) (rows s)), n < length (filter (after c) (rows s)))"
begin

definition left :: "'s \<Rightarrow> KeysetCursor option \<Rightarrow> 'r list" where
  "left s c = filter (after c) (rows s)"

definition startsLeft :: "'s \<Rightarrow> KeysetCursor option \<Rightarrow> bool" where
  "startsLeft s c \<longleftrightarrow> (\<exists>pre. rows s = pre @ left s c)"

lemma after_row: "after (Some (cur r)) x \<longleftrightarrow> key r < key x"
  by (simp add: after_Some curKey_cur)

lemma startsLeft_any: "wf s \<Longrightarrow> startsLeft s c"
proof (cases c)
  case None
  then show ?thesis by (simp add: startsLeft_def left_def after_None)
next
  case (Some k)
  assume "wf s"
  then show ?thesis unfolding Some startsLeft_def left_def after_Some using sorted_suffix [OF rows_sorted] by blast
qed

lemma left_split:
  assumes "wf s" "startsLeft s c" "left s c = xs @ x # ys"
  shows "left s (Some (cur x)) = ys" "startsLeft s (Some (cur x))"
proof -
  obtain pre where p: "rows s = (pre @ xs) @ x # ys" using assms(2,3) by (auto simp: startsLeft_def)
  show l: "left s (Some (cur x)) = ys"
    using filter_after_mid [of key "pre @ xs" x ys] rows_sorted [OF assms(1)] unfolding left_def p after_row by simp
  show "startsLeft s (Some (cur x))" unfolding startsLeft_def l p by (metis append.assoc append_Cons append_Nil)
qed

definition filled ::
  "('r \<Rightarrow> bool) \<Rightarrow> nat \<Rightarrow> nat \<Rightarrow> 'r FillState \<Rightarrow> FillStop \<Rightarrow> 'r FillState \<Rightarrow> 'r list \<Rightarrow> 'r list \<Rightarrow> bool" where
  "filled vis limit maxScan st stop st' seen rest \<longleftrightarrow>
     fsScanned st' = fsScanned st + length seen \<and>
     fsLast st' = (if seen = [] then fsLast st else Some (last seen)) \<and>
     (if stop = FoundExtra then seen \<noteq> [] \<and> vis (last seen) \<and> fsOut st' = fsOut st @ filter vis (butlast seen) \<and> length (fsOut st') = limit
      else fsOut st' = fsOut st @ filter vis seen \<and> length (fsOut st') \<le> limit) \<and>
     (stop = Capped \<longrightarrow> maxScan \<le> fsScanned st' \<and> (rest \<noteq> [] \<or> seen = [] \<and> maxScan \<le> fsScanned st)) \<and>
     (fsScanned st \<le> maxScan \<longrightarrow> fsScanned st' \<le> maxScan)"

lemma scanPage_filled:
  assumes "length (fsOut st) \<le> limit" "scanPage vis limit maxScan ns st = (stop, st')"
  shows "\<exists>seen rest. ns = seen @ rest \<and> filled vis limit maxScan st stop st' seen rest \<and> stop \<noteq> Exhausted \<and>
    (stop = NextPage \<longrightarrow> rest = []) \<and> (stop = Capped \<longrightarrow> rest \<noteq> [])"
  using assms
proof (induction ns arbitrary: st)
  case Nil
  then show ?case by (auto simp: filled_def)
next
  case (Cons n ns)
  define st1 where "st1 = st\<lparr>fsScanned := fsScanned st + 1, fsLast := Some n\<rparr>"
  show ?case
  proof (cases "maxScan \<le> fsScanned st")
    case True
    then show ?thesis using Cons.prems by (auto simp: filled_def)
  next
    case cap: False
    show ?thesis
    proof (cases "vis n \<and> \<not> length (fsOut st) < limit")
      case True
      then have "stop = FoundExtra" "st' = st1" using cap Cons.prems(2) by (auto simp: st1_def Let_def)
      then have "filled vis limit maxScan st stop st' [n] ns" using True cap Cons.prems(1) by (auto simp: filled_def st1_def)
      then show ?thesis using \<open>stop = FoundExtra\<close> by (intro exI [of _ "[n]"] exI [of _ ns]) simp
    next
      case False
      define st2 where "st2 = (if vis n then st1\<lparr>fsOut := fsOut st @ [n]\<rparr> else st1)"
      have sp: "scanPage vis limit maxScan ns st2 = (stop, st')"
        using False cap Cons.prems(2) by (auto simp: st1_def st2_def Let_def split: if_splits)
      have "length (fsOut st2) \<le> limit" using False Cons.prems(1) by (auto simp: st1_def st2_def)
      from Cons.IH [OF this sp] obtain seen rest where ih: "ns = seen @ rest" "filled vis limit maxScan st2 stop st' seen rest"
          "stop \<noteq> Exhausted" "stop = NextPage \<longrightarrow> rest = []" "stop = Capped \<longrightarrow> rest \<noteq> []" by blast
      have "filled vis limit maxScan st stop st' (n # seen) rest"
        using ih(2,5) cap unfolding filled_def by (auto simp: st1_def st2_def split: if_splits)
      then show ?thesis using ih by (intro exI [of _ "n # seen"] exI [of _ rest]) simp
    qed
  qed
qed

end

context keyset_source
begin

lemma filled_out: "filled vis limit maxScan st stop st' seen rest \<Longrightarrow> length (fsOut st') \<le> limit"
  by (auto simp: filled_def split: if_splits)

lemma filled_trans:
  assumes "filled vis limit maxScan st NextPage st1 seen1 []" "filled vis limit maxScan st1 stop st' seen rest" "seen1 \<noteq> []"
    and "stop = Capped \<Longrightarrow> rest \<noteq> []"
  shows "filled vis limit maxScan st stop st' (seen1 @ seen) rest"
  using assms unfolding filled_def by (auto simp: butlast_append split: if_splits)

lemma fillLoop_filled:
  assumes "wf s" "0 < batch" "batch \<le> 1000" "startsLeft s c" "length (fsOut st) \<le> limit"
    and "fillLoop (\<lambda>c. fetch s c batch) cur vis limit maxScan c st = (stop, st')"
  shows "\<exists>seen rest. left s c = seen @ rest \<and> filled vis limit maxScan st stop st' seen rest \<and> stop \<noteq> NextPage \<and>
    (stop = Exhausted \<longrightarrow> rest = [])"
  using assms(4-)
proof (induction "maxScan - fsScanned st" arbitrary: c st rule: less_induct)
  case less
  note 1 = less.hyps less.prems
  show ?case
  proof (cases "maxScan \<le> fsScanned st")
    case True
    then have "stop = Capped" "st' = st" using 1(4) by (simp_all add: fillLoop.simps)
    then show ?thesis using True 1(3) by (intro exI [of _ "[]"] exI [of _ "left s c"]) (auto simp: filled_def)
  next
    case cap: False
    let ?ns = "take batch (left s c)" and ?more = "batch < length (left s c)"
    have f: "fetch s c batch = (?ns, ?more)" using fetch_page [OF assms(1-3)] by (simp add: left_def)
    show ?thesis
    proof (cases "left s c = []")
      case True
      then have "stop = Exhausted" "st' = st" using cap f 1(4) by (auto simp: fillLoop.simps)
      then show ?thesis using True 1(3) by (auto simp: filled_def)
    next
      case ne: False
      then have ns: "?ns \<noteq> []" using assms(2) by simp
      obtain stop1 st1 where sp: "scanPage vis limit maxScan ?ns st = (stop1, st1)" by fastforce
      from scanPage_filled [OF 1(3) sp] obtain seen rest where
        p: "?ns = seen @ rest" "filled vis limit maxScan st stop1 st1 seen rest" "stop1 \<noteq> Exhausted"
          "stop1 = NextPage \<longrightarrow> rest = []" "stop1 = Capped \<longrightarrow> rest \<noteq> []" by blast
      show ?thesis
      proof (cases "stop1 = NextPage")
        case False
        then have eq: "stop = stop1" "st' = st1" using cap f ns sp 1(4) by (simp_all add: fillLoop.simps)
        have "left s c = seen @ (rest @ drop batch (left s c))" using p(1) by (metis append.assoc append_take_drop_id)
        moreover have "filled vis limit maxScan st stop st' seen (rest @ drop batch (left s c))"
          using p(2,5) eq unfolding filled_def by auto
        ultimately show ?thesis using p(3) False eq by blast
      next
        case True
        then have seen: "seen = ?ns" using p by simp
        have last: "fsLast st1 = Some (last ?ns)" using p(2) seen ns by (simp add: filled_def)
        have p2: "filled vis limit maxScan st NextPage st1 ?ns []" using p(2,4) True seen by simp
        show ?thesis
        proof (cases ?more)
          case False
          then have "stop = Exhausted" "st' = st1" using cap f ns sp True 1(4) by (simp_all add: fillLoop.simps)
          then show ?thesis using p2 False by (intro exI [of _ "left s c"] exI [of _ "[]"]) (auto simp: filled_def)
        next
          case more: True
          let ?c = "Some (cur (last ?ns))"
          have split: "left s c = butlast ?ns @ last ?ns # drop batch (left s c)"
            using ns by (metis append.assoc append_Cons append_Nil append_butlast_last_id append_take_drop_id)
          note l = left_split [OF assms(1) 1(2) split]
          have loop: "fillLoop (\<lambda>c. fetch s c batch) cur vis limit maxScan (map_option cur (fsLast st1)) st1 = (stop, st')"
            using 1(4) cap f ns sp True more by (subst (asm) fillLoop.simps) simp
          have "length (fsOut st1) \<le> limit" using p2 by (rule filled_out)
          moreover have "maxScan - fsScanned st1 < maxScan - fsScanned st"
            using p2 ns cap by (cases ?ns) (simp_all add: filled_def diff_less_mono2)
          ultimately obtain seen' rest' where q: "left s ?c = seen' @ rest'" "filled vis limit maxScan st1 stop st' seen' rest'"
              "stop \<noteq> NextPage" "stop = Exhausted \<longrightarrow> rest' = []"
            using 1(1) [of st1 ?c] loop l(2) last by auto
          have r: "stop = Capped \<Longrightarrow> rest' \<noteq> []"
            using q(1,2) l(1) more by (auto simp: filled_def)
          have "left s c = (?ns @ seen') @ rest'" using q(1) l(1) by (metis append.assoc append_take_drop_id)
          moreover have "filled vis limit maxScan st stop st' (?ns @ seen') rest'"
            by (rule filled_trans [OF p2 q(2) ns r])
          ultimately show ?thesis using q(3,4) by blast
        qed
      qed
    qed
  qed
qed

end

section \<open>One page and the walk over all pages\<close>

fun walkPages ::
  "nat \<Rightarrow> (KeysetCursor option \<Rightarrow> string + 'r FilledKeysetPage) \<Rightarrow> (string \<Rightarrow> KeysetCursor option) \<Rightarrow> KeysetCursor option \<Rightarrow> 'r list option" where
  "walkPages 0 page unseal c = None"
| "walkPages (Suc n) page unseal c =
     (case page c of
        Inl _ \<Rightarrow> None
      | Inr p \<Rightarrow>
          (case fkNextCursor p of
             None \<Rightarrow> Some (fkNodes p)
           | Some (PlainCursor k) \<Rightarrow> map_option ((@) (fkNodes p)) (walkPages n page unseal (Some k))
           | Some (SealedCursor t) \<Rightarrow>
               (case unseal t of None \<Rightarrow> None | Some k \<Rightarrow> map_option ((@) (fkNodes p)) (walkPages n page unseal (Some k)))))"

definition exactPage :: "('r \<Rightarrow> KeysetCursor) \<Rightarrow> nat \<Rightarrow> 'r list \<Rightarrow> 'r FilledKeysetPage" where
  "exactPage cur limit vs =
     \<lparr>fkNodes = take limit vs, fkHasMore = (limit < length vs),
      fkNextCursor = (if limit < length vs then Some (PlainCursor (cur (last (take limit vs)))) else None), fkCapped = False\<rparr>"

context keyset_source
begin

lemma page_exact:
  fixes seal vis limit maxScan batch
  defines "page \<equiv> \<lambda>s c. filledPage seal cur (fillLoop (\<lambda>c. fetch s c batch) cur vis limit maxScan c emptyFill)"
  assumes "wf s" "0 < batch" "batch \<le> 1000" "startsLeft s c" "0 < limit" "0 < maxScan"
  obtains (whole) "page s c = Inr (exactPage cur limit (filter vis (left s c)))"
  | (part) xs l ys where "left s c = xs @ l # ys" "ys \<noteq> []" "maxScan < length (left s c)" "length (filter vis (xs @ [l])) \<le> limit"
      "page s c = Inr \<lparr>fkNodes = filter vis (xs @ [l]), fkHasMore = True, fkNextCursor = Some (SealedCursor (seal (cur l))), fkCapped = True\<rparr>"
proof -
  obtain stop st' where loop: "fillLoop (\<lambda>c. fetch s c batch) cur vis limit maxScan c emptyFill = (stop, st')" by fastforce
  have "length (fsOut (emptyFill :: 'r FillState)) \<le> limit" by (simp add: emptyFill_def)
  from fillLoop_filled [OF assms(2-5) this loop] obtain seen rest where
    f: "left s c = seen @ rest" "filled vis limit maxScan emptyFill stop st' seen rest" "stop \<noteq> NextPage" "stop = Exhausted \<longrightarrow> rest = []"
    by blast
  have e: "fsOut (emptyFill :: 'r FillState) = []" "fsScanned (emptyFill :: 'r FillState) = 0" "fsLast (emptyFill :: 'r FillState) = None"
    by (simp_all add: emptyFill_def)
  show thesis
  proof (cases stop)
    case FoundExtra
    have g: "seen \<noteq> []" "vis (last seen)" "fsOut st' = filter vis (butlast seen)" "length (fsOut st') = limit"
      using f(2) unfolding filled_def FoundExtra e by auto
    have "filter vis (left s c) = fsOut st' @ last seen # filter vis rest"
      using f(1) g(1-3) append_butlast_last_id [OF g(1)] by (metis append.assoc append_Cons append_Nil filter.simps filter_append)
    then have "take limit (filter vis (left s c)) = fsOut st'" "limit < length (filter vis (left s c))" using g(4) by auto
    then have "page s c = Inr (exactPage cur limit (filter vis (left s c)))"
      using loop FoundExtra g(4) assms(6) by (auto simp: page_def filledPage_def exactPage_def)
    then show thesis by (rule whole)
  next
    case Exhausted
    then have "fsOut st' = filter vis (left s c)" "length (fsOut st') \<le> limit" using f e unfolding filled_def by auto
    then have "page s c = Inr (exactPage cur limit (filter vis (left s c)))"
      using loop Exhausted by (auto simp: page_def filledPage_def exactPage_def)
    then show thesis by (rule whole)
  next
    case Capped
    have g: "fsOut st' = filter vis seen" "length (fsOut st') \<le> limit" "maxScan \<le> fsScanned st'" "fsScanned st' = length seen"
      "rest \<noteq> [] \<or> seen = [] \<and> maxScan \<le> 0" "fsLast st' = (if seen = [] then None else Some (last seen))"
      using f(2) unfolding filled_def Capped e by auto
    have ne: "seen \<noteq> []" "rest \<noteq> []" using g assms(7) by auto
    show thesis
    proof (rule part [of "butlast seen" "last seen" rest])
      show "left s c = butlast seen @ last seen # rest" using f(1) ne(1) by simp
      show "rest \<noteq> []" by fact
      show "maxScan < length (left s c)" using g(3,4) ne(2) f(1) by (cases rest) auto
      show "length (filter vis (butlast seen @ [last seen])) \<le> limit" using g(1,2) ne(1) by simp
      show "page s c = Inr \<lparr>fkNodes = filter vis (butlast seen @ [last seen]), fkHasMore = True,
          fkNextCursor = Some (SealedCursor (seal (cur (last seen)))), fkCapped = True\<rparr>"
        using loop Capped g(1,6) ne(1) by (simp add: page_def filledPage_def)
    qed
  next
    case NextPage
    then show thesis using f(3) by simp
  qed
qed

lemma left_sorted: "wf s \<Longrightarrow> sorted_wrt (\<lambda>x y. key x < key y) (left s c)"
  unfolding left_def by (rule sorted_wrt_filter) (rule rows_sorted)

lemma rest_after:
  assumes "wf s" "startsLeft s c" "0 < limit" "limit < length (filter vis (left s c))"
  defines "x \<equiv> last (take limit (filter vis (left s c)))"
  shows "filter vis (left s (Some (cur x))) = drop limit (filter vis (left s c))" "startsLeft s (Some (cur x))"
    "length (left s (Some (cur x))) < length (left s c)"
proof -
  let ?V = "filter vis (left s c)"
  have ne: "take limit ?V \<noteq> []" using assms(3,4) by auto
  then have V: "?V = butlast (take limit ?V) @ x # drop limit ?V"
    unfolding x_def by (metis append.assoc append_Cons append_Nil append_butlast_last_id append_take_drop_id)
  have "x \<in> set ?V" by (subst V) simp
  then have "x \<in> set (left s c)" by simp
  then obtain xs ys where sp: "left s c = xs @ x # ys" by (auto dest: split_list)
  note l = left_split [OF assms(1,2) sp]
  have "drop limit ?V = filter (\<lambda>y. key x < key y) ?V"
    using filter_after_mid [of key "butlast (take limit ?V)" x "drop limit ?V"] sorted_wrt_filter [OF left_sorted [OF assms(1)], of vis] V by metis
  also have "\<dots> = filter vis (filter (\<lambda>y. key x < key y) (left s c))" by (simp add: conj_commute)
  also have "filter (\<lambda>y. key x < key y) (left s c) = ys"
    using filter_after_mid [of key xs x ys] left_sorted [OF assms(1)] sp by metis
  finally show "filter vis (left s (Some (cur x))) = drop limit ?V" using l(1) by simp
  show "startsLeft s (Some (cur x))" by (rule l(2))
  show "length (left s (Some (cur x))) < length (left s c)" using l(1) sp by simp
qed

lemma walk_all:
  fixes seal vis limit maxScan batch
  defines "page \<equiv> \<lambda>s c. filledPage seal cur (fillLoop (\<lambda>c. fetch s c batch) cur vis limit maxScan c emptyFill)"
  assumes "wf s" "0 < batch" "batch \<le> 1000" "startsLeft s c" "0 < limit" "0 < maxScan" "\<And>k. unseal (seal k) = Some k"
    and "length (left s c) < n"
  shows "walkPages n (page s) unseal c = Some (filter vis (left s c))"
  using assms(5,9)
proof (induction n arbitrary: c)
  case (Suc n)
  note pe = page_exact [OF assms(2-4) Suc.prems(1) assms(6,7), of seal vis, folded page_def]
  show ?case
  proof (rule pe, goal_cases)
    case 1
    let ?V = "filter vis (left s c)"
    show ?case
    proof (cases "limit < length ?V")
      case False
      then show ?thesis using 1 by (simp add: exactPage_def page_def)
    next
      case True
      note r = rest_after [OF assms(2) Suc.prems(1) assms(6) True]
      have "walkPages n (page s) unseal (Some (cur (last (take limit ?V)))) = Some (drop limit ?V)"
        using Suc.IH [OF r(2)] r(1,3) Suc.prems(2) by simp
      then show ?thesis using 1 True by (simp add: exactPage_def page_def)
    qed
  next
    case (2 xs l ys)
    note r = left_split [OF assms(2) Suc.prems(1) 2(1)]
    have "walkPages n (page s) unseal (Some (cur l)) = Some (filter vis ys)"
      using Suc.IH [OF r(2)] r(1) 2(1) Suc.prems(2) by simp
    then show ?case using 2 assms(8) by (simp add: page_def)
  qed
qed simp

end

section \<open>The SQLite engine as a keyset source\<close>

definition bulkRows :: "BulkListQuery \<Rightarrow> Graph \<Rightarrow> NodeRow list" where
  "bulkRows q g = sort_key keysetKey (filter (bulkMatches q) (gNodes g))"

definition cursorKey :: "KeysetCursor \<Rightarrow> down \<times> string" where
  "cursorKey k = (Down (kcUpdatedAt k), kcId k)"

definition uniqueIdsIn :: "Graph \<Rightarrow> bool" where
  "uniqueIdsIn g = distinct (map n_id (gNodes g))"

lemma distinct_keysetKey: "distinct (map n_id rs) \<Longrightarrow> distinct (map keysetKey rs)"
  by (induction rs) (auto simp: keysetKey_def)

lemma afterCursor_key: "afterCursor (Some k) r \<longleftrightarrow> cursorKey k < keysetKey r"
  by (auto simp: afterCursor_def cursorKey_def keysetKey_def less_prod_def' less_eq_down_def less_down_def)

lemma bulkMatches_page [simp]: "bulkMatches (q\<lparr>blLimit := n, blCursor := c\<rparr>) = bulkMatches q" "bulkMatches (q\<lparr>blCursor := c\<rparr>) = bulkMatches q"
    "bulkMatches (q\<lparr>blLimit := n\<rparr>) = bulkMatches q"
  by (auto simp: bulkMatches_def fun_eq_iff)

lemma keysetSelect_alt: "keysetSelect wh c n g = take n (filter (afterCursor c) (sort_key keysetKey (filter wh (gNodes g))))"
  by (simp add: keysetSelect_def filter_sort conj_commute)

lemma page_of_take:
  "kpPage (buildKeysetPage cur (take (Suc n) xs) n) = take n xs"
  "kpHasMore (buildKeysetPage cur (take (Suc n) xs) n) \<longleftrightarrow> n < length xs"
  "0 < n \<Longrightarrow> kpNextCursor (buildKeysetPage cur (take (Suc n) xs) n) = (if n < length xs then Some (cur (last (take n xs))) else None)"
  by (auto simp: buildKeysetPage_def Let_def min_def)

lemma bulkFetch_page:
  assumes "0 < n" "n \<le> 1000"
  shows "bulkFetch q g c n = (take n (filter (afterCursor c) (bulkRows q g)), n < length (filter (afterCursor c) (bulkRows q g)))"
proof -
  have "clampLimit (int n) = n" using assms by (simp add: clampLimit_def)
  then show ?thesis by (simp add: bulkFetch_def bulkList_def Let_def page_of_take keysetSelect_alt bulkRows_def)
qed

interpretation bulk: keyset_source "bulkRows q" keysetKey rowCursor cursorKey afterCursor "bulkFetch q" uniqueIdsIn for q
proof
  fix s assume "uniqueIdsIn s"
  then have "distinct (map keysetKey (filter (bulkMatches q) (gNodes s)))"
    by (intro distinct_keysetKey distinct_map_filter) (simp add: uniqueIdsIn_def)
  then show "sorted_wrt (\<lambda>x y. keysetKey x < keysetKey y) (bulkRows q s)"
    unfolding bulkRows_def by (rule sorted_distinct_sort_key)
qed (auto simp: afterCursor_key bulkFetch_page cursorKey_def rowCursor_def keysetKey_def, simp add: afterCursor_def)

section \<open>What the bulk-list route returns\<close>

definition seenBy :: "ActorContext option \<Rightarrow> (NodeRow \<Rightarrow> bool) \<Rightarrow> NodeRow \<Rightarrow> bool" where
  "seenBy actor accept r \<longleftrightarrow> accept r \<and> scopesVisibleToCurrentActor actor (nodeScopes r)"

lemma rowVisible_seenBy:
  assumes "getCurrentActorScopes actor = Some a"
  shows "rowVisible (Some a) accept nodeScopes = seenBy actor accept"
  by (simp add: fun_eq_iff rowVisible_def seenBy_def singleton_filter scopesVisible_iff [OF assms] rowAllowed_iff)

lemma bulkListPage_bound:
  assumes "getCurrentActorScopes actor = Some a"
  shows "bulkListPage seal actor accept q g = filledPage seal rowCursor
     (fillLoop (\<lambda>c. bulkFetch q g c (scopePageFillBatchSize (nat (blLimit q)))) rowCursor (seenBy actor accept) (nat (blLimit q))
        SCOPE_PAGE_FILL_MAX_SCAN (blCursor q) emptyFill)"
  using assms by (simp add: bulkListPage_def isActorBound_def fillVisibleKeysetPage_def rowVisible_seenBy [OF assms])

lemma batch_bounds: "0 < scopePageFillBatchSize n" "scopePageFillBatchSize n \<le> 1000"
  by (simp_all add: scopePageFillBatchSize_def)

lemma page_cases:
  assumes "getCurrentActorScopes actor = Some a" "uniqueIdsIn g" "0 < blLimit q"
  obtains (whole) "bulkListPage seal actor accept q g =
      Inr (exactPage rowCursor (nat (blLimit q)) (filter (seenBy actor accept) (bulk.left q g (blCursor q))))"
  | (part) xs l ys where "bulk.left q g (blCursor q) = xs @ l # ys" "ys \<noteq> []" "SCOPE_PAGE_FILL_MAX_SCAN < length (bulk.left q g (blCursor q))"
      "bulkListPage seal actor accept q g = Inr \<lparr>fkNodes = filter (seenBy actor accept) (xs @ [l]), fkHasMore = True,
         fkNextCursor = Some (SealedCursor (seal (rowCursor l))), fkCapped = True\<rparr>"
proof -
  have l: "0 < nat (blLimit q)" using assms(3) by simp
  have m: "0 < SCOPE_PAGE_FILL_MAX_SCAN" by (simp add: SCOPE_PAGE_FILL_MAX_SCAN_def)
  show thesis
    using bulk.page_exact [OF assms(2) batch_bounds [of "nat (blLimit q)"] bulk.startsLeft_any [OF assms(2)] l m,
        where q = q and seal = seal and vis = "seenBy actor accept" and c = "blCursor q"] whole part
    unfolding bulkListPage_bound [OF assms(1)] by metis
qed

text \<open>Note: A confined page is exact: the bulk-list page of a bound actor holds, up to the limit and in keyset order, the
  next rows after the cursor that the route accepts and the actor may see; it says whether more follow; and its cursor names
  the last row returned. Only when more than ten thousand rows follow may it be cut short, and then the rows are still a
  prefix of those and the cursor is sealed.\<close>

theorem confined_page_exact:
  fixes accept
  assumes "getCurrentActorScopes actor = Some a" "uniqueIdsIn g" "0 < blLimit q"
  defines "vs \<equiv> filter (seenBy actor accept) (filter (afterCursor (blCursor q)) (bulkRows q g))"
  shows "case bulkListPage seal actor accept q g of
      Inl _ \<Rightarrow> False
    | Inr p \<Rightarrow>
        if fkCapped p then SCOPE_PAGE_FILL_MAX_SCAN < length (gNodes g) \<and> (\<exists>more. fkNodes p @ more = vs) \<and>
          (\<exists>k. fkNextCursor p = Some (SealedCursor (seal k)))
        else p = exactPage rowCursor (nat (blLimit q)) vs"
proof (rule page_cases [OF assms(1-3), of seal accept])
  assume "bulkListPage seal actor accept q g =
    Inr (exactPage rowCursor (nat (blLimit q)) (filter (seenBy actor accept) (bulk.left q g (blCursor q))))"
  then show ?thesis by (simp add: vs_def bulk.left_def exactPage_def)
next
  fix xs l ys
  assume a: "bulk.left q g (blCursor q) = xs @ l # ys" "SCOPE_PAGE_FILL_MAX_SCAN < length (bulk.left q g (blCursor q))"
    "bulkListPage seal actor accept q g = Inr \<lparr>fkNodes = filter (seenBy actor accept) (xs @ [l]), fkHasMore = True,
       fkNextCursor = Some (SealedCursor (seal (rowCursor l))), fkCapped = True\<rparr>"
  have "length (bulk.left q g (blCursor q)) \<le> length (gNodes g)"
    unfolding bulk.left_def bulkRows_def by (metis length_filter_le length_sort order_trans)
  moreover have "filter (seenBy actor accept) (xs @ [l]) @ filter (seenBy actor accept) ys = vs"
    using a(1) by (simp add: vs_def bulk.left_def)
  ultimately show ?thesis using a(2,3) by auto
qed

definition labelled :: "string \<Rightarrow> string list \<Rightarrow> NodeRow" where
  "labelled i ss = (freshRow i)\<lparr>n_updatedAt := ''2026'', n_securityScopes := ss\<rparr>"

definition sampleQuery :: BulkListQuery where
  "sampleQuery = \<lparr>blTypes = None, blTags = None, blProject = None, blEcosystem = None, blLimit = 2, blCursor = None\<rparr>"

definition labelledGraph :: Graph where
  "labelledGraph = \<lparr>gNodes = [labelled ''a'' [], labelled ''b'' [''board''], labelled ''c'' [''hr''], labelled ''d'' []], gEdges = [], gOptOut = []\<rparr>"

lemma sampleActor_scopes: "getCurrentActorScopes sampleActor = Some [''hr'']"
  by (simp add: sampleActor_def getCurrentActorScopes_def)

lemma labelledGraph_unique: "uniqueIdsIn labelledGraph"
  by (simp add: uniqueIdsIn_def labelledGraph_def labelled_def freshRow_def)

theorem confined_page_exact_witness:
  "case bulkListPage kcId sampleActor (\<lambda>_. True) sampleQuery labelledGraph of
     Inl _ \<Rightarrow> False
   | Inr p \<Rightarrow>
       if fkCapped p then SCOPE_PAGE_FILL_MAX_SCAN < length (gNodes labelledGraph) \<and>
         (\<exists>more. fkNodes p @ more = filter (seenBy sampleActor (\<lambda>_. True)) (filter (afterCursor (blCursor sampleQuery)) (bulkRows sampleQuery labelledGraph))) \<and>
         (\<exists>k :: KeysetCursor. fkNextCursor p = Some (SealedCursor (kcId k)))
       else p = exactPage rowCursor (nat (blLimit sampleQuery))
         (filter (seenBy sampleActor (\<lambda>_. True)) (filter (afterCursor (blCursor sampleQuery)) (bulkRows sampleQuery labelledGraph)))"
  by (rule confined_page_exact [OF sampleActor_scopes labelledGraph_unique]) (simp add: sampleQuery_def)

lemma bulkRows_visible:
  "filter vis (filter (afterCursor c) (bulkRows q g)) = sort_key keysetKey (filter (\<lambda>r. vis r \<and> bulkMatches q r \<and> afterCursor c r) (gNodes g))"
  by (simp add: bulkRows_def filter_sort conj_ac)

lemma sort_key_same_set:
  assumes "distinct (map k xs)" "distinct (map k ys)" "set xs = set ys"
  shows "sort_key k xs = sort_key k ys"
proof (rule map_inj_on)
  have "inj_on k (set xs)" using assms(1) by (simp add: distinct_map)
  then show "inj_on k (set (sort_key k xs) \<union> set (sort_key k ys))" using assms(3) by simp
  have "distinct (map k (sort_key k xs))" "distinct (map k (sort_key k ys))" using assms(1,2) distinct_map_sort_key by blast+
  then show "map k (sort_key k xs) = map k (sort_key k ys)"
    using assms(3) by (intro sorted_distinct_set_unique) simp_all
qed


definition redactedGraph :: Graph where
  "redactedGraph = \<lparr>gNodes = [labelled ''d'' [], labelled ''a'' [], labelled ''c'' [''hr'']], gEdges = [], gOptOut = []\<rparr>"

lemma labelled_sel [simp]: "n_id (labelled i ss) = i" "n_securityScopes (labelled i ss) = ss" "n_updatedAt (labelled i ss) = ''2026''"
  by (simp_all add: labelled_def freshRow_def)


lemma bulkFetch_cursor: "bulkFetch (q\<lparr>blCursor := c\<rparr>) g = bulkFetch q g"
  by (simp add: bulkFetch_def fun_eq_iff)

text \<open>C21: Paging is complete and ends: following the cursors from the first page, with sealed ones opened again, visits in
  keyset order every row of the query that the route accepts and the actor may see, each once, and stops.\<close>

theorem paging_complete:
  assumes "getCurrentActorScopes actor = Some a" "uniqueIdsIn g" "0 < blLimit q" "\<And>k. unseal (seal k) = Some k" "length (gNodes g) < n"
  shows "\<exists>rs. walkPages n (\<lambda>c. bulkListPage seal actor accept (q\<lparr>blCursor := c\<rparr>) g) unseal None = Some rs \<and> distinct rs \<and>
    sorted_wrt (\<lambda>x y. keysetKey x < keysetKey y) rs \<and>
    set rs = {r \<in> set (gNodes g). bulkMatches q r \<and> accept r \<and> scopesVisibleToCurrentActor actor (nodeScopes r)}"
proof -
  let ?rs = "filter (seenBy actor accept) (bulkRows q g)"
  have l: "0 < nat (blLimit q)" and m: "0 < SCOPE_PAGE_FILL_MAX_SCAN" using assms(3) by (simp_all add: SCOPE_PAGE_FILL_MAX_SCAN_def)
  have all: "bulk.left q g None = bulkRows q g" by (simp add: bulk.left_def afterCursor_def)
  have "length (bulk.left q g None) \<le> length (gNodes g)" unfolding all bulkRows_def by (metis length_filter_le length_sort)
  then have n: "length (bulk.left q g None) < n" using assms(5) by simp
  have "walkPages n (\<lambda>c. bulkListPage seal actor accept (q\<lparr>blCursor := c\<rparr>) g) unseal None = Some ?rs"
    using bulk.walk_all [OF assms(2) batch_bounds [of "nat (blLimit q)"] bulk.startsLeft_any [OF assms(2)] l m assms(4) n,
        where vis = "seenBy actor accept"]
    by (simp add: bulkListPage_bound [OF assms(1)] bulkFetch_cursor all)
  moreover have srt: "sorted_wrt (\<lambda>x y. keysetKey x < keysetKey y) ?rs"
    by (rule sorted_wrt_filter) (rule bulk.rows_sorted [OF assms(2)])
  moreover have "distinct ?rs"
    using srt by (simp add: distinct_conv_nth sorted_wrt_iff_nth_less) (metis linorder_neqE_nat order_less_irrefl)
  moreover have "set ?rs = {r \<in> set (gNodes g). bulkMatches q r \<and> accept r \<and> scopesVisibleToCurrentActor actor (nodeScopes r)}"
    by (auto simp: bulkRows_def seenBy_def)
  ultimately show ?thesis by blast
qed

definition plainSeal :: "KeysetCursor \<Rightarrow> string" where
  "plainSeal k = replicate (length (kcUpdatedAt k)) CHR ''x'' @ CHR ''|'' # kcUpdatedAt k @ kcId k"

definition plainUnseal :: "string \<Rightarrow> KeysetCursor option" where
  "plainUnseal t =
     (let n = length (takeWhile (\<lambda>c. c = CHR ''x'') t); r = drop (n + 1) t
      in Some \<lparr>kcUpdatedAt = take n r, kcId = drop n r\<rparr>)"

lemma plain_unseal: "plainUnseal (plainSeal k) = Some k"
proof -
  have "takeWhile (\<lambda>c. c = CHR ''x'') (plainSeal k) = replicate (length (kcUpdatedAt k)) CHR ''x''"
    unfolding plainSeal_def by (induction "length (kcUpdatedAt k)" arbitrary: k) (simp_all add: takeWhile_append)
  then show ?thesis by (simp add: plainUnseal_def plainSeal_def Let_def)
qed

theorem paging_complete_witness:
  "\<exists>rs. walkPages 5 (\<lambda>c. bulkListPage plainSeal sampleActor (\<lambda>_. True) (sampleQuery\<lparr>blCursor := c\<rparr>) labelledGraph) plainUnseal None = Some rs \<and>
     labelled ''d'' [] \<in> set rs"
proof -
  have "labelled ''d'' [] \<in> set (gNodes labelledGraph)" "bulkMatches sampleQuery (labelled ''d'' [])"
    "scopesVisibleToCurrentActor sampleActor (nodeScopes (labelled ''d'' []))"
    by (simp_all add: labelledGraph_def bulkMatches_def sampleQuery_def scopesVisible_iff [OF sampleActor_scopes] nodeScopes_def meets_def)
  then show ?thesis
    using paging_complete [OF sampleActor_scopes labelledGraph_unique, of sampleQuery plainUnseal plainSeal 5 "\<lambda>_. True"] plain_unseal
    by (auto simp: sampleQuery_def labelledGraph_def)
qed

section \<open>Counts\<close>

definition countMatches :: "string option \<Rightarrow> bool \<Rightarrow> string option \<Rightarrow> NodeRow \<Rightarrow> bool" where
  "countMatches type byLanguage project r \<longleftrightarrow>
     (if type = None \<or> byLanguage then (case project of None \<Rightarrow> True | Some p \<Rightarrow> p = ''*'' \<or> n_project r = p)
      else type = Some (n_type r) \<and> (case project of None \<Rightarrow> True | Some p \<Rightarrow> p = [] \<or> n_project r = p))"

definition countRowsOf :: "string option \<Rightarrow> bool \<Rightarrow> string option \<Rightarrow> Graph \<Rightarrow> NodeRow list" where
  "countRowsOf type byLanguage project g = sort_key keysetKey (filter (countMatches type byLanguage project) (gNodes g))"

lemma countFetch_page:
  fixes type byLanguage project g
  assumes "0 < n" "n \<le> 1000"
  defines "rs \<equiv> \<lambda>c. filter (afterCursor c) (countRowsOf type byLanguage project g)"
  shows "countFetch type byLanguage project g n c =
    (take n (rs c), if n < length (rs c) then Some (rowCursor (last (take n (rs c)))) else None)"
proof (cases "type = None \<or> byLanguage")
  case True
  have "(\<lambda>r. (case project of None \<Rightarrow> ''*'' | Some p \<Rightarrow> p) = ''*'' \<or> n_project r = (case project of None \<Rightarrow> ''*'' | Some p \<Rightarrow> p)) =
      countMatches type byLanguage project"
    using True by (auto simp: countMatches_def fun_eq_iff split: option.splits)
  then show ?thesis using True assms(1)
    by (simp add: countFetch_def bulkListProjected_def Let_def page_of_take keysetSelect_alt rs_def countRowsOf_def)
next
  case False
  define q where "q = \<lparr>blTypes = map_option (\<lambda>t. [t]) type, blTags = None, blProject = project, blEcosystem = None,
      blLimit = int n, blCursor = c\<rparr>"
  have m: "bulkMatches q = countMatches type byLanguage project"
    using False by (auto simp: bulkMatches_def countMatches_def q_def fun_eq_iff split: option.splits)
  have "clampLimit (blLimit q) = n" using assms by (simp add: clampLimit_def q_def)
  then have "bulkList q g = buildKeysetPage rowCursor (take (Suc n) (rs c)) n"
    by (simp add: bulkList_def Let_def keysetSelect_alt m rs_def countRowsOf_def) (simp add: q_def)
  then show ?thesis using False assms(1) unfolding countFetch_def q_def [symmetric] by (auto simp: Let_def page_of_take)
qed

interpretation count: keyset_source "countRowsOf type byLanguage project" keysetKey rowCursor cursorKey afterCursor
  "\<lambda>g c n. (fst (countFetch type byLanguage project g n c), snd (countFetch type byLanguage project g n c) \<noteq> None)" uniqueIdsIn
  for type byLanguage project
proof
  fix s assume "uniqueIdsIn s"
  then have "distinct (map keysetKey (filter (countMatches type byLanguage project) (gNodes s)))"
    by (intro distinct_keysetKey distinct_map_filter) (simp add: uniqueIdsIn_def)
  then show "sorted_wrt (\<lambda>x y. keysetKey x < keysetKey y) (countRowsOf type byLanguage project s)"
    unfolding countRowsOf_def by (rule sorted_distinct_sort_key)
qed (auto simp: afterCursor_key countFetch_page cursorKey_def rowCursor_def keysetKey_def, simp add: afterCursor_def)

lemma scanNodeRows_take:
  fixes type byLanguage project
  assumes "uniqueIdsIn g" "scanned \<le> cap"
  defines "left \<equiv> count.left type byLanguage project g"
  shows "scanNodeRows (countFetch type byLanguage project g) cap scanned c acc =
    (acc @ take (cap - scanned) (left c), scanned + min (cap - scanned) (length (left c)), cap - scanned < length (left c))"
  using assms(2)
proof (induction "cap - scanned" arbitrary: scanned c acc rule: less_induct)
  case less
  have f: "countFetch type byLanguage project g n c' =
      (take n (left c'), if n < length (left c') then Some (rowCursor (last (take n (left c')))) else None)" if "0 < n" "n \<le> 1000" for n c'
    using countFetch_page [OF that] by (simp add: left_def count.left_def)
  show ?case
  proof (cases "cap \<le> scanned")
    case True
    then show ?thesis using less.prems f [of 1 c] by (cases "left c") (simp_all add: scanNodeRows.simps)
  next
    case False
    define n where "n = min PAGE_SIZE (cap - scanned)"
    have n: "0 < n" "n \<le> 1000" "n \<le> cap - scanned" using False by (auto simp: n_def PAGE_SIZE_def)
    show ?thesis
    proof (cases "n < length (left c)")
      case False
      then have "scanNodeRows (countFetch type byLanguage project g) cap scanned c acc = (acc @ left c, scanned + length (left c), False)"
        using f [OF n(1,2)] \<open>\<not> cap \<le> scanned\<close> by (simp add: scanNodeRows.simps n_def [symmetric])
      then show ?thesis using False n(3) by auto
    next
      case True
      let ?ns = "take n (left c)"
      have ne: "?ns \<noteq> []" using n(1) True by auto
      have sp: "left c = butlast ?ns @ last ?ns # drop n (left c)"
        using ne by (metis append.assoc append_Cons append_Nil append_butlast_last_id append_take_drop_id)
      have l: "left (Some (rowCursor (last ?ns))) = drop n (left c)"
        using count.left_split(1) [OF assms(1) count.startsLeft_any [OF assms(1)] sp [unfolded left_def]] by (simp add: left_def)
      have step: "scanNodeRows (countFetch type byLanguage project g) cap scanned c acc =
          scanNodeRows (countFetch type byLanguage project g) cap (scanned + n) (Some (rowCursor (last ?ns))) (acc @ ?ns)"
        using f [OF n(1,2), of c] \<open>\<not> cap \<le> scanned\<close> True ne n(1) by (subst scanNodeRows.simps) (auto simp: n_def [symmetric])
      have lt: "cap - (scanned + n) < cap - scanned" using n(1) \<open>\<not> cap \<le> scanned\<close> by simp
      have le: "scanned + n \<le> cap" using n(3) \<open>\<not> cap \<le> scanned\<close> by simp
      have t: "take n (left c) @ take (cap - (scanned + n)) (drop n (left c)) = take (cap - scanned) (left c)"
        using le by (metis le_add_diff_inverse add.commute diff_diff_left n(3) take_add)
      show ?thesis unfolding step less.hyps [OF lt le] l using t le True by auto
    qed
  qed
qed

text \<open>Note: Counts for a confined actor: the number shown is the number of rows the actor may see among the first \<open>cap\<close> rows of
  the count in keyset order; it is the exact number unless it is marked a lower bound, and it is marked exactly when more
  rows than the cap exist, so the mark never depends on whether the rows beyond are visible.\<close>

theorem visible_counts_exact:
  fixes type project actor cap
  assumes "uniqueIdsIn g"
  defines "rs \<equiv> countRowsOf type False project g" and "r \<equiv> countVisibleNodes actor type False project (Some cap) g"
  shows "vcNodeCount r = length (filter (visibleTo actor) (take cap rs)) \<and>
    vcLowerBound r = (cap < length rs) \<and> vcScanned r = min cap (length rs) \<and>
    (vcLowerBound r \<or> vcNodeCount r = card {x \<in> set (gNodes g). countMatches type False project x \<and> visibleTo actor x}) \<and>
    vcNodeCount r \<le> card {x \<in> set (gNodes g). countMatches type False project x \<and> visibleTo actor x}"
proof -
  have l: "count.left type False project g None = rs" by (simp add: count.left_def afterCursor_def rs_def)
  have r: "r = countRows (filter (visibleTo actor) (take cap rs)) (min cap (length rs)) (cap < length rs)"
    unfolding r_def countVisibleNodes_def using scanNodeRows_take [OF assms(1), of 0 cap type False project None "[]"]
    by (simp add: l)
  let ?S = "{x \<in> set (gNodes g). countMatches type False project x \<and> visibleTo actor x}"
  have "distinct rs" using count.rows_sorted [OF assms(1)] unfolding rs_def
    by (simp add: distinct_conv_nth sorted_wrt_iff_nth_less) (metis linorder_neqE_nat order_less_irrefl)
  then have d: "distinct (filter (visibleTo actor) (take cap rs))" "distinct (filter (visibleTo actor) rs)" by simp_all
  have S: "set (filter (visibleTo actor) rs) = ?S" by (auto simp: rs_def countRowsOf_def)
  have "length (filter (visibleTo actor) (take cap rs)) \<le> card ?S"
    unfolding distinct_card [OF d(1), symmetric] S [symmetric] by (intro card_mono) (auto dest: in_set_takeD)
  moreover have "cap < length rs \<or> length (filter (visibleTo actor) (take cap rs)) = card ?S"
    using distinct_card [OF d(2)] unfolding S by (cases "cap < length rs") simp_all
  ultimately show ?thesis by (simp add: r countRows_def)
qed

theorem visible_counts_exact_witness:
  "vcNodeCount (countVisibleNodes sampleActor None False None (Some 2) labelledGraph) \<le>
     card {x \<in> set (gNodes labelledGraph). countMatches None False None x \<and> visibleTo sampleActor x}"
  using visible_counts_exact [OF labelledGraph_unique, of sampleActor None None 2] by blast

end
