(* ===== verification/JsonText.thy ===== *)
theory JsonText
  imports Json
begin

text \<open>
  \<open>JSON.parse\<close> and \<open>JSON.stringify\<close> as inverses. \<open>jsonParse\<close> reads the JSON grammar over 8-bit text with the numbers
  of \<open>json\<close> (integers); a key that occurs twice keeps its first position and its last value, as in JavaScript. The
  locale \<open>json_codec\<close> states what the program relies on, that a value written by \<open>JSON.stringify\<close> is read back as
  it was, also with the line feed that ends a line; \<open>jsonParse\<close> is an instance.
\<close>

section \<open>Objects of the language\<close>

text \<open>A JavaScript object has each key once.\<close>

fun distinctKeys :: "json \<Rightarrow> bool" where
  "distinctKeys (JArr xs) = list_all distinctKeys xs"
| "distinctKeys (JObj kvs) = (distinct (map fst kvs) \<and> list_all (\<lambda>(k, v). distinctKeys v) kvs)"
| "distinctKeys _ = True"

locale json_codec =
  fixes parse :: "string \<Rightarrow> json option"
  assumes parse_stringify: "distinctKeys j \<Longrightarrow> parse (stringify j) = Some j"
    and parse_line: "distinctKeys j \<Longrightarrow> parse (stringify j @ [CHR 0x0A]) = Some j"
begin

lemma stringify_inj: "distinctKeys j \<Longrightarrow> distinctKeys k \<Longrightarrow> stringify j = stringify k \<Longrightarrow> j = k"
  by (metis parse_stringify option.inject)

end

section \<open>The parser\<close>

definition jsonSpace :: "char \<Rightarrow> bool" where
  "jsonSpace c = (c = CHR 0x20 \<or> c = CHR 0x09 \<or> c = CHR 0x0A \<or> c = CHR 0x0D)"

definition skipWs :: "string \<Rightarrow> string" where
  "skipWs s = dropWhile jsonSpace s"

definition simpleEscape :: "char \<Rightarrow> char option" where
  "simpleEscape e = map_of [(CHR 0x22, CHR 0x22), (CHR 0x5C, CHR 0x5C), (CHR ''/'', CHR ''/''), (CHR ''b'', CHR 0x08),
     (CHR ''f'', CHR 0x0C), (CHR ''n'', CHR 0x0A), (CHR ''r'', CHR 0x0D), (CHR ''t'', CHR 0x09)] e"

text \<open>A \<open>uXXXX\<close> escape; a code point above 255 has no character of the model.\<close>

definition hexEscape :: "string \<Rightarrow> char option" where
  "hexEscape ds = (case digitsVal 16 0 ds of Some n \<Rightarrow> if n < 256 then Some (char_of n) else None | None \<Rightarrow> None)"

definition consRes :: "'a \<Rightarrow> ('a list \<times> 'b) option \<Rightarrow> ('a list \<times> 'b) option" where
  "consRes x r = map_option (\<lambda>(xs, s). (x # xs, s)) r"

fun strBody :: "string \<Rightarrow> (string \<times> string) option" where
  "strBody [] = None"
| "strBody (c # cs) =
     (if c = CHR 0x22 then Some ([], cs)
      else if c = CHR 0x5C then
        (case cs of
           [] \<Rightarrow> None
         | e # ds \<Rightarrow>
             if e = CHR ''u'' then
               (case ds of
                  a # b # x # y # es \<Rightarrow>
                    (case hexEscape [a, b, x, y] of Some ch \<Rightarrow> consRes ch (strBody es) | None \<Rightarrow> None)
                | _ \<Rightarrow> None)
             else (case simpleEscape e of Some ch \<Rightarrow> consRes ch (strBody ds) | None \<Rightarrow> None))
      else if (of_char c :: nat) < 32 then None
      else consRes c (strBody cs))"

definition decDigit :: "char \<Rightarrow> bool" where
  "decDigit c = (48 \<le> (of_char c :: nat) \<and> (of_char c :: nat) < 58)"

definition decVal :: "string \<Rightarrow> nat" where
  "decVal ds = foldl (\<lambda>a c. 10 * a + (of_char c - 48)) 0 ds"

text \<open>An unsigned integer: a single zero, or digits that start with another one; a fraction or an exponent is not read.\<close>

definition natLit :: "string \<Rightarrow> (nat \<times> string) option" where
  "natLit s =
     (let ds = (if s \<noteq> [] \<and> hd s = CHR ''0'' then [CHR ''0''] else takeWhile decDigit s);
          r = drop (length ds) s
      in if ds = [] \<or> (r \<noteq> [] \<and> List.member [CHR ''.'', CHR ''e'', CHR ''E''] (hd r)) then None else Some (decVal ds, r))"

definition numLit :: "string \<Rightarrow> (json \<times> string) option" where
  "numLit s =
     (case s of
        [] \<Rightarrow> None
      | c # cs \<Rightarrow> if c = CHR ''-'' then map_option (\<lambda>(n, r). (JNum (- int n), r)) (natLit cs)
                  else map_option (\<lambda>(n, r). (JNum (int n), r)) (natLit s))"

definition wordLit :: "string \<Rightarrow> json \<Rightarrow> string \<Rightarrow> (json \<times> string) option" where
  "wordLit w v s = (if startsWith s w then Some (v, drop (length w) s) else None)"

definition objOf :: "(string \<times> json) list \<Rightarrow> json" where
  "objOf kvs = JObj (foldl (\<lambda>acc (k, v). AList.update k v acc) [] kvs)"

fun valueAt :: "nat \<Rightarrow> string \<Rightarrow> (json \<times> string) option"
  and elemsAt :: "nat \<Rightarrow> string \<Rightarrow> (json list \<times> string) option"
  and membersAt :: "nat \<Rightarrow> string \<Rightarrow> ((string \<times> json) list \<times> string) option" where
  "valueAt 0 s = None"
| "valueAt (Suc n) s =
     (case skipWs s of
        [] \<Rightarrow> None
      | c # cs \<Rightarrow>
          if c = CHR 0x22 then map_option (\<lambda>(t, r). (JStr t, r)) (strBody cs)
          else if c = CHR ''['' then
            (if skipWs cs \<noteq> [] \<and> hd (skipWs cs) = CHR '']'' then Some (JArr [], tl (skipWs cs))
             else map_option (\<lambda>(vs, r). (JArr vs, r)) (elemsAt n cs))
          else if c = CHR ''{'' then
            (if skipWs cs \<noteq> [] \<and> hd (skipWs cs) = CHR ''}'' then Some (JObj [], tl (skipWs cs))
             else map_option (\<lambda>(kvs, r). (objOf kvs, r)) (membersAt n cs))
          else if c = CHR ''t'' then wordLit ''true'' (JBool True) (c # cs)
          else if c = CHR ''f'' then wordLit ''false'' (JBool False) (c # cs)
          else if c = CHR ''n'' then wordLit ''null'' JNull (c # cs)
          else numLit (c # cs))"
| "elemsAt 0 s = None"
| "elemsAt (Suc n) s =
     (case valueAt n s of
        None \<Rightarrow> None
      | Some (v, r) \<Rightarrow>
          (case skipWs r of
             [] \<Rightarrow> None
           | c # cs \<Rightarrow> if c = CHR '','' then consRes v (elemsAt n cs)
                       else if c = CHR '']'' then Some ([v], cs) else None))"
| "membersAt 0 s = None"
| "membersAt (Suc n) s =
     (case skipWs s of
        [] \<Rightarrow> None
      | q # qs \<Rightarrow>
          if q \<noteq> CHR 0x22 then None
          else (case strBody qs of
                  None \<Rightarrow> None
                | Some (k, r) \<Rightarrow>
                    (case skipWs r of
                       [] \<Rightarrow> None
                     | d # ds \<Rightarrow>
                         if d \<noteq> CHR '':'' then None
                         else (case valueAt n ds of
                                 None \<Rightarrow> None
                               | Some (v, r2) \<Rightarrow>
                                   (case skipWs r2 of
                                      [] \<Rightarrow> None
                                    | c # cs \<Rightarrow> if c = CHR '','' then consRes (k, v) (membersAt n cs)
                                                else if c = CHR ''}'' then Some ([(k, v)], cs) else None)))))"

declare valueAt.simps(2) [simp del] elemsAt.simps(2) [simp del] membersAt.simps(2) [simp del]

text \<open>Every level of the recursion consumes a character, so the length of the text is enough fuel.\<close>

definition jsonParse :: "string \<Rightarrow> json option" where
  "jsonParse s = (case valueAt (Suc (length s)) s of
                    Some (v, r) \<Rightarrow> if skipWs r = [] then Some v else None
                  | None \<Rightarrow> None)"

section \<open>Reading back what was written\<close>

lemma consRes_Some [simp]: "consRes x (Some (xs, s)) = Some (x # xs, s)"
  by (simp add: consRes_def)

lemma digitVal_hexDigit: "n < 16 \<Longrightarrow> digitVal 16 (hexDigit n) = Some n"
  by (auto simp: digitVal_def hexDigit_def lowerAscii_def Let_def)

lemma hexEscape_control:
  assumes "n < 32"
  shows "hexEscape [CHR ''0'', CHR ''0'', hexDigit (n div 16), hexDigit (n mod 16)] = Some (char_of n)"
proof -
  have "digitVal 16 CHR ''0'' = Some 0" by (simp add: digitVal_def lowerAscii_def)
  moreover have "n div 16 * 16 + n mod 16 = n" by simp
  ultimately show ?thesis using assms by (simp add: hexEscape_def digitVal_hexDigit)
qed

lemma strBody_escape: "strBody (escapeChar c @ s) = consRes c (strBody s)"
proof -
  let ?n = "of_char c :: nat"
  have simple: "strBody (escapeChar c @ s) = consRes c (strBody s)" if "?n = k" "k \<in> {34, 92, 8, 12, 10, 13, 9}" for k
  proof -
    have "c \<in> {CHR 0x22, CHR 0x5C, CHR 0x08, CHR 0x0C, CHR 0x0A, CHR 0x0D, CHR 0x09}"
      unfolding insert_iff of_char_eq_iff [where ?'a = nat, symmetric] using that by auto
    then show ?thesis by (auto simp: escapeChar_def simpleEscape_def)
  qed
  consider "?n = 34" | "?n = 92" | "?n = 8" | "?n = 12" | "?n = 10" | "?n = 13" | "?n = 9"
    | "?n < 32" "?n \<notin> {8, 9, 10, 12, 13}" | "32 \<le> ?n" "?n \<noteq> 34" "?n \<noteq> 92" by fastforce
  then show ?thesis
  proof cases
    case 8
    then have "escapeChar c = [CHR 0x5C, CHR ''u'', CHR ''0'', CHR ''0'', hexDigit (?n div 16), hexDigit (?n mod 16)]"
      by (simp add: escapeChar_def Let_def)
    with 8 show ?thesis by (simp add: hexEscape_control)
  next
    case 9
    then have "escapeChar c = [c]" by (simp add: escapeChar_def Let_def)
    moreover have "c \<noteq> CHR 0x22" "c \<noteq> CHR 0x5C" using 9 by auto
    ultimately show ?thesis using 9 by simp
  qed (erule simple, simp)+
qed

lemma strBody_quoted: "strBody (concat (map escapeChar s) @ CHR 0x22 # r) = Some (s, r)"
  by (induction s) (simp_all add: strBody_escape)

lemma decDigit_showNat: "c \<in> set (showNat n) \<Longrightarrow> decDigit c"
  unfolding decDigit_def by (rule showNat_digits)

lemma showNat_nonempty [simp]: "showNat n \<noteq> []"
  by (subst showNat.simps) simp

lemma showNat_hd: "hd (showNat n) = CHR ''0'' \<longleftrightarrow> n = 0"
proof (induction n rule: showNat.induct)
  case (1 n)
  show ?case
  proof (cases "n < 10")
    case True
    then have "showNat n = [char_of (48 + n)]" by (subst showNat.simps) simp
    moreover have "char_of (48 + n) = CHR ''0'' \<longleftrightarrow> (of_char (char_of (48 + n) :: char) :: nat) = of_char (CHR ''0'')"
      by (simp only: of_char_eq_iff)
    ultimately show ?thesis using True by simp
  next
    case False
    then show ?thesis using 1 by (subst showNat.simps) simp
  qed
qed

text \<open>What may follow a number: nothing, or a character that cannot continue it.\<close>

definition endsNum :: "string \<Rightarrow> bool" where
  "endsNum r = (r = [] \<or> \<not> decDigit (hd r) \<and> \<not> List.member [CHR ''.'', CHR ''e'', CHR ''E''] (hd r))"

lemma natLit_showNat:
  assumes "endsNum r"
  shows "natLit (showNat n @ r) = Some (n, r)"
proof -
  let ?ds = "if showNat n @ r \<noteq> [] \<and> hd (showNat n @ r) = CHR ''0'' then [CHR ''0''] else takeWhile decDigit (showNat n @ r)"
  have "showNat 0 = ''0''" using showNat_hd [of 0] by (subst showNat.simps) (simp add: showNat.simps [of 0])
  moreover have "takeWhile decDigit (showNat n @ r) = showNat n"
    using assms decDigit_showNat by (cases r) (auto simp: endsNum_def takeWhile_append)
  ultimately have ds: "?ds = showNat n" by (auto simp: showNat_hd)
  show ?thesis unfolding natLit_def Let_def ds using assms by (auto simp: endsNum_def decVal_def showNat_value)
qed

lemma numLit_showInt:
  assumes "endsNum r"
  shows "numLit (showInt n @ r) = Some (JNum n, r)"
proof (cases "n < 0")
  case True
  then show ?thesis by (simp add: showInt_def numLit_def natLit_showNat [OF assms])
next
  case False
  obtain c cs where cs: "showNat (nat n) = c # cs" by (cases "showNat (nat n)") auto
  then have "decDigit c" using decDigit_showNat [of c "nat n"] by simp
  then have "c \<noteq> CHR ''-''" by (auto simp: decDigit_def)
  then show ?thesis using False natLit_showNat [OF assms, of "nat n"] by (simp add: showInt_def numLit_def cs)
qed

lemma skipWs_visible: "\<not> jsonSpace c \<Longrightarrow> skipWs (c # s) = c # s"
  by (simp add: skipWs_def)

lemma skipWs_number:
  "\<exists>c cs. showInt n = c # cs \<and> \<not> jsonSpace c \<and> c \<notin> {CHR 0x22, CHR ''['', CHR ''{'', CHR ''t'', CHR ''f'', CHR ''n''}"
proof (cases "n < 0")
  case True
  then show ?thesis by (auto simp: showInt_def jsonSpace_def)
next
  case False
  obtain c cs where cs: "showNat (nat n) = c # cs" by (cases "showNat (nat n)") auto
  then have "decDigit c" using decDigit_showNat [of c "nat n"] by simp
  then show ?thesis using False cs by (auto simp: showInt_def jsonSpace_def decDigit_def)
qed

lemma objOf_distinct:
  assumes "distinct (map fst kvs)"
  shows "objOf kvs = JObj kvs"
proof -
  have "foldl (\<lambda>acc (k, v). AList.update k v acc) acc kvs = acc @ kvs" if "distinct (map fst (acc @ kvs))" for acc
    using that
  proof (induction kvs arbitrary: acc)
    case (Cons kv kvs)
    obtain k v where kv: "kv = (k, v)" by force
    then have "k \<notin> fst ` set acc" using Cons.prems by auto
    then have "AList.update k v acc = acc @ [(k, v)]" by (induction acc) auto
    then show ?case using Cons.IH [of "acc @ [(k, v)]"] Cons.prems kv by simp
  qed simp
  from this [of "[]"] assms show ?thesis by (simp add: objOf_def)
qed

text \<open>The text of a list of items, each of which is read back, is read back item by item.\<close>

lemma endsNum_sep [simp]: "endsNum (CHR '','' # r)" "endsNum (CHR '']'' # r)" "endsNum (CHR ''}'' # r)" "endsNum []"
  by (auto simp: endsNum_def decDigit_def)

definition readBack :: "json \<Rightarrow> bool" where
  "readBack j \<longleftrightarrow> (\<forall>n r. length (stringify j) \<le> n \<longrightarrow> endsNum r \<longrightarrow> valueAt n (stringify j @ r) = Some (j, r))"

lemma readBackD: "readBack j \<Longrightarrow> length (stringify j) \<le> n \<Longrightarrow> endsNum r \<Longrightarrow> valueAt n (stringify j @ r) = Some (j, r)"
  by (simp add: readBack_def)

lemma elemsAt_join:
  assumes "xs \<noteq> []" "\<And>x. x \<in> set xs \<Longrightarrow> readBack x" "length (joinComma (map stringify xs)) < n"
  shows "elemsAt n (joinComma (map stringify xs) @ CHR '']'' # r) = Some (xs, r)"
  using assms
proof (induction xs arbitrary: n)
  case (Cons x xs)
  from Cons.prems(3) obtain m where n: "n = Suc m" by (cases n) auto
  show ?case
  proof (cases xs)
    case Nil
    have "valueAt m (stringify x @ CHR '']'' # r) = Some (x, CHR '']'' # r)"
      using Cons.prems n Nil by (intro readBackD) auto
    then show ?thesis by (simp add: n Nil elemsAt.simps(2) skipWs_visible jsonSpace_def)
  next
    case more: (Cons y ys)
    let ?rest = "joinComma (map stringify xs) @ CHR '']'' # r"
    have txt_eq: "joinComma (map stringify (x # xs)) = stringify x @ CHR '','' # joinComma (map stringify xs)" using more by simp
    have "valueAt m (stringify x @ CHR '','' # ?rest) = Some (x, CHR '','' # ?rest)"
      using Cons.prems(2,3) unfolding txt_eq n by (intro readBackD) auto
    moreover have "elemsAt m ?rest = Some (xs, r)"
      using Cons.prems(2,3) n more unfolding txt_eq by (intro Cons.IH) auto
    ultimately show ?thesis unfolding txt_eq by (simp add: n elemsAt.simps(2) skipWs_visible jsonSpace_def)
  qed
qed simp

abbreviation memberText :: "string \<times> json \<Rightarrow> string" where
  "memberText \<equiv> \<lambda>(k, v). quoteStr k @ CHR '':'' # stringify v"

lemma membersAt_join:
  assumes "kvs \<noteq> []" "\<And>k v. (k, v) \<in> set kvs \<Longrightarrow> readBack v" "length (joinComma (map memberText kvs)) < n"
  shows "membersAt n (joinComma (map memberText kvs) @ CHR ''}'' # r) = Some (kvs, r)"
  using assms
proof (induction kvs arbitrary: n)
  case (Cons kv kvs)
  from Cons.prems(3) obtain m where n: "n = Suc m" by (cases n) auto
  obtain k v where kv: "kv = (k, v)" by force
  have key: "strBody (concat (map escapeChar k) @ CHR 0x22 # CHR '':'' # t) = Some (k, CHR '':'' # t)" for t
    by (rule strBody_quoted)
  show ?case
  proof (cases kvs)
    case Nil
    have "valueAt m (stringify v @ CHR ''}'' # r) = Some (v, CHR ''}'' # r)"
      using Cons.prems n Nil kv by (intro readBackD) auto
    then show ?thesis by (simp add: n Nil kv quoteStr_def membersAt.simps(2) skipWs_visible jsonSpace_def key)
  next
    case more: (Cons y ys)
    let ?rest = "joinComma (map memberText kvs) @ CHR ''}'' # r"
    have txt_eq: "joinComma (map memberText (kv # kvs)) = quoteStr k @ CHR '':'' # stringify v @ CHR '','' # joinComma (map memberText kvs)"
      using more kv by simp
    have "valueAt m (stringify v @ CHR '','' # ?rest) = Some (v, CHR '','' # ?rest)"
      using Cons.prems(2,3) n kv unfolding txt_eq by (intro readBackD) auto
    moreover have "membersAt m ?rest = Some (kvs, r)"
      using Cons.prems(2,3) n more unfolding txt_eq by (intro Cons.IH) auto
    ultimately show ?thesis unfolding txt_eq
      by (simp add: n kv quoteStr_def membersAt.simps(2) skipWs_visible jsonSpace_def key)
  qed
qed simp

lemma stringify_visible: "\<exists>c cs. stringify j = c # cs \<and> \<not> jsonSpace c \<and> c \<noteq> CHR '']''"
proof (cases j)
  case (JNum n)
  obtain c cs where c: "showInt n = c # cs" using skipWs_number by blast
  have "c = CHR ''-'' \<or> decDigit c"
  proof (cases "n < 0")
    case False
    then show ?thesis using c decDigit_showNat [of c "nat n"] by (simp add: showInt_def)
  qed (use c in \<open>simp add: showInt_def\<close>)
  then show ?thesis using JNum c by (auto simp: jsonSpace_def decDigit_def)
qed (auto simp: quoteStr_def jsonSpace_def)

lemma readBack_all: "distinctKeys j \<Longrightarrow> readBack j"
proof (induction j rule: stringify.induct)
  case (3 n)
  obtain c cs where c: "showInt n = c # cs" "\<not> jsonSpace c" "c \<notin> {CHR 0x22, CHR ''['', CHR ''{'', CHR ''t'', CHR ''f'', CHR ''n''}"
    using skipWs_number by blast
  have "valueAt m (showInt n @ r) = Some (JNum n, r)" if "length (showInt n) \<le> m" "endsNum r" for m r
  proof -
    from that(1) c(1) obtain k where "m = Suc k" by (cases m) auto
    then show ?thesis using c(2,3) numLit_showInt [OF that(2), of n] unfolding c(1)
      by (simp add: valueAt.simps(2) skipWs_visible)
  qed
  then show ?case by (simp add: readBack_def)
next
  case (5 xs)
  have "valueAt m (stringify (JArr xs) @ r) = Some (JArr xs, r)" if m: "length (stringify (JArr xs)) \<le> m" for m r
  proof -
    from m obtain k where k: "m = Suc k" by (cases m) auto
    show ?thesis
    proof (cases xs)
      case Nil
      then show ?thesis by (simp add: k valueAt.simps(2) skipWs_visible jsonSpace_def)
    next
      case (Cons y ys)
      obtain c cs where c: "stringify y = c # cs" "\<not> jsonSpace c" "c \<noteq> CHR '']''" using stringify_visible by blast
      have hd: "\<exists>t. joinComma (map stringify xs) = c # t" using c(1) Cons by (cases ys) auto
      have "elemsAt k (joinComma (map stringify xs) @ CHR '']'' # r) = Some (xs, r)"
        using 5 m k Cons by (intro elemsAt_join) (auto simp: list_all_iff)
      then show ?thesis using hd c by (auto simp: k valueAt.simps(2) skipWs_visible jsonSpace_def)
    qed
  qed
  then show ?case by (simp add: readBack_def)
next
  case (6 kvs)
  have members: "readBack v" if "(k, v) \<in> set kvs" for k v
    using 6(1) [OF that refl] 6(2) that by (auto simp: list_all_iff)
  have "valueAt m (stringify (JObj kvs) @ r) = Some (JObj kvs, r)" if m: "length (stringify (JObj kvs)) \<le> m" for m r
  proof -
    from m obtain k where k: "m = Suc k" by (cases m) auto
    show ?thesis
    proof (cases kvs)
      case Nil
      then show ?thesis by (simp add: k valueAt.simps(2) skipWs_visible jsonSpace_def)
    next
      case (Cons y ys)
      have hd: "\<exists>t. joinComma (map memberText kvs) = CHR 0x22 # t" using Cons by (cases ys) (auto simp: quoteStr_def split: prod.splits)
      have "membersAt k (joinComma (map memberText kvs) @ CHR ''}'' # r) = Some (kvs, r)"
        using members m k Cons by (intro membersAt_join) auto
      then show ?thesis using hd 6(2) by (auto simp: k valueAt.simps(2) skipWs_visible jsonSpace_def objOf_distinct)
    qed
  qed
  then show ?case by (simp add: readBack_def)
next
  case (4 s)
  have "valueAt m (stringify (JStr s) @ r) = Some (JStr s, r)" if m: "length (stringify (JStr s)) \<le> m" for m r
    using m by (cases m) (auto simp: quoteStr_def valueAt.simps(2) skipWs_visible jsonSpace_def strBody_quoted)
  then show ?case by (simp add: readBack_def)
next
  case 1
  have "valueAt m (''null'' @ r) = Some (JNull, r)" if "4 \<le> m" for m r
    using that by (cases m) (auto simp: valueAt.simps(2) skipWs_visible jsonSpace_def wordLit_def startsWith_def)
  then show ?case by (simp add: readBack_def)
next
  case (2 b)
  have "valueAt m ((if b then ''true'' else ''false'') @ r) = Some (JBool b, r)" if "4 \<le> m" for m r
    using that by (cases m) (auto simp: valueAt.simps(2) skipWs_visible jsonSpace_def wordLit_def startsWith_def)
  then show ?case by (auto simp: readBack_def)
qed

lemma jsonParse_stringify: "distinctKeys j \<Longrightarrow> jsonParse (stringify j) = Some j"
  using readBackD [OF readBack_all, of j "Suc (length (stringify j))" "[]"] by (simp add: jsonParse_def skipWs_def)

lemma jsonParse_line: "distinctKeys j \<Longrightarrow> jsonParse (stringify j @ [CHR 0x0A]) = Some j"
  using readBackD [OF readBack_all, of j "Suc (Suc (length (stringify j)))" "[CHR 0x0A]"]
  by (simp add: jsonParse_def skipWs_def jsonSpace_def endsNum_def decDigit_def)

text \<open>Note: \<open>JSON.parse\<close> reads back every value \<open>JSON.stringify\<close> wrote: strings with any characters, escapes included,
  integers of either sign and arrays and objects nested to any depth.\<close>

theorem json_read_back:
  assumes "distinctKeys j"
  shows "jsonParse (stringify j) = Some j"
  using assms by (rule jsonParse_stringify)

theorem json_read_back_witness:
  "jsonParse (stringify (JObj [(''a'', JArr [JNum (- 7), JNull]), ([CHR 0x0A], JStr [CHR 0x22, CHR 0x01])])) =
     Some (JObj [(''a'', JArr [JNum (- 7), JNull]), ([CHR 0x0A], JStr [CHR 0x22, CHR 0x01])])"
  by (rule json_read_back) simp

interpretation jp: json_codec jsonParse
  by unfold_locales (rule jsonParse_stringify jsonParse_line, assumption)+

section \<open>One record per line\<close>

text \<open>JSON text holds no line feed, so lines separate values.\<close>

lemma escapeChar_no_newline: "CHR 0x0A \<notin> set (escapeChar c)"
proof -
  have hex: "CHR 0x0A \<noteq> hexDigit n" if "n < 16" for n
  proof -
    have "(of_char (CHR 0x0A) :: nat) \<noteq> of_char (hexDigit n)" using that by (auto simp: hexDigit_def)
    then show ?thesis by (metis)
  qed
  have "c \<noteq> CHR 0x0A" if "(of_char c :: nat) \<noteq> 10" using that by auto
  then show ?thesis
    using hex [of "of_char c mod 16"] hex [of "of_char c div 16"] by (auto simp: escapeChar_def Let_def)
qed

lemma quoteStr_no_newline: "CHR 0x0A \<notin> set (quoteStr s)"
  using escapeChar_no_newline by (auto simp: quoteStr_def)

lemma joinComma_no_newline: "CHR 0x0A \<in> set (joinComma ss) \<longleftrightarrow> (\<exists>s\<in>set ss. CHR 0x0A \<in> set s)"
  by (induction ss rule: joinComma.induct) auto

lemma stringify_no_newline: "CHR 0x0A \<notin> set (stringify j)"
proof (induction j rule: stringify.induct)
  case (3 n)
  have "CHR 0x0A \<notin> set (showNat m)" for m using decDigit_showNat [of "CHR 0x0A" m] by (auto simp: decDigit_def)
  then show ?case by (auto simp: showInt_def)
next
  case (4 s)
  show ?case by (simp add: quoteStr_no_newline)
next
  case (5 xs)
  then show ?case by (auto simp: joinComma_no_newline)
next
  case (6 kvs)
  then show ?case by (auto simp: joinComma_no_newline quoteStr_no_newline)
qed auto

end
