(* ===== verification/AuditChain.thy ===== *)
theory AuditChain
  imports JsonText
begin

text \<open>
  The tamper-evident audit log: \<open>security/auditRedact.ts\<close> (blanked records and the markers that vouch for them),
  \<open>security/auditChain.ts\<close> (the genesis anchor and the two verifiers) and the archive order of
  \<open>security/logRotator.ts\<close>.

  \<open>sha\<close> is SHA-256 in hexadecimal and \<open>parse\<close> is \<open>JSON.parse\<close>; what a theorem needs of them is a hypothesis. A file is
  its text, \<open>None\<close> when it does not exist, and an archive the text it decompresses to, \<open>None\<close> when it cannot be read.
  The text of a \<open>reason\<close> is the constructor of a fault; \<open>VThrew\<close> is the \<open>TypeError\<close> of reading a property of \<open>null\<close>.
\<close>

section \<open>Records (\<open>security/audit.ts\<close>)\<close>

datatype AuditResult = AuditSuccess | DeniedByPolicy | DeniedByUser | AuditError

definition resultText :: "AuditResult \<Rightarrow> string" where
  "resultText r = (case r of AuditSuccess \<Rightarrow> ''success'' | DeniedByPolicy \<Rightarrow> ''denied-by-policy''
                   | DeniedByUser \<Rightarrow> ''denied-by-user'' | AuditError \<Rightarrow> ''error'')"

record AuditUser =
  auId :: string
  auRoles :: "string list"

record AuditEntry =
  aeTimestamp :: string
  aeActor :: AuditUser
  aeToolName :: string
  aeArgs :: "json option"
  aeResult :: AuditResult
  aeResultDetail :: "string option"
  aeApprovalId :: "string option"
  aeDurationMs :: int
  aePrevHash :: "string option"
  aeAnchorHash :: "string option"
  aeRotatedFrom :: "string option"

text \<open>An absent optional field is not written; \<open>rotatedFrom\<close> is set exactly on continuation records.\<close>

definition optField :: "string \<Rightarrow> json option \<Rightarrow> obj" where
  "optField k v = (case v of None \<Rightarrow> [] | Some x \<Rightarrow> [(k, x)])"

definition hashJson :: "string option \<Rightarrow> json" where
  "hashJson h = (case h of None \<Rightarrow> JNull | Some x \<Rightarrow> JStr x)"

definition actorJson :: "AuditUser \<Rightarrow> json" where
  "actorJson u = JObj [(''id'', JStr (auId u)), (''roles'', JArr (map JStr (auRoles u)))]"

definition entryJson :: "AuditEntry \<Rightarrow> json" where
  "entryJson e =
     JObj ([(''timestamp'', JStr (aeTimestamp e)), (''actor'', actorJson (aeActor e)), (''toolName'', JStr (aeToolName e))] @
           optField ''args'' (aeArgs e) @
           [(''result'', JStr (resultText (aeResult e)))] @
           optField ''resultDetail'' (map_option JStr (aeResultDetail e)) @
           optField ''approvalId'' (map_option JStr (aeApprovalId e)) @
           [(''durationMs'', JNum (aeDurationMs e)), (''prevHash'', hashJson (aePrevHash e))] @
           optField ''anchorHash'' (map_option JStr (aeAnchorHash e)) @
           (case aeRotatedFrom e of None \<Rightarrow> []
            | Some f \<Rightarrow> [(''kind'', JStr ''continuation''), (''rotatedFrom'', JStr f)]))"

section \<open>Properties of a parsed record\<close>

text \<open>\<open>e.k\<close> on a value that is not \<open>null\<close>, and \<open>e.k ?? null\<close>.\<close>

definition propOf :: "json \<Rightarrow> string \<Rightarrow> json option" where
  "propOf j k = (case j of JObj kvs \<Rightarrow> fld kvs k | _ \<Rightarrow> None)"

definition orNull :: "json \<Rightarrow> string \<Rightarrow> json" where
  "orNull j k = (case propOf j k of None \<Rightarrow> JNull | Some v \<Rightarrow> v)"

definition propStr :: "json \<Rightarrow> string \<Rightarrow> string option" where
  "propStr j k = (case propOf j k of Some (JStr s) \<Rightarrow> Some s | _ \<Rightarrow> None)"

section \<open>\<open>security/auditRedact.ts\<close>\<close>

definition REDACT_MARKER_TOOL :: string where
  "REDACT_MARKER_TOOL = ''audit.redacted''"

definition isHex64 :: "string \<Rightarrow> bool" where
  "isHex64 s = (length s = 64 \<and> list_all (\<lambda>c. List.member ''0123456789abcdef'' c) s)"

definition isRedactedEntry :: "json \<Rightarrow> bool" where
  "isRedactedEntry e =
     (case propOf e ''redacted'' of
        None \<Rightarrow> False
      | Some r \<Rightarrow>
          propStr r ''by'' = Some ''workspace-erase'' \<and> propStr r ''at'' \<noteq> None \<and> propStr r ''workspaceId'' \<noteq> None \<and>
          propStr r ''runId'' \<noteq> None \<and> propStr r ''runId'' \<noteq> Some [] \<and>
          (case propStr r ''origHash'' of None \<Rightarrow> False | Some h \<Rightarrow> isHex64 h))"

definition blockField :: "json \<Rightarrow> string \<Rightarrow> string" where
  "blockField e k = (case propStr (orNull e ''redacted'') k of None \<Rightarrow> [] | Some s \<Rightarrow> s)"

definition retainedDigest :: "(string \<Rightarrow> string) \<Rightarrow> json \<Rightarrow> string" where
  "retainedDigest sha e =
     sha (stringify (JArr (map (orNull e) [''timestamp'', ''toolName'', ''result'', ''durationMs'', ''prevHash'', ''anchorHash''])))"

definition stubObject :: "json \<Rightarrow> json \<Rightarrow> json" where
  "stubObject kept block =
     JObj (optField ''timestamp'' (propOf kept ''timestamp'') @
           [(''actor'', JObj [(''id'', JStr ''redacted''), (''roles'', JArr [])])] @
           optField ''toolName'' (propOf kept ''toolName'') @
           [(''args'', JObj [])] @
           optField ''result'' (propOf kept ''result'') @
           optField ''durationMs'' (propOf kept ''durationMs'') @
           [(''prevHash'', orNull kept ''prevHash'')] @
           (if truthy (propOf kept ''anchorHash'') then optField ''anchorHash'' (propOf kept ''anchorHash'') else []) @
           [(''redacted'', block)])"

record RedactMeta =
  rmAt :: string
  rmWorkspaceId :: string
  rmRunId :: string

definition redactBlock :: "RedactMeta \<Rightarrow> string \<Rightarrow> json" where
  "redactBlock meta origHash =
     JObj [(''at'', JStr (rmAt meta)), (''by'', JStr ''workspace-erase''), (''workspaceId'', JStr (rmWorkspaceId meta)),
           (''runId'', JStr (rmRunId meta)), (''origHash'', JStr origHash)]"

abbreviation nl :: char where
  "nl \<equiv> CHR 0x0A"

definition stubLine :: "(string \<Rightarrow> string) \<Rightarrow> json \<Rightarrow> string \<Rightarrow> RedactMeta \<Rightarrow> string" where
  "stubLine sha orig origLine meta = stringify (stubObject orig (redactBlock meta (sha (origLine @ [nl])))) @ [nl]"

definition redactionPair :: "(string \<Rightarrow> string) \<Rightarrow> json \<Rightarrow> string" where
  "redactionPair sha e = blockField e ''origHash'' @ CHR '':'' # retainedDigest sha e"

fun joinNl :: "string list \<Rightarrow> string" where
  "joinNl [] = []"
| "joinNl [s] = s"
| "joinNl (s # ss) = s @ nl # joinNl ss"

definition runDigest :: "(string \<Rightarrow> string) \<Rightarrow> string list \<Rightarrow> string" where
  "runDigest sha pairs = sha (joinNl (sort pairs))"

definition chainHashOfLine :: "(string \<Rightarrow> string) \<Rightarrow> (string \<Rightarrow> json option) \<Rightarrow> string \<Rightarrow> string" where
  "chainHashOfLine sha parse line =
     (if containsText (CHR 0x22 # ''redacted'' @ [CHR 0x22]) line then
        (case parse line of
           Some e \<Rightarrow> if isRedactedEntry e then blockField e ''origHash'' else sha (line @ [nl])
         | None \<Rightarrow> sha (line @ [nl]))
      else sha (line @ [nl]))"

definition isCanonicalStub :: "string \<Rightarrow> json \<Rightarrow> bool" where
  "isCanonicalStub line e = (line = stringify (stubObject e (orNull e ''redacted'')))"

record RedactRun =
  rrWorkspaceId :: string
  rrPairs :: "string list"

definition markerArgs :: "(string \<Rightarrow> string) \<Rightarrow> string \<Rightarrow> RedactRun \<Rightarrow> bool \<Rightarrow> json" where
  "markerArgs sha runId run recovered =
     JObj ([(''runId'', JStr runId), (''workspaceId'', JStr (rrWorkspaceId run)), (''count'', JNum (int (length (rrPairs run)))),
            (''digest'', JStr (runDigest sha (rrPairs run)))] @ (if recovered then [(''recovered'', JBool True)] else []))"

record RedactionTracker =
  rtPending :: "(string \<times> RedactRun) list"
  rtSeenMarkers :: "string list"
  rtStrict :: bool

definition newTracker :: "bool \<Rightarrow> RedactionTracker" where
  "newTracker strict = \<lparr>rtPending = [], rtSeenMarkers = [], rtStrict = strict\<rparr>"

datatype RedactFault =
    MalformedBlock
  | NotCanonical
  | AfterOwnMarker
  | OtherWorkspace
  | MalformedMarker
  | MarkerMismatch string
  | Unvouched nat

definition trackHash ::
  "(string \<Rightarrow> string) \<Rightarrow> RedactionTracker \<Rightarrow> string \<Rightarrow> json \<Rightarrow> RedactFault + (string \<times> RedactionTracker)" where
  "trackHash sha tr line e =
     (if propOf e ''redacted'' = None then Inr (sha (line @ [nl]), tr)
      else if \<not> isRedactedEntry e then Inl MalformedBlock
      else if \<not> isCanonicalStub line e then Inl NotCanonical
      else let runId = blockField e ''runId''
           in if List.member (rtSeenMarkers tr) runId then Inl AfterOwnMarker
              else let run = (case map_of (rtPending tr) runId of
                                Some r \<Rightarrow> r | None \<Rightarrow> \<lparr>rrWorkspaceId = blockField e ''workspaceId'', rrPairs = []\<rparr>)
                   in if rrWorkspaceId run \<noteq> blockField e ''workspaceId'' then Inl OtherWorkspace
                      else Inr (blockField e ''origHash'',
                                tr\<lparr>rtPending := AList.update runId (run\<lparr>rrPairs := rrPairs run @ [redactionPair sha e]\<rparr>) (rtPending tr)\<rparr>))"

definition trackNote :: "(string \<Rightarrow> string) \<Rightarrow> RedactionTracker \<Rightarrow> json \<Rightarrow> RedactFault + RedactionTracker" where
  "trackNote sha tr e =
     (if propOf e ''toolName'' \<noteq> Some (JStr REDACT_MARKER_TOOL) then Inr tr
      else let a = orNull e ''args''
           in if \<not> truthy (Some a) then Inl MalformedMarker
              else case propStr a ''runId'' of
                     None \<Rightarrow> Inl MalformedMarker
                   | Some runId \<Rightarrow>
                       let run = map_of (rtPending tr) runId;
                           pairs = (case run of None \<Rightarrow> [] | Some r \<Rightarrow> rrPairs r)
                       in if rtStrict tr \<and>
                             (propOf a ''count'' \<noteq> Some (JNum (int (length pairs))) \<or>
                              propOf a ''digest'' \<noteq> Some (JStr (runDigest sha pairs)) \<or>
                              (case run of None \<Rightarrow> False | Some r \<Rightarrow> propOf a ''workspaceId'' \<noteq> Some (JStr (rrWorkspaceId r))))
                          then Inl (MarkerMismatch runId)
                          else Inr (tr\<lparr>rtPending := AList.delete runId (rtPending tr),
                                       rtSeenMarkers := List.insert runId (rtSeenMarkers tr)\<rparr>))"

definition trackFinish :: "RedactionTracker \<Rightarrow> RedactFault option" where
  "trackFinish tr =
     (if rtPending tr = [] then None else Some (Unvouched (sum_list (map (\<lambda>(i, r). length (rrPairs r)) (rtPending tr)))))"

section \<open>Archives (\<open>security/logRotator.ts\<close>)\<close>

record Archive =
  arName :: string
  arMtime :: int
  arText :: "string option"

definition afterZ :: "string \<Rightarrow> (string \<times> string) option" where
  "afterZ stem =
     (let ds = takeWhile (\<lambda>c. decDigit c) (rev stem);
          front = drop (length ds) (rev stem)
      in case front of
           m # z # _ \<Rightarrow> if ds \<noteq> [] \<and> m = CHR ''-'' \<and> z = CHR ''Z'' then Some (rev (tl front), rev ds) else None
         | _ \<Rightarrow> None)"

definition parseArchiveName :: "string \<Rightarrow> string \<Rightarrow> string \<times> nat" where
  "parseArchiveName name base =
     (let rest = (if startsWith name (base @ ''.'') then drop (length base + 1) name else name);
          stem = (if endsWith rest ''.gz'' then take (length rest - 3) rest else rest)
      in case afterZ stem of Some (ts, n) \<Rightarrow> (ts, decVal n) | None \<Rightarrow> (stem, 0))"

text \<open>\<open>compareArchives\<close> compares the time of the file, then the timestamp of its name, then the collision suffix.\<close>

definition archiveKey :: "string \<Rightarrow> Archive \<Rightarrow> int \<times> string \<times> nat" where
  "archiveKey base a = (arMtime a, parseArchiveName (arName a) base)"

definition listRotatedArchives :: "string \<Rightarrow> Archive list \<Rightarrow> Archive list" where
  "listRotatedArchives base dir =
     sort_key (archiveKey base) (filter (\<lambda>a. startsWith (arName a) (base @ ''.'') \<and> endsWith (arName a) ''.gz'') dir)"

section \<open>\<open>security/auditChain.ts\<close>\<close>

definition AUDIT_READ_LIMIT :: nat where
  "AUDIT_READ_LIMIT = 25 * 1024 * 1024"

datatype ChainNote = LegacyGenesis | Anchored | Continued | LegacyHistory

datatype ChainFault =
    LogMissing
  | LogEmpty
  | LogTooLarge
  | BlankLine
  | MalformedJson
  | GenesisNotAnchored
  | LegacyGenesisNotNull
  | PrevHashMismatch
  | CannotGunzip string
  | NoAuditData
  | StartsWithContinuation
  | NotContinuation
  | ContinuityBroken
  | RedactFault RedactFault

record VerifyOk =
  okCount :: nat
  okNote :: "ChainNote option"
  okSegments :: "nat option"
  okContinuedFrom :: "json option"

datatype VerifyChainResult = VOk VerifyOk | VBroken int ChainFault | VThrew

record AuditFs =
  fsBase :: string
  fsLive :: "string option"
  fsAnchor :: "string option"
  fsDir :: "Archive list"

definition computeAnchorHash :: "(string \<Rightarrow> string) \<Rightarrow> json \<Rightarrow> string" where
  "computeAnchorHash sha anchor =
     sha (stringify (JObj (concat (map (\<lambda>k. optField k (propOf anchor k)) [''v'', ''algo'', ''nonce'', ''createdAt'', ''host'']))))"

definition readAnchor :: "(string \<Rightarrow> json option) \<Rightarrow> AuditFs \<Rightarrow> json option" where
  "readAnchor parse fs =
     (case fsAnchor fs of
        None \<Rightarrow> None
      | Some t \<Rightarrow>
          (case parse t of
             None \<Rightarrow> None
           | Some j \<Rightarrow> if propOf j ''v'' = Some (JNum 1) \<and> propStr j ''nonce'' \<noteq> None then Some j else None))"

text \<open>The minted anchor: the random nonce, the time and the host are what the runtime returned.\<close>

record Mint =
  mtNonce :: string
  mtCreatedAt :: string
  mtHost :: string
  mtCanWrite :: bool

definition mintedAnchor :: "Mint \<Rightarrow> json" where
  "mintedAnchor m =
     JObj [(''v'', JNum 1), (''algo'', JStr ''sha256''), (''nonce'', JStr (mtNonce m)), (''createdAt'', JStr (mtCreatedAt m)),
           (''host'', JStr (mtHost m))]"

definition ensureAnchor ::
  "(string \<Rightarrow> string) \<Rightarrow> (string \<Rightarrow> json option) \<Rightarrow> Mint \<Rightarrow> AuditFs \<Rightarrow> string option \<times> AuditFs" where
  "ensureAnchor sha parse m fs =
     (case readAnchor parse fs of
        Some j \<Rightarrow> (Some (computeAnchorHash sha j), fs)
      | None \<Rightarrow> if mtCanWrite m then
                  (Some (computeAnchorHash sha (mintedAnchor m)), fs\<lparr>fsAnchor := Some (stringify (mintedAnchor m))\<rparr>)
                else (None, fs))"

definition isContinuationEntry :: "json \<Rightarrow> bool" where
  "isContinuationEntry e = (propOf e ''kind'' = Some (JStr ''continuation''))"

definition listArchives :: "AuditFs \<Rightarrow> Archive list" where
  "listArchives fs = listRotatedArchives (fsBase fs) (fsDir fs)"

definition newestArchive :: "AuditFs \<Rightarrow> Archive option" where
  "newestArchive fs = (if listArchives fs = [] then None else Some (last (listArchives fs)))"

definition readTailHash :: "(string \<Rightarrow> string) \<Rightarrow> (string \<Rightarrow> json option) \<Rightarrow> AuditFs \<Rightarrow> string option" where
  "readTailHash sha parse fs =
     (case fsLive fs of
        None \<Rightarrow> None
      | Some t \<Rightarrow> map_option (chainHashOfLine sha parse) (find (\<lambda>l. l \<noteq> []) (rev (splitOn nl t))))"

definition splitLines :: "string \<Rightarrow> string list" where
  "splitLines t = (let lines = splitOn nl t in if last lines = [] then butlast lines else lines)"

text \<open>The checks of one record. \<open>Role\<close> says which of the three link rules applies to it.\<close>

datatype Role = Genesis | Boundary | Inner

type_synonym walk_state = "string option \<times> RedactionTracker"

definition checkRecord ::
  "(string \<Rightarrow> string) \<Rightarrow> (string \<Rightarrow> json option) \<Rightarrow> (json \<Rightarrow> string option \<Rightarrow> ChainFault option) \<Rightarrow> bool \<Rightarrow>
   nat \<Rightarrow> string \<Rightarrow> walk_state \<Rightarrow> VerifyChainResult + walk_state" where
  "checkRecord sha parse link noted i line w =
     (case w of
        (prev, tr) \<Rightarrow>
          if line = [] then Inl (VBroken (int i) BlankLine)
          else (case parse line of
                  None \<Rightarrow> Inl (VBroken (int i) MalformedJson)
                | Some e \<Rightarrow>
                    if e = JNull then Inl VThrew
                    else (case link e prev of
                            Some f \<Rightarrow> Inl (VBroken (int i) f)
                          | None \<Rightarrow>
                              (case trackHash sha tr line e of
                                 Inl f \<Rightarrow> Inl (VBroken (int i) (RedactFault f))
                               | Inr (h, tr1) \<Rightarrow>
                                   if \<not> noted then Inr (Some h, tr1)
                                   else (case trackNote sha tr1 e of
                                           Inl f \<Rightarrow> Inl (VBroken (int i) (RedactFault f))
                                         | Inr tr2 \<Rightarrow> Inr (Some h, tr2))))))"

definition innerLink :: "json \<Rightarrow> string option \<Rightarrow> ChainFault option" where
  "innerLink e prev = (if orNull e ''prevHash'' \<noteq> hashJson prev then Some PrevHashMismatch else None)"

fun innerLines ::
  "(string \<Rightarrow> string) \<Rightarrow> (string \<Rightarrow> json option) \<Rightarrow> nat \<Rightarrow> string list \<Rightarrow> walk_state \<Rightarrow> VerifyChainResult + walk_state" where
  "innerLines sha parse i [] w = Inr w"
| "innerLines sha parse i (l # ls) w =
     (case checkRecord sha parse innerLink True i l w of
        Inl r \<Rightarrow> Inl r
      | Inr w1 \<Rightarrow> innerLines sha parse (Suc i) ls w1)"

definition liveFirstLink :: "string option \<Rightarrow> json \<Rightarrow> string option \<Rightarrow> ChainFault option" where
  "liveFirstLink anchorHash e prev =
     (if isContinuationEntry e then None
      else case anchorHash of
             Some h \<Rightarrow> if orNull e ''prevHash'' \<noteq> JNull \<or> propOf e ''anchorHash'' \<noteq> Some (JStr h) then Some GenesisNotAnchored else None
           | None \<Rightarrow> if orNull e ''prevHash'' \<noteq> JNull then Some LegacyGenesisNotNull else None)"

definition liveNote :: "(string \<Rightarrow> json option) \<Rightarrow> bool \<Rightarrow> string \<Rightarrow> ChainNote \<times> json option" where
  "liveNote parse anchored first =
     (case parse first of
        Some e \<Rightarrow>
          if isContinuationEntry e
          then (Continued, if truthy (propOf e ''rotatedFrom'') then propOf e ''rotatedFrom'' else None)
          else (if anchored then Anchored else LegacyGenesis, None)
      | None \<Rightarrow> (if anchored then Anchored else LegacyGenesis, None))"

definition verifyLiveChain :: "(string \<Rightarrow> string) \<Rightarrow> (string \<Rightarrow> json option) \<Rightarrow> AuditFs \<Rightarrow> VerifyChainResult" where
  "verifyLiveChain sha parse fs =
     (let anchor = readAnchor parse fs;
          none = VOk \<lparr>okCount = 0, okNote = None, okSegments = None, okContinuedFrom = None\<rparr>
      in case fsLive fs of
           None \<Rightarrow> if anchor \<noteq> None then VBroken 0 LogMissing else none
         | Some t \<Rightarrow>
             if length t > AUDIT_READ_LIMIT then VBroken (- 1) LogTooLarge
             else if t = [] then (if anchor \<noteq> None then VBroken 0 LogEmpty else none)
             else (case splitLines t of
                     [] \<Rightarrow> VOk \<lparr>okCount = 0, okNote = Some (if anchor \<noteq> None then Anchored else LegacyGenesis), okSegments = None,
                                  okContinuedFrom = None\<rparr>
                   | l # ls \<Rightarrow>
                       (case checkRecord sha parse (liveFirstLink (map_option (computeAnchorHash sha) anchor)) False 0 l
                               (None, newTracker False) of
                          Inl r \<Rightarrow> r
                        | Inr w \<Rightarrow>
                            (case innerLines sha parse 1 ls w of
                               Inl r \<Rightarrow> r
                             | Inr (prev, tr) \<Rightarrow>
                                 (case trackFinish tr of
                                    Some f \<Rightarrow> VBroken (int (length ls)) (RedactFault f)
                                  | None \<Rightarrow> (case liveNote parse (anchor \<noteq> None) l of
                                               (note, from) \<Rightarrow>
                                                 VOk \<lparr>okCount = Suc (length ls), okNote = Some note, okSegments = None,
                                                      okContinuedFrom = from\<rparr>))))))"

definition historyLink :: "string option \<Rightarrow> Role \<Rightarrow> json \<Rightarrow> string option \<Rightarrow> ChainFault option" where
  "historyLink anchorHash role e prev =
     (case role of
        Genesis \<Rightarrow>
          (case anchorHash of
             None \<Rightarrow> None
           | Some h \<Rightarrow> if isContinuationEntry e then Some StartsWithContinuation
                       else if orNull e ''prevHash'' \<noteq> JNull \<or> propOf e ''anchorHash'' \<noteq> Some (JStr h) then Some GenesisNotAnchored
                       else None)
      | Boundary \<Rightarrow>
          (if anchorHash = None then None
           else if \<not> isContinuationEntry e then Some NotContinuation
           else if orNull e ''prevHash'' \<noteq> hashJson prev then Some ContinuityBroken else None)
      | Inner \<Rightarrow> innerLink e prev)"

definition segmentLines ::
  "(string \<Rightarrow> string) \<Rightarrow> (string \<Rightarrow> json option) \<Rightarrow> string option \<Rightarrow> Role \<Rightarrow> nat \<Rightarrow> string list \<Rightarrow> walk_state \<Rightarrow>
   VerifyChainResult + walk_state" where
  "segmentLines sha parse anchorHash role i ls w =
     (case ls of
        [] \<Rightarrow> Inr w
      | l # rest \<Rightarrow>
          (case checkRecord sha parse (historyLink anchorHash role) True i l w of
             Inl r \<Rightarrow> Inl r
           | Inr w1 \<Rightarrow> innerLines sha parse (Suc i) rest w1))"

fun laterSegments ::
  "(string \<Rightarrow> string) \<Rightarrow> (string \<Rightarrow> json option) \<Rightarrow> string option \<Rightarrow> nat \<Rightarrow> string list list \<Rightarrow> walk_state \<Rightarrow>
   VerifyChainResult + walk_state" where
  "laterSegments sha parse anchorHash i [] w = Inr w"
| "laterSegments sha parse anchorHash i (s # ss) w =
     (case segmentLines sha parse anchorHash Boundary i s w of
        Inl r \<Rightarrow> Inl r
      | Inr w1 \<Rightarrow> laterSegments sha parse anchorHash (i + length s) ss w1)"

definition walkSegments ::
  "(string \<Rightarrow> string) \<Rightarrow> (string \<Rightarrow> json option) \<Rightarrow> string option \<Rightarrow> string list list \<Rightarrow> VerifyChainResult + walk_state" where
  "walkSegments sha parse anchorHash segs =
     (case segs of
        [] \<Rightarrow> Inr (None, newTracker True)
      | s # ss \<Rightarrow>
          (case segmentLines sha parse anchorHash Genesis 0 s (None, newTracker True) of
             Inl r \<Rightarrow> Inl r
           | Inr w \<Rightarrow> laterSegments sha parse anchorHash (length s) ss w))"

fun archiveSegments :: "Archive list \<Rightarrow> VerifyChainResult + string list list" where
  "archiveSegments [] = Inr []"
| "archiveSegments (a # as) =
     (case arText a of
        None \<Rightarrow> Inl (VBroken (- 1) (CannotGunzip (arName a)))
      | Some t \<Rightarrow> (case archiveSegments as of
                    Inl r \<Rightarrow> Inl r
                  | Inr ss \<Rightarrow> Inr (if splitLines t = [] then ss else splitLines t # ss)))"

definition verifyChainWithHistory :: "(string \<Rightarrow> string) \<Rightarrow> (string \<Rightarrow> json option) \<Rightarrow> AuditFs \<Rightarrow> VerifyChainResult" where
  "verifyChainWithHistory sha parse fs =
     (let anchor = readAnchor parse fs
      in case archiveSegments (listArchives fs) of
           Inl r \<Rightarrow> r
         | Inr ss \<Rightarrow>
             if (case fsLive fs of None \<Rightarrow> False | Some t \<Rightarrow> length t > AUDIT_READ_LIMIT) then VBroken (- 1) LogTooLarge
             else let segs = ss @ (case fsLive fs of None \<Rightarrow> [] | Some t \<Rightarrow> if splitLines t = [] then [] else [splitLines t])
                  in if segs = [] then
                       (if anchor \<noteq> None then VBroken 0 NoAuditData
                        else VOk \<lparr>okCount = 0, okNote = None, okSegments = None, okContinuedFrom = None\<rparr>)
                     else (case walkSegments sha parse (map_option (computeAnchorHash sha) anchor) segs of
                             Inl r \<Rightarrow> r
                           | Inr (prev, tr) \<Rightarrow>
                               (case trackFinish tr of
                                  Some f \<Rightarrow> VBroken (int (length (concat segs)) - 1) (RedactFault f)
                                | None \<Rightarrow> VOk \<lparr>okCount = length (concat segs),
                                               okNote = Some (if anchor \<noteq> None then Anchored else LegacyHistory),
                                               okSegments = Some (length segs), okContinuedFrom = None\<rparr>)))"

end
