(* ===== verification/AuditWriter.thy ===== *)
theory AuditWriter
  imports AuditChain
begin

text \<open>
  The writer of the audit log (\<open>security/audit.ts\<close>), its rotation (\<open>security/logRotator.ts\<close>) and the blank-out of the
  records of a deleted workspace (\<open>engines/workspaceErase/auditEraser.ts\<close>), as operations on one state: the files, the
  chain head in memory, the queue of appends that have not reached the disk, the number of open exclusive sections and
  the calls parked by them. The user, the clock, random values and the answers of the file system are arguments. The
  exporter and the cleaning of its sidecar file are not modelled.
\<close>

section \<open>\<open>security/audit.ts\<close>\<close>

record LogCall =
  lcToolName :: string
  lcArgs :: "json option"
  lcResult :: AuditResult
  lcResultDetail :: "string option"
  lcApprovalId :: "string option"
  lcDurationMs :: int
  lcActor :: "AuditUser option"

record AuditLog =
  alFs :: AuditFs
  alLastHash :: "string option"
  alGate :: nat
  alParked :: "(LogCall \<times> AuditUser \<times> string) list"
  alQueue :: "string list"
  alPrefixes :: "string list"

definition newAuditLog :: "(string \<Rightarrow> string) \<Rightarrow> (string \<Rightarrow> json option) \<Rightarrow> string list \<Rightarrow> AuditFs \<Rightarrow> AuditLog" where
  "newAuditLog sha parse prefixes fs =
     (let fs1 = (if fsLive fs = None then fs\<lparr>fsLive := Some []\<rparr> else fs)
      in \<lparr>alFs = fs1, alLastHash = readTailHash sha parse fs1, alGate = 0, alParked = [], alQueue = [], alPrefixes = prefixes\<rparr>)"

definition isFileEmpty :: "AuditFs \<Rightarrow> bool" where
  "isFileEmpty fs = (fsLive fs = None \<or> fsLive fs = Some [])"

definition appendLive :: "string \<Rightarrow> AuditFs \<Rightarrow> AuditFs" where
  "appendLive s fs = fs\<lparr>fsLive := Some ((case fsLive fs of None \<Rightarrow> [] | Some t \<Rightarrow> t) @ s)\<rparr>"

definition appendEntry :: "(string \<Rightarrow> string) \<Rightarrow> bool \<Rightarrow> AuditEntry \<Rightarrow> AuditLog \<Rightarrow> AuditLog" where
  "appendEntry sha sync e st =
     (let serialized = stringify (entryJson e) @ [nl];
          st1 = st\<lparr>alLastHash := Some (sha serialized)\<rparr>
      in if sync then st1\<lparr>alFs := appendLive serialized (alFs st1)\<rparr> else st1\<lparr>alQueue := alQueue st1 @ [serialized]\<rparr>)"

definition stampedEntry :: "LogCall \<Rightarrow> AuditUser \<Rightarrow> string \<Rightarrow> string option \<Rightarrow> string option \<Rightarrow> AuditEntry" where
  "stampedEntry c actor timestamp prevHash anchorHash =
     \<lparr>aeTimestamp = timestamp, aeActor = actor, aeToolName = lcToolName c, aeArgs = lcArgs c, aeResult = lcResult c,
      aeResultDetail = lcResultDetail c, aeApprovalId = lcApprovalId c, aeDurationMs = lcDurationMs c, aePrevHash = prevHash,
      aeAnchorHash = anchorHash, aeRotatedFrom = None\<rparr>"

definition stampAndAppend ::
  "(string \<Rightarrow> string) \<Rightarrow> (string \<Rightarrow> json option) \<Rightarrow> Mint \<Rightarrow> LogCall \<Rightarrow> AuditUser \<Rightarrow> string \<Rightarrow> AuditLog \<Rightarrow> AuditLog" where
  "stampAndAppend sha parse m c actor timestamp st =
     (let (anchorHash, fs) = (if alLastHash st = None \<and> isFileEmpty (alFs st) then ensureAnchor sha parse m (alFs st)
                              else (None, alFs st))
      in appendEntry sha False (stampedEntry c actor timestamp (alLastHash st) anchorHash) (st\<lparr>alFs := fs\<rparr>))"

definition logEntry ::
  "(string \<Rightarrow> string) \<Rightarrow> (string \<Rightarrow> json option) \<Rightarrow> Mint \<Rightarrow> AuditUser \<Rightarrow> string \<Rightarrow> LogCall \<Rightarrow> AuditLog \<Rightarrow> AuditLog" where
  "logEntry sha parse m user timestamp c st =
     (if alPrefixes st \<noteq> [] \<and> \<not> list_ex (startsWith (lcToolName c)) (alPrefixes st) then st
      else let actor = (case lcActor c of None \<Rightarrow> user | Some a \<Rightarrow> a)
           in if alGate st > 0 then st\<lparr>alParked := alParked st @ [(c, actor, timestamp)]\<rparr>
              else stampAndAppend sha parse m c actor timestamp st)"

text \<open>One queued append reaches the disk, or fails and is dropped.\<close>

definition landAppend :: "bool \<Rightarrow> AuditLog \<Rightarrow> AuditLog" where
  "landAppend ok st =
     (case alQueue st of
        [] \<Rightarrow> st
      | s # rest \<Rightarrow> st\<lparr>alQueue := rest, alFs := (if ok then appendLive s (alFs st) else alFs st)\<rparr>)"

text \<open>\<open>runExclusive\<close>: the gate opens, the section runs once the queue has landed, and the last section to end replays
  the parked calls.\<close>

definition enterExclusive :: "AuditLog \<Rightarrow> AuditLog" where
  "enterExclusive st = st\<lparr>alGate := alGate st + 1\<rparr>"

definition resyncHead :: "(string \<Rightarrow> string) \<Rightarrow> (string \<Rightarrow> json option) \<Rightarrow> AuditLog \<Rightarrow> AuditLog" where
  "resyncHead sha parse st =
     st\<lparr>alLastHash := (case readTailHash sha parse (alFs st) of Some h \<Rightarrow> Some h | None \<Rightarrow> alLastHash st)\<rparr>"

definition leaveExclusive :: "(string \<Rightarrow> string) \<Rightarrow> (string \<Rightarrow> json option) \<Rightarrow> Mint \<Rightarrow> AuditLog \<Rightarrow> AuditLog" where
  "leaveExclusive sha parse m st =
     (let st1 = st\<lparr>alGate := alGate st - 1\<rparr>
      in if alGate st1 = 0 then
           fold (\<lambda>(c, actor, ts). stampAndAppend sha parse m c actor ts) (alParked st1)
             ((resyncHead sha parse st1)\<lparr>alParked := []\<rparr>)
         else st1)"

text \<open>The \<open>append\<close> of the handle given to a section.\<close>

definition handleAppend ::
  "(string \<Rightarrow> string) \<Rightarrow> (string \<Rightarrow> json option) \<Rightarrow> AuditUser \<Rightarrow> string \<Rightarrow> LogCall \<Rightarrow> AuditLog \<Rightarrow> AuditLog" where
  "handleAppend sha parse user timestamp c st =
     appendEntry sha True
       (stampedEntry c user timestamp
          (case readTailHash sha parse (alFs st) of Some h \<Rightarrow> Some h | None \<Rightarrow> alLastHash st) None) st"

definition continuationEntry :: "AuditUser \<Rightarrow> string \<Rightarrow> string \<Rightarrow> string option \<Rightarrow> AuditEntry" where
  "continuationEntry user timestamp archive prevHash =
     \<lparr>aeTimestamp = timestamp, aeActor = user, aeToolName = ''audit:rotation-continuation'',
      aeArgs = Some (JObj [(''rotatedFrom'', JStr archive)]), aeResult = AuditSuccess, aeResultDetail = None,
      aeApprovalId = None, aeDurationMs = 0, aePrevHash = prevHash, aeAnchorHash = None, aeRotatedFrom = Some archive\<rparr>"

definition writeContinuation :: "(string \<Rightarrow> string) \<Rightarrow> AuditUser \<Rightarrow> string \<Rightarrow> bool \<Rightarrow> AuditLog \<Rightarrow> AuditLog" where
  "writeContinuation sha user timestamp sync st =
     (if \<not> isFileEmpty (alFs st) \<or> alLastHash st = None then st
      else case newestArchive (alFs st) of
             None \<Rightarrow> st
           | Some a \<Rightarrow> appendEntry sha sync (continuationEntry user timestamp (arName a) (alLastHash st)) st)"

definition parsedLines :: "(string \<Rightarrow> json option) \<Rightarrow> string list \<Rightarrow> json list" where
  "parsedLines parse ls = concat (map (\<lambda>l. case parse l of None \<Rightarrow> [] | Some e \<Rightarrow> [e]) ls)"

definition tailEntries :: "(string \<Rightarrow> json option) \<Rightarrow> nat \<Rightarrow> AuditFs \<Rightarrow> json list" where
  "tailEntries parse n fs =
     (case fsLive fs of
        None \<Rightarrow> []
      | Some t \<Rightarrow>
          if length t > AUDIT_READ_LIMIT then []
          else let ls = filter (\<lambda>l. l \<noteq> []) (splitOn nl t) in parsedLines parse (drop (length ls - n) ls))"

section \<open>\<open>security/logRotator.ts\<close>\<close>

record RotateOptions =
  roMaxBytes :: nat
  roMaxAgeDays :: int
  roRetainCount :: nat

definition rotateDefaults :: RotateOptions where
  "rotateDefaults = \<lparr>roMaxBytes = 10 * 1024 * 1024, roMaxAgeDays = 7, roRetainCount = 30\<rparr>"

definition MAX_ARCHIVE_SUFFIX :: nat where
  "MAX_ARCHIVE_SUFFIX = 100"

definition archiveName :: "string \<Rightarrow> string \<Rightarrow> nat \<Rightarrow> string" where
  "archiveName base timestamp n = base @ ''.'' @ timestamp @ (if n = 0 then [] else CHR ''-'' # showNat n) @ ''.gz''"

definition writeArchiveExclusive :: "string \<Rightarrow> string \<Rightarrow> Archive list \<Rightarrow> string option" where
  "writeArchiveExclusive base timestamp dir =
     find (\<lambda>name. \<not> List.member (map arName dir) name) (map (archiveName base timestamp) [0..<Suc MAX_ARCHIVE_SUFFIX])"

text \<open>\<open>liveMtime\<close> is the time of the live file, \<open>timestamp\<close> the text of \<open>nowMs\<close> in a name and \<open>mtime\<close> the time the new
  archive gets.\<close>

definition rotateIfNeeded :: "RotateOptions \<Rightarrow> ms \<Rightarrow> ms \<Rightarrow> string \<Rightarrow> int \<Rightarrow> AuditFs \<Rightarrow> AuditFs" where
  "rotateIfNeeded opts nowMs liveMtime timestamp mtime fs =
     (case fsLive fs of
        None \<Rightarrow> fs
      | Some t \<Rightarrow>
          if length t > roMaxBytes opts \<or> nowMs - liveMtime > roMaxAgeDays opts * 24 * 60 * 60 * 1000 then
            (case writeArchiveExclusive (fsBase fs) timestamp (fsDir fs) of
               None \<Rightarrow> fs
             | Some name \<Rightarrow>
                 let fs1 = fs\<lparr>fsDir := fsDir fs @ [\<lparr>arName = name, arMtime = mtime, arText = Some t\<rparr>], fsLive := Some []\<rparr>;
                     doomed = drop (roRetainCount opts) (rev (listArchives fs1))
                 in fs1\<lparr>fsDir := filter (\<lambda>a. \<not> List.member (map arName doomed) (arName a)) (fsDir fs1)\<rparr>)
          else fs)"

definition rotateSection ::
  "(string \<Rightarrow> string) \<Rightarrow> (string \<Rightarrow> json option) \<Rightarrow> (AuditFs \<Rightarrow> AuditFs) \<Rightarrow> AuditUser \<Rightarrow> string \<Rightarrow> AuditLog \<Rightarrow> AuditLog" where
  "rotateSection sha parse rot user timestamp st =
     (let st1 = resyncHead sha parse st
      in writeContinuation sha user timestamp True (st1\<lparr>alFs := rot (alFs st1)\<rparr>))"

section \<open>Matching (\<open>security/auditRedact.ts\<close>)\<close>

record NameInterval =
  niFrom :: "string option"
  niTo :: "string option"

record MatchTarget =
  mtId :: string
  mtName :: string
  mtCreated :: "string option"
  mtDeletedAt :: string
  mtOthers :: "NameInterval list"
  mtGraceMs :: "int option"

datatype Classification = Match | Ambiguous | NoMatch

text \<open>\<open>Date.parse\<close> is the parameter \<open>date\<close>, \<open>None\<close> for \<open>NaN\<close>, which no comparison accepts.\<close>

definition withinSpan :: "(string \<Rightarrow> int option) \<Rightarrow> int \<Rightarrow> string option \<Rightarrow> string option \<Rightarrow> int \<Rightarrow> bool" where
  "withinSpan date t lo hi graceMs =
     ((case lo of None \<Rightarrow> True | Some s \<Rightarrow> (case date s of None \<Rightarrow> False | Some x \<Rightarrow> t \<ge> x)) \<and>
      (case hi of None \<Rightarrow> True | Some s \<Rightarrow> (case date s of None \<Rightarrow> False | Some x \<Rightarrow> t \<le> x + graceMs)))"

text \<open>\<open>None\<close> is the \<open>TypeError\<close> of \<open>startsWith\<close> on a tool name that is not a string.\<close>

definition claimedNames :: "json \<Rightarrow> string list option" where
  "claimedNames e =
     (case orNull e ''args'' of
        JObj a \<Rightarrow>
          (let named = concat (map (\<lambda>f. case strFld a f of None \<Rightarrow> [] | Some s \<Rightarrow> [s]) [''workspace'', ''oldName'', ''newName''])
           in case propStr e ''toolName'' of
                None \<Rightarrow> None
              | Some tool \<Rightarrow> Some (named @ (if startsWith tool ''workspaces.'' then
                                              (case strFld a ''name'' of None \<Rightarrow> [] | Some s \<Rightarrow> [s]) else [])))
      | JArr a \<Rightarrow> (if propStr e ''toolName'' = None then None else Some [])
      | _ \<Rightarrow> Some [])"

definition classifyEntry :: "(string \<Rightarrow> int option) \<Rightarrow> json \<Rightarrow> MatchTarget \<Rightarrow> Classification option" where
  "classifyEntry date e t =
     (if propOf e ''redacted'' \<noteq> None \<or> isContinuationEntry e \<or> propOf e ''toolName'' = Some (JStr REDACT_MARKER_TOOL) then Some NoMatch
      else let argsText = stringify (if orNull e ''args'' = JNull then JObj [] else orNull e ''args'')
           in if length (mtId t) \<ge> 8 \<and> containsText (mtId t) argsText then Some Match
              else case claimedNames e of
                     None \<Rightarrow> None
                   | Some names \<Rightarrow>
                       if \<not> List.member names (mtName t) then Some NoMatch
                       else case (case propOf e ''timestamp'' of Some (JStr s) \<Rightarrow> date s | Some (JNum n) \<Rightarrow> date (showInt n) | _ \<Rightarrow> None) of
                              None \<Rightarrow> Some Ambiguous
                            | Some ts \<Rightarrow>
                                if \<not> withinSpan date ts (mtCreated t) (Some (mtDeletedAt t))
                                       (case mtGraceMs t of None \<Rightarrow> 60000 | Some g \<Rightarrow> g) then Some NoMatch
                                else if list_ex (\<lambda>iv. withinSpan date ts (niFrom iv) (niTo iv) 0) (mtOthers t) then Some Ambiguous
                                else Some Match)"

section \<open>\<open>engines/workspaceErase/auditEraser.ts\<close>\<close>

definition MAX_FILE_BYTES :: nat where
  "MAX_FILE_BYTES = 256 * 1024 * 1024"

record FilePlan =
  fpName :: "string option"
  fpNewText :: "string option"
  fpPairs :: "string list"
  fpMatched :: nat
  fpAmbiguous :: nat

text \<open>A file of the audit log is the live one (\<open>None\<close>) or an archive by name; \<open>gzLen\<close> is the size of a compressed text.\<close>

definition readLines :: "(string \<Rightarrow> nat) \<Rightarrow> AuditFs \<Rightarrow> string option \<Rightarrow> string list option" where
  "readLines gzLen fs file =
     (case file of
        None \<Rightarrow>
          (case fsLive fs of None \<Rightarrow> None | Some t \<Rightarrow> if length t > MAX_FILE_BYTES then None else Some (splitLines t))
      | Some name \<Rightarrow>
          (case find (\<lambda>a. arName a = name) (fsDir fs) of
             None \<Rightarrow> None
           | Some a \<Rightarrow> (case arText a of None \<Rightarrow> None
                        | Some t \<Rightarrow> if gzLen t > MAX_FILE_BYTES then None else Some (splitLines t))))"

record LineScan =
  lsOut :: "string list"
  lsPairs :: "string list"
  lsMatched :: nat
  lsAmbiguous :: nat
  lsRuns :: "(string \<times> RedactRun) list"
  lsMarkers :: "string list"

definition addRun :: "(string \<Rightarrow> string) \<Rightarrow> json \<Rightarrow> (string \<times> RedactRun) list \<Rightarrow> (string \<times> RedactRun) list" where
  "addRun sha e runs =
     (let runId = blockField e ''runId'';
          r = (case map_of runs runId of Some r \<Rightarrow> r | None \<Rightarrow> \<lparr>rrWorkspaceId = blockField e ''workspaceId'', rrPairs = []\<rparr>)
      in AList.update runId (r\<lparr>rrPairs := rrPairs r @ [redactionPair sha e]\<rparr>) runs)"

definition noteMarker :: "json \<Rightarrow> string list \<Rightarrow> string list" where
  "noteMarker e markers =
     (if propOf e ''toolName'' = Some (JStr REDACT_MARKER_TOOL) then
        (case propStr (orNull e ''args'') ''runId'' of Some i \<Rightarrow> List.insert i markers | None \<Rightarrow> markers)
      else markers)"

definition scanLine ::
  "(string \<Rightarrow> string) \<Rightarrow> (string \<Rightarrow> json option) \<Rightarrow> (string \<Rightarrow> int option) \<Rightarrow> MatchTarget \<Rightarrow> RedactMeta \<Rightarrow> string \<Rightarrow> LineScan \<Rightarrow>
   LineScan option" where
  "scanLine sha parse date t meta line s =
     (case (case parse line of Some (JObj kvs) \<Rightarrow> Some (JObj kvs) | Some (JArr xs) \<Rightarrow> Some (JArr xs) | _ \<Rightarrow> None) of
        None \<Rightarrow> Some (s\<lparr>lsOut := lsOut s @ [line]\<rparr>)
      | Some e \<Rightarrow>
          if isRedactedEntry e then Some (s\<lparr>lsRuns := addRun sha e (lsRuns s), lsOut := lsOut s @ [line]\<rparr>)
          else let s1 = s\<lparr>lsMarkers := noteMarker e (lsMarkers s)\<rparr>
               in case classifyEntry date e t of
                    None \<Rightarrow> None
                  | Some NoMatch \<Rightarrow> Some (s1\<lparr>lsOut := lsOut s1 @ [line]\<rparr>)
                  | Some Ambiguous \<Rightarrow> Some (s1\<lparr>lsAmbiguous := lsAmbiguous s1 + 1, lsOut := lsOut s1 @ [line]\<rparr>)
                  | Some Match \<Rightarrow>
                      (let stub = stubLine sha e line meta
                       in case parse stub of
                            None \<Rightarrow> None
                          | Some e1 \<Rightarrow> Some (s1\<lparr>lsMatched := lsMatched s1 + 1, lsPairs := lsPairs s1 @ [redactionPair sha e1],
                                               lsOut := lsOut s1 @ [butlast stub]\<rparr>)))"

fun scanLines ::
  "(string \<Rightarrow> string) \<Rightarrow> (string \<Rightarrow> json option) \<Rightarrow> (string \<Rightarrow> int option) \<Rightarrow> MatchTarget \<Rightarrow> RedactMeta \<Rightarrow> string list \<Rightarrow>
   LineScan \<Rightarrow> LineScan option" where
  "scanLines sha parse date t meta [] s = Some s"
| "scanLines sha parse date t meta (l # ls) s =
     (case scanLine sha parse date t meta l s of None \<Rightarrow> None | Some s1 \<Rightarrow> scanLines sha parse date t meta ls s1)"

record Scan =
  scPlans :: "FilePlan list"
  scRuns :: "(string \<times> RedactRun) list"
  scMarkers :: "string list"
  scLiveHasTail :: bool
  scProblems :: nat

definition emptyScan :: Scan where
  "emptyScan = \<lparr>scPlans = [], scRuns = [], scMarkers = [], scLiveHasTail = False, scProblems = 0\<rparr>"

definition scanFile ::
  "(string \<Rightarrow> string) \<Rightarrow> (string \<Rightarrow> json option) \<Rightarrow> (string \<Rightarrow> int option) \<Rightarrow> (string \<Rightarrow> nat) \<Rightarrow> AuditFs \<Rightarrow> MatchTarget \<Rightarrow> RedactMeta \<Rightarrow>
   string option \<Rightarrow> Scan \<Rightarrow> Scan option" where
  "scanFile sha parse date gzLen fs t meta file sc =
     (case readLines gzLen fs file of
        None \<Rightarrow> Some (sc\<lparr>scProblems := scProblems sc + 1\<rparr>)
      | Some ls \<Rightarrow>
          (case scanLines sha parse date t meta ls
                  \<lparr>lsOut = [], lsPairs = [], lsMatched = 0, lsAmbiguous = 0, lsRuns = scRuns sc, lsMarkers = scMarkers sc\<rparr> of
             None \<Rightarrow> None
           | Some s \<Rightarrow>
               Some (sc\<lparr>scPlans := scPlans sc @
                           [\<lparr>fpName = file, fpNewText = (if lsMatched s > 0 then Some (joinNl (lsOut s) @ [nl]) else None),
                             fpPairs = lsPairs s, fpMatched = lsMatched s, fpAmbiguous = lsAmbiguous s\<rparr>],
                         scRuns := lsRuns s, scMarkers := lsMarkers s,
                         scLiveHasTail := scLiveHasTail sc \<or> (file = None \<and> ls \<noteq> [])\<rparr>)))"

fun scanFiles ::
  "(string \<Rightarrow> string) \<Rightarrow> (string \<Rightarrow> json option) \<Rightarrow> (string \<Rightarrow> int option) \<Rightarrow> (string \<Rightarrow> nat) \<Rightarrow> AuditFs \<Rightarrow> MatchTarget \<Rightarrow> RedactMeta \<Rightarrow>
   string option list \<Rightarrow> Scan \<Rightarrow> Scan option" where
  "scanFiles sha parse date gzLen fs t meta [] sc = Some sc"
| "scanFiles sha parse date gzLen fs t meta (f # files) sc =
     (case scanFile sha parse date gzLen fs t meta f sc of
        None \<Rightarrow> None
      | Some sc1 \<Rightarrow> scanFiles sha parse date gzLen fs t meta files sc1)"

definition orphanRuns :: "Scan \<Rightarrow> (string \<times> RedactRun) list" where
  "orphanRuns sc = filter (\<lambda>(i, r). \<not> List.member (scMarkers sc) i) (scRuns sc)"

text \<open>Replacing a file; an archive keeps its name and time.\<close>

definition rewriteFile :: "string option \<Rightarrow> string \<Rightarrow> AuditFs \<Rightarrow> AuditFs" where
  "rewriteFile file newText fs =
     (case file of
        None \<Rightarrow> fs\<lparr>fsLive := Some newText\<rparr>
      | Some name \<Rightarrow> fs\<lparr>fsDir := map (\<lambda>a. if arName a = name then a\<lparr>arText := Some newText\<rparr> else a) (fsDir fs)\<rparr>)"

text \<open>\<open>rewriteOk\<close> is what the file system answered: the file was unchanged since it was read and the rename succeeded.\<close>

fun rewriteAll :: "(string option \<Rightarrow> bool) \<Rightarrow> FilePlan list \<Rightarrow> AuditFs \<times> string list \<times> nat \<Rightarrow> AuditFs \<times> string list \<times> nat" where
  "rewriteAll rewriteOk [] acc = acc"
| "rewriteAll rewriteOk (p # ps) (fs, pairs, problems) =
     (case fpNewText p of
        None \<Rightarrow> rewriteAll rewriteOk ps (fs, pairs, problems)
      | Some txt \<Rightarrow>
          if rewriteOk (fpName p) then rewriteAll rewriteOk ps (rewriteFile (fpName p) txt fs, pairs @ fpPairs p, problems)
          else rewriteAll rewriteOk ps (fs, pairs, problems + 1))"

definition markerCall :: "json \<Rightarrow> LogCall" where
  "markerCall args =
     \<lparr>lcToolName = REDACT_MARKER_TOOL, lcArgs = Some args, lcResult = AuditSuccess, lcResultDetail = None, lcApprovalId = None,
      lcDurationMs = 0, lcActor = None\<rparr>"

text \<open>The markers of a run: recovered ones for runs that a crash left without one, then its own.\<close>

definition runMarkers :: "(string \<Rightarrow> string) \<Rightarrow> (string \<times> RedactRun) list \<Rightarrow> string \<Rightarrow> string \<Rightarrow> string list \<Rightarrow> json list" where
  "runMarkers sha orphans runId workspaceId pairs =
     map (\<lambda>(i, r). markerArgs sha i r True) orphans @
     (if pairs = [] then [] else [markerArgs sha runId \<lparr>rrWorkspaceId = workspaceId, rrPairs = pairs\<rparr> False])"

definition appendMarker ::
  "(string \<Rightarrow> string) \<Rightarrow> (string \<Rightarrow> json option) \<Rightarrow> AuditUser \<Rightarrow> string \<Rightarrow> json \<Rightarrow> AuditLog \<Rightarrow> AuditLog" where
  "appendMarker sha parse user timestamp args st = handleAppend sha parse user timestamp (markerCall args) st"

datatype EraseStatus = EraseComplete | ErasePartial | EraseNotApplicable | EraseUnverifiable

record EraseStepResult =
  esStatus :: EraseStatus
  esRemoved :: nat
  esRemaining :: nat
  esAmbiguous :: nat

definition eraseStep :: "EraseStatus \<Rightarrow> nat \<Rightarrow> nat \<Rightarrow> nat \<Rightarrow> EraseStepResult" where
  "eraseStep s removed remaining ambiguous = \<lparr>esStatus = s, esRemoved = removed, esRemaining = remaining, esAmbiguous = ambiguous\<rparr>"

text \<open>The files \<open>erase\<close> looks at: every archive and the live file, listed before the writer is quiesced.\<close>

definition eraseFiles :: "AuditFs \<Rightarrow> string option list" where
  "eraseFiles fs = map (\<lambda>a. Some (arName a)) (listArchives fs) @ (if fsLive fs = None then [] else [None])"

text \<open>The section of \<open>erase\<close> under the quiesced writer. \<open>appendsOk\<close> is how many markers could be appended before the file
  system failed; a run whose marker is missing stays unvouched until the next call.\<close>

definition eraseSection ::
  "(string \<Rightarrow> string) \<Rightarrow> (string \<Rightarrow> json option) \<Rightarrow> (string \<Rightarrow> int option) \<Rightarrow> (string \<Rightarrow> nat) \<Rightarrow> (string option \<Rightarrow> bool) \<Rightarrow> nat \<Rightarrow>
   AuditUser \<Rightarrow> string \<Rightarrow> string option list \<Rightarrow> MatchTarget \<Rightarrow> string \<Rightarrow> string \<Rightarrow> AuditLog \<Rightarrow> EraseStepResult \<times> AuditLog" where
  "eraseSection sha parse date gzLen rewriteOk appendsOk user timestamp files t runId at' st =
     (case scanFiles sha parse date gzLen (alFs st) t \<lparr>rmAt = at', rmWorkspaceId = mtId t, rmRunId = runId\<rparr> files emptyScan of
        None \<Rightarrow> (eraseStep ErasePartial 0 0 0, st)
      | Some sc \<Rightarrow>
          let matched = sum_list (map fpMatched (scPlans sc));
              ambiguous = sum_list (map fpAmbiguous (scPlans sc))
          in if (matched > 0 \<or> orphanRuns sc \<noteq> []) \<and> \<not> scLiveHasTail sc then (eraseStep ErasePartial 0 matched 0, st)
             else (case rewriteAll rewriteOk (scPlans sc) (alFs st, [], scProblems sc) of
                     (fs, pairs, problems) \<Rightarrow>
                       let blanked = length pairs;
                           markers = runMarkers sha (orphanRuns sc) runId (mtId t) pairs;
                           st1 = fold (appendMarker sha parse user timestamp) (take appendsOk markers) (st\<lparr>alFs := fs\<rparr>)
                       in (if appendsOk < length markers \<or> problems > 0 \<or> matched > blanked
                           then eraseStep ErasePartial blanked (matched - blanked) 0
                           else if ambiguous > 0 then eraseStep EraseUnverifiable blanked 0 ambiguous
                           else eraseStep EraseComplete blanked 0 0, st1)))"

end
