(* ===== verification/AuditProps.thy ===== *)
theory AuditProps
  imports AuditWriter
begin

text \<open>
  The verifiers of the audit log on files of well-formed records: the walk of a verifier over lines is a walk over the records
  they hold (\<open>recWalk\<close>), in the locale \<open>audit_env\<close> of a JSON codec and a hash with 64 hex digits; what a blanked record keeps of the
  link of its original; and that blanking records changes a walk only by the run it adds to the tracker.
\<close>

section \<open>Records and the walk of the verifier\<close>

definition recordOk :: "json \<Rightarrow> bool" where
  "recordOk j \<longleftrightarrow> distinctKeys j \<and> (\<exists>kvs. j = JObj kvs)"

definition recStep ::
  "(string \<Rightarrow> string) \<Rightarrow> (Role \<Rightarrow> json \<Rightarrow> string option \<Rightarrow> ChainFault option) \<Rightarrow> (Role \<Rightarrow> bool) \<Rightarrow> Role \<times> json \<Rightarrow> walk_state \<Rightarrow>
   walk_state option" where
  "recStep sha link noted x w =
     (if link (fst x) (snd x) (fst w) \<noteq> None then None
      else case trackHash sha (snd w) (stringify (snd x)) (snd x) of
             Inl f \<Rightarrow> None
           | Inr (h, tr1) \<Rightarrow>
               if \<not> noted (fst x) then Some (Some h, tr1)
               else (case trackNote sha tr1 (snd x) of Inl f \<Rightarrow> None | Inr tr2 \<Rightarrow> Some (Some h, tr2)))"

fun recWalk ::
  "(string \<Rightarrow> string) \<Rightarrow> (Role \<Rightarrow> json \<Rightarrow> string option \<Rightarrow> ChainFault option) \<Rightarrow> (Role \<Rightarrow> bool) \<Rightarrow> (Role \<times> json) list \<Rightarrow> walk_state \<Rightarrow>
   walk_state option" where
  "recWalk sha link noted [] w = Some w"
| "recWalk sha link noted (x # xs) w =
     (case recStep sha link noted x w of None \<Rightarrow> None | Some w1 \<Rightarrow> recWalk sha link noted xs w1)"

lemma recWalk_append:
  "recWalk sha link noted (xs @ ys) w = (case recWalk sha link noted xs w of None \<Rightarrow> None | Some w1 \<Rightarrow> recWalk sha link noted ys w1)"
  by (induction xs arbitrary: w) (auto split: option.splits)

lemma recWalk_snoc:
  "recWalk sha link noted (xs @ [x]) w = (case recWalk sha link noted xs w of None \<Rightarrow> None | Some w1 \<Rightarrow> recStep sha link noted x w1)"
  by (auto simp: recWalk_append split: option.splits)

fun tagSeg :: "Role \<Rightarrow> 'a list \<Rightarrow> (Role \<times> 'a) list" where
  "tagSeg r [] = []"
| "tagSeg r (x # xs) = (r, x) # map (Pair Inner) xs"

fun tagAll :: "'a list list \<Rightarrow> (Role \<times> 'a) list" where
  "tagAll [] = []"
| "tagAll (s # ss) = tagSeg Genesis s @ concat (map (tagSeg Boundary) ss)"

abbreviation always :: "Role \<Rightarrow> bool" where
  "always \<equiv> \<lambda>_. True"

definition liveLink :: "string option \<Rightarrow> Role \<Rightarrow> json \<Rightarrow> string option \<Rightarrow> ChainFault option" where
  "liveLink ah r = (if r = Genesis then liveFirstLink ah else innerLink)"

lemma tagSeg_snoc: "s \<noteq> [] \<Longrightarrow> tagSeg r (s @ [x]) = tagSeg r s @ [(Inner, x)]"
  by (cases s) auto

lemma tagAll_snoc_seg: "ss \<noteq> [] \<Longrightarrow> tagAll (ss @ [s]) = tagAll ss @ tagSeg Boundary s"
  by (cases ss) auto

lemma map_snd_tagSeg [simp]: "map snd (tagSeg r s) = s"
  by (cases s) (auto simp: comp_def)

lemma tagSeg_map: "tagSeg r (map f s) = map (apsnd f) (tagSeg r s)"
  by (cases s) auto

lemma tagAll_map: "tagAll (map (map f) ss) = map (apsnd f) (tagAll ss)"
  by (cases ss) (auto simp: tagSeg_map map_concat comp_def)

lemma map_snd_tagAll [simp]: "map snd (tagAll ss) = concat ss"
  by (cases ss) (auto simp: map_concat comp_def)

locale audit_env = json_codec parse for parse +
  fixes sha :: "string \<Rightarrow> string"
  assumes sha_hex: "isHex64 (sha s)"
begin

lemma parse_record: "recordOk j \<Longrightarrow> parse (stringify j) = Some j"
  by (simp add: recordOk_def parse_stringify)

lemma record_text: "recordOk j \<Longrightarrow> stringify j \<noteq> [] \<and> j \<noteq> JNull"
  by (auto simp: recordOk_def)

lemma checkRecord_rec:
  assumes "recordOk j"
  shows "checkRecord sha parse (link r) (noted r) i (stringify j) w = Inr w1 \<longleftrightarrow> recStep sha link noted (r, j) w = Some w1"
  using parse_record [OF assms] record_text [OF assms]
  by (auto simp: checkRecord_def recStep_def split: prod.splits option.splits sum.splits)

lemma innerLines_rec:
  assumes "list_all recordOk js" "link Inner = innerLink" "noted Inner"
  shows "innerLines sha parse i (map stringify js) w = Inr w1 \<longleftrightarrow> recWalk sha link noted (map (Pair Inner) js) w = Some w1"
  using assms(1)
proof (induction js arbitrary: i w)
  case (Cons j js)
  then have "recordOk j" by simp
  then have step: "checkRecord sha parse innerLink True i (stringify j) w = Inr w1 \<longleftrightarrow> recStep sha link noted (Inner, j) w = Some w1" for w1
    using checkRecord_rec [of j link Inner noted i w w1] assms(2,3) by simp
  show ?case
  proof (cases "recStep sha link noted (Inner, j) w")
    case None
    then have "checkRecord sha parse innerLink True i (stringify j) w \<noteq> Inr w1" for w1 using step by simp
    then show ?thesis using None by (simp split: sum.splits)
  next
    case (Some w2)
    then have "checkRecord sha parse innerLink True i (stringify j) w = Inr w2" using step by simp
    then show ?thesis using Some Cons by simp
  qed
qed auto

lemma segmentLines_rec:
  assumes "list_all recordOk js"
  shows "segmentLines sha parse ah r i (map stringify js) w = Inr w1 \<longleftrightarrow> recWalk sha (historyLink ah) always (tagSeg r js) w = Some w1"
proof (cases js)
  case (Cons j rest)
  then have ok: "recordOk j" "list_all recordOk rest" using assms by auto
  have inner: "historyLink ah Inner = innerLink" by (simp add: historyLink_def fun_eq_iff)
  show ?thesis
  proof (cases "recStep sha (historyLink ah) always (r, j) w")
    case None
    then have "checkRecord sha parse (historyLink ah r) True i (stringify j) w \<noteq> Inr w1" for w1
      using checkRecord_rec [OF ok(1), of "historyLink ah" r always] by simp
    then show ?thesis using None Cons by (simp add: segmentLines_def split: sum.splits)
  next
    case (Some w2)
    then have "checkRecord sha parse (historyLink ah r) True i (stringify j) w = Inr w2"
      using checkRecord_rec [OF ok(1), of "historyLink ah" r always] by simp
    then show ?thesis using Some Cons innerLines_rec [of rest "historyLink ah" always] ok(2) inner by (simp add: segmentLines_def)
  qed
qed (simp add: segmentLines_def)

lemma laterSegments_rec:
  assumes "list_all (list_all recordOk) ss"
  shows "laterSegments sha parse ah i (map (map stringify) ss) w = Inr w1 \<longleftrightarrow>
         recWalk sha (historyLink ah) always (concat (map (tagSeg Boundary) ss)) w = Some w1"
  using assms
proof (induction ss arbitrary: i w)
  case (Cons s ss)
  then have s: "list_all recordOk s" by simp
  show ?case
  proof (cases "recWalk sha (historyLink ah) always (tagSeg Boundary s) w")
    case None
    then have "segmentLines sha parse ah Boundary i (map stringify s) w \<noteq> Inr w2" for w2 using segmentLines_rec [OF s] by simp
    then show ?thesis using None by (simp add: recWalk_append split: sum.splits)
  next
    case (Some w2)
    then have "segmentLines sha parse ah Boundary i (map stringify s) w = Inr w2" using segmentLines_rec [OF s] by simp
    then show ?thesis using Some Cons by (simp add: recWalk_append)
  qed
qed auto

lemma walkSegments_rec:
  assumes "list_all (list_all recordOk) ss"
  shows "walkSegments sha parse ah (map (map stringify) ss) = Inr w1 \<longleftrightarrow>
         recWalk sha (historyLink ah) always (tagAll ss) (None, newTracker True) = Some w1"
proof (cases ss)
  case (Cons s rest)
  then have s: "list_all recordOk s" and rest: "list_all (list_all recordOk) rest" using assms by auto
  show ?thesis
  proof (cases "recWalk sha (historyLink ah) always (tagSeg Genesis s) (None, newTracker True)")
    case None
    then have "segmentLines sha parse ah Genesis 0 (map stringify s) (None, newTracker True) \<noteq> Inr w2" for w2
      using segmentLines_rec [OF s] by simp
    then show ?thesis using None Cons by (simp add: walkSegments_def recWalk_append split: sum.splits)
  next
    case (Some w2)
    then have "segmentLines sha parse ah Genesis 0 (map stringify s) (None, newTracker True) = Inr w2"
      using segmentLines_rec [OF s] by simp
    then show ?thesis using Some Cons laterSegments_rec [OF rest] by (simp add: walkSegments_def recWalk_append)
  qed
qed (auto simp: walkSegments_def)

end

section \<open>Text of a file\<close>

definition textOf :: "json list \<Rightarrow> string" where
  "textOf js = concat (map (\<lambda>j. stringify j @ [nl]) js)"

lemma splitOn_cut: "c \<notin> set l \<Longrightarrow> splitOn c (l @ c # t) = l # splitOn c t"
  by (induction l) auto

lemma splitOn_textOf: "splitOn nl (textOf js) = map stringify js @ [[]]"
  using stringify_no_newline by (induction js) (auto simp: textOf_def splitOn_cut)

lemma splitLines_textOf: "splitLines (textOf js) = map stringify js"
  by (simp add: splitLines_def splitOn_textOf)

lemma textOf_Nil [simp]: "textOf [] = []"
  by (simp add: textOf_def)

lemma textOf_eq_Nil [simp]: "textOf js = [] \<longleftrightarrow> js = []"
  by (cases js) (auto simp: textOf_def)

lemma textOf_append: "textOf (xs @ ys) = textOf xs @ textOf ys"
  by (simp add: textOf_def)

lemma joinNl_textOf: "js \<noteq> [] \<Longrightarrow> joinNl (map stringify js) @ [nl] = textOf js"
  by (induction js rule: induct_list012) (auto simp: textOf_def)

lemma containsText_iff: "containsText s t \<longleftrightarrow> (\<exists>u v. t = u @ s @ v)"
proof (induction t)
  case (Cons c t)
  have "take (length s) (c # t) = s \<longleftrightarrow> (\<exists>v. c # t = s @ v)" by (metis append_eq_conv_conj append_take_drop_id)
  moreover have "(\<exists>u v. c # t = u @ s @ v) \<longleftrightarrow> (\<exists>v. c # t = s @ v) \<or> (\<exists>u v. t = u @ s @ v)"
    by (metis append_Cons append_Nil append_eq_Cons_conv)
  ultimately show ?case using Cons by simp
qed auto

lemma joinComma_infix: "s \<in> set ss \<Longrightarrow> \<exists>u v. joinComma ss = u @ s @ v"
proof (induction ss rule: joinComma.induct)
  case (2 s1)
  then have "joinComma [s1] = [] @ s @ []" by simp
  then show ?case by blast
next
  case (3 s1 s2 ss)
  show ?case
  proof (cases "s = s1")
    case True
    then have "joinComma (s1 # s2 # ss) = [] @ s @ (CHR '','' # joinComma (s2 # ss))" by simp
    then show ?thesis by blast
  next
    case False
    with 3 obtain u v where "joinComma (s2 # ss) = u @ s @ v" by auto
    then have "joinComma (s1 # s2 # ss) = (s1 @ CHR '','' # u) @ s @ v" by simp
    then show ?thesis by blast
  qed
qed simp

lemma quote_redacted: "quoteStr ''redacted'' = CHR 0x22 # ''redacted'' @ [CHR 0x22]"
  by (simp add: quoteStr_def escapeChar_def)

lemma stringify_contains_redacted:
  assumes "propOf j ''redacted'' \<noteq> None"
  shows "containsText (CHR 0x22 # ''redacted'' @ [CHR 0x22]) (stringify j)"
proof -
  obtain kvs v where j: "j = JObj kvs" and v: "map_of kvs ''redacted'' = Some v"
    using assms by (cases j) (auto simp: propOf_def fld_def)
  have "memberText (''redacted'', v) \<in> set (map memberText kvs)" using map_of_SomeD [OF v] by force
  from joinComma_infix [OF this]
  obtain u w where "joinComma (map memberText kvs) = u @ (quoteStr ''redacted'' @ CHR '':'' # stringify v) @ w" by auto
  then have "stringify j = (CHR ''{'' # u) @ quoteStr ''redacted'' @ (CHR '':'' # stringify v @ w @ ''}'')" by (simp add: j)
  then show ?thesis unfolding containsText_iff quote_redacted by blast
qed

context audit_env
begin

text \<open>The hash a record contributes to the chain, to the verifier and to the writer alike.\<close>

definition chainHash :: "json \<Rightarrow> string" where
  "chainHash j = (if propOf j ''redacted'' = None then sha (stringify j @ [nl]) else blockField j ''origHash'')"

lemma chainHashOfLine_record:
  assumes "recordOk j" "propOf j ''redacted'' = None \<or> isRedactedEntry j"
  shows "chainHashOfLine sha parse (stringify j) = chainHash j"
proof (cases "propOf j ''redacted'' = None")
  case True
  then have "\<not> isRedactedEntry j" by (simp add: isRedactedEntry_def)
  then show ?thesis using True parse_record [OF assms(1)] by (simp add: chainHashOfLine_def chainHash_def)
next
  case False
  then obtain r where r: "propOf j ''redacted'' = Some r" by auto
  then have "isRedactedEntry j" using assms(2) by simp
  then show ?thesis using parse_record [OF assms(1)] stringify_contains_redacted [OF False] r
    by (simp add: chainHashOfLine_def chainHash_def)
qed

lemma recStep_hash:
  assumes "recStep sha link noted x w = Some w1"
  shows "fst w1 = Some (chainHash (snd x))" "propOf (snd x) ''redacted'' = None \<or> isRedactedEntry (snd x)"
  using assms by (auto simp: recStep_def trackHash_def chainHash_def Let_def split: if_splits sum.splits option.splits)

lemma recWalk_hash:
  assumes "recWalk sha link noted xs w = Some w1" "xs \<noteq> []"
  shows "fst w1 = Some (chainHash (snd (last xs)))"
proof -
  obtain ys y where xs: "xs = ys @ [y]" using assms(2) by (metis rev_exhaust)
  then obtain w2 where "recStep sha link noted y w2 = Some w1" using assms(1) by (auto simp: recWalk_snoc split: option.splits)
  then show ?thesis using xs recStep_hash by simp
qed

lemma recWalk_kinds:
  "recWalk sha link noted xs w = Some w1 \<Longrightarrow> x \<in> set xs \<Longrightarrow> propOf (snd x) ''redacted'' = None \<or> isRedactedEntry (snd x)"
  by (induction xs arbitrary: w) (auto dest: recStep_hash(2) split: option.splits)

lemma readTailHash_textOf:
  assumes "fsLive fs = Some (textOf js)" "list_all recordOk js" "list_all (\<lambda>j. propOf j ''redacted'' = None \<or> isRedactedEntry j) js"
  shows "readTailHash sha parse fs = (if js = [] then None else Some (chainHash (last js)))"
proof (cases js rule: rev_cases)
  case Nil
  then show ?thesis using assms by (simp add: readTailHash_def)
next
  case (snoc ys y)
  then show ?thesis using assms record_text [of y] chainHashOfLine_record [of y]
    by (simp add: readTailHash_def splitOn_textOf)
qed

end

section \<open>Blanked records\<close>

lemma propOf_JObj [simp]: "propOf (JObj kvs) k = map_of kvs k"
  by (simp add: propOf_def fld_def)

lemma map_of_optField [simp]: "map_of (optField k v) x = (if x = k then v else None)"
  by (simp add: optField_def split: option.splits)

lemma mem_optField [simp]: "(x, y) \<in> set (optField k v) \<longleftrightarrow> x = k \<and> v = Some y"
  by (auto simp: optField_def split: option.splits)

lemma map_of_app: "map_of (xs @ ys) k = (case map_of xs k of None \<Rightarrow> map_of ys k | Some v \<Rightarrow> Some v)"
  by (simp add: map_add_def split: option.splits)

lemma option_case_id [simp]: "(case v of None \<Rightarrow> None | Some x \<Rightarrow> Some x) = v"
  by (simp split: option.splits)

lemma propOf_stub:
  "propOf (stubObject k b) ''redacted'' = Some b"
  "propOf (stubObject k b) ''toolName'' = propOf k ''toolName''"
  "propOf (stubObject k b) ''timestamp'' = propOf k ''timestamp''"
  "propOf (stubObject k b) ''result'' = propOf k ''result''"
  "propOf (stubObject k b) ''durationMs'' = propOf k ''durationMs''"
  "propOf (stubObject k b) ''prevHash'' = Some (orNull k ''prevHash'')"
  "propOf (stubObject k b) ''anchorHash'' = (if truthy (propOf k ''anchorHash'') then propOf k ''anchorHash'' else None)"
  "propOf (stubObject k b) ''kind'' = None"
  by (simp_all add: stubObject_def map_of_app del: map_of_append cong: option.case_cong)

lemma stubObject_cong:
  assumes "\<And>k. k \<in> {''timestamp'', ''toolName'', ''result'', ''durationMs''} \<Longrightarrow> propOf s k = propOf j k"
    "orNull s ''prevHash'' = orNull j ''prevHash''"
    "propOf s ''anchorHash'' = (if truthy (propOf j ''anchorHash'') then propOf j ''anchorHash'' else None)"
  shows "stubObject s b = stubObject j b"
  using assms by (simp add: stubObject_def)

lemma stub_stub: "stubObject (stubObject k b) b = stubObject k b"
  by (rule stubObject_cong) (auto simp: propOf_stub orNull_def)

lemma distinctKeys_propOf: "distinctKeys j \<Longrightarrow> propOf j k = Some v \<Longrightarrow> distinctKeys v"
  by (cases j) (auto simp: list_all_iff propOf_def fld_def dest!: map_of_SomeD)

lemma distinctKeys_optField [simp]: "list_all (\<lambda>(k, v). distinctKeys v) (optField k v) \<longleftrightarrow> (\<forall>x. v = Some x \<longrightarrow> distinctKeys x)"
  by (simp add: optField_def split: option.splits)

lemma distinct_optField [simp]: "distinct (map fst (optField k v))" "x \<in> fst ` set (optField k v) \<longleftrightarrow> v \<noteq> None \<and> x = k"
  by (auto simp: optField_def split: option.splits)

lemma recordOk_stub:
  assumes "recordOk k" "distinctKeys b"
  shows "recordOk (stubObject k b)"
proof -
  have "distinctKeys v" if "propOf k x = Some v" for x v using assms(1) that distinctKeys_propOf by (auto simp: recordOk_def)
  moreover from this have "distinctKeys (orNull k ''prevHash'')" by (auto simp: orNull_def split: option.splits)
  ultimately show ?thesis using assms(2) by (auto simp: recordOk_def stubObject_def)
qed

definition plainRecord :: "json \<Rightarrow> bool" where
  "plainRecord j \<longleftrightarrow> propOf j ''redacted'' = None \<and> \<not> isContinuationEntry j \<and> propOf j ''toolName'' \<noteq> Some (JStr REDACT_MARKER_TOOL)"

definition mentionsRun :: "string \<Rightarrow> json \<Rightarrow> bool" where
  "mentionsRun i j \<longleftrightarrow>
     isRedactedEntry j \<and> blockField j ''runId'' = i \<or>
     propOf j ''toolName'' = Some (JStr REDACT_MARKER_TOOL) \<and> propStr (orNull j ''args'') ''runId'' = Some i"

text \<open>Two trackers that differ in the pairs of one run that neither has a marker for.\<close>

definition extraRun :: "string \<Rightarrow> string \<Rightarrow> string list \<Rightarrow> RedactionTracker \<Rightarrow> RedactionTracker \<Rightarrow> bool" where
  "extraRun i ws ps tr tr' \<longleftrightarrow>
     rtStrict tr' = rtStrict tr \<and> rtSeenMarkers tr' = rtSeenMarkers tr \<and> i \<notin> set (rtSeenMarkers tr) \<and>
     map_of (rtPending tr) i = None \<and>
     map_of (rtPending tr') = (map_of (rtPending tr))(i := if ps = [] then None else Some \<lparr>rrWorkspaceId = ws, rrPairs = ps\<rparr>)"

lemma trackHash_extra:
  assumes "trackHash sha tr l j = Inr (h, tr1)" "extraRun i ws ps tr tr'" "\<not> mentionsRun i j"
  shows "\<exists>tr1'. trackHash sha tr' l j = Inr (h, tr1') \<and> extraRun i ws ps tr1 tr1'"
proof (cases "propOf j ''redacted''")
  case None
  then show ?thesis using assms by (simp add: trackHash_def)
next
  case (Some b)
  let ?r = "blockField j ''runId''"
  have "isRedactedEntry j" using assms(1) Some by (simp add: trackHash_def split: if_splits)
  then have ne: "?r \<noteq> i" using assms(3) by (auto simp: mentionsRun_def)
  then have "map_of (rtPending tr') ?r = map_of (rtPending tr) ?r" using assms(2) by (simp add: extraRun_def)
  then show ?thesis
    using assms(1,2) Some ne by (auto simp: trackHash_def extraRun_def Let_def update_conv' fun_upd_twist split: if_splits)
qed

lemma trackNote_extra:
  assumes "trackNote sha tr j = Inr tr1" "extraRun i ws ps tr tr'" "\<not> mentionsRun i j"
  shows "\<exists>tr1'. trackNote sha tr' j = Inr tr1' \<and> extraRun i ws ps tr1 tr1'"
proof (cases "propOf j ''toolName'' = Some (JStr REDACT_MARKER_TOOL)")
  case False
  then show ?thesis using assms by (simp add: trackNote_def)
next
  case True
  obtain r where r: "propStr (orNull j ''args'') ''runId'' = Some r"
    using assms(1) True by (auto simp: trackNote_def Let_def split: if_splits option.splits)
  then have ne: "r \<noteq> i" using assms(3) True by (auto simp: mentionsRun_def)
  have same: "map_of (rtPending tr') r = map_of (rtPending tr) r" "rtStrict tr' = rtStrict tr"
    using assms(2) ne by (simp_all add: extraRun_def)
  let ?del = "\<lambda>t. t\<lparr>rtPending := AList.delete r (rtPending t), rtSeenMarkers := List.insert r (rtSeenMarkers t)\<rparr>"
  have tr1: "tr1 = ?del tr" using assms(1) True r by (auto simp: trackNote_def Let_def split: if_splits)
  have "trackNote sha tr' j = Inr (?del tr')" using assms(1) True r same by (auto simp: trackNote_def Let_def split: if_splits)
  moreover have "extraRun i ws ps (?del tr) (?del tr')"
    using assms(2) ne by (auto simp: extraRun_def delete_conv' fun_upd_twist)
  ultimately show ?thesis using tr1 by blast
qed

lemma recStep_extra:
  assumes "recStep sha link noted x (prev, tr) = Some (p1, tr1)" "extraRun i ws ps tr tr'" "\<not> mentionsRun i (snd x)"
  shows "\<exists>tr1'. recStep sha link noted x (prev, tr') = Some (p1, tr1') \<and> extraRun i ws ps tr1 tr1'"
proof -
  obtain h t where h: "trackHash sha tr (stringify (snd x)) (snd x) = Inr (h, t)" "p1 = Some h" "link (fst x) (snd x) prev = None"
    using assms(1) by (auto simp: recStep_def split: if_splits sum.splits)
  obtain t' where t': "trackHash sha tr' (stringify (snd x)) (snd x) = Inr (h, t')" "extraRun i ws ps t t'"
    using trackHash_extra [OF h(1) assms(2,3)] by blast
  show ?thesis
  proof (cases "noted (fst x)")
    case False
    then show ?thesis using assms(1) h t' by (auto simp: recStep_def)
  next
    case True
    then have "trackNote sha t (snd x) = Inr tr1" using assms(1) h by (auto simp: recStep_def split: sum.splits)
    from trackNote_extra [OF this t'(2) assms(3)] show ?thesis using True h t' by (auto simp: recStep_def)
  qed
qed

definition stubOf :: "(string \<Rightarrow> string) \<Rightarrow> RedactMeta \<Rightarrow> json \<Rightarrow> json" where
  "stubOf sha meta j = stubObject j (redactBlock meta (sha (stringify j @ [nl])))"

lemma distinctKeys_redactBlock [simp]: "distinctKeys (redactBlock meta h)"
  by (simp add: redactBlock_def)

lemma blockField_stubOf [simp]:
  "blockField (stubOf sha meta j) ''runId'' = rmRunId meta"
  "blockField (stubOf sha meta j) ''workspaceId'' = rmWorkspaceId meta"
  "blockField (stubOf sha meta j) ''origHash'' = sha (stringify j @ [nl])"
  by (simp_all add: blockField_def stubOf_def orNull_def propOf_stub propStr_def redactBlock_def)

definition keepsLink :: "(string \<Rightarrow> string) \<Rightarrow> (Role \<Rightarrow> json \<Rightarrow> string option \<Rightarrow> ChainFault option) \<Rightarrow> bool" where
  "keepsLink sha link \<longleftrightarrow>
     (\<forall>r j prev meta. plainRecord j \<longrightarrow> link r j prev = None \<longrightarrow> link r (stubOf sha meta j) prev = None)"

lemma orNull_stubOf: "orNull (stubOf sha meta j) ''prevHash'' = orNull j ''prevHash''"
  by (simp add: orNull_def stubOf_def propOf_stub)

lemma anchor_stubOf: "propOf j ''anchorHash'' = Some (JStr h) \<Longrightarrow> h \<noteq> [] \<Longrightarrow> propOf (stubOf sha meta j) ''anchorHash'' = Some (JStr h)"
  by (simp add: stubOf_def propOf_stub)

lemma not_continuation_stubOf [simp]: "\<not> isContinuationEntry (stubOf sha meta j)"
  by (simp add: isContinuationEntry_def stubOf_def propOf_stub)

lemma keepsLink_history: "ah \<noteq> Some [] \<Longrightarrow> keepsLink sha (historyLink ah)"
  by (auto simp: keepsLink_def historyLink_def innerLink_def plainRecord_def orNull_stubOf anchor_stubOf
      split: Role.splits option.splits if_splits)

lemma keepsLink_live: "ah \<noteq> Some [] \<Longrightarrow> keepsLink sha (liveLink ah)"
  by (auto simp: keepsLink_def liveLink_def liveFirstLink_def innerLink_def plainRecord_def orNull_stubOf anchor_stubOf
      split: option.splits if_splits)

lemma plain_mentions_none: "plainRecord j \<Longrightarrow> \<not> mentionsRun i j"
  by (auto simp: plainRecord_def mentionsRun_def isRedactedEntry_def)

context audit_env
begin

lemma isRedacted_stubOf: "rmRunId meta \<noteq> [] \<Longrightarrow> isRedactedEntry (stubOf sha meta j)"
  using sha_hex by (simp add: isRedactedEntry_def stubOf_def propOf_stub propStr_def redactBlock_def)

lemma recordOk_stubOf: "recordOk j \<Longrightarrow> recordOk (stubOf sha meta j)"
  by (simp add: stubOf_def recordOk_stub)

lemma canonical_stubOf: "isCanonicalStub (stringify (stubOf sha meta j)) (stubOf sha meta j)"
  by (simp add: isCanonicalStub_def stubOf_def orNull_def propOf_stub stub_stub)

lemma recStep_blank:
  assumes "recStep sha link noted (r, j) (prev, tr) = Some (p1, tr1)" "extraRun (rmRunId meta) (rmWorkspaceId meta) ps tr tr'"
    "plainRecord j" "rmRunId meta \<noteq> []" "keepsLink sha link"
  shows "\<exists>tr1'. recStep sha link noted (r, stubOf sha meta j) (prev, tr') = Some (p1, tr1') \<and>
           extraRun (rmRunId meta) (rmWorkspaceId meta) (ps @ [redactionPair sha (stubOf sha meta j)]) tr1 tr1'"
proof -
  let ?i = "rmRunId meta" and ?s = "stubOf sha meta j" and ?h = "sha (stringify j @ [nl])"
  have redNone: "propOf j ''redacted'' = None" using assms(3) by (simp add: plainRecord_def)
  have red: "propOf ?s ''redacted'' = Some (redactBlock meta ?h)" by (simp add: stubOf_def propOf_stub)
  have tool: "propOf ?s ''toolName'' = propOf j ''toolName''" by (simp add: stubOf_def propOf_stub)
  have link: "link r j prev = None" and step: "p1 = Some ?h" "tr1 = tr"
    using assms(1,3) redNone by (auto simp: recStep_def trackHash_def trackNote_def plainRecord_def split: if_splits)
  have link': "link r ?s prev = None" using assms(3,5) link by (simp add: keepsLink_def)
  have pend: "map_of (rtPending tr') ?i = (if ps = [] then None else Some \<lparr>rrWorkspaceId = rmWorkspaceId meta, rrPairs = ps\<rparr>)"
    using assms(2) by (simp add: extraRun_def)
  let ?tr = "tr'\<lparr>rtPending := AList.update ?i \<lparr>rrWorkspaceId = rmWorkspaceId meta, rrPairs = ps @ [redactionPair sha ?s]\<rparr> (rtPending tr')\<rparr>"
  have "?i \<notin> set (rtSeenMarkers tr')" using assms(2) by (simp add: extraRun_def)
  then have "trackHash sha tr' (stringify ?s) ?s = Inr (?h, ?tr)"
    using red isRedacted_stubOf [OF assms(4)] canonical_stubOf pend by (simp add: trackHash_def Let_def)
  moreover have "trackNote sha t ?s = Inr t" for t using tool assms(3) by (simp add: trackNote_def plainRecord_def)
  ultimately have "recStep sha link noted (r, ?s) (prev, tr') = Some (p1, ?tr)" using link' step by (simp add: recStep_def)
  moreover have "extraRun ?i (rmWorkspaceId meta) (ps @ [redactionPair sha ?s]) tr1 ?tr"
    using assms(2) step(2) by (simp add: extraRun_def update_conv')
  ultimately show ?thesis by blast
qed

definition blankIf :: "RedactMeta \<Rightarrow> bool \<times> json \<Rightarrow> json" where
  "blankIf meta x = (if fst x then stubOf sha meta (snd x) else snd x)"

definition blankPairs :: "RedactMeta \<Rightarrow> (bool \<times> json) list \<Rightarrow> string list" where
  "blankPairs meta xs = map (\<lambda>x. redactionPair sha (stubOf sha meta (snd x))) (filter fst xs)"

lemma recWalk_blank:
  assumes "recWalk sha link noted (map (apsnd snd) xs) (prev, tr) = Some (p1, tr1)"
    "extraRun (rmRunId meta) (rmWorkspaceId meta) ps tr tr'" "rmRunId meta \<noteq> []" "keepsLink sha link"
    "\<And>b j. (b, j) \<in> snd ` set xs \<Longrightarrow> \<not> mentionsRun (rmRunId meta) j \<and> (b \<longrightarrow> plainRecord j)"
  shows "\<exists>tr1'. recWalk sha link noted (map (apsnd (blankIf meta)) xs) (prev, tr') = Some (p1, tr1') \<and>
           extraRun (rmRunId meta) (rmWorkspaceId meta) (ps @ blankPairs meta (map snd xs)) tr1 tr1'"
  using assms(1,2,5)
proof (induction xs arbitrary: prev tr tr' ps)
  case Nil
  then show ?case by (auto simp: blankPairs_def)
next
  case (Cons x xs)
  obtain b r j where x: "x = (r, b, j)" by (cases x) auto
  obtain p2 tr2 where s: "recStep sha link noted (r, j) (prev, tr) = Some (p2, tr2)"
    "recWalk sha link noted (map (apsnd snd) xs) (p2, tr2) = Some (p1, tr1)"
    using Cons.prems(1) x by (auto split: option.splits)
  have "\<exists>tr2'. recStep sha link noted (r, blankIf meta (b, j)) (prev, tr') = Some (p2, tr2') \<and>
          extraRun (rmRunId meta) (rmWorkspaceId meta) (ps @ blankPairs meta [(b, j)]) tr2 tr2'"
  proof (cases b)
    case True
    then have "plainRecord j" using Cons.prems(3) x by force
    from recStep_blank [OF s(1) Cons.prems(2) this assms(3,4)] show ?thesis using True by (simp add: blankIf_def blankPairs_def)
  next
    case False
    have "\<not> mentionsRun (rmRunId meta) (snd (r, j))" using Cons.prems(3) x by force
    from recStep_extra [OF s(1) Cons.prems(2) this] show ?thesis using False by (simp add: blankIf_def blankPairs_def)
  qed
  then obtain tr2' where t: "recStep sha link noted (r, blankIf meta (b, j)) (prev, tr') = Some (p2, tr2')"
    "extraRun (rmRunId meta) (rmWorkspaceId meta) (ps @ blankPairs meta [(b, j)]) tr2 tr2'" by blast
  have "blankPairs meta (map snd (x # xs)) = blankPairs meta [(b, j)] @ blankPairs meta (map snd xs)"
    by (simp add: blankPairs_def x)
  moreover have "\<not> mentionsRun (rmRunId meta) j \<and> (b \<longrightarrow> plainRecord j)" if "(b, j) \<in> snd ` set xs" for b j
    by (rule Cons.prems(3)) (use that in simp)
  ultimately show ?case using Cons.IH [OF s(2) t(2)] t(1) x by auto
qed

end

section \<open>Written records\<close>

lemma propOf_entry:
  "propOf (entryJson e) ''redacted'' = None"
  "propOf (entryJson e) ''toolName'' = Some (JStr (aeToolName e))"
  "propOf (entryJson e) ''timestamp'' = Some (JStr (aeTimestamp e))"
  "propOf (entryJson e) ''args'' = aeArgs e"
  "propOf (entryJson e) ''prevHash'' = Some (hashJson (aePrevHash e))"
  "propOf (entryJson e) ''anchorHash'' = map_option JStr (aeAnchorHash e)"
  by (simp_all add: entryJson_def map_of_app del: map_of_append cong: option.case_cong split: option.splits)

lemma propOf_entry_kind: "propOf (entryJson e) ''kind'' = (if aeRotatedFrom e = None then None else Some (JStr ''continuation''))"
proof (cases "aeRotatedFrom e")
qed (simp_all add: entryJson_def map_of_app del: map_of_append cong: option.case_cong)

lemma recordOk_entry:
  assumes "\<And>v. aeArgs e = Some v \<Longrightarrow> distinctKeys v"
  shows "recordOk (entryJson e)"
proof -
  have "distinctKeys (hashJson h)" for h by (simp add: hashJson_def split: option.splits)
  moreover have "distinctKeys (actorJson u)" for u by (simp add: actorJson_def list_all_iff)
  ultimately show ?thesis using assms by (auto simp: recordOk_def entryJson_def split: option.splits)
qed

lemma orNull_entry_prev: "orNull (entryJson e) ''prevHash'' = hashJson (aePrevHash e)"
  by (simp add: orNull_def propOf_entry)

lemma isContinuation_entry: "isContinuationEntry (entryJson e) \<longleftrightarrow> aeRotatedFrom e \<noteq> None"
  by (simp add: isContinuationEntry_def propOf_entry_kind)

end
