(* ===== verification/AuditSafety.thy ===== *)
theory AuditSafety
  imports AuditProps
begin

text \<open>
  The invariant of the audit log: the archives and the live file hold records, the records on disk and in the queue form one
  chain that both walks accept (\<open>chained\<close>), and the head in memory is its last hash (\<open>holding\<close>). Every operation of the writer and
  the rotation below the retention limit keep it.
\<close>

section \<open>Chained histories\<close>

definition goodRecord :: "json \<Rightarrow> bool" where
  "goodRecord j \<longleftrightarrow>
     recordOk j \<and> propStr j ''toolName'' \<noteq> None \<and>
     (propOf j ''redacted'' = None \<or> isRedactedEntry j \<and> propOf j ''toolName'' \<noteq> Some (JStr REDACT_MARKER_TOOL))"

abbreviation notFirst :: "Role \<Rightarrow> bool" where
  "notFirst \<equiv> \<lambda>r. r \<noteq> Genesis"

definition filled :: "'a list list \<Rightarrow> 'a list list" where
  "filled as = filter (\<lambda>s. s \<noteq> []) as"

lemma concat_filled [simp]: "concat (filled as) = concat as"
  by (induction as) (auto simp: filled_def)

lemma filled_Nil: "filled as = [] \<longleftrightarrow> (\<forall>s\<in>set as. s = [])"
  by (auto simp: filled_def filter_empty_conv)

lemma filled_snoc: "filled (as @ [s]) = filled as @ (if s = [] then [] else [s])"
  by (simp add: filled_def)

definition chained ::
  "(string \<Rightarrow> string) \<Rightarrow> string option \<Rightarrow> json list list \<Rightarrow> json list \<Rightarrow> string option \<Rightarrow> RedactionTracker \<Rightarrow> RedactionTracker \<Rightarrow> bool" where
  "chained sha ah as ls lh tr ltr \<longleftrightarrow>
     recWalk sha (historyLink ah) always (tagAll (filled (as @ [ls]))) (None, newTracker True) = Some (lh, tr) \<and>
     recWalk sha (liveLink ah) notFirst (tagSeg Genesis ls) (None, newTracker False) = Some (if ls = [] then None else lh, ltr)"

definition firstRole :: "json list list \<Rightarrow> Role" where
  "firstRole as = (if filled as = [] then Genesis else Boundary)"

lemma tagAll_split: "tagAll (filled (as @ [ls])) = tagAll (filled as) @ tagSeg (firstRole as) ls"
  by (cases "filled as = []"; cases "ls = []") (simp_all add: firstRole_def tagAll_snoc_seg filled_snoc)

lemma tagAll_empty: "filled as = [] \<Longrightarrow> tagAll (filled as) = []"
  by simp

lemma tagAll_Nil: "tagAll (filled as) = [] \<longleftrightarrow> filled as = []"
proof -
  have "tagAll (filled as) = [] \<longleftrightarrow> concat (filled as) = []" by (metis map_snd_tagAll map_is_Nil_conv)
  then show ?thesis by (auto simp: filled_def filter_empty_conv)
qed

lemma link_inner [simp]: "historyLink ah Inner = innerLink" "liveLink ah Inner = innerLink"
  by (simp_all add: historyLink_def liveLink_def fun_eq_iff)

lemma recStep_plain:
  assumes "link r j prev = None" "propOf j ''redacted'' = None" "propOf j ''toolName'' \<noteq> Some (JStr REDACT_MARKER_TOOL)"
  shows "recStep sha link noted (r, j) (prev, tr) = Some (Some (sha (stringify j @ [nl])), tr)"
  using assms by (simp add: recStep_def trackHash_def trackNote_def)

lemma chained_snoc:
  assumes "chained sha ah as ls lh tr ltr" "ls \<noteq> []"
    "recStep sha (historyLink ah) always (Inner, j) (lh, tr) = Some (h, tr1)"
    "recStep sha (liveLink ah) notFirst (Inner, j) (lh, ltr) = Some (h, ltr1)"
  shows "chained sha ah as (ls @ [j]) h tr1 ltr1"
  using assms unfolding chained_def tagAll_split by (simp add: tagSeg_snoc recWalk_snoc flip: append_assoc)

lemma chained_plain:
  assumes "chained sha ah as ls lh tr ltr" "ls \<noteq> []" "propOf j ''redacted'' = None"
    "propOf j ''toolName'' \<noteq> Some (JStr REDACT_MARKER_TOOL)" "orNull j ''prevHash'' = hashJson lh"
  shows "chained sha ah as (ls @ [j]) (Some (sha (stringify j @ [nl]))) tr ltr"
  using assms by (intro chained_snoc [OF assms(1,2)] recStep_plain) (simp_all add: innerLink_def)

lemma chained_empty_iff:
  assumes "chained sha ah as ls lh tr ltr"
  shows "lh = None \<longleftrightarrow> filled as = [] \<and> ls = []"
proof -
  have step: "recStep sha link noted x w = Some w1 \<Longrightarrow> fst w1 \<noteq> None" for link noted x w w1
    by (auto simp: recStep_def split: if_splits sum.splits)
  have some: "recWalk sha link noted xs w = Some w1 \<Longrightarrow> xs \<noteq> [] \<Longrightarrow> fst w1 \<noteq> None" for link noted xs w w1
    by (cases xs rule: rev_cases) (auto simp: recWalk_snoc dest: step split: option.splits)
  let ?xs = "tagAll (filled (as @ [ls]))"
  have len: "?xs = [] \<longleftrightarrow> filled as = [] \<and> ls = []"
    unfolding tagAll_Nil by (simp add: filled_snoc)
  show ?thesis
  proof (cases "?xs = []")
    case True
    then show ?thesis using assms len by (simp add: chained_def)
  next
    case False
    then show ?thesis using some [of "historyLink ah" always ?xs "(None, newTracker True)" "(lh, tr)"] assms len
      by (auto simp: chained_def)
  qed
qed

lemma chained_genesis:
  assumes "filled as = []" "propOf j ''redacted'' = None" "propOf j ''toolName'' \<noteq> Some (JStr REDACT_MARKER_TOOL)"
    "\<not> isContinuationEntry j" "orNull j ''prevHash'' = JNull" "\<And>h. ah = Some h \<Longrightarrow> propOf j ''anchorHash'' = Some (JStr h)"
  shows "chained sha ah as [j] (Some (sha (stringify j @ [nl]))) (newTracker True) (newTracker False)"
proof -
  have "historyLink ah Genesis j None = None" "liveLink ah Genesis j None = None"
    using assms by (auto simp: historyLink_def liveLink_def liveFirstLink_def split: option.splits)
  then show ?thesis using recStep_plain [of "historyLink ah" Genesis j None] recStep_plain [of "liveLink ah" Genesis j None] assms(2,3) unfolding chained_def tagAll_split by (simp add: tagAll_empty [OF assms(1)] firstRole_def assms(1))
qed

lemma chained_nil: "filled as = [] \<Longrightarrow> chained sha ah as [] None (newTracker True) (newTracker False)"
  unfolding chained_def tagAll_split by (simp add: tagAll_empty firstRole_def)

lemma chained_continue:
  assumes "chained sha ah as ls lh tr ltr" "ls \<noteq> []" "propOf j ''redacted'' = None"
    "propOf j ''toolName'' \<noteq> Some (JStr REDACT_MARKER_TOOL)" "isContinuationEntry j" "orNull j ''prevHash'' = hashJson lh"
  shows "chained sha ah (as @ [ls]) [j] (Some (sha (stringify j @ [nl]))) tr (newTracker False)"
proof -
  have "historyLink ah Boundary j lh = None" "liveLink ah Genesis j None = None"
    using assms by (auto simp: historyLink_def liveLink_def liveFirstLink_def)
  then show ?thesis using recStep_plain [of "historyLink ah" Boundary j lh] recStep_plain [of "liveLink ah" Genesis j None] assms(1-4)
    unfolding chained_def tagAll_split [of "as @ [ls]"]
    by (simp add: firstRole_def recWalk_append filled_snoc)
qed

definition quiet :: "json \<Rightarrow> bool" where
  "quiet j \<longleftrightarrow> propOf j ''redacted'' = None \<and> propOf j ''toolName'' \<noteq> Some (JStr REDACT_MARKER_TOOL)"

lemma recWalk_quiet:
  "recWalk sha link noted (map (Pair Inner) qs) w = Some w1 \<Longrightarrow> list_all quiet qs \<Longrightarrow> snd w1 = snd w"
proof (induction qs arbitrary: w)
  case (Cons q qs)
  then obtain w2 where "recStep sha link noted (Inner, q) w = Some w2" "snd w1 = snd w2" by (auto split: option.splits)
  then show ?case using Cons.prems by (auto simp: recStep_def quiet_def trackHash_def trackNote_def split: if_splits)
qed simp

lemma chained_prefix:
  assumes "chained sha ah as (js @ qs) lh tr ltr" "js \<noteq> []"
  shows "\<exists>lh' tr' ltr'. chained sha ah as js lh' tr' ltr' \<and> (list_all quiet qs \<longrightarrow> tr' = tr \<and> ltr' = ltr)"
proof -
  have seg: "tagSeg r (js @ qs) = tagSeg r js @ map (Pair Inner) qs" for r using assms(2) by (cases js) auto
  obtain w1 where w1: "recWalk sha (historyLink ah) always (tagAll (filled (as @ [js]))) (None, newTracker True) = Some w1"
    and rest1: "recWalk sha (historyLink ah) always (map (Pair Inner) qs) w1 = Some (lh, tr)"
    using assms(1) unfolding chained_def tagAll_split seg by (auto simp: recWalk_append split: option.splits)
  obtain w2 where w2: "recWalk sha (liveLink ah) notFirst (tagSeg Genesis js) (None, newTracker False) = Some w2"
    and rest2: "recWalk sha (liveLink ah) notFirst (map (Pair Inner) qs) w2 = Some (lh, ltr)"
    using assms unfolding chained_def seg by (auto simp: recWalk_append split: option.splits)
  have same: "fst w1 = fst w2"
  proof -
    have hash: "recWalk sha link noted (xs @ [x]) w = Some w' \<Longrightarrow>
        fst w' = Some (if propOf (snd x) ''redacted'' = None then sha (stringify (snd x) @ [nl]) else blockField (snd x) ''origHash'')"
      for link noted xs x w w'
      by (auto simp: recWalk_snoc recStep_def trackHash_def Let_def split: if_splits sum.splits option.splits)
    obtain ys y where js: "js = ys @ [y]" using assms(2) by (metis rev_exhaust)
    have "\<exists>xs r. tagSeg r0 js = xs @ [(r, y)]" for r0 using js by (cases ys) auto
    then obtain xs1 r1 xs2 r2 where "tagSeg (firstRole as) js = xs1 @ [(r1, y)]" "tagSeg Genesis js = xs2 @ [(r2, y)]" by metis
    then show ?thesis using hash [of _ _ _ "(r1, y)"] hash [of _ _ _ "(r2, y)"] w1 w2 unfolding tagAll_split
      by (metis append_assoc snd_conv)
  qed
  then have "w1 = (fst w1, snd w1)" "w2 = (fst w1, snd w2)" by (simp_all add: prod_eq_iff)
  then have "chained sha ah as js (fst w1) (snd w1) (snd w2)" using w1 w2 assms(2) unfolding chained_def by simp
  then show ?thesis using recWalk_quiet [OF rest1] recWalk_quiet [OF rest2] by auto
qed

section \<open>The state of the writer\<close>

definition dirOk :: "AuditFs \<Rightarrow> bool" where
  "dirOk fs \<longleftrightarrow> distinct (map arName (fsDir fs)) \<and>
     (\<forall>a\<in>set (fsDir fs). startsWith (arName a) (fsBase fs @ ''.'') \<and> endsWith (arName a) ''.gz'')"

definition filesOk :: "AuditFs \<Rightarrow> json list list \<Rightarrow> json list \<Rightarrow> bool" where
  "filesOk fs as js \<longleftrightarrow>
     dirOk fs \<and> map arText (listArchives fs) = map (\<lambda>s. Some (textOf s)) as \<and> fsLive fs = Some (textOf js) \<and>
     (js = [] \<longrightarrow> filled as = [])"

definition callOk :: "LogCall \<Rightarrow> bool" where
  "callOk c \<longleftrightarrow> lcToolName c \<noteq> REDACT_MARKER_TOOL \<and> (\<forall>v. lcArgs c = Some v \<longrightarrow> distinctKeys v)"

definition anchorHashOf :: "(string \<Rightarrow> string) \<Rightarrow> (string \<Rightarrow> json option) \<Rightarrow> AuditFs \<Rightarrow> string option" where
  "anchorHashOf sha parse fs = map_option (computeAnchorHash sha) (readAnchor parse fs)"

definition queued :: "json list \<Rightarrow> string list" where
  "queued qs = map (\<lambda>j. stringify j @ [nl]) qs"

definition holding ::
  "(string \<Rightarrow> string) \<Rightarrow> (string \<Rightarrow> json option) \<Rightarrow> AuditLog \<Rightarrow> json list list \<Rightarrow> json list \<Rightarrow> json list \<Rightarrow> RedactionTracker \<Rightarrow>
   RedactionTracker \<Rightarrow> bool" where
  "holding sha parse st as js qs tr ltr \<longleftrightarrow>
     filesOk (alFs st) as js \<and> list_all goodRecord (concat as @ js @ qs) \<and> alQueue st = queued qs \<and> list_all quiet qs \<and>
     chained sha (anchorHashOf sha parse (alFs st)) as (js @ qs) (alLastHash st) tr ltr"

definition auditInv :: "bool \<Rightarrow> (string \<Rightarrow> string) \<Rightarrow> (string \<Rightarrow> json option) \<Rightarrow> AuditLog \<Rightarrow> bool" where
  "auditInv cl sha parse st \<longleftrightarrow> (\<exists>as js qs tr ltr. holding sha parse st as js qs tr ltr \<and> (cl \<longrightarrow> rtPending tr = [])) \<and> (\<forall>x\<in>set (alParked st). callOk (fst x))"

lemma listArchives_dirOk: "dirOk fs \<Longrightarrow> listArchives fs = sort_key (archiveKey (fsBase fs)) (fsDir fs)"
  by (simp add: listArchives_def listRotatedArchives_def dirOk_def filter_id_conv)

lemma listArchives_live [simp]: "listArchives (fs\<lparr>fsLive := x\<rparr>) = listArchives fs" "dirOk (fs\<lparr>fsLive := x\<rparr>) = dirOk fs"
  by (simp_all add: listArchives_def dirOk_def)

lemma readAnchor_live [simp]: "readAnchor parse (fs\<lparr>fsLive := x\<rparr>) = readAnchor parse fs" "readAnchor parse (fs\<lparr>fsDir := d\<rparr>) = readAnchor parse fs"
  by (simp_all add: readAnchor_def)

lemma isFileEmpty_filesOk: "filesOk fs as js \<Longrightarrow> isFileEmpty fs \<longleftrightarrow> js = []"
  by (simp add: filesOk_def isFileEmpty_def)

lemma appendLive_filesOk: "filesOk fs as js \<Longrightarrow> filesOk (appendLive (stringify j @ [nl]) fs) as (js @ [j])"
  by (auto simp: filesOk_def appendLive_def textOf_append textOf_def)

lemma appendLive_same [simp]: "readAnchor parse (appendLive s fs) = readAnchor parse fs"
  by (simp add: appendLive_def)

lemma goodRecord_entry:
  assumes "\<And>v. aeArgs e = Some v \<Longrightarrow> distinctKeys v"
  shows "goodRecord (entryJson e)"
  using recordOk_entry [of e] assms by (simp add: goodRecord_def propStr_def propOf_entry)

lemma goodRecord_kinds: "goodRecord j \<Longrightarrow> recordOk j" "goodRecord j \<Longrightarrow> propOf j ''redacted'' = None \<or> isRedactedEntry j"
  by (auto simp: goodRecord_def)

context audit_env
begin

lemma sha_nonempty: "sha s \<noteq> []"
  using sha_hex [of s] by (auto simp: isHex64_def)

lemma anchor_nonempty: "anchorHashOf sha parse fs \<noteq> Some []"
  by (simp add: anchorHashOf_def computeAnchorHash_def sha_nonempty)

lemma readAnchor_minted:
  "readAnchor parse (fs\<lparr>fsAnchor := Some (stringify (mintedAnchor m))\<rparr>) = Some (mintedAnchor m)"
proof -
  have "parse (stringify (mintedAnchor m)) = Some (mintedAnchor m)" by (rule parse_stringify) (simp add: mintedAnchor_def)
  then show ?thesis by (simp add: readAnchor_def) (simp add: mintedAnchor_def propStr_def)
qed

lemma ensureAnchor_spec:
  assumes "ensureAnchor sha parse m fs = (h, fs')"
  shows "anchorHashOf sha parse fs' = h" "filesOk fs' as js = filesOk fs as js"
proof -
  show "anchorHashOf sha parse fs' = h"
    using assms by (auto simp: ensureAnchor_def anchorHashOf_def readAnchor_minted split: option.splits if_splits)
  have "fs' = fs \<or> (\<exists>x. fs' = fs\<lparr>fsAnchor := x\<rparr>)" using assms by (auto simp: ensureAnchor_def split: option.splits if_splits)
  then show "filesOk fs' as js = filesOk fs as js" by (auto simp: filesOk_def dirOk_def listArchives_def)
qed

lemma appendEntry_holding:
  assumes "filesOk (alFs st) as js" "list_all goodRecord (concat as @ js @ qs)" "alQueue st = queued qs" "goodRecord (entryJson e)"
    "chained sha (anchorHashOf sha parse (alFs st)) as (js @ qs @ [entryJson e]) (Some (sha (stringify (entryJson e) @ [nl]))) tr ltr"
    "sync \<Longrightarrow> qs = []" "list_all quiet qs" "\<not> sync \<Longrightarrow> quiet (entryJson e)"
  shows "\<exists>js' qs'. js' @ qs' = js @ qs @ [entryJson e] \<and> holding sha parse (appendEntry sha sync e st) as js' qs' tr ltr"
proof (cases sync)
  case True
  then have qs: "qs = []" by (rule assms(6))
  have "appendEntry sha sync e st = st\<lparr>alLastHash := Some (sha (stringify (entryJson e) @ [nl])),
      alFs := appendLive (stringify (entryJson e) @ [nl]) (alFs st)\<rparr>"
    using True by (simp add: appendEntry_def Let_def)
  then have "holding sha parse (appendEntry sha sync e st) as (js @ [entryJson e]) [] tr ltr"
    using assms(2-5) appendLive_filesOk [OF assms(1), of "entryJson e"] unfolding qs
    by (simp add: holding_def queued_def anchorHashOf_def)
  then show ?thesis using qs by auto
next
  case False
  then have "holding sha parse (appendEntry sha sync e st) as js (qs @ [entryJson e]) tr ltr"
    using assms(1-5,7) assms(8) [OF False] False by (simp add: holding_def appendEntry_def Let_def queued_def)
  then show ?thesis by fastforce
qed

lemma stampAndAppend_inv:
  assumes "auditInv cl sha parse st" "callOk c"
  shows "auditInv cl sha parse (stampAndAppend sha parse m c actor ts st)"
proof -
  obtain as js qs tr ltr where h: "holding sha parse st as js qs tr ltr" and clean: "cl \<longrightarrow> rtPending tr = []" and parked: "\<forall>x\<in>set (alParked st). callOk (fst x)"
    using assms(1) by (auto simp: auditInv_def)
  note h' = h [unfolded holding_def]
  have empty: "alLastHash st = None \<longleftrightarrow> filled as = [] \<and> js @ qs = []" using h' chained_empty_iff by blast
  let ?genesis = "alLastHash st = None \<and> isFileEmpty (alFs st)"
  obtain ah fs where a: "(if ?genesis then ensureAnchor sha parse m (alFs st) else (None, alFs st)) = (ah, fs)" by force
  let ?e = "stampedEntry c actor ts (alLastHash st) ah"
  have e: "goodRecord (entryJson ?e)" using assms(2) by (intro goodRecord_entry) (simp add: stampedEntry_def callOk_def)
  have props: "propOf (entryJson ?e) ''redacted'' = None" "propOf (entryJson ?e) ''toolName'' \<noteq> Some (JStr REDACT_MARKER_TOOL)"
    "orNull (entryJson ?e) ''prevHash'' = hashJson (alLastHash st)" "\<not> isContinuationEntry (entryJson ?e)"
    using assms(2) by (simp_all add: propOf_entry stampedEntry_def callOk_def orNull_entry_prev isContinuation_entry)
  have files: "filesOk fs as js"
    using a h' ensureAnchor_spec(2) by (auto split: if_splits)
  have "\<exists>tr ltr. chained sha (anchorHashOf sha parse fs) as (js @ qs @ [entryJson ?e]) (Some (sha (stringify (entryJson ?e) @ [nl]))) tr ltr \<and>
      (cl \<longrightarrow> rtPending tr = [])"
  proof (cases ?genesis)
    case True
    then have "anchorHashOf sha parse fs = ah" "filled as = []" "js @ qs = []"
      using a ensureAnchor_spec(1) empty by auto
    moreover have "propOf (entryJson ?e) ''anchorHash'' = Some (JStr h)" if "ah = Some h" for h
      using that by (simp add: propOf_entry stampedEntry_def)
    ultimately have "chained sha (anchorHashOf sha parse fs) as [entryJson ?e] (Some (sha (stringify (entryJson ?e) @ [nl])))
        (newTracker True) (newTracker False)"
      using True props by (intro chained_genesis) (auto simp: hashJson_def)
    then show ?thesis using \<open>js @ qs = []\<close> by (auto simp: newTracker_def)
  next
    case False
    then have fs: "fs = alFs st" "ah = None" using a by auto
    have "js @ qs \<noteq> []" using False h' empty isFileEmpty_filesOk [of "alFs st" as js] by (auto simp: filesOk_def)
    then have "chained sha (anchorHashOf sha parse (alFs st)) as ((js @ qs) @ [entryJson ?e]) (Some (sha (stringify (entryJson ?e) @ [nl]))) tr ltr"
      using h' props(1-3) by (intro chained_plain) auto
    then show ?thesis unfolding fs(1) append_assoc using clean by blast
  qed
  then obtain tr1 ltr1 where clean1: "cl \<longrightarrow> rtPending tr1 = []" and ch: "chained sha (anchorHashOf sha parse fs) as (js @ qs @ [entryJson ?e]) (Some (sha (stringify (entryJson ?e) @ [nl]))) tr1 ltr1"
    by blast
  have "stampAndAppend sha parse m c actor ts st = appendEntry sha False ?e (st\<lparr>alFs := fs\<rparr>)"
    using a by (simp add: stampAndAppend_def)
  moreover have "\<exists>js' qs'. js' @ qs' = js @ qs @ [entryJson ?e] \<and> holding sha parse (appendEntry sha False ?e (st\<lparr>alFs := fs\<rparr>)) as js' qs' tr1 ltr1"
    using files h' e ch props(1,2) by (intro appendEntry_holding) (auto simp: quiet_def)
  moreover have "alParked (appendEntry sha False ?e (st\<lparr>alFs := fs\<rparr>)) = alParked st" by (simp add: appendEntry_def Let_def)
  ultimately show ?thesis using parked clean1 unfolding auditInv_def by metis
qed

end

lemma auditInvI:
  "holding sha parse st as js qs tr ltr \<Longrightarrow> (cl \<Longrightarrow> rtPending tr = []) \<Longrightarrow> (\<And>x. x \<in> set (alParked st) \<Longrightarrow> callOk (fst x)) \<Longrightarrow> auditInv cl sha parse st"
  unfolding auditInv_def by blast

lemma auditInvE:
  assumes "auditInv cl sha parse st"
  obtains as js qs tr ltr where "holding sha parse st as js qs tr ltr" "cl \<Longrightarrow> rtPending tr = []" "\<And>x. x \<in> set (alParked st) \<Longrightarrow> callOk (fst x)"
  using assms unfolding auditInv_def by blast

context audit_env
begin

lemma chained_last:
  assumes "chained sha ah as js lh tr ltr" "js \<noteq> []"
  shows "lh = Some (chainHash (last js))"
proof -
  obtain ys y where js: "js = ys @ [y]" using assms(2) by (metis rev_exhaust)
  have seg: "snd (last (tagSeg Genesis js)) = y" using js by (cases ys) auto
  have "tagSeg Genesis js \<noteq> []" using js by (cases ys) auto
  moreover have "recWalk sha (liveLink ah) notFirst (tagSeg Genesis js) (None, newTracker False) = Some (lh, ltr)"
    using assms by (simp add: chained_def)
  ultimately have "fst (lh, ltr) = Some (chainHash (snd (last (tagSeg Genesis js))))" by (intro recWalk_hash)
  then show ?thesis using seg js by simp
qed

lemma resync_holding:
  assumes "holding sha parse st as js [] tr ltr"
  shows "readTailHash sha parse (alFs st) = (if js = [] then None else alLastHash st)" "resyncHead sha parse st = st"
proof -
  have h: "fsLive (alFs st) = Some (textOf js)" "list_all goodRecord js"
    "chained sha (anchorHashOf sha parse (alFs st)) as js (alLastHash st) tr ltr"
    using assms by (auto simp: holding_def filesOk_def)
  have "list_all recordOk js" "list_all (\<lambda>j. propOf j ''redacted'' = None \<or> isRedactedEntry j) js"
    using h(2) goodRecord_kinds by (auto simp: list_all_iff)
  from readTailHash_textOf [OF h(1) this]
  show tail: "readTailHash sha parse (alFs st) = (if js = [] then None else alLastHash st)" using chained_last [OF h(3)] by auto
  show "resyncHead sha parse st = st" using tail by (auto simp: resyncHead_def split: option.splits)
qed

lemma landAppend_inv:
  assumes "auditInv cl sha parse st"
  shows "auditInv cl sha parse (landAppend True st)"
proof -
  obtain as js qs tr ltr where h: "holding sha parse st as js qs tr ltr" and clean: "cl \<longrightarrow> rtPending tr = []" and parked: "\<forall>x\<in>set (alParked st). callOk (fst x)"
    using assms by (auto simp: auditInv_def)
  show ?thesis
  proof (cases qs)
    case Nil
    then show ?thesis using assms h by (simp add: landAppend_def holding_def queued_def)
  next
    case (Cons q rest)
    have "alQueue st = (stringify q @ [nl]) # queued rest" using h Cons by (simp add: holding_def queued_def)
    then have land: "landAppend True st = st\<lparr>alQueue := queued rest, alFs := appendLive (stringify q @ [nl]) (alFs st)\<rparr>"
      by (simp add: landAppend_def)
    have "holding sha parse (landAppend True st) as (js @ [q]) rest tr ltr"
      using h appendLive_filesOk [of "alFs st" as js q] unfolding land holding_def Cons by (simp add: anchorHashOf_def)
    then show ?thesis by (rule auditInvI) (use parked land clean in simp_all)
  qed
qed

lemma restart_inv:
  assumes "auditInv cl sha parse st"
  shows "auditInv cl sha parse (newAuditLog sha parse prefixes (alFs st))"
proof -
  obtain as js qs tr ltr where h: "holding sha parse st as js qs tr ltr" and clean: "cl \<longrightarrow> rtPending tr = []" using assms by (auto simp: auditInv_def)
  then have files: "filesOk (alFs st) as js" and good: "list_all goodRecord (concat as @ js)" and quiet: "list_all quiet qs"
    and ch: "chained sha (anchorHashOf sha parse (alFs st)) as (js @ qs) (alLastHash st) tr ltr" by (auto simp: holding_def)
  obtain lh tr1 ltr1 where ch1: "chained sha (anchorHashOf sha parse (alFs st)) as js lh tr1 ltr1" and clean1: "cl \<longrightarrow> rtPending tr1 = []"
  proof (cases "js = []")
    case True
    then have "filled as = []" using files by (simp add: filesOk_def)
    then show thesis using that [of None "newTracker True" "newTracker False"] chained_nil True by (simp add: newTracker_def)
  qed (use chained_prefix [OF ch] quiet clean that in blast)
  define st1 where "st1 = \<lparr>alFs = alFs st, alLastHash = lh, alGate = 0, alParked = [], alQueue = [], alPrefixes = prefixes\<rparr>"
  have "holding sha parse st1 as js [] tr1 ltr1" using files good ch1 by (simp add: holding_def st1_def queued_def)
  moreover from resync_holding(1) [OF this] have "readTailHash sha parse (alFs st) = lh"
    using chained_empty_iff [OF ch1] files by (auto simp: st1_def filesOk_def)
  then have "newAuditLog sha parse prefixes (alFs st) = st1"
    using files by (simp add: newAuditLog_def st1_def filesOk_def Let_def)
  ultimately have "auditInv cl sha parse st1" using clean1 by (auto intro: auditInvI simp: st1_def)
  with \<open>newAuditLog sha parse prefixes (alFs st) = st1\<close> show ?thesis by simp
qed

lemma enter_inv: "auditInv cl sha parse st \<Longrightarrow> auditInv cl sha parse (enterExclusive st)"
  by (simp add: auditInv_def holding_def enterExclusive_def)

lemma replay_inv:
  assumes "auditInv cl sha parse st" "\<forall>x\<in>set xs. callOk (fst x)"
  shows "auditInv cl sha parse (fold (\<lambda>(c, actor, ts). stampAndAppend sha parse m c actor ts) xs st)"
  using assms
proof (induction xs arbitrary: st)
  case (Cons x xs)
  obtain c actor ts where x: "x = (c, actor, ts)" by (cases x) auto
  then have "auditInv cl sha parse (stampAndAppend sha parse m c actor ts st)" using Cons.prems by (auto intro: stampAndAppend_inv)
  from Cons.IH [OF this] show ?case using Cons.prems x by simp
qed simp

lemma leave_inv:
  assumes "auditInv cl sha parse st" "alQueue st = []"
  shows "auditInv cl sha parse (leaveExclusive sha parse m st)"
proof -
  obtain as js qs tr ltr where h: "holding sha parse st as js qs tr ltr" and clean: "cl \<longrightarrow> rtPending tr = []" and parked: "\<forall>x\<in>set (alParked st). callOk (fst x)"
    using assms(1) by (auto simp: auditInv_def)
  then have "qs = []" using assms(2) by (simp add: holding_def queued_def)
  let ?st = "st\<lparr>alGate := alGate st - 1\<rparr>"
  have h1: "holding sha parse ?st as js [] tr ltr" using h \<open>qs = []\<close> by (simp add: holding_def)
  then have "holding sha parse (?st\<lparr>alParked := []\<rparr>) as js [] tr ltr" by (simp add: holding_def)
  then have "auditInv cl sha parse (?st\<lparr>alParked := []\<rparr>)" "auditInv cl sha parse ?st"
    using parked clean auditInvI [OF h1] by (auto intro: auditInvI)
  moreover have "\<forall>x\<in>set (alParked ?st). callOk (fst x)" using parked by simp
  note replay_inv [OF calculation(1) this, of m]
  ultimately show ?thesis
    unfolding leaveExclusive_def Let_def resync_holding(2) [OF h1] by (cases "alGate ?st = 0") (simp_all only: if_True if_False simp_thms)
qed

lemma log_inv:
  assumes "auditInv cl sha parse st" "callOk c"
  shows "auditInv cl sha parse (logEntry sha parse m user ts c st)"
proof -
  have "auditInv cl sha parse (st\<lparr>alParked := alParked st @ [(c, actor, ts)]\<rparr>)" for actor
    using assms by (auto simp: auditInv_def holding_def)
  then show ?thesis using assms stampAndAppend_inv by (simp add: logEntry_def Let_def)
qed

end

section \<open>Rotation\<close>

lemma insort_key_snoc: "f x \<le> f y \<Longrightarrow> insort_key f x (zs @ [y]) = insort_key f x zs @ [y]"
  by (induction zs) auto

lemma sort_key_snoc_max:
  "(\<And>x. x \<in> set xs \<Longrightarrow> f x \<le> f y) \<Longrightarrow> sort_key f (xs @ [y]) = sort_key f xs @ [y]"
  by (induction xs) (auto simp: insort_key_snoc)

lemma archiveName_match: "startsWith (archiveName base ts n) (base @ ''.'')" "endsWith (archiveName base ts n) ''.gz''"
proof -
  show "startsWith (archiveName base ts n) (base @ ''.'')" by (simp add: archiveName_def startsWith_def)
  have "archiveName base ts n = (base @ ''.'' @ ts @ (if n = 0 then [] else CHR ''-'' # showNat n)) @ ''.gz''"
    by (simp add: archiveName_def)
  then show "endsWith (archiveName base ts n) ''.gz''" unfolding endsWith_def by simp
qed

lemma writeArchiveExclusive_fresh:
  assumes "writeArchiveExclusive base ts dir = Some name"
  shows "name \<notin> set (map arName dir)" "startsWith name (base @ ''.'')" "endsWith name ''.gz''"
proof -
  have mem: "name \<in> set (map (archiveName base ts) [0..<Suc MAX_ARCHIVE_SUFFIX])" and "\<not> List.member (map arName dir) name"
    using find_Some_mem [OF assms [unfolded writeArchiveExclusive_def]] by auto
  then show "name \<notin> set (map arName dir)" by simp
  show "startsWith name (base @ ''.'')" "endsWith name ''.gz''" using mem archiveName_match by auto
qed

text \<open>A rotation either leaves the files alone or archives the live file after every other archive; below the retention
  limit nothing is deleted.\<close>

lemma rotate_cases:
  assumes "dirOk fs" "fsLive fs = Some t" "length (fsDir fs) < roRetainCount opts" "\<And>a. a \<in> set (fsDir fs) \<Longrightarrow> arMtime a < mt"
    "rotateIfNeeded opts now lm ts mt fs \<noteq> fs"
  obtains name where "rotateIfNeeded opts now lm ts mt fs =
      fs\<lparr>fsDir := fsDir fs @ [\<lparr>arName = name, arMtime = mt, arText = Some t\<rparr>], fsLive := Some []\<rparr>"
    "dirOk (rotateIfNeeded opts now lm ts mt fs)"
    "listArchives (rotateIfNeeded opts now lm ts mt fs) = listArchives fs @ [\<lparr>arName = name, arMtime = mt, arText = Some t\<rparr>]"
proof -
  obtain name where name: "writeArchiveExclusive (fsBase fs) ts (fsDir fs) = Some name"
    using assms(2,5) by (auto simp: rotateIfNeeded_def split: if_splits option.splits)
  define a where "a = \<lparr>arName = name, arMtime = mt, arText = Some t\<rparr>"
  define fs1 where "fs1 = fs\<lparr>fsDir := fsDir fs @ [a], fsLive := Some []\<rparr>"
  have dir: "dirOk fs1" using assms(1) writeArchiveExclusive_fresh [OF name] by (auto simp: dirOk_def fs1_def a_def)
  have "archiveKey (fsBase fs) x \<le> archiveKey (fsBase fs) a" if "x \<in> set (fsDir fs)" for x
    using assms(4) [OF that] by (simp add: archiveKey_def a_def less_imp_le)
  then have "sort_key (archiveKey (fsBase fs)) (fsDir fs @ [a]) = sort_key (archiveKey (fsBase fs)) (fsDir fs) @ [a]"
    by (rule sort_key_snoc_max)
  then have arch: "listArchives fs1 = listArchives fs @ [a]"
    using listArchives_dirOk [OF dir] listArchives_dirOk [OF assms(1)] by (simp add: fs1_def)
  have "length (listArchives fs1) \<le> roRetainCount opts" using assms(3) listArchives_dirOk [OF dir] by (simp add: fs1_def)
  then have "drop (roRetainCount opts) (rev (listArchives fs1)) = []" by simp
  then have "rotateIfNeeded opts now lm ts mt fs = fs1"
    using assms(2,5) name unfolding fs1_def a_def by (auto simp: rotateIfNeeded_def Let_def split: if_splits)
  then show thesis using that [of name] dir arch by (simp add: fs1_def a_def)
qed

context audit_env
begin

lemma rotate_inv:
  assumes "auditInv cl sha parse st" "alQueue st = []" "length (fsDir (alFs st)) < roRetainCount opts"
    "\<And>a. a \<in> set (fsDir (alFs st)) \<Longrightarrow> arMtime a < mt"
  shows "auditInv cl sha parse (rotateSection sha parse (rotateIfNeeded opts now lm ts mt) user stamp st)"
proof -
  obtain as js qs tr ltr where h0: "holding sha parse st as js qs tr ltr" and clean: "cl \<longrightarrow> rtPending tr = []" and parked: "\<forall>x\<in>set (alParked st). callOk (fst x)"
    using assms(1) by (auto simp: auditInv_def)
  then have "qs = []" using assms(2) by (simp add: holding_def queued_def)
  with h0 have h: "holding sha parse st as js [] tr ltr" by simp
  then have files: "filesOk (alFs st) as js" and ch: "chained sha (anchorHashOf sha parse (alFs st)) as js (alLastHash st) tr ltr"
    and good: "list_all goodRecord (concat as @ js)" by (auto simp: holding_def)
  let ?fs = "rotateIfNeeded opts now lm ts mt (alFs st)"
  have sec: "rotateSection sha parse (rotateIfNeeded opts now lm ts mt) user stamp st = writeContinuation sha user stamp True (st\<lparr>alFs := ?fs\<rparr>)"
    by (simp add: rotateSection_def Let_def resync_holding(2) [OF h])
  have empty: "alLastHash st = None \<longleftrightarrow> js = []" using chained_empty_iff [OF ch] files by (auto simp: filesOk_def)
  show ?thesis
  proof (cases "?fs = alFs st")
    case True
    then have "rotateSection sha parse (rotateIfNeeded opts now lm ts mt) user stamp st = st"
      using empty isFileEmpty_filesOk [OF files] by (simp add: sec writeContinuation_def)
    then show ?thesis using assms(1) by simp
  next
    case False
    obtain name where fs: "?fs = (alFs st)\<lparr>fsDir := fsDir (alFs st) @ [\<lparr>arName = name, arMtime = mt, arText = Some (textOf js)\<rparr>], fsLive := Some []\<rparr>"
      and dir: "dirOk ?fs" and arch: "listArchives ?fs = listArchives (alFs st) @ [\<lparr>arName = name, arMtime = mt, arText = Some (textOf js)\<rparr>]"
      using rotate_cases [OF _ _ assms(3,4) False, of "textOf js"] files unfolding filesOk_def by blast
    have texts: "map arText (listArchives ?fs) = map (\<lambda>s. Some (textOf s)) (as @ [js])" using files arch by (simp add: filesOk_def)
    have live: "fsLive ?fs = Some []" "isFileEmpty ?fs" using fs by (simp_all add: isFileEmpty_def)
    have anchor: "anchorHashOf sha parse ?fs = anchorHashOf sha parse (alFs st)" by (simp add: fs anchorHashOf_def)
    have newest: "newestArchive ?fs = Some \<lparr>arName = name, arMtime = mt, arText = Some (textOf js)\<rparr>" by (simp add: newestArchive_def arch)
    show ?thesis
    proof (cases "js = []")
      case True
      then have "filled (as @ [js]) = []" using files by (simp add: filesOk_def filled_snoc)
      then have "holding sha parse (st\<lparr>alFs := ?fs\<rparr>) (as @ [js]) [] [] (newTracker True) (newTracker False)"
        using dir texts live good True empty assms(2) chained_nil by (simp add: holding_def filesOk_def queued_def)
      moreover have "writeContinuation sha user stamp True (st\<lparr>alFs := ?fs\<rparr>) = st\<lparr>alFs := ?fs\<rparr>" using True empty by (simp add: writeContinuation_def)
      ultimately have "auditInv cl sha parse (writeContinuation sha user stamp True (st\<lparr>alFs := ?fs\<rparr>))"
        using parked by (auto intro!: auditInvI simp: newTracker_def)
      then show ?thesis unfolding sec .
    next
      case False
      let ?e = "continuationEntry user stamp name (alLastHash st)"
      have cont: "writeContinuation sha user stamp True (st\<lparr>alFs := ?fs\<rparr>) = appendEntry sha True ?e (st\<lparr>alFs := ?fs\<rparr>)"
        using False empty live newest by (auto simp: writeContinuation_def)
      have e: "goodRecord (entryJson ?e)" by (rule goodRecord_entry) (auto simp: continuationEntry_def)
      have ch1: "chained sha (anchorHashOf sha parse ?fs) (as @ [js]) [entryJson ?e] (Some (sha (stringify (entryJson ?e) @ [nl]))) tr (newTracker False)"
        unfolding anchor
        by (rule chained_continue [OF ch False])
           (simp_all add: propOf_entry continuationEntry_def REDACT_MARKER_TOOL_def isContinuation_entry orNull_entry_prev)
      let ?line = "stringify (entryJson ?e) @ [nl]"
      have "filesOk (appendLive ?line ?fs) (as @ [js]) [entryJson ?e]"
        using dir texts live by (simp add: filesOk_def appendLive_def textOf_def)
      then have "holding sha parse (appendEntry sha True ?e (st\<lparr>alFs := ?fs\<rparr>)) (as @ [js]) [entryJson ?e] [] tr (newTracker False)"
        using good e ch1 assms(2) by (simp add: holding_def appendEntry_def Let_def queued_def anchorHashOf_def)
      then show ?thesis unfolding sec cont by (rule auditInvI) (use parked clean in \<open>simp_all add: appendEntry_def Let_def\<close>)
    qed
  qed
qed

end

end
