(* ===== verification/AuditErase.thy ===== *)
theory AuditErase
  imports AuditSafety
begin

text \<open>
  The blank-out on files that satisfy the invariant: what the scan finds, what the rewrite leaves in each file, and that the
  rewritten files with the appended markers satisfy the invariant again, with no unvouched run unless the step was partial.
\<close>

section \<open>Scanning the files\<close>

definition matches :: "(string \<Rightarrow> int option) \<Rightarrow> MatchTarget \<Rightarrow> json \<Rightarrow> bool" where
  "matches date t j \<longleftrightarrow> \<not> isRedactedEntry j \<and> classifyEntry date j t = Some Match"

lemma matches_plain: "matches date t j \<Longrightarrow> plainRecord j"
  by (auto simp: matches_def classifyEntry_def plainRecord_def split: if_splits)

lemma claimedNames_total: "propStr j ''toolName'' \<noteq> None \<Longrightarrow> claimedNames j \<noteq> None"
  by (auto simp: claimedNames_def Let_def split: json.splits)

lemma classify_total: "goodRecord j \<Longrightarrow> classifyEntry date j t \<noteq> None"
  using claimedNames_total [of j] by (auto simp: goodRecord_def classifyEntry_def Let_def split: option.splits json.splits)

definition runsAfter :: "(string \<Rightarrow> string) \<Rightarrow> json list \<Rightarrow> (string \<times> RedactRun) list \<Rightarrow> (string \<times> RedactRun) list" where
  "runsAfter sha s r = fold (\<lambda>j r. if isRedactedEntry j then addRun sha j r else r) s r"

definition markersAfter :: "json list \<Rightarrow> string list \<Rightarrow> string list" where
  "markersAfter s m = fold (\<lambda>j m. if isRedactedEntry j then m else noteMarker j m) s m"

text \<open>The tracker of the verifier and the scan of the eraser agree on which runs have no marker.\<close>

definition tracks :: "RedactionTracker \<Rightarrow> (string \<times> RedactRun) list \<Rightarrow> string list \<Rightarrow> bool" where
  "tracks tr runs markers \<longleftrightarrow>
     set (rtSeenMarkers tr) = set markers \<and>
     (\<forall>i. map_of (rtPending tr) i = (if i \<in> set markers then None else map_of runs i))"

lemma tracks_step:
  assumes "recStep sha link always (r, j) (p, tr) = Some (p1, tr1)" "goodRecord j" "tracks tr runs markers"
  shows "tracks tr1 (runsAfter sha [j] runs) (markersAfter [j] markers)"
proof (cases "propOf j ''redacted''")
  case None
  then have nr: "\<not> isRedactedEntry j" by (simp add: isRedactedEntry_def)
  have noted: "trackNote sha tr j = Inr tr1" using assms(1) None by (auto simp: recStep_def trackHash_def split: if_splits sum.splits)
  show ?thesis
  proof (cases "propOf j ''toolName'' = Some (JStr REDACT_MARKER_TOOL)")
    case False
    then show ?thesis using noted nr assms(3) by (simp add: trackNote_def runsAfter_def markersAfter_def noteMarker_def)
  next
    case True
    obtain i where i: "propStr (orNull j ''args'') ''runId'' = Some i"
      using noted True by (auto simp: trackNote_def Let_def split: if_splits option.splits)
    then have "tr1 = tr\<lparr>rtPending := AList.delete i (rtPending tr), rtSeenMarkers := List.insert i (rtSeenMarkers tr)\<rparr>"
      using noted True by (auto simp: trackNote_def Let_def split: if_splits)
    then show ?thesis using assms(3) True i nr
      by (auto simp: tracks_def runsAfter_def markersAfter_def noteMarker_def delete_conv' List.insert_def split: if_splits)
  qed
next
  case (Some b)
  then have red: "isRedactedEntry j" and nm: "propOf j ''toolName'' \<noteq> Some (JStr REDACT_MARKER_TOOL)"
    using assms(2) by (auto simp: goodRecord_def)
  let ?i = "blockField j ''runId''"
  have seen: "?i \<notin> set (rtSeenMarkers tr)"
    using assms(1) Some by (auto simp: recStep_def trackHash_def Let_def split: if_splits)
  then have pend: "map_of (rtPending tr) ?i = map_of runs ?i" and "?i \<notin> set markers" using assms(3) by (auto simp: tracks_def)
  have "rtPending tr1 = addRun sha j (rtPending tr)" "rtSeenMarkers tr1 = rtSeenMarkers tr"
    using assms(1) Some nm by (auto simp: recStep_def trackHash_def trackNote_def addRun_def Let_def split: if_splits)
  moreover define N where "N o1 = (let r = (case o1 of Some r \<Rightarrow> r | None \<Rightarrow> \<lparr>rrWorkspaceId = blockField j ''workspaceId'', rrPairs = []\<rparr>)
      in r\<lparr>rrPairs := rrPairs r @ [redactionPair sha j]\<rparr>)" for o1
  have upd: "map_of (addRun sha j x) = (map_of x)(?i \<mapsto> N (map_of x ?i))" for x
    by (simp add: addRun_def Let_def update_conv' N_def)
  ultimately show ?thesis using assms(3) red pend \<open>?i \<notin> set markers\<close>
    by (simp add: tracks_def runsAfter_def markersAfter_def upd)
qed

lemma tracks_walk:
  assumes "recWalk sha link always xs (p, tr) = Some (p1, tr1)" "list_all goodRecord (map snd xs)" "tracks tr runs markers"
  shows "tracks tr1 (runsAfter sha (map snd xs) runs) (markersAfter (map snd xs) markers)"
  using assms
proof (induction xs arbitrary: p tr runs markers)
  case Nil
  then show ?case by (simp add: runsAfter_def markersAfter_def)
next
  case (Cons x xs)
  obtain r j where x: "x = (r, j)" by force
  obtain p2 tr2 where s: "recStep sha link always (r, j) (p, tr) = Some (p2, tr2)" "recWalk sha link always xs (p2, tr2) = Some (p1, tr1)"
    using Cons.prems(1) x by (auto split: option.splits)
  have "goodRecord j" using Cons.prems(2) x by simp
  from Cons.IH [OF s(2) _ tracks_step [OF s(1) this Cons.prems(3)]] Cons.prems(2) x show ?case
    by (simp add: runsAfter_def markersAfter_def)
qed

context audit_env
begin

lemma scanLine_record:
  assumes "goodRecord j" "rmRunId meta \<noteq> []"
  shows "scanLine sha parse date t meta (stringify j) s =
     Some \<lparr>lsOut = lsOut s @ [stringify (blankIf meta (matches date t j, j))], lsPairs = lsPairs s @ blankPairs meta [(matches date t j, j)],
           lsMatched = lsMatched s + (if matches date t j then 1 else 0),
           lsAmbiguous = lsAmbiguous s + (if \<not> isRedactedEntry j \<and> classifyEntry date j t = Some Ambiguous then 1 else 0),
           lsRuns = runsAfter sha [j] (lsRuns s), lsMarkers = markersAfter [j] (lsMarkers s)\<rparr>"
proof -
  obtain kvs where kvs: "j = JObj kvs" and ok: "recordOk j" using assms(1) by (auto simp: goodRecord_def recordOk_def)
  have sel: "(case parse (stringify j) of Some (JObj kvs) \<Rightarrow> Some (JObj kvs) | Some (JArr xs) \<Rightarrow> Some (JArr xs) | _ \<Rightarrow> None) = Some j"
    using parse_record [OF ok] by (simp add: kvs)
  have stub: "stubLine sha j (stringify j) meta = stringify (stubOf sha meta j) @ [nl]" by (simp add: stubLine_def stubOf_def)
  have "parse (stringify (stubOf sha meta j) @ [nl]) = Some (stubOf sha meta j)"
    using recordOk_stubOf [OF ok] by (intro parse_line) (simp add: recordOk_def)
  moreover obtain c where c: "classifyEntry date j t = Some c" using classify_total [OF assms(1)] by blast
  ultimately show ?thesis
    using stub unfolding scanLine_def sel
    by (cases c; cases "isRedactedEntry j")
       (simp_all add: Let_def matches_def blankIf_def blankPairs_def runsAfter_def markersAfter_def)
qed

end

definition flagged :: "(string \<Rightarrow> int option) \<Rightarrow> MatchTarget \<Rightarrow> json \<Rightarrow> bool \<times> json" where
  "flagged date t j = (matches date t j, j)"

definition ambiguousIn :: "(string \<Rightarrow> int option) \<Rightarrow> MatchTarget \<Rightarrow> json list \<Rightarrow> nat" where
  "ambiguousIn date t s = length (filter (\<lambda>j. \<not> isRedactedEntry j \<and> classifyEntry date j t = Some Ambiguous) s)"

lemma after_simps [simp]:
  "runsAfter sha [] r = r" "runsAfter sha (j # s) r = runsAfter sha s (if isRedactedEntry j then addRun sha j r else r)"
  "markersAfter [] m = m" "markersAfter (j # s) m = markersAfter s (if isRedactedEntry j then m else noteMarker j m)"
  by (simp_all add: runsAfter_def markersAfter_def)

lemma runsAfter_append: "runsAfter sha (s @ s') r = runsAfter sha s' (runsAfter sha s r)"
  by (simp add: runsAfter_def)

lemma markersAfter_append: "markersAfter (s @ s') m = markersAfter s' (markersAfter s m)"
  by (simp add: markersAfter_def)

context audit_env
begin

lemma blankPairs_append: "blankPairs meta (xs @ ys) = blankPairs meta xs @ blankPairs meta ys"
  by (simp add: blankPairs_def)

lemma scanLines_records:
  assumes "list_all goodRecord s" "rmRunId meta \<noteq> []"
  shows "scanLines sha parse date t meta (map stringify s) S =
     Some \<lparr>lsOut = lsOut S @ map (\<lambda>j. stringify (blankIf meta (flagged date t j))) s,
           lsPairs = lsPairs S @ blankPairs meta (map (flagged date t) s),
           lsMatched = lsMatched S + length (filter (matches date t) s), lsAmbiguous = lsAmbiguous S + ambiguousIn date t s,
           lsRuns = runsAfter sha s (lsRuns S), lsMarkers = markersAfter s (lsMarkers S)\<rparr>"
  using assms(1)
proof (induction s arbitrary: S)
  case Nil
  then show ?case by (simp add: blankPairs_def ambiguousIn_def)
next
  case (Cons j s)
  then have "goodRecord j" by simp
  from scanLine_record [OF this assms(2), of date t S] Cons show ?case
    by (simp add: flagged_def ambiguousIn_def blankPairs_def)
qed

definition planOf :: "(string \<Rightarrow> int option) \<Rightarrow> MatchTarget \<Rightarrow> RedactMeta \<Rightarrow> string option \<times> json list \<Rightarrow> FilePlan" where
  "planOf date t meta fs =
     \<lparr>fpName = fst fs,
      fpNewText = (if filter (matches date t) (snd fs) = [] then None
                   else Some (textOf (map (\<lambda>j. blankIf meta (flagged date t j)) (snd fs)))),
      fpPairs = blankPairs meta (map (flagged date t) (snd fs)), fpMatched = length (filter (matches date t) (snd fs)),
      fpAmbiguous = ambiguousIn date t (snd fs)\<rparr>"

lemma scanFile_records:
  assumes "list_all goodRecord s" "rmRunId meta \<noteq> []" "readLines gzLen fs f = Some (map stringify s)"
  shows "scanFile sha parse date gzLen fs t meta f sc =
     Some (sc\<lparr>scPlans := scPlans sc @ [planOf date t meta (f, s)], scRuns := runsAfter sha s (scRuns sc),
              scMarkers := markersAfter s (scMarkers sc), scLiveHasTail := scLiveHasTail sc \<or> (f = None \<and> s \<noteq> [])\<rparr>)"
proof -
  have "joinNl (map (\<lambda>j. stringify (blankIf meta (flagged date t j))) s) @ [nl] = textOf (map (\<lambda>j. blankIf meta (flagged date t j)) s)"
    if "s \<noteq> []" using joinNl_textOf [of "map (\<lambda>j. blankIf meta (flagged date t j)) s"] that by (simp add: comp_def)
  moreover have "s \<noteq> []" if "filter (matches date t) s \<noteq> []" using that by auto
  ultimately show ?thesis
    by (auto simp: scanFile_def assms(3) scanLines_records [OF assms(1,2)] planOf_def)
qed

lemma scanFiles_records:
  assumes "list_all (\<lambda>(f, s). list_all goodRecord s \<and> readLines gzLen fs f = Some (map stringify s)) fss" "rmRunId meta \<noteq> []"
  shows "scanFiles sha parse date gzLen fs t meta (map fst fss) sc =
     Some (sc\<lparr>scPlans := scPlans sc @ map (planOf date t meta) fss, scRuns := runsAfter sha (concat (map snd fss)) (scRuns sc),
              scMarkers := markersAfter (concat (map snd fss)) (scMarkers sc),
              scLiveHasTail := scLiveHasTail sc \<or> list_ex (\<lambda>(f, s). f = None \<and> s \<noteq> []) fss\<rparr>)"
  using assms(1)
proof (induction fss arbitrary: sc)
  case Nil
  then show ?case by simp
next
  case (Cons x fss)
  obtain f s where x: "x = (f, s)" by force
  then have "list_all goodRecord s" "readLines gzLen fs f = Some (map stringify s)" using Cons.prems by auto
  from scanFile_records [OF this(1) assms(2) this(2), of date t sc] Cons x show ?case
    by (auto simp: runsAfter_append markersAfter_append)
qed

end

section \<open>Rewriting the files\<close>

definition fileText :: "AuditFs \<Rightarrow> string option \<Rightarrow> string option" where
  "fileText fs f = (case f of None \<Rightarrow> fsLive fs
                    | Some n \<Rightarrow> (case find (\<lambda>a. arName a = n) (fsDir fs) of None \<Rightarrow> None | Some a \<Rightarrow> arText a))"

lemma rewriteFile_same [simp]:
  "fsBase (rewriteFile f x fs) = fsBase fs" "fsAnchor (rewriteFile f x fs) = fsAnchor fs"
  by (simp_all add: rewriteFile_def split: option.splits)

lemma rewriteFile_names: "map arName (fsDir (rewriteFile f x fs)) = map arName (fsDir fs)"
  by (simp add: rewriteFile_def split: option.splits)

lemma sort_key_map_key:
  assumes "\<And>x. k (f x) = k x"
  shows "sort_key k (map f xs) = map f (sort_key k xs)"
proof (induction xs)
  case (Cons x xs)
  have "insort_key k (f x) (map f ys) = map f (insort_key k x ys)" for ys using assms by (induction ys) auto
  then show ?case using Cons by simp
qed simp

lemma rewriteFile_archives:
  "listArchives (rewriteFile (Some n) x fs) = map (\<lambda>a. if arName a = n then a\<lparr>arText := Some x\<rparr> else a) (listArchives fs)"
proof -
  let ?f = "\<lambda>a :: Archive. if arName a = n then a\<lparr>arText := Some x\<rparr> else a"
  have "archiveKey b (?f a) = archiveKey b a" for b a by (simp add: archiveKey_def)
  note sort_key_map_key [of "archiveKey (fsBase fs)" ?f, OF this]
  moreover have "(\<lambda>a. startsWith (arName a) (fsBase fs @ ''.'') \<and> endsWith (arName a) ''.gz'') \<circ> ?f =
      (\<lambda>a. startsWith (arName a) (fsBase fs @ ''.'') \<and> endsWith (arName a) ''.gz'')" by (auto simp: fun_eq_iff)
  ultimately show ?thesis unfolding listArchives_def listRotatedArchives_def by (simp add: rewriteFile_def filter_map)
qed

lemma eraseFiles_rewrite:
  assumes "fsLive fs \<noteq> None"
  shows "eraseFiles (rewriteFile f x fs) = eraseFiles fs" "fsLive (rewriteFile f x fs) \<noteq> None"
proof -
  show "fsLive (rewriteFile f x fs) \<noteq> None" using assms by (simp add: rewriteFile_def split: option.splits)
  have "map arName (listArchives (rewriteFile f x fs)) = map arName (listArchives fs)"
  proof (cases f)
    case (Some n)
    then show ?thesis by (simp add: rewriteFile_archives comp_def if_distrib cong: if_cong)
  qed (simp add: rewriteFile_def listArchives_def)
  then have "map (\<lambda>a. Some (arName a)) (listArchives (rewriteFile f x fs)) = map (\<lambda>a. Some (arName a)) (listArchives fs)"
    unfolding map_map [of Some arName, unfolded comp_def, symmetric] by simp
  then show "eraseFiles (rewriteFile f x fs) = eraseFiles fs"
    using assms \<open>fsLive (rewriteFile f x fs) \<noteq> None\<close> by (simp add: eraseFiles_def)
qed

lemma fileText_rewrite:
  assumes "f \<in> set (eraseFiles fs)"
  shows "fileText (rewriteFile f x fs) g = (if g = f then Some x else fileText fs g)"
proof (cases f)
  case None
  then show ?thesis by (simp add: fileText_def rewriteFile_def split: option.splits)
next
  case (Some n)
  have "\<exists>a\<in>set (fsDir fs). arName a = n"
    using assms Some by (auto simp: eraseFiles_def listArchives_def listRotatedArchives_def split: if_splits)
  then have found: "find (\<lambda>a. arName a = n) (fsDir fs) \<noteq> None" by (auto simp: find_None_iff_all)
  let ?f = "\<lambda>a :: Archive. if arName a = n then a\<lparr>arText := Some x\<rparr> else a"
  have "find (\<lambda>a. arName a = m) (map ?f (fsDir fs)) = map_option ?f (find (\<lambda>a. arName a = m) (fsDir fs))" for m
    by (rule find_map_key) simp
  then have ft: "fileText (rewriteFile f x fs) (Some m) =
      (case find (\<lambda>a. arName a = m) (fsDir fs) of None \<Rightarrow> None | Some a \<Rightarrow> arText (?f a))" for m
    using Some by (cases "find (\<lambda>a. arName a = m) (fsDir fs)") (simp_all add: fileText_def rewriteFile_def)
  show ?thesis
  proof (cases g)
    case g: (Some m)
    show ?thesis
    proof (cases "find (\<lambda>a. arName a = m) (fsDir fs)")
      case None
      then show ?thesis using g ft [of m] found Some by (auto simp: fileText_def)
    next
      case a: (Some a)
      then have "arName a = m" using find_Some_mem [OF a] by simp
      then show ?thesis using g ft [of m] a Some by (simp add: fileText_def)
    qed
  qed (use Some in \<open>simp add: fileText_def rewriteFile_def\<close>)
qed

lemma rewriteAll_spec:
  assumes "distinct (map fpName ps)" "set (map fpName ps) \<subseteq> set (eraseFiles fs)" "fsLive fs \<noteq> None"
    "rewriteAll ok ps (fs, pairs, pb) = (fs', pairs', pb')"
  shows "eraseFiles fs' = eraseFiles fs \<and> fsLive fs' \<noteq> None \<and> fsBase fs' = fsBase fs \<and> fsAnchor fs' = fsAnchor fs \<and>
     map arName (fsDir fs') = map arName (fsDir fs) \<and>
     (\<forall>p\<in>set ps. fileText fs' (fpName p) = (if ok (fpName p) \<and> fpNewText p \<noteq> None then fpNewText p else fileText fs (fpName p))) \<and>
     (\<forall>f. f \<notin> set (map fpName ps) \<longrightarrow> fileText fs' f = fileText fs f) \<and>
     pairs' = pairs @ concat (map (\<lambda>p. if ok (fpName p) \<and> fpNewText p \<noteq> None then fpPairs p else []) ps)"
  using assms
proof (induction ps arbitrary: fs pairs pb)
  case (Cons p ps)
  define hit where "hit = (ok (fpName p) \<and> fpNewText p \<noteq> None)"
  define fs1 where "fs1 = (if hit then rewriteFile (fpName p) (the (fpNewText p)) fs else fs)"
  have mem: "fpName p \<in> set (eraseFiles fs)" using Cons.prems(2) by simp
  have "\<exists>pb1. rewriteAll ok ps (fs1, pairs @ (if hit then fpPairs p else []), pb1) = (fs', pairs', pb')"
    using Cons.prems(4) by (auto simp: hit_def fs1_def split: option.splits if_splits)
  then obtain pb1 where r: "rewriteAll ok ps (fs1, pairs @ (if hit then fpPairs p else []), pb1) = (fs', pairs', pb')" by blast
  have fs1: "eraseFiles fs1 = eraseFiles fs" "fsLive fs1 \<noteq> None" "fsBase fs1 = fsBase fs" "fsAnchor fs1 = fsAnchor fs"
    "map arName (fsDir fs1) = map arName (fsDir fs)"
    using Cons.prems(3) eraseFiles_rewrite by (auto simp: fs1_def rewriteFile_names)
  have ftext: "fileText fs1 g = (if hit \<and> g = fpName p then fpNewText p else fileText fs g)" for g
    using fileText_rewrite [OF mem] by (auto simp: fs1_def hit_def)
  have IH: "eraseFiles fs' = eraseFiles fs1 \<and> fsLive fs' \<noteq> None \<and> fsBase fs' = fsBase fs1 \<and> fsAnchor fs' = fsAnchor fs1 \<and>
     map arName (fsDir fs') = map arName (fsDir fs1) \<and>
     (\<forall>p\<in>set ps. fileText fs' (fpName p) = (if ok (fpName p) \<and> fpNewText p \<noteq> None then fpNewText p else fileText fs1 (fpName p))) \<and>
     (\<forall>f. f \<notin> set (map fpName ps) \<longrightarrow> fileText fs' f = fileText fs1 f) \<and>
     pairs' = (pairs @ (if hit then fpPairs p else [])) @ concat (map (\<lambda>p. if ok (fpName p) \<and> fpNewText p \<noteq> None then fpPairs p else []) ps)"
    using Cons.prems(1,2) fs1 by (intro Cons.IH [OF _ _ _ r]) auto
  have new: "fpName p \<notin> set (map fpName ps)" using Cons.prems(1) by simp
  then have "fileText fs' (fpName p) = (if hit then fpNewText p else fileText fs (fpName p))" using IH ftext by auto
  moreover have "fileText fs1 (fpName q) = fileText fs (fpName q)" if "q \<in> set ps" for q
  proof -
    have "fpName q \<noteq> fpName p" using new that by (metis image_eqI list.set_map)
    then show ?thesis using ftext by simp
  qed
  moreover have "fileText fs' f = fileText fs f" if "f \<notin> set (map fpName (p # ps))" for f using IH ftext that by auto
  moreover have "pairs' = pairs @ concat (map (\<lambda>p. if ok (fpName p) \<and> fpNewText p \<noteq> None then fpPairs p else []) (p # ps))"
    using IH by (simp add: hit_def)
  ultimately show ?case using IH fs1 unfolding hit_def by auto
qed auto

lemma archive_in_dir: "a \<in> set (listArchives fs) \<Longrightarrow> a \<in> set (fsDir fs)"
  by (auto simp: listArchives_def listRotatedArchives_def)

lemma fileTexts:
  assumes "dirOk fs" "fsLive fs \<noteq> None"
  shows "map (fileText fs) (eraseFiles fs) = map arText (listArchives fs) @ [fsLive fs]"
proof -
  have "fileText fs (Some (arName a)) = arText a" if "a \<in> set (listArchives fs)" for a
    using distinct_key_find [of arName "fsDir fs" a] archive_in_dir [OF that] assms(1) by (simp add: fileText_def dirOk_def)
  then show ?thesis using assms(2) by (simp add: eraseFiles_def fileText_def)
qed

lemma filesOk_texts:
  "filesOk fs as js \<longleftrightarrow> dirOk fs \<and> fsLive fs \<noteq> None \<and> map (fileText fs) (eraseFiles fs) = map (\<lambda>s. Some (textOf s)) (as @ [js]) \<and>
     (js = [] \<longrightarrow> filled as = [])"
  using fileTexts [of fs] by (auto simp: filesOk_def)

lemma readLines_text:
  "fileText fs f = Some t \<Longrightarrow> readLines gzLen fs f \<noteq> None \<Longrightarrow> readLines gzLen fs f = Some (splitLines t)"
  by (auto simp: readLines_def fileText_def split: option.splits if_splits)

lemma distinct_eraseFiles: "dirOk fs \<Longrightarrow> distinct (eraseFiles fs)"
proof -
  assume ok: "dirOk fs"
  then have "distinct (map arName (listArchives fs))"
    unfolding listArchives_dirOk [OF ok] by (intro distinct_map_sort_key) (simp add: dirOk_def)
  then have "distinct (map (\<lambda>a. Some (arName a)) (listArchives fs))" by (simp add: distinct_map inj_on_def)
  then show ?thesis by (auto simp: eraseFiles_def)
qed

lemma filled_map: "filled (map (map f) X) = map (map f) (filled X)"
  by (induction X) (auto simp: filled_def)

lemma recStep_strict: "recStep sha link noted x w = Some w1 \<Longrightarrow> rtStrict (snd w1) = rtStrict (snd w)"
  by (auto simp: recStep_def trackHash_def trackNote_def Let_def split: if_splits sum.splits option.splits)

lemma recWalk_strict: "recWalk sha link noted xs w = Some w1 \<Longrightarrow> rtStrict (snd w1) = rtStrict (snd w)"
  by (induction xs arbitrary: w) (auto dest: recStep_strict split: option.splits)

lemma chained_live_lax: "chained sha ah as js lh tr ltr \<Longrightarrow> \<not> rtStrict ltr"
  unfolding chained_def using recWalk_strict by (fastforce simp: newTracker_def)

lemma extraRun_new: "extraRun i ws [] (newTracker b) (newTracker b)"
  by (simp add: extraRun_def newTracker_def)

definition dropRun :: "string \<Rightarrow> RedactionTracker \<Rightarrow> RedactionTracker" where
  "dropRun i tr = tr\<lparr>rtPending := AList.delete i (rtPending tr), rtSeenMarkers := List.insert i (rtSeenMarkers tr)\<rparr>"

definition isMarker :: "json \<Rightarrow> bool" where
  "isMarker j \<longleftrightarrow> propOf j ''toolName'' = Some (JStr REDACT_MARKER_TOOL)"

lemma distinctKeys_markerArgs: "distinctKeys (markerArgs sha i run b)"
  by (simp add: markerArgs_def)

lemma trackNote_marker:
  assumes "propOf j ''toolName'' = Some (JStr REDACT_MARKER_TOOL)" "propOf j ''args'' = Some (markerArgs sha i run b)"
    "rtStrict tr \<Longrightarrow> map_of (rtPending tr) i = Some run"
  shows "trackNote sha tr j = Inr (dropRun i tr)"
proof -
  have "orNull j ''args'' = markerArgs sha i run b" using assms(2) by (simp add: orNull_def)
  moreover have "propStr (markerArgs sha i run b) ''runId'' = Some i" by (simp add: markerArgs_def propStr_def)
  moreover have "truthy (Some (markerArgs sha i run b))" by (simp add: markerArgs_def)
  ultimately show ?thesis using assms(1,3) by (simp add: trackNote_def Let_def dropRun_def) (simp add: markerArgs_def)
qed

context audit_env
begin

lemma goodRecord_stubOf: "goodRecord j \<Longrightarrow> plainRecord j \<Longrightarrow> rmRunId meta \<noteq> [] \<Longrightarrow> goodRecord (stubOf sha meta j)"
  using recordOk_stubOf [of j meta] isRedacted_stubOf [of meta j]
  by (simp add: goodRecord_def plainRecord_def propStr_def stubOf_def propOf_stub)

lemma marker_holding:
  assumes "holding sha parse st as js [] tr ltr" "js \<noteq> []" "map_of (rtPending tr) i = Some run"
  shows "\<exists>mj. isMarker mj \<and> holding sha parse (appendMarker sha parse user ts (markerArgs sha i run b) st) as (js @ [mj]) [] (dropRun i tr) (dropRun i ltr)"
proof -
  let ?e = "stampedEntry (markerCall (markerArgs sha i run b)) user ts (alLastHash st) None"
  have h: "filesOk (alFs st) as js" "list_all goodRecord (concat as @ js @ [])" "alQueue st = queued []"
    "chained sha (anchorHashOf sha parse (alFs st)) as js (alLastHash st) tr ltr"
    using assms(1) by (auto simp: holding_def)
  have props: "propOf (entryJson ?e) ''toolName'' = Some (JStr REDACT_MARKER_TOOL)" "propOf (entryJson ?e) ''redacted'' = None"
    "propOf (entryJson ?e) ''args'' = Some (markerArgs sha i run b)" "orNull (entryJson ?e) ''prevHash'' = hashJson (alLastHash st)"
    by (simp_all add: propOf_entry stampedEntry_def markerCall_def orNull_entry_prev)
  have good: "goodRecord (entryJson ?e)" by (rule goodRecord_entry) (auto simp: stampedEntry_def markerCall_def distinctKeys_markerArgs)
  let ?h = "Some (sha (stringify (entryJson ?e) @ [nl]))"
  have "recStep sha (historyLink ah) always (Inner, entryJson ?e) (alLastHash st, tr) = Some (?h, dropRun i tr)" for ah
    using props trackNote_marker [OF props(1,3), of tr] assms(3) by (simp add: recStep_def trackHash_def innerLink_def)
  moreover have "recStep sha (liveLink ah) notFirst (Inner, entryJson ?e) (alLastHash st, ltr) = Some (?h, dropRun i ltr)" for ah
    using props trackNote_marker [OF props(1,3), of ltr] chained_live_lax [OF h(4)] by (simp add: recStep_def trackHash_def innerLink_def)
  ultimately have "chained sha (anchorHashOf sha parse (alFs st)) as (js @ [] @ [entryJson ?e]) ?h (dropRun i tr) (dropRun i ltr)"
    using chained_snoc [OF h(4) assms(2)] by simp
  from appendEntry_holding [OF h(1-3) good, of "dropRun i tr" "dropRun i ltr" True] this
  obtain js' qs' where q: "js' @ qs' = js @ [entryJson ?e]"
    "holding sha parse (appendEntry sha True ?e st) as js' qs' (dropRun i tr) (dropRun i ltr)" by auto
  have "qs' = []" using q(2) h(3) by (simp add: holding_def appendEntry_def Let_def queued_def)
  moreover have "appendMarker sha parse user ts (markerArgs sha i run b) st = appendEntry sha True ?e st"
    using resync_holding(1) [OF assms(1)] assms(2)
    by (cases "alLastHash st") (simp_all add: appendMarker_def handleAppend_def)
  ultimately show ?thesis using q props(1) by (auto simp: isMarker_def)
qed

lemma markers_holding:
  assumes "holding sha parse st as js [] tr ltr" "js \<noteq> []" "distinct (map fst ms)"
    "\<And>i r b. (i, r, b) \<in> set ms \<Longrightarrow> map_of (rtPending tr) i = Some r"
  shows "\<exists>ns. list_all isMarker ns \<and>
     holding sha parse (fold (appendMarker sha parse user ts) (map (\<lambda>(i, r, b). markerArgs sha i r b) ms) st) as (js @ ns) []
       (fold dropRun (map fst ms) tr) (fold dropRun (map fst ms) ltr)"
  using assms
proof (induction ms arbitrary: st js tr ltr)
  case Nil
  then show ?case by (intro exI [of _ "[]"]) simp
next
  case (Cons m ms)
  obtain i r b where m: "m = (i, r, b)" by (cases m) auto
  have "map_of (rtPending tr) i = Some r" using Cons.prems(4) m by auto
  from marker_holding [OF Cons.prems(1,2) this, of user ts b] obtain mj where
    mj: "isMarker mj" and h: "holding sha parse (appendMarker sha parse user ts (markerArgs sha i r b) st) as (js @ [mj]) [] (dropRun i tr) (dropRun i ltr)" by blast
  have step: "map_of (rtPending (dropRun i tr)) i' = Some r'" if "(i', r', b') \<in> set ms" for i' r' b'
  proof -
    have "i' \<noteq> i" using that Cons.prems(3) m by force
    then show ?thesis using that Cons.prems(4) by (auto simp: dropRun_def delete_conv')
  qed
  have "\<exists>ns. list_all isMarker ns \<and>
     holding sha parse (fold (appendMarker sha parse user ts) (map (\<lambda>(i, r, b). markerArgs sha i r b) ms)
       (appendMarker sha parse user ts (markerArgs sha i r b) st)) as ((js @ [mj]) @ ns) []
       (fold dropRun (map fst ms) (dropRun i tr)) (fold dropRun (map fst ms) (dropRun i ltr))"
    by (rule Cons.IH [OF h]) (use Cons.prems(3) m step in auto)
  then obtain ns where "list_all isMarker ns" "holding sha parse (fold (appendMarker sha parse user ts)
      (map (\<lambda>(i, r, b). markerArgs sha i r b) (m # ms)) st) as (js @ mj # ns) []
      (fold dropRun (map fst (m # ms)) tr) (fold dropRun (map fst (m # ms)) ltr)" using m by auto
  then show ?case using mj by (intro exI [of _ "mj # ns"]) simp
qed

end

section \<open>The blank-out keeps the chain\<close>

lemma distinct_runsAfter: "distinct (map fst r) \<Longrightarrow> distinct (map fst (runsAfter sha s r))"
  by (induction s arbitrary: r) (auto simp: addRun_def Let_def distinct_update)

lemma fold_dropRun: "map_of (rtPending (fold dropRun is tr)) i = (if i \<in> set is then None else map_of (rtPending tr) i)"
  by (induction "is" arbitrary: tr) (auto simp: dropRun_def delete_conv')

lemma map_of_empty_list: "(\<And>i. map_of xs i = None) \<Longrightarrow> xs = []"
  by (metis empty_eq_map_of_iff ext)

context audit_env
begin

definition blankSlot :: "(string \<Rightarrow> int option) \<Rightarrow> MatchTarget \<Rightarrow> (string option \<Rightarrow> bool) \<Rightarrow> string option \<times> json list \<Rightarrow> (bool \<times> json) list" where
  "blankSlot date t ok x = map (\<lambda>j. (ok (fst x) \<and> matches date t j, j)) (snd x)"

lemma blankSlot_text:
  "map (blankIf meta) (blankSlot date t ok (f, s)) =
     (if ok f \<and> filter (matches date t) s \<noteq> [] then map (\<lambda>j. blankIf meta (flagged date t j)) s else s)"
proof (cases "ok f \<and> filter (matches date t) s \<noteq> []")
  case True
  then show ?thesis by (simp add: blankSlot_def flagged_def comp_def)
next
  case False
  then have "\<not> (ok f \<and> matches date t j)" if "j \<in> set s" for j using that by (auto simp: filter_empty_conv)
  then have "map (\<lambda>j. blankIf meta (ok f \<and> matches date t j, j)) s = map id s" by (intro map_cong) (auto simp: blankIf_def)
  then show ?thesis using False by (auto simp: blankSlot_def comp_def)
qed

lemma blankSlot_pairs:
  "blankPairs meta (blankSlot date t ok (f, s)) =
     (if ok f \<and> filter (matches date t) s \<noteq> [] then blankPairs meta (map (flagged date t) s) else [])"
proof (cases "ok f")
  case True
  then show ?thesis by (auto simp: blankSlot_def flagged_def blankPairs_def filter_map comp_def)
next
  case False
  then show ?thesis by (simp add: blankSlot_def blankPairs_def filter_map comp_def)
qed

lemma blankPairs_concat: "blankPairs meta (concat X) = concat (map (blankPairs meta) X)"
  by (induction X) (simp_all add: blankPairs_append blankPairs_def)

lemma map_snd_blankSlot: "map snd (blankSlot date t ok x) = snd x"
  by (simp add: blankSlot_def comp_def)

lemma chained_blank:
  assumes "chained sha ah as js lh tr ltr" "ah \<noteq> Some []" "rmRunId meta \<noteq> []" "map (map snd) X = as" "map snd xl = js"
    "\<And>b j. (b, j) \<in> set (concat X @ xl) \<Longrightarrow> \<not> mentionsRun (rmRunId meta) j \<and> (b \<longrightarrow> plainRecord j)"
  shows "\<exists>tr' ltr'. chained sha ah (map (map (blankIf meta)) X) (map (blankIf meta) xl) lh tr' ltr' \<and>
     extraRun (rmRunId meta) (rmWorkspaceId meta) (blankPairs meta (concat X @ xl)) tr tr'"
proof -
  let ?Y = "filled (X @ [xl])"
  have slots: "filled (map (map f) X @ [map f xl]) = map (map f) ?Y" for f :: "bool \<times> json \<Rightarrow> json"
    using filled_map [of f "X @ [xl]"] by simp
  have w: "recWalk sha (historyLink ah) always (map (apsnd snd) (tagAll ?Y)) (None, newTracker True) = Some (lh, tr)"
    using assms(1) unfolding chained_def assms(4,5) [symmetric] slots tagAll_map by simp
  have mem: "snd ` set (tagAll ?Y) = set (concat X @ xl)"
    using map_snd_tagAll [of ?Y] by (metis concat_filled concat_append concat.simps append_Nil2 list.set_map)
  have ok: "\<not> mentionsRun (rmRunId meta) j \<and> (b \<longrightarrow> plainRecord j)" if "(b, j) \<in> snd ` set (tagAll ?Y)" for b j
    using assms(6) that unfolding mem .
  from recWalk_blank [OF w extraRun_new assms(3) keepsLink_history [OF assms(2)] ok]
  obtain tr' where tr': "recWalk sha (historyLink ah) always (map (apsnd (blankIf meta)) (tagAll ?Y)) (None, newTracker True) = Some (lh, tr')"
    "extraRun (rmRunId meta) (rmWorkspaceId meta) (blankPairs meta (map snd (tagAll ?Y))) tr tr'" by auto
  have l: "recWalk sha (liveLink ah) notFirst (map (apsnd snd) (tagSeg Genesis xl)) (None, newTracker False) = Some (if js = [] then None else lh, ltr)"
    using assms(1) unfolding chained_def assms(5) [symmetric] tagSeg_map by simp
  have okl: "\<not> mentionsRun (rmRunId meta) j \<and> (b \<longrightarrow> plainRecord j)" if "(b, j) \<in> snd ` set (tagSeg Genesis xl)" for b j
    using assms(6) that map_snd_tagSeg [of Genesis xl] by (metis UnI2 list.set_map set_append)
  from recWalk_blank [OF l extraRun_new assms(3) keepsLink_live [OF assms(2)] okl]
  obtain ltr' where ltr': "recWalk sha (liveLink ah) notFirst (map (apsnd (blankIf meta)) (tagSeg Genesis xl)) (None, newTracker False) =
      Some (if js = [] then None else lh, ltr')" by auto
  have "chained sha ah (map (map (blankIf meta)) X) (map (blankIf meta) xl) lh tr' ltr'"
    unfolding chained_def slots tagAll_map tagSeg_map using tr'(1) ltr' assms(5) by auto
  moreover have "map snd (tagAll ?Y) = concat X @ xl" by simp
  ultimately show ?thesis using tr'(2) by auto
qed

end

text \<open>The markers of a blank-out are those of the runs the tracker has pending.\<close>

lemma orphans_pending:
  fixes sc :: Scan and pairs :: "string list" and runId ws :: string
  defines "ms \<equiv> map (\<lambda>(i, r). (i, r, True)) (orphanRuns sc) @ (if pairs = [] then [] else [(runId, \<lparr>rrWorkspaceId = ws, rrPairs = pairs\<rparr>, False)])"
  assumes "tracks tr (scRuns sc) (scMarkers sc)" "distinct (map fst (scRuns sc))" "extraRun runId ws pairs tr tr1"
  shows "distinct (map fst ms)" "(i, r, b) \<in> set ms \<Longrightarrow> map_of (rtPending tr1) i = Some r"
    "i \<notin> set (map fst ms) \<Longrightarrow> map_of (rtPending tr1) i = None"
proof -
  have none: "map_of (rtPending tr) runId = None" and upd: "map_of (rtPending tr1) =
      (map_of (rtPending tr))(runId := if pairs = [] then None else Some \<lparr>rrWorkspaceId = ws, rrPairs = pairs\<rparr>)"
    using assms(4) by (auto simp: extraRun_def)
  have orphan: "map_of (rtPending tr) i = Some r \<longleftrightarrow> (i, r) \<in> set (orphanRuns sc)" for i r
    using assms(2) map_of_eq_Some_iff [OF assms(3)] by (auto simp: tracks_def orphanRuns_def split: if_splits)
  then have new: "runId \<notin> fst ` set (orphanRuns sc)" using none by force
  have "distinct (map fst (orphanRuns sc))" using assms(3) by (simp add: orphanRuns_def distinct_map_filter)
  then show "distinct (map fst ms)" using new by (auto simp: ms_def comp_def case_prod_beta)
  show "map_of (rtPending tr1) i = Some r" if "(i, r, b) \<in> set ms"
  proof (cases "(i, r) \<in> set (orphanRuns sc)")
    case True
    then have "i \<noteq> runId" using new by force
    then show ?thesis using True orphan upd by simp
  next
    case False
    then show ?thesis using that upd by (auto simp: ms_def split: if_splits)
  qed
  show "map_of (rtPending tr1) i = None" if "i \<notin> set (map fst ms)"
  proof -
    have "map_of (rtPending tr) i \<noteq> Some r" for r using that orphan [of i r] by (force simp: ms_def)
    then have "map_of (rtPending tr) i = None" by (cases "map_of (rtPending tr) i") auto
    then show ?thesis using that upd by (auto simp: ms_def split: if_splits)
  qed
qed

lemma filter_length_le:
  assumes "\<And>x. x \<in> set xs \<Longrightarrow> Q x \<Longrightarrow> P x" "length (filter P xs) \<le> length (filter Q xs)" "x \<in> set xs" "P x"
  shows "Q x"
proof (rule ccontr)
  assume "\<not> Q x"
  have "filter Q (filter P xs) = filter Q xs" using assms(1) by (auto intro: filter_cong)
  then show False using length_filter_less [of x "filter P xs" Q] \<open>\<not> Q x\<close> assms(2-4) by simp
qed

lemma tracks_new: "tracks (newTracker b) [] []"
  by (simp add: tracks_def newTracker_def)

context audit_env
begin

lemma blank_files:
  assumes "filesOk fs as js" "list_all goodRecord (concat as @ js)" "rmRunId meta \<noteq> []"
    "fss = zip (eraseFiles fs) (as @ [js])"
    "rewriteAll ok (map (planOf date t meta) fss) (fs, [], pb) = (fs', pairs, pb')"
  shows "filesOk fs' (map (\<lambda>x. map (blankIf meta) (blankSlot date t ok x)) (butlast fss)) (map (blankIf meta) (blankSlot date t ok (last fss))) \<and>
     fsAnchor fs' = fsAnchor fs \<and> pairs = blankPairs meta (concat (map (blankSlot date t ok) fss)) \<and>
     map fst fss = eraseFiles fs \<and> map snd fss = as @ [js]"
proof -
  let ?g = "\<lambda>x. map (blankIf meta) (blankSlot date t ok x)"
  have texts: "map (fileText fs) (eraseFiles fs) = map (\<lambda>s. Some (textOf s)) (as @ [js])" and dir: "dirOk fs" and live: "fsLive fs \<noteq> None"
    and nil: "js = [] \<longrightarrow> filled as = []"
    using assms(1) unfolding filesOk_texts by auto
  have len: "length (eraseFiles fs) = length (as @ [js])" using arg_cong [OF texts, of length] by simp
  then have fst: "map fst fss = eraseFiles fs" and snd: "map snd fss = as @ [js]" using assms(4) by auto
  have fss: "fss \<noteq> []" using snd by auto
  have names: "map fpName (map (planOf date t meta) fss) = eraseFiles fs" using fst by (simp add: planOf_def comp_def)
  have at: "fileText fs f = Some (textOf s)" if "(f, s) \<in> set fss" for f s
    using that texts unfolding fst [symmetric] snd [symmetric] by (auto simp: comp_def)
  have pr: "distinct (map fpName (map (planOf date t meta) fss))" "set (map fpName (map (planOf date t meta) fss)) \<subseteq> set (eraseFiles fs)"
    unfolding names using distinct_eraseFiles [OF dir] by auto
  note spec = rewriteAll_spec [OF pr live assms(5)]
  have sp: "eraseFiles fs' = eraseFiles fs" "fsLive fs' \<noteq> None" "fsBase fs' = fsBase fs" "fsAnchor fs' = fsAnchor fs"
     "map arName (fsDir fs') = map arName (fsDir fs)"
     "\<And>p. p \<in> set (map (planOf date t meta) fss) \<Longrightarrow>
        fileText fs' (fpName p) = (if ok (fpName p) \<and> fpNewText p \<noteq> None then fpNewText p else fileText fs (fpName p))"
     "pairs = [] @ concat (map (\<lambda>p. if ok (fpName p) \<and> fpNewText p \<noteq> None then fpPairs p else []) (map (planOf date t meta) fss))"
    using spec by blast+
  have "fileText fs' f = Some (textOf (?g (f, s)))" if "(f, s) \<in> set fss" for f s
  proof -
    have "planOf date t meta (f, s) \<in> set (map (planOf date t meta) fss)" using that by simp
    from sp(6) [OF this] at [OF that] show ?thesis unfolding blankSlot_text by (auto simp: planOf_def)
  qed
  then have "map (fileText fs') (map fst fss) = map (\<lambda>s. Some (textOf s)) (map ?g fss)" by (auto simp: comp_def)
  moreover have "map ?g fss = map ?g (butlast fss) @ [?g (last fss)]" using fss by (metis append_butlast_last_id list.simps(8,9) map_append)
  ultimately have texts': "map (fileText fs') (eraseFiles fs') = map (\<lambda>s. Some (textOf s)) (map ?g (butlast fss) @ [?g (last fss)])"
    unfolding fst sp(1) by simp
  have "dirOk fs'"
  proof -
    have "startsWith (arName a) (fsBase fs @ ''.'') \<and> endsWith (arName a) ''.gz''" if "a \<in> set (fsDir fs')" for a
    proof -
      have "arName a \<in> arName ` set (fsDir fs)" using that sp(5) by (metis image_eqI list.set_map)
      then show ?thesis using dir by (auto simp: dirOk_def)
    qed
    then show ?thesis using dir sp(3,5) by (simp add: dirOk_def)
  qed
  moreover have "?g (last fss) = [] \<longrightarrow> filled (map ?g (butlast fss)) = []"
  proof -
    have "snd (last fss) = js" "map snd (butlast fss) = as" using snd fss last_map [of fss snd] map_butlast [of snd fss] by simp_all
    then have "snd s = []" if "?g (last fss) = []" "s \<in> set (butlast fss)" for s
      using that nil by (auto simp: filled_Nil blankSlot_def)
    then show ?thesis by (fastforce simp: filled_Nil blankSlot_def)
  qed
  ultimately have "filesOk fs' (map ?g (butlast fss)) (?g (last fss))" unfolding filesOk_texts using texts' sp(2) by blast
  moreover have "pairs = blankPairs meta (concat (map (blankSlot date t ok) fss))"
    unfolding sp(7) blankPairs_concat by (auto simp: comp_def planOf_def blankSlot_pairs intro!: arg_cong [of _ _ concat])
  ultimately show ?thesis using sp(4) fst snd by blast
qed

definition erased ::
  "RedactMeta \<Rightarrow> (string \<Rightarrow> int option) \<Rightarrow> MatchTarget \<Rightarrow> EraseStatus \<Rightarrow> json list \<Rightarrow> json list \<Rightarrow> bool" where
  "erased meta date t s old new \<longleftrightarrow>
     (\<exists>xs ms. new = map (blankIf meta) xs @ ms \<and> map snd xs = old \<and> list_all isMarker ms \<and>
        (\<forall>x\<in>set xs. fst x \<longrightarrow> matches date t (snd x)) \<and>
        (s \<noteq> ErasePartial \<longrightarrow> (\<forall>x\<in>set xs. matches date t (snd x) \<longrightarrow> fst x)) \<and>
        (s = EraseComplete \<longrightarrow> (\<forall>x\<in>set xs. classifyEntry date (snd x) t \<noteq> Some Ambiguous)))"

lemma matched_count:
  "sum_list (map fpMatched (map (planOf date t meta) fss)) =
     length (filter (\<lambda>x. matches date t (snd x)) (concat (map (blankSlot date t ok) fss)))"
  by (induction fss) (auto simp: planOf_def blankSlot_def filter_map comp_def)

lemma ambiguous_none:
  assumes "sum_list (map fpAmbiguous (map (planOf date t meta) fss)) = 0" "x \<in> set (concat (map (blankSlot date t ok) fss))"
  shows "classifyEntry date (snd x) t \<noteq> Some Ambiguous"
proof
  assume amb: "classifyEntry date (snd x) t = Some Ambiguous"
  then have "\<not> isRedactedEntry (snd x)" by (auto simp: classifyEntry_def isRedactedEntry_def split: if_splits)
  moreover obtain f where "f \<in> set fss" "snd x \<in> set (snd f)" using assms(2) by (auto simp: blankSlot_def)
  moreover have "fpAmbiguous (planOf date t meta f) = 0" using assms(1) calculation(2) by simp
  ultimately show False using amb by (auto simp: planOf_def ambiguousIn_def filter_empty_conv)
qed

lemma erase_holding:
  assumes h: "holding sha parse st as js [] tr ltr"
    and readable: "\<And>f. f \<in> set (eraseFiles (alFs st)) \<Longrightarrow> readLines gzLen (alFs st) f \<noteq> None"
    and run: "runId \<noteq> []" and fresh: "\<And>j. j \<in> set (concat as @ js) \<Longrightarrow> \<not> mentionsRun runId j"
    and res: "eraseSection sha parse date gzLen ok n user ts (eraseFiles (alFs st)) t runId at' st = (r, st')"
  shows "\<exists>as' js' tr' ltr'. holding sha parse st' as' js' [] tr' ltr' \<and> alParked st' = alParked st \<and>
           (esStatus r \<noteq> ErasePartial \<longrightarrow> rtPending tr' = []) \<and>
           erased \<lparr>rmAt = at', rmWorkspaceId = mtId t, rmRunId = runId\<rparr> date t (esStatus r) (concat as @ js) (concat as' @ js')"
proof -
  let ?meta = "\<lparr>rmAt = at', rmWorkspaceId = mtId t, rmRunId = runId\<rparr>"
  have files: "filesOk (alFs st) as js" and good: "list_all goodRecord (concat as @ js)" and queue: "alQueue st = []"
    and ch: "chained sha (anchorHashOf sha parse (alFs st)) as js (alLastHash st) tr ltr"
    using h by (auto simp: holding_def queued_def)
  define fss where "fss = zip (eraseFiles (alFs st)) (as @ [js])"
  obtain fs' pairs pb' where rw: "rewriteAll ok (map (planOf date t ?meta) fss) (alFs st, [], 0) = (fs', pairs, pb')" by (metis prod_cases3)
  have mrun: "rmRunId ?meta \<noteq> []" using run by simp
  note bf = blank_files [OF files good mrun fss_def rw]
  have fst: "map fst fss = eraseFiles (alFs st)" and snd: "map snd fss = as @ [js]" using bf by auto
  have scanned: "list_all (\<lambda>(f, s). list_all goodRecord s \<and> readLines gzLen (alFs st) f = Some (map stringify s)) fss"
  proof -
    have texts: "map (fileText (alFs st)) (eraseFiles (alFs st)) = map (\<lambda>s. Some (textOf s)) (as @ [js])"
      using files unfolding filesOk_texts by blast
    have "list_all goodRecord s \<and> readLines gzLen (alFs st) f = Some (map stringify s)" if m: "(f, s) \<in> set fss" for f s
    proof
      have "s \<in> set (as @ [js])" unfolding snd [symmetric] using m by force
      then show "list_all goodRecord s" using good by (auto simp: list_all_iff)
      have "f \<in> set (eraseFiles (alFs st))" unfolding fst [symmetric] using m by force
      moreover have "fileText (alFs st) f = Some (textOf s)"
        using m texts unfolding fst [symmetric] snd [symmetric] by (auto simp: comp_def)
      ultimately show "readLines gzLen (alFs st) f = Some (map stringify s)" using readLines_text readable splitLines_textOf by metis
    qed
    then show ?thesis by (auto simp: list_all_iff)
  qed
  define sc where "sc = emptyScan\<lparr>scPlans := map (planOf date t ?meta) fss, scRuns := runsAfter sha (concat as @ js) [],
      scMarkers := markersAfter (concat as @ js) [], scLiveHasTail := (js \<noteq> [])\<rparr>"
  have "fss = zip (map (\<lambda>a. Some (arName a)) (listArchives (alFs st))) as @ [(None, js)]"
    using files by (simp add: fss_def eraseFiles_def filesOk_def zip_append1 flip: length_map [of arText])
  then have "list_ex (\<lambda>(f, s). f = None \<and> s \<noteq> []) fss \<longleftrightarrow> js \<noteq> []" by (auto simp: list_ex_iff dest!: set_zip_leftD)
  then have scan: "scanFiles sha parse date gzLen (alFs st) t ?meta (eraseFiles (alFs st)) emptyScan = Some sc"
    using scanFiles_records [OF scanned mrun, of date t emptyScan] unfolding fst by (simp add: sc_def emptyScan_def snd)
  define X where "X = map (blankSlot date t ok) (butlast fss)"
  define xl where "xl = blankSlot date t ok (last fss)"
  have fss: "fss \<noteq> []" using snd by auto
  have X: "map (map snd) X = as" "map snd xl = js"
    using snd fss last_map [of fss snd] map_butlast [of snd fss]
    by (simp_all add: X_def xl_def comp_def map_snd_blankSlot)
  have all: "concat (map (blankSlot date t ok) fss) = concat X @ xl"
  proof -
    have "fss = butlast fss @ [last fss]" using fss by simp
    then have "map (blankSlot date t ok) fss = X @ [xl]" unfolding X_def xl_def by (metis list.simps(8,9) map_append)
    then show ?thesis by simp
  qed
  have flags: "j \<in> set (concat as @ js)" "b \<longrightarrow> plainRecord j" if "(b, j) \<in> set (concat X @ xl)" for b j
  proof -
    have "map snd (concat X @ xl) = concat as @ js" using X by (simp add: map_concat)
    then show "j \<in> set (concat as @ js)" using that by (metis image_eqI list.set_map snd_conv)
    show "b \<longrightarrow> plainRecord j" using that unfolding all [symmetric] by (auto simp: blankSlot_def matches_plain)
  qed
  obtain tr1 ltr1 where ch1: "chained sha (anchorHashOf sha parse (alFs st)) (map (map (blankIf ?meta)) X) (map (blankIf ?meta) xl) (alLastHash st) tr1 ltr1"
    and extra: "extraRun runId (mtId t) (blankPairs ?meta (concat X @ xl)) tr tr1"
    using chained_blank [OF ch anchor_nonempty mrun X] flags fresh by auto
  have pairs: "pairs = blankPairs ?meta (concat X @ xl)" using bf all by simp
  have files1: "filesOk fs' (map (map (blankIf ?meta)) X) (map (blankIf ?meta) xl)" and anchor1: "anchorHashOf sha parse fs' = anchorHashOf sha parse (alFs st)"
    using bf by (simp_all add: X_def xl_def comp_def anchorHashOf_def readAnchor_def)
  have good1: "list_all goodRecord (concat (map (map (blankIf ?meta)) X) @ map (blankIf ?meta) xl)"
  proof -
    have "goodRecord (blankIf ?meta x)" if "x \<in> set (concat X @ xl)" for x
      using flags [of "fst x" "snd x"] that good goodRecord_stubOf [of "snd x" ?meta] run by (auto simp: blankIf_def list_all_iff)
    then show ?thesis by (auto simp: list_all_iff)
  qed
  have h1: "holding sha parse (st\<lparr>alFs := fs'\<rparr>) (map (map (blankIf ?meta)) X) (map (blankIf ?meta) xl) [] tr1 ltr1"
    using files1 good1 queue ch1 anchor1 by (simp add: holding_def queued_def)
  show ?thesis
  proof (cases "(sum_list (map fpMatched (scPlans sc)) > 0 \<or> orphanRuns sc \<noteq> []) \<and> \<not> scLiveHasTail sc")
    case True
    then have "r = eraseStep ErasePartial 0 (sum_list (map fpMatched (scPlans sc))) 0" "st' = st"
      using res scan by (simp_all add: eraseSection_def Let_def)
    moreover have "erased ?meta date t ErasePartial (concat as @ js) (concat as @ js)" unfolding erased_def
      by (intro exI [of _ "map (Pair False) (concat as @ js)"] exI [of _ "[]"]) (auto simp: blankIf_def comp_def)
    ultimately show ?thesis using h by (auto simp: eraseStep_def)
  next
    case False
    let ?ms = "runMarkers sha (orphanRuns sc) runId (mtId t) pairs"
    have st': "st' = fold (appendMarker sha parse user ts) (take n ?ms) (st\<lparr>alFs := fs'\<rparr>)"
      and st: "esStatus r \<noteq> ErasePartial \<Longrightarrow> length ?ms \<le> n"
      and counts: "esStatus r \<noteq> ErasePartial \<Longrightarrow> sum_list (map fpMatched (map (planOf date t ?meta) fss)) \<le> length pairs"
        "esStatus r = EraseComplete \<Longrightarrow> sum_list (map fpAmbiguous (map (planOf date t ?meta) fss)) = 0"
    proof -
      have sc: "scPlans sc = map (planOf date t ?meta) fss" "scProblems sc = 0" by (simp_all add: sc_def emptyScan_def)
      note res' = res [unfolded eraseSection_def Let_def scan option.case if_not_P [OF False], unfolded sc rw prod.case]
      show "st' = fold (appendMarker sha parse user ts) (take n ?ms) (st\<lparr>alFs := fs'\<rparr>)" using res' by simp
      show "length ?ms \<le> n" "sum_list (map fpMatched (map (planOf date t ?meta) fss)) \<le> length pairs" if "esStatus r \<noteq> ErasePartial"
        using res' that by (auto simp: eraseStep_def split: if_splits)
      show "sum_list (map fpAmbiguous (map (planOf date t ?meta) fss)) = 0" if "esStatus r = EraseComplete"
        using res' that by (auto simp: eraseStep_def simp del: sum_list_eq_0_iff split: if_splits)
    qed
    define ms where "ms = map (\<lambda>(i, r). (i, r, True)) (orphanRuns sc) @ (if pairs = [] then [] else [(runId, \<lparr>rrWorkspaceId = mtId t, rrPairs = pairs\<rparr>, False)])"
    have msEq: "?ms = map (\<lambda>(i, r, b). markerArgs sha i r b) ms" by (auto simp: runMarkers_def ms_def comp_def)
    have tracked: "tracks tr (scRuns sc) (scMarkers sc)"
      using tracks_walk [OF _ _ tracks_new, of sha "historyLink (anchorHashOf sha parse (alFs st))" "tagAll (filled (as @ [js]))" None True "alLastHash st" tr]
        ch good by (simp add: chained_def sc_def newTracker_def)
    have "distinct (map fst (scRuns sc))" using distinct_runsAfter [of "[]" sha] by (simp add: sc_def)
    note orph = orphans_pending [OF tracked this extra [folded pairs], folded ms_def]
    have tail: "map (blankIf ?meta) xl = [] \<Longrightarrow> ms = []"
    proof -
      assume "map (blankIf ?meta) xl = []"
      then have "js = []" using X by simp
      then have no: "sum_list (map fpMatched (scPlans sc)) = 0" "orphanRuns sc = []" using False by (auto simp: sc_def)
      have "filter fst (concat X @ xl) = []" unfolding all [symmetric]
        using no(1) by (auto simp: sc_def planOf_def blankSlot_def filter_empty_conv)
      then have "pairs = []" by (simp only: pairs blankPairs_def list.map)
      then show "ms = []" using no(2) by (simp add: ms_def)
    qed
    obtain ns tr' ltr' where h2: "holding sha parse st' (map (map (blankIf ?meta)) X) (map (blankIf ?meta) xl @ ns) [] tr' ltr'"
      and ns: "list_all isMarker ns" and tr': "tr' = fold dropRun (map fst (take n ms)) tr1"
    proof (cases "map (blankIf ?meta) xl = []")
      case True
      then show thesis using that [of "[]" tr1] h1 tail st' msEq by simp
    next
      case False
      have "distinct (map fst (take n ms))" using orph(1) by (simp add: take_map [symmetric])
      moreover have "map_of (rtPending tr1) i = Some r" if "(i, r, b) \<in> set (take n ms)" for i r b
        using orph(2) that by (meson in_set_takeD)
      ultimately show thesis
        using markers_holding [OF h1 False, of "take n ms" user ts] that st' msEq by (auto simp: take_map)
    qed
    have "rtPending tr' = []" if "esStatus r \<noteq> ErasePartial"
    proof (rule map_of_empty_list)
      fix i
      have "take n ms = ms" using st [OF that] msEq by simp
      then show "map_of (rtPending tr') i = None" using tr' orph(3) by (auto simp: fold_dropRun)
    qed
    moreover have "alParked st' = alParked st"
      unfolding st' by (rule fold_invariant [where Q = "\<lambda>_. True" and P = "\<lambda>s. alParked s = alParked st"])
        (auto simp: appendMarker_def handleAppend_def appendEntry_def Let_def)
    moreover have "erased ?meta date t (esStatus r) (concat as @ js) (concat (map (map (blankIf ?meta)) X) @ map (blankIf ?meta) xl @ ns)"
    proof -
      have sound: "matches date t (snd x)" if "x \<in> set (concat X @ xl)" "fst x" for x
        using that unfolding all [symmetric] by (auto simp: blankSlot_def)
      have "length pairs = length (filter fst (concat X @ xl))" unfolding pairs by (simp add: blankPairs_def)
      then have "fst x" if "esStatus r \<noteq> ErasePartial" "x \<in> set (concat X @ xl)" "matches date t (snd x)" for x
        using filter_length_le [of "concat X @ xl" fst "\<lambda>x. matches date t (snd x)", OF sound _ that(2,3)] counts(1) [OF that(1)]
        unfolding matched_count [of date t ?meta fss ok] all by simp
      moreover have "classifyEntry date (snd x) t \<noteq> Some Ambiguous" if "esStatus r = EraseComplete" "x \<in> set (concat X @ xl)" for x
        using ambiguous_none [OF counts(2) [OF that(1)]] that(2) unfolding all [symmetric] .
      moreover have "map snd (concat X @ xl) = concat as @ js" using X by (simp add: map_concat)
      ultimately show ?thesis unfolding erased_def using sound ns
        by (intro exI [of _ "concat X @ xl"] exI [of _ ns]) (auto simp: map_concat)
    qed
    ultimately show ?thesis using h2 by blast
  qed
qed

end

end
