(* ===== verification/Sha256.thy ===== *)
theory Sha256
  imports "HOL-Library.Word"
begin

text \<open>
  SHA-256 as \<open>createHash('sha256').update(s, 'utf-8').digest('hex')\<close> of \<open>security/auditChain.ts\<close> computes it (FIPS 180-4): the
  padded message in blocks of sixteen 32-bit words, the schedule, the 64 rounds and the text of the digest. A character of a
  model string is one byte of the text.
\<close>

unbundle bit_operations_syntax

type_synonym word32 = "32 word"
type_synonym sha_state = "word32 \<times> word32 \<times> word32 \<times> word32 \<times> word32 \<times> word32 \<times> word32 \<times> word32"

text \<open>The constants are the first 32 bits of the fractional parts of the roots of the first primes.\<close>

definition intRoot :: "nat \<Rightarrow> nat \<Rightarrow> nat" where
  "intRoot k n = fold (\<lambda>b r. if (r + 2 ^ b) ^ k \<le> n then r + 2 ^ b else r) (rev [0..<36]) 0"

definition shaPrimes :: "nat list" where
  "shaPrimes = filter (\<lambda>p. list_all (\<lambda>d. p mod d \<noteq> 0) [2..<p]) [2..<312]"

definition shaK :: "word32 list" where
  "shaK = map (\<lambda>p. of_nat (intRoot 3 (p * 2 ^ 96))) shaPrimes"

definition shaInit :: sha_state where
  "shaInit =
     (let r = (\<lambda>p. of_nat (intRoot 2 (p * 2 ^ 64))) in (r 2, r 3, r 5, r 7, r 11, r 13, r 17, r 19))"

definition bigEndian :: "nat \<Rightarrow> nat \<Rightarrow> nat list" where
  "bigEndian n v = map (\<lambda>i. v div 256 ^ (n - 1 - i) mod 256) [0..<n]"

definition shaPad :: "nat list \<Rightarrow> nat list" where
  "shaPad bs = bs @ [0x80] @ replicate ((119 - length bs mod 64) mod 64) 0 @ bigEndian 8 (8 * length bs)"

fun shaWords :: "nat list \<Rightarrow> word32 list" where
  "shaWords (a # b # c # d # bs) = of_nat (((a * 256 + b) * 256 + c) * 256 + d) # shaWords bs"
| "shaWords bs = []"

definition shaNext :: "word32 list \<Rightarrow> word32" where
  "shaNext ws =
     (let n = length ws; w15 = ws ! (n - 15); w2 = ws ! (n - 2);
          s0 = (word_rotr 7 w15 XOR word_rotr 18 w15) XOR drop_bit 3 w15;
          s1 = (word_rotr 17 w2 XOR word_rotr 19 w2) XOR drop_bit 10 w2
      in ws ! (n - 16) + s0 + ws ! (n - 7) + s1)"

definition shaSchedule :: "word32 list \<Rightarrow> word32 list" where
  "shaSchedule ws = ((\<lambda>xs. xs @ [shaNext xs]) ^^ 48) ws"

definition shaRound :: "word32 \<times> word32 \<Rightarrow> sha_state \<Rightarrow> sha_state" where
  "shaRound kw st =
     (case (kw, st) of
        ((k, w), (a, b, c, d, e, f, g, h)) \<Rightarrow>
          let s1 = (word_rotr 6 e XOR word_rotr 11 e) XOR word_rotr 25 e;
              ch = (e AND f) XOR (NOT e AND g);
              t1 = h + s1 + ch + k + w;
              s0 = (word_rotr 2 a XOR word_rotr 13 a) XOR word_rotr 22 a;
              maj = ((a AND b) XOR (a AND c)) XOR (b AND c)
          in (t1 + s0 + maj, a, b, c, d + t1, e, f, g))"

definition shaBlock :: "word32 list \<Rightarrow> sha_state \<Rightarrow> sha_state" where
  "shaBlock ws st =
     (case (st, fold shaRound (zip shaK (shaSchedule ws)) st) of
        ((a, b, c, d, e, f, g, h), (a', b', c', d', e', f', g', h')) \<Rightarrow>
          (a + a', b + b', c + c', d + d', e + e', f + f', g + g', h + h'))"

function shaBlocks :: "word32 list \<Rightarrow> sha_state \<Rightarrow> sha_state" where
  "shaBlocks ws st = (if ws = [] then st else shaBlocks (drop 16 ws) (shaBlock (take 16 ws) st))"
  by auto
termination by (relation "measure (\<lambda>(ws, st). length ws)") auto

definition hexChar :: "nat \<Rightarrow> char" where
  "hexChar n = ''0123456789abcdef'' ! (n mod 16)"

definition hex32 :: "word32 \<Rightarrow> string" where
  "hex32 w = map (\<lambda>i. hexChar (unat w div 16 ^ (7 - i))) [0..<8]"

definition sha256Hex :: "string \<Rightarrow> string" where
  "sha256Hex s =
     (case shaBlocks (shaWords (shaPad (map of_char s))) shaInit of
        (a, b, c, d, e, f, g, h) \<Rightarrow> concat (map hex32 [a, b, c, d, e, f, g, h]))"

declare shaBlocks.simps [simp del]

lemma length_hex32 [simp]: "length (hex32 w) = 8"
  by (simp add: hex32_def)

lemma set_hex32: "set (hex32 w) \<subseteq> set ''0123456789abcdef''"
proof -
  have "hexChar n \<in> set ''0123456789abcdef''" for n
    unfolding hexChar_def by (rule nth_mem) simp
  then show ?thesis by (auto simp: hex32_def simp del: list.set)
qed

lemma length_sha256Hex [simp]: "length (sha256Hex s) = 64"
  by (simp add: sha256Hex_def split: prod.splits)

lemma set_sha256Hex: "set (sha256Hex s) \<subseteq> set ''0123456789abcdef''"
  using set_hex32 by (auto simp: sha256Hex_def simp del: list.set(2) split: prod.splits)

end
