(* ===== verification/AuditReach.thy ===== *)
theory AuditReach
  imports AuditErase Sha256
begin

text \<open>
  The states the audit log can reach, as a step relation over the operations of \<open>AuditWriter\<close>, the invariant of
  \<open>AuditSafety\<close> along it, and what both verifiers of \<open>AuditChain\<close> answer in a state that satisfies it.
\<close>

section \<open>Reachable states\<close>

definition logLines :: "AuditFs \<Rightarrow> string list" where
  "logLines fs =
     concat (map (\<lambda>a. case arText a of None \<Rightarrow> [] | Some t \<Rightarrow> splitLines t) (listArchives fs)) @
     (case fsLive fs of None \<Rightarrow> [] | Some t \<Rightarrow> splitLines t)"

definition freshRun :: "(string \<Rightarrow> json option) \<Rightarrow> AuditFs \<Rightarrow> string \<Rightarrow> bool" where
  "freshRun parse fs runId \<longleftrightarrow>
     runId \<noteq> [] \<and> list_all (\<lambda>l. case parse l of None \<Rightarrow> True | Some j \<Rightarrow> \<not> mentionsRun runId j) (logLines fs)"

text \<open>The first argument says that the last blank-out, if there was one, was not reported as partial.\<close>

inductive audit_reach :: "(string \<Rightarrow> string) \<Rightarrow> (string \<Rightarrow> json option) \<Rightarrow> bool \<Rightarrow> AuditLog \<Rightarrow> bool" for sha parse where
  reach_new: "\<lbrakk>fsLive fs = None \<or> fsLive fs = Some []; fsDir fs = []\<rbrakk> \<Longrightarrow> audit_reach sha parse True (newAuditLog sha parse prefixes fs)"
| reach_log: "\<lbrakk>audit_reach sha parse cl st; callOk c\<rbrakk> \<Longrightarrow> audit_reach sha parse cl (logEntry sha parse m user ts c st)"
| reach_land: "audit_reach sha parse cl st \<Longrightarrow> audit_reach sha parse cl (landAppend True st)"
| reach_enter: "audit_reach sha parse cl st \<Longrightarrow> audit_reach sha parse cl (enterExclusive st)"
| reach_leave: "\<lbrakk>audit_reach sha parse cl st; alGate st > 0; alQueue st = []\<rbrakk> \<Longrightarrow> audit_reach sha parse cl (leaveExclusive sha parse m st)"
| reach_rotate: "\<lbrakk>audit_reach sha parse cl st; alGate st > 0; alQueue st = []; length (fsDir (alFs st)) < roRetainCount opts;
    \<And>a. a \<in> set (fsDir (alFs st)) \<Longrightarrow> arMtime a < mt\<rbrakk> \<Longrightarrow>
    audit_reach sha parse cl (rotateSection sha parse (rotateIfNeeded opts now lm ts mt) user stamp st)"
| reach_erase: "\<lbrakk>audit_reach sha parse cl st; alGate st > 0; alQueue st = []; freshRun parse (alFs st) runId;
    \<And>f. f \<in> set (eraseFiles (alFs st)) \<Longrightarrow> readLines gzLen (alFs st) f \<noteq> None;
    eraseSection sha parse date gzLen ok n user ts (eraseFiles (alFs st)) t runId at' st = (r, st')\<rbrakk> \<Longrightarrow>
    audit_reach sha parse (esStatus r \<noteq> ErasePartial) st'"
| reach_restart: "audit_reach sha parse cl st \<Longrightarrow> audit_reach sha parse cl (newAuditLog sha parse prefixes (alFs st))"

lemma logLines_holding:
  assumes "filesOk fs as js"
  shows "logLines fs = map stringify (concat as @ js)"
proof -
  have texts: "map arText (listArchives fs) = map (\<lambda>s. Some (textOf s)) as" and live: "fsLive fs = Some (textOf js)"
    using assms by (auto simp: filesOk_def)
  have "map (\<lambda>a. case arText a of None \<Rightarrow> [] | Some t \<Rightarrow> splitLines t) (listArchives fs) =
      map (\<lambda>x. case x of None \<Rightarrow> [] | Some t \<Rightarrow> splitLines t) (map arText (listArchives fs))" by simp
  also have "\<dots> = map (map stringify) as" unfolding texts by (simp add: splitLines_textOf)
  finally show ?thesis using live by (simp add: logLines_def splitLines_textOf map_concat)
qed

context audit_env
begin

lemma opened_inv:
  assumes "fsLive fs = None \<or> fsLive fs = Some []" "fsDir fs = []"
  shows "auditInv True sha parse (newAuditLog sha parse prefixes fs)"
proof -
  have "holding sha parse (newAuditLog sha parse prefixes fs) [] [] [] (newTracker True) (newTracker False)"
    using assms chained_nil [of "[]"]
    by (auto simp: holding_def newAuditLog_def Let_def filesOk_def dirOk_def listArchives_def listRotatedArchives_def queued_def
        filled_def readTailHash_def)
  then show ?thesis by (rule auditInvI) (auto simp: newTracker_def newAuditLog_def Let_def)
qed

lemma fresh_holding:
  assumes "holding sha parse st as js qs tr ltr" "freshRun parse (alFs st) runId" "j \<in> set (concat as @ js)"
  shows "\<not> mentionsRun runId j"
proof -
  have "filesOk (alFs st) as js" "recordOk j" using assms(1,3) goodRecord_kinds(1) by (auto simp: holding_def list_all_iff)
  then have "stringify j \<in> set (logLines (alFs st))" "parse (stringify j) = Some j"
    using assms(3) logLines_holding [of "alFs st" as js] parse_record by auto
  then show ?thesis using assms(2) by (force simp: freshRun_def list_all_iff)
qed

lemma erase_inv:
  assumes "auditInv cl sha parse st" "alQueue st = []" "freshRun parse (alFs st) runId"
    "\<And>f. f \<in> set (eraseFiles (alFs st)) \<Longrightarrow> readLines gzLen (alFs st) f \<noteq> None"
    "eraseSection sha parse date gzLen ok n user ts (eraseFiles (alFs st)) t runId at' st = (r, st')"
  shows "auditInv (esStatus r \<noteq> ErasePartial) sha parse st'"
proof -
  obtain as js qs tr ltr where h0: "holding sha parse st as js qs tr ltr" and parked: "\<And>x. x \<in> set (alParked st) \<Longrightarrow> callOk (fst x)"
    using assms(1) unfolding auditInv_def by blast
  then have "qs = []" using assms(2) by (simp add: holding_def queued_def)
  with h0 have h: "holding sha parse st as js [] tr ltr" by simp
  have run: "runId \<noteq> []" using assms(3) by (simp add: freshRun_def)
  from erase_holding [OF h assms(4) run fresh_holding [OF h assms(3)] assms(5)]
  obtain as' js' tr' ltr' where "holding sha parse st' as' js' [] tr' ltr'" "alParked st' = alParked st"
    "esStatus r \<noteq> ErasePartial \<longrightarrow> rtPending tr' = []" by blast
  then show ?thesis using parked by (intro auditInvI) auto
qed

lemma reach_inv:
  assumes "audit_reach sha parse cl st"
  shows "auditInv cl sha parse st"
  using assms
proof (induction rule: audit_reach.induct)
  case (reach_erase cl st runId gzLen date ok n user ts t at' r st')
  then show ?case by (intro erase_inv [of cl st runId gzLen date ok n user ts t at' r st']) auto
qed (auto intro: opened_inv log_inv landAppend_inv enter_inv leave_inv rotate_inv restart_inv)

end

section \<open>The verdict of the verifiers\<close>

text \<open>What the live walk has pending, the walk of the whole history has pending too.\<close>

definition subPending :: "RedactionTracker \<Rightarrow> RedactionTracker \<Rightarrow> bool" where
  "subPending a b \<longleftrightarrow> fst ` set (rtPending a) \<subseteq> fst ` set (rtPending b)"

lemma trackHash_keys:
  assumes "trackHash sha a l j = Inr (h, a1)"
  shows "fst ` set (rtPending a1) =
     (if propOf j ''redacted'' = None then fst ` set (rtPending a) else insert (blockField j ''runId'') (fst ` set (rtPending a)))"
proof -
  have upd: "fst ` set (AList.update k v xs) = insert k (fst ` set xs)" for k :: string and v :: RedactRun and xs
    using dom_update [of k v xs] by simp
  show ?thesis using assms by (clarsimp simp: trackHash_def Let_def upd split: if_splits)
qed

lemma trackNote_keys:
  assumes "trackNote sha a j = Inr a1"
  shows "fst ` set (rtPending a1) =
     (if propOf j ''toolName'' \<noteq> Some (JStr REDACT_MARKER_TOOL) then fst ` set (rtPending a)
      else fst ` set (rtPending a) - {the (propStr (orNull j ''args'') ''runId'')})"
proof -
  have del: "fst ` set (AList.delete k xs) = fst ` set xs - {k}" for k :: string and xs :: "(string \<times> RedactRun) list"
    by (auto simp: AList.delete_eq)
  show ?thesis using assms by (clarsimp simp: trackNote_def Let_def del split: if_splits option.splits)
qed

lemma subPending_hash:
  assumes "trackHash sha a l j = Inr (h, a1)" "trackHash sha b l j = Inr (h', b1)" "subPending a b"
  shows "subPending a1 b1"
  using assms(3) by (auto simp: subPending_def trackHash_keys [OF assms(1)] trackHash_keys [OF assms(2)])

lemma subPending_note:
  assumes "trackNote sha a j = Inr a1" "trackNote sha b j = Inr b1" "subPending a b"
  shows "subPending a1 b1"
  using assms(3) by (auto simp: subPending_def trackNote_keys [OF assms(1)] trackNote_keys [OF assms(2)])

lemma recStep_track:
  assumes "recStep sha link noted x w = Some w1"
  obtains h tr1 where "trackHash sha (snd w) (stringify (snd x)) (snd x) = Inr (h, tr1)"
    "if noted (fst x) then trackNote sha tr1 (snd x) = Inr (snd w1) else snd w1 = tr1"
  using assms by (auto simp: recStep_def split: if_splits sum.splits prod.splits)

lemma subPending_step:
  assumes "recStep sha link noted (r, j) w = Some w1" "recStep sha link' always (r', j) w' = Some w1'" "noted r"
    "subPending (snd w) (snd w')"
  shows "subPending (snd w1) (snd w1')"
proof -
  obtain h tr1 where 1: "trackHash sha (snd w) (stringify j) j = Inr (h, tr1)" "trackNote sha tr1 j = Inr (snd w1)"
    using recStep_track [OF assms(1)] assms(3) by auto
  obtain h' tr1' where 2: "trackHash sha (snd w') (stringify j) j = Inr (h', tr1')" "trackNote sha tr1' j = Inr (snd w1')"
    using recStep_track [OF assms(2)] by auto
  show ?thesis using subPending_note [OF 1(2) 2(2) subPending_hash [OF 1(1) 2(1) assms(4)]] .
qed

lemma subPending_first:
  assumes "recStep sha link noted (r, j) w = Some w1" "recStep sha link' always (r', j) w' = Some w1'" "\<not> noted r"
    "rtPending (snd w) = []" "goodRecord j"
  shows "subPending (snd w1) (snd w1')"
proof -
  have 1: "\<exists>h. trackHash sha (snd w) (stringify j) j = Inr (h, snd w1)"
    using recStep_track [OF assms(1)] assms(3) by auto
  obtain h' tr1' where 2: "trackHash sha (snd w') (stringify j) j = Inr (h', tr1')" "trackNote sha tr1' j = Inr (snd w1')"
    using recStep_track [OF assms(2)] by auto
  have sub: "subPending (snd w1) tr1'"
    using 1 2(1) subPending_hash assms(4) by (metis empty_iff image_empty list.set(1) subPending_def subsetI)
  show ?thesis
  proof (cases "propOf j ''redacted''")
    case None
    then have "rtPending (snd w1) = []" using 1 assms(4) by (auto simp: trackHash_def)
    then show ?thesis by (simp add: subPending_def)
  next
    case (Some b)
    then have "propOf j ''toolName'' \<noteq> Some (JStr REDACT_MARKER_TOOL)" using assms(5) by (auto simp: goodRecord_def)
    then have "snd w1' = tr1'" using 2(2) by (simp add: trackNote_def)
    then show ?thesis using sub by simp
  qed
qed

lemma subPending_walk:
  assumes "recWalk sha link noted (map (Pair Inner) js) w = Some w1" "recWalk sha link' always (map (Pair Inner) js) w' = Some w1'"
    "noted Inner" "subPending (snd w) (snd w')"
  shows "subPending (snd w1) (snd w1')"
  using assms(1,2,4)
proof (induction js arbitrary: w w')
  case (Cons j js)
  then obtain v v' where v: "recStep sha link noted (Inner, j) w = Some v" "recStep sha link' always (Inner, j) w' = Some v'"
    and rest: "recWalk sha link noted (map (Pair Inner) js) v = Some w1" "recWalk sha link' always (map (Pair Inner) js) v' = Some w1'"
    by (auto split: option.splits)
  show ?case using Cons.IH [OF rest subPending_step [OF v assms(3) Cons.prems(3)]] .
qed simp

lemma chained_sub:
  assumes "chained sha ah as js lh tr ltr" "list_all goodRecord js"
  shows "subPending ltr tr"
proof (cases js)
  case Nil
  then show ?thesis using assms(1) by (auto simp: chained_def subPending_def newTracker_def)
next
  case (Cons j rest)
  obtain w where hist: "recWalk sha (historyLink ah) always ((firstRole as, j) # map (Pair Inner) rest) w = Some (lh, tr)"
    using conjunct1 [OF assms(1) [unfolded chained_def tagAll_split Cons recWalk_append]]
    by (cases "recWalk sha (historyLink ah) always (tagAll (filled as)) (None, newTracker True)") simp_all
  have live: "recWalk sha (liveLink ah) notFirst ((Genesis, j) # map (Pair Inner) rest) (None, newTracker False) = Some (lh, ltr)"
    using assms(1) unfolding chained_def Cons by simp
  obtain v where v1: "recStep sha (liveLink ah) notFirst (Genesis, j) (None, newTracker False) = Some v"
    and walk1: "recWalk sha (liveLink ah) notFirst (map (Pair Inner) rest) v = Some (lh, ltr)"
    using live by (cases "recStep sha (liveLink ah) notFirst (Genesis, j) (None, newTracker False)") simp_all
  obtain v' where v2: "recStep sha (historyLink ah) always (firstRole as, j) w = Some v'"
    and walk2: "recWalk sha (historyLink ah) always (map (Pair Inner) rest) v' = Some (lh, tr)"
    using hist by (cases "recStep sha (historyLink ah) always (firstRole as, j) w") simp_all
  have "subPending (snd v) (snd v')"
    by (rule subPending_first [OF v1 v2]) (use assms(2) Cons in \<open>auto simp: newTracker_def\<close>)
  from subPending_walk [OF walk1 walk2 _ this] show ?thesis by simp
qed

lemma archiveSegments_texts:
  "map arText xs = map (\<lambda>s. Some (textOf s)) as \<Longrightarrow> archiveSegments xs = Inr (map (map stringify) (filled as))"
proof (induction xs arbitrary: as)
  case (Cons x xs)
  then obtain s rest where as: "as = s # rest" and "arText x = Some (textOf s)" "map arText xs = map (\<lambda>s. Some (textOf s)) rest"
    by (cases as) auto
  with Cons.IH [of rest] show ?case by (auto simp: as filled_def splitLines_textOf)
qed (simp add: filled_def)

context audit_env
begin

lemma recWalk_live:
  assumes "list_all recordOk (j # js)"
  shows "recWalk sha (liveLink ah) notFirst (tagSeg Genesis (j # js)) (None, newTracker False) = Some w \<longleftrightarrow>
     (\<exists>w1. checkRecord sha parse (liveFirstLink ah) False 0 (stringify j) (None, newTracker False) = Inr w1 \<and>
           innerLines sha parse 1 (map stringify js) w1 = Inr w)"
proof -
  have first: "checkRecord sha parse (liveFirstLink ah) False 0 (stringify j) (None, newTracker False) = Inr w1 \<longleftrightarrow>
      recStep sha (liveLink ah) notFirst (Genesis, j) (None, newTracker False) = Some w1" for w1
    using checkRecord_rec [of j "liveLink ah" Genesis notFirst] assms by (simp add: liveLink_def)
  have rest: "innerLines sha parse 1 (map stringify js) w1 = Inr w \<longleftrightarrow> recWalk sha (liveLink ah) notFirst (map (Pair Inner) js) w1 = Some w" for w1
    using innerLines_rec [of js "liveLink ah" notFirst] assms by simp
  show ?thesis unfolding first rest by (auto split: option.splits)
qed

lemma live_verdict:
  assumes "filesOk fs as js" "list_all goodRecord js" "chained sha (anchorHashOf sha parse fs) as js lh tr ltr"
    "js \<noteq> []" "length (textOf js) \<le> AUDIT_READ_LIMIT"
  shows "verifyLiveChain sha parse fs =
     (case trackFinish ltr of
        Some f \<Rightarrow> VBroken (int (length js) - 1) (RedactFault f)
      | None \<Rightarrow> VOk \<lparr>okCount = length js, okNote = Some (fst (liveNote parse (readAnchor parse fs \<noteq> None) (stringify (hd js)))),
                     okSegments = None, okContinuedFrom = snd (liveNote parse (readAnchor parse fs \<noteq> None) (stringify (hd js)))\<rparr>)"
proof -
  obtain j rest where js: "js = j # rest" using assms(4) by (cases js) auto
  have live: "fsLive fs = Some (textOf js)" using assms(1) by (simp add: filesOk_def)
  have "list_all recordOk (j # rest)" using assms(2) goodRecord_kinds(1) by (auto simp: js list_all_iff)
  from recWalk_live [OF this]
  obtain w1 where "checkRecord sha parse (liveFirstLink (anchorHashOf sha parse fs)) False 0 (stringify j) (None, newTracker False) = Inr w1"
    "innerLines sha parse 1 (map stringify rest) w1 = Inr (lh, ltr)"
    using assms(3) by (auto simp: chained_def js)
  then show ?thesis using live assms(5) splitLines_textOf [of js]
    by (auto simp: verifyLiveChain_def anchorHashOf_def js split: option.splits prod.splits)
qed

lemma history_verdict:
  assumes "filesOk fs as js" "list_all goodRecord (concat as @ js)" "chained sha (anchorHashOf sha parse fs) as js lh tr ltr"
    "js \<noteq> []" "length (textOf js) \<le> AUDIT_READ_LIMIT"
  shows "verifyChainWithHistory sha parse fs =
     (case trackFinish tr of
        Some f \<Rightarrow> VBroken (int (length (concat as @ js)) - 1) (RedactFault f)
      | None \<Rightarrow> VOk \<lparr>okCount = length (concat as @ js), okNote = Some (if readAnchor parse fs \<noteq> None then Anchored else LegacyHistory),
                     okSegments = Some (Suc (length (filled as))), okContinuedFrom = None\<rparr>)"
proof -
  have live: "fsLive fs = Some (textOf js)" and texts: "map arText (listArchives fs) = map (\<lambda>s. Some (textOf s)) as"
    using assms(1) by (simp_all add: filesOk_def)
  let ?ss = "filled as @ [js]"
  have segs: "map (map stringify) (filled as) @ [map stringify js] = map (map stringify) ?ss" by simp
  have ok: "list_all (list_all recordOk) ?ss"
    using assms(2) goodRecord_kinds(1) by (auto simp: list_all_iff filled_def)
  have "recWalk sha (historyLink (anchorHashOf sha parse fs)) always (tagAll ?ss) (None, newTracker True) = Some (lh, tr)"
    using assms(3,4) by (simp add: chained_def filled_snoc)
  then have walk: "walkSegments sha parse (anchorHashOf sha parse fs) (map (map stringify) ?ss) = Inr (lh, tr)"
    using walkSegments_rec [OF ok] by simp
  have lines: "splitLines (textOf js) = map stringify js" "map stringify js \<noteq> []" using assms(4) by (simp_all add: splitLines_textOf)
  have count: "length (concat (map (map stringify) ?ss)) = length (concat as @ js)"
    by (simp add: map_concat [symmetric])
  show ?thesis
    unfolding verifyChainWithHistory_def Let_def archiveSegments_texts [OF texts] live sum.case option.case lines(1) if_not_P [OF lines(2)]
      anchorHashOf_def [symmetric] segs walk prod.case count
    using assms(5) by (auto split: option.splits)
qed

end

context audit_env
begin

lemma reach_verdict:
  assumes "audit_reach sha parse cl st" "fsLive (alFs st) = Some t" "t \<noteq> []" "length t \<le> AUDIT_READ_LIMIT"
  shows "(\<exists>ok lok. verifyChainWithHistory sha parse (alFs st) = VOk ok \<and> okCount ok = length (logLines (alFs st)) \<and>
            verifyLiveChain sha parse (alFs st) = VOk lok \<and> okCount lok = length (splitLines t)) \<or>
         \<not> cl \<and> (\<exists>n. verifyChainWithHistory sha parse (alFs st) = VBroken (int (length (logLines (alFs st))) - 1) (RedactFault (Unvouched n)))"
proof -
  obtain as js qs tr0 ltr0 where h: "holding sha parse st as js qs tr0 ltr0" and cl0: "cl \<Longrightarrow> rtPending tr0 = []"
    using reach_inv [OF assms(1)] unfolding auditInv_def by blast
  then have files: "filesOk (alFs st) as js" and good: "list_all goodRecord (concat as @ js)" "list_all goodRecord js" and quiet: "list_all quiet qs"
    and ch0: "chained sha (anchorHashOf sha parse (alFs st)) as (js @ qs) (alLastHash st) tr0 ltr0" by (auto simp: holding_def)
  have t: "t = textOf js" using files assms(2) by (simp add: filesOk_def)
  then have js: "js \<noteq> []" using assms(3) by simp
  from chained_prefix [OF ch0 js] quiet
  obtain lh tr ltr where ch: "chained sha (anchorHashOf sha parse (alFs st)) as js lh tr ltr" and cl: "cl \<Longrightarrow> rtPending tr = []"
    using cl0 by blast
  have lim: "length (textOf js) \<le> AUDIT_READ_LIMIT" using assms(4) t by simp
  note live = live_verdict [OF files good(2) ch js lim] and hist = history_verdict [OF files good(1) ch js lim]
  have lines: "length (logLines (alFs st)) = length (concat as @ js)" "length (splitLines t) = length js"
    using logLines_holding [OF files] t by (simp_all add: splitLines_textOf)
  show ?thesis
  proof (cases "rtPending tr = []")
    case True
    then have "rtPending ltr = []" using chained_sub [OF ch good(2)] by (simp add: subPending_def)
    then show ?thesis using live hist True lines by (simp add: trackFinish_def)
  next
    case False
    then show ?thesis using cl hist lines by (auto simp: trackFinish_def)
  qed
qed

end

interpretation al: audit_env jsonParse sha256Hex
proof unfold_locales
  show "isHex64 (sha256Hex s)" for s
    unfolding isHex64_def list_all_iff List.member_iff using set_sha256Hex [of s] length_sha256Hex [of s] by blast
qed

end
