(* ===== verification/AuditLogProps.thy ===== *)
theory AuditLogProps
  imports AuditReach
begin

text \<open>
  The properties of the audit log: a log the program wrote is accepted by both verifiers, a history that verifies cannot be
  altered under a known last record, a blank-out that reports success leaves no record of the workspace and changes no other,
  and the retention of the rotator removes the beginning the full verifier asks for. Each is followed by an instance on a
  small log, built by the operations themselves.
\<close>

section \<open>A log the program wrote verifies\<close>



definition exCall :: LogCall where
  "exCall = \<lparr>lcToolName = ''node_add'', lcArgs = Some (JObj [(''workspaceId'', JStr ''ws-00001'')]), lcResult = AuditSuccess, lcResultDetail = None,
     lcApprovalId = None, lcDurationMs = 3, lcActor = None\<rparr>"

definition exNew :: AuditLog where
  "exNew = newAuditLog sha256Hex jsonParse [] \<lparr>fsBase = ''audit.jsonl'', fsLive = None, fsAnchor = None, fsDir = []\<rparr>"

definition exLogged :: AuditLog where
  "exLogged = landAppend True (logEntry sha256Hex jsonParse \<lparr>mtNonce = ''n'', mtCreatedAt = ''d'', mtHost = ''h'', mtCanWrite = False\<rparr>
     \<lparr>auId = ''u'', auRoles = []\<rparr> ''t1'' exCall exNew)"

definition exLine :: string where
  "exLine = stringify (entryJson (stampedEntry exCall \<lparr>auId = ''u'', auRoles = []\<rparr> ''t1'' None None))"

lemma exLogged_reach: "audit_reach sha256Hex jsonParse True exLogged"
  unfolding exLogged_def exNew_def
  by (intro reach_land reach_log reach_new) (simp_all add: callOk_def exCall_def REDACT_MARKER_TOOL_def)

lemma exLogged_live: "fsLive (alFs exLogged) = Some (exLine @ [nl])"
  by (simp add: exLogged_def exNew_def exLine_def newAuditLog_def logEntry_def stampAndAppend_def ensureAnchor_def readAnchor_def
      isFileEmpty_def appendEntry_def landAppend_def appendLive_def readTailHash_def exCall_def Let_def)

lemma exLine_short: "length exLine < 200"
  by (simp add: exLine_def entryJson_def stampedEntry_def exCall_def actorJson_def quoteStr_def escapeChar_def optField_def hashJson_def resultText_def showInt_def showNat.simps)



section \<open>Evidence of tampering\<close>

fun linkedLines :: "(string \<Rightarrow> string) \<Rightarrow> (string \<Rightarrow> json option) \<Rightarrow> string option \<Rightarrow> string list \<Rightarrow> bool" where
  "linkedLines sha parse prev [] \<longleftrightarrow> True"
| "linkedLines sha parse prev (l # ls) \<longleftrightarrow>
     (case parse l of None \<Rightarrow> False | Some e \<Rightarrow> orNull e ''prevHash'' = hashJson prev) \<and> linkedLines sha parse (Some (sha (l @ [nl]))) ls"

definition lineHash :: "(string \<Rightarrow> string) \<Rightarrow> string option \<Rightarrow> string list \<Rightarrow> string option" where
  "lineHash sha prev ls = (if ls = [] then prev else Some (sha (last ls @ [nl])))"

definition plainLine :: "(string \<Rightarrow> json option) \<Rightarrow> string \<Rightarrow> bool" where
  "plainLine parse l = (case parse l of None \<Rightarrow> True | Some e \<Rightarrow> propOf e ''redacted'' = None)"

lemma lineHash_simps [simp]:
  "lineHash sha prev [] = prev" "lineHash sha prev (l # ls) = lineHash sha (Some (sha (l @ [nl]))) ls"
  "lineHash sha prev (ls @ [l]) = Some (sha (l @ [nl]))" "lineHash sha prev (xs @ ys) = lineHash sha (lineHash sha prev xs) ys"
  by (simp_all add: lineHash_def)

lemma linkedLines_append:
  "linkedLines sha parse prev (xs @ ys) \<longleftrightarrow> linkedLines sha parse prev xs \<and> linkedLines sha parse (lineHash sha prev xs) ys"
  by (induction xs arbitrary: prev) simp_all

lemma checkRecord_linked:
  assumes "checkRecord sha parse link noted i l w = Inr w1" "plainLine parse l"
  shows "fst w1 = Some (sha (l @ [nl])) \<and> (\<exists>e. parse l = Some e \<and> link e (fst w) = None)"
  using assms by (auto simp: checkRecord_def plainLine_def trackHash_def split: prod.splits if_splits option.splits sum.splits)

lemma innerLines_linked:
  "innerLines sha parse i ls w = Inr w1 \<Longrightarrow> list_all (plainLine parse) ls \<Longrightarrow>
     linkedLines sha parse (fst w) ls \<and> fst w1 = lineHash sha (fst w) ls"
proof (induction ls arbitrary: i w)
  case (Cons l ls)
  then obtain w2 where w2: "checkRecord sha parse innerLink True i l w = Inr w2" "innerLines sha parse (Suc i) ls w2 = Inr w1"
    by (auto split: sum.splits)
  from Cons.IH [OF w2(2)] Cons.prems(2) checkRecord_linked [OF w2(1)] show ?case
    by (auto simp: innerLink_def split: if_splits)
qed simp

lemma segmentLines_linked:
  assumes "segmentLines sha parse (Some ah) r i ls w = Inr w1" "list_all (plainLine parse) ls" "r = Genesis \<Longrightarrow> fst w = None"
  shows "linkedLines sha parse (fst w) ls \<and> fst w1 = lineHash sha (fst w) ls"
proof (cases ls)
  case (Cons l rest)
  then obtain w2 where w2: "checkRecord sha parse (historyLink (Some ah) r) True i l w = Inr w2" "innerLines sha parse (Suc i) rest w2 = Inr w1"
    using assms(1) by (auto simp: segmentLines_def split: sum.splits)
  have "plainLine parse l" "list_all (plainLine parse) rest" using assms(2) Cons by auto
  with checkRecord_linked [OF w2(1)] innerLines_linked [OF w2(2)] obtain e where e: "parse l = Some e" "historyLink (Some ah) r e (fst w) = None"
    "fst w2 = Some (sha (l @ [nl]))" "linkedLines sha parse (fst w2) rest \<and> fst w1 = lineHash sha (fst w2) rest" by auto
  have "orNull e ''prevHash'' = hashJson (fst w)"
    using e(2) assms(3) by (cases r) (auto simp: historyLink_def innerLink_def hashJson_def split: if_splits)
  then show ?thesis using e Cons by simp
qed (use assms in \<open>simp add: segmentLines_def\<close>)

lemma laterSegments_linked:
  "laterSegments sha parse (Some ah) i ss w = Inr w1 \<Longrightarrow> list_all (plainLine parse) (concat ss) \<Longrightarrow>
     linkedLines sha parse (fst w) (concat ss) \<and> fst w1 = lineHash sha (fst w) (concat ss)"
proof (induction ss arbitrary: i w)
  case (Cons s ss)
  then obtain w2 where w2: "segmentLines sha parse (Some ah) Boundary i s w = Inr w2" "laterSegments sha parse (Some ah) (i + length s) ss w2 = Inr w1"
    by (auto split: sum.splits)
  from Cons.IH [OF w2(2)] Cons.prems(2) segmentLines_linked [OF w2(1)] show ?case by (simp add: linkedLines_append)
qed simp

lemma walkSegments_linked:
  assumes "walkSegments sha parse (Some ah) segs = Inr w1" "list_all (plainLine parse) (concat segs)"
  shows "linkedLines sha parse None (concat segs)"
proof (cases segs)
  case (Cons s ss)
  then obtain w where w: "segmentLines sha parse (Some ah) Genesis 0 s (None, newTracker True) = Inr w"
      "laterSegments sha parse (Some ah) (length s) ss w = Inr w1"
    using assms(1) by (auto simp: walkSegments_def split: sum.splits)
  from laterSegments_linked [OF w(2)] segmentLines_linked [OF w(1)] assms(2) Cons show ?thesis by (simp add: linkedLines_append)
qed simp

lemma archiveSegments_lines:
  "archiveSegments xs = Inr ss \<Longrightarrow> concat ss = concat (map (\<lambda>a. case arText a of None \<Rightarrow> [] | Some t \<Rightarrow> splitLines t) xs)"
  by (induction xs arbitrary: ss) (auto split: option.splits sum.splits if_splits)

lemma archiveSegments_filled: "archiveSegments xs = Inr ss \<Longrightarrow> s \<in> set ss \<Longrightarrow> s \<noteq> []"
  by (induction xs arbitrary: ss) (auto split: option.splits sum.splits if_splits)

text \<open>A walk that stops never stops with success.\<close>

lemma archiveSegments_refuses: "archiveSegments xs = Inl r \<Longrightarrow> r \<noteq> VOk ok"
  by (induction xs) (auto split: option.splits sum.splits)

lemma checkRecord_refuses: "checkRecord sha parse link noted i l w = Inl r \<Longrightarrow> r \<noteq> VOk ok"
  by (auto simp: checkRecord_def split: prod.splits if_splits option.splits sum.splits)

lemma innerLines_refuses: "innerLines sha parse i ls w = Inl r \<Longrightarrow> r \<noteq> VOk ok"
  by (induction ls arbitrary: i w) (auto dest: checkRecord_refuses split: sum.splits)

lemma segmentLines_refuses: "segmentLines sha parse ah role i ls w = Inl r \<Longrightarrow> r \<noteq> VOk ok"
  by (auto simp: segmentLines_def dest: checkRecord_refuses innerLines_refuses split: list.splits sum.splits)

lemma laterSegments_refuses: "laterSegments sha parse ah i ss w = Inl r \<Longrightarrow> r \<noteq> VOk ok"
  by (induction ss arbitrary: i w) (auto dest: segmentLines_refuses split: sum.splits)

lemma walkSegments_refuses: "walkSegments sha parse ah segs = Inl r \<Longrightarrow> r \<noteq> VOk ok"
  by (auto simp: walkSegments_def dest: segmentLines_refuses laterSegments_refuses split: list.splits sum.splits)

lemma verified_linked:
  assumes "verifyChainWithHistory sha parse fs = VOk ok" "readAnchor parse fs = Some a" "list_all (plainLine parse) (logLines fs)"
  shows "logLines fs \<noteq> [] \<and> linkedLines sha parse None (logLines fs)"
proof -
  obtain ss where ss: "archiveSegments (listArchives fs) = Inr ss"
    using assms(1) archiveSegments_refuses [of "listArchives fs"]
    by (cases "archiveSegments (listArchives fs)") (auto simp: verifyChainWithHistory_def Let_def)
  define segs where "segs = ss @ (case fsLive fs of None \<Rightarrow> [] | Some t \<Rightarrow> if splitLines t = [] then [] else [splitLines t])"
  have lines: "concat segs = logLines fs"
    by (auto simp: segs_def logLines_def archiveSegments_lines [OF ss] split: option.splits)
  note ok = assms(1) [unfolded verifyChainWithHistory_def Let_def ss sum.case assms(2), folded segs_def]
  have segs: "segs \<noteq> []" using ok by (auto split: if_splits)
  obtain w where w: "walkSegments sha parse (Some (computeAnchorHash sha a)) segs = Inr w"
    using ok segs walkSegments_refuses [of sha parse "Some (computeAnchorHash sha a)" segs]
    by (cases "walkSegments sha parse (Some (computeAnchorHash sha a)) segs") (auto split: if_splits)
  have "s \<noteq> []" if "s \<in> set segs" for s
    using that archiveSegments_filled [OF ss] by (auto simp: segs_def split: option.splits if_splits)
  then have "concat segs \<noteq> []" using segs by (cases segs) auto
  then show ?thesis using walkSegments_linked [OF w] assms(3) lines by simp
qed

lemma linked_unique:
  assumes "linkedLines sha parse None xs" "linkedLines sha parse None ys" "xs \<noteq> []" "ys \<noteq> []" "last xs = last ys"
    "inj_on (\<lambda>l. sha (l @ [nl])) (set xs \<union> set ys)"
  shows "xs = ys"
  using assms
proof (induction xs arbitrary: ys rule: rev_induct)
  case (snoc x xs)
  then obtain zs where ys: "ys = zs @ [x]" by (metis append_butlast_last_id last_snoc)
  have link: "(case parse x of None \<Rightarrow> False | Some e \<Rightarrow> orNull e ''prevHash'' = hashJson (lineHash sha None us))"
    if "linkedLines sha parse None (us @ [x])" for us using that by (simp add: linkedLines_append)
  have "hashJson (lineHash sha None xs) = hashJson (lineHash sha None zs)"
    using link [of xs] link [of zs] snoc.prems(1,2) ys by (auto split: option.splits)
  then have same: "lineHash sha None xs = lineHash sha None zs" by (auto simp: hashJson_def split: option.splits)
  show ?case
  proof (cases "xs = []")
    case True
    then show ?thesis using same ys by (auto simp: lineHash_def split: if_splits)
  next
    case False
    then have zs: "zs \<noteq> []" and "sha (last xs @ [nl]) = sha (last zs @ [nl])" using same by (auto simp: lineHash_def split: if_splits)
    then have "last xs = last zs" using snoc.prems(6) False ys by (auto simp: inj_on_def)
    moreover have "inj_on (\<lambda>l. sha (l @ [nl])) (set xs \<union> set zs)" using snoc.prems(6) ys by (auto intro: inj_on_subset)
    ultimately have "xs = zs" using snoc.IH [of zs] snoc.prems(1,2) False zs ys by (simp add: linkedLines_append)
    then show ?thesis using ys by simp
  qed
qed simp

text \<open>C14: The chain is evidence of tampering. Two sets of files with an anchor, both accepted by the full verifier, without
  blanked records and with the same last record, hold the same records in the same order, whoever wrote them, unless two
  different lines among them have the same SHA-256.\<close>

theorem audit_tamper_evident:
  assumes "verifyChainWithHistory sha256Hex jsonParse fs = VOk ok" "verifyChainWithHistory sha256Hex jsonParse fs' = VOk ok'"
    and "readAnchor jsonParse fs = Some a" "readAnchor jsonParse fs' = Some a'"
    and "list_all (plainLine jsonParse) (logLines fs @ logLines fs')"
    and "last (logLines fs) = last (logLines fs')"
    and "inj_on (\<lambda>l. sha256Hex (l @ [nl])) (set (logLines fs) \<union> set (logLines fs'))"
  shows "logLines fs = logLines fs'"
  using verified_linked [OF assms(1,3)] verified_linked [OF assms(2,4)] assms(5-7) by (auto intro: linked_unique)

definition exMint :: Mint where
  "exMint = \<lparr>mtNonce = ''n'', mtCreatedAt = ''d'', mtHost = ''h'', mtCanWrite = True\<rparr>"

definition exAnchored :: AuditLog where
  "exAnchored = landAppend True (logEntry sha256Hex jsonParse exMint \<lparr>auId = ''u'', auRoles = []\<rparr> ''t1'' exCall exNew)"

definition exFirst :: AuditEntry where
  "exFirst = stampedEntry exCall \<lparr>auId = ''u'', auRoles = []\<rparr> ''t1'' None (Some (computeAnchorHash sha256Hex (mintedAnchor exMint)))"

lemma exAnchored_reach: "audit_reach sha256Hex jsonParse True exAnchored"
  unfolding exAnchored_def exNew_def
  by (intro reach_land reach_log reach_new) (simp_all add: callOk_def exCall_def REDACT_MARKER_TOOL_def)

lemma exAnchored_fs:
  "alFs exAnchored = \<lparr>fsBase = ''audit.jsonl'', fsLive = Some (textOf [entryJson exFirst]), fsAnchor = Some (stringify (mintedAnchor exMint)), fsDir = []\<rparr>"
  by (simp add: exAnchored_def exNew_def exFirst_def newAuditLog_def logEntry_def stampAndAppend_def ensureAnchor_def readAnchor_def textOf_def
      isFileEmpty_def appendEntry_def landAppend_def appendLive_def readTailHash_def exCall_def Let_def) (simp add: exMint_def)

lemma exAnchored_anchor: "readAnchor jsonParse (alFs exAnchored) = Some (mintedAnchor exMint)"
  using al.readAnchor_minted [of exMint "alFs exAnchored"] by (simp add: exAnchored_fs)

lemma length_quote: "length (quoteStr s) \<le> 6 * length s + 2"
proof -
  have "length (escapeChar c) \<le> 6" for c by (simp add: escapeChar_def Let_def)
  then have "length (concat (map escapeChar s)) \<le> 6 * length s" by (induction s) (auto simp: add_mono)
  then show ?thesis by (simp add: quoteStr_def)
qed

lemma exFirst_short: "length (textOf [entryJson exFirst]) < 1000"
proof -
  have bound: "length (textOf [entryJson (stampedEntry exCall \<lparr>auId = ''u'', auRoles = []\<rparr> ''t1'' None (Some h))]) \<le> 6 * length h + 300" for h
    using length_quote [of h]
    by (simp add: textOf_def entryJson_def stampedEntry_def exCall_def actorJson_def quoteStr_def escapeChar_def optField_def hashJson_def resultText_def showInt_def showNat.simps)
  have len: "length (computeAnchorHash sha256Hex j) = 64" for j by (simp add: computeAnchorHash_def)
  show ?thesis using bound [of "computeAnchorHash sha256Hex (mintedAnchor exMint)"] unfolding exFirst_def len by linarith
qed

lemma exAnchored_lines: "logLines (alFs exAnchored) = [stringify (entryJson exFirst)]"
  using splitLines_textOf [of "[entryJson exFirst]"]
  by (simp add: logLines_def listArchives_def listRotatedArchives_def exAnchored_fs)

lemma exAnchored_verified: "\<exists>ok. verifyChainWithHistory sha256Hex jsonParse (alFs exAnchored) = VOk ok"
proof -
  have "fsLive (alFs exAnchored) = Some (textOf [entryJson exFirst])" "textOf [entryJson exFirst] \<noteq> []" by (simp_all add: exAnchored_fs)
  from al.reach_verdict [OF exAnchored_reach this] exFirst_short show ?thesis by (auto simp: AUDIT_READ_LIMIT_def)
qed

lemma exAnchored_plain: "plainLine jsonParse (stringify (entryJson exFirst))"
proof -
  have "recordOk (entryJson exFirst)" by (rule recordOk_entry) (simp add: exFirst_def stampedEntry_def exCall_def)
  then show ?thesis using al.parse_record by (simp add: plainLine_def propOf_entry)
qed

theorem audit_tamper_evident_witness: "logLines (alFs exAnchored) = logLines (alFs (enterExclusive exAnchored))"
proof -
  have fs: "alFs (enterExclusive exAnchored) = alFs exAnchored" by (simp add: enterExclusive_def)
  obtain ok where ok: "verifyChainWithHistory sha256Hex jsonParse (alFs exAnchored) = VOk ok" using exAnchored_verified by blast
  show ?thesis unfolding fs
    by (rule audit_tamper_evident [OF ok ok exAnchored_anchor exAnchored_anchor]) (simp_all add: exAnchored_lines exAnchored_plain)
qed

section \<open>What a blank-out leaves\<close>

definition blankedLine ::
  "(string \<Rightarrow> string) \<Rightarrow> (string \<Rightarrow> json option) \<Rightarrow> (string \<Rightarrow> int option) \<Rightarrow> MatchTarget \<Rightarrow> RedactMeta \<Rightarrow> string \<Rightarrow> string" where
  "blankedLine sha parse date t meta l =
     (case parse l of
        None \<Rightarrow> l
      | Some e \<Rightarrow> if classifyEntry date e t = Some Match then stringify (stubObject e (redactBlock meta (sha (l @ [nl])))) else l)"

lemma matches_iff: "matches date t j \<longleftrightarrow> classifyEntry date j t = Some Match"
  by (auto simp: matches_def classifyEntry_def isRedactedEntry_def split: if_splits)

context audit_env
begin

lemma erased_lines:
  assumes "erased meta date t s old new" "s \<noteq> ErasePartial" "list_all goodRecord old"
  shows "\<exists>ms. map stringify new = map (blankedLine sha parse date t meta) (map stringify old) @ map stringify ms \<and> list_all isMarker ms"
proof -
  obtain xs ms where new: "new = map (blankIf meta) xs @ ms" and old: "old = map snd xs" and ms: "list_all isMarker ms"
    and flags: "\<And>x. x \<in> set xs \<Longrightarrow> fst x = matches date t (snd x)"
    using assms(1,2) unfolding erased_def by blast
  have "stringify (blankIf meta x) = blankedLine sha parse date t meta (stringify (snd x))" if "x \<in> set xs" for x
  proof -
    have "recordOk (snd x)" using that assms(3) goodRecord_kinds(1) by (auto simp: old list_all_iff)
    then show ?thesis using parse_record flags [OF that] by (simp add: blankIf_def blankedLine_def matches_iff stubOf_def)
  qed
  then show ?thesis using new old ms by auto
qed

lemma erased_clean:
  assumes "erased meta date t EraseComplete old new" "list_all goodRecord old" "j \<in> set new"
  shows "classifyEntry date j t = Some NoMatch"
proof -
  obtain xs ms where new: "new = map (blankIf meta) xs @ ms" and old: "old = map snd xs" and ms: "list_all isMarker ms"
    and flags: "\<And>x. x \<in> set xs \<Longrightarrow> fst x = matches date t (snd x)" and amb: "\<And>x. x \<in> set xs \<Longrightarrow> classifyEntry date (snd x) t \<noteq> Some Ambiguous"
    using assms(1) unfolding erased_def by blast
  have marked: "classifyEntry date k t = Some NoMatch" if "isMarker k \<or> propOf k ''redacted'' \<noteq> None" for k
    using that by (auto simp: classifyEntry_def isMarker_def)
  consider "j \<in> set ms" | x where "x \<in> set xs" "j = blankIf meta x" using assms(3) new by auto
  then show ?thesis
  proof cases
    case 1
    then show ?thesis using ms marked by (auto simp: list_all_iff)
  next
    case 2
    show ?thesis
    proof (cases "fst x")
      case True
      then show ?thesis using 2 marked by (simp add: blankIf_def stubOf_def propOf_stub)
    next
      case False
      have "goodRecord (snd x)" using 2 assms(2) old by (auto simp: list_all_iff)
      then obtain c where "classifyEntry date (snd x) t = Some c" using classify_total by blast
      then show ?thesis using False 2 flags amb by (cases c) (auto simp: blankIf_def matches_iff)
    qed
  qed
qed

lemma erase_result:
  assumes "audit_reach sha parse cl st" "alQueue st = []" "freshRun parse (alFs st) runId"
    "\<And>f. f \<in> set (eraseFiles (alFs st)) \<Longrightarrow> readLines gzLen (alFs st) f \<noteq> None"
    "eraseSection sha parse date gzLen ok n user ts (eraseFiles (alFs st)) t runId at' st = (r, st')"
  shows "\<exists>old new. logLines (alFs st) = map stringify old \<and> logLines (alFs st') = map stringify new \<and>
     list_all goodRecord old \<and> list_all goodRecord new \<and> erased \<lparr>rmAt = at', rmWorkspaceId = mtId t, rmRunId = runId\<rparr> date t (esStatus r) old new"
proof -
  obtain as js qs tr ltr where h0: "holding sha parse st as js qs tr ltr" using reach_inv [OF assms(1)] unfolding auditInv_def by blast
  then have "qs = []" using assms(2) by (simp add: holding_def queued_def)
  with h0 have h: "holding sha parse st as js [] tr ltr" by simp
  have run: "runId \<noteq> []" using assms(3) by (simp add: freshRun_def)
  from erase_holding [OF h assms(4) run fresh_holding [OF h assms(3)] assms(5)]
  obtain as' js' tr' ltr' where h': "holding sha parse st' as' js' [] tr' ltr'"
    and e: "erased \<lparr>rmAt = at', rmWorkspaceId = mtId t, rmRunId = runId\<rparr> date t (esStatus r) (concat as @ js) (concat as' @ js')" by blast
  have "logLines (alFs st) = map stringify (concat as @ js)" "logLines (alFs st') = map stringify (concat as' @ js')"
    "list_all goodRecord (concat as @ js)" "list_all goodRecord (concat as' @ js')"
    using h h' logLines_holding by (auto simp: holding_def)
  then show ?thesis using e by blast
qed

end


definition exTarget :: MatchTarget where
  "exTarget = \<lparr>mtId = ''ws-00001'', mtName = ''w'', mtCreated = None, mtDeletedAt = ''d'', mtOthers = [], mtGraceMs = None\<rparr>"

definition exErase :: "EraseStepResult \<times> AuditLog" where
  "exErase = eraseSection sha256Hex jsonParse (\<lambda>_. None) length (\<lambda>_. True) 1 \<lparr>auId = ''u'', auRoles = []\<rparr> ''t2''
     (eraseFiles (alFs (enterExclusive exAnchored))) exTarget ''run'' ''t2'' (enterExclusive exAnchored)"

lemma exFirst_record: "goodRecord (entryJson exFirst)"
  by (rule goodRecord_entry) (simp add: exFirst_def stampedEntry_def exCall_def)

lemma exFirst_matches: "matches date exTarget (entryJson exFirst)"
  unfolding matches_iff
  by (simp add: classifyEntry_def propOf_entry orNull_def isContinuation_entry exFirst_def stampedEntry_def exCall_def exTarget_def
      REDACT_MARKER_TOOL_def quoteStr_def escapeChar_def)

lemma exErase_files: "eraseFiles (alFs (enterExclusive exAnchored)) = [None]"
  "readLines gzLen (alFs (enterExclusive exAnchored)) None = Some [stringify (entryJson exFirst)]"
proof -
  show "eraseFiles (alFs (enterExclusive exAnchored)) = [None]"
    by (simp add: eraseFiles_def enterExclusive_def exAnchored_fs listArchives_def listRotatedArchives_def)
  show "readLines gzLen (alFs (enterExclusive exAnchored)) None = Some [stringify (entryJson exFirst)]"
    using exFirst_short splitLines_textOf [of "[entryJson exFirst]"]
    by (simp add: readLines_def enterExclusive_def exAnchored_fs MAX_FILE_BYTES_def)
qed

lemma exErase_complete: "esStatus (fst exErase) = EraseComplete"
proof -
  let ?fs = "alFs (enterExclusive exAnchored)" and ?meta = "\<lparr>rmAt = ''t2'', rmWorkspaceId = mtId exTarget, rmRunId = ''run''\<rparr>"
  have red: "\<not> isRedactedEntry (entryJson exFirst)" using exFirst_matches by (simp add: matches_def)
  have "list_all (\<lambda>(f, s). list_all goodRecord s \<and> readLines length ?fs f = Some (map stringify s)) [(None, [entryJson exFirst])]"
    using exFirst_record exErase_files(2) by simp
  from al.scanFiles_records [OF this, of ?meta "\<lambda>_. None" exTarget emptyScan] 
  have "scanFiles sha256Hex jsonParse (\<lambda>_. None) length ?fs exTarget ?meta [None] emptyScan = Some
     (emptyScan\<lparr>scPlans := [al.planOf (\<lambda>_. None) exTarget ?meta (None, [entryJson exFirst])], scLiveHasTail := True\<rparr>)"
    using red by (simp add: emptyScan_def noteMarker_def propOf_entry exFirst_def stampedEntry_def exCall_def REDACT_MARKER_TOOL_def)
  then show ?thesis
    unfolding exErase_def exErase_files(1) eraseSection_def Let_def
    using exFirst_matches by (simp add: al.planOf_def flagged_def al.blankPairs_def ambiguousIn_def emptyScan_def orphanRuns_def runMarkers_def eraseStep_def matches_iff)
qed


section \<open>Retention\<close>

lemma rotate_full:
  assumes "dirOk fs" "fsLive fs = Some t" "length (fsDir fs) = roRetainCount opts" "0 < roRetainCount opts"
    "\<And>a. a \<in> set (fsDir fs) \<Longrightarrow> arMtime a < mt" "rotateIfNeeded opts now lm ts mt fs \<noteq> fs"
  obtains a where "listArchives (rotateIfNeeded opts now lm ts mt fs) = tl (listArchives fs) @ [a]" "arText a = Some t"
    "fsLive (rotateIfNeeded opts now lm ts mt fs) = Some []" "fsAnchor (rotateIfNeeded opts now lm ts mt fs) = fsAnchor fs"
proof -
  obtain name where name: "writeArchiveExclusive (fsBase fs) ts (fsDir fs) = Some name"
    using assms(2,6) by (auto simp: rotateIfNeeded_def split: if_splits option.splits)
  define a where "a = \<lparr>arName = name, arMtime = mt, arText = Some t\<rparr>"
  define fs1 where "fs1 = fs\<lparr>fsDir := fsDir fs @ [a], fsLive := Some []\<rparr>"
  let ?key = "archiveKey (fsBase fs)"
  have dir: "dirOk fs1" using assms(1) writeArchiveExclusive_fresh [OF name] by (auto simp: dirOk_def fs1_def a_def)
  have "?key x \<le> ?key a" if "x \<in> set (fsDir fs)" for x using assms(5) [OF that] by (simp add: archiveKey_def a_def less_imp_le)
  then have "sort_key ?key (fsDir fs @ [a]) = sort_key ?key (fsDir fs) @ [a]" by (rule sort_key_snoc_max)
  then have arch: "listArchives fs1 = listArchives fs @ [a]"
    using listArchives_dirOk [OF dir] listArchives_dirOk [OF assms(1)] by (simp add: fs1_def)
  have len: "length (listArchives fs) = roRetainCount opts" using assms(3) listArchives_dirOk [OF assms(1)] by simp
  then obtain x L where L: "listArchives fs = x # L" using assms(4) by (cases "listArchives fs") auto
  define P where "P = (\<lambda>b :: Archive. arName b \<noteq> arName x)"
  have R: "roRetainCount opts = Suc (length L)" using len L by simp
  have "drop (roRetainCount opts) (rev (listArchives fs1)) = [x]" unfolding arch L R by simp
  then have rot: "rotateIfNeeded opts now lm ts mt fs = fs1\<lparr>fsDir := filter P (fsDir fs1)\<rparr>"
    using assms(2,6) name unfolding fs1_def a_def P_def by (auto simp: rotateIfNeeded_def Let_def split: if_splits)
  have names: "distinct (map arName (x # L @ [a]))"
    using dir listArchives_dirOk [OF dir] arch L by (simp add: dirOk_def distinct_map flip: append_Cons)
  have "dirOk (fs1\<lparr>fsDir := filter P (fsDir fs1)\<rparr>)" using dir by (auto simp: dirOk_def distinct_map_filter)
  then have "listArchives (fs1\<lparr>fsDir := filter P (fsDir fs1)\<rparr>) = filter P (listArchives fs1)"
    using listArchives_dirOk [OF dir] by (simp add: listArchives_dirOk filter_sort)
  also have "\<dots> = tl (listArchives fs) @ [a]"
  proof -
    have "P b" if "b \<in> set L" for b
    proof -
      have "arName b \<in> arName ` set L" using that by simp
      then show ?thesis using names by (auto simp only: P_def distinct.simps list.map map_append set_append set_map)
    qed
    then have "filter P L = L" by (simp add: filter_id_conv)
    then show ?thesis using names by (auto simp: arch L P_def)
  qed
  finally show thesis using that [of a] by (simp add: rot fs1_def a_def)
qed

lemma writeContinuation_files:
  "listArchives (alFs (writeContinuation sha user ts True st)) = listArchives (alFs st)"
  "fsAnchor (alFs (writeContinuation sha user ts True st)) = fsAnchor (alFs st)"
  by (simp_all add: writeContinuation_def appendEntry_def appendLive_def Let_def split: option.splits)

context audit_env
begin

lemma continued_after:
  assumes "chained sha (Some ah) as js lh tr ltr" "filled (as @ [js]) = s0 # (j # s1) # rest"
  shows "isContinuationEntry j"
proof -
  let ?link = "historyLink (Some ah)"
  have "recWalk sha ?link always (tagSeg Genesis s0 @ (Boundary, j) # map (Pair Inner) s1 @ concat (map (tagSeg Boundary) rest))
      (None, newTracker True) = Some (lh, tr)"
    using assms by (simp add: chained_def)
  then obtain w w1 where "recStep sha ?link always (Boundary, j) w = Some w1" by (auto simp: recWalk_append split: option.splits)
  then show ?thesis by (auto simp: recStep_def historyLink_def split: if_splits)
qed

lemma history_cut:
  assumes "readAnchor parse fs = Some a" "map arText (listArchives fs) = map (\<lambda>s. Some (textOf s)) as" "filled as = (j # s1) # rest"
    "recordOk j" "isContinuationEntry j" "fsLive fs = Some t" "length t \<le> AUDIT_READ_LIMIT"
  shows "verifyChainWithHistory sha parse fs = VBroken 0 StartsWithContinuation"
proof -
  have "checkRecord sha parse (historyLink (Some ah) Genesis) True 0 (stringify j) w = Inl (VBroken 0 StartsWithContinuation)" for ah w
    using parse_record [OF assms(4)] record_text [OF assms(4)] assms(5) by (simp add: checkRecord_def historyLink_def split: prod.splits)
  then have "walkSegments sha parse (Some ah) ((stringify j # map stringify s1) # ss) = Inl (VBroken 0 StartsWithContinuation)" for ah ss
    by (simp add: walkSegments_def segmentLines_def)
  then show ?thesis using archiveSegments_texts [OF assms(2)] assms(1,3,6,7)
    by (simp add: verifyChainWithHistory_def Let_def)
qed

lemma retention_breaks:
  assumes "audit_reach sha parse cl st" "alQueue st = []" "readAnchor parse (alFs st) = Some a"
    "length (fsDir (alFs st)) = roRetainCount opts" "0 < roRetainCount opts" "\<And>x. x \<in> set (fsDir (alFs st)) \<Longrightarrow> arMtime x < mt"
    "rotateIfNeeded opts now lm ts mt (alFs st) \<noteq> alFs st" "arText (hd (listArchives (alFs st))) \<noteq> Some []"
    "alFs (rotateSection sha parse (rotateIfNeeded opts now lm ts mt) user stamp st) = fs'" "fsLive fs' = Some t" "length t \<le> AUDIT_READ_LIMIT"
  shows "verifyChainWithHistory sha parse fs' = VBroken 0 StartsWithContinuation"
proof -
  obtain as js qs tr ltr where h0: "holding sha parse st as js qs tr ltr" using reach_inv [OF assms(1)] unfolding auditInv_def by blast
  then have "qs = []" using assms(2) by (simp add: holding_def queued_def)
  with h0 have h: "holding sha parse st as js [] tr ltr" by simp
  then have files: "filesOk (alFs st) as js" and good: "list_all goodRecord (concat as @ js)"
    and ch: "chained sha (Some (computeAnchorHash sha a)) as js (alLastHash st) tr ltr"
    using assms(3) by (auto simp: holding_def anchorHashOf_def)
  have dir: "dirOk (alFs st)" and live: "fsLive (alFs st) = Some (textOf js)" and texts: "map arText (listArchives (alFs st)) = map (\<lambda>s. Some (textOf s)) as"
    using files by (auto simp: filesOk_def)
  let ?fs = "rotateIfNeeded opts now lm ts mt (alFs st)"
  obtain x where x: "listArchives ?fs = tl (listArchives (alFs st)) @ [x]" "arText x = Some (textOf js)" "fsLive ?fs = Some []" "fsAnchor ?fs = fsAnchor (alFs st)"
    using rotate_full [OF dir live assms(4-7)] by blast
  have "listArchives (alFs st) \<noteq> []" using assms(4,5) listArchives_dirOk [OF dir] by (metis length_0_conv length_sort less_numeral_extra(3))
  then obtain s0 bs where as: "as = s0 # bs" "s0 \<noteq> []" using texts assms(8) by (cases as; cases "listArchives (alFs st)") auto
  then have js: "js \<noteq> []" using files by (auto simp: filesOk_def filled_def)
  have "filled (bs @ [js]) \<noteq> []" using js by (simp add: filled_snoc)
  then obtain s rest where s: "filled (bs @ [js]) = s # rest" by (cases "filled (bs @ [js])") auto
  then have "s \<in> set (filled (bs @ [js]))" by simp
  then have "s \<noteq> []" by (auto simp: filled_def split: if_splits)
  then obtain j s1 where cut: "filled (bs @ [js]) = (j # s1) # rest" using s by (cases s) auto
  have "isContinuationEntry j" by (rule continued_after [OF ch, of s0 j s1 rest]) (use as cut in \<open>simp add: filled_def\<close>)
  moreover have "recordOk j"
  proof -
    have "j \<in> set (concat (filled (bs @ [js])))" unfolding cut by simp
    then have "j \<in> set (concat as @ js)" using as by auto
    then show ?thesis using good goodRecord_kinds(1) by (auto simp: list_all_iff)
  qed
  moreover have "listArchives fs' = listArchives ?fs" "readAnchor parse fs' = Some a"
    using assms(3,9) x(4) writeContinuation_files [of sha user stamp "st\<lparr>alFs := ?fs\<rparr>"]
    by (simp_all add: rotateSection_def Let_def resync_holding(2) [OF h] readAnchor_def)
  moreover have "map arText (listArchives ?fs) = map (\<lambda>s. Some (textOf s)) (bs @ [js])" using x texts as by (simp add: map_tl)
  ultimately show ?thesis using history_cut [of fs' a "bs @ [js]" j s1 rest t] cut assms(10,11) by simp
qed

end

text \<open>C28: Once a rotation of an anchored log deletes the oldest archive, the full verifier rejects the history at record 0: it now
  begins with a continuation record, while the anchor asks for the genesis.\<close>

theorem retention_breaks_history:
  assumes "audit_reach sha256Hex jsonParse cl st" "alQueue st = []" "readAnchor jsonParse (alFs st) = Some a"
    and "length (fsDir (alFs st)) = roRetainCount opts" "0 < roRetainCount opts" "\<And>x. x \<in> set (fsDir (alFs st)) \<Longrightarrow> arMtime x < mt"
    and "rotateIfNeeded opts now lm ts mt (alFs st) \<noteq> alFs st" "arText (hd (listArchives (alFs st))) \<noteq> Some []"
    and "alFs (rotateSection sha256Hex jsonParse (rotateIfNeeded opts now lm ts mt) user stamp st) = fs'"
    and "fsLive fs' = Some t" "length t \<le> AUDIT_READ_LIMIT"
  shows "verifyChainWithHistory sha256Hex jsonParse fs' = VBroken 0 StartsWithContinuation"
  using assms by (rule al.retention_breaks)

lemma writeArchive_first: "archiveName base ts 0 \<notin> set (map arName dir) \<Longrightarrow> writeArchiveExclusive base ts dir = Some (archiveName base ts 0)"
  by (simp add: writeArchiveExclusive_def upt_conv_Cons del: upt_Suc)

lemma reach_resync:
  assumes "audit_reach sha256Hex jsonParse cl st" "alQueue st = []"
  shows "resyncHead sha256Hex jsonParse st = st"
proof -
  obtain as js qs tr ltr where h: "holding sha256Hex jsonParse st as js qs tr ltr" using al.reach_inv [OF assms(1)] unfolding auditInv_def by blast
  then have "qs = []" using assms(2) by (simp add: holding_def queued_def)
  with h show ?thesis using al.resync_holding(2) by blast
qed

definition exOpts :: RotateOptions where
  "exOpts = \<lparr>roMaxBytes = 0, roMaxAgeDays = 7, roRetainCount = 1\<rparr>"

definition exRotate :: "string \<Rightarrow> int \<Rightarrow> AuditLog \<Rightarrow> AuditLog" where
  "exRotate ts mt st = rotateSection sha256Hex jsonParse (rotateIfNeeded exOpts 0 0 ts mt) \<lparr>auId = ''u'', auRoles = []\<rparr> ''t3'' st"

definition exOnce :: AuditLog where
  "exOnce = exRotate ''A'' 1 (enterExclusive exAnchored)"

definition exNext :: "string \<Rightarrow> string \<Rightarrow> string" where
  "exNext name h = textOf [entryJson (continuationEntry \<lparr>auId = ''u'', auRoles = []\<rparr> ''t3'' name (Some h))]"

lemma exQueue: "alQueue (enterExclusive exAnchored) = []" "alGate (enterExclusive exAnchored) > 0"
    "alLastHash (enterExclusive exAnchored) = Some (sha256Hex (textOf [entryJson exFirst]))"
  by (simp_all add: enterExclusive_def exAnchored_def exNew_def newAuditLog_def logEntry_def stampAndAppend_def appendEntry_def landAppend_def
      exFirst_def textOf_def isFileEmpty_def readTailHash_def ensureAnchor_def readAnchor_def exMint_def Let_def exCall_def)

lemma exRotate_state:
  fixes ts base :: string
  assumes "audit_reach sha256Hex jsonParse cl st" "alQueue st = []" "alLastHash st = Some h" "fsLive (alFs st) = Some t" "t \<noteq> []"
    "fsBase (alFs st) = base" "fsDir (alFs st) = []"
  defines "name \<equiv> archiveName base ts 0"
  shows "exRotate ts mt st = st\<lparr>alFs := (alFs st)\<lparr>fsDir := [\<lparr>arName = name, arMtime = mt, arText = Some t\<rparr>], fsLive := Some (exNext name h)\<rparr>,
     alLastHash := Some (sha256Hex (exNext name h))\<rparr>"
proof -
  let ?a = "\<lparr>arName = name, arMtime = mt, arText = Some t\<rparr>"
  let ?fs = "(alFs st)\<lparr>fsDir := [?a], fsLive := Some []\<rparr>"
  have list: "listArchives ?fs = [?a]"
    using archiveName_match [of base ts 0] assms(6) by (simp add: listArchives_def listRotatedArchives_def name_def)
  have rot: "rotateIfNeeded exOpts 0 0 ts mt (alFs st) = ?fs"
    using assms(4-7) writeArchive_first [of base ts "[]"] list
    by (simp add: rotateIfNeeded_def exOpts_def Let_def name_def)
  show ?thesis
    unfolding exRotate_def rotateSection_def Let_def reach_resync [OF assms(1,2)] rot
    using assms(3) list by (simp add: writeContinuation_def isFileEmpty_def newestArchive_def appendEntry_def appendLive_def exNext_def textOf_def Let_def)
qed

definition exArchived :: string where
  "exArchived = archiveName ''audit.jsonl'' ''A'' 0"

lemma exOnce_state:
  "alFs exOnce = (alFs exAnchored)\<lparr>fsDir := [\<lparr>arName = exArchived, arMtime = 1, arText = Some (textOf [entryJson exFirst])\<rparr>],
     fsLive := Some (exNext exArchived (sha256Hex (textOf [entryJson exFirst])))\<rparr>"
  "alLastHash exOnce = Some (sha256Hex (exNext exArchived (sha256Hex (textOf [entryJson exFirst]))))" "alQueue exOnce = []"
proof -
  have fs: "alFs (enterExclusive exAnchored) = alFs exAnchored" by (simp add: enterExclusive_def)
  have eq: "exOnce = (enterExclusive exAnchored)\<lparr>alFs := (alFs exAnchored)\<lparr>
      fsDir := [\<lparr>arName = exArchived, arMtime = 1, arText = Some (textOf [entryJson exFirst])\<rparr>],
      fsLive := Some (exNext exArchived (sha256Hex (textOf [entryJson exFirst])))\<rparr>,
      alLastHash := Some (sha256Hex (exNext exArchived (sha256Hex (textOf [entryJson exFirst]))))\<rparr>"
    unfolding exOnce_def exArchived_def fs [symmetric]
    by (rule exRotate_state [OF reach_enter [OF exAnchored_reach] exQueue(1,3)]) (simp_all add: fs exAnchored_fs)
  show "alFs exOnce = (alFs exAnchored)\<lparr>fsDir := [\<lparr>arName = exArchived, arMtime = 1, arText = Some (textOf [entryJson exFirst])\<rparr>],
     fsLive := Some (exNext exArchived (sha256Hex (textOf [entryJson exFirst])))\<rparr>"
    "alLastHash exOnce = Some (sha256Hex (exNext exArchived (sha256Hex (textOf [entryJson exFirst]))))" "alQueue exOnce = []"
    by (simp_all add: eq exQueue(1))
qed

lemma exOnce_reach: "audit_reach sha256Hex jsonParse True exOnce"
  unfolding exOnce_def exRotate_def
  by (rule reach_rotate [OF reach_enter [OF exAnchored_reach] exQueue(2,1)]) (simp_all add: exOpts_def enterExclusive_def exAnchored_fs)

lemma exNext_short: "length (exNext ''audit.jsonl.B.gz'' h) \<le> 6 * length h + 400"
  using length_quote [of h]
  by (simp add: exNext_def textOf_def entryJson_def continuationEntry_def actorJson_def quoteStr_def escapeChar_def optField_def hashJson_def resultText_def
      showInt_def showNat.simps)


lemma exTwice_rotated:
  "rotateIfNeeded exOpts 0 0 ''B'' 2 (alFs exOnce) = (alFs exOnce)\<lparr>fsDir := [\<lparr>arName = ''audit.jsonl.B.gz'', arMtime = 2, arText = fsLive (alFs exOnce)\<rparr>], fsLive := Some []\<rparr>"
proof -
  have names: "archiveName ''audit.jsonl'' ''B'' 0 = ''audit.jsonl.B.gz''" "exArchived = ''audit.jsonl.A.gz''" by (simp_all add: archiveName_def exArchived_def)
  have fresh: "writeArchiveExclusive ''audit.jsonl'' ''B'' (fsDir (alFs exOnce)) = Some ''audit.jsonl.B.gz''"
    using writeArchive_first [of "''audit.jsonl''" "''B''" "fsDir (alFs exOnce)"] by (simp add: names exOnce_state(1))
  obtain t where t: "fsLive (alFs exOnce) = Some t" "t \<noteq> []" by (simp add: exOnce_state(1) exNext_def)
  let ?a = "\<lparr>arName = ''audit.jsonl.A.gz'', arMtime = 1, arText = Some (textOf [entryJson exFirst])\<rparr>"
  let ?b = "\<lparr>arName = ''audit.jsonl.B.gz'', arMtime = 2, arText = Some t\<rparr>"
  have dir: "fsDir (alFs exOnce) = [?a]" "fsBase (alFs exOnce) = ''audit.jsonl''" by (simp_all add: exOnce_state(1) exAnchored_fs names)
  have "listArchives ((alFs exOnce)\<lparr>fsDir := [?a, ?b], fsLive := Some []\<rparr>) = [?a, ?b]"
    by (simp add: listArchives_def listRotatedArchives_def dir(2) startsWith_def endsWith_def archiveKey_def)
  then show ?thesis using t fresh by (simp add: rotateIfNeeded_def dir exOpts_def Let_def)
qed

theorem retention_breaks_history_witness:
  "verifyChainWithHistory sha256Hex jsonParse (alFs (exRotate ''B'' 2 exOnce)) = VBroken 0 StartsWithContinuation"
proof -
  let ?h = "sha256Hex (exNext exArchived (sha256Hex (textOf [entryJson exFirst])))"
  have resync: "resyncHead sha256Hex jsonParse exOnce = exOnce" by (rule reach_resync [OF exOnce_reach exOnce_state(3)])
  have list: "listArchives ((alFs exOnce)\<lparr>fsDir := [\<lparr>arName = ''audit.jsonl.B.gz'', arMtime = 2, arText = x\<rparr>], fsLive := Some []\<rparr>) =
      [\<lparr>arName = ''audit.jsonl.B.gz'', arMtime = 2, arText = x\<rparr>]" for x
    by (simp add: listArchives_def listRotatedArchives_def exOnce_state(1) exAnchored_fs startsWith_def endsWith_def)
  have live: "fsLive (alFs (exRotate ''B'' 2 exOnce)) = Some (exNext ''audit.jsonl.B.gz'' ?h)"
    unfolding exRotate_def rotateSection_def Let_def resync exTwice_rotated
    using exOnce_state(2) list by (simp add: writeContinuation_def isFileEmpty_def newestArchive_def appendEntry_def appendLive_def exNext_def textOf_def Let_def)
  have short: "length (exNext ''audit.jsonl.B.gz'' ?h) \<le> AUDIT_READ_LIMIT" using exNext_short [of ?h] by (simp add: AUDIT_READ_LIMIT_def)
  have moved: "rotateIfNeeded exOpts 0 0 ''B'' 2 (alFs exOnce) \<noteq> alFs exOnce"
  proof
    assume "rotateIfNeeded exOpts 0 0 ''B'' 2 (alFs exOnce) = alFs exOnce"
    moreover have "fsLive (rotateIfNeeded exOpts 0 0 ''B'' 2 (alFs exOnce)) = Some []" unfolding exTwice_rotated by simp
    ultimately have "fsLive (alFs exOnce) = Some []" by simp
    then show False by (simp add: exOnce_state(1) exNext_def)
  qed
  have anchor: "readAnchor jsonParse (alFs exOnce) = Some (mintedAnchor exMint)" using exAnchored_anchor by (simp add: exOnce_state(1) readAnchor_def)
  have first: "arText (hd (listArchives (alFs exOnce))) \<noteq> Some []"
    by (simp add: listArchives_def listRotatedArchives_def exOnce_state(1) exAnchored_fs startsWith_def endsWith_def exArchived_def archiveName_def)
  show ?thesis unfolding exRotate_def
    by (rule retention_breaks_history [OF exOnce_reach exOnce_state(3) anchor _ _ _ moved first refl live [unfolded exRotate_def] short])
      (simp_all add: exOnce_state(1) exOpts_def)
qed

end
