(* ===== verification/Spec2Isabelle.thy ===== *)
theory Spec2Isabelle
  imports OutboxDispatchProps OutboxSettle OutboxRecovery OutboxWatch ApprovalProps GraphTraverseProps ReadCacheProps RateLimitProps PrincipalProps RebacProps ScopePageProps AuditLogProps
begin

text \<open>
  \<^bold>\<open>A verification of the core of Lore\<close>

  Lore (\<open>src/packages/lore/src\<close>) is a knowledge database for AI agents: a daemon that keeps a graph of
  nodes and edges per workspace, a second store of embedded texts, and an HTTP and MCP surface in front of
  them. A write commits in the graph and is copied to the other stores by an outbox; a destructive
  operation waits for a second person; a read goes through a cache. This library models that core and
  proves what the rest of the program relies on. All paths below are under \<open>src/packages/lore/src\<close>.

  \<^bold>\<open>The parts and how they interact\<close>

  \<^item> A write route commits a batch of nodes in the graph (\<open>engines/graphShared/nodeBatch.ts\<close>,
    \<open>engines/sqlite\<close>) after it has recorded its outbox rows as \<open>pending_commit\<close> (\<open>outbox/hotLane.ts\<close>). When the
    graph has committed, the rows are flipped to \<open>pending\<close>; when it has not, they are retracted or
    compensated. A crash in between is settled later from graph evidence (\<open>outbox/pendingCommit.ts\<close>) or
    driven to completion at boot (\<open>outbox/recovery.ts\<close>).
  \<^item> The replicator (\<open>outbox/replicator.ts\<close>) claims due rows in sequence order and hands each to the
    dispatcher (\<open>outbox/dispatcher.ts\<close>), which applies it to a substrate; failures are retried with back-off
    or parked as dead letters (\<open>outbox/failureDisposition.ts\<close>).
  \<^item> Reads of the graph walk live edges (\<open>engines/graphShared/traverseBfs.ts\<close>) and are memoised by the read
    cache (\<open>engines/cache.ts\<close>), whose epoch every write bumps.
  \<^item> Destructive schema changes and operations go through the approval queue
    (\<open>security/pendingOps.ts\<close> and the two stores), its tiers and gates, and the decision endpoint
    (\<open>mcp/http/routes/approvals.ts\<close>), which replays an approved operation.
  \<^item> In front of all routes stand the rate limiter (\<open>security/rateLimit.ts\<close>), the confinement of a token to its
    workspaces (\<open>auth/principal.ts\<close>, \<open>security/routeWorkspaceBinding.ts\<close>, the tenant stage of
    \<open>mcp/http/middleware.ts\<close>) and the permission gate (\<open>security/routeGate.ts\<close>); behind them rows carry
    security scopes that filter every read and guard every write (\<open>security/scopeFilter.ts\<close>,
    \<open>security/itemScopes.ts\<close>, \<open>security/writeTargetGate.ts\<close>), pages and counts are computed over the visible rows
    (\<open>security/scopePageFill.ts\<close>, \<open>security/visibleCounts.ts\<close>), and relation tuples decide permissions
    (\<open>security/rebac.ts\<close>, \<open>security/rebacEvaluator.ts\<close>).
  \<^item> Every tool call is recorded in the audit log (\<open>security/audit.ts\<close>), a file of JSON records linked by SHA-256 to an
    anchor (\<open>security/auditChain.ts\<close>). The log is rotated into archives (\<open>security/logRotator.ts\<close>), and the records of a
    deleted workspace are blanked in place (\<open>security/auditRedact.ts\<close>, \<open>engines/workspaceErase/auditEraser.ts\<close>) without
    breaking the chain.

  \<^bold>\<open>The theories\<close>

  \<^item> \<open>Prelude\<close>, \<open>Json\<close>: shared list facts, number printing, JSON values and their text.
  \<^item> \<open>KeyedTable\<close>: the interface of a table with a primary key, as a locale; every record store of the
    development interprets it on its own rows.
  \<^item> \<open>OutboxTypes\<close>, \<open>OutboxStore\<close>, \<open>OutboxStoreProps\<close>: entries, rows, supersession keys and every method of the
    SQLite outbox; uniqueness of ids and sequence numbers, exclusion of claim and retract, what the
    listings and sweeps return.
  \<^item> \<open>OutboxDispatch\<close>, \<open>OutboxDispatchProps\<close>: the dispatcher and the verification probes; errors leave the
    substrate alone, a positive verdict is backed by content.
  \<^item> \<open>OutboxReplicator\<close>, \<open>OutboxReplicatorProps\<close>: the tick with its consolidations, the failure
    disposition and the sweeps; a tick touches due rows only, a later delete wins, budgets are exact. The
    locale \<open>walk_relation\<close> carries the properties of the batch walk.
  \<^item> \<open>OutboxSettle\<close>, \<open>OutboxRecovery\<close>, \<open>OutboxWatch\<close>: the hot lane and its settling, the coordinator and boot
    recovery, the backpressure cache, the dead-letter alarm and the embedding queries.
  \<^item> \<open>PendingOps\<close>, \<open>PendingOpsProps\<close>, \<open>Approval\<close>, \<open>ApprovalProps\<close>: both approval stores as implementations
    (locale \<open>pending_ops_store\<close>) of one abstract machine, the tiers, the schema gate, the endpoints and the
    replay; dual control, one winner per request, fail-closed gates.
  \<^item> \<open>GraphRow\<close>, \<open>GraphEngine\<close>, \<open>GraphBatch\<close>: nodes, edges and their rows, every write of the SQLite graph
    engine, the atomic node batch and the retry around it. \<open>GraphProps\<close> reduces each operation to how it
    moves the tables; \<open>GraphSafety\<close> has the step relation of the engine and the properties: atomic batches,
    no lost update, well-formed tables, forward-only nodes, convergent replay, acyclic supersession.
  \<^item> \<open>GraphTraverse\<close>, \<open>GraphTraverseProps\<close>: both breadth-first walks over any engine's frontier read (locale
    \<open>frontier_source\<close>) and the two SQLite reads as its instances; results are exact distance layers.
  \<^item> \<open>ReadCache\<close>, \<open>ReadCacheProps\<close>: the cache, and the interleaving of its reads and loads with database
    writes; a hit is never older than the last finished write.
  \<^item> \<open>RateLimit\<close>, \<open>RateLimitProps\<close>: request classes, bucket keys, the token bucket and its sweeper; the bound on
    what a key is granted in a window, isolation of principals, an exact retry time.
  \<^item> \<open>Principal\<close>, \<open>PrincipalProps\<close>: scope checks, the workspace header, the binding slot of a route and the
    permission gate; whatever a route rebinds, a confined token opens only workspaces its scopes name.
  \<^item> \<open>Access\<close>, \<open>AccessProps\<close>: the scope filter, the resolution of an item's labels over three stores and the gates
    on writes; the gates fail closed and an id that may be created hides no trace from the actor.
  \<^item> \<open>Rebac\<close>, \<open>RebacProps\<close>: the tuple store, effective relations over groups and ancestors, the evaluator; each
    answers exactly what its relational reading says.
  \<^item> \<open>ScopePage\<close>, \<open>ScopePageProps\<close>: keyset pages and the page fill over any keyset source (locale
    \<open>keyset_source\<close>), the bulk list and the node counts as its instances; hidden rows leave no trace in a
    page and following the cursors lists every visible row once.
  \<^item> \<open>JsonText\<close>, \<open>Sha256\<close>: a reader of JSON text that inverts \<open>JSON.stringify\<close> (locale \<open>json_codec\<close>) and SHA-256 on words.
  \<^item> \<open>AuditChain\<close>, \<open>AuditWriter\<close>: the records, the anchor, both verifiers, the tracker of blanked records; the writer with
    its queue and gate, the rotation, the classification of records and the blank-out.
  \<^item> \<open>AuditProps\<close>, \<open>AuditSafety\<close>, \<open>AuditErase\<close>, \<open>AuditReach\<close>, \<open>AuditLogProps\<close>: the verifiers as walks over records (locale
    \<open>audit_env\<close>, interpreted on \<open>jsonParse\<close> and \<open>sha256Hex\<close>), the invariant of the log under the writer, the rotation and
    the blank-out, the reachable states, and the properties: what the program writes verifies, a verified history cannot be
    altered under a known last record, a complete blank-out leaves nothing, retention removes the genesis.

  \<^bold>\<open>Conventions\<close>

  An object is a record, a union a datatype, a table a list of rows, a \<open>Map\<close> an association list in
  insertion order or a partial function. A thrown error is \<open>Inl\<close>. An operation takes the clock reading it
  makes as an argument, so one tick, pass or call sees one instant; ISO timestamps are milliseconds in the
  outbox and the approval stores and strings in the graph, as each part compares them. Numbers that are
  counters and revisions are \<open>nat\<close> or \<open>int\<close>; scores and token counts are exact rationals, so rounding of
  floating point is outside the model. The principal, the actor and the binding slot, which the program keeps in
  async-local storage, are arguments. Texts are characters: letter case and white
  space are those of ASCII and a length counts characters. In the audit log a character is a byte, a gzipped archive is its text, and the
  names and times of archives and the answers of the file system are arguments.

  Loops end by structural recursion or by a proved measure (the batch walk of the replicator, the
  embedding chunks, the batch retry, the page fill); the loops of the program with a cap of their own keep it: the
  supersession walk stops after 1000 hops, the breadth-first walk after 5 levels or 10000 nodes, the
  page fill after 10000 scanned rows, the ancestor walk at the caller's depth.

  Code outside the repository and hooks the code takes as arguments are parameters: the substrates of the
  dispatcher, the graph reader of the settle pass, step and replay handlers, identifiers, jitter, hashing,
  \<open>localeCompare\<close>, the remote permission service, the sealing of cursors. What a theorem needs of them is a hypothesis of that theorem.

  \<^bold>\<open>Not modelled\<close>

  File handling, process start and timers; the command line; the HTTP wrapper, token validation and the routes other than the
  approval handlers and the page of the bulk list; the MCP server and its tools; the Postgres, ArcadeDB, SurrealDB and cloud engines (the
  same contracts over another database); the embedding stores and the model server; extraction, ingestion
  and streaming; sync and migration; recall ranking; the exporter of the audit log and its sidecar file, and the erasers of other stores. They are listed in the manifest with the reason.
\<close>

end
